(* ===== verification/Prelude.thy ===== *)
theory Prelude
  imports
    Main
    "HOL-Library.Word"
    "HOL-Library.Multiset"
    "HOL-Library.Char_ord"
    "HOL-Library.List_Lexorder"
    "HOL-Library.Product_Lexorder"
begin

text \<open>
  Shared vocabulary of the development: the Rust types and standard-library
  operations the sources use (strings as UTF-8 byte lists, \<open>Vec\<close>
  operations, \<open>Result\<close>, fixed-width integers), the generic lemmas on
  lists and stable sorting that the component proofs rest on, and the named
  theorem collections the components add to.

  A Rust \<open>String\<close> is a \<^typ>\<open>string\<close> whose characters are the bytes of its
  UTF-8 encoding; the byte-wise order of Rust's \<open>str::cmp\<close> is then the
  lexicographic order of the list.  \<open>usize\<close> lengths and counts are \<^typ>\<open>nat\<close>;
  a \<open>u64\<close> is kept as \<^typ>\<open>64 word\<close> wherever the source's wrap-around or
  saturation can be observed.  \<open>Result<T, E>\<close> is \<open>'e + 't\<close> with \<open>Inl\<close> the
  error.
\<close>

section \<open>Collections and types\<close>

named_theorems op_simps \<open>unfolding rules of the components' operations\<close>
named_theorems inv_intros \<open>invariant preservation rules\<close>

type_synonym u32 = "32 word"
type_synonym u64 = "64 word"
type_synonym byte = "8 word"
type_synonym ('e, 'a) result = "'e + 'a"

abbreviation Ok :: "'a \<Rightarrow> ('e, 'a) result" where
  "Ok \<equiv> Inr"

abbreviation Err :: "'e \<Rightarrow> ('e, 'a) result" where
  "Err \<equiv> Inl"

abbreviation u64_max :: nat where
  "u64_max \<equiv> 2 ^ 64 - 1"

text \<open>\<open>saturating_add\<close> and \<open>saturating_sub\<close> of the unsigned integer types.\<close>

definition saturating_add :: "'a::len word \<Rightarrow> 'a word \<Rightarrow> 'a word" where
  "saturating_add a b = (if unat a + unat b < 2 ^ LENGTH('a) then a + b else - 1)"

definition saturating_sub :: "'a::len word \<Rightarrow> 'a word \<Rightarrow> 'a word" where
  "saturating_sub a b = (if b \<le> a then a - b else 0)"

lemma unat_minus_one [simp]: "unat (- 1 :: 'a::len word) = 2 ^ LENGTH('a) - 1"
  by (simp add: unsigned_minus_1_eq_mask mask_eq_exp_minus_1)

lemma unat_saturating_add:
  "unat (saturating_add a (b :: 'a::len word)) = min (unat a + unat b) (2 ^ LENGTH('a) - 1)"
  by (auto simp: saturating_add_def unat_word_ariths min_def)

lemma unat_saturating_sub: "unat (saturating_sub a b) = unat a - unat b"
  by (auto simp: saturating_sub_def unat_sub word_le_nat_alt)

text \<open>\<open>Iterator::map(f).collect::<Result<Vec<_>, _>>()\<close>: the first error wins.\<close>

fun collect_results :: "('a \<Rightarrow> ('e, 'b) result) \<Rightarrow> 'a list \<Rightarrow> ('e, 'b list) result" where
  "collect_results f [] = Ok []"
| "collect_results f (x # xs) =
     (case f x of
        Inl e \<Rightarrow> Err e
      | Inr y \<Rightarrow> (case collect_results f xs of Inl e \<Rightarrow> Err e | Inr ys \<Rightarrow> Ok (y # ys)))"

lemma collect_results_Ok_iff:
  "collect_results f xs = Inr ys \<longleftrightarrow> list_all2 (\<lambda>x y. f x = Inr y) xs ys"
proof (induction xs arbitrary: ys)
  case (Cons x xs)
  show ?case
  proof (cases "f x")
    case (Inr y)
    then show ?thesis
      using Cons.IH [of "tl ys"] Cons.IH
      by (cases "collect_results f xs") (auto simp: list_all2_Cons1)
  qed (auto simp: list_all2_Cons1)
qed auto

lemma collect_results_map:
  "(\<And>x. x \<in> set xs \<Longrightarrow> f x = Inr (g x)) \<Longrightarrow> collect_results f xs = Inr (map g xs)"
  by (induction xs) auto

lemma collect_results_first_error:
  assumes "\<And>x. x \<in> set pre \<Longrightarrow> \<exists>y. f x = Inr y" and "f x = Inl e"
  shows "collect_results f (pre @ x # post) = Inl e"
  using assms
proof (induction pre)
  case (Cons a pre)
  then obtain y where "f a = Inr y" by fastforce
  with Cons show ?case by simp
qed simp

section \<open>Vector operations of the standard library\<close>

text \<open>\<open>Iterator::position\<close> and \<open>Vec::remove\<close>.\<close>

fun position :: "('a \<Rightarrow> bool) \<Rightarrow> 'a list \<Rightarrow> nat option" where
  "position P [] = None"
| "position P (x # xs) = (if P x then Some 0 else map_option Suc (position P xs))"

definition remove_at :: "nat \<Rightarrow> 'a list \<Rightarrow> 'a list" where
  "remove_at i xs = take i xs @ drop (Suc i) xs"

lemma remove_at_simps [simp]:
  "remove_at 0 (x # xs) = xs"
  "remove_at (Suc i) (x # xs) = x # remove_at i xs"
  "remove_at i [] = []"
  by (simp_all add: remove_at_def)

lemma position_None: "position P xs = None \<longleftrightarrow> (\<forall>x \<in> set xs. \<not> P x)"
  by (induction xs) auto

lemma position_Some:
  assumes "position P xs = Some i"
  shows "i < length xs" and "P (xs ! i)" and "\<And>j. j < i \<Longrightarrow> \<not> P (xs ! j)"
proof -
  have "i < length xs \<and> P (xs ! i) \<and> (\<forall>j < i. \<not> P (xs ! j))"
    using assms
  proof (induction xs arbitrary: i)
    case (Cons x xs)
    then show ?case
      by (cases i) (auto simp: less_Suc_eq_0_disj split: if_splits)
  qed simp
  then show "i < length xs" and "P (xs ! i)" and "\<And>j. j < i \<Longrightarrow> \<not> P (xs ! j)"
    by auto
qed

lemma position_split:
  assumes "position P xs = Some i"
  shows "xs = take i xs @ xs ! i # drop (Suc i) xs"
  using position_Some(1) [OF assms] by (simp add: id_take_nth_drop)

lemma mset_remove_at:
  "i < length xs \<Longrightarrow> mset xs = add_mset (xs ! i) (mset (remove_at i xs))"
  by (subst (1) id_take_nth_drop [of i xs]) (auto simp: remove_at_def)

lemma length_remove_at: "i < length xs \<Longrightarrow> length (remove_at i xs) = length xs - 1"
  by (simp add: remove_at_def)

text \<open>\<open>Vec::dedup_by(|a, b| same(a, b))\<close> drops an element that is the same as
  the last element kept before it.\<close>

fun dedup_by :: "('a \<Rightarrow> 'a \<Rightarrow> bool) \<Rightarrow> 'a list \<Rightarrow> 'a list" where
  "dedup_by R [] = []"
| "dedup_by R [x] = [x]"
| "dedup_by R (x # y # xs) =
     (if R y x then dedup_by R (x # xs) else x # dedup_by R (y # xs))"

lemma set_dedup_by_subset: "set (dedup_by R xs) \<subseteq> set xs"
  by (induction R xs rule: dedup_by.induct) auto

lemma hd_dedup_by: "xs \<noteq> [] \<Longrightarrow> hd (dedup_by R xs) = hd xs"
  by (induction R xs rule: dedup_by.induct) auto

lemma dedup_by_nonempty: "dedup_by R xs = [] \<longleftrightarrow> xs = []"
  by (induction R xs rule: dedup_by.induct) auto

lemma dedup_by_represents:
  assumes refl: "\<And>x. R x x" and trans: "\<And>x y z. R x y \<Longrightarrow> R y z \<Longrightarrow> R x z"
  shows "x \<in> set xs \<Longrightarrow> \<exists>y \<in> set (dedup_by R xs). R x y"
  using refl trans
proof (induction R xs rule: dedup_by.induct)
  case (3 R x' y xs)
  have hd_in: "x' \<in> set (dedup_by R (x' # xs))"
    using hd_dedup_by [of "x' # xs" R] dedup_by_nonempty [of R "x' # xs"]
    by (metis hd_in_set list.sel(1) list.simps(3))
  show ?case
  proof (cases "R y x'")
    case True
    with 3 hd_in show ?thesis by auto
  next
    case False
    with 3 show ?thesis by auto
  qed
qed auto

lemma set_dedup_by:
  assumes "\<And>x y. x \<in> set xs \<Longrightarrow> y \<in> set xs \<Longrightarrow> R y x \<Longrightarrow> y = x"
  shows "set (dedup_by R xs) = set xs"
  using assms
proof (induction R xs rule: dedup_by.induct)
  case (3 R x y xs)
  show ?case
  proof (cases "R y x")
    case True
    then have eq: "y = x" by (intro "3.prems") simp_all
    have "set (dedup_by R (x # xs)) = set (x # xs)"
      by (rule "3.IH"(1) [OF True]) (rule "3.prems", auto)
    with True eq show ?thesis by simp
  next
    case False
    have "set (dedup_by R (y # xs)) = set (y # xs)"
      by (rule "3.IH"(2) [OF False]) (rule "3.prems", auto)
    with False show ?thesis by simp
  qed
qed simp_all

end
