(* ===== verification/Model.thy ===== *)
theory Model
  imports Prelude
begin

text \<open>
  The shared data model of the daemon, crate \<open>pcloud-model\<close>: the identifier
  newtypes of \<open>ids.rs\<close>, the synchronisation vocabulary of \<open>sync.rs\<close>
  (change sources and kinds, sync types, candidates and planned operations),
  the conflict vocabulary of \<open>conflict.rs\<close> and the transfer vocabulary of
  \<open>transfer.rs\<close>.  Every engine component imports this theory.

  The newtypes of the macro \<open>define_id!\<close> become one-constructor datatypes, so
  that ids of different kinds cannot be mixed, as in the source; the derived
  \<open>Ord\<close> instances that the engine's sorts and ordered sets use are
  instances of the class \<open>linorder\<close>.
\<close>

section \<open>Identifiers\<close>

datatype sync_id = SyncId (sync_id_get: u64)
datatype remote_file_id = RemoteFileId (remote_file_id_get: u64)
datatype remote_folder_id = RemoteFolderId (remote_folder_id_get: u64)
datatype diff_cursor = DiffCursor (diff_cursor_get: u64)

instantiation sync_id :: linorder
begin

definition less_eq_sync_id :: "sync_id \<Rightarrow> sync_id \<Rightarrow> bool" where
  "a \<le> b \<longleftrightarrow> sync_id_get a \<le> sync_id_get b"

definition less_sync_id :: "sync_id \<Rightarrow> sync_id \<Rightarrow> bool" where
  "a < b \<longleftrightarrow> sync_id_get a < sync_id_get b"

instance
  by standard (auto simp: less_eq_sync_id_def less_sync_id_def sync_id.expand)

end

lemma sync_id_less_simps [simp]:
  "SyncId a \<le> SyncId b \<longleftrightarrow> a \<le> b"
  "SyncId a < SyncId b \<longleftrightarrow> a < b"
  by (simp_all add: less_eq_sync_id_def less_sync_id_def)

section \<open>Session and sync state\<close>

datatype sync_state = Initializing | CatchingUp | Steady | Paused | Degraded | Recovering

datatype auth_state =
    LoggedOut
  | AwaitingCredentials
  | AuthenticatingWithPassword
  | AuthenticatingWithDigest
  | TwoFactorRequired
  | AuthenticatingWithToken
  | Authenticated
  | AuthFailed
  | AuthDegraded

section \<open>Changes\<close>

datatype change_source = Local | Remote
datatype entry_kind = File | Folder
datatype change_kind = Upsert | Delete

text \<open>\<open>ChangeSource\<close> derives \<open>Ord\<close>: the planner's sort relies on
  \<open>Local < Remote\<close>.\<close>

instantiation change_source :: linorder
begin

fun less_eq_change_source :: "change_source \<Rightarrow> change_source \<Rightarrow> bool" where
  "less_eq_change_source Local _ \<longleftrightarrow> True"
| "less_eq_change_source Remote Remote \<longleftrightarrow> True"
| "less_eq_change_source Remote Local \<longleftrightarrow> False"

definition less_change_source :: "change_source \<Rightarrow> change_source \<Rightarrow> bool" where
  "a < b \<longleftrightarrow> a = Local \<and> b = Remote"

instance
proof
  fix a b c :: change_source
  show "(a < b) = (a \<le> b \<and> \<not> b \<le> a)"
    by (cases a; cases b) (simp_all add: less_change_source_def)
  show "a \<le> a" by (cases a) simp_all
  show "a \<le> b \<Longrightarrow> b \<le> c \<Longrightarrow> a \<le> c" by (cases a; cases b; cases c) simp_all
  show "a \<le> b \<Longrightarrow> b \<le> a \<Longrightarrow> a = b" by (cases a; cases b) simp_all
  show "a \<le> b \<or> b \<le> a" by (cases a; cases b) simp_all
qed

end

lemma change_source_less_simps [simp]: "Local < Remote" "\<not> Remote < (s::change_source)"
  by (simp_all add: less_change_source_def)

section \<open>Sync types\<close>

datatype sync_type = DownloadOnly | UploadOnly | Full | BackupArchive

fun as_u8 :: "sync_type \<Rightarrow> byte" where
  "as_u8 DownloadOnly = 1"
| "as_u8 UploadOnly = 2"
| "as_u8 Full = 3"
| "as_u8 BackupArchive = 4"

definition from_u8 :: "byte \<Rightarrow> sync_type option" where
  "from_u8 value =
     (if value = 1 then Some DownloadOnly
      else if value = 2 then Some UploadOnly
      else if value = 3 then Some Full
      else if value = 4 then Some BackupArchive
      else None)"

fun label :: "sync_type \<Rightarrow> string" where
  "label DownloadOnly = ''download-only''"
| "label UploadOnly = ''upload-only''"
| "label Full = ''full''"
| "label BackupArchive = ''backup-archive''"

text \<open>The persisted encoding is a bijection between the four sync types
  and the byte values 1 to 4: decoding is the exact inverse of encoding, in
  both directions, and rejects every other byte.\<close>

lemma sync_type_u8_roundtrip: "from_u8 b = Some t \<longleftrightarrow> b = as_u8 t"
  by (cases t) (auto simp: from_u8_def)

section \<open>Candidates and planned operations\<close>

record sync_candidate =
  cand_sync_id :: sync_id
  cand_source :: change_source
  cand_path :: string
  cand_entry_kind :: entry_kind
  cand_change_kind :: change_kind
  cand_remote_file_id :: "remote_file_id option"
  cand_remote_folder_id :: "remote_folder_id option"

datatype conflict_kind =
    LocalModifyVsRemoteModify
  | LocalDeleteVsRemoteModify
  | RemoteDeleteVsLocalModify
  | TypeMismatch
  | RenameCollision
  | ParentPathConflict
  | ResumeChecksumMismatch
  | CryptoAvailabilityConflict

text \<open>The fields of each variant are in the order of the source:
  \<open>UploadFile { sync_id, path, remote_parent_folder_id, remote_name }\<close>, and so on.\<close>

datatype planned_operation =
    UploadFile sync_id string "remote_folder_id option" string
  | DownloadFile sync_id string "remote_file_id option"
  | CreateLocalDirectory sync_id string "remote_folder_id option"
  | CreateRemoteDirectory sync_id string
  | DeleteLocal sync_id string
  | DeleteRemote sync_id string
  | Conflict sync_id string conflict_kind

fun op_sync_id :: "planned_operation \<Rightarrow> sync_id" where
  "op_sync_id (UploadFile sid _ _ _) = sid"
| "op_sync_id (DownloadFile sid _ _) = sid"
| "op_sync_id (CreateLocalDirectory sid _ _) = sid"
| "op_sync_id (CreateRemoteDirectory sid _) = sid"
| "op_sync_id (DeleteLocal sid _) = sid"
| "op_sync_id (DeleteRemote sid _) = sid"
| "op_sync_id (Conflict sid _ _) = sid"

fun op_priority :: "planned_operation \<Rightarrow> nat" where
  "op_priority (Conflict _ _ _) = 0"
| "op_priority (DeleteLocal _ _) = 1"
| "op_priority (DeleteRemote _ _) = 1"
| "op_priority (CreateLocalDirectory _ _ _) = 2"
| "op_priority (CreateRemoteDirectory _ _) = 2"
| "op_priority (DownloadFile _ _ _) = 3"
| "op_priority (UploadFile _ _ _ _) = 3"

fun op_path :: "planned_operation \<Rightarrow> string" where
  "op_path (UploadFile _ p _ _) = p"
| "op_path (DownloadFile _ p _) = p"
| "op_path (CreateLocalDirectory _ p _) = p"
| "op_path (CreateRemoteDirectory _ p) = p"
| "op_path (DeleteLocal _ p) = p"
| "op_path (DeleteRemote _ p) = p"
| "op_path (Conflict _ p _) = p"

text \<open>The \<open>matches!\<close> tests the engine makes on operations, and the pair
  \<open>(sync_id, path)\<close> under which it acknowledges them.\<close>

fun is_conflict :: "planned_operation \<Rightarrow> bool" where
  "is_conflict (Conflict _ _ _) = True"
| "is_conflict _ = False"

fun is_delete :: "planned_operation \<Rightarrow> bool" where
  "is_delete (DeleteLocal _ _) = True"
| "is_delete (DeleteRemote _ _) = True"
| "is_delete _ = False"

abbreviation op_key :: "planned_operation \<Rightarrow> sync_id \<times> string" where
  "op_key p \<equiv> (op_sync_id p, op_path p)"

lemma op_priority_le: "op_priority p \<le> 3"
  by (cases p) simp_all

lemma op_priority_0_iff: "op_priority p = 0 \<longleftrightarrow> is_conflict p"
  by (cases p) simp_all

lemma op_priority_1_iff: "op_priority p = 1 \<longleftrightarrow> is_delete p"
  by (cases p) simp_all

section \<open>Conflict resolutions, transfers and recovery decisions\<close>

datatype conflict_resolution =
    Apply planned_operation
  | ManualReview string conflict_kind string
  | RenameBoth string string string sync_id

datatype transfer_state =
    Planned | Preparing | Streaming | Verifying | Committing | Retrying | Failed | Completed

record transfer_task =
  task_operation :: planned_operation
  task_state :: transfer_state
  task_last_error :: "string option"

definition planned :: "planned_operation \<Rightarrow> transfer_task" where
  "planned operation =
     \<lparr>task_operation = operation, task_state = Planned, task_last_error = None\<rparr>"

datatype failure_disposition = RetryNow | RetryLater | ManualIntervention | Terminal

record recovery_decision =
  dec_operation :: planned_operation
  dec_disposition :: failure_disposition
  dec_reason :: string

lemma planned_simps [simp]:
  "task_operation (planned p) = p"
  "task_state (planned p) = Planned"
  "task_last_error (planned p) = None"
  by (simp_all add: planned_def)

end
