(* ===== verification/Rust_Str.thy ===== *)
theory Rust_Str
  imports Prelude
begin

text \<open>
  The \<open>str\<close> methods the sources use, on UTF-8 byte lists: \<open>split\<close>,
  \<open>rsplit(..).next()\<close>, \<open>rfind\<close>, \<open>starts_with\<close>, \<open>contains\<close>, \<open>strip_prefix\<close>,
  \<open>trim\<close>, \<open>trim_start_matches\<close> and \<open>lines\<close>.  \<open>trim\<close> removes the 25 characters
  with the Unicode property White\_Space, by their UTF-8 encodings.
\<close>

section \<open>Splitting\<close>

fun split_on :: "char \<Rightarrow> string \<Rightarrow> string list" where
  "split_on d [] = [[]]"
| "split_on d (c # cs) =
     (if c = d then [] # split_on d cs
      else case split_on d cs of [] \<Rightarrow> [[c]] | w # ws \<Rightarrow> (c # w) # ws)"

fun join_with :: "char \<Rightarrow> string list \<Rightarrow> string" where
  "join_with d [] = []"
| "join_with d [w] = w"
| "join_with d (w # v # ws) = w @ d # join_with d (v # ws)"

lemma split_on_nonempty [simp]: "split_on d s \<noteq> []"
  by (induction s) (auto split: list.splits)

lemma join_split_on: "join_with d (split_on d s) = s"
proof (induction s)
  case (Cons c s)
  then show ?case
    by (cases "split_on d s" rule: list.exhaust; cases "tl (split_on d s)" rule: list.exhaust)
      (auto split: list.splits)
qed simp

lemma split_on_no_sep: "w \<in> set (split_on d s) \<Longrightarrow> d \<notin> set w"
  by (induction s arbitrary: w) (auto split: list.splits if_splits)

lemma split_on_append:
  "split_on d (s @ t) =
     butlast (split_on d s) @ (last (split_on d s) @ hd (split_on d t)) # tl (split_on d t)"
proof (induction s)
  case Nil
  show ?case by (cases "split_on d t") auto
next
  case (Cons c s)
  then show ?case
    by (cases "split_on d s") (auto split: list.splits)
qed

lemma split_on_plain: "d \<notin> set w \<Longrightarrow> split_on d w = [w]"
  by (induction w) auto

lemma split_on_Cons_sep: "split_on d (d # t) = [] # split_on d t"
  by simp

lemma split_join_with:
  "ws \<noteq> [] \<Longrightarrow> (\<And>w. w \<in> set ws \<Longrightarrow> d \<notin> set w) \<Longrightarrow> split_on d (join_with d ws) = ws"
  by (induction d ws rule: join_with.induct) (auto simp: split_on_append split_on_plain)

lemma split_on_padded:
  assumes "d \<notin> set u" and "d \<notin> set v" and "w \<in> set (split_on d (u @ t @ v))"
  shows "\<exists>x w' y. w = x @ w' @ y \<and> w' \<in> set (split_on d t) \<and> set x \<subseteq> set u \<and> set y \<subseteq> set v"
proof -
  obtain a b where ab: "split_on d t = a # b" by (cases "split_on d t") auto
  have "split_on d (u @ t @ v) = (case b of [] \<Rightarrow> [u @ a @ v]
      | _ # _ \<Rightarrow> (u @ a) # butlast b @ [last b @ v])"
    by (simp add: split_on_append split_on_plain [OF assms(1)] split_on_plain [OF assms(2)] ab
        split: list.split)
  then consider "w = u @ a @ v" | "w = u @ a @ []" | "w \<in> set (butlast b)" | "b \<noteq> []" "w = [] @ last b @ v"
    using assms(3) by (cases b) (auto split: if_splits)
  then show ?thesis
  proof cases
    case 3
    then have "w = [] @ w @ []" "w \<in> set (split_on d t)" by (auto simp: ab dest: in_set_butlastD)
    then show ?thesis by (metis empty_subsetI list.set(1))
  next
    case 4
    then have "last b \<in> set (split_on d t)" by (simp add: ab)
    with 4 show ?thesis by (metis empty_subsetI list.set(1) subset_refl)
  qed (use ab in \<open>metis empty_subsetI list.set(1) list.set_intros(1) subset_refl\<close>)+
qed

text \<open>\<open>s.lines()\<close>: split after each line feed, without a last empty line; a
  carriage return before the line feed belongs to the line ending.\<close>

definition strip_cr :: "string \<Rightarrow> string" where
  "strip_cr s = (if s \<noteq> [] \<and> last s = CHR 0x0D then butlast s else s)"

definition str_lines :: "string \<Rightarrow> string list" where
  "str_lines s =
     (let ws = split_on (CHR 0x0A) s in
      map strip_cr (butlast ws) @ (if last ws = [] then [] else [last ws]))"

text \<open>\<open>s.rsplit(d).next()\<close>: the last segment.\<close>

definition rsplit_first :: "char \<Rightarrow> string \<Rightarrow> string" where
  "rsplit_first d s = last (split_on d s)"

text \<open>\<open>s.rfind(d)\<close>: byte index of the last occurrence.\<close>

fun rfind :: "char \<Rightarrow> string \<Rightarrow> nat option" where
  "rfind d [] = None"
| "rfind d (c # cs) =
     (case rfind d cs of Some i \<Rightarrow> Some (Suc i) | None \<Rightarrow> if c = d then Some 0 else None)"

lemma rfind_None: "rfind d s = None \<longleftrightarrow> d \<notin> set s"
  by (induction s) (auto split: option.splits)

lemma rfind_append_last: "d \<notin> set v \<Longrightarrow> rfind d (u @ d # v) = Some (length u)"
proof (induction u)
  case Nil
  then have "rfind d v = None" by (simp add: rfind_None)
  then show ?case by simp
qed simp

lemma rfind_Some:
  assumes "rfind d s = Some i"
  obtains u v where "s = u @ d # v" and "i = length u" and "d \<notin> set v"
proof -
  have "d \<in> set s" using assms rfind_None [of d s] by auto
  then obtain u v where "s = u @ d # v" "d \<notin> set v"
    by (metis split_list_last)
  with assms rfind_append_last [of d v u] that show ?thesis by auto
qed

section \<open>Prefixes\<close>

definition starts_with :: "string \<Rightarrow> string \<Rightarrow> bool" where
  "starts_with s p \<longleftrightarrow> take (length p) s = p"

definition strip_prefix :: "string \<Rightarrow> string \<Rightarrow> string option" where
  "strip_prefix s p = (if starts_with s p then Some (drop (length p) s) else None)"

lemma starts_with_iff: "starts_with s p \<longleftrightarrow> (\<exists>t. s = p @ t)"
  unfolding starts_with_def by (metis append_eq_conv_conj)

lemma starts_with_char: "starts_with s [c] \<longleftrightarrow> s \<noteq> [] \<and> hd s = c"
  by (cases s) (auto simp: starts_with_def)

text \<open>\<open>s.trim_start_matches(c)\<close>.\<close>

definition trim_start_char :: "char \<Rightarrow> string \<Rightarrow> string" where
  "trim_start_char c s = dropWhile (\<lambda>x. x = c) s"

section \<open>Trimming Unicode white space\<close>

text \<open>UTF-8 encodings of U+0009..000D, 0020, 0085, 00A0, 1680, 2000..200A, 2028,
  2029, 202F, 205F and 3000.\<close>

definition whitespace_encodings :: "string list" where
  "whitespace_encodings =
     [[CHR 0x09], [CHR 0x0A], [CHR 0x0B], [CHR 0x0C], [CHR 0x0D], [CHR 0x20],
      [CHR 0xC2, CHR 0x85], [CHR 0xC2, CHR 0xA0], [CHR 0xE1, CHR 0x9A, CHR 0x80],
      [CHR 0xE2, CHR 0x80, CHR 0x80], [CHR 0xE2, CHR 0x80, CHR 0x81],
      [CHR 0xE2, CHR 0x80, CHR 0x82], [CHR 0xE2, CHR 0x80, CHR 0x83],
      [CHR 0xE2, CHR 0x80, CHR 0x84], [CHR 0xE2, CHR 0x80, CHR 0x85],
      [CHR 0xE2, CHR 0x80, CHR 0x86], [CHR 0xE2, CHR 0x80, CHR 0x87],
      [CHR 0xE2, CHR 0x80, CHR 0x88], [CHR 0xE2, CHR 0x80, CHR 0x89],
      [CHR 0xE2, CHR 0x80, CHR 0x8A], [CHR 0xE2, CHR 0x80, CHR 0xA8],
      [CHR 0xE2, CHR 0x80, CHR 0xA9], [CHR 0xE2, CHR 0x80, CHR 0xAF],
      [CHR 0xE2, CHR 0x81, CHR 0x9F], [CHR 0xE3, CHR 0x80, CHR 0x80]]"

function trim_start_by :: "string list \<Rightarrow> string \<Rightarrow> string" where
  "trim_start_by ws s =
     (case find (\<lambda>w. w \<noteq> [] \<and> starts_with s w) ws of
        None \<Rightarrow> s
      | Some w \<Rightarrow> trim_start_by ws (drop (length w) s))"
  by pat_completeness auto
termination
proof (relation "measure (\<lambda>(ws, s). length s)")
  fix ws :: "string list" and s w :: string
  assume "find (\<lambda>w. w \<noteq> [] \<and> starts_with s w) ws = Some w"
  then have "w \<noteq> []" and "starts_with s w"
    by (auto simp: find_Some_iff)
  then show "((ws, drop (length w) s), (ws, s)) \<in> measure (\<lambda>(ws, s). length s)"
    by (auto simp: starts_with_iff)
qed simp

declare trim_start_by.simps [simp del]

definition trim_start :: "string \<Rightarrow> string" where
  "trim_start s = trim_start_by whitespace_encodings s"

definition trim_end :: "string \<Rightarrow> string" where
  "trim_end s = rev (trim_start_by (map rev whitespace_encodings) (rev s))"

definition trim :: "string \<Rightarrow> string" where
  "trim s = trim_end (trim_start s)"

lemma trim_start_by_suffix: "\<exists>u. s = u @ trim_start_by ws s \<and> u \<in> lists (\<Union> (set ` set ws))"
proof (induction ws s rule: trim_start_by.induct)
  case (1 ws s)
  show ?case
  proof (cases "find (\<lambda>w. w \<noteq> [] \<and> starts_with s w) ws")
    case None
    then show ?thesis by (subst trim_start_by.simps) simp
  next
    case (Some w)
    then have w: "w \<in> set ws" "starts_with s w"
      by (auto simp: find_Some_iff)
    then obtain t where t: "s = w @ t" by (auto simp: starts_with_iff)
    from "1.IH" [OF Some] obtain u
      where u: "t = u @ trim_start_by ws t" "u \<in> lists (\<Union> (set ` set ws))"
      by (auto simp: t)
    have "trim_start_by ws s = trim_start_by ws t"
      using Some by (subst trim_start_by.simps) (simp add: t)
    with t u w show ?thesis
      by (intro exI [of _ "w @ u"]) (auto simp: in_lists_conv_set)
  qed
qed

text \<open>Trimming only removes bytes of white-space encodings, from both ends.\<close>

definition whitespace_bytes :: "char set" where
  "whitespace_bytes = \<Union> (set ` set whitespace_encodings)"

lemma trim_decompose:
  "\<exists>u v. s = u @ trim s @ v \<and> set u \<subseteq> whitespace_bytes \<and> set v \<subseteq> whitespace_bytes"
proof -
  obtain u where u: "s = u @ trim_start s" "set u \<subseteq> whitespace_bytes"
    using trim_start_by_suffix [of s whitespace_encodings]
    by (fastforce simp: trim_start_def whitespace_bytes_def in_lists_conv_set)
  obtain v where v: "rev (trim_start s) = v @ trim_start_by (map rev whitespace_encodings) (rev (trim_start s))"
    "v \<in> lists (\<Union> (set ` set (map rev whitespace_encodings)))"
    using trim_start_by_suffix by blast
  from v(1) have "trim_start s = trim s @ rev v"
    unfolding trim_def trim_end_def by (metis rev_append rev_rev_ident)
  moreover from v(2) have "set (rev v) \<subseteq> whitespace_bytes"
    by (auto simp: whitespace_bytes_def in_lists_conv_set)
  ultimately show ?thesis using u by metis
qed

lemma not_whitespace_bytes [simp]:
  "CHR ''/'' \<notin> whitespace_bytes" "CHR ''.'' \<notin> whitespace_bytes" "CHR 0x5C \<notin> whitespace_bytes"
  by (simp_all add: whitespace_bytes_def whitespace_encodings_def)

section \<open>Decimal formatting\<close>

text \<open>\<open>format!("{}", n)\<close> of an unsigned integer.\<close>

fun show_nat :: "nat \<Rightarrow> string" where
  "show_nat n =
     (if n < 10 then [''0123456789'' ! n] else show_nat (n div 10) @ [''0123456789'' ! (n mod 10)])"

declare show_nat.simps [simp del]

end
