(* ===== verification/Planner.thy ===== *)
theory Planner
  imports Model Rust_Str
begin

text \<open>
  The candidate planner, \<open>pcloud-engine/src/planner.rs\<close>.  The nested loops of
  \<open>Planner::plan_with_overflow\<close> over the stably sorted candidates are
  \<open>plan_loop\<close> (outer) and \<open>collect_group\<close> (inner); the delete policy is the
  post-plan filter of \<open>plan_filtered_with_overflow\<close>.  The main theorem states
  that the loops compute a declarative plan: one operation for each of the
  first \<open>cap\<close> paths in order, made from the last local and the last remote
  observation of that path, and every candidate of every later path returned
  as overflow.
\<close>

section \<open>The planner\<close>

record planner =
  max_operations_per_tick :: nat

definition planner_default :: planner where
  "planner_default = \<lparr>max_operations_per_tick = 1024\<rparr>"

definition basename :: "string \<Rightarrow> string" where
  "basename path = rsplit_first (CHR ''/'') path"

definition conflict :: "sync_candidate \<Rightarrow> conflict_kind \<Rightarrow> planned_operation" where
  "conflict candidate kind = Conflict (cand_sync_id candidate) (cand_path candidate) kind"

definition plan_conflict_or_resolution ::
  "sync_candidate \<Rightarrow> sync_candidate \<Rightarrow> planned_operation" where
  "plan_conflict_or_resolution local remote =
     (if cand_entry_kind local \<noteq> cand_entry_kind remote then conflict local TypeMismatch
      else case (cand_change_kind local, cand_change_kind remote) of
        (Upsert, Upsert) \<Rightarrow> conflict local LocalModifyVsRemoteModify
      | (Delete, Upsert) \<Rightarrow> conflict local LocalDeleteVsRemoteModify
      | (Upsert, Delete) \<Rightarrow> conflict local RemoteDeleteVsLocalModify
      | (Delete, Delete) \<Rightarrow> DeleteLocal (cand_sync_id remote) (cand_path remote))"

definition plan_single :: "sync_candidate \<Rightarrow> planned_operation" where
  "plan_single c =
     (case (cand_source c, cand_entry_kind c, cand_change_kind c) of
        (Local, File, Upsert) \<Rightarrow>
          UploadFile (cand_sync_id c) (cand_path c) (cand_remote_folder_id c)
            (basename (cand_path c))
      | (Remote, File, Upsert) \<Rightarrow>
          DownloadFile (cand_sync_id c) (cand_path c) (cand_remote_file_id c)
      | (Local, Folder, Upsert) \<Rightarrow> CreateRemoteDirectory (cand_sync_id c) (cand_path c)
      | (Remote, Folder, Upsert) \<Rightarrow>
          CreateLocalDirectory (cand_sync_id c) (cand_path c) (cand_remote_folder_id c)
      | (Local, _, Delete) \<Rightarrow> DeleteRemote (cand_sync_id c) (cand_path c)
      | (Remote, _, Delete) \<Rightarrow> DeleteLocal (cand_sync_id c) (cand_path c))"

fun plan_pair ::
  "sync_candidate option \<Rightarrow> sync_candidate option \<Rightarrow> planned_operation option" where
  "plan_pair (Some local) (Some remote) = Some (plan_conflict_or_resolution local remote)"
| "plan_pair (Some local) None = Some (plan_single local)"
| "plan_pair None (Some remote) = Some (plan_single remote)"
| "plan_pair None None = None"

text \<open>The inner \<open>while\<close>: consume the candidates of one path, remembering the
  last local and the last remote one.\<close>

fun collect_group ::
  "string \<Rightarrow> sync_candidate option \<Rightarrow> sync_candidate option \<Rightarrow> sync_candidate list \<Rightarrow>
     sync_candidate option \<times> sync_candidate option \<times> sync_candidate list" where
  "collect_group path local remote [] = (local, remote, [])"
| "collect_group path local remote (c # cs) =
     (if cand_path c = path then
        (case cand_source c of
           Local \<Rightarrow> collect_group path (Some c) remote cs
         | Remote \<Rightarrow> collect_group path local (Some c) cs)
      else (local, remote, c # cs))"

lemma collect_group_length:
  "length (snd (snd (collect_group path l r cs))) \<le> length cs"
  by (induction path l r cs rule: collect_group.induct) (auto split: change_source.splits)

lemma collect_group_progress:
  "cand_path c = path \<Longrightarrow> collect_group path l r (c # cs) = (l', r', rest) \<Longrightarrow>
     length rest \<le> length cs"
  using collect_group_length [of path "Some c" r cs] collect_group_length [of path l "Some c" cs]
  by (auto split: change_source.splits)

text \<open>The outer \<open>while\<close>, bounded by the per-tick cap.\<close>

function plan_loop ::
  "nat \<Rightarrow> planned_operation list \<Rightarrow> sync_candidate list \<Rightarrow>
     planned_operation list \<times> sync_candidate list" where
  "plan_loop cap ops [] = (ops, [])"
| "plan_loop cap ops (c # cs) =
     (if length ops < cap then
        (case collect_group (cand_path c) None None (c # cs) of
           (local, remote, rest) \<Rightarrow>
             plan_loop cap
               (case plan_pair local remote of Some p \<Rightarrow> ops @ [p] | None \<Rightarrow> ops) rest)
      else (ops, c # cs))"
  by pat_completeness auto
termination
  by (relation "measure (\<lambda>(cap, ops, cs). length cs)")
    (auto simp: less_Suc_eq_le simp del: collect_group.simps
      dest!: sym [THEN collect_group_progress [OF refl]])

definition plan_with_overflow ::
  "planner \<Rightarrow> sync_candidate list \<Rightarrow> planned_operation list \<times> sync_candidate list" where
  "plan_with_overflow self candidates =
     plan_loop (max_operations_per_tick self) []
       (sort_key (\<lambda>c. (cand_path c, cand_source c)) candidates)"

definition plan :: "planner \<Rightarrow> sync_candidate list \<Rightarrow> planned_operation list" where
  "plan self candidates = fst (plan_with_overflow self candidates)"

section \<open>The delete policy\<close>

record delete_policy =
  allow_delete_remote :: bool
  allow_delete_local :: bool

definition delete_policy_default :: delete_policy where
  "delete_policy_default = \<lparr>allow_delete_remote = True, allow_delete_local = True\<rparr>"

definition for_sync_type :: "sync_type \<Rightarrow> bool \<Rightarrow> delete_policy" where
  "for_sync_type sync_type propagate_deletes =
     (if \<not> propagate_deletes then \<lparr>allow_delete_remote = False, allow_delete_local = False\<rparr>
      else case sync_type of
        Full \<Rightarrow> \<lparr>allow_delete_remote = True, allow_delete_local = True\<rparr>
      | UploadOnly \<Rightarrow> \<lparr>allow_delete_remote = True, allow_delete_local = False\<rparr>
      | DownloadOnly \<Rightarrow> \<lparr>allow_delete_remote = False, allow_delete_local = True\<rparr>
      | BackupArchive \<Rightarrow> \<lparr>allow_delete_remote = False, allow_delete_local = False\<rparr>)"

fun suppresses :: "delete_policy \<Rightarrow> planned_operation \<Rightarrow> bool" where
  "suppresses pol (DeleteRemote _ _) = (\<not> allow_delete_remote pol)"
| "suppresses pol (DeleteLocal _ _) = (\<not> allow_delete_local pol)"
| "suppresses pol _ = False"

definition plan_filtered_with_overflow ::
  "planner \<Rightarrow> sync_candidate list \<Rightarrow> delete_policy \<Rightarrow>
     planned_operation list \<times> sync_candidate list" where
  "plan_filtered_with_overflow self candidates pol =
     (case plan_with_overflow self candidates of
        (ops, overflow) \<Rightarrow> (filter (\<lambda>p. \<not> suppresses pol p) ops, overflow))"

definition plan_filtered ::
  "planner \<Rightarrow> sync_candidate list \<Rightarrow> delete_policy \<Rightarrow> planned_operation list" where
  "plan_filtered self candidates pol = fst (plan_filtered_with_overflow self candidates pol)"

section \<open>The plan as a specification\<close>

text \<open>The last element of a list, if any: what a loop that overwrites a
  variable leaves in it.\<close>

definition last_option :: "'a list \<Rightarrow> 'a option" where
  "last_option xs = (if xs = [] then None else Some (last xs))"

definition last_change :: "change_source \<Rightarrow> string \<Rightarrow> sync_candidate list \<Rightarrow> sync_candidate option"
  where "last_change s p cs = last_option (filter (\<lambda>c. cand_path c = p \<and> cand_source c = s) cs)"

text \<open>The operation for a path, and the paths in order.\<close>

definition planned_at :: "sync_candidate list \<Rightarrow> string \<Rightarrow> planned_operation" where
  "planned_at cs p = the (plan_pair (last_change Local p cs) (last_change Remote p cs))"

definition paths_of :: "sync_candidate list \<Rightarrow> string list" where
  "paths_of cs = sorted_list_of_set (cand_path ` set cs)"

abbreviation by_path :: "sync_candidate list \<Rightarrow> sync_candidate list" where
  "by_path \<equiv> sort_key (\<lambda>c. (cand_path c, cand_source c))"

lemma last_option_simps [simp]:
  "last_option [] = None"
  "last_option (xs @ [x]) = Some x"
  "xs \<noteq> [] \<Longrightarrow> last_option (x # xs) = last_option xs"
  by (simp_all add: last_option_def)

lemma last_option_eq_Some: "last_option xs = Some x \<Longrightarrow> x \<in> set xs"
  by (auto simp: last_option_def split: if_splits)

lemma last_change_Some:
  assumes "last_change s p cs = Some c"
  shows "c \<in> set cs" and "cand_path c = p" and "cand_source c = s"
  using last_option_eq_Some [OF assms [unfolded last_change_def]] by auto

lemma last_change_None_iff:
  "last_change s p cs = None \<longleftrightarrow> (\<forall>c \<in> set cs. cand_path c = p \<longrightarrow> cand_source c \<noteq> s)"
  by (auto simp: last_change_def last_option_def filter_empty_conv)

lemma last_change_by_path [simp]: "last_change s p (by_path cs) = last_change s p cs"
proof -
  have "filter (\<lambda>c. (cand_path c, cand_source c) = (p, s)) (by_path cs)
      = filter (\<lambda>c. (cand_path c, cand_source c) = (p, s)) cs"
    by (rule sort_key_stable)
  then show ?thesis by (simp add: last_change_def)
qed

lemma planned_at_by_path [simp]: "planned_at (by_path cs) p = planned_at cs p"
  by (simp add: planned_at_def)

lemma paths_of_by_path [simp]: "paths_of (by_path cs) = paths_of cs"
  by (simp add: paths_of_def)

lemma set_paths_of [simp]: "set (paths_of cs) = cand_path ` set cs"
  by (simp add: paths_of_def)

lemma paths_of_code: "paths_of cs = sort (remdups (map cand_path cs))"
  by (simp add: paths_of_def sorted_list_of_set_sort_remdups flip: set_map)

lemma distinct_paths_of [simp]: "distinct (paths_of cs)"
  by (simp add: paths_of_def)

lemma paths_of_Nil [simp]: "paths_of [] = []"
  by (simp add: paths_of_def)

lemma sorted_paths_of [simp]: "sorted (paths_of cs)" "sorted_wrt (<) (paths_of cs)"
  by (simp_all add: paths_of_def strict_sorted_list_of_set)

lemma sorted_by_path_paths: "sorted (map cand_path (by_path cs))"
proof -
  have "sorted (map (\<lambda>c. (cand_path c, cand_source c)) (by_path cs))" by simp
  then show ?thesis
    by (auto simp: sorted_wrt_map less_eq_prod_def elim!: sorted_wrt_mono_rel [rotated])
qed

subsection \<open>The loops compute the specification\<close>

lemma plan_pair_path:
  "plan_pair l r = Some p \<Longrightarrow> l = None \<or> cand_path (the l) = q \<Longrightarrow>
     r = None \<or> cand_path (the r) = q \<Longrightarrow> op_path p = q"
  by (cases "(l, r)" rule: plan_pair.cases)
    (auto simp: plan_conflict_or_resolution_def plan_single_def conflict_def
      split: change_kind.splits entry_kind.splits change_source.splits if_splits)

lemma plan_pair_None_iff: "plan_pair l r = None \<longleftrightarrow> l = None \<and> r = None"
  by (cases "(l, r)" rule: plan_pair.cases) auto

lemma planned_at_Some:
  assumes "c \<in> set cs" and "cand_path c = p"
  shows "plan_pair (last_change Local p cs) (last_change Remote p cs) = Some (planned_at cs p)"
proof -
  have "last_change Local p cs \<noteq> None \<or> last_change Remote p cs \<noteq> None"
    using assms by (cases "cand_source c") (auto simp: last_change_None_iff)
  then show ?thesis
    using plan_pair_None_iff [of "last_change Local p cs" "last_change Remote p cs"]
    by (auto simp: planned_at_def)
qed

lemma op_path_planned_at:
  assumes "p \<in> cand_path ` set cs"
  shows "op_path (planned_at cs p) = p"
proof -
  from assms obtain c where "c \<in> set cs" "cand_path c = p" by blast
  from planned_at_Some [OF this] show ?thesis
  proof (rule plan_pair_path)
    show "last_change s p cs = None \<or> cand_path (the (last_change s p cs)) = p" for s
      by (cases "last_change s p cs") (simp_all add: last_change_Some(2))
    then show "last_change Remote p cs = None \<or> cand_path (the (last_change Remote p cs)) = p" .
  qed
qed

lemma collect_group_spec:
  "collect_group p l r cs =
     (let group = takeWhile (\<lambda>c. cand_path c = p) cs in
      ((case last_option (filter (\<lambda>c. cand_source c = Local) group) of
          None \<Rightarrow> l | Some c \<Rightarrow> Some c),
       (case last_option (filter (\<lambda>c. cand_source c = Remote) group) of
          None \<Rightarrow> r | Some c \<Rightarrow> Some c),
       dropWhile (\<lambda>c. cand_path c = p) cs))"
proof (induction p l r cs rule: collect_group.induct)
  case (2 p l r c cs)
  then show ?case
    by (cases "cand_source c") (auto simp: Let_def last_option_def)
qed simp

lemma sorted_group:
  assumes "sorted (map cand_path (c # cs))"
  shows "takeWhile (\<lambda>d. cand_path d = cand_path c) (c # cs)
           = filter (\<lambda>d. cand_path d = cand_path c) (c # cs)"
    and "dropWhile (\<lambda>d. cand_path d = cand_path c) (c # cs)
           = filter (\<lambda>d. cand_path d \<noteq> cand_path c) (c # cs)"
proof -
  have *: "takeWhile (\<lambda>d. cand_path d = q) ds = filter (\<lambda>d. cand_path d = q) ds \<and>
           dropWhile (\<lambda>d. cand_path d = q) ds = filter (\<lambda>d. cand_path d \<noteq> q) ds"
    if "sorted (map cand_path ds)" "\<forall>d \<in> set ds. q \<le> cand_path d" for q ds
    using that
  proof (induction ds)
    case (Cons d ds)
    show ?case
    proof (cases "cand_path d = q")
      case False
      with Cons.prems have "q < cand_path d" by force
      with Cons.prems(1) have "\<forall>e \<in> set ds. cand_path e \<noteq> q" by fastforce
      with False show ?thesis by (simp add: filter_empty_conv filter_id_conv)
    qed (use Cons in auto)
  qed simp
  show "takeWhile (\<lambda>d. cand_path d = cand_path c) (c # cs)
           = filter (\<lambda>d. cand_path d = cand_path c) (c # cs)"
    and "dropWhile (\<lambda>d. cand_path d = cand_path c) (c # cs)
           = filter (\<lambda>d. cand_path d \<noteq> cand_path c) (c # cs)"
    using * [of "c # cs" "cand_path c"] assms by auto
qed

lemma paths_of_Cons:
  assumes "sorted (map cand_path (c # cs))"
  shows "paths_of (c # cs) = cand_path c # paths_of (filter (\<lambda>d. cand_path d \<noteq> cand_path c) cs)"
proof -
  let ?rest = "cand_path ` set (filter (\<lambda>d. cand_path d \<noteq> cand_path c) cs)"
  have "cand_path ` set (c # cs) = insert (cand_path c) ?rest" by auto
  moreover have "cand_path c \<notin> ?rest" by auto
  moreover have "\<forall>x \<in> set (sorted_list_of_set ?rest). cand_path c \<le> x"
    using assms by auto
  ultimately show ?thesis
    unfolding paths_of_def by (simp add: insort_is_Cons)
qed

lemma last_change_filter_other:
  "p \<noteq> q \<Longrightarrow> last_change s p (filter (\<lambda>d. cand_path d \<noteq> q) cs) = last_change s p cs"
  unfolding last_change_def by (rule arg_cong [of _ _ last_option]) (induction cs; auto)

lemma planned_at_filter_other:
  "p \<noteq> q \<Longrightarrow> planned_at (filter (\<lambda>d. cand_path d \<noteq> q) cs) p = planned_at cs p"
  by (simp add: planned_at_def last_change_filter_other)

lemma collect_group_sorted:
  assumes "sorted (map cand_path (c # cs))" and p: "p = cand_path c"
  shows "collect_group p None None (c # cs) =
    (last_change Local p (c # cs), last_change Remote p (c # cs),
     filter (\<lambda>d. cand_path d \<noteq> p) cs)"
proof -
  have "filter (\<lambda>d. cand_source d = s) (filter (\<lambda>d. cand_path d = p) (c # cs))
      = filter (\<lambda>d. cand_path d = p \<and> cand_source d = s) (c # cs)" for s
    by (simp only: filter_filter conj_commute)
  then show ?thesis
    unfolding collect_group_spec Let_def p sorted_group [OF assms(1)] last_change_def
    by (simp split: option.split)
qed

lemma plan_loop_spec:
  assumes "sorted (map cand_path cs)"
  shows "plan_loop cap ops cs =
    (ops @ map (planned_at cs) (take (cap - length ops) (paths_of cs)),
     filter (\<lambda>c. cand_path c \<in> set (drop (cap - length ops) (paths_of cs))) cs)"
  using assms
proof (induction cap ops cs rule: plan_loop.induct)
  case (2 cap ops c cs)
  let ?q = "cand_path c" and ?rest = "filter (\<lambda>d. cand_path d \<noteq> cand_path c) cs"
  note paths = paths_of_Cons [OF "2.prems"]
  show ?case
  proof (cases "length ops < cap")
    case False
    then show ?thesis by (auto simp: filter_id_conv)
  next
    case True
    have group: "collect_group ?q None None (c # cs) =
        (last_change Local ?q (c # cs), last_change Remote ?q (c # cs), ?rest)"
      using "2.prems" by (intro collect_group_sorted) auto
    have pair: "plan_pair (last_change Local ?q (c # cs)) (last_change Remote ?q (c # cs))
        = Some (planned_at (c # cs) ?q)"
      by (rule planned_at_Some) auto
    have sorted_rest: "sorted (map cand_path ?rest)"
      using "2.prems" by (simp add: sorted_filter)
    have notin: "?q \<notin> set (paths_of ?rest)" by auto
    let ?k = "cap - Suc (length ops)"
    have k: "cap - length ops = Suc ?k" using True by simp
    have same: "planned_at ?rest p = planned_at (c # cs) p" if "p \<in> set (paths_of ?rest)" for p
      using that planned_at_filter_other [of p ?q "c # cs"] by auto
    have "plan_loop cap ops (c # cs) =
        plan_loop cap (ops @ [planned_at (c # cs) ?q]) ?rest"
      by (simp add: True group pair del: collect_group.simps)
    also have "\<dots> = (ops @ [planned_at (c # cs) ?q] @ map (planned_at ?rest) (take ?k (paths_of ?rest)),
        filter (\<lambda>d. cand_path d \<in> set (drop ?k (paths_of ?rest))) ?rest)"
      using "2.IH" [OF True group [symmetric] refl] sorted_rest pair by simp
    also have "map (planned_at ?rest) (take ?k (paths_of ?rest))
        = map (planned_at (c # cs)) (take ?k (paths_of ?rest))"
      by (rule map_cong [OF refl]) (use same in \<open>auto dest: in_set_takeD\<close>)
    also have "filter (\<lambda>d. cand_path d \<in> set (drop ?k (paths_of ?rest))) ?rest
        = filter (\<lambda>d. cand_path d \<in> set (drop ?k (paths_of ?rest))) (c # cs)"
      using notin by (auto dest: in_set_dropD intro!: filter_cong)
    finally show ?thesis by (simp add: k paths)
  qed
qed simp

lemma plan_with_overflow_eq:
  "plan_with_overflow self cs =
     (map (planned_at cs) (take (max_operations_per_tick self) (paths_of cs)),
      filter (\<lambda>c. cand_path c \<in> set (drop (max_operations_per_tick self) (paths_of cs)))
        (by_path cs))"
  by (simp add: plan_with_overflow_def plan_loop_spec [OF sorted_by_path_paths])

text \<open>C1: the planner's loops refine the declarative plan.  The operations
  are exactly one for each of the first \<open>max_operations_per_tick\<close> distinct
  candidate paths in ascending order, each decided by the last local and the
  last remote candidate observed for that path; the overflow is exactly the
  candidates of all later paths, complete and in \<open>(path, source)\<close> order.\<close>

theorem plan_with_overflow_spec:
  "plan_with_overflow self cs =
     (map (planned_at cs) (take (max_operations_per_tick self) (paths_of cs)),
      filter (\<lambda>c. cand_path c \<in> set (drop (max_operations_per_tick self) (paths_of cs)))
        (by_path cs))"
  by (rule plan_with_overflow_eq)

subsection \<open>Consequences\<close>

lemma plan_eq: "plan self cs = map (planned_at cs) (take (max_operations_per_tick self) (paths_of cs))"
  by (simp add: plan_def plan_with_overflow_eq)

lemma set_overflow_subset: "set (snd (plan_with_overflow self cs)) \<subseteq> set cs"
  by (auto simp: plan_with_overflow_eq)

lemma length_plan_le: "length (plan self cs) \<le> max_operations_per_tick self"
  by (simp add: plan_eq)

lemma in_plan_cases:
  assumes "op \<in> set (plan self cs)"
  obtains p c where "c \<in> set cs" and "cand_path c = p" and "op = planned_at cs p"
    and "op_path op = p"
    and "plan_pair (last_change Local p cs) (last_change Remote p cs) = Some op"
proof -
  from assms obtain p where p: "p \<in> cand_path ` set cs" "op = planned_at cs p"
    unfolding plan_eq by (auto dest: in_set_takeD)
  then obtain c where "c \<in> set cs" "cand_path c = p" by blast
  with p show thesis
    by (intro that [of c p]) (simp_all add: op_path_planned_at planned_at_Some)
qed

lemma in_plan_sync_id:
  assumes "op \<in> set (plan self cs)"
  shows "\<exists>c \<in> set cs. cand_sync_id c = op_sync_id op \<and> cand_path c = op_path op"
proof -
  from assms obtain p where p: "op_path op = p"
    and op: "plan_pair (last_change Local p cs) (last_change Remote p cs) = Some op"
    by (rule in_plan_cases) blast
  have "\<exists>c s. last_change s p cs = Some c \<and> cand_sync_id c = op_sync_id op"
    using op
    by (cases "(last_change Local p cs, last_change Remote p cs)" rule: plan_pair.cases)
      (auto simp: plan_conflict_or_resolution_def plan_single_def conflict_def
        split: change_kind.splits entry_kind.splits change_source.splits if_splits)
  with p show ?thesis using last_change_Some by metis
qed

text \<open>An overflow that is planned again behaves as if its paths had been
  planned in the first place.\<close>

lemma planned_at_overflow:
  assumes "p \<in> set (drop n (paths_of cs))"
  shows "planned_at (filter (\<lambda>c. cand_path c \<in> set (drop n (paths_of cs))) (by_path cs)) p
       = planned_at cs p"
proof -
  have "last_change s p (filter (\<lambda>c. cand_path c \<in> set (drop n (paths_of cs))) (by_path cs))
      = last_change s p (by_path cs)" for s
    unfolding last_change_def filter_filter
    by (intro arg_cong [of _ _ last_option] filter_cong) (use assms in auto)
  then show ?thesis by (simp add: planned_at_def)
qed

lemma paths_of_overflow:
  "paths_of (filter (\<lambda>c. cand_path c \<in> set (drop n (paths_of cs))) (by_path cs))
     = drop n (paths_of cs)"
proof -
  have sub: "set (drop n (paths_of cs)) \<subseteq> cand_path ` set cs"
    using set_drop_subset [of n "paths_of cs"] by simp
  have "cand_path ` set (filter (\<lambda>c. cand_path c \<in> D) (by_path cs)) = D"
    if "D \<subseteq> cand_path ` set cs" for D
    using that by auto
  from this [OF sub] have "paths_of (filter (\<lambda>c. cand_path c \<in> set (drop n (paths_of cs))) (by_path cs))
      = sorted_list_of_set (set (drop n (paths_of cs)))"
    unfolding paths_of_def [of "filter _ _"] by (rule arg_cong)
  also have "\<dots> = drop n (paths_of cs)"
    by (rule sorted_list_of_set.idem_if_sorted_distinct) (simp_all add: sorted_wrt_drop)
  finally show ?thesis .
qed

fun plan_ticks ::
  "planner \<Rightarrow> nat \<Rightarrow> sync_candidate list \<Rightarrow> planned_operation list \<times> sync_candidate list" where
  "plan_ticks self 0 cs = ([], cs)"
| "plan_ticks self (Suc n) cs =
     (case plan_with_overflow self cs of
        (ops, overflow) \<Rightarrow>
          (case plan_ticks self n overflow of (ops', rest) \<Rightarrow> (ops @ ops', rest)))"

lemma plan_ticks_ops:
  "fst (plan_ticks self n cs)
     = map (planned_at cs) (take (n * max_operations_per_tick self) (paths_of cs))"
proof (induction n arbitrary: cs)
  case (Suc n)
  let ?cap = "max_operations_per_tick self"
  let ?ov = "filter (\<lambda>c. cand_path c \<in> set (drop ?cap (paths_of cs))) (by_path cs)"
  have "fst (plan_ticks self (Suc n) cs) = map (planned_at cs) (take ?cap (paths_of cs)) @
      map (planned_at ?ov) (take (n * ?cap) (drop ?cap (paths_of cs)))"
    using Suc.IH [of ?ov]
    by (simp add: plan_with_overflow_eq paths_of_overflow case_prod_unfold)
  also have "map (planned_at ?ov) (take (n * ?cap) (drop ?cap (paths_of cs)))
      = map (planned_at cs) (take (n * ?cap) (drop ?cap (paths_of cs)))"
    by (rule map_cong [OF refl]) (auto intro!: planned_at_overflow dest: in_set_takeD)
  finally show ?case by (simp add: take_add flip: map_append)
qed simp

lemma plan_ticks_rest:
  "cand_path ` set (snd (plan_ticks self n cs))
     = set (drop (n * max_operations_per_tick self) (paths_of cs))"
proof (induction n arbitrary: cs)
  case (Suc n)
  let ?cap = "max_operations_per_tick self"
  let ?ov = "filter (\<lambda>c. cand_path c \<in> set (drop ?cap (paths_of cs))) (by_path cs)"
  show ?case
    using Suc.IH [of ?ov]
    by (simp add: plan_with_overflow_eq paths_of_overflow case_prod_unfold add.commute)
qed simp

text \<open>The cap only delays work.  Re-planning the overflow tick after
  tick, with a positive cap, emits after \<open>n\<close> ticks exactly the operations of
  the uncapped plan, in the same order, and leaves no overflow, as soon as
  \<open>n\<close> times the cap reaches the number of distinct paths.\<close>

theorem plan_ticks_drain:
  assumes "length (paths_of cs) \<le> n * max_operations_per_tick self"
  shows "plan_ticks self n cs = (map (planned_at cs) (paths_of cs), [])"
proof -
  have "fst (plan_ticks self n cs) = map (planned_at cs) (paths_of cs)"
    using assms by (simp add: plan_ticks_ops)
  moreover have "cand_path ` set (snd (plan_ticks self n cs)) = {}"
    using assms by (simp add: plan_ticks_rest)
  ultimately show ?thesis by (cases "plan_ticks self n cs") simp
qed

text \<open>The side an operation writes.\<close>

fun writes_remote :: "planned_operation \<Rightarrow> bool" where
  "writes_remote (UploadFile _ _ _ _) = True"
| "writes_remote (CreateRemoteDirectory _ _) = True"
| "writes_remote (DeleteRemote _ _) = True"
| "writes_remote _ = False"

fun writes_local :: "planned_operation \<Rightarrow> bool" where
  "writes_local (DownloadFile _ _ _) = True"
| "writes_local (CreateLocalDirectory _ _ _) = True"
| "writes_local (DeleteLocal _ _) = True"
| "writes_local _ = False"

lemma op_side_cases: "is_conflict p \<or> writes_local p \<or> writes_remote p"
  by (cases p) simp_all

lemma plan_pair_writes:
  assumes "plan_pair l r = Some p"
    and "l = None \<or> cand_source (the l) = Local" and "r = None \<or> cand_source (the r) = Remote"
  shows "writes_remote p \<Longrightarrow> r = None"
    and "writes_local p \<Longrightarrow> l = None \<or> (\<exists>a b. l = Some a \<and> r = Some b \<and> cand_change_kind a = Delete
           \<and> cand_change_kind b = Delete \<and> is_delete p)"
    and "is_conflict p \<Longrightarrow> l \<noteq> None \<and> r \<noteq> None"
  using assms
  by (cases "(l, r)" rule: plan_pair.cases;
      auto simp: plan_conflict_or_resolution_def plan_single_def conflict_def
        split: change_kind.splits entry_kind.splits change_source.splits if_splits)+

lemma last_change_source: "last_change s p cs = None \<or> cand_source (the (last_change s p cs)) = s"
  using last_change_Some(3) by (cases "last_change s p cs") auto

lemma planned_sides:
  assumes "op \<in> set (plan self cs)"
  shows "writes_remote op \<Longrightarrow> last_change Remote (op_path op) cs = None"
    and "writes_local op \<Longrightarrow> last_change Local (op_path op) cs = None \<or>
      (\<exists>a b. last_change Local (op_path op) cs = Some a \<and> last_change Remote (op_path op) cs = Some b \<and>
         cand_change_kind a = Delete \<and> cand_change_kind b = Delete \<and> is_delete op)"
    and "is_conflict op \<Longrightarrow>
      last_change Local (op_path op) cs \<noteq> None \<and> last_change Remote (op_path op) cs \<noteq> None"
proof -
  from assms have pair:
    "plan_pair (last_change Local (op_path op) cs) (last_change Remote (op_path op) cs) = Some op"
    by (rule in_plan_cases) simp
  note w = plan_pair_writes [OF pair last_change_source last_change_source]
  show "writes_remote op \<Longrightarrow> last_change Remote (op_path op) cs = None"
    by (rule w(1))
  show "writes_local op \<Longrightarrow> last_change Local (op_path op) cs = None \<or>
      (\<exists>a b. last_change Local (op_path op) cs = Some a \<and> last_change Remote (op_path op) cs = Some b \<and>
         cand_change_kind a = Delete \<and> cand_change_kind b = Delete \<and> is_delete op)"
    by (rule w(2))
  show "is_conflict op \<Longrightarrow>
      last_change Local (op_path op) cs \<noteq> None \<and> last_change Remote (op_path op) cs \<noteq> None"
    by (rule w(3))
qed


text \<open>The delete policy filters exactly the deletions its table forbids:
  no deletion at all for an archive root or with propagation switched off, no
  local deletion for an upload-only root, no remote deletion for a
  download-only root, and no other operation is ever dropped or reordered.\<close>

theorem plan_filtered_policy:
  "plan_filtered self cs (for_sync_type t propagate) =
     filter (\<lambda>p. (case p of
         DeleteRemote _ _ \<Rightarrow> propagate \<and> t \<in> {Full, UploadOnly}
       | DeleteLocal _ _ \<Rightarrow> propagate \<and> t \<in> {Full, DownloadOnly}
       | _ \<Rightarrow> True)) (plan self cs)"
proof -
  have "(\<not> suppresses (for_sync_type t propagate) p) = (case p of
         DeleteRemote _ _ \<Rightarrow> propagate \<and> t \<in> {Full, UploadOnly}
       | DeleteLocal _ _ \<Rightarrow> propagate \<and> t \<in> {Full, DownloadOnly}
       | _ \<Rightarrow> True)" for p
    by (cases p; cases t) (simp_all add: for_sync_type_def)
  then show ?thesis
    unfolding plan_filtered_def plan_filtered_with_overflow_def plan_def case_prod_unfold fst_conv
    by (intro filter_cong) (rule refl)
qed

section \<open>Witnesses\<close>

abbreviation example_cand :: "change_source \<Rightarrow> string \<Rightarrow> change_kind \<Rightarrow> sync_candidate" where
  "example_cand s p k \<equiv>
     \<lparr>cand_sync_id = SyncId 1, cand_source = s, cand_path = p, cand_entry_kind = File,
      cand_change_kind = k, cand_remote_file_id = None, cand_remote_folder_id = None\<rparr>"

definition example_burst :: "sync_candidate list" where
  "example_burst = [example_cand Remote ''b'' Upsert, example_cand Local ''c'' Delete,
     example_cand Local ''a'' Upsert, example_cand Local ''b'' Upsert]"

lemma paths_of_example: "paths_of example_burst = [''a'', ''b'', ''c'']"
  by (simp add: example_burst_def paths_of_code)

theorem plan_ticks_drain_witness:
  "plan_ticks \<lparr>max_operations_per_tick = 2\<rparr> 2 example_burst =
     ([UploadFile (SyncId 1) ''a'' None ''a'',
       Conflict (SyncId 1) ''b'' LocalModifyVsRemoteModify,
       DeleteRemote (SyncId 1) ''c''], [])"
  using plan_ticks_drain [of example_burst 2 "\<lparr>max_operations_per_tick = 2\<rparr>"]
  by (simp add: paths_of_example)
    (simp add: example_burst_def planned_at_def last_change_def last_option_def
      plan_single_def plan_conflict_or_resolution_def conflict_def basename_def
      rsplit_first_def)


end
