(* ===== verification/Conflict_Resolver.thy ===== *)
theory Conflict_Resolver
  imports Model Rust_Str Planner
begin

text \<open>
  The conflict resolver, \<open>pcloud-engine/src/conflict_resolver.rs\<close>: the six
  policies, their resolution functions and the construction of the
  conflict-copy names.  Reading the local modification time is a parameter
  (\<open>fs_mtime\<close>: the modification time in seconds of an absolute path, \<open>None\<close>
  when it cannot be read).  The lemmas show which side each policy may
  overwrite, and that conflict-copy names never collide.
\<close>

datatype conflict_policy =
    PreferLocal | PreferRemote | NewestWins | RenameBothPolicy | ErrorPolicy | ManualReviewPolicy

record conflict_resolver =
  default_policy :: conflict_policy

definition conflict_resolver_default :: conflict_resolver where
  "conflict_resolver_default = \<lparr>default_policy = RenameBothPolicy\<rparr>"

definition resolve_prefer_local :: "sync_id \<Rightarrow> string \<Rightarrow> conflict_kind \<Rightarrow> conflict_resolution" where
  "resolve_prefer_local sid path kind =
     (case kind of
        LocalModifyVsRemoteModify \<Rightarrow>
          Apply (UploadFile sid path None (rsplit_first (CHR ''/'') path))
      | RemoteDeleteVsLocalModify \<Rightarrow>
          Apply (UploadFile sid path None (rsplit_first (CHR ''/'') path))
      | LocalDeleteVsRemoteModify \<Rightarrow> Apply (DeleteRemote sid path)
      | _ \<Rightarrow> ManualReview path kind ''conflict requires manual review even under prefer-local'')"

definition resolve_prefer_remote :: "sync_id \<Rightarrow> string \<Rightarrow> conflict_kind \<Rightarrow> conflict_resolution" where
  "resolve_prefer_remote sid path kind =
     (case kind of
        LocalModifyVsRemoteModify \<Rightarrow> Apply (DownloadFile sid path None)
      | LocalDeleteVsRemoteModify \<Rightarrow> Apply (DownloadFile sid path None)
      | RemoteDeleteVsLocalModify \<Rightarrow> Apply (DeleteLocal sid path)
      | _ \<Rightarrow> ManualReview path kind ''conflict requires manual review even under prefer-remote'')"

definition resolve_newest_wins ::
  "sync_id \<Rightarrow> string \<Rightarrow> conflict_kind \<Rightarrow> u64 option \<Rightarrow> u64 option \<Rightarrow> conflict_resolution" where
  "resolve_newest_wins sid path kind local_mtime_secs remote_mtime_secs =
     (case (local_mtime_secs, remote_mtime_secs) of
        (Some local, Some remote) \<Rightarrow>
          (if local > remote then resolve_prefer_local sid path kind
           else resolve_prefer_remote sid path kind)
      | _ \<Rightarrow> resolve_prefer_remote sid path kind)"

definition conflict_rename_path :: "string \<Rightarrow> string \<Rightarrow> string" where
  "conflict_rename_path path lab =
     (case rfind (CHR ''.'') path of
        Some dot_pos \<Rightarrow>
          (let last_sep = (case rfind (CHR ''/'') path of Some p \<Rightarrow> p + 1 | None \<Rightarrow> 0) in
           if dot_pos > last_sep
           then take dot_pos path @ ''.conflict-'' @ lab @ ''.'' @ drop (dot_pos + 1) path
           else path @ ''.conflict-'' @ lab)
      | None \<Rightarrow> path @ ''.conflict-'' @ lab)"

definition resolve_rename_both :: "sync_id \<Rightarrow> string \<Rightarrow> conflict_kind \<Rightarrow> conflict_resolution" where
  "resolve_rename_both sid path kind =
     (case kind of
        LocalModifyVsRemoteModify \<Rightarrow>
          RenameBoth (conflict_rename_path path ''local'') (conflict_rename_path path ''remote'')
            path sid
      | _ \<Rightarrow> ManualReview path kind ''rename-both: asymmetric conflict requires manual review'')"

definition resolve ::
  "conflict_resolver \<Rightarrow> planned_operation \<Rightarrow> u64 option \<Rightarrow> u64 option \<Rightarrow> conflict_resolution option"
  where
  "resolve self operation local_mtime_secs remote_mtime_secs =
     (case operation of
        Conflict sid path kind \<Rightarrow>
          Some (case default_policy self of
              PreferLocal \<Rightarrow> resolve_prefer_local sid path kind
            | PreferRemote \<Rightarrow> resolve_prefer_remote sid path kind
            | NewestWins \<Rightarrow>
                resolve_newest_wins sid path kind local_mtime_secs remote_mtime_secs
            | RenameBothPolicy \<Rightarrow> resolve_rename_both sid path kind
            | ErrorPolicy \<Rightarrow>
                ManualReview path kind ''manual review required by conflict policy''
            | ManualReviewPolicy \<Rightarrow>
                ManualReview path kind ''manual review required by conflict policy'')
      | _ \<Rightarrow> None)"

text \<open>\<open>Path::join\<close> on a Unix path: an absolute second component replaces the
  first.\<close>

definition path_join :: "string \<Rightarrow> string \<Rightarrow> string" where
  "path_join root path =
     (if path \<noteq> [] \<and> hd path = CHR ''/'' then path
      else if root = [] \<or> last root = CHR ''/'' then root @ path
      else root @ CHR ''/'' # path)"

definition resolve_with_sync_root ::
  "(string \<Rightarrow> u64 option) \<Rightarrow> conflict_resolver \<Rightarrow> planned_operation \<Rightarrow> string \<Rightarrow> u64 option \<Rightarrow>
     u64 option \<Rightarrow> conflict_resolution option" where
  "resolve_with_sync_root fs_mtime self operation sync_root remote_mtime_secs
       local_mtime_secs_override =
     (case operation of
        Conflict _ path _ \<Rightarrow>
          resolve self operation
            (case local_mtime_secs_override of
               Some t \<Rightarrow> Some t
             | None \<Rightarrow> fs_mtime (path_join sync_root path))
            remote_mtime_secs
      | _ \<Rightarrow> None)"

section \<open>Which side a policy may overwrite\<close>

lemmas resolution_defs = resolve_prefer_local_def resolve_prefer_remote_def
  resolve_newest_wins_def resolve_rename_both_def

text \<open>The policy lets the local copy win.\<close>

definition local_wins :: "conflict_policy \<Rightarrow> u64 option \<Rightarrow> u64 option \<Rightarrow> bool" where
  "local_wins pol lm rm \<longleftrightarrow> pol = PreferLocal \<or>
     (pol = NewestWins \<and> (\<exists>l r. lm = Some l \<and> rm = Some r \<and> r < l))"

definition remote_wins :: "conflict_policy \<Rightarrow> u64 option \<Rightarrow> u64 option \<Rightarrow> bool" where
  "remote_wins pol lm rm \<longleftrightarrow> pol = PreferRemote \<or> (pol = NewestWins \<and> \<not> local_wins pol lm rm)"

lemma resolve_by_winner:
  "resolve self (Conflict sid path kind) lm rm = Some
     (if local_wins (default_policy self) lm rm then resolve_prefer_local sid path kind
      else if remote_wins (default_policy self) lm rm then resolve_prefer_remote sid path kind
      else if default_policy self = RenameBothPolicy then resolve_rename_both sid path kind
      else ManualReview path kind ''manual review required by conflict policy'')"
  by (cases "default_policy self")
    (auto simp: resolve_def resolve_newest_wins_def local_wins_def remote_wins_def
      split: option.splits)

lemma prefer_local_Apply:
  assumes "resolve_prefer_local sid path kind = Apply op"
  shows "writes_remote op" and "op_sync_id op = sid" and "op_path op = path"
    and "is_delete op \<longleftrightarrow> kind = LocalDeleteVsRemoteModify"
  using assms by (cases kind; auto simp: resolve_prefer_local_def)+

lemma prefer_remote_Apply:
  assumes "resolve_prefer_remote sid path kind = Apply op"
  shows "writes_local op" and "op_sync_id op = sid" and "op_path op = path"
    and "is_delete op \<longleftrightarrow> kind = RemoteDeleteVsLocalModify"
  using assms by (cases kind; auto simp: resolve_prefer_remote_def)+

lemma writes_exclusive: "writes_remote op \<Longrightarrow> \<not> writes_local op"
  by (cases op) auto

text \<open>A resolved conflict yields an operation on the conflict's own root
  and path that writes exactly the side the policy lets lose: the remote side
  only when the local copy wins (prefer-local, or newest-wins with both times
  known and the local one strictly newer), the local side only when the remote
  copy wins.  It deletes only when the winning side's change was a deletion.\<close>

theorem resolve_writes_losing_side:
  assumes "resolve self (Conflict sid path kind) lm rm = Some (Apply op)"
  shows "op_sync_id op = sid \<and> op_path op = path \<and> \<not> is_conflict op \<and>
    (writes_remote op \<longleftrightarrow> local_wins (default_policy self) lm rm) \<and>
    (writes_local op \<longleftrightarrow> remote_wins (default_policy self) lm rm) \<and>
    (is_delete op \<longrightarrow>
       kind = (if writes_remote op then LocalDeleteVsRemoteModify else RemoteDeleteVsLocalModify))"
proof (cases "local_wins (default_policy self) lm rm")
  case True
  then have *: "resolve_prefer_local sid path kind = Apply op" and "\<not> remote_wins (default_policy self) lm rm"
    using assms by (auto simp: resolve_by_winner remote_wins_def local_wins_def)
  with True prefer_local_Apply [OF *] writes_exclusive [of op] show ?thesis
    by (cases op) auto
next
  case False
  then have *: "resolve_prefer_remote sid path kind = Apply op"
    and "remote_wins (default_policy self) lm rm"
    using assms
    by (auto simp: resolve_by_winner resolve_rename_both_def split: if_splits conflict_kind.splits)
  with False prefer_remote_Apply [OF *] writes_exclusive [of op] show ?thesis
    by (cases op) auto
qed

theorem resolve_writes_losing_side_witness:
  "resolve \<lparr>default_policy = NewestWins\<rparr> (Conflict (SyncId 1) ''a'' LocalDeleteVsRemoteModify)
     (Some 5) (Some 3) = Some (Apply (DeleteRemote (SyncId 1) ''a'')) \<and>
   local_wins NewestWins (Some 5) (Some 3)"
  using resolve_writes_losing_side
    [of "\<lparr>default_policy = NewestWins\<rparr>" "SyncId 1" "''a''" LocalDeleteVsRemoteModify "Some 5" "Some 3"
      "DeleteRemote (SyncId 1) ''a''"]
  by (simp add: resolve_def resolution_defs)

section \<open>Conflict-copy names\<close>

text \<open>The path has an extension in its last segment, after at least one byte
  of file name: the condition under which the label goes before the extension.\<close>

definition has_ext :: "string \<Rightarrow> string \<Rightarrow> string \<Rightarrow> bool" where
  "has_ext path stem ext \<longleftrightarrow> path = stem @ CHR ''.'' # ext \<and> CHR ''.'' \<notin> set ext \<and>
     CHR ''/'' \<notin> set ext \<and> stem \<noteq> [] \<and> last stem \<noteq> CHR ''/''"

lemma last_dot_unique:
  "(d::char) \<notin> set v \<Longrightarrow> d \<notin> set v' \<Longrightarrow> u @ d # v = u' @ d # v' \<longleftrightarrow> u = u' \<and> v = v'"
  using rfind_append_last [of d v u] rfind_append_last [of d v' u']
  by (metis append_eq_append_conv append_Cons list.inject option.inject)

lemma rfind_append_other: "d \<notin> set v \<Longrightarrow> rfind d (u @ v) = rfind d u"
proof (induction u)
  case Nil
  then show ?case by (simp add: rfind_None)
qed simp

lemma rename_dot_condition:
  assumes dot: "CHR ''.'' \<notin> set ext"
  shows "length stem > (case rfind (CHR ''/'') (stem @ CHR ''.'' # ext) of Some p \<Rightarrow> p + 1 | None \<Rightarrow> 0)
     \<longleftrightarrow> CHR ''/'' \<notin> set ext \<and> stem \<noteq> [] \<and> last stem \<noteq> CHR ''/''"
proof (cases "CHR ''/'' \<in> set ext")
  case True
  then obtain u v where ext: "ext = u @ CHR ''/'' # v" "CHR ''/'' \<notin> set v"
    by (metis split_list_last)
  then have "rfind (CHR ''/'') (stem @ CHR ''.'' # ext) = Some (length (stem @ CHR ''.'' # u))"
    using rfind_append_last [of "CHR ''/''" v "stem @ CHR ''.'' # u"] by simp
  with True show ?thesis by simp
next
  case False
  then have r: "rfind (CHR ''/'') (stem @ CHR ''.'' # ext) = rfind (CHR ''/'') stem"
    by (intro rfind_append_other) auto
  show ?thesis
  proof (cases "rfind (CHR ''/'') stem")
    case None
    then have "CHR ''/'' \<notin> set stem" by (simp add: rfind_None)
    with None False r show ?thesis by (cases stem rule: rev_cases) auto
  next
    case (Some i)
    then obtain u v where "stem = u @ CHR ''/'' # v" "i = length u" "CHR ''/'' \<notin> set v"
      by (rule rfind_Some)
    with Some False r show ?thesis by (cases v rule: rev_cases) auto
  qed
qed

lemma conflict_rename_path_ext:
  assumes "has_ext path stem ext"
  shows "conflict_rename_path path lab = (stem @ ''.conflict-'' @ lab) @ CHR ''.'' # ext"
proof -
  from assms have p: "path = stem @ CHR ''.'' # ext" and dot: "CHR ''.'' \<notin> set ext"
    and "CHR ''/'' \<notin> set ext \<and> stem \<noteq> [] \<and> last stem \<noteq> CHR ''/''"
    by (auto simp: has_ext_def)
  then have "length stem > (case rfind (CHR ''/'') path of Some p \<Rightarrow> p + 1 | None \<Rightarrow> 0)"
    by (simp only: p rename_dot_condition [OF dot] simp_thms)
  then show ?thesis
    unfolding conflict_rename_path_def p rfind_append_last [OF dot] option.case Let_def
    by (simp only: if_True append_eq_conv_conj [THEN iffD1, OF refl, THEN conjunct1] append_assoc append_Cons
        append_Nil) simp
qed

lemma conflict_rename_path_no_ext:
  assumes "\<And>stem ext. \<not> has_ext path stem ext"
  shows "conflict_rename_path path lab = path @ CHR ''.'' # ''conflict-'' @ lab"
proof (cases "rfind (CHR ''.'') path")
  case None
  then show ?thesis by (simp add: conflict_rename_path_def)
next
  case (Some i)
  then obtain stem ext where p: "path = stem @ CHR ''.'' # ext" "CHR ''.'' \<notin> set ext"
    by (rule rfind_Some)
  then have "\<not> (CHR ''/'' \<notin> set ext \<and> stem \<noteq> [] \<and> last stem \<noteq> CHR ''/'')"
    using assms [of stem ext] by (auto simp: has_ext_def)
  then have "\<not> length stem > (case rfind (CHR ''/'') path of Some p \<Rightarrow> p + 1 | None \<Rightarrow> 0)"
    by (simp only: p(1) rename_dot_condition [OF p(2)] simp_thms)
  then show ?thesis
    unfolding conflict_rename_path_def Some option.case Let_def
    using p(1) Some rfind_append_last [OF p(2), of stem]
    by (simp only: option.inject if_False) simp
qed

abbreviation label_ok :: "string \<Rightarrow> bool" where
  "label_ok l \<equiv> CHR ''.'' \<notin> set l \<and> CHR ''/'' \<notin> set l"

lemma has_ext_renamed:
  assumes "has_ext p stem ext" and "label_ok l"
  shows "has_ext (stem @ ''.conflict-'' @ l) stem (''conflict-'' @ l)"
  using assms by (auto simp: has_ext_def)

lemma conflict_rename_path_inj:
  assumes "label_ok l" and "label_ok m"
    and eq: "conflict_rename_path p l = conflict_rename_path q m"
  shows "p = q \<and> l = m"
proof -
  have lab: "CHR ''.'' \<notin> set (''conflict-'' @ l)" "CHR ''.'' \<notin> set (''conflict-'' @ m)"
    using assms by auto
  have dots: "''.conflict-'' @ x = CHR ''.'' # ''conflict-'' @ x" for x by simp
  have mixed: False
    if ext: "has_ext p' s e" and l': "label_ok l'"
      and no: "\<And>s e. \<not> has_ext q' s e"
      and m': "CHR ''.'' \<notin> set (''conflict-'' @ m')"
      and eq': "conflict_rename_path p' l' = conflict_rename_path q' m'" for p' q' s e l' m'
  proof -
    have "CHR ''.'' \<notin> set e" using ext by (simp add: has_ext_def)
    with eq' m' have "s @ ''.conflict-'' @ l' = q'"
      unfolding conflict_rename_path_ext [OF ext] conflict_rename_path_no_ext [OF no]
      using last_dot_unique by blast
    with has_ext_renamed [OF ext l'] no show False by blast
  qed
  consider s e s' e' where "has_ext p s e" "has_ext q s' e'"
    | "\<And>s e. \<not> has_ext p s e" "\<And>s e. \<not> has_ext q s e"
    using mixed [of p _ _ l q m] mixed [of q _ _ m p l] assms lab eq by metis
  then show ?thesis
  proof cases
    case 1
    then have e: "CHR ''.'' \<notin> set e" "CHR ''.'' \<notin> set e'" by (auto simp: has_ext_def)
    from eq have "e = e'" and "s @ ''.conflict-'' @ l = s' @ ''.conflict-'' @ m"
      unfolding conflict_rename_path_ext [OF 1(1)] conflict_rename_path_ext [OF 1(2)]
        last_dot_unique [OF e] by auto
    then have "s = s'" "l = m"
      unfolding dots last_dot_unique [OF lab] by auto
    with 1 \<open>e = e'\<close> show ?thesis by (auto simp: has_ext_def)
  next
    case 2
    from eq show ?thesis
      unfolding conflict_rename_path_no_ext [OF 2(1)] conflict_rename_path_no_ext [OF 2(2)]
        last_dot_unique [OF lab] by auto
  qed
qed

definition dir_prefix :: "string \<Rightarrow> string" where
  "dir_prefix p = take (case rfind (CHR ''/'') p of None \<Rightarrow> 0 | Some i \<Rightarrow> i + 1) p"

lemma rfind_less: "rfind d s = Some i \<Longrightarrow> i < length s"
  by (erule rfind_Some) simp

lemma dir_prefix_append: "CHR ''/'' \<notin> set v \<Longrightarrow> dir_prefix (u @ v) = dir_prefix u"
  unfolding dir_prefix_def
  by (auto simp: rfind_append_other dest: rfind_less split: option.split)

lemma dir_prefix_rename:
  assumes "label_ok l"
  shows "dir_prefix (conflict_rename_path p l) = dir_prefix p"
proof (cases "\<exists>s e. has_ext p s e")
  case True
  then obtain s e where ext: "has_ext p s e" by blast
  have "dir_prefix ((s @ ''.conflict-'' @ l) @ CHR ''.'' # e) = dir_prefix s"
    using assms ext by (simp add: dir_prefix_append has_ext_def)
  moreover have "dir_prefix p = dir_prefix s"
    using ext dir_prefix_append [of "CHR ''.'' # e" s] by (simp add: has_ext_def)
  ultimately show ?thesis unfolding conflict_rename_path_ext [OF ext] by simp
next
  case False
  then have "\<And>s e. \<not> has_ext p s e" by blast
  then show ?thesis
    unfolding conflict_rename_path_no_ext [OF \<open>\<And>s e. \<not> has_ext p s e\<close>]
    using assms by (intro dir_prefix_append) simp
qed

text \<open>C18: keeping both copies of a conflict never makes two files share a
  name: whatever paths are in conflict, the local and remote copies of all of
  them have pairwise different names, every copy's name differs from its
  original, and every copy stays in the original's directory.\<close>

theorem rename_both_names_distinct:
  assumes "resolve \<lparr>default_policy = RenameBothPolicy\<rparr> (Conflict s1 p LocalModifyVsRemoteModify) lm1 rm1
      = Some (RenameBoth l1 r1 p1 t1)"
    and "resolve \<lparr>default_policy = RenameBothPolicy\<rparr> (Conflict s2 q LocalModifyVsRemoteModify) lm2 rm2
      = Some (RenameBoth l2 r2 p2 t2)"
  shows "p1 = p \<and> t1 = s1 \<and> l1 \<noteq> r2 \<and> l1 \<noteq> p \<and> r1 \<noteq> p \<and>
    (l1 = l2 \<longleftrightarrow> p = q) \<and> (r1 = r2 \<longleftrightarrow> p = q) \<and> dir_prefix l1 = dir_prefix p \<and> dir_prefix r1 = dir_prefix p"
proof -
  have l: "l1 = conflict_rename_path p ''local''" "l2 = conflict_rename_path q ''local''"
    and r: "r1 = conflict_rename_path p ''remote''" "r2 = conflict_rename_path q ''remote''"
    and "p1 = p" "t1 = s1"
    using assms by (auto simp: resolve_def resolve_rename_both_def)
  moreover have "length (conflict_rename_path p lab) > length p" for lab
    by (auto simp: conflict_rename_path_def Let_def split: option.splits dest: rfind_less)
  moreover have "label_ok ''local''" "label_ok ''remote''" by simp_all
  moreover have "''local'' \<noteq> ''remote''" by simp
  ultimately show ?thesis
    using conflict_rename_path_inj dir_prefix_rename by (metis less_irrefl)
qed

theorem rename_both_names_distinct_witness:
  "conflict_rename_path ''d/a.txt'' ''local'' = ''d/a.conflict-local.txt'' \<and>
   conflict_rename_path ''d.x/a'' ''remote'' = ''d.x/a.conflict-remote'' \<and>
   ''d/a.conflict-local.txt'' \<noteq> ''d.x/a.conflict-remote''"
  using rename_both_names_distinct
    [of "SyncId 1" "''d/a.txt''" None None "''d/a.conflict-local.txt''" "''d/a.conflict-remote.txt''"
      "''d/a.txt''" "SyncId 1" "SyncId 1" "''d.x/a''" None None "''d.x/a.conflict-local''"
      "''d.x/a.conflict-remote''" "''d.x/a''" "SyncId 1"]
  by (simp add: resolve_def resolve_rename_both_def conflict_rename_path_def)

end
