(* ===== verification/Contracts.thy ===== *)
theory Contracts
  imports Model
begin

text \<open>
  The interfaces between the engine's components, as locales: a store of
  operations from which a sync root can be evicted, and a source of dispatch
  batches.  The clients' lemmas are proved here once; the scheduler and the
  transfer coordinators interpret them on their own definitions.
\<close>

section \<open>Eviction of a sync root\<close>

locale evictable =
  fixes evict :: "'s \<Rightarrow> sync_id \<Rightarrow> 's"
    and contents :: "'s \<Rightarrow> 'a list"
    and owner :: "'a \<Rightarrow> sync_id"
  assumes contents_evict: "contents (evict s sid) = filter (\<lambda>x. owner x \<noteq> sid) (contents s)"
begin

lemma evict_removes: "x \<in> set (contents (evict s sid)) \<Longrightarrow> owner x \<noteq> sid"
  by (simp add: contents_evict)

lemma evict_keeps_others:
  "other \<noteq> sid \<Longrightarrow>
     filter (\<lambda>x. owner x = other) (contents (evict s sid)) = filter (\<lambda>x. owner x = other) (contents s)"
  by (auto simp: contents_evict intro: filter_cong)

lemma evict_idem: "contents (evict (evict s sid) sid) = contents (evict s sid)"
  by (simp add: contents_evict)

lemma evict_commute: "contents (evict (evict s a) b) = contents (evict (evict s b) a)"
  by (simp add: contents_evict conj_commute)

lemma evict_absent: "(\<And>x. x \<in> set (contents s) \<Longrightarrow> owner x \<noteq> sid) \<Longrightarrow> contents (evict s sid) = contents s"
  by (simp add: contents_evict filter_id_conv)

end

section \<open>Batches from a queue\<close>

locale batch_source =
  fixes take_batch :: "'s \<Rightarrow> 's \<times> 'a list"
    and queue :: "'s \<Rightarrow> 'a list"
  assumes conserved: "take_batch s = (s', b) \<Longrightarrow> mset (queue s) = mset b + mset (queue s')"
    and progress: "take_batch s = (s', b) \<Longrightarrow> queue s \<noteq> [] \<Longrightarrow> b \<noteq> []"
begin

primrec rounds :: "nat \<Rightarrow> 's \<Rightarrow> 's \<times> 'a list" where
  "rounds 0 s = (s, [])"
| "rounds (Suc n) s =
     (case take_batch s of (s', b) \<Rightarrow> (case rounds n s' of (s'', bs) \<Rightarrow> (s'', b @ bs)))"

lemma rounds_conserved: "rounds n s = (s', bs) \<Longrightarrow> mset (queue s) = mset bs + mset (queue s')"
proof (induction n arbitrary: s bs)
  case (Suc n)
  obtain s1 b where 1: "take_batch s = (s1, b)" by fastforce
  obtain s2 bs2 where 2: "rounds n s1 = (s2, bs2)" by fastforce
  from Suc.prems 1 2 have "s2 = s'" "bs = b @ bs2" by auto
  with conserved [OF 1] Suc.IH [of s1 bs2] 2 show ?case by simp
qed simp

lemma rounds_drain: "rounds n s = (s', bs) \<Longrightarrow> length (queue s) \<le> n \<Longrightarrow> queue s' = []"
proof (induction n arbitrary: s bs)
  case (Suc n)
  obtain s1 b where 1: "take_batch s = (s1, b)" by fastforce
  obtain s2 bs2 where 2: "rounds n s1 = (s2, bs2)" by fastforce
  have len: "length (queue s) = length b + length (queue s1)"
    using conserved [OF 1] by (metis size_mset size_union)
  have "length (queue s1) \<le> n"
  proof (cases "queue s = []")
    case False
    with progress [OF 1] have "0 < length b" by simp
    with len Suc.prems(2) show ?thesis by linarith
  qed (use len in simp)
  with Suc 1 2 show ?case by auto
qed auto

lemma rounds_dispatch_all:
  assumes "rounds n s = (s', bs)" and "length (queue s) \<le> n"
  shows "mset bs = mset (queue s)" and "queue s' = []"
  using rounds_conserved [OF assms(1)] rounds_drain [OF assms] by simp_all

end

end
