(* ===== verification/Scheduler.thy ===== *)
theory Scheduler
  imports Contracts "HOL-Library.Sublist"
begin

text \<open>
  The scheduler, \<open>pcloud-engine/src/scheduler.rs\<close>: the priority queue of
  planned operations, the fair batch that \<open>next_batch\<close> removes and that
  \<open>peek_batch\<close> only reads, and the slot of dispatched operations that waits
  for \<open>ack_batch\<close>.  \<open>HashMap<SyncId, usize>\<close> is a map, \<open>HashSet<SyncId>\<close> a
  set.  The index arithmetic of \<open>take_fair_batch\<close> is shown to compute the
  plain partition \<open>fair_split\<close> of the queue.
\<close>

section \<open>State and operations\<close>

record scheduler =
  max_parallel_uploads :: nat
  max_parallel_downloads :: nat
  queued_operations :: "planned_operation list"
  dispatched_operations :: "planned_operation list"

definition scheduler_default :: scheduler where
  "scheduler_default =
     \<lparr>max_parallel_uploads = 4, max_parallel_downloads = 4,
      queued_operations = [], dispatched_operations = []\<rparr>"

abbreviation queue_key :: "planned_operation \<Rightarrow> nat \<times> string" where
  "queue_key p \<equiv> (op_priority p, op_path p)"

definition replace_queue :: "scheduler \<Rightarrow> planned_operation list \<Rightarrow> scheduler" where
  "replace_queue self operations =
     self\<lparr>queued_operations := sort_key queue_key operations\<rparr>"

definition replace_queue_for_sync_id ::
  "scheduler \<Rightarrow> sync_id \<Rightarrow> planned_operation list \<Rightarrow> scheduler" where
  "replace_queue_for_sync_id self sid operations =
     (let merged = filter (\<lambda>p. op_sync_id p \<noteq> sid) (queued_operations self) @ operations in
      self\<lparr>queued_operations := sort_key queue_key merged\<rparr>)"

definition evict_sync_id :: "scheduler \<Rightarrow> sync_id \<Rightarrow> scheduler" where
  "evict_sync_id self sid =
     self\<lparr>queued_operations := filter (\<lambda>p. op_sync_id p \<noteq> sid) (queued_operations self),
          dispatched_operations := filter (\<lambda>p. op_sync_id p \<noteq> sid) (dispatched_operations self)\<rparr>"

definition global_limit :: "scheduler \<Rightarrow> nat" where
  "global_limit self = max (max_parallel_uploads self + max_parallel_downloads self) 1"

definition div_ceil :: "nat \<Rightarrow> nat \<Rightarrow> nat" where
  "div_ceil a b = (if a mod b > 0 then a div b + 1 else a div b)"

definition per_root_cap :: "scheduler \<Rightarrow> nat" where
  "per_root_cap self =
     (let num_roots = max (card (set (map op_sync_id (queued_operations self)))) 1 in
      max (div_ceil (global_limit self) num_roots) 1)"

definition root_count :: "(sync_id \<rightharpoonup> nat) \<Rightarrow> sync_id \<Rightarrow> nat" where
  "root_count per_root sid = (case per_root sid of Some n \<Rightarrow> n | None \<Rightarrow> 0)"

text \<open>The selection loop over the enumerated queue.\<close>

fun batch_indices ::
  "nat \<Rightarrow> nat \<Rightarrow> (sync_id \<rightharpoonup> nat) \<Rightarrow> nat list \<Rightarrow> nat \<Rightarrow> planned_operation list \<Rightarrow> nat list" where
  "batch_indices limit cap per_root acc i [] = acc"
| "batch_indices limit cap per_root acc i (p # ps) =
     (if length acc \<ge> limit then acc
      else let count = root_count per_root (op_sync_id p) in
        if count < cap
        then batch_indices limit cap (per_root(op_sync_id p \<mapsto> count + 1)) (acc @ [i]) (i + 1) ps
        else batch_indices limit cap (per_root(op_sync_id p \<mapsto> count)) acc (i + 1) ps)"

text \<open>The removal loop, which receives the indices in reverse order.\<close>

fun remove_indices ::
  "nat list \<Rightarrow> planned_operation list \<Rightarrow> planned_operation list \<Rightarrow>
     planned_operation list \<times> planned_operation list" where
  "remove_indices [] queue batch = (queue, batch)"
| "remove_indices (i # is) queue batch =
     remove_indices is (remove_at i queue) (batch @ [queue ! i])"

definition take_fair_batch :: "scheduler \<Rightarrow> scheduler \<times> planned_operation list" where
  "take_fair_batch self =
     (if queued_operations self = [] then (self, [])
      else
        let indices = batch_indices (global_limit self) (per_root_cap self) Map.empty [] 0
              (queued_operations self)
        in case remove_indices (rev indices) (queued_operations self) [] of
          (queue, batch) \<Rightarrow> (self\<lparr>queued_operations := queue\<rparr>, rev batch))"

definition next_batch :: "scheduler \<Rightarrow> scheduler \<times> planned_operation list" where
  "next_batch self =
     (case take_fair_batch self of
        (s, batch) \<Rightarrow>
          (s\<lparr>dispatched_operations := dispatched_operations s @ batch\<rparr>, batch))"

text \<open>The peeking loops push the operations themselves.\<close>

fun peek_loop ::
  "nat \<Rightarrow> nat \<Rightarrow> (sync_id \<rightharpoonup> nat) \<Rightarrow> planned_operation list \<Rightarrow> planned_operation list \<Rightarrow>
     planned_operation list" where
  "peek_loop limit cap per_root out [] = out"
| "peek_loop limit cap per_root out (p # ps) =
     (if length out \<ge> limit then out
      else let count = root_count per_root (op_sync_id p) in
        if count < cap
        then peek_loop limit cap (per_root(op_sync_id p \<mapsto> count + 1)) (out @ [p]) ps
        else peek_loop limit cap (per_root(op_sync_id p \<mapsto> count)) out ps)"

definition peek_fair_batch_cloned :: "scheduler \<Rightarrow> planned_operation list" where
  "peek_fair_batch_cloned self =
     (if queued_operations self = [] then []
      else peek_loop (global_limit self) (per_root_cap self) Map.empty [] (queued_operations self))"

definition peek_batch :: "scheduler \<Rightarrow> planned_operation list" where
  "peek_batch self = peek_fair_batch_cloned self"

definition peek_batch_fair :: "scheduler \<Rightarrow> nat \<Rightarrow> planned_operation list" where
  "peek_batch_fair self max_per_root =
     peek_loop (global_limit self) max_per_root Map.empty [] (queued_operations self)"

definition next_batch_fair :: "scheduler \<Rightarrow> nat \<Rightarrow> planned_operation list" where
  "next_batch_fair self max_per_root = peek_batch_fair self max_per_root"

definition ack_batch :: "scheduler \<Rightarrow> (sync_id \<times> string) list \<Rightarrow> scheduler" where
  "ack_batch self items =
     (if items = [] \<or> dispatched_operations self = [] then self
      else if length items = 1 then
        (case items ! 0 of
           (sid, p) \<Rightarrow>
             self\<lparr>dispatched_operations :=
               filter (\<lambda>q. \<not> (op_sync_id q = sid \<and> op_path q = p)) (dispatched_operations self)\<rparr>)
      else
        self\<lparr>dispatched_operations :=
          filter (\<lambda>q. (op_sync_id q, op_path q) \<notin> set items) (dispatched_operations self)\<rparr>)"

definition total_queued :: "scheduler \<Rightarrow> nat" where
  "total_queued self = length (queued_operations self)"

definition drain_batch :: "scheduler \<Rightarrow> scheduler \<times> planned_operation list" where
  "drain_batch self =
     (let limit = min (max (max_parallel_uploads self + max_parallel_downloads self) 1)
            (length (queued_operations self))
      in (self\<lparr>queued_operations := drop limit (queued_operations self)\<rparr>,
          take limit (queued_operations self)))"

definition enqueue :: "scheduler \<Rightarrow> planned_operation \<Rightarrow> scheduler" where
  "enqueue self operation =
     self\<lparr>queued_operations := queued_operations self @ [operation]\<rparr>"

section \<open>The fair batch as a partition of the queue\<close>

text \<open>The batch and what stays queued, both in queue order.\<close>

fun fair_split ::
  "nat \<Rightarrow> nat \<Rightarrow> (sync_id \<rightharpoonup> nat) \<Rightarrow> nat \<Rightarrow> planned_operation list \<Rightarrow>
     planned_operation list \<times> planned_operation list" where
  "fair_split limit cap m n [] = ([], [])"
| "fair_split limit cap m n (p # ps) =
     (if n \<ge> limit then ([], p # ps)
      else let count = root_count m (op_sync_id p) in
        if count < cap
        then (case fair_split limit cap (m(op_sync_id p \<mapsto> count + 1)) (Suc n) ps of
                (b, r) \<Rightarrow> (p # b, r))
        else (case fair_split limit cap (m(op_sync_id p \<mapsto> count)) n ps of
                (b, r) \<Rightarrow> (b, p # r)))"

fun fair_picks :: "nat \<Rightarrow> nat \<Rightarrow> (sync_id \<rightharpoonup> nat) \<Rightarrow> nat \<Rightarrow> planned_operation list \<Rightarrow> nat list" where
  "fair_picks limit cap m n [] = []"
| "fair_picks limit cap m n (p # ps) =
     (if n \<ge> limit then []
      else let count = root_count m (op_sync_id p) in
        if count < cap
        then 0 # map Suc (fair_picks limit cap (m(op_sync_id p \<mapsto> count + 1)) (Suc n) ps)
        else map Suc (fair_picks limit cap (m(op_sync_id p \<mapsto> count)) n ps))"

lemma batch_indices_picks:
  "batch_indices limit cap m acc i ps =
     acc @ map (\<lambda>k. k + i) (fair_picks limit cap m (length acc) ps)"
  by (induction ps arbitrary: m acc i) (simp_all add: Let_def comp_def)

lemma fair_picks_in_range: "k \<in> set (fair_picks limit cap m n ps) \<Longrightarrow> k < length ps"
  by (induction limit cap m n ps arbitrary: k rule: fair_picks.induct)
    (auto simp: Let_def split: if_splits)

lemma remove_indices_append:
  "remove_indices (is @ js) q b = (case remove_indices is q b of (q', b') \<Rightarrow> remove_indices js q' b')"
  by (induction "is" q b rule: remove_indices.induct) auto

lemma remove_indices_Suc:
  "remove_indices (map Suc is) (x # q) b = (case remove_indices is q b of (q', b') \<Rightarrow> (x # q', b'))"
  by (induction "is" q b rule: remove_indices.induct) auto

lemma remove_picks:
  "remove_indices (rev (fair_picks limit cap m n ps)) ps b =
     (snd (fair_split limit cap m n ps), b @ rev (fst (fair_split limit cap m n ps)))"
  by (induction ps arbitrary: m n b)
    (simp_all add: Let_def remove_indices_append remove_indices_Suc rev_map case_prod_unfold)

lemma peek_loop_split:
  "peek_loop limit cap m out ps = out @ fst (fair_split limit cap m (length out) ps)"
  by (induction ps arbitrary: m out) (simp_all add: Let_def case_prod_unfold)

abbreviation split_queue :: "scheduler \<Rightarrow> planned_operation list \<times> planned_operation list" where
  "split_queue s \<equiv> fair_split (global_limit s) (per_root_cap s) Map.empty 0 (queued_operations s)"

lemma take_fair_batch_eq:
  "take_fair_batch s = (s\<lparr>queued_operations := snd (split_queue s)\<rparr>, fst (split_queue s))"
  by (simp add: take_fair_batch_def batch_indices_picks remove_picks Let_def)

lemma next_batch_eq:
  "next_batch s =
     (s\<lparr>queued_operations := snd (split_queue s),
        dispatched_operations := dispatched_operations s @ fst (split_queue s)\<rparr>,
      fst (split_queue s))"
  by (simp add: next_batch_def take_fair_batch_eq)

lemma peek_batch_eq: "peek_batch s = fst (split_queue s)"
  by (simp add: peek_batch_def peek_fair_batch_cloned_def peek_loop_split)

subsection \<open>Facts of the partition\<close>

lemma fair_split_mset:
  "mset ps = mset (fst (fair_split limit cap m n ps)) + mset (snd (fair_split limit cap m n ps))"
  by (induction ps arbitrary: m n) (simp_all add: Let_def case_prod_unfold)

lemma fair_split_length: "n \<le> limit \<Longrightarrow> n + length (fst (fair_split limit cap m n ps)) \<le> limit"
proof (induction ps arbitrary: m n)
  case (Cons p ps)
  then show ?case
    using Cons.IH [of "Suc n" "m(op_sync_id p \<mapsto> root_count m (op_sync_id p) + 1)"]
    by (auto simp: Let_def case_prod_unfold simp del: fun_upd_apply)
qed simp

lemma fair_split_subseq:
  "subseq (fst (fair_split limit cap m n ps)) ps" "subseq (snd (fair_split limit cap m n ps)) ps"
  by (induction ps arbitrary: m n) (auto simp: Let_def case_prod_unfold simp del: fun_upd_apply)

lemma root_count_upd [simp]:
  "root_count (m(sid \<mapsto> c)) x = (if x = sid then c else root_count m x)"
  by (simp add: root_count_def)

lemma root_count_empty [simp]: "root_count Map.empty x = 0"
  by (simp add: root_count_def)

abbreviation ops_of :: "sync_id \<Rightarrow> planned_operation list \<Rightarrow> planned_operation list" where
  "ops_of r \<equiv> filter (\<lambda>p. op_sync_id p = r)"

lemma fair_split_root_bound:
  "root_count m r \<le> cap \<Longrightarrow>
     root_count m r + length (ops_of r (fst (fair_split limit cap m n ps))) \<le> cap"
proof (induction ps arbitrary: m n)
  case (Cons p ps)
  then show ?case
    using Cons.IH [of "m(op_sync_id p \<mapsto> root_count m (op_sync_id p) + 1)" "Suc n"]
      Cons.IH [of "m(op_sync_id p \<mapsto> root_count m (op_sync_id p))" n]
    by (cases "r = op_sync_id p") (auto simp: Let_def case_prod_unfold simp del: fun_upd_apply)
qed simp

text \<open>An operation is left behind only because its root is full or the batch is.\<close>

lemma fair_split_left_behind:
  assumes "p \<in> set (snd (fair_split limit cap m n ps))" and "n \<le> limit"
    and "root_count m (op_sync_id p) \<le> cap"
  shows "n + length (fst (fair_split limit cap m n ps)) = limit \<or>
    root_count m (op_sync_id p) + length (ops_of (op_sync_id p) (fst (fair_split limit cap m n ps))) = cap"
  using assms
proof (induction ps arbitrary: m n)
  case (Cons q ps)
  show ?case
  proof (cases "n \<ge> limit")
    case True
    with Cons show ?thesis by simp
  next
    case False
    show ?thesis
    proof (cases "root_count m (op_sync_id q) < cap")
      case True
      let ?m = "m(op_sync_id q \<mapsto> root_count m (op_sync_id q) + 1)"
      have "p \<in> set (snd (fair_split limit cap ?m (Suc n) ps))"
        using Cons.prems(1) True False by (simp add: Let_def case_prod_unfold)
      from Cons.IH [OF this] True False Cons.prems show ?thesis
        by (cases "op_sync_id p = op_sync_id q") (auto simp: Let_def case_prod_unfold simp del: fun_upd_apply)
    next
      case full: False
      show ?thesis
      proof (cases "p = q")
        case True
        with full Cons False fair_split_root_bound [of "m(op_sync_id q \<mapsto> root_count m (op_sync_id q))" "op_sync_id q" cap limit n ps]
        show ?thesis by (auto simp: Let_def case_prod_unfold simp del: fun_upd_apply)
      next
        case other: False
        let ?m = "m(op_sync_id q \<mapsto> root_count m (op_sync_id q))"
        have "p \<in> set (snd (fair_split limit cap ?m n ps))"
          using Cons.prems(1) other full False by (simp add: Let_def case_prod_unfold)
        from Cons.IH [OF this] full False Cons.prems show ?thesis
          by (cases "op_sync_id p = op_sync_id q")
            (auto simp: Let_def case_prod_unfold simp del: fun_upd_apply)
      qed
    qed
  qed
qed simp

lemma div_ceil_mult: "0 < b \<Longrightarrow> a \<le> b * div_ceil a b"
  unfolding div_ceil_def
  by (cases "a mod b > 0") (auto intro: less_imp_le [OF dividend_less_times_div])

lemma per_root_cap_pos: "0 < per_root_cap s"
  by (simp add: per_root_cap_def Let_def)

lemma global_limit_pos: "0 < global_limit s"
  by (simp add: global_limit_def)

lemma length_by_owner:
  fixes owner :: "'a \<Rightarrow> 'b"
  assumes "finite R" and "\<And>x. x \<in> set xs \<Longrightarrow> owner x \<in> R"
    and "\<And>r. r \<in> R \<Longrightarrow> length (filter (\<lambda>x. owner x = r) xs) \<le> cap"
  shows "length xs \<le> card R * cap"
proof -
  have "length xs = (\<Sum>r \<in> R. length (filter (\<lambda>x. owner x = r) xs))"
    using assms(1,2)
  proof (induction xs)
    case (Cons x xs)
    have "(\<Sum>r \<in> R. length (filter (\<lambda>y. owner y = r) (x # xs)))
        = (\<Sum>r \<in> R. (if owner x = r then 1 else 0) + length (filter (\<lambda>y. owner y = r) xs))"
      by (rule sum.cong) auto
    also have "\<dots> = 1 + length xs"
      using Cons by (simp add: sum.distrib)
    finally show ?case by simp
  qed simp
  also have "\<dots> \<le> (\<Sum>r \<in> R. cap)" by (rule sum_mono) (rule assms(3))
  finally show ?thesis by simp
qed

lemma split_queue_progress: "queued_operations s \<noteq> [] \<Longrightarrow> fst (split_queue s) \<noteq> []"
  using per_root_cap_pos [of s] global_limit_pos [of s]
  by (cases "queued_operations s") (auto simp: Let_def case_prod_unfold)

section \<open>The contracts\<close>

interpretation sched_queue: evictable evict_sync_id queued_operations op_sync_id
  by unfold_locales (simp add: evict_sync_id_def)

interpretation sched_dispatched: evictable evict_sync_id dispatched_operations op_sync_id
  by unfold_locales (simp add: evict_sync_id_def)

interpretation fair: batch_source next_batch queued_operations
proof unfold_locales
  fix s s' :: scheduler and b
  assume nb: "next_batch s = (s', b)"
  then show "mset (queued_operations s) = mset b + mset (queued_operations s')"
    using fair_split_mset [of "queued_operations s" "global_limit s" "per_root_cap s" Map.empty 0]
    by (auto simp: next_batch_eq)
  show "b \<noteq> []" if "queued_operations s \<noteq> []"
    using nb split_queue_progress [OF that] by (auto simp: next_batch_eq)
qed

interpretation unfair: batch_source drain_batch queued_operations
proof unfold_locales
  fix s s' :: scheduler and b
  assume db: "drain_batch s = (s', b)"
  then show "mset (queued_operations s) = mset b + mset (queued_operations s')"
    by (auto simp: drain_batch_def Let_def simp flip: mset_append)
  show "b \<noteq> []" if "queued_operations s \<noteq> []"
    using db that by (cases "queued_operations s") (auto simp: drain_batch_def Let_def min_def max_def split: if_splits)
qed

section \<open>Properties\<close>

text \<open>C3: dispatching a batch loses and invents nothing.  The batch and the
  remaining queue partition the old queue, each in queue order; the batch is
  what \<open>peek_batch\<close> shows, it is recorded in full behind what was already
  dispatched, it is not empty unless the queue is, no wider than the
  parallelism limit, and no root has more than its share in it.\<close>

theorem next_batch_partition:
  assumes "next_batch s = (s', batch)"
  shows "mset (queued_operations s) = mset batch + mset (queued_operations s')
    \<and> subseq batch (queued_operations s) \<and> subseq (queued_operations s') (queued_operations s)
    \<and> batch = peek_batch s
    \<and> dispatched_operations s' = dispatched_operations s @ batch
    \<and> (batch = [] \<longleftrightarrow> queued_operations s = [])
    \<and> length batch \<le> max (max_parallel_uploads s + max_parallel_downloads s) 1
    \<and> length (ops_of r batch) \<le> per_root_cap s"
proof (intro conjI)
  have b: "batch = fst (split_queue s)" and q: "queued_operations s' = snd (split_queue s)"
    using assms by (auto simp: next_batch_eq)
  show "mset (queued_operations s) = mset batch + mset (queued_operations s')"
    by (rule fair.conserved [OF assms])
  show "subseq batch (queued_operations s)" "subseq (queued_operations s') (queued_operations s)"
    unfolding b q by (rule fair_split_subseq)+
  show "batch = peek_batch s" by (simp add: b peek_batch_eq)
  show "dispatched_operations s' = dispatched_operations s @ batch"
    using assms by (auto simp: next_batch_eq)
  show "batch = [] \<longleftrightarrow> queued_operations s = []"
    using split_queue_progress [of s] by (auto simp: b)
  show "length batch \<le> max (max_parallel_uploads s + max_parallel_downloads s) 1"
    using fair_split_length [of 0 "global_limit s"] by (simp add: b global_limit_def)
  show "length (ops_of r batch) \<le> per_root_cap s"
    using fair_split_root_bound [of Map.empty r "per_root_cap s"] by (simp add: b)
qed

text \<open>Dispatching drains the queue.  After as many calls of \<open>next_batch\<close> as
  there are queued operations the queue is empty and every operation has been
  handed out exactly as often as it was queued.\<close>

theorem next_batch_drains:
  assumes "length (queued_operations s) \<le> n" and "fair.rounds n s = (s', dispatched)"
  shows "queued_operations s' = [] \<and> mset dispatched = mset (queued_operations s)"
  using fair.rounds_dispatch_all [OF assms(2,1)] by simp

lemma queue_roots_card:
  "per_root_cap s = max (div_ceil (global_limit s)
     (max (card (op_sync_id ` set (queued_operations s))) 1)) 1"
  by (simp add: per_root_cap_def Let_def)

text \<open>A root with queued work is in the batch whenever the shares of the
  other roots cannot fill the batch on their own.\<close>

theorem next_batch_serves_root:
  assumes "next_batch s = (s', batch)" and "p \<in> set (queued_operations s)"
    and "(card (op_sync_id ` set (queued_operations s)) - 1) * per_root_cap s < global_limit s"
  shows "\<exists>q \<in> set batch. op_sync_id q = op_sync_id p"
proof (rule ccontr)
  assume none: "\<not> ?thesis"
  have b: "batch = fst (split_queue s)" and q: "queued_operations s' = snd (split_queue s)"
    using assms(1) by (auto simp: next_batch_eq)
  from none fair.conserved [OF assms(1)] assms(2) have "p \<in> set (queued_operations s')"
    by (metis set_mset_mset union_iff)
  moreover have "ops_of (op_sync_id p) batch = []"
    using none by (auto simp: filter_empty_conv)
  ultimately have full: "length batch = global_limit s"
    using fair_split_left_behind [of p "global_limit s" "per_root_cap s" Map.empty 0 "queued_operations s"]
      per_root_cap_pos [of s] by (auto simp: b q)
  let ?R = "op_sync_id ` set (queued_operations s) - {op_sync_id p}"
  have "length batch \<le> card ?R * per_root_cap s"
  proof (rule length_by_owner)
    show "op_sync_id x \<in> ?R" if "x \<in> set batch" for x
      using that none fair.conserved [OF assms(1)] by (metis DiffI imageI set_mset_mset singletonD union_iff)
    show "length (ops_of r batch) \<le> per_root_cap s" for r
      using fair_split_root_bound [of Map.empty r "per_root_cap s"] by (simp add: b)
  qed simp
  also have "card ?R = card (op_sync_id ` set (queued_operations s)) - 1"
    using assms(2) by (simp add: card_Diff_singleton)
  finally show False using assms(3) full by linarith
qed

subsection \<open>Order, replacement and acknowledgement\<close>

definition queue_sorted :: "scheduler \<Rightarrow> bool" where
  "queue_sorted s \<longleftrightarrow> sorted (map queue_key (queued_operations s))"

lemma subseq_sorted_map: "subseq xs ys \<Longrightarrow> sorted (map f ys) \<Longrightarrow> sorted (map f xs)"
  by (induction rule: list_emb.induct) (auto, blast dest: list_emb_set)

lemma sorted_map_filter: "sorted (map f xs) \<Longrightarrow> sorted (map f (filter P xs))"
  by (rule subseq_sorted_map) auto

lemma queue_sorted_replace [inv_intros]:
  "queue_sorted (replace_queue s ops)" "queue_sorted (replace_queue_for_sync_id s sid ops)"
  by (simp_all add: queue_sorted_def replace_queue_def replace_queue_for_sync_id_def Let_def)

lemma queue_sorted_evict [inv_intros]: "queue_sorted s \<Longrightarrow> queue_sorted (evict_sync_id s sid)"
  by (simp add: queue_sorted_def sched_queue.contents_evict sorted_map_filter)

lemma queue_sorted_next [inv_intros]: "queue_sorted s \<Longrightarrow> queue_sorted (fst (next_batch s))"
  by (simp add: queue_sorted_def next_batch_eq subseq_sorted_map [OF fair_split_subseq(2)])

lemma queue_sorted_drain [inv_intros]: "queue_sorted s \<Longrightarrow> queue_sorted (fst (drain_batch s))"
  by (simp add: queue_sorted_def drain_batch_def Let_def drop_map [symmetric] sorted_wrt_drop)

lemma ack_batch_eq:
  "ack_batch s items =
     s\<lparr>dispatched_operations := filter (\<lambda>p. op_key p \<notin> set items) (dispatched_operations s)\<rparr>"
proof (cases "length items = 1")
  case True
  then obtain sid p where "items = [(sid, p)]" by (cases items) auto
  then show ?thesis by (auto simp: ack_batch_def intro!: filter_cong)
next
  case False
  then show ?thesis by (auto simp: ack_batch_def)
qed

lemma queue_sorted_ack [inv_intros]: "queue_sorted s \<Longrightarrow> queue_sorted (ack_batch s items)"
  by (simp add: queue_sorted_def ack_batch_eq)

text \<open>Every operation that rebuilds the queue leaves it ordered by priority
  and then path, and every operation that takes from it keeps the order; so in
  each batch conflicts come first, then deletions, directories and transfers.\<close>

theorem queue_order_invariant:
  "queue_sorted (replace_queue s ops) \<and> queue_sorted (replace_queue_for_sync_id s sid ops) \<and>
   (queue_sorted s \<longrightarrow>
      queue_sorted (evict_sync_id s sid) \<and> queue_sorted (ack_batch s items) \<and>
      queue_sorted (fst (next_batch s)) \<and> sorted (map queue_key (snd (next_batch s))) \<and>
      queue_sorted (fst (drain_batch s)))"
proof -
  have "queue_sorted s \<Longrightarrow> sorted (map queue_key (snd (next_batch s)))"
    by (simp add: queue_sorted_def next_batch_eq subseq_sorted_map [OF fair_split_subseq(1)])
  then show ?thesis by (blast intro: inv_intros)
qed

text \<open>Re-planning one root leaves the queued operations of every other root
  exactly as they were, in the same relative order, and replaces its own
  operations by the new ones.\<close>

theorem replace_queue_isolates_roots:
  assumes "queue_sorted s" and "\<And>p. p \<in> set ops \<Longrightarrow> op_sync_id p = sid"
  shows "ops_of sid (queued_operations (replace_queue_for_sync_id s sid ops)) = sort_key queue_key ops
    \<and> filter (\<lambda>p. op_sync_id p \<noteq> sid) (queued_operations (replace_queue_for_sync_id s sid ops))
      = filter (\<lambda>p. op_sync_id p \<noteq> sid) (queued_operations s)
    \<and> dispatched_operations (replace_queue_for_sync_id s sid ops) = dispatched_operations s"
proof -
  have own: "ops_of sid ops = ops" "filter (\<lambda>p. op_sync_id p \<noteq> sid) ops = []"
    using assms(2) by (auto simp: filter_id_conv filter_empty_conv)
  have "sort_key queue_key (filter (\<lambda>p. op_sync_id p \<noteq> sid) (queued_operations s))
      = filter (\<lambda>p. op_sync_id p \<noteq> sid) (queued_operations s)"
    using assms(1) by (intro sort_key_id_if_sorted sorted_map_filter) (simp add: queue_sorted_def)
  then show ?thesis
    by (simp add: replace_queue_for_sync_id_def Let_def filter_sort own)
qed

text \<open>All three code paths of \<open>ack_batch\<close> remove exactly the dispatched
  operations whose root and path are acknowledged: the same path dispatched for
  another root stays, and the queue is not touched.\<close>

theorem ack_batch_exact:
  "ack_batch s items =
     s\<lparr>dispatched_operations := filter (\<lambda>p. op_key p \<notin> set items) (dispatched_operations s)\<rparr>"
  by (rule ack_batch_eq)

section \<open>Witnesses and a starved root\<close>

text \<open>Five roots with two deletions each, in queue order.\<close>

definition five_roots :: scheduler where
  "five_roots = scheduler_default\<lparr>queued_operations :=
     [DeleteLocal (SyncId 1) ''a'', DeleteLocal (SyncId 1) ''b'',
      DeleteLocal (SyncId 2) ''c'', DeleteLocal (SyncId 2) ''d'',
      DeleteLocal (SyncId 3) ''e'', DeleteLocal (SyncId 3) ''f'',
      DeleteLocal (SyncId 4) ''g'', DeleteLocal (SyncId 4) ''h'',
      DeleteLocal (SyncId 5) ''i'', DeleteLocal (SyncId 5) ''j'']\<rparr>"

lemma five_roots_cap: "per_root_cap five_roots = 2" and five_roots_limit: "global_limit five_roots = 8"
  by (simp_all add: five_roots_def scheduler_default_def per_root_cap_def global_limit_def div_ceil_def)

text \<open>The comment "Each root gets at least 1 slot" does not hold: with the
  default parallelism of 4 + 4 and five roots, the rounded-up share of two
  lets the first four roots fill the batch and the fifth root gets no slot,
  although the batch is wide enough for all five.\<close>

theorem fair_batch_starves_a_root:
  "let (s', batch) = next_batch five_roots in
     length batch = 8 \<and> card (op_sync_id ` set (queued_operations five_roots)) = 5 \<and>
     queued_operations s' = [DeleteLocal (SyncId 5) ''i'', DeleteLocal (SyncId 5) ''j''] \<and>
     SyncId 5 \<notin> op_sync_id ` set batch"
  by (simp add: next_batch_eq five_roots_cap five_roots_limit)
    (simp add: five_roots_def scheduler_default_def Let_def)

definition two_roots :: scheduler where
  "two_roots = scheduler_default\<lparr>queued_operations :=
     [DeleteLocal (SyncId 1) ''a'', DeleteLocal (SyncId 2) ''b'']\<rparr>"

lemma next_batch_two_roots:
  "next_batch two_roots = (two_roots\<lparr>queued_operations := [],
     dispatched_operations := [DeleteLocal (SyncId 1) ''a'', DeleteLocal (SyncId 2) ''b'']\<rparr>,
     [DeleteLocal (SyncId 1) ''a'', DeleteLocal (SyncId 2) ''b''])"
  by (simp add: next_batch_eq two_roots_def scheduler_default_def Let_def per_root_cap_def
      global_limit_def div_ceil_def)

theorem next_batch_partition_witness:
  "length (ops_of (SyncId 2) (snd (next_batch two_roots))) \<le> per_root_cap two_roots"
  unfolding next_batch_two_roots snd_conv
  by (rule next_batch_partition [OF next_batch_two_roots, THEN conjunct2, THEN conjunct2,
        THEN conjunct2, THEN conjunct2, THEN conjunct2, THEN conjunct2, THEN conjunct2])

theorem next_batch_drains_witness:
  "queued_operations (fst (fair.rounds 2 two_roots)) = []"
  using next_batch_drains [of two_roots 2 "fst (fair.rounds 2 two_roots)" "snd (fair.rounds 2 two_roots)"]
  by (simp add: two_roots_def)

theorem next_batch_serves_root_witness:
  "\<exists>q \<in> set (snd (next_batch two_roots)). op_sync_id q = op_sync_id (DeleteLocal (SyncId 2) ''b'')"
  unfolding next_batch_two_roots snd_conv
  by (rule next_batch_serves_root [OF next_batch_two_roots])
    (simp_all add: two_roots_def scheduler_default_def per_root_cap_def global_limit_def div_ceil_def
      flip: numeral_2_eq_2)

theorem queue_order_invariant_witness:
  "queue_sorted two_roots \<and> queue_sorted (evict_sync_id two_roots (SyncId 1))"
proof -
  have "queue_sorted two_roots" by (simp add: queue_sorted_def two_roots_def)
  then show ?thesis using queue_order_invariant [of two_roots] by blast
qed

theorem replace_queue_isolates_roots_witness:
  "ops_of (SyncId 1) (queued_operations
     (replace_queue_for_sync_id two_roots (SyncId 1) [UploadFile (SyncId 1) ''z'' None ''z'']))
     = [UploadFile (SyncId 1) ''z'' None ''z'']"
  using replace_queue_isolates_roots [of two_roots "[UploadFile (SyncId 1) ''z'' None ''z'']" "SyncId 1"]
  by (simp add: queue_sorted_def two_roots_def)

end
