(* ===== verification/Transfers.thy ===== *)
theory Transfers
  imports Contracts
begin

text \<open>
  The transfer coordinators, \<open>pcloud-engine/src/transfers/downloads.rs\<close> and
  \<open>uploads.rs\<close>: which operations of a batch each accepts, how a task moves
  from its active list to the completed or failed list, and the offset
  tracker of a chunked upload.  Both files declare identical private helpers
  (\<open>started_task\<close>, \<open>move_task\<close>, \<open>retain_other_sync_ids\<close>); they are defined once
  here.  The locale \<open>coordinator\<close> states the contract both coordinators give
  the engine, and the conservation of tasks is proved in it.
\<close>

section \<open>Helpers of both coordinators\<close>

definition started_task :: "planned_operation \<Rightarrow> transfer_task" where
  "started_task operation =
     \<lparr>task_operation = operation, task_state = Streaming, task_last_error = None\<rparr>"

definition move_task ::
  "string \<Rightarrow> transfer_task list \<Rightarrow> transfer_task list \<Rightarrow> transfer_state \<Rightarrow> string option \<Rightarrow>
     transfer_task list \<times> transfer_task list \<times> bool" where
  "move_task path source destination state error =
     (case position (\<lambda>t. op_path (task_operation t) = path) source of
        None \<Rightarrow> (source, destination, False)
      | Some index \<Rightarrow>
          (remove_at index source,
           destination @ [(source ! index)\<lparr>task_state := state, task_last_error := error\<rparr>],
           True))"

definition retain_other_sync_ids :: "transfer_task list \<Rightarrow> sync_id \<Rightarrow> transfer_task list" where
  "retain_other_sync_ids tasks sid = filter (\<lambda>t. op_sync_id (task_operation t) \<noteq> sid) tasks"

text \<open>The short-circuit disjunction of three \<open>move_task\<close> calls on one destination.\<close>

definition move_first_of_three ::
  "string \<Rightarrow> transfer_task list \<Rightarrow> transfer_task list \<Rightarrow> transfer_task list \<Rightarrow>
     transfer_task list \<Rightarrow> transfer_state \<Rightarrow> string option \<Rightarrow>
     transfer_task list \<times> transfer_task list \<times> transfer_task list \<times> transfer_task list \<times> bool" where
  "move_first_of_three path xs ys zs destination state error =
     (case move_task path xs destination state error of
        (xs', d1, True) \<Rightarrow> (xs', ys, zs, d1, True)
      | (xs', d1, False) \<Rightarrow>
          (case move_task path ys d1 state error of
             (ys', d2, True) \<Rightarrow> (xs', ys', zs, d2, True)
           | (ys', d2, False) \<Rightarrow>
               (case move_task path zs d2 state error of
                  (zs', d3, ok) \<Rightarrow> (xs', ys', zs', d3, ok))))"

section \<open>Downloads\<close>

record download_coordinator =
  max_range_requests :: nat
  active_downloads :: "transfer_task list"
  pending_local_deletes :: "transfer_task list"
  dl_pending_directory_creates :: "transfer_task list"
  dl_completed :: "transfer_task list"
  dl_failed :: "transfer_task list"

definition download_default :: download_coordinator where
  "download_default =
     \<lparr>max_range_requests = 8, active_downloads = [], pending_local_deletes = [],
      dl_pending_directory_creates = [], dl_completed = [], dl_failed = []\<rparr>"

fun dl_accept_one :: "download_coordinator \<Rightarrow> planned_operation \<Rightarrow> download_coordinator" where
  "dl_accept_one self (DownloadFile sid p i) =
     self\<lparr>active_downloads := active_downloads self @ [started_task (DownloadFile sid p i)]\<rparr>"
| "dl_accept_one self (DeleteLocal sid p) =
     self\<lparr>pending_local_deletes := pending_local_deletes self @ [started_task (DeleteLocal sid p)]\<rparr>"
| "dl_accept_one self (CreateLocalDirectory sid p i) =
     self\<lparr>dl_pending_directory_creates :=
       dl_pending_directory_creates self @ [started_task (CreateLocalDirectory sid p i)]\<rparr>"
| "dl_accept_one self _ = self"

definition dl_accept_batch :: "download_coordinator \<Rightarrow> planned_operation list \<Rightarrow> download_coordinator"
  where
  "dl_accept_batch self operations =
     foldl dl_accept_one
       (self\<lparr>active_downloads := [], pending_local_deletes := [], dl_pending_directory_creates := []\<rparr>)
       operations"

definition dl_evict_sync_id :: "download_coordinator \<Rightarrow> sync_id \<Rightarrow> download_coordinator" where
  "dl_evict_sync_id self sid =
     self\<lparr>active_downloads := retain_other_sync_ids (active_downloads self) sid,
          pending_local_deletes := retain_other_sync_ids (pending_local_deletes self) sid,
          dl_pending_directory_creates := retain_other_sync_ids (dl_pending_directory_creates self) sid,
          dl_completed := retain_other_sync_ids (dl_completed self) sid,
          dl_failed := retain_other_sync_ids (dl_failed self) sid\<rparr>"

definition dl_active_count :: "download_coordinator \<Rightarrow> nat" where
  "dl_active_count self = length (active_downloads self) + length (pending_local_deletes self)
     + length (dl_pending_directory_creates self)"

definition dl_mark_completed :: "download_coordinator \<Rightarrow> string \<Rightarrow> download_coordinator \<times> bool" where
  "dl_mark_completed self path =
     (case move_first_of_three path (active_downloads self) (pending_local_deletes self)
             (dl_pending_directory_creates self) (dl_completed self) Completed None of
        (xs, ys, zs, d, ok) \<Rightarrow>
          (self\<lparr>active_downloads := xs, pending_local_deletes := ys,
                dl_pending_directory_creates := zs, dl_completed := d\<rparr>, ok))"

definition dl_mark_failed ::
  "download_coordinator \<Rightarrow> string \<Rightarrow> string \<Rightarrow> download_coordinator \<times> bool" where
  "dl_mark_failed self path error =
     (case move_first_of_three path (active_downloads self) (pending_local_deletes self)
             (dl_pending_directory_creates self) (dl_failed self) Failed (Some error) of
        (xs, ys, zs, d, ok) \<Rightarrow>
          (self\<lparr>active_downloads := xs, pending_local_deletes := ys,
                dl_pending_directory_creates := zs, dl_failed := d\<rparr>, ok))"

section \<open>Uploads\<close>

record upload_coordinator =
  chunk_size_bytes :: nat
  active_uploads :: "transfer_task list"
  pending_remote_deletes :: "transfer_task list"
  ul_pending_directory_creates :: "transfer_task list"
  ul_completed :: "transfer_task list"
  ul_failed :: "transfer_task list"

definition upload_default :: upload_coordinator where
  "upload_default =
     \<lparr>chunk_size_bytes = 8 * 1024 * 1024, active_uploads = [], pending_remote_deletes = [],
      ul_pending_directory_creates = [], ul_completed = [], ul_failed = []\<rparr>"

fun ul_accept_one :: "upload_coordinator \<Rightarrow> planned_operation \<Rightarrow> upload_coordinator" where
  "ul_accept_one self (UploadFile sid p f n) =
     self\<lparr>active_uploads := active_uploads self @ [started_task (UploadFile sid p f n)]\<rparr>"
| "ul_accept_one self (DeleteRemote sid p) =
     self\<lparr>pending_remote_deletes := pending_remote_deletes self @ [started_task (DeleteRemote sid p)]\<rparr>"
| "ul_accept_one self (CreateRemoteDirectory sid p) =
     self\<lparr>ul_pending_directory_creates :=
       ul_pending_directory_creates self @ [started_task (CreateRemoteDirectory sid p)]\<rparr>"
| "ul_accept_one self _ = self"

definition ul_accept_batch :: "upload_coordinator \<Rightarrow> planned_operation list \<Rightarrow> upload_coordinator" where
  "ul_accept_batch self operations =
     foldl ul_accept_one
       (self\<lparr>active_uploads := [], pending_remote_deletes := [], ul_pending_directory_creates := []\<rparr>)
       operations"

definition ul_evict_sync_id :: "upload_coordinator \<Rightarrow> sync_id \<Rightarrow> upload_coordinator" where
  "ul_evict_sync_id self sid =
     self\<lparr>active_uploads := retain_other_sync_ids (active_uploads self) sid,
          pending_remote_deletes := retain_other_sync_ids (pending_remote_deletes self) sid,
          ul_pending_directory_creates := retain_other_sync_ids (ul_pending_directory_creates self) sid,
          ul_completed := retain_other_sync_ids (ul_completed self) sid,
          ul_failed := retain_other_sync_ids (ul_failed self) sid\<rparr>"

definition ul_active_count :: "upload_coordinator \<Rightarrow> nat" where
  "ul_active_count self = length (active_uploads self) + length (pending_remote_deletes self)
     + length (ul_pending_directory_creates self)"

definition ul_mark_completed :: "upload_coordinator \<Rightarrow> string \<Rightarrow> upload_coordinator \<times> bool" where
  "ul_mark_completed self path =
     (case move_first_of_three path (active_uploads self) (pending_remote_deletes self)
             (ul_pending_directory_creates self) (ul_completed self) Completed None of
        (xs, ys, zs, d, ok) \<Rightarrow>
          (self\<lparr>active_uploads := xs, pending_remote_deletes := ys,
                ul_pending_directory_creates := zs, ul_completed := d\<rparr>, ok))"

definition ul_mark_failed ::
  "upload_coordinator \<Rightarrow> string \<Rightarrow> string \<Rightarrow> upload_coordinator \<times> bool" where
  "ul_mark_failed self path error =
     (case move_first_of_three path (active_uploads self) (pending_remote_deletes self)
             (ul_pending_directory_creates self) (ul_failed self) Failed (Some error) of
        (xs, ys, zs, d, ok) \<Rightarrow>
          (self\<lparr>active_uploads := xs, pending_remote_deletes := ys,
                ul_pending_directory_creates := zs, ul_failed := d\<rparr>, ok))"

section \<open>The chunked upload tracker\<close>

text \<open>All fields are 64 bits wide (\<open>usize\<close> on the supported targets); the
  additions wrap, as in a release build.\<close>

record chunked_upload_tracker =
  upload_id :: u64
  total_size :: u64
  acked_offset :: u64
  chunk_size :: u64
  chunks_done :: u64

definition tracker_new :: "u64 \<Rightarrow> u64 \<Rightarrow> u64 \<Rightarrow> chunked_upload_tracker" where
  "tracker_new uid len chunk =
     \<lparr>upload_id = uid, total_size = len, acked_offset = 0, chunk_size = chunk, chunks_done = 0\<rparr>"

definition advance :: "chunked_upload_tracker \<Rightarrow> u64 \<Rightarrow> chunked_upload_tracker \<times> u64" where
  "advance self bytes_written =
     (let self' = self\<lparr>acked_offset := acked_offset self + bytes_written,
                       chunks_done := chunks_done self + 1\<rparr>
      in (self', acked_offset self'))"

definition is_complete :: "chunked_upload_tracker \<Rightarrow> bool" where
  "is_complete self \<longleftrightarrow> acked_offset self \<ge> total_size self"

definition remaining :: "chunked_upload_tracker \<Rightarrow> u64" where
  "remaining self = saturating_sub (total_size self) (acked_offset self)"

definition next_chunk_size :: "chunked_upload_tracker \<Rightarrow> u64" where
  "next_chunk_size self = min (remaining self) (chunk_size self)"

section \<open>The coordinators' contract\<close>

datatype mark = MarkCompleted string | MarkFailed string string

locale coordinator =
  fixes accept :: "'c \<Rightarrow> planned_operation list \<Rightarrow> 'c"
    and handles :: "planned_operation \<Rightarrow> bool"
    and active :: "'c \<Rightarrow> transfer_task list"
    and completed :: "'c \<Rightarrow> transfer_task list"
    and failed :: "'c \<Rightarrow> transfer_task list"
    and mark_completed :: "'c \<Rightarrow> string \<Rightarrow> 'c \<times> bool"
    and mark_failed :: "'c \<Rightarrow> string \<Rightarrow> string \<Rightarrow> 'c \<times> bool"
  assumes accept_active:
      "mset (active (accept c ops)) = mset (map started_task (filter handles ops))"
    and accept_done: "completed (accept c ops) = completed c" "failed (accept c ops) = failed c"
    and mark_completed_True: "mark_completed c p = (c', True) \<Longrightarrow>
      \<exists>t. op_path (task_operation t) = p \<and> mset (active c) = add_mset t (mset (active c')) \<and>
        completed c' = completed c @ [t\<lparr>task_state := Completed, task_last_error := None\<rparr>] \<and>
        failed c' = failed c"
    and mark_completed_False: "mark_completed c p = (c', False) \<Longrightarrow>
      c' = c \<and> (\<forall>t \<in> set (active c). op_path (task_operation t) \<noteq> p)"
    and mark_failed_True: "mark_failed c p e = (c', True) \<Longrightarrow>
      \<exists>t. op_path (task_operation t) = p \<and> mset (active c) = add_mset t (mset (active c')) \<and>
        failed c' = failed c @ [t\<lparr>task_state := Failed, task_last_error := Some e\<rparr>] \<and>
        completed c' = completed c"
    and mark_failed_False: "mark_failed c p e = (c', False) \<Longrightarrow>
      c' = c \<and> (\<forall>t \<in> set (active c). op_path (task_operation t) \<noteq> p)"
begin

definition all_operations :: "'c \<Rightarrow> planned_operation multiset" where
  "all_operations c = image_mset task_operation (mset (active c) + mset (completed c) + mset (failed c))"

definition tasks_ok :: "'c \<Rightarrow> bool" where
  "tasks_ok c \<longleftrightarrow>
     (\<forall>t \<in> set (active c). task_state t = Streaming \<and> task_last_error t = None) \<and>
     (\<forall>t \<in> set (completed c). task_state t = Completed \<and> task_last_error t = None) \<and>
     (\<forall>t \<in> set (failed c). task_state t = Failed \<and> task_last_error t \<noteq> None)"

fun apply_mark :: "'c \<Rightarrow> mark \<Rightarrow> 'c" where
  "apply_mark c (MarkCompleted p) = fst (mark_completed c p)"
| "apply_mark c (MarkFailed p e) = fst (mark_failed c p e)"

lemma apply_mark_cases:
  obtains "apply_mark c m = c"
  | t p where "m = MarkCompleted p" "op_path (task_operation t) = p"
      "mset (active c) = add_mset t (mset (active (apply_mark c m)))"
      "completed (apply_mark c m) = completed c @ [t\<lparr>task_state := Completed, task_last_error := None\<rparr>]"
      "failed (apply_mark c m) = failed c"
  | t p e where "m = MarkFailed p e" "op_path (task_operation t) = p"
      "mset (active c) = add_mset t (mset (active (apply_mark c m)))"
      "failed (apply_mark c m) = failed c @ [t\<lparr>task_state := Failed, task_last_error := Some e\<rparr>]"
      "completed (apply_mark c m) = completed c"
proof (cases m)
  case (MarkCompleted p)
  obtain c' b where m: "mark_completed c p = (c', b)" by fastforce
  then have c': "apply_mark c m = c'" using MarkCompleted by simp
  show ?thesis
  proof (cases b)
    case True
    with m mark_completed_True [of c p c'] MarkCompleted show ?thesis
      unfolding c' by (metis that(2) c')
  next
    case False
    with m mark_completed_False [of c p c'] show ?thesis by (metis that(1) c')
  qed
next
  case (MarkFailed p e)
  obtain c' b where m: "mark_failed c p e = (c', b)" by fastforce
  then have c': "apply_mark c m = c'" using MarkFailed by simp
  show ?thesis
  proof (cases b)
    case True
    with m mark_failed_True [of c p e c'] MarkFailed show ?thesis
      unfolding c' by (metis that(3) c')
  next
    case False
    with m mark_failed_False [of c p e c'] show ?thesis by (metis that(1) c')
  qed
qed

lemma apply_mark_conserves: "all_operations (apply_mark c m) = all_operations c"
  by (rule apply_mark_cases [of c m]) (simp_all add: all_operations_def)

lemma apply_mark_ok: "tasks_ok c \<Longrightarrow> tasks_ok (apply_mark c m)"
proof (rule apply_mark_cases [of c m])
  assume ok: "tasks_ok c"
  have sub: "t' \<in> set (active c)"
    if "mset (active c) = add_mset t (mset (active c'))" "t' \<in> set (active c')" for t t' c'
    using that by (metis insert_iff set_mset_add_mset_insert set_mset_mset)
  show "tasks_ok (apply_mark c m)" if "apply_mark c m = c" using that ok by simp
  show "tasks_ok (apply_mark c m)"
    if "mset (active c) = add_mset t (mset (active (apply_mark c m)))"
      "completed (apply_mark c m) = completed c @ [t\<lparr>task_state := Completed, task_last_error := None\<rparr>]"
      "failed (apply_mark c m) = failed c" for t
    using that(2,3) ok sub [OF that(1)] by (auto simp: tasks_ok_def)
  show "tasks_ok (apply_mark c m)"
    if "mset (active c) = add_mset t (mset (active (apply_mark c m)))"
      "failed (apply_mark c m) = failed c @ [t\<lparr>task_state := Failed, task_last_error := Some e\<rparr>]"
      "completed (apply_mark c m) = completed c" for t e
    using that(2,3) ok sub [OF that(1)] by (auto simp: tasks_ok_def)
qed

lemma marks_conserve: "all_operations (foldl apply_mark c ms) = all_operations c"
  by (induction ms arbitrary: c) (simp_all add: apply_mark_conserves)

lemma marks_ok: "tasks_ok c \<Longrightarrow> tasks_ok (foldl apply_mark c ms)"
  by (induction ms arbitrary: c) (simp_all add: apply_mark_ok)

lemma accept_ok: "tasks_ok c \<Longrightarrow> tasks_ok (accept c ops)"
proof -
  have "set (active (accept c ops)) = set (map started_task (filter handles ops))"
    using accept_active by (metis set_mset_mset)
  then show "tasks_ok c \<Longrightarrow> tasks_ok (accept c ops)"
    by (auto simp: tasks_ok_def accept_done started_task_def)
qed

lemma accept_operations:
  "all_operations (accept c ops) =
     mset (filter handles ops) + image_mset task_operation (mset (completed c) + mset (failed c))"
  by (simp add: all_operations_def accept_active accept_done started_task_def comp_def
      image_mset.compositionality)

lemma batch_conserved:
  "all_operations (foldl apply_mark (accept c ops) ms) =
     mset (filter handles ops) + image_mset task_operation (mset (completed c) + mset (failed c))"
  by (simp add: marks_conserve accept_operations)

end

section \<open>Both coordinators give it\<close>

lemma move_task_False:
  "move_task p xs d st e = (xs', d', False) \<longleftrightarrow>
     xs' = xs \<and> d' = d \<and> (\<forall>t \<in> set xs. op_path (task_operation t) \<noteq> p)"
  unfolding move_task_def
  using position_None [of "\<lambda>t. op_path (task_operation t) = p" xs] by (auto split: option.splits)

lemma move_task_True:
  assumes "move_task p xs d st e = (xs', d', True)"
  shows "\<exists>t. op_path (task_operation t) = p \<and> mset xs = add_mset t (mset xs') \<and>
    d' = d @ [t\<lparr>task_state := st, task_last_error := e\<rparr>]"
proof -
  from assms obtain i where i: "position (\<lambda>t. op_path (task_operation t) = p) xs = Some i"
    and "xs' = remove_at i xs" "d' = d @ [(xs ! i)\<lparr>task_state := st, task_last_error := e\<rparr>]"
    by (auto simp: move_task_def split: option.splits)
  with position_Some(1,2) [OF i] mset_remove_at [of i xs] show ?thesis
    by (intro exI [of _ "xs ! i"]) simp
qed

lemma move_first_of_three_False:
  assumes "move_first_of_three p xs ys zs d st e = (xs', ys', zs', d', False)"
  shows "xs' = xs \<and> ys' = ys \<and> zs' = zs \<and> d' = d \<and>
    (\<forall>t \<in> set (xs @ ys @ zs). op_path (task_operation t) \<noteq> p)"
  using assms
  by (auto simp: move_first_of_three_def move_task_False split: prod.splits bool.splits)

lemma move_first_of_three_True:
  assumes "move_first_of_three p xs ys zs d st e = (xs', ys', zs', d', True)"
  shows "\<exists>t. op_path (task_operation t) = p \<and>
    mset (xs @ ys @ zs) = add_mset t (mset (xs' @ ys' @ zs')) \<and>
    d' = d @ [t\<lparr>task_state := st, task_last_error := e\<rparr>]"
  using assms
  by (auto simp: move_first_of_three_def move_task_False split: prod.splits bool.splits
      dest!: move_task_True)

abbreviation dl_active :: "download_coordinator \<Rightarrow> transfer_task list" where
  "dl_active c \<equiv> active_downloads c @ pending_local_deletes c @ dl_pending_directory_creates c"

abbreviation ul_active :: "upload_coordinator \<Rightarrow> transfer_task list" where
  "ul_active c \<equiv> active_uploads c @ pending_remote_deletes c @ ul_pending_directory_creates c"

fun download_side :: "planned_operation \<Rightarrow> bool" where
  "download_side (DownloadFile _ _ _) = True"
| "download_side (DeleteLocal _ _) = True"
| "download_side (CreateLocalDirectory _ _ _) = True"
| "download_side _ = False"

fun upload_side :: "planned_operation \<Rightarrow> bool" where
  "upload_side (UploadFile _ _ _ _) = True"
| "upload_side (DeleteRemote _ _) = True"
| "upload_side (CreateRemoteDirectory _ _) = True"
| "upload_side _ = False"

lemma foldl_dl_accept:
  "mset (dl_active (foldl dl_accept_one c ops)) =
     mset (dl_active c) + mset (map started_task (filter download_side ops))"
  "dl_completed (foldl dl_accept_one c ops) = dl_completed c"
  "dl_failed (foldl dl_accept_one c ops) = dl_failed c"
proof (induction ops arbitrary: c)
  case (Cons p ops)
  { case 1 show ?case using Cons(1) by (cases p) (simp_all add: ac_simps) }
  { case 2 show ?case using Cons(2) by (cases p) simp_all }
  { case 3 show ?case using Cons(3) by (cases p) simp_all }
qed simp_all

lemma foldl_ul_accept:
  "mset (ul_active (foldl ul_accept_one c ops)) =
     mset (ul_active c) + mset (map started_task (filter upload_side ops))"
  "ul_completed (foldl ul_accept_one c ops) = ul_completed c"
  "ul_failed (foldl ul_accept_one c ops) = ul_failed c"
proof (induction ops arbitrary: c)
  case (Cons p ops)
  { case 1 show ?case using Cons(1) by (cases p) (simp_all add: ac_simps) }
  { case 2 show ?case using Cons(2) by (cases p) simp_all }
  { case 3 show ?case using Cons(3) by (cases p) simp_all }
qed simp_all

lemma dl_mark_spec:
  "dl_mark_completed c p = (c', True) \<Longrightarrow>
     \<exists>t. op_path (task_operation t) = p \<and> mset (dl_active c) = add_mset t (mset (dl_active c')) \<and>
       dl_completed c' = dl_completed c @ [t\<lparr>task_state := Completed, task_last_error := None\<rparr>] \<and>
       dl_failed c' = dl_failed c"
  "dl_mark_completed c p = (c', False) \<Longrightarrow>
     c' = c \<and> (\<forall>t \<in> set (dl_active c). op_path (task_operation t) \<noteq> p)"
  "dl_mark_failed c p e = (c', True) \<Longrightarrow>
     \<exists>t. op_path (task_operation t) = p \<and> mset (dl_active c) = add_mset t (mset (dl_active c')) \<and>
       dl_failed c' = dl_failed c @ [t\<lparr>task_state := Failed, task_last_error := Some e\<rparr>] \<and>
       dl_completed c' = dl_completed c"
  "dl_mark_failed c p e = (c', False) \<Longrightarrow>
     c' = c \<and> (\<forall>t \<in> set (dl_active c). op_path (task_operation t) \<noteq> p)"
  by (auto simp: dl_mark_completed_def dl_mark_failed_def split: prod.splits
      dest!: move_first_of_three_True move_first_of_three_False)

lemma ul_mark_spec:
  "ul_mark_completed c p = (c', True) \<Longrightarrow>
     \<exists>t. op_path (task_operation t) = p \<and> mset (ul_active c) = add_mset t (mset (ul_active c')) \<and>
       ul_completed c' = ul_completed c @ [t\<lparr>task_state := Completed, task_last_error := None\<rparr>] \<and>
       ul_failed c' = ul_failed c"
  "ul_mark_completed c p = (c', False) \<Longrightarrow>
     c' = c \<and> (\<forall>t \<in> set (ul_active c). op_path (task_operation t) \<noteq> p)"
  "ul_mark_failed c p e = (c', True) \<Longrightarrow>
     \<exists>t. op_path (task_operation t) = p \<and> mset (ul_active c) = add_mset t (mset (ul_active c')) \<and>
       ul_failed c' = ul_failed c @ [t\<lparr>task_state := Failed, task_last_error := Some e\<rparr>] \<and>
       ul_completed c' = ul_completed c"
  "ul_mark_failed c p e = (c', False) \<Longrightarrow>
     c' = c \<and> (\<forall>t \<in> set (ul_active c). op_path (task_operation t) \<noteq> p)"
  by (auto simp: ul_mark_completed_def ul_mark_failed_def split: prod.splits
      dest!: move_first_of_three_True move_first_of_three_False)

interpretation dl: coordinator dl_accept_batch download_side dl_active dl_completed dl_failed
  dl_mark_completed dl_mark_failed
proof unfold_locales
  show "mset (dl_active (dl_accept_batch c ops)) = mset (map started_task (filter download_side ops))"
    and "dl_completed (dl_accept_batch c ops) = dl_completed c"
    and "dl_failed (dl_accept_batch c ops) = dl_failed c" for c ops
    unfolding dl_accept_batch_def foldl_dl_accept by simp_all
qed (fact dl_mark_spec)+

interpretation ul: coordinator ul_accept_batch upload_side ul_active ul_completed ul_failed
  ul_mark_completed ul_mark_failed
proof unfold_locales
  show "mset (ul_active (ul_accept_batch c ops)) = mset (map started_task (filter upload_side ops))"
    and "ul_completed (ul_accept_batch c ops) = ul_completed c"
    and "ul_failed (ul_accept_batch c ops) = ul_failed c" for c ops
    unfolding ul_accept_batch_def foldl_ul_accept by simp_all
qed (fact ul_mark_spec)+

abbreviation task_owner :: "transfer_task \<Rightarrow> sync_id" where
  "task_owner t \<equiv> op_sync_id (task_operation t)"

interpretation dl_tasks: evictable dl_evict_sync_id
  "\<lambda>c. dl_active c @ dl_completed c @ dl_failed c" task_owner
  by unfold_locales (simp add: dl_evict_sync_id_def retain_other_sync_ids_def)

interpretation ul_tasks: evictable ul_evict_sync_id
  "\<lambda>c. ul_active c @ ul_completed c @ ul_failed c" task_owner
  by unfold_locales (simp add: ul_evict_sync_id_def retain_other_sync_ids_def)

lemma evict_tasks_ok [inv_intros]:
  "dl.tasks_ok c \<Longrightarrow> dl.tasks_ok (dl_evict_sync_id c sid)"
  "ul.tasks_ok u \<Longrightarrow> ul.tasks_ok (ul_evict_sync_id u sid)"
  by (auto simp: dl.tasks_ok_def ul.tasks_ok_def dl_evict_sync_id_def ul_evict_sync_id_def
      retain_other_sync_ids_def)

section \<open>Properties\<close>

text \<open>A coordinator loses no accepted operation.  After a batch is
  accepted and any sequence of completions and failures is reported, the
  active, completed and failed lists together hold exactly the operations of
  the batch that belong to its side, plus what was completed or failed
  before.\<close>

theorem coordinators_conserve_operations:
  "(let c' = foldl dl.apply_mark (dl_accept_batch c ops) ms in
      image_mset task_operation (mset (dl_active c') + mset (dl_completed c') + mset (dl_failed c')) =
        mset (filter download_side ops) + image_mset task_operation (mset (dl_completed c) + mset (dl_failed c)))
   \<and>
   (let u' = foldl ul.apply_mark (ul_accept_batch u ops) ms in
      image_mset task_operation (mset (ul_active u') + mset (ul_completed u') + mset (ul_failed u')) =
        mset (filter upload_side ops) + image_mset task_operation (mset (ul_completed u) + mset (ul_failed u)))"
  unfolding Let_def dl.all_operations_def [symmetric] ul.all_operations_def [symmetric]
  by (intro conjI dl.batch_conserved ul.batch_conserved)

text \<open>The upload loop that sends the chunk the tracker asks for.\<close>

primrec upload_chunks :: "nat \<Rightarrow> chunked_upload_tracker \<Rightarrow> chunked_upload_tracker" where
  "upload_chunks 0 t = t"
| "upload_chunks (Suc n) t =
     (let t' = upload_chunks n t in fst (advance t' (next_chunk_size t')))"

lemma unat_next_offset:
  fixes a len c :: u64
  assumes "a \<le> len"
  shows "unat (a + min (len - a) c) = min (unat a + unat c) (unat len)"
proof -
  have sub: "unat (len - a) = unat len - unat a"
    using assms by (simp add: unat_sub)
  have le: "unat a \<le> unat len" using assms by (simp add: word_le_nat_alt)
  have m: "unat (min (len - a) c) = min (unat len - unat a) (unat c)"
    by (simp add: min_def word_le_nat_alt sub)
  have "unat len < 2 ^ 64" using unsigned_less [of len] by simp
  then have "unat a + unat (min (len - a) c) < 2 ^ LENGTH(64)"
    using le by (simp add: m)
  then have "unat (a + min (len - a) c) = unat a + unat (min (len - a) c)"
    by (rule unat_add_lem [THEN iffD1])
  then show ?thesis using le by (simp add: m)
qed

lemma upload_chunks_fields [simp]:
  "total_size (upload_chunks n t) = total_size t"
  "chunk_size (upload_chunks n t) = chunk_size t"
  "chunks_done (upload_chunks n t) = chunks_done t + of_nat n"
  by (induction n) (simp_all add: Let_def advance_def)

lemma upload_chunks_offset:
  "unat (acked_offset (upload_chunks n (tracker_new uid len c))) = min (n * unat c) (unat len)"
proof (induction n)
  case 0
  show ?case by (simp add: tracker_new_def)
next
  case (Suc n)
  let ?t = "upload_chunks n (tracker_new uid len c)"
  have le: "acked_offset ?t \<le> len" using Suc by (simp add: word_le_nat_alt)
  have "acked_offset (upload_chunks (Suc n) (tracker_new uid len c))
      = acked_offset ?t + min (len - acked_offset ?t) c"
    using le by (simp add: Let_def advance_def next_chunk_size_def remaining_def saturating_sub_def
        tracker_new_def)
  also have "unat \<dots> = min (min (n * unat c) (unat len) + unat c) (unat len)"
    unfolding unat_next_offset [OF le] Suc ..
  finally show ?case by simp
qed

text \<open>A chunked upload that always sends the chunk size the tracker asks
  for never overruns the file and never wraps around: after \<open>n\<close> chunks the
  acknowledged offset is exactly \<open>n\<close> chunk sizes or the end of the file, and
  the upload is complete exactly when \<open>n\<close> chunks cover the file; with a
  non-empty chunk size that happens after finitely many chunks.\<close>

theorem chunked_upload_completes:
  fixes uid len c :: u64
  assumes "c \<noteq> 0"
  shows "let t = upload_chunks n (tracker_new uid len c) in
    unat (acked_offset t) = min (n * unat c) (unat len) \<and>
    (is_complete t \<longleftrightarrow> unat len \<le> n * unat c) \<and>
    (unat len \<le> n \<longrightarrow> is_complete t \<and> acked_offset t = len \<and> next_chunk_size t = 0)"
proof -
  let ?t = "upload_chunks n (tracker_new uid len c)"
  have off: "unat (acked_offset ?t) = min (n * unat c) (unat len)" by (rule upload_chunks_offset)
  have len: "total_size ?t = len" by (simp add: tracker_new_def)
  have complete: "is_complete ?t \<longleftrightarrow> unat len \<le> n * unat c"
    by (simp only: is_complete_def len word_le_nat_alt off) simp
  have "acked_offset ?t = len \<and> unat len \<le> n * unat c" if "unat len \<le> n"
  proof -
    have "1 \<le> unat c" using assms by (simp add: Suc_le_eq unat_gt_0)
    with that have "unat len \<le> n * unat c" by (metis dual_order.trans mult.right_neutral mult_le_mono2)
    then show ?thesis using off by (simp add: word_unat_eq_iff min_absorb2)
  qed
  with off complete len show ?thesis
    by (simp add: Let_def next_chunk_size_def remaining_def saturating_sub_def)
qed

theorem chunked_upload_completes_witness:
  "is_complete (upload_chunks 3 (tracker_new 1 5 2)) \<and>
   \<not> is_complete (upload_chunks 2 (tracker_new 1 5 2))"
  using chunked_upload_completes [of 2 3 1 5] chunked_upload_completes [of 2 2 1 5]
  by (simp add: Let_def)

end
