(* ===== verification/Paths.thy ===== *)
theory Paths
  imports Model Rust_Str
begin

text \<open>
  Path validation and the contract of the ingestors.  \<open>is_valid_relative_path\<close>
  (\<open>pcloud-engine/src/lib.rs\<close>) is the gate through which every path reported by
  a scan, a watcher or the server passes before the planner sees it.  It
  inspects the trimmed path although the untrimmed one is used afterwards; the
  lemmas show that this is still enough.  The locale \<open>ingestor\<close> states what the
  three ingestors promise the engine.
\<close>

section \<open>Validation\<close>

definition is_valid_relative_path :: "string \<Rightarrow> bool" where
  "is_valid_relative_path path =
     (let trimmed = trim path in
      if trimmed = [] \<or> starts_with trimmed ''/'' \<or> starts_with trimmed ''./''
         \<or> CHR 0x5C \<in> set trimmed
      then False
      else \<not> list_ex (\<lambda>segment. segment = [] \<or> segment = ''.'' \<or> segment = ''..'')
             (split_on (CHR ''/'') trimmed))"

text \<open>Resolving a path lexically against a directory, as the operating system
  would: empty and dot segments stay, dot-dot goes up.\<close>

fun resolve_segments :: "string list \<Rightarrow> string list \<Rightarrow> string list" where
  "resolve_segments dir [] = dir"
| "resolve_segments dir (s # ss) =
     (if s = [] \<or> s = ''.'' then resolve_segments dir ss
      else if s = ''..'' then resolve_segments (butlast dir) ss
      else resolve_segments (dir @ [s]) ss)"

lemma resolve_segments_plain:
  "(\<And>s. s \<in> set ss \<Longrightarrow> s \<noteq> [] \<and> s \<noteq> ''.'' \<and> s \<noteq> ''..'') \<Longrightarrow> resolve_segments dir ss = dir @ ss"
  by (induction ss arbitrary: dir) auto

lemma valid_path_segments:
  assumes "is_valid_relative_path p" and "s \<in> set (split_on (CHR ''/'') p)"
  shows "s \<noteq> [] \<and> s \<noteq> ''.'' \<and> s \<noteq> ''..''"
proof -
  obtain u v where p: "p = u @ trim p @ v" and ws: "set u \<subseteq> whitespace_bytes" "set v \<subseteq> whitespace_bytes"
    using trim_decompose by blast
  then have "CHR ''/'' \<notin> set u" "CHR ''/'' \<notin> set v" using not_whitespace_bytes(1) by blast+
  then obtain x w y where s: "s = x @ w @ y" "w \<in> set (split_on (CHR ''/'') (trim p))"
    "set x \<subseteq> set u" "set y \<subseteq> set v"
    using split_on_padded [of "CHR ''/''" u v s "trim p"] assms(2) p by metis
  have w: "w \<noteq> []" "w \<noteq> ''.''" "w \<noteq> ''..''"
    using assms(1) s(2) by (auto simp: is_valid_relative_path_def Let_def list_ex_iff split: if_splits)
  have nodot: "CHR ''.'' \<notin> set x" "CHR ''.'' \<notin> set y"
    using s(3,4) ws not_whitespace_bytes(2) by blast+
  have "s = w" if "set s \<subseteq> {CHR ''.''}"
    using that nodot by (cases x; cases y) (auto simp: s(1))
  then have "s \<noteq> ''.''" "s \<noteq> ''..''" using w by auto
  with w(1) s(1) show ?thesis by simp
qed

lemma valid_path_no_backslash:
  assumes "is_valid_relative_path p"
  shows "CHR 0x5C \<notin> set p"
proof -
  obtain u v where p: "p = u @ trim p @ v" and "set u \<subseteq> whitespace_bytes" "set v \<subseteq> whitespace_bytes"
    using trim_decompose by blast
  then have "CHR 0x5C \<notin> set u" "CHR 0x5C \<notin> set v" using not_whitespace_bytes(3) by blast+
  moreover have "CHR 0x5C \<notin> set (trim p)"
    using assms by (auto simp: is_valid_relative_path_def Let_def split: if_splits)
  ultimately show ?thesis by (subst p) simp
qed

text \<open>C19: an accepted path cannot leave its sync root.  Although validation
  looks at the trimmed path, the path itself is relative, has no backslash,
  and resolving it under any directory descends through exactly its segments:
  it never stays in place or goes up.\<close>

theorem valid_path_confined:
  assumes "is_valid_relative_path p"
  shows "resolve_segments dir (split_on (CHR ''/'') p) = dir @ split_on (CHR ''/'') p
    \<and> p \<noteq> [] \<and> hd p \<noteq> CHR ''/'' \<and> CHR 0x5C \<notin> set p"
proof -
  note seg = valid_path_segments [OF assms]
  have ne: "p \<noteq> []" using seg [of "[]"] by (cases p) auto
  have "hd p \<noteq> CHR ''/''"
  proof
    assume "hd p = CHR ''/''"
    with ne have "[] \<in> set (split_on (CHR ''/'') p)" by (cases p) auto
    with seg show False by blast
  qed
  with ne show ?thesis
    by (intro conjI resolve_segments_plain seg valid_path_no_backslash [OF assms])
qed

lemma trim_start_by_none:
  "find (\<lambda>w. w \<noteq> [] \<and> starts_with s w) ws = None \<Longrightarrow> trim_start_by ws s = s"
  by (subst trim_start_by.simps) simp

lemma trim_plain_example: "trim ''docs/report.txt'' = ''docs/report.txt''"
  by (simp add: trim_def trim_end_def trim_start_def trim_start_by_none starts_with_def
      whitespace_encodings_def)

lemma valid_path_example: "is_valid_relative_path ''docs/report.txt''"
  by (simp add: is_valid_relative_path_def trim_plain_example starts_with_def)

theorem valid_path_confined_witness:
  "resolve_segments [''home''] (split_on (CHR ''/'') ''docs/report.txt'')
     = [''home'', ''docs'', ''report.txt'']"
  using valid_path_confined [OF valid_path_example, of "[''home'']"] by simp

section \<open>The contract of an ingestor\<close>

text \<open>An ingestor turns a batch into candidates of one side, all or nothing:
  it fails with the first unsafe path, and otherwise every candidate has an
  accepted path of the batch.\<close>

locale ingestor =
  fixes normalize :: "'b \<Rightarrow> ('e, sync_candidate list) result"
    and paths :: "'b \<Rightarrow> string list"
    and side :: change_source
    and invalid :: "string \<Rightarrow> 'e"
  assumes accepts: "list_all is_valid_relative_path (paths b) \<Longrightarrow> \<exists>cs. normalize b = Ok cs"
    and rejects: "paths b = pre @ p # post \<Longrightarrow> list_all is_valid_relative_path pre \<Longrightarrow>
      \<not> is_valid_relative_path p \<Longrightarrow> normalize b = Err (invalid p)"
    and candidates: "normalize b = Ok cs \<Longrightarrow> c \<in> set cs \<Longrightarrow>
      cand_path c \<in> set (paths b) \<and> cand_source c = side"
begin

lemma accepts_iff: "(\<exists>cs. normalize b = Ok cs) \<longleftrightarrow> list_all is_valid_relative_path (paths b)"
proof
  assume ok: "\<exists>cs. normalize b = Ok cs"
  show "list_all is_valid_relative_path (paths b)"
  proof (rule ccontr)
    assume "\<not> ?thesis"
    then have "\<exists>x \<in> set (paths b). \<not> is_valid_relative_path x" by (auto simp: list_all_iff)
    then obtain pre p post where "paths b = pre @ p # post" "\<not> is_valid_relative_path p"
      "\<forall>x \<in> set pre. is_valid_relative_path x"
      using split_list_first_prop [of "paths b" "\<lambda>x. \<not> is_valid_relative_path x"] by blast
    with rejects [of b pre p post] ok show False by (auto simp: list_all_iff)
  qed
qed (rule accepts)

lemma candidates_confined:
  assumes "normalize b = Ok cs" and "c \<in> set cs"
  shows "is_valid_relative_path (cand_path c)" and "cand_source c = side"
  using candidates [OF assms] accepts_iff [of b] assms(1) by (auto simp: list_all_iff)

end

end
