(* ===== verification/Ingest.thy ===== *)
theory Ingest
  imports Paths
begin

text \<open>
  The three ingestors of \<open>pcloud-engine\<close>: the remote diff poller
  (\<open>diff_poller.rs\<close>), the local scanner (\<open>local_scan.rs\<close>) and the file-system
  event ingestor (\<open>fs_events.rs\<close>), each interpreting the \<open>ingestor\<close> contract;
  and the incremental scan tracker of \<open>local_scan.rs\<close>, whose clock is an
  explicit argument of the operations that read it.  The selective-sync policy
  of the filtered scan is its \<open>matches\<close> predicate.
\<close>

section \<open>The remote diff poller\<close>

record diff_poller =
  batch_limit :: u64

definition diff_poller_default :: diff_poller where
  "diff_poller_default = \<lparr>batch_limit = 512\<rparr>"

record remote_diff_entry =
  rde_path :: string
  rde_entry_kind :: entry_kind
  rde_change_kind :: change_kind
  rde_remote_file_id :: "remote_file_id option"
  rde_remote_folder_id :: "remote_folder_id option"
  rde_event :: "u64 option"

record remote_diff_batch =
  rdb_sync_id :: sync_id
  rdb_cursor :: u64
  rdb_has_more :: bool
  rdb_entries :: "remote_diff_entry list"

datatype diff_normalization_error = DiffInvalidPath string

definition diff_validate_relative_path :: "string \<Rightarrow> (diff_normalization_error, unit) result" where
  "diff_validate_relative_path path =
     (if is_valid_relative_path path then Ok () else Err (DiffInvalidPath path))"

definition diff_normalize_entry ::
  "sync_id \<Rightarrow> remote_diff_entry \<Rightarrow> (diff_normalization_error, sync_candidate) result" where
  "diff_normalize_entry sid entry =
     (case diff_validate_relative_path (rde_path entry) of
        Inl e \<Rightarrow> Err e
      | Inr _ \<Rightarrow>
          Ok \<lparr>cand_sync_id = sid, cand_source = Remote, cand_path = rde_path entry,
              cand_entry_kind = rde_entry_kind entry, cand_change_kind = rde_change_kind entry,
              cand_remote_file_id = rde_remote_file_id entry,
              cand_remote_folder_id = rde_remote_folder_id entry\<rparr>)"

definition normalize_batch ::
  "diff_poller \<Rightarrow> remote_diff_batch \<Rightarrow> (diff_normalization_error, sync_candidate list) result" where
  "normalize_batch self batch =
     collect_results (diff_normalize_entry (rdb_sync_id batch)) (rdb_entries batch)"

section \<open>The local scanner\<close>

record local_scanner =
  full_scan_interval_secs :: u64

definition local_scanner_default :: local_scanner where
  "local_scanner_default = \<lparr>full_scan_interval_secs = 300\<rparr>"

record local_scan_entry =
  lse_sync_id :: sync_id
  lse_path :: string
  lse_entry_kind :: entry_kind
  lse_deleted :: bool
  lse_remote_parent_folder_id :: "remote_folder_id option"

datatype local_scan_error = ScanInvalidPath string

definition scan_normalize_entry ::
  "local_scan_entry \<Rightarrow> (local_scan_error, sync_candidate) result" where
  "scan_normalize_entry entry =
     (if is_valid_relative_path (lse_path entry) then
        Ok \<lparr>cand_sync_id = lse_sync_id entry, cand_source = Local, cand_path = lse_path entry,
            cand_entry_kind = lse_entry_kind entry,
            cand_change_kind = (if lse_deleted entry then Delete else Upsert),
            cand_remote_file_id = None,
            cand_remote_folder_id = lse_remote_parent_folder_id entry\<rparr>
      else Err (ScanInvalidPath (lse_path entry)))"

definition normalize_entries ::
  "local_scanner \<Rightarrow> local_scan_entry list \<Rightarrow> (local_scan_error, sync_candidate list) result" where
  "normalize_entries self entries = collect_results scan_normalize_entry entries"

text \<open>The loop of \<open>normalize_entries_filtered\<close>; \<open>out\<close> is its accumulator.\<close>

fun filtered_loop ::
  "(string \<Rightarrow> bool) \<Rightarrow> sync_candidate list \<Rightarrow> local_scan_entry list \<Rightarrow>
     (local_scan_error, sync_candidate list) result" where
  "filtered_loop policy_matches out [] = Ok out"
| "filtered_loop policy_matches out (entry # entries) =
     (case scan_normalize_entry entry of
        Inl e \<Rightarrow> Err e
      | Inr candidate \<Rightarrow>
          (if \<not> lse_deleted entry \<and> \<not> policy_matches (lse_path entry)
           then filtered_loop policy_matches out entries
           else filtered_loop policy_matches (out @ [candidate]) entries))"

definition normalize_entries_filtered ::
  "local_scanner \<Rightarrow> local_scan_entry list \<Rightarrow> (string \<Rightarrow> bool) \<Rightarrow>
     (local_scan_error, sync_candidate list) result" where
  "normalize_entries_filtered self entries policy_matches = filtered_loop policy_matches [] entries"

section \<open>File-system events\<close>

datatype fs_event_kind = Write | Create | Remove

record fs_event =
  fse_sync_id :: sync_id
  fse_path :: string
  fse_entry_kind :: entry_kind
  fse_kind :: fs_event_kind

datatype fs_event_error = EventInvalidPath string

text \<open>\<open>coalesced.iter_mut().find(..)\<close>: update the first event of the same path,
  or push.\<close>

fun coalesce :: "fs_event \<Rightarrow> fs_event list \<Rightarrow> fs_event list" where
  "coalesce event [] = [event]"
| "coalesce event (x # xs) =
     (if fse_path x = fse_path event
      then x\<lparr>fse_kind := fse_kind event, fse_entry_kind := fse_entry_kind event,
             fse_sync_id := fse_sync_id event\<rparr> # xs
      else x # coalesce event xs)"

fun coalesce_loop :: "fs_event list \<Rightarrow> fs_event list \<Rightarrow> (fs_event_error, fs_event list) result" where
  "coalesce_loop coalesced [] = Ok coalesced"
| "coalesce_loop coalesced (event # events) =
     (if is_valid_relative_path (fse_path event)
      then coalesce_loop (coalesce event coalesced) events
      else Err (EventInvalidPath (fse_path event)))"

definition event_candidate :: "fs_event \<Rightarrow> sync_candidate" where
  "event_candidate event =
     \<lparr>cand_sync_id = fse_sync_id event, cand_source = Local, cand_path = fse_path event,
      cand_entry_kind = fse_entry_kind event,
      cand_change_kind = (case fse_kind event of Remove \<Rightarrow> Delete | Write \<Rightarrow> Upsert | Create \<Rightarrow> Upsert),
      cand_remote_file_id = None, cand_remote_folder_id = None\<rparr>"

definition normalize_events :: "fs_event list \<Rightarrow> (fs_event_error, sync_candidate list) result" where
  "normalize_events events =
     (case coalesce_loop [] events of
        Inl e \<Rightarrow> Err e
      | Inr coalesced \<Rightarrow> Ok (map event_candidate coalesced))"

section \<open>The incremental scan tracker\<close>

text \<open>Instants and durations are milliseconds on the monotonic clock;
  \<open>now.duration_since(last)\<close> saturates at zero.\<close>

datatype scan_decision = FullScan | IncrementalOnly "fs_event list"

record incremental_scan_tracker =
  full_scan_interval :: nat
  last_full_scan :: "sync_id \<rightharpoonup> nat"
  pending_events :: "sync_id \<rightharpoonup> fs_event list"

definition scan_tracker_new :: "nat \<Rightarrow> incremental_scan_tracker" where
  "scan_tracker_new interval =
     \<lparr>full_scan_interval = interval, last_full_scan = Map.empty, pending_events = Map.empty\<rparr>"

definition pending_of :: "incremental_scan_tracker \<Rightarrow> sync_id \<Rightarrow> fs_event list" where
  "pending_of self sid = (case pending_events self sid of Some es \<Rightarrow> es | None \<Rightarrow> [])"

definition push_event :: "incremental_scan_tracker \<Rightarrow> fs_event \<Rightarrow> incremental_scan_tracker" where
  "push_event self event =
     self\<lparr>pending_events :=
       (pending_events self)(fse_sync_id event \<mapsto> pending_of self (fse_sync_id event) @ [event])\<rparr>"

definition decide ::
  "nat \<Rightarrow> incremental_scan_tracker \<Rightarrow> sync_id \<Rightarrow> incremental_scan_tracker \<times> scan_decision" where
  "decide now self sid =
     (let needs_full = (case last_full_scan self sid of
            None \<Rightarrow> True
          | Some last_scan \<Rightarrow> now - last_scan \<ge> full_scan_interval self);
          self' = self\<lparr>pending_events := (pending_events self)(sid := None)\<rparr>
      in if needs_full then (self', FullScan)
         else (self', IncrementalOnly (pending_of self sid)))"

definition record_full_scan ::
  "nat \<Rightarrow> incremental_scan_tracker \<Rightarrow> sync_id \<Rightarrow> incremental_scan_tracker" where
  "record_full_scan now self sid = self\<lparr>last_full_scan := (last_full_scan self)(sid \<mapsto> now)\<rparr>"

definition untrack :: "incremental_scan_tracker \<Rightarrow> sync_id \<Rightarrow> incremental_scan_tracker" where
  "untrack self sid =
     self\<lparr>last_full_scan := (last_full_scan self)(sid := None),
          pending_events := (pending_events self)(sid := None)\<rparr>"

definition pending_count :: "incremental_scan_tracker \<Rightarrow> sync_id \<Rightarrow> nat" where
  "pending_count self sid = length (pending_of self sid)"

definition has_scanned :: "incremental_scan_tracker \<Rightarrow> sync_id \<Rightarrow> bool" where
  "has_scanned self sid \<longleftrightarrow> last_full_scan self sid \<noteq> None"

section \<open>The ingestors keep their contract\<close>

lemma collect_validated:
  assumes f: "\<And>x. f x = (if is_valid_relative_path (path x) then Inr (g x) else Inl (bad (path x)))"
  shows "list_all is_valid_relative_path (map path xs) \<Longrightarrow> collect_results f xs = Inr (map g xs)"
    and "map path xs = pre @ p # post \<Longrightarrow> list_all is_valid_relative_path pre \<Longrightarrow>
      \<not> is_valid_relative_path p \<Longrightarrow> collect_results f xs = Inl (bad p)"
    and "collect_results f xs = Inr ys \<Longrightarrow> ys = map g xs"
proof -
  show "list_all is_valid_relative_path (map path xs) \<Longrightarrow> collect_results f xs = Inr (map g xs)"
    by (rule collect_results_map) (auto simp: f list_all_iff)
  show "collect_results f xs = Inl (bad p)"
    if "map path xs = pre @ p # post" "list_all is_valid_relative_path pre" "\<not> is_valid_relative_path p"
  proof -
    from that(1) obtain us v vs where "xs = us @ v # vs" "map path us = pre" "path v = p"
      by (auto simp: map_eq_append_conv)
    with that(2,3) collect_results_first_error [of us f v "bad p" vs] show ?thesis
      by (auto simp: f list_all_iff)
  qed
  show "collect_results f xs = Inr ys \<Longrightarrow> ys = map g xs"
    unfolding collect_results_Ok_iff
    by (induction xs ys rule: list_all2_induct) (auto simp: f split: if_splits)
qed

definition diff_candidate :: "sync_id \<Rightarrow> remote_diff_entry \<Rightarrow> sync_candidate" where
  "diff_candidate sid entry =
     \<lparr>cand_sync_id = sid, cand_source = Remote, cand_path = rde_path entry,
      cand_entry_kind = rde_entry_kind entry, cand_change_kind = rde_change_kind entry,
      cand_remote_file_id = rde_remote_file_id entry,
      cand_remote_folder_id = rde_remote_folder_id entry\<rparr>"

definition scan_candidate :: "local_scan_entry \<Rightarrow> sync_candidate" where
  "scan_candidate entry =
     \<lparr>cand_sync_id = lse_sync_id entry, cand_source = Local, cand_path = lse_path entry,
      cand_entry_kind = lse_entry_kind entry,
      cand_change_kind = (if lse_deleted entry then Delete else Upsert),
      cand_remote_file_id = None, cand_remote_folder_id = lse_remote_parent_folder_id entry\<rparr>"

lemma diff_normalize_entry_eq:
  "diff_normalize_entry sid x =
     (if is_valid_relative_path (rde_path x) then Inr (diff_candidate sid x)
      else Inl (DiffInvalidPath (rde_path x)))"
  by (simp add: diff_normalize_entry_def diff_validate_relative_path_def diff_candidate_def)

lemma scan_normalize_entry_eq:
  "scan_normalize_entry x =
     (if is_valid_relative_path (lse_path x) then Inr (scan_candidate x)
      else Inl (ScanInvalidPath (lse_path x)))"
  by (simp add: scan_normalize_entry_def scan_candidate_def)

lemma filtered_loop_eq:
  "filtered_loop m out entries =
     (case collect_results scan_normalize_entry entries of
        Inl e \<Rightarrow> Inl e
      | Inr _ \<Rightarrow> Inr (out @ map scan_candidate
          (filter (\<lambda>e. lse_deleted e \<or> m (lse_path e)) entries)))"
  by (induction entries arbitrary: out)
    (auto simp: scan_normalize_entry_eq split: sum.splits)

lemma normalize_batch_Ok:
  assumes "normalize_batch self b = Inr cs"
  shows "cs = map (diff_candidate (rdb_sync_id b)) (rdb_entries b)"
  using collect_validated(3) [where path = rde_path and bad = DiffInvalidPath
      and f = "diff_normalize_entry (rdb_sync_id b)" and g = "diff_candidate (rdb_sync_id b)",
      OF diff_normalize_entry_eq] assms by (simp add: normalize_batch_def)

lemma normalize_entries_Ok:
  assumes "normalize_entries self es = Inr cs"
  shows "cs = map scan_candidate es"
  using collect_validated(3) [where path = lse_path and bad = ScanInvalidPath
      and f = scan_normalize_entry and g = scan_candidate, OF scan_normalize_entry_eq] assms
  by (simp add: normalize_entries_def)

interpretation poller: ingestor "normalize_batch self" "\<lambda>b. map rde_path (rdb_entries b)" Remote DiffInvalidPath
proof unfold_locales
  fix b cs c pre p post
  note spec = collect_validated [where path = rde_path and bad = DiffInvalidPath
      and f = "diff_normalize_entry (rdb_sync_id b)" and g = "diff_candidate (rdb_sync_id b)"
      and xs = "rdb_entries b", OF diff_normalize_entry_eq]
  show "\<exists>cs. normalize_batch self b = Inr cs"
    if "list_all is_valid_relative_path (map rde_path (rdb_entries b))"
    using spec(1) [OF that] by (simp add: normalize_batch_def)
  show "normalize_batch self b = Inl (DiffInvalidPath p)"
    if "map rde_path (rdb_entries b) = pre @ p # post" "list_all is_valid_relative_path pre"
      "\<not> is_valid_relative_path p"
    using spec(2) [OF that] by (simp add: normalize_batch_def)
  show "cand_path c \<in> set (map rde_path (rdb_entries b)) \<and> cand_source c = Remote"
    if "normalize_batch self b = Inr cs" "c \<in> set cs"
    using that normalize_batch_Ok [OF that(1)] by (auto simp: diff_candidate_def)
qed

interpretation scanner: ingestor "normalize_entries self" "map lse_path" Local ScanInvalidPath
proof unfold_locales
  fix b cs c pre p post
  note spec = collect_validated [where path = lse_path and bad = ScanInvalidPath,
      OF scan_normalize_entry_eq, of b]
  show "\<exists>cs. normalize_entries self b = Inr cs" if "list_all is_valid_relative_path (map lse_path b)"
    using spec(1) [OF that] by (simp add: normalize_entries_def)
  show "normalize_entries self b = Inl (ScanInvalidPath p)"
    if "map lse_path b = pre @ p # post" "list_all is_valid_relative_path pre"
      "\<not> is_valid_relative_path p"
    using spec(2) [OF that] by (simp add: normalize_entries_def)
  show "cand_path c \<in> set (map lse_path b) \<and> cand_source c = Local"
    if "normalize_entries self b = Inr cs" "c \<in> set cs"
    using that normalize_entries_Ok [OF that(1)] by (auto simp: scan_candidate_def)
qed

interpretation filtered_scanner:
  ingestor "\<lambda>es. normalize_entries_filtered self es m" "map lse_path" Local ScanInvalidPath
proof unfold_locales
  fix b cs c pre p post
  note spec = collect_validated [where path = lse_path and bad = ScanInvalidPath,
      OF scan_normalize_entry_eq, of b]
  show "\<exists>cs. normalize_entries_filtered self b m = Inr cs"
    if "list_all is_valid_relative_path (map lse_path b)"
    using spec(1) [OF that] by (simp add: normalize_entries_filtered_def filtered_loop_eq)
  show "normalize_entries_filtered self b m = Inl (ScanInvalidPath p)"
    if "map lse_path b = pre @ p # post" "list_all is_valid_relative_path pre"
      "\<not> is_valid_relative_path p"
    using spec(2) [OF that] by (simp add: normalize_entries_filtered_def filtered_loop_eq)
  show "cand_path c \<in> set (map lse_path b) \<and> cand_source c = Local"
    if "normalize_entries_filtered self b m = Inr cs" "c \<in> set cs"
    using that by (auto simp: normalize_entries_filtered_def filtered_loop_eq scan_candidate_def
        split: sum.splits)
qed

subsection \<open>Coalescing\<close>

definition coalesce_all :: "fs_event list \<Rightarrow> fs_event list" where
  "coalesce_all events = foldl (\<lambda>acc e. coalesce e acc) [] events"

lemma coalesce_loop_valid:
  "list_all is_valid_relative_path (map fse_path events) \<Longrightarrow>
     coalesce_loop acc events = Inr (foldl (\<lambda>acc e. coalesce e acc) acc events)"
  by (induction events arbitrary: acc) auto

lemma coalesce_loop_invalid:
  "list_all is_valid_relative_path (map fse_path pre) \<Longrightarrow> \<not> is_valid_relative_path (fse_path e) \<Longrightarrow>
     coalesce_loop acc (pre @ e # post) = Inl (EventInvalidPath (fse_path e))"
  by (induction pre arbitrary: acc) auto

lemma coalesce_loop_Ok:
  "coalesce_loop acc events = Inr xs \<Longrightarrow> xs = foldl (\<lambda>acc e. coalesce e acc) acc events"
  by (induction events arbitrary: acc) (auto split: if_splits)

lemma coalesce_paths: "fse_path ` set (coalesce e xs) = insert (fse_path e) (fse_path ` set xs)"
  by (induction e xs rule: coalesce.induct) auto

lemma coalesce_new: "fse_path e \<notin> fse_path ` set xs \<Longrightarrow> coalesce e xs = xs @ [e]"
  by (induction e xs rule: coalesce.induct) auto

lemma coalesce_old:
  "fse_path e \<in> fse_path ` set xs \<Longrightarrow> distinct (map fse_path xs) \<Longrightarrow>
     coalesce e xs = map (\<lambda>x. if fse_path x = fse_path e then e else x) xs"
proof (induction e xs rule: coalesce.induct)
  case (2 e x xs)
  show ?case
  proof (cases "fse_path x = fse_path e")
    case True
    then have "x\<lparr>fse_kind := fse_kind e, fse_entry_kind := fse_entry_kind e, fse_sync_id := fse_sync_id e\<rparr> = e"
      by (cases x; cases e) simp
    moreover have "map (\<lambda>y. if fse_path y = fse_path e then e else y) xs = xs"
      using "2.prems"(2) True by (intro map_idI) (auto simp: image_iff)
    ultimately show ?thesis using True by simp
  qed (use 2 in auto)
qed simp

lemma coalesce_all_paths: "fse_path ` set (coalesce_all events) = fse_path ` set events"
  unfolding coalesce_all_def by (induction events rule: rev_induct) (auto simp: coalesce_paths)

text \<open>Paths in the order they first occur, and the last event of a path.\<close>

definition first_occurrences :: "'a list \<Rightarrow> 'a list" where
  "first_occurrences xs = rev (remdups (rev xs))"

definition last_event :: "fs_event list \<Rightarrow> string \<Rightarrow> fs_event" where
  "last_event events p = last (filter (\<lambda>e. fse_path e = p) events)"

lemma first_occurrences_snoc:
  "first_occurrences (xs @ [x]) =
     (if x \<in> set xs then first_occurrences xs else first_occurrences xs @ [x])"
  by (simp add: first_occurrences_def)

lemma set_first_occurrences [simp]: "set (first_occurrences xs) = set xs"
  by (simp add: first_occurrences_def)

lemma fse_path_last_event: "p \<in> fse_path ` set events \<Longrightarrow> fse_path (last_event events p) = p"
proof -
  assume "p \<in> fse_path ` set events"
  then have "filter (\<lambda>e. fse_path e = p) events \<noteq> []" by (auto simp: filter_empty_conv)
  from last_in_set [OF this] show ?thesis by (simp add: last_event_def)
qed

lemma last_event_snoc:
  "last_event (es @ [e]) p = (if fse_path e = p then e else last_event es p)"
  by (simp add: last_event_def)

lemma coalesce_all_eq:
  "coalesce_all events = map (last_event events) (first_occurrences (map fse_path events))"
proof (induction events rule: rev_induct)
  case Nil
  show ?case by (simp add: coalesce_all_def first_occurrences_def)
next
  case (snoc e es)
  let ?ps = "first_occurrences (map fse_path es)"
  have step: "coalesce_all (es @ [e]) = coalesce e (coalesce_all es)"
    by (simp add: coalesce_all_def)
  have paths: "map fse_path (coalesce_all es) = ?ps"
    unfolding snoc by (auto intro!: map_idI simp: fse_path_last_event)
  show ?case
  proof (cases "fse_path e \<in> fse_path ` set es")
    case False
    then have "coalesce e (coalesce_all es) = coalesce_all es @ [e]"
      by (intro coalesce_new) (simp add: coalesce_all_paths)
    moreover have "map (last_event (es @ [e])) ?ps = map (last_event es) ?ps"
      using False by (auto simp: last_event_snoc)
    ultimately show ?thesis
      using False by (simp add: step snoc first_occurrences_snoc last_event_snoc)
  next
    case True
    have "distinct (map fse_path (coalesce_all es))"
      by (simp add: paths first_occurrences_def)
    with True have "coalesce e (coalesce_all es)
        = map (\<lambda>x. if fse_path x = fse_path e then e else x) (coalesce_all es)"
      by (intro coalesce_old) (simp_all add: coalesce_all_paths)
    also have "\<dots> = map (last_event (es @ [e])) ?ps"
      unfolding snoc by (auto simp: last_event_snoc fse_path_last_event)
    finally show ?thesis using True by (simp add: step first_occurrences_snoc)
  qed
qed

lemma normalize_events_Ok:
  "normalize_events es = Inr cs \<Longrightarrow> cs = map event_candidate (coalesce_all es)"
  by (auto simp: normalize_events_def coalesce_all_def dest: coalesce_loop_Ok split: sum.splits)

interpretation events: ingestor normalize_events "map fse_path" Local EventInvalidPath
proof unfold_locales
  fix b cs c pre p post
  show "\<exists>cs. normalize_events b = Inr cs" if "list_all is_valid_relative_path (map fse_path b)"
    using that by (simp add: normalize_events_def coalesce_loop_valid)
  show "normalize_events b = Inl (EventInvalidPath p)"
    if *: "map fse_path b = pre @ p # post" "list_all is_valid_relative_path pre"
      "\<not> is_valid_relative_path p"
  proof -
    from *(1) obtain us v vs where "b = us @ v # vs" "map fse_path us = pre" "fse_path v = p"
      by (auto simp: map_eq_append_conv)
    with *(2,3) coalesce_loop_invalid [of us v "[]" vs] show ?thesis
      by (simp add: normalize_events_def)
  qed
  show "cand_path c \<in> set (map fse_path b) \<and> cand_source c = Local"
    if "normalize_events b = Inr cs" "c \<in> set cs"
  proof -
    from that(1) have "cs = map event_candidate (coalesce_all b)" by (rule normalize_events_Ok)
    with that(2) obtain e where "e \<in> set (coalesce_all b)" "c = event_candidate e" by auto
    then show ?thesis using coalesce_all_paths [of b] by (auto simp: event_candidate_def)
  qed
qed

section \<open>Properties\<close>


text \<open>The event ingestor yields one candidate for each path of the batch, in
  the order the paths first occur, decided by the last event of that path.\<close>

theorem normalize_events_last_wins:
  assumes "normalize_events es = Ok cs"
  shows "cs = map (\<lambda>p. event_candidate (last_event es p)) (first_occurrences (map fse_path es))"
  using normalize_events_Ok [OF assms] by (simp add: coalesce_all_eq)

text \<open>A filtered scan keeps exactly the entries that the policy selects and
  every deletion, in scan order: a path that was excluded after it had been
  synchronised can still be removed remotely.\<close>

theorem filtered_scan_keeps_deletions:
  assumes "normalize_entries_filtered l es m = Ok cs"
  shows "cs = map scan_candidate (filter (\<lambda>e. lse_deleted e \<or> m (lse_path e)) es)"
  using assms by (simp add: normalize_entries_filtered_def filtered_loop_eq split: sum.splits)

lemma pending_push:
  "pending_of (push_event t e) sid =
     (if fse_sync_id e = sid then pending_of t sid @ [e] else pending_of t sid)"
  by (simp add: push_event_def pending_of_def)

lemma pending_pushes:
  "pending_of (foldl push_event t es) sid = pending_of t sid @ filter (\<lambda>e. fse_sync_id e = sid) es"
  by (induction es arbitrary: t) (simp_all add: pending_push)

lemma pushes_frame [simp]:
  "last_full_scan (foldl push_event t es) = last_full_scan t"
  "full_scan_interval (foldl push_event t es) = full_scan_interval t"
  by (induction es arbitrary: t) (simp_all add: push_event_def)

text \<open>The scan tracker delivers watcher events per root, in order and once.
  Deciding for a root asks for a full scan when none was recorded or the
  interval has passed, and otherwise returns exactly the root's own pending
  events in arrival order; either way nothing stays pending for the root and
  every other root's pending events are untouched.\<close>

theorem scan_tracker_delivers_once:
  assumes "decide now (foldl push_event t es) sid = (t', d)"
  shows "d = (case last_full_scan t sid of
        None \<Rightarrow> FullScan
      | Some s \<Rightarrow>
          (if full_scan_interval t \<le> now - s then FullScan
           else IncrementalOnly (pending_of t sid @ filter (\<lambda>e. fse_sync_id e = sid) es)))
    \<and> pending_count t' sid = 0
    \<and> (\<forall>other. other \<noteq> sid \<longrightarrow>
          pending_of t' other = pending_of t other @ filter (\<lambda>e. fse_sync_id e = other) es)
    \<and> last_full_scan t' = last_full_scan t"
proof (intro conjI allI impI)
  let ?t = "foldl push_event t es"
  have t': "t' = ?t\<lparr>pending_events := (pending_events ?t)(sid := None)\<rparr>"
    using assms by (auto simp: decide_def Let_def split: if_splits)
  show "d = (case last_full_scan t sid of
        None \<Rightarrow> FullScan
      | Some s \<Rightarrow>
          (if full_scan_interval t \<le> now - s then FullScan
           else IncrementalOnly (pending_of t sid @ filter (\<lambda>e. fse_sync_id e = sid) es)))"
    using assms by (auto simp: decide_def Let_def pending_pushes split: option.splits if_splits)
  show "pending_count t' sid = 0" by (simp add: t' pending_count_def pending_of_def)
  show "pending_of t' other = pending_of t other @ filter (\<lambda>e. fse_sync_id e = other) es"
    if "other \<noteq> sid" for other
    using that pending_pushes [of t es other] by (simp add: t' pending_of_def)
  show "last_full_scan t' = last_full_scan t" by (simp add: t')
qed

section \<open>Witnesses and a lost event\<close>

abbreviation example_event :: "sync_id \<Rightarrow> string \<Rightarrow> fs_event_kind \<Rightarrow> fs_event" where
  "example_event sid p k \<equiv> \<lparr>fse_sync_id = sid, fse_path = p, fse_entry_kind = File, fse_kind = k\<rparr>"

lemma trim_a: "trim ''a'' = ''a''"
  by (simp add: trim_def trim_end_def trim_start_def trim_start_by_none starts_with_def
      whitespace_encodings_def)

lemma valid_a: "is_valid_relative_path ''a''"
  by (simp add: is_valid_relative_path_def trim_a starts_with_def)

text \<open>Coalescing is by path alone: when two sync roots report an event at the
  same relative path in one batch, only the later root gets a candidate and
  the other root's change is dropped.\<close>

theorem coalescing_drops_other_root:
  "normalize_events [example_event (SyncId 1) ''a'' Write, example_event (SyncId 2) ''a'' Remove]
     = Ok [event_candidate (example_event (SyncId 2) ''a'' Remove)]"
  by (simp add: normalize_events_def valid_a)


theorem normalize_events_last_wins_witness:
  "[event_candidate (example_event (SyncId 1) ''a'' Remove)] =
     map (\<lambda>p. event_candidate (last_event
       [example_event (SyncId 1) ''a'' Create, example_event (SyncId 1) ''a'' Remove] p)) [''a'']"
  using normalize_events_last_wins
    [of "[example_event (SyncId 1) ''a'' Create, example_event (SyncId 1) ''a'' Remove]"
      "[event_candidate (example_event (SyncId 1) ''a'' Remove)]"]
  by (simp add: normalize_events_def valid_a first_occurrences_def)

theorem filtered_scan_keeps_deletions_witness:
  "normalize_entries_filtered local_scanner_default
     [\<lparr>lse_sync_id = SyncId 1, lse_path = ''a'', lse_entry_kind = File, lse_deleted = True,
       lse_remote_parent_folder_id = None\<rparr>] (\<lambda>_. False)
   = Ok (map scan_candidate
     [\<lparr>lse_sync_id = SyncId 1, lse_path = ''a'', lse_entry_kind = File, lse_deleted = True,
       lse_remote_parent_folder_id = None\<rparr>])"
proof -
  let ?es = "[\<lparr>lse_sync_id = SyncId 1, lse_path = ''a'', lse_entry_kind = File, lse_deleted = True,
       lse_remote_parent_folder_id = None\<rparr>]"
  obtain cs where cs: "normalize_entries_filtered local_scanner_default ?es (\<lambda>_. False) = Ok cs"
    using filtered_scanner.accepts [of ?es] valid_a by auto
  from filtered_scan_keeps_deletions [OF this] cs show ?thesis by simp
qed

theorem scan_tracker_delivers_once_witness:
  "snd (decide 7 (push_event (record_full_scan 5 (scan_tracker_new 300) (SyncId 1))
      (example_event (SyncId 1) ''a'' Write)) (SyncId 1))
   = IncrementalOnly [example_event (SyncId 1) ''a'' Write]"
proof -
  let ?t = "record_full_scan 5 (scan_tracker_new 300) (SyncId 1)"
  let ?e = "example_event (SyncId 1) ''a'' Write"
  obtain t' d where d: "decide 7 (foldl push_event ?t [?e]) (SyncId 1) = (t', d)" by fastforce
  from scan_tracker_delivers_once [OF this] have "d = IncrementalOnly [?e]"
    by (simp add: record_full_scan_def scan_tracker_new_def pending_of_def)
  with d show ?thesis by simp
qed

end
