(* ===== verification/Recovery.thy ===== *)
theory Recovery
  imports Model
begin

text \<open>
  The recovery classifier, \<open>pcloud-engine/src/recovery.rs\<close>: a pure function
  from an observed transfer failure to a disposition.
\<close>

record recovery_manager =
  automatic_repair_enabled :: bool

definition recovery_manager_default :: recovery_manager where
  "recovery_manager_default = \<lparr>automatic_repair_enabled = True\<rparr>"

datatype recovery_failure = RetryableNetworkError | ChecksumMismatch | InvalidPath | PermissionDenied

definition classify_disposition :: "recovery_manager \<Rightarrow> recovery_failure \<Rightarrow> failure_disposition" where
  "classify_disposition self failure =
     (case failure of
        RetryableNetworkError \<Rightarrow>
          (if automatic_repair_enabled self then RetryLater else ManualIntervention)
      | ChecksumMismatch \<Rightarrow> ManualIntervention
      | InvalidPath \<Rightarrow> Terminal
      | PermissionDenied \<Rightarrow> ManualIntervention)"

fun classify_reason :: "recovery_failure \<Rightarrow> string" where
  "classify_reason RetryableNetworkError = ''transient network failure should be retried''"
| "classify_reason ChecksumMismatch = ''checksum mismatch requires integrity review''"
| "classify_reason InvalidPath = ''invalid path is terminal until state is repaired''"
| "classify_reason PermissionDenied = ''permission denied requires operator intervention''"

definition classify_failure ::
  "recovery_manager \<Rightarrow> planned_operation \<Rightarrow> recovery_failure \<Rightarrow> recovery_decision" where
  "classify_failure self operation failure =
     \<lparr>dec_operation = operation, dec_disposition = classify_disposition self failure,
      dec_reason = classify_reason failure\<rparr>"

text \<open>Nothing but a network error is ever retried automatically, and that
  only with automatic repair switched on; only an invalid path is terminal; no
  failure is ever retried at once; and the decision is about the operation
  that failed.\<close>

theorem classify_failure_taxonomy:
  "dec_operation (classify_failure m op f) = op \<and>
   (dec_disposition (classify_failure m op f) = RetryLater \<longleftrightarrow>
      f = RetryableNetworkError \<and> automatic_repair_enabled m) \<and>
   (dec_disposition (classify_failure m op f) = Terminal \<longleftrightarrow> f = InvalidPath) \<and>
   dec_disposition (classify_failure m op f) \<noteq> RetryNow"
  by (cases f) (auto simp: classify_failure_def classify_disposition_def)

end
