(* ===== verification/Engine.thy ===== *)
theory Engine
  imports Planner Conflict_Resolver Scheduler Transfers Ingest Recovery
begin

text \<open>
  The engine aggregate, \<open>EngineShell\<close> of \<open>pcloud-engine/src/lib.rs\<close>: the record
  of all subsystems, the ingestion entry points that plan candidates into the
  scheduler queue, the transfer cycle, eviction, pause and resume, conflict
  resolution by path, and the durable snapshot of queued and in-flight work.
  The second half proves the engine's invariant over every sequence of
  operations and that a crash never loses unacknowledged work.
\<close>

section \<open>State\<close>

record session_manager_actor =
  refresh_margin_secs :: u64

definition session_manager_default :: session_manager_actor where
  "session_manager_default = \<lparr>refresh_margin_secs = 300\<rparr>"

definition PLANNER_OVERFLOW_MAX :: nat where
  "PLANNER_OVERFLOW_MAX = 100000"

record engine_shell =
  eng_session_manager :: session_manager_actor
  eng_diff_poller :: diff_poller
  eng_local_scanner :: local_scanner
  eng_planner :: planner
  eng_scheduler :: scheduler
  eng_recovery :: recovery_manager
  eng_conflict_resolver :: conflict_resolver
  eng_downloads :: download_coordinator
  eng_uploads :: upload_coordinator
  eng_auth_state :: auth_state
  eng_sync_state :: sync_state
  paused_sync_roots :: "sync_id set"
  localscan_wakes :: u64
  planner_overflow :: "sync_candidate list"
  pending_watcher_evictions :: "sync_id list"
  last_dispatched_batch :: "planned_operation list"

definition engine_new :: engine_shell where
  "engine_new =
     \<lparr>eng_session_manager = session_manager_default,
      eng_diff_poller = diff_poller_default,
      eng_local_scanner = local_scanner_default,
      eng_planner = planner_default,
      eng_scheduler = scheduler_default,
      eng_recovery = recovery_manager_default,
      eng_conflict_resolver = conflict_resolver_default,
      eng_downloads = download_default,
      eng_uploads = upload_default,
      eng_auth_state = LoggedOut,
      eng_sync_state = Initializing,
      paused_sync_roots = {},
      localscan_wakes = 0,
      planner_overflow = [],
      pending_watcher_evictions = [],
      last_dispatched_batch = []\<rparr>"

definition wake_localscan :: "engine_shell \<Rightarrow> engine_shell \<times> u64" where
  "wake_localscan self =
     (let wakes = (if localscan_wakes self = - 1 then - 1 else localscan_wakes self + 1) in
      (self\<lparr>localscan_wakes := wakes\<rparr>, wakes))"

section \<open>Ingestion\<close>

fun single_sync_id :: "sync_candidate list \<Rightarrow> sync_id option" where
  "single_sync_id [] = None"
| "single_sync_id (c # cs) =
     (if list_all (\<lambda>d. cand_sync_id d = cand_sync_id c) (c # cs) then Some (cand_sync_id c) else None)"

definition cap_overflow :: "sync_candidate list \<Rightarrow> sync_candidate list" where
  "cap_overflow overflow =
     (if length overflow > PLANNER_OVERFLOW_MAX then take PLANNER_OVERFLOW_MAX overflow else overflow)"

definition merge_with_overflow :: "engine_shell \<Rightarrow> sync_candidate list \<Rightarrow> sync_candidate list" where
  "merge_with_overflow self candidates =
     (if planner_overflow self = [] then candidates else planner_overflow self @ candidates)"

definition install_plan ::
  "engine_shell \<Rightarrow> sync_candidate list \<Rightarrow> planned_operation list \<times> sync_candidate list \<Rightarrow> engine_shell"
  where
  "install_plan self combined plan_result =
     (case plan_result of (operations, overflow) \<Rightarrow>
        self\<lparr>planner_overflow := cap_overflow overflow,
             eng_scheduler :=
               (case single_sync_id combined of
                  Some sid \<Rightarrow> replace_queue_for_sync_id (eng_scheduler self) sid operations
                | None \<Rightarrow> replace_queue (eng_scheduler self) operations)\<rparr>)"

definition ingest_candidates :: "engine_shell \<Rightarrow> sync_candidate list \<Rightarrow> engine_shell" where
  "ingest_candidates self candidates =
     (let combined = merge_with_overflow self candidates in
      install_plan self combined (plan_with_overflow (eng_planner self) combined))"

definition ingest_candidates_filtered ::
  "engine_shell \<Rightarrow> sync_candidate list \<Rightarrow> delete_policy \<Rightarrow> engine_shell" where
  "ingest_candidates_filtered self candidates pol =
     (let combined = merge_with_overflow self candidates in
      install_plan self combined (plan_filtered_with_overflow (eng_planner self) combined pol))"

definition drain_planner_overflow :: "engine_shell \<Rightarrow> engine_shell \<times> sync_candidate list" where
  "drain_planner_overflow self = (self\<lparr>planner_overflow := []\<rparr>, planner_overflow self)"

definition restore_planner_overflow :: "engine_shell \<Rightarrow> sync_candidate list \<Rightarrow> engine_shell" where
  "restore_planner_overflow self candidates = self\<lparr>planner_overflow := candidates\<rparr>"

text \<open>The \<open>ingest_*\<close> methods return a borrow of the queue; the model returns the
  engine, whose queue it is, or the normalisation error.\<close>

definition ingest_remote_diff ::
  "engine_shell \<Rightarrow> remote_diff_batch \<Rightarrow> (diff_normalization_error, engine_shell) result" where
  "ingest_remote_diff self batch =
     (case normalize_batch (eng_diff_poller self) batch of
        Inl e \<Rightarrow> Err e
      | Inr candidates \<Rightarrow> Ok (ingest_candidates self candidates))"

definition ingest_remote_diff_filtered ::
  "engine_shell \<Rightarrow> remote_diff_batch \<Rightarrow> delete_policy \<Rightarrow> (diff_normalization_error, engine_shell) result"
  where
  "ingest_remote_diff_filtered self batch pol =
     (case normalize_batch (eng_diff_poller self) batch of
        Inl e \<Rightarrow> Err e
      | Inr candidates \<Rightarrow> Ok (ingest_candidates_filtered self candidates pol))"

definition ingest_local_scan ::
  "engine_shell \<Rightarrow> local_scan_entry list \<Rightarrow> (local_scan_error, engine_shell) result" where
  "ingest_local_scan self entries =
     (case normalize_entries (eng_local_scanner self) entries of
        Inl e \<Rightarrow> Err e
      | Inr candidates \<Rightarrow> Ok (ingest_candidates self candidates))"

definition ingest_local_scan_with_delete_policy ::
  "engine_shell \<Rightarrow> local_scan_entry list \<Rightarrow> delete_policy \<Rightarrow> (local_scan_error, engine_shell) result"
  where
  "ingest_local_scan_with_delete_policy self entries pol =
     (case normalize_entries (eng_local_scanner self) entries of
        Inl e \<Rightarrow> Err e
      | Inr candidates \<Rightarrow> Ok (ingest_candidates_filtered self candidates pol))"

definition ingest_local_scan_filtered ::
  "engine_shell \<Rightarrow> local_scan_entry list \<Rightarrow> (string \<Rightarrow> bool) \<Rightarrow> (local_scan_error, engine_shell) result"
  where
  "ingest_local_scan_filtered self entries policy_matches =
     (case normalize_entries_filtered (eng_local_scanner self) entries policy_matches of
        Inl e \<Rightarrow> Err e
      | Inr candidates \<Rightarrow> Ok (ingest_candidates self candidates))"

definition ingest_fs_events ::
  "engine_shell \<Rightarrow> fs_event list \<Rightarrow> (fs_event_error, engine_shell) result" where
  "ingest_fs_events self events =
     (case normalize_events events of
        Inl e \<Rightarrow> Err e
      | Inr candidates \<Rightarrow> Ok (ingest_candidates self candidates))"

section \<open>Conflicts\<close>

definition unresolved_conflict_count :: "engine_shell \<Rightarrow> nat" where
  "unresolved_conflict_count self =
     length (filter is_conflict (queued_operations (eng_scheduler self)))"

text \<open>\<open>format!("{kind:?}")\<close>.\<close>

fun conflict_kind_debug :: "conflict_kind \<Rightarrow> string" where
  "conflict_kind_debug LocalModifyVsRemoteModify = ''LocalModifyVsRemoteModify''"
| "conflict_kind_debug LocalDeleteVsRemoteModify = ''LocalDeleteVsRemoteModify''"
| "conflict_kind_debug RemoteDeleteVsLocalModify = ''RemoteDeleteVsLocalModify''"
| "conflict_kind_debug TypeMismatch = ''TypeMismatch''"
| "conflict_kind_debug RenameCollision = ''RenameCollision''"
| "conflict_kind_debug ParentPathConflict = ''ParentPathConflict''"
| "conflict_kind_debug ResumeChecksumMismatch = ''ResumeChecksumMismatch''"
| "conflict_kind_debug CryptoAvailabilityConflict = ''CryptoAvailabilityConflict''"

definition list_unresolved_conflicts :: "engine_shell \<Rightarrow> (string \<times> string \<times> u64) list" where
  "list_unresolved_conflicts self =
     List.map_filter
       (\<lambda>p. case p of
          Conflict sid path kind \<Rightarrow> Some (path, conflict_kind_debug kind, sync_id_get sid)
        | _ \<Rightarrow> None)
       (queued_operations (eng_scheduler self))"

definition resolve_conflicts :: "engine_shell \<Rightarrow> conflict_resolution list" where
  "resolve_conflicts self =
     List.map_filter (\<lambda>p. resolve (eng_conflict_resolver self) p None None)
       (queued_operations (eng_scheduler self))"

definition policy_of_string :: "string \<Rightarrow> conflict_policy" where
  "policy_of_string s =
     (if s = ''prefer_local'' then PreferLocal
      else if s = ''prefer_remote'' then PreferRemote
      else if s = ''newest_wins'' then NewestWins
      else if s = ''rename_both'' then RenameBothPolicy
      else ManualReviewPolicy)"

definition resolve_conflict_by_path ::
  "engine_shell \<Rightarrow> string \<Rightarrow> string \<Rightarrow> engine_shell \<times> (string, conflict_resolution) result" where
  "resolve_conflict_by_path self path policy =
     (let queue = queued_operations (eng_scheduler self) in
      case position (\<lambda>p. is_conflict p \<and> op_path p = path) queue of
        None \<Rightarrow> (self, Err (''no queued conflict at path: '' @ path))
      | Some idx \<Rightarrow>
          (case resolve \<lparr>default_policy = policy_of_string policy\<rparr> (queue ! idx) None None of
             None \<Rightarrow> (self, Err ''conflict resolver returned None (internal error)'')
           | Some resolution \<Rightarrow>
               (self\<lparr>eng_scheduler :=
                  (eng_scheduler self)\<lparr>queued_operations := remove_at idx queue\<rparr>\<rparr>,
                Ok resolution)))"

section \<open>Transfers\<close>

definition engine_classify_failure ::
  "engine_shell \<Rightarrow> planned_operation \<Rightarrow> recovery_failure \<Rightarrow> recovery_decision" where
  "engine_classify_failure self operation failure =
     classify_failure (eng_recovery self) operation failure"

definition advance_transfer_cycle :: "engine_shell \<Rightarrow> engine_shell \<times> planned_operation list" where
  "advance_transfer_cycle self =
     (case next_batch (eng_scheduler self) of
        (sched, batch) \<Rightarrow>
          (self\<lparr>eng_scheduler := sched,
                eng_uploads := ul_accept_batch (eng_uploads self) batch,
                eng_downloads := dl_accept_batch (eng_downloads self) batch,
                last_dispatched_batch := batch\<rparr>,
           batch))"

definition mark_transfer_completed :: "engine_shell \<Rightarrow> string \<Rightarrow> engine_shell \<times> bool" where
  "mark_transfer_completed self path =
     (case ul_mark_completed (eng_uploads self) path of
        (u, True) \<Rightarrow> (self\<lparr>eng_uploads := u\<rparr>, True)
      | (u, False) \<Rightarrow>
          (case dl_mark_completed (eng_downloads self) path of
             (d, ok) \<Rightarrow> (self\<lparr>eng_uploads := u, eng_downloads := d\<rparr>, ok)))"

definition mark_transfer_failed :: "engine_shell \<Rightarrow> string \<Rightarrow> string \<Rightarrow> engine_shell \<times> bool" where
  "mark_transfer_failed self path error =
     (case ul_mark_failed (eng_uploads self) path error of
        (u, True) \<Rightarrow> (self\<lparr>eng_uploads := u\<rparr>, True)
      | (u, False) \<Rightarrow>
          (case dl_mark_failed (eng_downloads self) path error of
             (d, ok) \<Rightarrow> (self\<lparr>eng_uploads := u, eng_downloads := d\<rparr>, ok)))"

section \<open>Eviction, pause and resume\<close>

definition evict_sync_root :: "engine_shell \<Rightarrow> sync_id \<Rightarrow> engine_shell" where
  "evict_sync_root self sid =
     self\<lparr>eng_scheduler := evict_sync_id (eng_scheduler self) sid,
          eng_uploads := ul_evict_sync_id (eng_uploads self) sid,
          eng_downloads := dl_evict_sync_id (eng_downloads self) sid,
          paused_sync_roots := paused_sync_roots self - {sid},
          pending_watcher_evictions :=
            (if sid \<in> set (pending_watcher_evictions self) then pending_watcher_evictions self
             else pending_watcher_evictions self @ [sid])\<rparr>"

definition drain_watcher_evictions :: "engine_shell \<Rightarrow> engine_shell \<times> sync_id list" where
  "drain_watcher_evictions self =
     (self\<lparr>pending_watcher_evictions := []\<rparr>, pending_watcher_evictions self)"

definition pause_sync_root :: "engine_shell \<Rightarrow> sync_id \<Rightarrow> engine_shell \<times> bool" where
  "pause_sync_root self sid =
     (if sid \<notin> paused_sync_roots self then
        (self\<lparr>paused_sync_roots := insert sid (paused_sync_roots self),
              eng_scheduler := evict_sync_id (eng_scheduler self) sid,
              eng_uploads := ul_evict_sync_id (eng_uploads self) sid,
              eng_downloads := dl_evict_sync_id (eng_downloads self) sid\<rparr>, True)
      else (self, False))"

definition resume_sync_root :: "engine_shell \<Rightarrow> sync_id \<Rightarrow> engine_shell \<times> bool" where
  "resume_sync_root self sid =
     (self\<lparr>paused_sync_roots := paused_sync_roots self - {sid}\<rparr>, sid \<in> paused_sync_roots self)"

definition is_sync_root_paused :: "engine_shell \<Rightarrow> sync_id \<Rightarrow> bool" where
  "is_sync_root_paused self sid \<longleftrightarrow> sid \<in> paused_sync_roots self"

definition paused_sync_root_ids :: "engine_shell \<Rightarrow> sync_id list" where
  "paused_sync_root_ids self = sorted_list_of_set (paused_sync_roots self)"

definition overflow_sync_root_ids :: "engine_shell \<Rightarrow> sync_id list" where
  "overflow_sync_root_ids self =
     dedup_by (=) (sort (map cand_sync_id (planner_overflow self)))"

definition scheduler_sync_root_ids :: "engine_shell \<Rightarrow> sync_id list" where
  "scheduler_sync_root_ids self =
     dedup_by (=) (sort (map op_sync_id (queued_operations (eng_scheduler self))))"

section \<open>Durable queue\<close>

abbreviation durable_key :: "planned_operation \<Rightarrow> u64 \<times> nat \<times> string" where
  "durable_key p \<equiv> (sync_id_get (op_sync_id p), op_priority p, op_path p)"

definition drain_scheduler_queue :: "engine_shell \<Rightarrow> engine_shell \<times> planned_operation list" where
  "drain_scheduler_queue self =
     (self\<lparr>eng_scheduler := (eng_scheduler self)\<lparr>queued_operations := []\<rparr>\<rparr>,
      sort_key durable_key (queued_operations (eng_scheduler self)))"

definition snapshot_scheduler_queue :: "engine_shell \<Rightarrow> planned_operation list" where
  "snapshot_scheduler_queue self = sort_key durable_key (queued_operations (eng_scheduler self))"

definition restore_scheduler_queue :: "engine_shell \<Rightarrow> planned_operation list \<Rightarrow> engine_shell" where
  "restore_scheduler_queue self operations =
     self\<lparr>eng_scheduler :=
       (replace_queue (eng_scheduler self) operations)\<lparr>dispatched_operations := []\<rparr>\<rparr>"

definition snapshot_scheduler_durable :: "engine_shell \<Rightarrow> planned_operation list" where
  "snapshot_scheduler_durable self =
     dedup_by (\<lambda>a b. op_sync_id a = op_sync_id b \<and> op_path a = op_path b)
       (sort_key durable_key
          (queued_operations (eng_scheduler self) @ dispatched_operations (eng_scheduler self)))"

definition ack_dispatched_path :: "engine_shell \<Rightarrow> sync_id \<Rightarrow> string \<Rightarrow> engine_shell" where
  "ack_dispatched_path self sid path =
     self\<lparr>eng_scheduler := ack_batch (eng_scheduler self) [(sid, path)]\<rparr>"

section \<open>The engine invariant\<close>

text \<open>The queue is ordered, every task's state matches the list it is in, the
  deferred candidates are bounded, no watcher eviction is signalled twice, and
  every path the engine holds is a valid relative path.\<close>

abbreviation safe_op :: "planned_operation \<Rightarrow> bool" where
  "safe_op p \<equiv> is_valid_relative_path (op_path p)"

abbreviation all_tasks :: "engine_shell \<Rightarrow> transfer_task list" where
  "all_tasks e \<equiv> (dl_active (eng_downloads e) @ dl_completed (eng_downloads e) @ dl_failed (eng_downloads e))
     @ (ul_active (eng_uploads e) @ ul_completed (eng_uploads e) @ ul_failed (eng_uploads e))"

definition paths_safe :: "engine_shell \<Rightarrow> bool" where
  "paths_safe e \<longleftrightarrow>
     (\<forall>c \<in> set (planner_overflow e). is_valid_relative_path (cand_path c)) \<and>
     (\<forall>p \<in> set (queued_operations (eng_scheduler e)). safe_op p) \<and>
     (\<forall>p \<in> set (dispatched_operations (eng_scheduler e)). safe_op p) \<and>
     (\<forall>t \<in> set (all_tasks e). safe_op (task_operation t))"

definition engine_inv :: "engine_shell \<Rightarrow> bool" where
  "engine_inv e \<longleftrightarrow>
     queue_sorted (eng_scheduler e) \<and> dl.tasks_ok (eng_downloads e) \<and> ul.tasks_ok (eng_uploads e) \<and>
     length (planner_overflow e) \<le> PLANNER_OVERFLOW_MAX \<and>
     distinct (pending_watcher_evictions e) \<and> paths_safe e"

lemma engine_inv_new [inv_intros]: "engine_inv engine_new"
  by (simp add: engine_inv_def paths_safe_def engine_new_def queue_sorted_def scheduler_default_def
      dl.tasks_ok_def ul.tasks_ok_def download_default_def upload_default_def)

text \<open>What a plan is made of.\<close>

lemma plan_filtered_sub:
  "set (fst (plan_filtered_with_overflow pl cs pol)) \<subseteq> set (plan pl cs)"
  "snd (plan_filtered_with_overflow pl cs pol) = snd (plan_with_overflow pl cs)"
  by (auto simp: plan_filtered_with_overflow_def plan_def case_prod_unfold)

lemma plan_ops_from:
  assumes "p \<in> set (plan pl cs)"
  shows "\<exists>c \<in> set cs. cand_path c = op_path p \<and> cand_sync_id c = op_sync_id p"
  using in_plan_sync_id [OF assms] by blast

lemma length_cap_overflow: "length (cap_overflow cs) \<le> PLANNER_OVERFLOW_MAX"
  by (simp add: cap_overflow_def)

lemma set_cap_overflow: "set (cap_overflow cs) \<subseteq> set cs"
  by (auto simp: cap_overflow_def dest: in_set_takeD)

lemma install_plan_frame [simp]:
  "eng_downloads (install_plan e cs r) = eng_downloads e"
  "eng_uploads (install_plan e cs r) = eng_uploads e"
  "pending_watcher_evictions (install_plan e cs r) = pending_watcher_evictions e"
  "eng_planner (install_plan e cs r) = eng_planner e"
  by (simp_all add: install_plan_def case_prod_unfold)

lemma install_plan_queue:
  "set (queued_operations (eng_scheduler (install_plan e cs r)))
     \<subseteq> set (queued_operations (eng_scheduler e)) \<union> set (fst r)"
  "dispatched_operations (eng_scheduler (install_plan e cs r)) = dispatched_operations (eng_scheduler e)"
  "queue_sorted (eng_scheduler (install_plan e cs r))"
  "planner_overflow (install_plan e cs r) = cap_overflow (snd r)"
  by (auto simp: install_plan_def replace_queue_def replace_queue_for_sync_id_def case_prod_unfold
      Let_def queue_sorted_def split: option.splits)

lemma merge_with_overflow_eq: "merge_with_overflow e cs = planner_overflow e @ cs"
  by (simp add: merge_with_overflow_def)

lemma install_plan_inv:
  assumes inv: "engine_inv e" and valid: "\<And>c. c \<in> set cs \<Longrightarrow> is_valid_relative_path (cand_path c)"
    and r: "set (fst r) \<subseteq> set (plan pl (planner_overflow e @ cs))"
      "snd r = snd (plan_with_overflow pl (planner_overflow e @ cs))"
  shows "engine_inv (install_plan e (planner_overflow e @ cs) r)"
proof -
  let ?cs = "planner_overflow e @ cs"
  have all: "is_valid_relative_path (cand_path c)" if "c \<in> set ?cs" for c
    using that inv valid by (auto simp: engine_inv_def paths_safe_def)
  have ops: "safe_op p" if "p \<in> set (fst r)" for p
    using that r(1) plan_ops_from all by (metis subsetD)
  have ov: "set (cap_overflow (snd r)) \<subseteq> set ?cs"
    using set_cap_overflow [of "snd r"] set_overflow_subset [of pl ?cs] r(2) by auto
  have "safe_op p" if "p \<in> set (queued_operations (eng_scheduler (install_plan e ?cs r)))" for p
    using that install_plan_queue(1) [of e ?cs r] ops inv by (auto simp: engine_inv_def paths_safe_def)
  moreover have "is_valid_relative_path (cand_path c)" if "c \<in> set (cap_overflow (snd r))" for c
    using that ov all by blast
  ultimately show ?thesis
    using inv unfolding engine_inv_def paths_safe_def
    by (simp add: install_plan_queue(2-4) length_cap_overflow)
qed

lemma ingest_candidates_inv [inv_intros]:
  assumes "engine_inv e" and "\<And>c. c \<in> set cs \<Longrightarrow> is_valid_relative_path (cand_path c)"
  shows "engine_inv (ingest_candidates e cs)" and "engine_inv (ingest_candidates_filtered e cs pol)"
proof -
  show "engine_inv (ingest_candidates e cs)"
    unfolding ingest_candidates_def Let_def merge_with_overflow_eq
    by (rule install_plan_inv [OF assms, where pl = "eng_planner e"]) (simp_all add: plan_def)
  show "engine_inv (ingest_candidates_filtered e cs pol)"
    unfolding ingest_candidates_filtered_def Let_def merge_with_overflow_eq
    by (rule install_plan_inv [OF assms, where pl = "eng_planner e"])
      (assumption | rule plan_filtered_sub)+
qed

lemma evict_tasks:
  "set (all_tasks (e\<lparr>eng_scheduler := s, eng_uploads := ul_evict_sync_id (eng_uploads e) sid,
      eng_downloads := dl_evict_sync_id (eng_downloads e) sid\<rparr>))
   = {t \<in> set (all_tasks e). task_owner t \<noteq> sid}"
  by (auto simp: ul_evict_sync_id_def dl_evict_sync_id_def retain_other_sync_ids_def)

lemma evict_paths_safe:
  assumes "paths_safe e"
  shows "paths_safe (e\<lparr>eng_scheduler := evict_sync_id (eng_scheduler e) sid,
    eng_uploads := ul_evict_sync_id (eng_uploads e) sid,
    eng_downloads := dl_evict_sync_id (eng_downloads e) sid\<rparr>)"
  using assms unfolding paths_safe_def evict_tasks by (simp add: evict_sync_id_def)

lemma paths_safe_irrelevant [simp]:
  "paths_safe (e\<lparr>paused_sync_roots := P\<rparr>) = paths_safe e"
  "paths_safe (e\<lparr>pending_watcher_evictions := W\<rparr>) = paths_safe e"
  "paths_safe (e\<lparr>localscan_wakes := w\<rparr>) = paths_safe e"
  "paths_safe (e\<lparr>last_dispatched_batch := b\<rparr>) = paths_safe e"
  by (simp_all add: paths_safe_def)

lemma evict_sync_root_inv [inv_intros]: "engine_inv e \<Longrightarrow> engine_inv (evict_sync_root e sid)"
  using evict_paths_safe [of e sid]
  by (auto simp: engine_inv_def evict_sync_root_def intro: inv_intros)

lemma pause_sync_root_inv [inv_intros]: "engine_inv e \<Longrightarrow> engine_inv (fst (pause_sync_root e sid))"
  using evict_paths_safe [of "e\<lparr>paused_sync_roots := insert sid (paused_sync_roots e)\<rparr>" sid]
  by (auto simp: engine_inv_def pause_sync_root_def intro: inv_intros)

lemma resume_sync_root_inv [inv_intros]: "engine_inv e \<Longrightarrow> engine_inv (fst (resume_sync_root e sid))"
  by (simp add: engine_inv_def resume_sync_root_def)

lemma wake_localscan_inv [inv_intros]: "engine_inv e \<Longrightarrow> engine_inv (fst (wake_localscan e))"
  by (simp add: engine_inv_def wake_localscan_def Let_def)

lemma drain_watcher_evictions_inv [inv_intros]:
  "engine_inv e \<Longrightarrow> engine_inv (fst (drain_watcher_evictions e))"
  by (simp add: engine_inv_def drain_watcher_evictions_def)

lemma overflow_inv [inv_intros]:
  "engine_inv e \<Longrightarrow> engine_inv (fst (drain_planner_overflow e))"
  "engine_inv e \<Longrightarrow> length cs \<le> PLANNER_OVERFLOW_MAX \<Longrightarrow>
     \<forall>c \<in> set cs. is_valid_relative_path (cand_path c) \<Longrightarrow> engine_inv (restore_planner_overflow e cs)"
  by (auto simp: engine_inv_def paths_safe_def drain_planner_overflow_def restore_planner_overflow_def)

lemma durable_inv [inv_intros]:
  "engine_inv e \<Longrightarrow> engine_inv (fst (drain_scheduler_queue e))"
  "engine_inv e \<Longrightarrow> \<forall>p \<in> set ops. safe_op p \<Longrightarrow> engine_inv (restore_scheduler_queue e ops)"
  "engine_inv e \<Longrightarrow> engine_inv (ack_dispatched_path e sid path)"
  by (auto simp: engine_inv_def paths_safe_def drain_scheduler_queue_def restore_scheduler_queue_def
      ack_dispatched_path_def ack_batch_eq replace_queue_def queue_sorted_def)

lemma set_remove_at: "set (remove_at i xs) \<subseteq> set xs"
  by (auto simp: remove_at_def dest: in_set_takeD in_set_dropD)

lemma subseq_remove_at: "subseq (remove_at i xs) xs"
proof (induction xs arbitrary: i)
  case (Cons x xs)
  then show ?case by (cases i) auto
qed simp

lemma sorted_map_remove_at: "sorted (map f xs) \<Longrightarrow> sorted (map f (remove_at i xs))"
  by (rule subseq_sorted_map [OF subseq_remove_at])

lemma resolve_conflict_by_path_inv [inv_intros]:
  assumes "engine_inv e"
  shows "engine_inv (fst (resolve_conflict_by_path e path pol))"
  using assms set_remove_at [of _ "queued_operations (eng_scheduler e)"]
  by (auto simp: resolve_conflict_by_path_def Let_def engine_inv_def paths_safe_def queue_sorted_def
      sorted_map_remove_at split: option.splits)

lemma advance_inv [inv_intros]:
  assumes inv: "engine_inv e"
  shows "engine_inv (fst (advance_transfer_cycle e))"
proof -
  let ?s = "eng_scheduler e"
  obtain s' b where nb: "next_batch ?s = (s', b)" by fastforce
  note cons = arg_cong [OF fair.conserved [OF nb], of set_mset]
  have b: "safe_op p" if "p \<in> set b" for p
    using cons inv that by (auto simp: engine_inv_def paths_safe_def)
  have q: "safe_op p" if "p \<in> set (queued_operations s')" for p
    using cons inv that by (auto simp: engine_inv_def paths_safe_def)
  have d: "dispatched_operations s' = dispatched_operations ?s @ b"
    using nb by (auto simp: next_batch_eq)
  have ul: "set (ul_active (ul_accept_batch u b)) = started_task ` {p \<in> set b. upload_side p}"
    and dl: "set (dl_active (dl_accept_batch c b)) = started_task ` {p \<in> set b. download_side p}" for u c
    using arg_cong [OF ul.accept_active [of u b], of set_mset]
      arg_cong [OF dl.accept_active [of c b], of set_mset] by auto
  let ?e = "fst (advance_transfer_cycle e)"
  have "safe_op (task_operation t)" if "t \<in> set (all_tasks ?e)" for t
  proof -
    from that consider "t \<in> set (dl_active (dl_accept_batch (eng_downloads e) b))"
      | "t \<in> set (ul_active (ul_accept_batch (eng_uploads e) b))"
      | "t \<in> set (all_tasks e)"
      by (auto simp: advance_transfer_cycle_def nb ul.accept_done dl.accept_done)
    then show ?thesis
      unfolding dl ul using b inv
      by cases (auto simp: started_task_def engine_inv_def paths_safe_def)
  qed
  then have "paths_safe ?e"
    using inv b q unfolding paths_safe_def engine_inv_def
    by (auto simp: advance_transfer_cycle_def nb d)
  moreover have "queue_sorted s'"
    using queue_sorted_next [of ?s] inv nb by (simp add: engine_inv_def)
  ultimately show ?thesis
    using inv by (simp add: engine_inv_def advance_transfer_cycle_def nb ul.accept_ok dl.accept_ok)
qed

lemma safe_tasks_iff:
  "(\<forall>t \<in> set (all_tasks e). safe_op (task_operation t)) \<longleftrightarrow>
     (\<forall>p \<in># dl.all_operations (eng_downloads e) + ul.all_operations (eng_uploads e). safe_op p)"
  by (auto simp: dl.all_operations_def ul.all_operations_def)

lemma mark_transfer_cases:
  "fst (mark_transfer_completed e path) =
     e\<lparr>eng_uploads := ul.apply_mark (eng_uploads e) (MarkCompleted path)\<rparr> \<or>
   fst (mark_transfer_completed e path) =
     e\<lparr>eng_uploads := ul.apply_mark (eng_uploads e) (MarkCompleted path),
       eng_downloads := dl.apply_mark (eng_downloads e) (MarkCompleted path)\<rparr>"
  "fst (mark_transfer_failed e path err) =
     e\<lparr>eng_uploads := ul.apply_mark (eng_uploads e) (MarkFailed path err)\<rparr> \<or>
   fst (mark_transfer_failed e path err) =
     e\<lparr>eng_uploads := ul.apply_mark (eng_uploads e) (MarkFailed path err),
       eng_downloads := dl.apply_mark (eng_downloads e) (MarkFailed path err)\<rparr>"
  by (auto simp: mark_transfer_completed_def mark_transfer_failed_def split: prod.splits bool.splits)

lemma mark_inv [inv_intros]:
  assumes "engine_inv e"
  shows "engine_inv (fst (mark_transfer_completed e path))"
    and "engine_inv (fst (mark_transfer_failed e path err))"
proof -
  have *: "engine_inv (e\<lparr>eng_uploads := ul.apply_mark (eng_uploads e) m\<rparr>)"
    "engine_inv (e\<lparr>eng_uploads := ul.apply_mark (eng_uploads e) m,
       eng_downloads := dl.apply_mark (eng_downloads e) m\<rparr>)" for m
    using assms unfolding engine_inv_def paths_safe_def safe_tasks_iff
    by (simp_all add: ul.apply_mark_ok dl.apply_mark_ok ul.apply_mark_conserves dl.apply_mark_conserves)
  show "engine_inv (fst (mark_transfer_completed e path))"
    using mark_transfer_cases(1) [of e path] * by metis
  show "engine_inv (fst (mark_transfer_failed e path err))"
    using mark_transfer_cases(2) [of e path err] * by metis
qed

subsection \<open>Every operation as a step\<close>

inductive engine_step :: "engine_shell \<Rightarrow> engine_shell \<Rightarrow> bool" where
  remote_diff: "ingest_remote_diff e b = Ok e' \<Longrightarrow> engine_step e e'"
| remote_diff_filtered: "ingest_remote_diff_filtered e b pol = Ok e' \<Longrightarrow> engine_step e e'"
| local_scan: "ingest_local_scan e es = Ok e' \<Longrightarrow> engine_step e e'"
| local_scan_policy: "ingest_local_scan_with_delete_policy e es pol = Ok e' \<Longrightarrow> engine_step e e'"
| local_scan_filtered: "ingest_local_scan_filtered e es m = Ok e' \<Longrightarrow> engine_step e e'"
| fs_events: "ingest_fs_events e evs = Ok e' \<Longrightarrow> engine_step e e'"
| wake: "engine_step e (fst (wake_localscan e))"
| drain_overflow: "engine_step e (fst (drain_planner_overflow e))"
| restore_overflow: "length cs \<le> PLANNER_OVERFLOW_MAX \<Longrightarrow>
    \<forall>c \<in> set cs. is_valid_relative_path (cand_path c) \<Longrightarrow> engine_step e (restore_planner_overflow e cs)"
| resolve_conflict: "engine_step e (fst (resolve_conflict_by_path e path pol))"
| advance: "engine_step e (fst (advance_transfer_cycle e))"
| completed: "engine_step e (fst (mark_transfer_completed e path))"
| failed: "engine_step e (fst (mark_transfer_failed e path err))"
| evict: "engine_step e (evict_sync_root e sid)"
| drain_evictions: "engine_step e (fst (drain_watcher_evictions e))"
| pause: "engine_step e (fst (pause_sync_root e sid))"
| resume: "engine_step e (fst (resume_sync_root e sid))"
| drain_queue: "engine_step e (fst (drain_scheduler_queue e))"
| restore_queue: "\<forall>p \<in> set ops. safe_op p \<Longrightarrow> engine_step e (restore_scheduler_queue e ops)"
| ack: "engine_step e (ack_dispatched_path e sid path)"

lemma ingest_steps_inv:
  assumes "engine_inv e"
  shows "ingest_remote_diff e b = Ok e' \<Longrightarrow> engine_inv e'"
    and "ingest_remote_diff_filtered e b pol = Ok e' \<Longrightarrow> engine_inv e'"
    and "ingest_local_scan e es = Ok e' \<Longrightarrow> engine_inv e'"
    and "ingest_local_scan_with_delete_policy e es pol = Ok e' \<Longrightarrow> engine_inv e'"
    and "ingest_local_scan_filtered e es m = Ok e' \<Longrightarrow> engine_inv e'"
    and "ingest_fs_events e evs = Ok e' \<Longrightarrow> engine_inv e'"
  using ingest_candidates_inv [OF assms] poller.candidates_confined(1) scanner.candidates_confined(1)
    filtered_scanner.candidates_confined(1) events.candidates_confined(1)
  by (simp add: ingest_remote_diff_def ingest_remote_diff_filtered_def ingest_local_scan_def
      ingest_local_scan_with_delete_policy_def ingest_local_scan_filtered_def ingest_fs_events_def
      split: sum.splits; blast)+

lemma engine_step_inv: "engine_step e e' \<Longrightarrow> engine_inv e \<Longrightarrow> engine_inv e'"
  by (induction rule: engine_step.induct) (blast intro: ingest_steps_inv inv_intros)+



section \<open>Crash safety of the queue\<close>

abbreviation held_operations :: "engine_shell \<Rightarrow> planned_operation list" where
  "held_operations e \<equiv> queued_operations (eng_scheduler e) @ dispatched_operations (eng_scheduler e)"

definition pending_keys :: "engine_shell \<Rightarrow> (sync_id \<times> string) set" where
  "pending_keys e = op_key ` set (held_operations e)"

lemma snapshot_keys: "op_key ` set (snapshot_scheduler_durable e) = pending_keys e"
proof -
  let ?same = "\<lambda>a b. op_sync_id a = op_sync_id b \<and> op_path a = op_path b"
  let ?xs = "sort_key durable_key (held_operations e)"
  have snap: "snapshot_scheduler_durable e = dedup_by ?same ?xs"
    by (simp add: snapshot_scheduler_durable_def)
  have "op_key ` set ?xs \<subseteq> op_key ` set (dedup_by ?same ?xs)"
  proof
    fix k assume "k \<in> op_key ` set ?xs"
    then obtain p where p: "p \<in> set ?xs" "k = op_key p" by blast
    with dedup_by_represents [of ?same p ?xs] obtain q
      where "q \<in> set (dedup_by ?same ?xs)" "?same p q" by auto
    with p(2) show "k \<in> op_key ` set (dedup_by ?same ?xs)" by force
  qed
  moreover have "op_key ` set (dedup_by ?same ?xs) \<subseteq> op_key ` set ?xs"
    using set_dedup_by_subset by (rule image_mono)
  ultimately show ?thesis unfolding snap pending_keys_def by auto
qed

lemma restore_keys: "pending_keys (restore_scheduler_queue e ops) = op_key ` set ops"
  by (simp add: pending_keys_def restore_scheduler_queue_def replace_queue_def)

text \<open>The runtime's actions on the queue between two ingestions: dispatch a
  batch, report a transfer, acknowledge an operation, write the snapshot to
  disk, and crash, after which a fresh engine restores the snapshot on disk.\<close>

datatype durable_event =
    Dispatch | Report string | ReportFailure string string | Acked sync_id string | Persist | CrashRestart

fun durable_step ::
  "engine_shell \<times> planned_operation list \<Rightarrow> durable_event \<Rightarrow> engine_shell \<times> planned_operation list" where
  "durable_step (e, disk) Dispatch = (fst (advance_transfer_cycle e), disk)"
| "durable_step (e, disk) (Report path) = (fst (mark_transfer_completed e path), disk)"
| "durable_step (e, disk) (ReportFailure path err) = (fst (mark_transfer_failed e path err), disk)"
| "durable_step (e, disk) (Acked sid path) = (ack_dispatched_path e sid path, disk)"
| "durable_step (e, disk) Persist = (e, snapshot_scheduler_durable e)"
| "durable_step (e, disk) CrashRestart = (restore_scheduler_queue engine_new disk, disk)"

definition acked_keys :: "durable_event list \<Rightarrow> (sync_id \<times> string) set" where
  "acked_keys evs = {(sid, path). Acked sid path \<in> set evs}"

lemma advance_pending: "pending_keys (fst (advance_transfer_cycle e)) = pending_keys e"
proof -
  obtain s b where nb: "next_batch (eng_scheduler e) = (s, b)" by fastforce
  have "mset (queued_operations s @ dispatched_operations s) = mset (held_operations e)"
    using fair.conserved [OF nb] nb by (auto simp: next_batch_eq)
  from arg_cong [OF this, of set_mset]
  have "set (queued_operations s @ dispatched_operations s) = set (held_operations e)"
    by (simp only: set_mset_mset)
  then show ?thesis by (simp add: pending_keys_def advance_transfer_cycle_def nb)
qed

lemma mark_pending:
  "pending_keys (fst (mark_transfer_completed e path)) = pending_keys e"
  "pending_keys (fst (mark_transfer_failed e path err)) = pending_keys e"
proof -
  have "eng_scheduler (fst (mark_transfer_completed e path)) = eng_scheduler e"
    "eng_scheduler (fst (mark_transfer_failed e path err)) = eng_scheduler e"
    by (simp_all add: mark_transfer_completed_def mark_transfer_failed_def split: prod.splits bool.splits)
  then show "pending_keys (fst (mark_transfer_completed e path)) = pending_keys e"
    "pending_keys (fst (mark_transfer_failed e path err)) = pending_keys e"
    by (simp_all add: pending_keys_def)
qed

lemma ack_pending:
  "k \<in> pending_keys e \<Longrightarrow> k \<noteq> (sid, path) \<Longrightarrow> k \<in> pending_keys (ack_dispatched_path e sid path)"
  by (auto simp: pending_keys_def ack_dispatched_path_def ack_batch_eq)

text \<open>C2: unacknowledged work survives crashes.  From a state whose snapshot is
  on disk, after any sequence of dispatches, completion and failure reports,
  acknowledgements, snapshots and crashes, every root and path that was
  queued or in flight and has not been acknowledged is still queued or in
  flight, and is on disk.\<close>

theorem unacked_work_survives_crashes:
  assumes "foldl durable_step (e, snapshot_scheduler_durable e) evs = (e', disk)"
    and "k \<in> pending_keys e" and "k \<notin> acked_keys evs"
  shows "k \<in> pending_keys e' \<and> k \<in> op_key ` set disk"
proof -
  have "k \<in> pending_keys e' \<and> k \<in> op_key ` set disk"
    if "foldl durable_step (e0, d0) evs = (e', disk)" "k \<notin> acked_keys evs"
      "k \<in> pending_keys e0" "k \<in> op_key ` set d0" for e0 d0
    using that
  proof (induction evs arbitrary: e0 d0)
    case (Cons ev evs)
    obtain e1 d1 where step: "durable_step (e0, d0) ev = (e1, d1)" by fastforce
    have "k \<in> pending_keys e1 \<and> k \<in> op_key ` set d1"
      using step Cons.prems(2-4)
      by (cases ev) (auto simp: advance_pending mark_pending snapshot_keys restore_keys acked_keys_def
          intro: ack_pending)
    moreover have "k \<notin> acked_keys evs" using Cons.prems(2) by (auto simp: acked_keys_def)
    ultimately show ?case using Cons.IH [of e1 d1] Cons.prems(1) step by simp
  qed simp
  with assms show ?thesis by (simp add: snapshot_keys)
qed

definition one_upload :: engine_shell where
  "one_upload = restore_scheduler_queue engine_new [UploadFile (SyncId 1) ''a'' None ''a'']"

theorem unacked_work_survives_crashes_witness:
  "(SyncId 1, ''a'') \<in> pending_keys (fst (foldl durable_step (one_upload, snapshot_scheduler_durable one_upload)
     [Dispatch, CrashRestart, Dispatch]))"
proof -
  let ?r = "foldl durable_step (one_upload, snapshot_scheduler_durable one_upload) [Dispatch, CrashRestart, Dispatch]"
  have "?r = (fst ?r, snd ?r)" by simp
  from unacked_work_survives_crashes [OF this, of "(SyncId 1, ''a'')"] show ?thesis
    by (simp add: one_upload_def restore_keys acked_keys_def)
qed

text \<open>The guarantee is about roots and paths, not operations: when an upload
  in flight has been re-planned as a download of the same path, the durable
  snapshot keeps only the first of the two in its order and the other
  unacknowledged operation is not restored.\<close>

theorem snapshot_drops_inflight_operation:
  "snapshot_scheduler_durable
     (engine_new\<lparr>eng_scheduler := scheduler_default\<lparr>
        queued_operations := [DownloadFile (SyncId 1) ''a'' None],
        dispatched_operations := [UploadFile (SyncId 1) ''a'' None ''a'']\<rparr>\<rparr>)
   = [DownloadFile (SyncId 1) ''a'' None]"
  by (simp add: snapshot_scheduler_durable_def)

section \<open>Ingestion, dispatch, eviction and conflicts\<close>

lemma install_plan_contains:
  "set (fst r) \<subseteq> set (queued_operations (eng_scheduler (install_plan e cs r)))"
  by (auto simp: install_plan_def replace_queue_def replace_queue_for_sync_id_def case_prod_unfold
      Let_def split: option.splits)

lemma cap_overflow_id: "length cs \<le> PLANNER_OVERFLOW_MAX \<Longrightarrow> cap_overflow cs = cs"
  by (simp add: cap_overflow_def)



text \<open>A transfer cycle hands the whole batch out: every operation of the
  batch other than a conflict becomes an active task of exactly one
  coordinator, uploads for remote writes and downloads for local writes, and
  the scheduler records the batch as dispatched.\<close>

theorem advance_hands_out_batch:
  assumes "advance_transfer_cycle e = (e', batch)"
  shows "image_mset task_operation (mset (ul_active (eng_uploads e'))) = filter_mset writes_remote (mset batch)
    \<and> image_mset task_operation (mset (dl_active (eng_downloads e'))) = filter_mset writes_local (mset batch)
    \<and> mset batch = filter_mset writes_remote (mset batch) + filter_mset writes_local (mset batch)
        + filter_mset is_conflict (mset batch)
    \<and> dispatched_operations (eng_scheduler e') = dispatched_operations (eng_scheduler e) @ batch
    \<and> mset (held_operations e') = mset (held_operations e)"
proof (intro conjI)
  obtain s where nb: "next_batch (eng_scheduler e) = (s, batch)"
    and e': "eng_scheduler e' = s" "eng_uploads e' = ul_accept_batch (eng_uploads e) batch"
      "eng_downloads e' = dl_accept_batch (eng_downloads e) batch"
    using assms by (auto simp: advance_transfer_cycle_def split: prod.splits)
  have sides: "upload_side = writes_remote" "download_side = writes_local"
    by (rule ext, case_tac x, simp_all)+
  show "image_mset task_operation (mset (ul_active (eng_uploads e'))) = filter_mset writes_remote (mset batch)"
    unfolding e' ul.accept_active
    by (simp add: started_task_def image_mset.compositionality comp_def sides)
  show "image_mset task_operation (mset (dl_active (eng_downloads e'))) = filter_mset writes_local (mset batch)"
    unfolding e' dl.accept_active
    by (simp add: started_task_def image_mset.compositionality comp_def sides)
  have "filter_mset writes_remote M + filter_mset writes_local M + filter_mset is_conflict M = M" for M
  proof (induction M)
    case (add p M)
    then show ?case by (cases p) auto
  qed simp
  then show "mset batch = filter_mset writes_remote (mset batch) + filter_mset writes_local (mset batch)
        + filter_mset is_conflict (mset batch)" by simp
  show disp: "dispatched_operations (eng_scheduler e') = dispatched_operations (eng_scheduler e) @ batch"
    using nb by (auto simp: next_batch_eq e')
  show "mset (held_operations e') = mset (held_operations e)"
    using fair.conserved [OF nb] disp by (simp add: e')
qed

theorem advance_hands_out_batch_witness:
  "mset (held_operations (fst (advance_transfer_cycle one_upload))) = mset (held_operations one_upload)"
  by (rule advance_hands_out_batch [OF prod.collapse [symmetric], THEN conjunct2, THEN conjunct2,
        THEN conjunct2, THEN conjunct2])

text \<open>Removing a sync root removes every trace of its operations from the
  queue, the dispatched slot and both coordinators, leaves those of every other
  root as they were, and signals its watcher exactly once.\<close>

theorem evict_sync_root_isolates:
  "(\<forall>p \<in> set (held_operations (evict_sync_root e sid)). op_sync_id p \<noteq> sid) \<and>
   (\<forall>t \<in> set (all_tasks (evict_sync_root e sid)). task_owner t \<noteq> sid) \<and>
   sid \<notin> paused_sync_roots (evict_sync_root e sid) \<and>
   count_list (pending_watcher_evictions (evict_sync_root e sid)) sid
     = max 1 (count_list (pending_watcher_evictions e) sid) \<and>
   (other \<noteq> sid \<longrightarrow>
      filter (\<lambda>p. op_sync_id p = other) (held_operations (evict_sync_root e sid))
        = filter (\<lambda>p. op_sync_id p = other) (held_operations e) \<and>
      filter (\<lambda>t. task_owner t = other) (all_tasks (evict_sync_root e sid))
        = filter (\<lambda>t. task_owner t = other) (all_tasks e))"
proof (intro conjI impI)
  let ?e = "evict_sync_root e sid"
  have sch: "eng_scheduler ?e = evict_sync_id (eng_scheduler e) sid"
    and up: "eng_uploads ?e = ul_evict_sync_id (eng_uploads e) sid"
    and down: "eng_downloads ?e = dl_evict_sync_id (eng_downloads e) sid"
    by (simp_all add: evict_sync_root_def)
  show "\<forall>p \<in> set (held_operations ?e). op_sync_id p \<noteq> sid"
    unfolding sch by (auto dest: sched_queue.evict_removes sched_dispatched.evict_removes)
  show "\<forall>t \<in> set (all_tasks ?e). task_owner t \<noteq> sid"
    unfolding up down dl_tasks.contents_evict ul_tasks.contents_evict by auto
  show "sid \<notin> paused_sync_roots ?e" by (simp add: evict_sync_root_def)
  have "0 < count_list xs sid" if "sid \<in> set xs" for xs
    using that by (metis count_list_0_iff neq0_conv)
  then show "count_list (pending_watcher_evictions ?e) sid
      = max 1 (count_list (pending_watcher_evictions e) sid)"
    by (auto simp: evict_sync_root_def count_list_0_iff max_def Suc_le_eq)
  assume "other \<noteq> sid"
  then show "filter (\<lambda>p. op_sync_id p = other) (held_operations ?e)
        = filter (\<lambda>p. op_sync_id p = other) (held_operations e)"
    unfolding sch filter_append
    by (simp add: sched_queue.evict_keeps_others sched_dispatched.evict_keeps_others)
  show "filter (\<lambda>t. task_owner t = other) (all_tasks ?e) = filter (\<lambda>t. task_owner t = other) (all_tasks e)"
    unfolding up down filter_append [of _ "dl_active _ @ _ @ _"]
      dl_tasks.evict_keeps_others [OF \<open>other \<noteq> sid\<close>] ul_tasks.evict_keeps_others [OF \<open>other \<noteq> sid\<close>] ..
qed

theorem evict_sync_root_isolates_witness:
  "filter (\<lambda>p. op_sync_id p = SyncId 1) (held_operations (evict_sync_root one_upload (SyncId 2)))
     = [UploadFile (SyncId 1) ''a'' None ''a'']"
proof -
  have "filter (\<lambda>p. op_sync_id p = SyncId 1) (held_operations (evict_sync_root one_upload (SyncId 2)))
      = filter (\<lambda>p. op_sync_id p = SyncId 1) (held_operations one_upload)"
    using evict_sync_root_isolates [of one_upload "SyncId 2" "SyncId 1"] by simp
  also have "held_operations one_upload = [UploadFile (SyncId 1) ''a'' None ''a'']"
    by (simp add: one_upload_def restore_scheduler_queue_def replace_queue_def)
  finally show ?thesis by simp
qed

text \<open>Resolving a conflict by path succeeds exactly when a conflict with
  that path is queued, resolves the first such conflict under the requested
  policy and removes that one operation and nothing else; otherwise the engine
  is unchanged and an error is returned.\<close>

theorem resolve_conflict_by_path_spec:
  "case resolve_conflict_by_path e path policy of
     (e', Inr r) \<Rightarrow> \<exists>pre sid kind post.
         queued_operations (eng_scheduler e) = pre @ Conflict sid path kind # post \<and>
         (\<forall>p \<in> set pre. \<not> (is_conflict p \<and> op_path p = path)) \<and>
         e' = e\<lparr>eng_scheduler := (eng_scheduler e)\<lparr>queued_operations := pre @ post\<rparr>\<rparr> \<and>
         resolve \<lparr>default_policy = policy_of_string policy\<rparr> (Conflict sid path kind) None None = Some r
   | (e', Inl _) \<Rightarrow> e' = e \<and>
         (\<forall>p \<in> set (queued_operations (eng_scheduler e)). \<not> (is_conflict p \<and> op_path p = path))"
proof (cases "position (\<lambda>p. is_conflict p \<and> op_path p = path) (queued_operations (eng_scheduler e))")
  case None
  then have "\<forall>p \<in> set (queued_operations (eng_scheduler e)). \<not> (is_conflict p \<and> op_path p = path)"
    unfolding position_None .
  moreover have "resolve_conflict_by_path e path policy = (e, Err (''no queued conflict at path: '' @ path))"
    unfolding resolve_conflict_by_path_def Let_def None by simp
  ultimately show ?thesis by simp
next
  case (Some i)
  let ?q = "queued_operations (eng_scheduler e)"
  from position_Some(2) [OF Some] obtain sid kind where c: "?q ! i = Conflict sid path kind"
    by (cases "?q ! i") auto
  obtain r where r: "resolve \<lparr>default_policy = policy_of_string policy\<rparr> (Conflict sid path kind) None None = Some r"
    by (simp add: resolve_by_winner)
  have "?q = take i ?q @ Conflict sid path kind # drop (Suc i) ?q"
    using position_split [OF Some] c by simp
  moreover have "\<forall>p \<in> set (take i ?q). \<not> (is_conflict p \<and> op_path p = path)"
    using position_Some(1) [OF Some] position_Some(3) [OF Some]
    by (fastforce simp: in_set_conv_nth)
  ultimately show ?thesis
    using Some c r by (auto simp: resolve_conflict_by_path_def Let_def remove_at_def)
qed

theorem resolve_conflict_by_path_spec_witness:
  "fst (resolve_conflict_by_path engine_new ''a'' ''prefer_local'') = engine_new"
  using resolve_conflict_by_path_spec [of engine_new "''a''" "''prefer_local''"]
  by (auto simp: engine_new_def scheduler_default_def split: prod.splits sum.splits)

section \<open>Where the code falls short of its documentation\<close>

abbreviation with_queue :: "planned_operation list \<Rightarrow> engine_shell" where
  "with_queue ops \<equiv> engine_new\<lparr>eng_scheduler := scheduler_default\<lparr>queued_operations := ops\<rparr>\<rparr>"

text \<open>An unrecognised policy string is not a no-op: the conflict is reported
  for manual review and at the same time removed from the queue, so it is no
  longer listed as unresolved.\<close>

theorem manual_review_drops_conflict:
  "list_unresolved_conflicts (with_queue [Conflict (SyncId 1) ''a'' TypeMismatch])
     = [(''a'', ''TypeMismatch'', 1)] \<and>
   (let (e', r) = resolve_conflict_by_path (with_queue [Conflict (SyncId 1) ''a'' TypeMismatch]) ''a'' ''manual''
    in list_unresolved_conflicts e' = [] \<and>
       r = Ok (ManualReview ''a'' TypeMismatch ''manual review required by conflict policy''))"
  by (simp add: list_unresolved_conflicts_def resolve_conflict_by_path_def policy_of_string_def
      resolve_def List.map_filter_simps Let_def)

text \<open>A transfer cycle takes queued conflicts out of the queue although no
  coordinator handles them: afterwards the conflict is neither listed nor
  resolvable by path, and remains only in the dispatched slot.\<close>

theorem advance_hides_conflicts:
  "let e' = fst (advance_transfer_cycle (with_queue [Conflict (SyncId 1) ''a'' TypeMismatch])) in
     list_unresolved_conflicts e' = [] \<and> all_tasks e' = [] \<and>
     snd (resolve_conflict_by_path e' ''a'' ''prefer_local'') = Err (''no queued conflict at path: '' @ ''a'') \<and>
     dispatched_operations (eng_scheduler e') = [Conflict (SyncId 1) ''a'' TypeMismatch]"
  by (simp add: advance_transfer_cycle_def next_batch_eq scheduler_default_def per_root_cap_def
      global_limit_def div_ceil_def Let_def ul_accept_batch_def dl_accept_batch_def engine_new_def
      upload_default_def download_default_def list_unresolved_conflicts_def List.map_filter_simps
      resolve_conflict_by_path_def)

text \<open>A local scan discards the remote side of a root's plan.  When the scan
  of a root is ingested after a remote diff of the same root, no download-side
  operation of that root is left in the queue.\<close>

theorem local_scan_discards_remote_plan:
  assumes "planner_overflow e = []" and "entries \<noteq> []"
    and "\<And>x. x \<in> set entries \<Longrightarrow> lse_sync_id x = sid"
    and "ingest_local_scan_with_delete_policy e entries pol = Ok e'"
    and "p \<in> set (queued_operations (eng_scheduler e'))" and "op_sync_id p = sid"
  shows "writes_remote p"
proof -
  from assms(4) obtain cs where cs: "normalize_entries (eng_local_scanner e) entries = Ok cs"
    and e': "e' = ingest_candidates_filtered e cs pol"
    by (auto simp: ingest_local_scan_with_delete_policy_def split: sum.splits)
  have map: "cs = map scan_candidate entries" by (rule normalize_entries_Ok [OF cs])
  have all: "cand_sync_id c = sid \<and> cand_source c = Local" if "c \<in> set cs" for c
    using that assms(3) by (auto simp: map scan_candidate_def)
  have "cs \<noteq> []" by (simp add: map assms(2))
  then obtain c ds where cds: "cs = c # ds" by (cases cs) auto
  have "cand_sync_id d = sid" if "d \<in> set (c # ds)" for d
    using all [of d] that by (simp only: cds)
  then have "single_sync_id cs = Some sid"
    unfolding cds by (simp add: list_all_iff)
  then have "p \<in> set (fst (plan_filtered_with_overflow (eng_planner e) cs pol))"
    using assms(5,6) unfolding e' ingest_candidates_filtered_def merge_with_overflow_eq assms(1)
      install_plan_def case_prod_unfold replace_queue_for_sync_id_def Let_def
    by simp
  then have plan: "p \<in> set (plan (eng_planner e) cs)" using plan_filtered_sub(1) by blast
  have none: "last_change Remote (op_path p) cs = None"
    using all by (auto simp: last_change_None_iff)
  from plan obtain c where "c \<in> set cs" "cand_path c = op_path p" using plan_ops_from by blast
  with all have some: "last_change Local (op_path p) cs \<noteq> None"
    by (auto simp: last_change_None_iff)
  have "\<not> is_conflict p" using planned_sides(3) [OF plan] none by blast
  moreover have "\<not> writes_local p" using planned_sides(2) [OF plan] none some by auto
  ultimately show ?thesis using op_side_cases by blast
qed

abbreviation scan_a :: "local_scan_entry list" where
  "scan_a \<equiv> [\<lparr>lse_sync_id = SyncId 1, lse_path = ''a'', lse_entry_kind = File, lse_deleted = False,
     lse_remote_parent_folder_id = None\<rparr>]"

lemma plan_single_candidate:
  assumes "0 < max_operations_per_tick pl"
  shows "plan_with_overflow pl [c] = ([plan_single c], [])"
  using assms
  by (cases "cand_source c") (simp_all add: plan_with_overflow_def)

lemma scan_after_diff:
  "ingest_local_scan_with_delete_policy (with_queue [DownloadFile (SyncId 1) ''b'' None]) scan_a
     delete_policy_default
   = Ok (with_queue [UploadFile (SyncId 1) ''a'' None ''a''])"
  by (simp add: ingest_local_scan_with_delete_policy_def normalize_entries_def scan_normalize_entry_def
      valid_a ingest_candidates_filtered_def merge_with_overflow_eq Let_def install_plan_def engine_new_def
      plan_filtered_with_overflow_def plan_single_candidate planner_default_def plan_single_def
      basename_def rsplit_first_def replace_queue_for_sync_id_def cap_overflow_def)

theorem local_scan_discards_remote_plan_witness:
  "ingest_local_scan_with_delete_policy (with_queue [DownloadFile (SyncId 1) ''b'' None]) scan_a
     delete_policy_default
   = Ok (with_queue [UploadFile (SyncId 1) ''a'' None ''a'']) \<and>
   writes_remote (UploadFile (SyncId 1) ''a'' None ''a'')"
proof
  show "writes_remote (UploadFile (SyncId 1) ''a'' None ''a'')"
    by (rule local_scan_discards_remote_plan [OF _ _ _ scan_after_diff, of "SyncId 1"])
      (simp_all add: engine_new_def)
qed (rule scan_after_diff)

text \<open>Deferred candidates are not scoped to a root.  Ingesting the candidates
  of one root while another root's candidates are deferred replaces the whole
  queue, so the operations queued for a third root are dropped.\<close>

theorem mixed_overflow_clobbers_other_roots:
  "queued_operations (eng_scheduler (ingest_candidates
     ((with_queue [UploadFile (SyncId 3) ''z'' None ''z''])\<lparr>planner_overflow :=
        [(example_cand Local ''a'' Upsert)\<lparr>cand_sync_id := SyncId 1\<rparr>]\<rparr>)
     [(example_cand Local ''b'' Upsert)\<lparr>cand_sync_id := SyncId 2\<rparr>]))
   = [UploadFile (SyncId 1) ''a'' None ''a'', UploadFile (SyncId 2) ''b'' None ''b'']"
  by (simp add: ingest_candidates_def merge_with_overflow_eq Let_def install_plan_def engine_new_def
      plan_with_overflow_def planner_default_def plan_single_def basename_def rsplit_first_def
      replace_queue_def)

text \<open>Evicting or pausing a root does not touch its deferred candidates: the
  next ingestion, even an empty one, queues operations for the evicted root
  again.\<close>

theorem evicted_root_is_replanned:
  "let e = engine_new\<lparr>planner_overflow := [example_cand Local ''a'' Upsert]\<rparr>;
       e' = ingest_candidates (evict_sync_root e (SyncId 1)) []
   in queued_operations (eng_scheduler e') = [UploadFile (SyncId 1) ''a'' None ''a'']"
  by (simp add: Let_def ingest_candidates_def merge_with_overflow_eq install_plan_def engine_new_def
      evict_sync_root_def evict_sync_id_def plan_single_candidate planner_default_def plan_single_def
      basename_def rsplit_first_def replace_queue_for_sync_id_def scheduler_default_def)

end
