(* ===== verification/Supervision.thy ===== *)
theory Supervision
  imports Engine
begin

text \<open>
  The engine's watchdogs: the stall detector
  (\<open>pcloud-engine/src/stall_detector.rs\<close>) and the divergence sweeper
  (\<open>divergence_sweeper.rs\<close>).  Instants and durations are milliseconds of the
  monotonic clock; the operations that read the clock take the time as an
  argument.  A poisoned mutex is recovered by the source and has no effect on
  the state.
\<close>

section \<open>Stall detector\<close>

definition DEFAULT_STALL_TIMEOUT :: nat where
  "DEFAULT_STALL_TIMEOUT = 300 * 1000"

definition MIN_STALL_TIMEOUT :: nat where
  "MIN_STALL_TIMEOUT = 1000"

record byte_progress =
  total_bytes :: u64
  bp_last_progress :: nat

record stall_detector =
  stall_timeout :: nat
  last_progress :: nat
  byte_progress_map :: "string \<rightharpoonup> byte_progress"

definition stall_detector_new :: "nat \<Rightarrow> nat \<Rightarrow> stall_detector" where
  "stall_detector_new now timeout =
     \<lparr>stall_timeout = max timeout MIN_STALL_TIMEOUT, last_progress = now, byte_progress_map = Map.empty\<rparr>"

definition stall_detector_default :: "nat \<Rightarrow> stall_detector" where
  "stall_detector_default now = stall_detector_new now DEFAULT_STALL_TIMEOUT"

definition mark_progress :: "nat \<Rightarrow> stall_detector \<Rightarrow> stall_detector" where
  "mark_progress now self = self\<lparr>last_progress := now\<rparr>"

definition observe_bytes :: "nat \<Rightarrow> stall_detector \<Rightarrow> string \<Rightarrow> u64 \<Rightarrow> stall_detector" where
  "observe_bytes now self transfer_id bytes_delta =
     (let entry = (case byte_progress_map self transfer_id of
            Some bp \<Rightarrow> bp
          | None \<Rightarrow> \<lparr>total_bytes = 0, bp_last_progress = now\<rparr>)
      in self\<lparr>byte_progress_map := (byte_progress_map self)(transfer_id \<mapsto>
           \<lparr>total_bytes = saturating_add (total_bytes entry) bytes_delta, bp_last_progress = now\<rparr>)\<rparr>)"

definition forget_transfer :: "stall_detector \<Rightarrow> string \<Rightarrow> stall_detector" where
  "forget_transfer self transfer_id =
     self\<lparr>byte_progress_map := (byte_progress_map self)(transfer_id := None)\<rparr>"

definition check_stall :: "nat \<Rightarrow> stall_detector \<Rightarrow> bool" where
  "check_stall now self =
     (if now - last_progress self < stall_timeout self then False
      else if \<exists>bp \<in> ran (byte_progress_map self). now - bp_last_progress bp < stall_timeout self
      then False
      else True)"

text \<open>\<open>Instant::now().checked_sub(..)\<close> fails when the result would lie before the
  origin of the clock.\<close>

definition new_with_elapsed :: "nat \<Rightarrow> nat \<Rightarrow> nat \<Rightarrow> stall_detector" where
  "new_with_elapsed now timeout already_elapsed =
     (let t = max timeout MIN_STALL_TIMEOUT;
          budget_consumed = min already_elapsed (t - 1)
      in \<lparr>stall_timeout = t,
          last_progress = (if budget_consumed \<le> now then now - budget_consumed else now),
          byte_progress_map = Map.empty\<rparr>)"

definition elapsed_since_progress :: "nat \<Rightarrow> stall_detector \<Rightarrow> nat" where
  "elapsed_since_progress now self = now - last_progress self"

section \<open>Divergence sweeper\<close>

definition DEFAULT_PERIOD_SECS :: u64 where
  "DEFAULT_PERIOD_SECS = 24 * 60 * 60"

definition MAX_QUARANTINE_ENTRIES :: nat where
  "MAX_QUARANTINE_ENTRIES = 1024"

definition MIN_PERIOD_SECS :: u64 where
  "MIN_PERIOD_SECS = 60"

definition MAX_PERIOD_SECS :: u64 where
  "MAX_PERIOD_SECS = 7 * 24 * 60 * 60"

record divergence_sweeper_config =
  sweep_enabled :: bool
  period_secs :: u64

definition divergence_sweeper_config_default :: divergence_sweeper_config where
  "divergence_sweeper_config_default = \<lparr>sweep_enabled = False, period_secs = DEFAULT_PERIOD_SECS\<rparr>"

definition sweeper_validate :: "divergence_sweeper_config \<Rightarrow> (string, unit) result" where
  "sweeper_validate self =
     (if period_secs self < MIN_PERIOD_SECS \<or> period_secs self > MAX_PERIOD_SECS
      then Err ''sync.divergence_sweeper.period_secs must be between 60 and 604800''
      else Ok ())"

datatype divergence_kind = OrphanPausedRoot | OrphanOverflow | SchedulerOverlap

record quarantine_entry =
  qe_sync_id :: "u64 option"
  qe_kind :: divergence_kind
  qe_detail :: string
  recorded_at_tick :: u64

record divergence_sweeper =
  sweep_config :: divergence_sweeper_config
  last_run :: "nat option"
  tick_count :: u64
  evicted :: u64
  quarantine :: "quarantine_entry list"

record engine_snapshot =
  paused_roots :: "sync_id list"
  overflow_sync_ids :: "sync_id list"
  scheduler_sync_ids :: "sync_id list"
  active_roots :: "sync_id list"

definition sweeper_new :: "divergence_sweeper_config \<Rightarrow> divergence_sweeper" where
  "sweeper_new config =
     \<lparr>sweep_config = config, last_run = None, tick_count = 0, evicted = 0, quarantine = []\<rparr>"

definition quarantine_push :: "divergence_sweeper \<Rightarrow> quarantine_entry \<Rightarrow> divergence_sweeper" where
  "quarantine_push self entry =
     (let self' = (if length (quarantine self) \<ge> MAX_QUARANTINE_ENTRIES
            then self\<lparr>quarantine := tl (quarantine self), evicted := saturating_add (evicted self) 1\<rparr>
            else self)
      in self'\<lparr>quarantine := quarantine self' @ [entry]\<rparr>)"

definition orphan_paused_entry :: "u64 \<Rightarrow> sync_id \<Rightarrow> quarantine_entry" where
  "orphan_paused_entry tick sid =
     \<lparr>qe_sync_id = Some (sync_id_get sid), qe_kind = OrphanPausedRoot,
      qe_detail = ''paused sync_id '' @ show_nat (unat (sync_id_get sid)) @ '' not present in active root list'',
      recorded_at_tick = tick\<rparr>"

definition orphan_overflow_entry :: "u64 \<Rightarrow> sync_id \<Rightarrow> quarantine_entry" where
  "orphan_overflow_entry tick sid =
     \<lparr>qe_sync_id = Some (sync_id_get sid), qe_kind = OrphanOverflow,
      qe_detail = ''planner overflow contains entries for inactive sync_id ''
        @ show_nat (unat (sync_id_get sid)),
      recorded_at_tick = tick\<rparr>"

definition scheduler_overlap_entry :: "u64 \<Rightarrow> sync_id \<Rightarrow> quarantine_entry" where
  "scheduler_overlap_entry tick sid =
     \<lparr>qe_sync_id = Some (sync_id_get sid), qe_kind = SchedulerOverlap,
      qe_detail = ''scheduler retains queued ops for paused sync_id '' @ show_nat (unat (sync_id_get sid)),
      recorded_at_tick = tick\<rparr>"

fun sweep_loop ::
  "(sync_id \<Rightarrow> bool) \<Rightarrow> (u64 \<Rightarrow> sync_id \<Rightarrow> quarantine_entry) \<Rightarrow> divergence_sweeper \<Rightarrow> sync_id list \<Rightarrow>
     divergence_sweeper" where
  "sweep_loop diverges entry self [] = self"
| "sweep_loop diverges entry self (sid # sids) =
     sweep_loop diverges entry
       (if diverges sid then quarantine_push self (entry (tick_count self) sid) else self) sids"

definition run_tick :: "nat \<Rightarrow> divergence_sweeper \<Rightarrow> engine_snapshot \<Rightarrow> divergence_sweeper" where
  "run_tick now self snapshot =
     (let self = self\<lparr>last_run := Some now, tick_count := saturating_add (tick_count self) 1\<rparr>;
          self = sweep_loop (\<lambda>sid. sid \<notin> set (active_roots snapshot)) orphan_paused_entry self
            (paused_roots snapshot);
          self = sweep_loop (\<lambda>sid. sid \<notin> set (active_roots snapshot)) orphan_overflow_entry self
            (overflow_sync_ids snapshot)
      in sweep_loop (\<lambda>sid. sid \<in> set (paused_roots snapshot)) scheduler_overlap_entry self
           (scheduler_sync_ids snapshot))"

definition tick_if_due ::
  "nat \<Rightarrow> divergence_sweeper \<Rightarrow> engine_snapshot \<Rightarrow> divergence_sweeper \<times> bool" where
  "tick_if_due now self snapshot =
     (if \<not> sweep_enabled (sweep_config self) then (self, False)
      else
        let due = (case last_run self of
              None \<Rightarrow> True
            | Some t \<Rightarrow> now - t \<ge> unat (period_secs (sweep_config self)) * 1000)
        in if \<not> due then (self, False) else (run_tick now self snapshot, True))"

definition run_now :: "nat \<Rightarrow> divergence_sweeper \<Rightarrow> engine_snapshot \<Rightarrow> divergence_sweeper" where
  "run_now now self snapshot = run_tick now self snapshot"

definition drain_quarantine :: "divergence_sweeper \<Rightarrow> divergence_sweeper \<times> quarantine_entry list" where
  "drain_quarantine self = (self\<lparr>quarantine := []\<rparr>, quarantine self)"

record divergence_sweeper_status =
  st_enabled :: bool
  st_ticks_completed :: u64
  st_quarantine_len :: nat
  st_evicted :: u64
  st_has_pending :: bool

definition sweeper_status :: "divergence_sweeper \<Rightarrow> divergence_sweeper_status" where
  "sweeper_status self =
     \<lparr>st_enabled = sweep_enabled (sweep_config self), st_ticks_completed = tick_count self,
      st_quarantine_len = length (quarantine self), st_evicted = evicted self,
      st_has_pending = (quarantine self \<noteq> [])\<rparr>"

section \<open>Stalls\<close>

datatype progress_event = Mark nat | Observe nat string u64 | Forget nat string

fun event_time :: "progress_event \<Rightarrow> nat" where
  "event_time (Mark t) = t"
| "event_time (Observe t _ _) = t"
| "event_time (Forget t _) = t"

fun feed :: "stall_detector \<Rightarrow> progress_event \<Rightarrow> stall_detector" where
  "feed d (Mark t) = mark_progress t d"
| "feed d (Observe t i n) = observe_bytes t d i n"
| "feed d (Forget t i) = forget_transfer d i"

lemma feed_timeout: "stall_timeout (foldl feed d evs) = stall_timeout d"
proof (induction evs arbitrary: d)
  case (Cons ev evs)
  then show ?case
    by (cases ev) (simp_all add: mark_progress_def observe_bytes_def forget_transfer_def Let_def)
qed simp

lemma feed_keeps_recent:
  assumes "byte_progress_map d i = Some bp" and "t \<le> bp_last_progress bp"
    and "\<And>u. Forget u i \<notin> set evs" and "\<And>ev. ev \<in> set evs \<Longrightarrow> t \<le> event_time ev"
  shows "\<exists>bp'. byte_progress_map (foldl feed d evs) i = Some bp' \<and> t \<le> bp_last_progress bp'"
  using assms
proof (induction evs arbitrary: d bp)
  case (Cons ev evs)
  have t: "t \<le> event_time ev" using Cons.prems(4) by simp
  have "\<exists>bp'. byte_progress_map (feed d ev) i = Some bp' \<and> t \<le> bp_last_progress bp'"
    using Cons.prems(1-3) t
    by (cases ev) (auto simp: mark_progress_def observe_bytes_def forget_transfer_def Let_def)
  then obtain bp' where bp': "byte_progress_map (feed d ev) i = Some bp'" "t \<le> bp_last_progress bp'" by blast
  show ?case
    using Cons.IH [OF bp'] Cons.prems(3,4) by simp
qed auto

lemma check_stall_iff:
  "check_stall now d \<longleftrightarrow> stall_timeout d \<le> now - last_progress d \<and>
     (\<forall>i bp. byte_progress_map d i = Some bp \<longrightarrow> stall_timeout d \<le> now - bp_last_progress bp)"
  unfolding check_stall_def ran_def by (auto, force simp: not_le)

text \<open>A transfer that is moving bytes is never reported as a stall.  If bytes
  of a transfer were observed less than the timeout ago and the transfer has
  not been retired since, the detector reports no stall, whatever else was or
  was not recorded.\<close>

theorem active_transfer_is_no_stall:
  fixes start timeout :: nat
  assumes "sorted (map event_time (Observe t i n # post))" and "\<And>u. Forget u i \<notin> set post"
    and "now < t + max timeout MIN_STALL_TIMEOUT"
  shows "\<not> check_stall now (foldl feed (stall_detector_new start timeout) (pre @ Observe t i n # post))"
proof -
  let ?d = "foldl feed (stall_detector_new start timeout) pre"
  let ?e = "foldl feed (observe_bytes t ?d i n) post"
  have "\<exists>bp. byte_progress_map (observe_bytes t ?d i n) i = Some bp \<and> t \<le> bp_last_progress bp"
    by (simp add: observe_bytes_def Let_def)
  then obtain bp where "byte_progress_map (observe_bytes t ?d i n) i = Some bp" "t \<le> bp_last_progress bp"
    by blast
  then have "\<exists>bp. byte_progress_map ?e i = Some bp \<and> t \<le> bp_last_progress bp"
    by (rule feed_keeps_recent) (use assms(1,2) in auto)
  then obtain bp where bp: "byte_progress_map ?e i = Some bp" "t \<le> bp_last_progress bp" by blast
  have "stall_timeout ?e = stall_timeout ?d" by (simp add: feed_timeout observe_bytes_def Let_def)
  then have "stall_timeout ?e = max timeout MIN_STALL_TIMEOUT"
    by (simp add: feed_timeout stall_detector_new_def)
  with bp(2) assms(3) have "\<not> stall_timeout ?e \<le> now - bp_last_progress bp"
    by (simp add: MIN_STALL_TIMEOUT_def max_def split: if_splits)
  with bp(1) show ?thesis unfolding check_stall_iff by auto
qed

theorem active_transfer_is_no_stall_witness:
  "\<not> check_stall 7500 (foldl feed (stall_detector_new 0 1000) [Mark 10, Observe 7000 ''a'' 4096])"
  using active_transfer_is_no_stall [of 7000 "''a''" 4096 "[]" 7500 1000 0 "[Mark 10]"]
  by (simp add: MIN_STALL_TIMEOUT_def)

lemma restored_detector_no_stall: "\<not> check_stall now (new_with_elapsed now timeout elapsed)"
  by (auto simp: check_stall_iff new_with_elapsed_def Let_def MIN_STALL_TIMEOUT_def max_def split: if_splits)

section \<open>The quarantine ring\<close>

text \<open>The last \<open>MAX_QUARANTINE_ENTRIES\<close> entries of a list.\<close>

definition ring :: "quarantine_entry list \<Rightarrow> quarantine_entry list" where
  "ring es = drop (length es - MAX_QUARANTINE_ENTRIES) es"

lemma length_ring: "length (ring es) = min (length es) MAX_QUARANTINE_ENTRIES"
  by (simp add: ring_def min_def)

lemma ring_id: "length es \<le> MAX_QUARANTINE_ENTRIES \<Longrightarrow> ring es = es"
  by (simp add: ring_def)

lemma ring_snoc: "ring (ring es @ fs) = ring (es @ fs)"
  by (cases "length es \<le> MAX_QUARANTINE_ENTRIES") (auto simp: ring_def add.commute)

lemma push_quarantine:
  assumes "length (quarantine s) \<le> MAX_QUARANTINE_ENTRIES"
  shows "quarantine (quarantine_push s x) = ring (quarantine s @ [x])"
proof (cases "length (quarantine s) = MAX_QUARANTINE_ENTRIES")
  case True
  then have "quarantine s \<noteq> []" by (auto simp: MAX_QUARANTINE_ENTRIES_def)
  with True show ?thesis by (simp add: quarantine_push_def ring_def Let_def drop_Suc MAX_QUARANTINE_ENTRIES_def)
next
  case False
  with assms show ?thesis by (simp add: quarantine_push_def ring_def Let_def)
qed

lemma push_frame [simp]:
  "tick_count (quarantine_push s x) = tick_count s"
  "sweep_config (quarantine_push s x) = sweep_config s"
  "last_run (quarantine_push s x) = last_run s"
  by (simp_all add: quarantine_push_def Let_def)

lemma sweep_loop_frame [simp]:
  "tick_count (sweep_loop P f s sids) = tick_count s"
  "sweep_config (sweep_loop P f s sids) = sweep_config s"
  by (induction sids arbitrary: s) simp_all

lemma sweep_loop_quarantine:
  assumes "length (quarantine s) \<le> MAX_QUARANTINE_ENTRIES"
  shows "quarantine (sweep_loop P f s sids) = ring (quarantine s @ map (f (tick_count s)) (filter P sids))"
  using assms
proof (induction sids arbitrary: s)
  case Nil
  then show ?case by (simp add: ring_id)
next
  case (Cons sid sids)
  show ?case
  proof (cases "P sid")
    case True
    let ?s = "quarantine_push s (f (tick_count s) sid)"
    have "length (quarantine ?s) \<le> MAX_QUARANTINE_ENTRIES"
      by (simp add: push_quarantine [OF Cons.prems] length_ring)
    from Cons.IH [OF this] True show ?thesis
      by (simp add: push_quarantine [OF Cons.prems] ring_snoc)
  qed (use Cons in simp)
qed

definition divergences :: "u64 \<Rightarrow> engine_snapshot \<Rightarrow> quarantine_entry list" where
  "divergences tick sn =
     map (orphan_paused_entry tick) (filter (\<lambda>sid. sid \<notin> set (active_roots sn)) (paused_roots sn)) @
     map (orphan_overflow_entry tick) (filter (\<lambda>sid. sid \<notin> set (active_roots sn)) (overflow_sync_ids sn)) @
     map (scheduler_overlap_entry tick) (filter (\<lambda>sid. sid \<in> set (paused_roots sn)) (scheduler_sync_ids sn))"

lemma run_tick_quarantine:
  assumes "length (quarantine s) \<le> MAX_QUARANTINE_ENTRIES"
  shows "quarantine (run_tick now s sn)
    = ring (quarantine s @ divergences (saturating_add (tick_count s) 1) sn)"
proof -
  let ?t = "saturating_add (tick_count s) 1"
  let ?s1 = "s\<lparr>last_run := Some now, tick_count := ?t\<rparr>"
  let ?s2 = "sweep_loop (\<lambda>sid. sid \<notin> set (active_roots sn)) orphan_paused_entry ?s1 (paused_roots sn)"
  let ?s3 = "sweep_loop (\<lambda>sid. sid \<notin> set (active_roots sn)) orphan_overflow_entry ?s2 (overflow_sync_ids sn)"
  have q2: "quarantine ?s2 = ring (quarantine s @
      map (orphan_paused_entry ?t) (filter (\<lambda>sid. sid \<notin> set (active_roots sn)) (paused_roots sn)))"
    using assms by (simp add: sweep_loop_quarantine)
  then have "length (quarantine ?s2) \<le> MAX_QUARANTINE_ENTRIES" by (simp add: length_ring)
  from sweep_loop_quarantine [OF this] have q3: "quarantine ?s3 = ring (quarantine ?s2 @
      map (orphan_overflow_entry ?t) (filter (\<lambda>sid. sid \<notin> set (active_roots sn)) (overflow_sync_ids sn)))"
    by simp
  then have "length (quarantine ?s3) \<le> MAX_QUARANTINE_ENTRIES" by (simp add: length_ring)
  from sweep_loop_quarantine [OF this] q2 q3 show ?thesis
    by (simp add: run_tick_def Let_def divergences_def ring_snoc)
qed

text \<open>The snapshot the runtime takes of the engine.\<close>

definition snapshot_of :: "engine_shell \<Rightarrow> sync_id list \<Rightarrow> engine_snapshot" where
  "snapshot_of e active =
     \<lparr>paused_roots = paused_sync_root_ids e, overflow_sync_ids = overflow_sync_root_ids e,
      scheduler_sync_ids = scheduler_sync_root_ids e, active_roots = active\<rparr>"

lemma set_root_ids:
  "set (overflow_sync_root_ids e) = cand_sync_id ` set (planner_overflow e)"
  "set (scheduler_sync_root_ids e) = op_sync_id ` set (queued_operations (eng_scheduler e))"
  "finite (paused_sync_roots e) \<Longrightarrow> set (paused_sync_root_ids e) = paused_sync_roots e"
  by (simp_all add: overflow_sync_root_ids_def scheduler_sync_root_ids_def paused_sync_root_ids_def
      set_dedup_by)

text \<open>A sweep of the engine reports every divergence there is and nothing
  else, and never keeps more than \<open>MAX_QUARANTINE_ENTRIES\<close> reports: if the ring
  has room, the new entries are exactly the paused roots and the roots with
  deferred candidates that are not active, and the paused roots that still
  have queued operations.\<close>

theorem sweep_reports_divergences:
  fixes now :: nat and s :: divergence_sweeper and e :: engine_shell and active :: "sync_id list"
  assumes "length (quarantine s) \<le> MAX_QUARANTINE_ENTRIES" and "finite (paused_sync_roots e)"
  defines "t \<equiv> saturating_add (tick_count s) 1"
    and "q \<equiv> quarantine (run_now now s (snapshot_of e active))"
    and "new \<equiv> divergences (saturating_add (tick_count s) 1) (snapshot_of e active)"
  shows "length q \<le> MAX_QUARANTINE_ENTRIES
    \<and> set new = orphan_paused_entry t ` (paused_sync_roots e - set active)
        \<union> orphan_overflow_entry t ` (cand_sync_id ` set (planner_overflow e) - set active)
        \<union> scheduler_overlap_entry t ` (op_sync_id ` set (queued_operations (eng_scheduler e)) \<inter> paused_sync_roots e)
    \<and> (length (quarantine s @ new) \<le> MAX_QUARANTINE_ENTRIES \<longrightarrow> q = quarantine s @ new)"
proof (intro conjI impI)
  have q: "q = ring (quarantine s @ new)"
    unfolding q_def new_def run_now_def by (rule run_tick_quarantine [OF assms(1)])
  show "length q \<le> MAX_QUARANTINE_ENTRIES" by (simp add: q length_ring)
  show "q = quarantine s @ new" if "length (quarantine s @ new) \<le> MAX_QUARANTINE_ENTRIES"
    using that by (simp add: q ring_id)
  have "{x \<in> A. x \<notin> B} = A - B" "{x \<in> A. x \<in> B} = A \<inter> B" for A B :: "sync_id set" by auto
  then show "set new = orphan_paused_entry t ` (paused_sync_roots e - set active)
        \<union> orphan_overflow_entry t ` (cand_sync_id ` set (planner_overflow e) - set active)
        \<union> scheduler_overlap_entry t ` (op_sync_id ` set (queued_operations (eng_scheduler e)) \<inter> paused_sync_roots e)"
    unfolding new_def divergences_def t_def snapshot_of_def
    by (simp add: set_root_ids assms(2) Un_assoc)
qed

theorem sweep_reports_divergences_witness:
  "length (quarantine (run_now 5 (sweeper_new divergence_sweeper_config_default)
     (snapshot_of (engine_new\<lparr>planner_overflow := [example_cand Local ''a'' Upsert]\<rparr>) []))) \<le> MAX_QUARANTINE_ENTRIES"
  using sweep_reports_divergences [of "sweeper_new divergence_sweeper_config_default"
      "engine_new\<lparr>planner_overflow := [example_cand Local ''a'' Upsert]\<rparr>" 5 "[]"]
  by (simp add: sweeper_new_def engine_new_def)

end
