(* ===== verification/Diff_Events.thy ===== *)
theory Diff_Events
  imports Ingest
begin

text \<open>
  Classification and dispatch of server events,
  \<open>pcloud-engine/src/diff_events.rs\<close>.  The trait \<open>DiffEventDispatcher\<close> is a record
  of five handlers on a dispatcher state; \<open>dispatch_diff_batch\<close> threads the
  state through the handlers in entry order.
\<close>

datatype diff_event_kind =
    CreateFolder | ModifyFolder | DeleteFolder | CreateFile | ModifyFile | DeleteFile
  | ModifyUserInfo
  | ShareRequestIn | ShareRequestOut | ShareAcceptedIn | ShareAcceptedOut
  | ShareDeclinedIn | ShareDeclinedOut | ShareCancelledIn | ShareCancelledOut
  | ShareRemovedIn | ShareRemovedOut | ShareModifiedIn | ShareModifiedOut
  | BusinessShareEstablishedIn | BusinessShareEstablishedOut
  | BusinessShareModifiedIn | BusinessShareModifiedOut
  | BusinessShareRemovedIn | BusinessShareRemovedOut
  | CryptoPassChange | ModifyAccountInfo | UnknownEvent u64

definition known_events :: "(u64 \<times> diff_event_kind) list" where
  "known_events =
     [(1, CreateFolder), (2, ModifyFolder), (3, DeleteFolder), (4, CreateFile), (5, ModifyFile),
      (6, DeleteFile), (7, ModifyUserInfo), (8, ShareRequestIn), (9, ShareRequestOut),
      (10, ShareAcceptedIn), (11, ShareAcceptedOut), (12, ShareDeclinedIn), (13, ShareDeclinedOut),
      (14, ShareCancelledIn), (15, ShareCancelledOut), (16, ShareRemovedIn), (17, ShareRemovedOut),
      (18, ShareModifiedIn), (19, ShareModifiedOut), (20, BusinessShareEstablishedIn),
      (21, BusinessShareEstablishedOut), (22, BusinessShareModifiedIn),
      (23, BusinessShareModifiedOut), (24, BusinessShareRemovedIn), (25, BusinessShareRemovedOut),
      (26, CryptoPassChange), (27, ModifyAccountInfo)]"

definition from_event_id :: "u64 option \<Rightarrow> diff_event_kind option" where
  "from_event_id tag =
     (case tag of
        None \<Rightarrow> None
      | Some t \<Rightarrow> Some (case map_of known_events t of Some k \<Rightarrow> k | None \<Rightarrow> UnknownEvent t))"

datatype diff_event_family = FilesystemCrud | Share | Crypto | Account | UnknownFamily

fun family :: "diff_event_kind \<Rightarrow> diff_event_family" where
  "family CreateFolder = FilesystemCrud"
| "family ModifyFolder = FilesystemCrud"
| "family DeleteFolder = FilesystemCrud"
| "family CreateFile = FilesystemCrud"
| "family ModifyFile = FilesystemCrud"
| "family DeleteFile = FilesystemCrud"
| "family CryptoPassChange = Crypto"
| "family ModifyUserInfo = Account"
| "family ModifyAccountInfo = Account"
| "family (UnknownEvent _) = UnknownFamily"
| "family _ = Share"

record classified_diff_event =
  cde_sync_id :: sync_id
  cde_kind :: diff_event_kind
  cde_entry :: remote_diff_entry

record 'd dispatcher =
  handle_filesystem :: "classified_diff_event \<Rightarrow> 'd \<Rightarrow> 'd"
  handle_share :: "classified_diff_event \<Rightarrow> 'd \<Rightarrow> 'd"
  handle_crypto :: "classified_diff_event \<Rightarrow> 'd \<Rightarrow> 'd"
  handle_account :: "classified_diff_event \<Rightarrow> 'd \<Rightarrow> 'd"
  handle_unknown :: "classified_diff_event \<Rightarrow> 'd \<Rightarrow> 'd"

definition dispatch_event :: "'d dispatcher \<Rightarrow> classified_diff_event \<Rightarrow> 'd \<Rightarrow> 'd" where
  "dispatch_event h ev =
     (case family (cde_kind ev) of
        FilesystemCrud \<Rightarrow> handle_filesystem h ev
      | Share \<Rightarrow> handle_share h ev
      | Crypto \<Rightarrow> handle_crypto h ev
      | Account \<Rightarrow> handle_account h ev
      | UnknownFamily \<Rightarrow> handle_unknown h ev)"

text \<open>The loop over \<open>entries.iter().zip(event_tags.iter())\<close>.\<close>

fun dispatch_loop ::
  "sync_id \<Rightarrow> 'd dispatcher \<Rightarrow> (remote_diff_entry \<times> u64 option) list \<Rightarrow> nat \<Rightarrow> 'd \<Rightarrow> 'd \<times> nat" where
  "dispatch_loop sid h [] dispatched d = (d, dispatched)"
| "dispatch_loop sid h ((entry, tag) # rest) dispatched d =
     (case from_event_id tag of
        None \<Rightarrow> dispatch_loop sid h rest dispatched d
      | Some kind \<Rightarrow>
          dispatch_loop sid h rest (dispatched + 1)
            (dispatch_event h \<lparr>cde_sync_id = sid, cde_kind = kind, cde_entry = entry\<rparr> d))"

definition dispatch_diff_batch ::
  "sync_id \<Rightarrow> remote_diff_entry list \<Rightarrow> u64 option list \<Rightarrow> 'd dispatcher \<Rightarrow> 'd \<Rightarrow> 'd \<times> nat" where
  "dispatch_diff_batch sid entries event_tags h d = dispatch_loop sid h (zip entries event_tags) 0 d"

section \<open>Properties\<close>

text \<open>The tag of a classified event, inverse to the classification.\<close>

fun event_id :: "diff_event_kind \<Rightarrow> u64" where
  "event_id (UnknownEvent t) = t"
| "event_id k = the (map_of (map prod.swap known_events) k)"

lemma from_event_id_inverse:
  "from_event_id (Some t) = Some k \<Longrightarrow> event_id k = t"
  by (auto simp: from_event_id_def known_events_def split: option.splits if_splits)

definition classified :: "sync_id \<Rightarrow> remote_diff_entry list \<Rightarrow> u64 option list \<Rightarrow> classified_diff_event list" where
  "classified sid entries tags =
     concat (map (\<lambda>(entry, tag). case from_event_id tag of
         None \<Rightarrow> []
       | Some kind \<Rightarrow> [\<lparr>cde_sync_id = sid, cde_kind = kind, cde_entry = entry\<rparr>]) (zip entries tags))"

lemma dispatch_loop_eq:
  "dispatch_loop sid h ets n d =
     (let evs = concat (map (\<lambda>(entry, tag). case from_event_id tag of
         None \<Rightarrow> []
       | Some kind \<Rightarrow> [\<lparr>cde_sync_id = sid, cde_kind = kind, cde_entry = entry\<rparr>]) ets)
      in (fold (dispatch_event h) evs d, n + length evs))"
  by (induction sid h ets n d rule: dispatch_loop.induct) (auto simp: Let_def split: option.splits)

lemma from_event_id_None: "from_event_id tag = None \<longleftrightarrow> tag = None"
  by (simp add: from_event_id_def split: option.splits)

lemma length_classified:
  "length (classified sid entries tags) = length (filter (\<lambda>(e, t). t \<noteq> None) (zip entries tags))"
proof -
  have "length (concat (map (\<lambda>(entry, tag). case from_event_id tag of
         None \<Rightarrow> []
       | Some kind \<Rightarrow> [\<lparr>cde_sync_id = sid, cde_kind = kind, cde_entry = entry\<rparr>]) ets))
      = length (filter (\<lambda>(e, t). t \<noteq> None) ets)" for ets
    by (induction ets) (auto simp: from_event_id_None split: option.splits)
  then show ?thesis by (simp add: classified_def)
qed

text \<open>Every tagged entry of a diff batch is classified by its own tag and
  handed to exactly one handler, in entry order; unknown tags go to the
  unknown handler with the tag preserved; the returned count is the number of
  tagged entries.\<close>

theorem dispatch_diff_batch_spec:
  "dispatch_diff_batch sid entries tags h d =
     (fold (dispatch_event h) (classified sid entries tags) d,
      length (filter (\<lambda>(e, t). t \<noteq> None) (zip entries tags)))
   \<and> map (\<lambda>ev. (cde_entry ev, Some (event_id (cde_kind ev)))) (classified sid entries tags)
       = filter (\<lambda>(e, t). t \<noteq> None) (zip entries tags)"
proof
  show "dispatch_diff_batch sid entries tags h d =
     (fold (dispatch_event h) (classified sid entries tags) d,
      length (filter (\<lambda>(e, t). t \<noteq> None) (zip entries tags)))"
    unfolding length_classified [of sid, symmetric]
    by (simp add: dispatch_diff_batch_def dispatch_loop_eq classified_def Let_def)
  have "map (\<lambda>ev. (cde_entry ev, Some (event_id (cde_kind ev)))) (concat (map (\<lambda>(entry, tag).
         case from_event_id tag of None \<Rightarrow> []
       | Some kind \<Rightarrow> [\<lparr>cde_sync_id = sid, cde_kind = kind, cde_entry = entry\<rparr>]) ets))
      = filter (\<lambda>(e, t). t \<noteq> None) ets" for ets
  proof (induction ets)
    case (Cons et ets)
    obtain e t where et: "et = (e, t)" by fastforce
    show ?case
    proof (cases t)
      case None
      then show ?thesis using Cons by (simp add: et from_event_id_def)
    next
      case (Some u)
      then obtain k where "from_event_id t = Some k" by (auto simp: from_event_id_def)
      with from_event_id_inverse [of u k] Some Cons show ?thesis by (simp add: et)
    qed
  qed simp
  then show "map (\<lambda>ev. (cde_entry ev, Some (event_id (cde_kind ev)))) (classified sid entries tags)
       = filter (\<lambda>(e, t). t \<noteq> None) (zip entries tags)"
    by (simp add: classified_def)
qed

end
