(* ===== verification/Selective.thy ===== *)
theory Selective
  imports Rust_Str
begin

text \<open>
  The selective-sync policy, \<open>pcloud-engine/src/selective.rs\<close>.  The \<open>globset\<close>
  crate is a parameter: \<open>glob_new\<close> compiles a pattern or fails with a message,
  \<open>build\<close> compiles a list of globs into a set (an empty list is what
  \<open>GlobSet::empty\<close> stands for), \<open>is_match\<close> tests a path.
\<close>

record ('g, 's) globset =
  glob_new :: "string \<Rightarrow> (string, 'g) result"
  glob_build :: "'g list \<Rightarrow> (string, 's) result"
  glob_empty :: 's
  glob_is_match :: "'s \<Rightarrow> string \<Rightarrow> bool"

record 's selective_policy =
  includes_set :: 's
  excludes_set :: 's
  has_includes :: bool
  has_excludes :: bool

text \<open>An I/O error of which the code only asks whether it is \<open>NotFound\<close>; a parse
  error has the line number, the pattern and the message.\<close>

datatype io_error = NotFound | OtherIo string

datatype selective_error = Io io_error | ParseError nat string string

definition allow_all :: "('g, 's) globset \<Rightarrow> 's selective_policy" where
  "allow_all g =
     \<lparr>includes_set = glob_empty g, excludes_set = glob_empty g, has_includes = False, has_excludes = False\<rparr>"

text \<open>What one line contributes: nothing, or a pattern with its polarity.\<close>

definition line_pattern :: "string \<Rightarrow> (bool \<times> string) option" where
  "line_pattern raw_line =
     (let line = trim raw_line in
      if line = [] \<or> starts_with line ''#'' then None
      else
        let (is_exclude, pattern_text) =
              (case strip_prefix line ''!'' of
                 Some rest \<Rightarrow> (True, trim rest)
               | None \<Rightarrow> (False, line))
        in if pattern_text = [] then None else Some (is_exclude, pattern_text))"

fun parse_loop ::
  "('g, 's) globset \<Rightarrow> nat \<Rightarrow> string list \<Rightarrow> 'g list \<Rightarrow> 'g list \<Rightarrow>
     (selective_error, 'g list \<times> 'g list) result" where
  "parse_loop g idx [] includes excludes = Ok (includes, excludes)"
| "parse_loop g idx (raw_line # lines) includes excludes =
     (case line_pattern raw_line of
        None \<Rightarrow> parse_loop g (idx + 1) lines includes excludes
      | Some (is_exclude, pattern_text) \<Rightarrow>
          (case glob_new g pattern_text of
             Inl message \<Rightarrow> Err (ParseError (idx + 1) pattern_text message)
           | Inr glob \<Rightarrow>
               (if is_exclude then parse_loop g (idx + 1) lines includes (excludes @ [glob])
                else parse_loop g (idx + 1) lines (includes @ [glob]) excludes)))"

definition selective_parse ::
  "('g, 's) globset \<Rightarrow> string \<Rightarrow> (selective_error, 's selective_policy) result" where
  "selective_parse g contents =
     (case parse_loop g 0 (str_lines contents) [] [] of
        Inl e \<Rightarrow> Err e
      | Inr (includes, excludes) \<Rightarrow>
          (case glob_build g includes of
             Inl message \<Rightarrow> Err (ParseError 0 [] message)
           | Inr inc \<Rightarrow>
               (case glob_build g excludes of
                  Inl message \<Rightarrow> Err (ParseError 0 [] message)
                | Inr exc \<Rightarrow>
                    Ok \<lparr>includes_set = inc, excludes_set = exc,
                        has_includes = (includes \<noteq> []), has_excludes = (excludes \<noteq> [])\<rparr>)))"

text \<open>\<open>fs::read_to_string\<close> is the argument \<open>read_file\<close>.\<close>

definition from_pcloudsync_file ::
  "('g, 's) globset \<Rightarrow> (string \<Rightarrow> (io_error, string) result) \<Rightarrow> string \<Rightarrow>
     (selective_error, 's selective_policy) result" where
  "from_pcloudsync_file g read_file path =
     (case read_file path of
        Inr contents \<Rightarrow> selective_parse g contents
      | Inl NotFound \<Rightarrow> Ok (allow_all g)
      | Inl err \<Rightarrow> Err (Io err))"

text \<open>\<open>Path::join\<close> with a relative path.\<close>

definition join_relative :: "string \<Rightarrow> string \<Rightarrow> string" where
  "join_relative dir rel =
     (if dir = [] \<or> List.last dir = CHR ''/'' then dir @ rel else dir @ ''/'' @ rel)"

definition for_sync_root ::
  "('g, 's) globset \<Rightarrow> (string \<Rightarrow> (io_error, string) result) \<Rightarrow> string \<Rightarrow>
     (selective_error, 's selective_policy) result" where
  "for_sync_root g read_file sync_root =
     from_pcloudsync_file g read_file (join_relative sync_root ''.pcloudsync'')"

definition selective_matches :: "('g, 's) globset \<Rightarrow> 's selective_policy \<Rightarrow> string \<Rightarrow> bool" where
  "selective_matches g self relative_path =
     (let normalized = trim_start_char (CHR ''/'') relative_path in
      if has_excludes self \<and> glob_is_match g (excludes_set self) normalized then False
      else if \<not> has_includes self then True
      else glob_is_match g (includes_set self) normalized)"

section \<open>Properties\<close>

text \<open>The patterns of a file, in order.\<close>

definition patterns :: "bool \<Rightarrow> string list \<Rightarrow> string list" where
  "patterns excl ls = map snd (filter (\<lambda>p. fst p = excl) (List.map_filter line_pattern ls))"

text \<open>What the policy relies on of the glob crate: a set built from compiled
  globs matches a path exactly when one of its patterns does.\<close>

definition globset_law :: "('g, 's) globset \<Rightarrow> (string \<Rightarrow> string \<Rightarrow> bool) \<Rightarrow> bool" where
  "globset_law g pat \<longleftrightarrow>
     (\<forall>ps gs s path. list_all2 (\<lambda>p x. glob_new g p = Ok x) ps gs \<longrightarrow> glob_build g gs = Ok s \<longrightarrow>
        glob_is_match g s path = (\<exists>p \<in> set ps. pat p path))"

lemma parse_loop_Ok:
  assumes "parse_loop g i ls inc exc = Inr (inc', exc')"
  shows "\<exists>is es. inc' = inc @ is \<and> exc' = exc @ es \<and>
    list_all2 (\<lambda>p x. glob_new g p = Ok x) (patterns False ls) is \<and>
    list_all2 (\<lambda>p x. glob_new g p = Ok x) (patterns True ls) es"
  using assms
proof (induction g i ls inc exc rule: parse_loop.induct)
  case (1 g idx inc exc)
  then show ?case by (simp add: patterns_def)
next
  case (2 g idx l ls inc exc)
  show ?case
  proof (cases "line_pattern l")
    case None
    with 2 show ?thesis by (simp add: patterns_def List.map_filter_simps)
  next
    case (Some ep)
    obtain e p where ep: "ep = (e, p)" by fastforce
    with Some "2.prems" obtain x where x: "glob_new g p = Inr x"
      by (auto split: sum.splits)
    show ?thesis
    proof (cases e)
      case True
      with "2.IH"(2) [OF Some ep [symmetric] x True] "2.prems" Some ep x show ?thesis
        by (fastforce simp: patterns_def List.map_filter_simps)
    next
      case False
      with "2.IH"(3) [OF Some ep [symmetric] x False] "2.prems" Some ep x show ?thesis
        by (fastforce simp: patterns_def List.map_filter_simps)
    qed
  qed
qed

text \<open>The first line whose pattern does not compile is the one an error reports.\<close>

lemma parse_loop_Err:
  assumes "parse_loop g i ls inc exc = Inl e"
  shows "\<exists>k p msg x. e = ParseError (i + k + 1) p msg \<and> k < length ls \<and> line_pattern (ls ! k) = Some (x, p)
    \<and> glob_new g p = Inl msg"
  using assms
proof (induction g i ls inc exc rule: parse_loop.induct)
  case (2 g idx l ls inc exc)
  have step: ?case if "parse_loop g (idx + 1) ls inc' exc' = Inl e" and
    ih: "parse_loop g (idx + 1) ls inc' exc' = Inl e \<Longrightarrow>
      \<exists>k p msg x. e = ParseError (idx + 1 + k + 1) p msg \<and> k < length ls \<and>
        line_pattern (ls ! k) = Some (x, p) \<and> glob_new g p = Inl msg" for inc' exc'
  proof -
    from ih [OF that(1)] obtain k p msg x where
      "e = ParseError (idx + Suc k + 1) p msg" "Suc k < length (l # ls)"
      "line_pattern ((l # ls) ! Suc k) = Some (x, p)" "glob_new g p = Inl msg" by auto
    then show ?thesis by blast
  qed
  show ?case
  proof (cases "line_pattern l")
    case None
    with "2.prems" show ?thesis by (intro step [OF _ "2.IH"(1) [OF None]]) simp_all
  next
    case (Some ep)
    obtain x p where ep: "ep = (x, p)" by fastforce
    show ?thesis
    proof (cases "glob_new g p")
      case (Inl msg)
      with Some ep "2.prems" have "e = ParseError (idx + 0 + 1) p msg" by simp
      with Inl Some ep show ?thesis by (intro exI [of _ 0] exI [of _ p] exI [of _ msg] exI [of _ x]) simp
    next
      case (Inr gl)
      show ?thesis
      proof (cases x)
        case True
        with Some ep Inr "2.prems" show ?thesis
          by (intro step [OF _ "2.IH"(2) [OF Some ep [symmetric] Inr True]]) simp_all
      next
        case False
        with Some ep Inr "2.prems" show ?thesis
          by (intro step [OF _ "2.IH"(3) [OF Some ep [symmetric] Inr False]]) simp_all
      qed
    qed
  qed
qed simp

text \<open>A root without a policy file synchronises every path.\<close>

lemma missing_policy_allows_all:
  assumes "read_file (join_relative sync_root ''.pcloudsync'') = Inl NotFound"
    and "for_sync_root g read_file sync_root = Ok pol"
  shows "selective_matches g pol path"
  using assms by (auto simp: for_sync_root_def from_pcloudsync_file_def allow_all_def selective_matches_def)

text \<open>A parsed policy selects a path exactly when no exclude pattern of the
  file matches it, and either the file has no include pattern or one of them
  matches; exclusion wins over inclusion, and leading slashes of the path do
  not matter.\<close>

theorem selective_policy_semantics:
  fixes path :: string
  assumes "globset_law g pat" and "selective_parse g contents = Ok pol"
  defines "p \<equiv> trim_start_char (CHR ''/'') path"
  shows "selective_matches g pol path \<longleftrightarrow>
    (\<not> (\<exists>x \<in> set (patterns True (str_lines contents)). pat x p)) \<and>
    (patterns False (str_lines contents) = [] \<or> (\<exists>x \<in> set (patterns False (str_lines contents)). pat x p))"
proof -
  from assms(2) obtain inc exc s t where parse: "parse_loop g 0 (str_lines contents) [] [] = Inr (inc, exc)"
    and s: "glob_build g inc = Inr s" and t: "glob_build g exc = Inr t"
    and pol: "pol = \<lparr>includes_set = s, excludes_set = t, has_includes = (inc \<noteq> []), has_excludes = (exc \<noteq> [])\<rparr>"
    by (auto simp: selective_parse_def split: sum.splits)
  from parse_loop_Ok [OF parse]
  have i: "list_all2 (\<lambda>p x. glob_new g p = Ok x) (patterns False (str_lines contents)) inc"
    and e: "list_all2 (\<lambda>p x. glob_new g p = Ok x) (patterns True (str_lines contents)) exc" by auto
  have "glob_is_match g s q = (\<exists>x \<in> set (patterns False (str_lines contents)). pat x q)"
    and "glob_is_match g t q = (\<exists>x \<in> set (patterns True (str_lines contents)). pat x q)" for q
    using assms(1) i e s t unfolding globset_law_def by blast+
  moreover have "inc = [] \<longleftrightarrow> patterns False (str_lines contents) = []"
    "exc = [] \<longleftrightarrow> patterns True (str_lines contents) = []"
    using i e by (auto simp: list_all2_conv_all_nth)
  ultimately show ?thesis
    by (auto simp: selective_matches_def pol p_def Let_def)
qed

text \<open>A glob crate without wildcards: a set matches the paths it lists.\<close>

definition exact_globs :: "(string, string list) globset" where
  "exact_globs =
     \<lparr>glob_new = (\<lambda>p. Ok p), glob_build = (\<lambda>ps. Ok ps), glob_empty = [],
      glob_is_match = (\<lambda>ps path. path \<in> set ps)\<rparr>"

lemma exact_globs_law: "globset_law exact_globs (=)"
  by (auto simp: globset_law_def exact_globs_def list_all2_conv_all_nth in_set_conv_nth)

lemma trim_examples: "trim ''!a'' = ''!a''" "trim ''a'' = ''a''"
  by (simp_all add: trim_def trim_end_def trim_start_def starts_with_def whitespace_encodings_def
      trim_start_by.simps)

theorem selective_policy_semantics_witness:
  "\<not> selective_matches exact_globs \<lparr>includes_set = [], excludes_set = [''a''],
       has_includes = False, has_excludes = True\<rparr> ''/a''"
proof -
  have line: "line_pattern ''!a'' = Some (True, ''a'')"
    by (simp add: line_pattern_def trim_examples starts_with_def strip_prefix_def)
  then have lines: "str_lines ''!a'' = [''!a'']" "patterns True [''!a''] = [''a'']"
    by (simp_all add: str_lines_def patterns_def List.map_filter_simps)
  have parse: "selective_parse exact_globs ''!a'' = Ok \<lparr>includes_set = [], excludes_set = [''a''],
       has_includes = False, has_excludes = True\<rparr>"
    by (simp add: selective_parse_def lines line exact_globs_def)
  from selective_policy_semantics [OF exact_globs_law parse, of "''/a''"] show ?thesis
    by (simp add: lines trim_start_char_def)
qed

end
