(* ===== verification/Circuit_Breaker.thy ===== *)
theory Circuit_Breaker
  imports Prelude
begin

text \<open>
  The circuit breaker, \<open>pcloud-resilience/src/circuit_breaker.rs\<close>.  Every method
  locks the shared \<open>Inner\<close> for its whole body, so a method is one step of the
  state; callers on different threads interleave between steps.  The clock is
  an argument (the unit is that of \<open>Duration\<close>).
\<close>

datatype breaker_state = Closed | Open | HalfOpen

record circuit_breaker_config =
  failure_threshold :: u32
  reset_timeout :: nat

text \<open>\<open>None\<close> is the panic of the assertion.\<close>

definition circuit_breaker_config_new :: "u32 \<Rightarrow> nat \<Rightarrow> circuit_breaker_config option" where
  "circuit_breaker_config_new threshold timeout =
     (if threshold \<ge> 1 then Some \<lparr>failure_threshold = threshold, reset_timeout = timeout\<rparr> else None)"

datatype circuit_breaker_error = OpenError | ProbeInFlight

record breaker_inner =
  br_state :: breaker_state
  consecutive_failures :: u32
  opened_at :: "nat option"
  probe_in_flight :: bool

definition breaker_new :: breaker_inner where
  "breaker_new =
     \<lparr>br_state = Closed, consecutive_failures = 0, opened_at = None, probe_in_flight = False\<rparr>"

definition tick_locked :: "circuit_breaker_config \<Rightarrow> nat \<Rightarrow> breaker_inner \<Rightarrow> breaker_inner" where
  "tick_locked cfg now g =
     (if br_state g = Open then
        (case opened_at g of
           Some t \<Rightarrow>
             if now - t \<ge> reset_timeout cfg then g\<lparr>br_state := HalfOpen, probe_in_flight := False\<rparr> else g
         | None \<Rightarrow> g)
      else g)"

definition breaker_observe :: "circuit_breaker_config \<Rightarrow> nat \<Rightarrow> breaker_inner \<Rightarrow> breaker_inner \<times> breaker_state" where
  "breaker_observe cfg now g = (let g = tick_locked cfg now g in (g, br_state g))"

definition try_acquire ::
  "circuit_breaker_config \<Rightarrow> nat \<Rightarrow> breaker_inner \<Rightarrow> breaker_inner \<times> (circuit_breaker_error, unit) result" where
  "try_acquire cfg now g =
     (let g = tick_locked cfg now g in
      case br_state g of
        Closed \<Rightarrow> (g, Ok ())
      | Open \<Rightarrow> (g, Err OpenError)
      | HalfOpen \<Rightarrow>
          if probe_in_flight g then (g, Err ProbeInFlight)
          else (g\<lparr>probe_in_flight := True\<rparr>, Ok ()))"

definition record_success :: "breaker_inner \<Rightarrow> breaker_inner" where
  "record_success g =
     (case br_state g of
        Closed \<Rightarrow> g\<lparr>consecutive_failures := 0\<rparr>
      | HalfOpen \<Rightarrow>
          g\<lparr>br_state := Closed, consecutive_failures := 0, opened_at := None, probe_in_flight := False\<rparr>
      | Open \<Rightarrow> g)"

definition record_failure :: "circuit_breaker_config \<Rightarrow> nat \<Rightarrow> breaker_inner \<Rightarrow> breaker_inner" where
  "record_failure cfg now g =
     (case br_state g of
        Closed \<Rightarrow>
          (let g = g\<lparr>consecutive_failures := saturating_add (consecutive_failures g) 1\<rparr> in
           if consecutive_failures g \<ge> failure_threshold cfg
           then g\<lparr>br_state := Open, opened_at := Some now\<rparr> else g)
      | HalfOpen \<Rightarrow> g\<lparr>br_state := Open, opened_at := Some now, probe_in_flight := False\<rparr>
      | Open \<Rightarrow> g)"

text \<open>The RAII guard: \<open>finished\<close> says whether an outcome was recorded; the
  methods that record one consume the guard, which is then dropped.\<close>

record probe_guard =
  finished :: bool

definition acquire_guarded ::
  "circuit_breaker_config \<Rightarrow> nat \<Rightarrow> breaker_inner \<Rightarrow>
     breaker_inner \<times> (circuit_breaker_error, probe_guard) result" where
  "acquire_guarded cfg now g =
     (case try_acquire cfg now g of
        (g, Inl e) \<Rightarrow> (g, Err e)
      | (g, Inr _) \<Rightarrow> (g, Ok \<lparr>finished = False\<rparr>))"

definition guard_drop :: "circuit_breaker_config \<Rightarrow> nat \<Rightarrow> probe_guard \<Rightarrow> breaker_inner \<Rightarrow> breaker_inner" where
  "guard_drop cfg now guard g = (if \<not> finished guard then record_failure cfg now g else g)"

definition guard_record_success ::
  "circuit_breaker_config \<Rightarrow> nat \<Rightarrow> probe_guard \<Rightarrow> breaker_inner \<Rightarrow> breaker_inner" where
  "guard_record_success cfg now guard g =
     guard_drop cfg now (guard\<lparr>finished := True\<rparr>) (record_success g)"

definition guard_record_failure ::
  "circuit_breaker_config \<Rightarrow> nat \<Rightarrow> probe_guard \<Rightarrow> breaker_inner \<Rightarrow> breaker_inner" where
  "guard_record_failure cfg now guard g =
     guard_drop cfg now (guard\<lparr>finished := True\<rparr>) (record_failure cfg now g)"

lemmas breaker_ops [op_simps] =
  tick_locked_def breaker_observe_def try_acquire_def record_success_def record_failure_def
  acquire_guarded_def guard_drop_def guard_record_success_def guard_record_failure_def

section \<open>Concurrent callers\<close>

text \<open>A caller is admitted by \<open>acquire_guarded\<close> and later ends with one of three
  outcomes.  The system remembers of each admitted caller whether it was
  admitted as the probe of a half-open breaker.\<close>

datatype outcome = Succeeded | Failed | Dropped

datatype breaker_event = Call nat | Finish nat outcome | Query

datatype admission = Normal | Probe

record breaker_sys =
  sys_breaker :: breaker_inner
  callers :: "nat \<rightharpoonup> admission"

definition sys_new :: breaker_sys where
  "sys_new = \<lparr>sys_breaker = breaker_new, callers = Map.empty\<rparr>"

definition finish_guard :: "circuit_breaker_config \<Rightarrow> nat \<Rightarrow> outcome \<Rightarrow> breaker_inner \<Rightarrow> breaker_inner" where
  "finish_guard cfg now out g =
     (case out of
        Succeeded \<Rightarrow> guard_record_success cfg now \<lparr>finished = False\<rparr> g
      | Failed \<Rightarrow> guard_record_failure cfg now \<lparr>finished = False\<rparr> g
      | Dropped \<Rightarrow> guard_drop cfg now \<lparr>finished = False\<rparr> g)"

inductive breaker_step ::
  "circuit_breaker_config \<Rightarrow> breaker_sys \<Rightarrow> nat \<times> breaker_event \<Rightarrow> breaker_sys \<Rightarrow> bool"
  for cfg where
  admitted: "breaker_step cfg s (now, Call c)
      \<lparr>sys_breaker = g, callers = (callers s)(c \<mapsto> if br_state g = HalfOpen then Probe else Normal)\<rparr>"
    if "callers s c = None" and "acquire_guarded cfg now (sys_breaker s) = (g, Inr guard)"
| rejected: "breaker_step cfg s (now, Call c) (s\<lparr>sys_breaker := g\<rparr>)"
    if "callers s c = None" and "acquire_guarded cfg now (sys_breaker s) = (g, Inl e)"
| finished: "breaker_step cfg s (now, Finish c out)
      \<lparr>sys_breaker = finish_guard cfg now out (sys_breaker s), callers = (callers s)(c := None)\<rparr>"
    if "callers s c \<noteq> None"
| queried: "breaker_step cfg s (now, Query) (s\<lparr>sys_breaker := fst (breaker_observe cfg now (sys_breaker s))\<rparr>)"

inductive_cases breaker_step_elims:
  "breaker_step cfg s (now, Call c) s'"
  "breaker_step cfg s (now, Finish c out) s'"
  "breaker_step cfg s (now, Query) s'"

text \<open>Runs whose steps all satisfy \<open>allowed\<close>, a condition on the state before the
  step and the event.\<close>

inductive breaker_run ::
  "circuit_breaker_config \<Rightarrow> (breaker_sys \<Rightarrow> nat \<times> breaker_event \<Rightarrow> bool) \<Rightarrow>
     breaker_sys \<Rightarrow> (nat \<times> breaker_event) list \<Rightarrow> breaker_sys \<Rightarrow> bool"
  for cfg allowed s where
  nil: "breaker_run cfg allowed s [] s"
| snoc: "breaker_run cfg allowed s (evs @ [ev]) s''"
    if "breaker_run cfg allowed s evs s'" and "allowed s' ev" and "breaker_step cfg s' ev s''"

lemma run_invariant:
  assumes "breaker_run cfg allowed s evs s'" and "P s"
    and "\<And>s ev s'. breaker_step cfg s ev s' \<Longrightarrow> allowed s ev \<Longrightarrow> P s \<Longrightarrow> P s'"
  shows "P s'"
  using assms(1) by induction (use assms(2,3) in blast)+

text \<open>The step relation as a function.\<close>

definition breaker_exec :: "circuit_breaker_config \<Rightarrow> breaker_sys \<Rightarrow> nat \<times> breaker_event \<Rightarrow> breaker_sys option" where
  "breaker_exec cfg s ev =
     (case ev of
        (now, Call c) \<Rightarrow>
          if callers s c \<noteq> None then None
          else (case acquire_guarded cfg now (sys_breaker s) of
            (g, Inr _) \<Rightarrow> Some \<lparr>sys_breaker = g,
               callers = (callers s)(c \<mapsto> if br_state g = HalfOpen then Probe else Normal)\<rparr>
          | (g, Inl _) \<Rightarrow> Some (s\<lparr>sys_breaker := g\<rparr>))
      | (now, Finish c out) \<Rightarrow>
          if callers s c = None then None
          else Some \<lparr>sys_breaker = finish_guard cfg now out (sys_breaker s), callers = (callers s)(c := None)\<rparr>
      | (now, Query) \<Rightarrow> Some (s\<lparr>sys_breaker := fst (breaker_observe cfg now (sys_breaker s))\<rparr>))"

lemma admitted_as:
  assumes "callers s c = None" and "acquire_guarded cfg now (sys_breaker s) = (g, Inr guard)"
    and "a = (if br_state g = HalfOpen then Probe else Normal)"
  shows "breaker_step cfg s (now, Call c) \<lparr>sys_breaker = g, callers = (callers s)(c \<mapsto> a)\<rparr>"
  unfolding assms(3) by (rule admitted [OF assms(1,2)])

lemma breaker_exec_step: "breaker_exec cfg s ev = Some s' \<longleftrightarrow> breaker_step cfg s ev s'"
proof
  assume "breaker_exec cfg s ev = Some s'"
  then show "breaker_step cfg s ev s'"
    by (auto simp: breaker_exec_def intro: breaker_step.intros admitted_as
        split: prod.splits breaker_event.splits sum.splits if_splits)
next
  assume "breaker_step cfg s ev s'"
  then show "breaker_exec cfg s ev = Some s'" by cases (auto simp: breaker_exec_def)
qed

fun breaker_execs ::
  "circuit_breaker_config \<Rightarrow> (breaker_sys \<Rightarrow> nat \<times> breaker_event \<Rightarrow> bool) \<Rightarrow> breaker_sys \<Rightarrow>
     (nat \<times> breaker_event) list \<Rightarrow> breaker_sys option" where
  "breaker_execs cfg allowed s [] = Some s"
| "breaker_execs cfg allowed s (ev # evs) =
     (if allowed s ev then Option.bind (breaker_exec cfg s ev) (\<lambda>s'. breaker_execs cfg allowed s' evs) else None)"

lemma breaker_execs_append:
  "breaker_run cfg allowed s0 evs0 s \<Longrightarrow> breaker_execs cfg allowed s evs = Some s' \<Longrightarrow>
     breaker_run cfg allowed s0 (evs0 @ evs) s'"
proof (induction evs arbitrary: s evs0)
  case (Cons ev evs)
  then obtain s1 where s1: "allowed s ev" "breaker_exec cfg s ev = Some s1"
    "breaker_execs cfg allowed s1 evs = Some s'"
    by (auto split: if_splits bind_splits)
  then have "breaker_run cfg allowed s0 (evs0 @ [ev]) s1"
    using Cons.prems(1) by (auto simp: breaker_exec_step intro: breaker_run.snoc)
  from Cons.IH [OF this s1(3)] show ?case by simp
qed simp

lemma breaker_execs_run: "breaker_execs cfg allowed s evs = Some s' \<Longrightarrow> breaker_run cfg allowed s evs s'"
  using breaker_execs_append [OF breaker_run.nil] by simp

section \<open>Invariant\<close>

text \<open>An outcome of a caller that was admitted before the breaker opened, recorded
  while a probe is awaited.\<close>

definition stale :: "breaker_sys \<Rightarrow> nat \<times> breaker_event \<Rightarrow> bool" where
  "stale s ev \<longleftrightarrow>
     (case snd ev of
        Finish c out \<Rightarrow> br_state (sys_breaker s) = HalfOpen \<and> callers s c = Some Normal
      | _ \<Rightarrow> False)"

definition probes :: "breaker_sys \<Rightarrow> nat set" where
  "probes s = {c. callers s c = Some Probe}"

definition breaker_inv :: "circuit_breaker_config \<Rightarrow> breaker_inner \<Rightarrow> bool" where
  "breaker_inv cfg g \<longleftrightarrow>
     (br_state g = Closed \<longrightarrow> consecutive_failures g < failure_threshold cfg) \<and>
     (br_state g = Open \<longrightarrow> opened_at g \<noteq> None) \<and>
     (probe_in_flight g \<longrightarrow> br_state g = HalfOpen)"

definition slot_inv :: "breaker_sys \<Rightarrow> bool" where
  "slot_inv s \<longleftrightarrow>
     (if probe_in_flight (sys_breaker s)
      then br_state (sys_breaker s) = HalfOpen \<and> (\<exists>c. probes s = {c}) else probes s = {})"

lemma breaker_inv_ops [inv_intros]:
  assumes "breaker_inv cfg g" and "0 < failure_threshold cfg"
  shows "breaker_inv cfg (tick_locked cfg now g)"
    and "breaker_inv cfg (fst (acquire_guarded cfg now g))"
    and "breaker_inv cfg (finish_guard cfg now out g)"
    and "breaker_inv cfg (fst (breaker_observe cfg now g))"
  using assms
  by (auto simp: breaker_inv_def finish_guard_def op_simps Let_def not_le
      split: breaker_state.splits option.splits outcome.splits)

lemma breaker_step_inv:
  assumes "breaker_step cfg s ev s'" and "breaker_inv cfg (sys_breaker s)" and "0 < failure_threshold cfg"
  shows "breaker_inv cfg (sys_breaker s')"
  using assms(1)
proof cases
  case (admitted c now g guard)
  with breaker_inv_ops(2) [OF assms(2,3), of now] show ?thesis by simp
next
  case (rejected c now g e)
  with breaker_inv_ops(2) [OF assms(2,3), of now] show ?thesis by simp
qed (use breaker_inv_ops [OF assms(2,3)] in simp_all)

lemma slot_inv_step:
  assumes step: "breaker_step cfg s ev s'" and fresh: "\<not> stale s ev" and inv: "slot_inv s"
  shows "slot_inv s'"
  using step
proof cases
  case (admitted c now g guard)
  then have "probes s' = (if br_state g = HalfOpen then insert c (probes s) else probes s)"
    by (auto simp: probes_def)
  with admitted inv show ?thesis
    by (auto simp: slot_inv_def op_simps Let_def split: breaker_state.splits option.splits if_splits)
next
  case (rejected c now g e)
  then have "probes s' = probes s" by (simp add: probes_def)
  with rejected inv show ?thesis
    by (auto simp: slot_inv_def op_simps Let_def split: breaker_state.splits option.splits if_splits)
next
  case (finished c now out)
  then have probes: "probes s' = probes s - {c}" by (auto simp: probes_def)
  have "probes s = {c}" if "br_state (sys_breaker s) = HalfOpen"
  proof -
    have "callers s c = Some Probe"
      using fresh finished that by (cases "callers s c") (auto simp: stale_def split: admission.splits, metis admission.exhaust)
    then have "c \<in> probes s" by (simp add: probes_def)
    with inv show ?thesis by (auto simp: slot_inv_def split: if_splits)
  qed
  with finished probes inv show ?thesis
    by (auto simp: slot_inv_def finish_guard_def op_simps Let_def
        split: breaker_state.splits outcome.splits if_splits)
next
  case (queried now)
  then have "probes s' = probes s" by (simp add: probes_def)
  with queried inv show ?thesis
    by (auto simp: slot_inv_def op_simps Let_def split: breaker_state.splits option.splits if_splits)
qed

text \<open>C35: at most one probe is in flight, in every interleaving of callers whose
  calls, outcomes and dropped guards include no outcome of a caller admitted
  before the breaker opened; a probe in flight means the breaker is half open,
  and the slot is free whenever no probe is in flight.\<close>

theorem breaker_single_probe:
  assumes "breaker_run cfg (\<lambda>s ev. \<not> stale s ev) sys_new evs s"
  shows "card (probes s) \<le> 1
    \<and> (probe_in_flight (sys_breaker s) \<longleftrightarrow> probes s \<noteq> {})
    \<and> (probes s \<noteq> {} \<longrightarrow> br_state (sys_breaker s) = HalfOpen)"
proof -
  have "slot_inv s"
  proof (rule run_invariant [OF assms])
    show "slot_inv sys_new" by (simp add: slot_inv_def sys_new_def breaker_new_def probes_def)
  qed (rule slot_inv_step)
  then show ?thesis by (auto simp: slot_inv_def split: if_splits)
qed

definition example_cfg :: circuit_breaker_config where
  "example_cfg = \<lparr>failure_threshold = 1, reset_timeout = 10\<rparr>"

lemmas exec_simps =
  breaker_exec_def breaker_ops finish_guard_def example_cfg_def sys_new_def breaker_new_def
  saturating_add_def stale_def

theorem breaker_single_probe_witness:
  "card (probes (the (breaker_execs example_cfg (\<lambda>s ev. \<not> stale s ev) sys_new
     [(0, Call 0), (1, Finish 0 Failed), (11, Call 1), (12, Call 2)]))) \<le> 1"
proof -
  have "breaker_execs example_cfg (\<lambda>s ev. \<not> stale s ev) sys_new
     [(0, Call 0), (1, Finish 0 Failed), (11, Call 1), (12, Call 2)]
     = Some \<lparr>sys_breaker = \<lparr>br_state = HalfOpen, consecutive_failures = 1, opened_at = Some 1,
         probe_in_flight = True\<rparr>, callers = [1 \<mapsto> Probe]\<rparr>"
    by (simp add: exec_simps Let_def)
  from breaker_single_probe [OF breaker_execs_run [OF this]] this show ?thesis by simp
qed

section \<open>The open interval\<close>

text \<open>From the moment the breaker opens until the reset timeout has elapsed,
  nothing that any caller does (calls, outcomes, dropped guards, queries)
  changes the breaker, and no call is admitted.  From then on the next call is
  admitted as a probe; its success closes the breaker with the failure count
  reset, its failure or the dropping of its guard opens it for another timeout.\<close>

theorem breaker_open_interval:
  assumes "br_state (sys_breaker s) = Open" and "opened_at (sys_breaker s) = Some t"
    and "breaker_run cfg (\<lambda>_ ev. t \<le> fst ev \<and> fst ev < t + reset_timeout cfg) s evs s'"
  shows "sys_breaker s' = sys_breaker s \<and> dom (callers s') \<subseteq> dom (callers s)
    \<and> (t + reset_timeout cfg \<le> now \<longrightarrow>
        (case acquire_guarded cfg now (sys_breaker s') of
           (g, r) \<Rightarrow> isl r = False \<and> br_state g = HalfOpen \<and> probe_in_flight g
             \<and> finish_guard cfg later Succeeded g = breaker_new
             \<and> br_state (finish_guard cfg later Failed g) = Open
             \<and> opened_at (finish_guard cfg later Failed g) = Some later
             \<and> finish_guard cfg later Dropped g = finish_guard cfg later Failed g))"
proof (intro conjI)
  let ?P = "\<lambda>x. sys_breaker x = sys_breaker s \<and> dom (callers x) \<subseteq> dom (callers s)"
  have "?P s'"
  proof (rule run_invariant [OF assms(3)])
    fix x ev x'
    assume step: "breaker_step cfg x ev x'" and time: "t \<le> fst ev \<and> fst ev < t + reset_timeout cfg" and P: "?P x"
    then show "?P x'"
      using assms(1,2)
      by (cases rule: breaker_step.cases)
        (auto simp: op_simps finish_guard_def split: outcome.splits if_splits)
  qed simp
  then show "sys_breaker s' = sys_breaker s" and "dom (callers s') \<subseteq> dom (callers s)" by simp_all
  then show "t + reset_timeout cfg \<le> now \<longrightarrow>
        (case acquire_guarded cfg now (sys_breaker s') of
           (g, r) \<Rightarrow> isl r = False \<and> br_state g = HalfOpen \<and> probe_in_flight g
             \<and> finish_guard cfg later Succeeded g = breaker_new
             \<and> br_state (finish_guard cfg later Failed g) = Open
             \<and> opened_at (finish_guard cfg later Failed g) = Some later
             \<and> finish_guard cfg later Dropped g = finish_guard cfg later Failed g)"
    using assms(1,2) by (auto simp: op_simps finish_guard_def breaker_new_def Let_def)
qed

theorem breaker_open_interval_witness:
  "let g = record_failure example_cfg 1 breaker_new in
   the (breaker_execs example_cfg (\<lambda>_ ev. 1 \<le> fst ev \<and> fst ev < 1 + reset_timeout example_cfg)
     \<lparr>sys_breaker = g, callers = [7 \<mapsto> Normal]\<rparr> [(5, Call 3), (9, Finish 7 Succeeded)])
   = \<lparr>sys_breaker = g, callers = Map.empty\<rparr>
   \<and> snd (acquire_guarded example_cfg 11 g) = Ok \<lparr>finished = False\<rparr>"
proof -
  let ?g = "record_failure example_cfg 1 breaker_new"
  have "breaker_execs example_cfg (\<lambda>_ ev. 1 \<le> fst ev \<and> fst ev < 1 + reset_timeout example_cfg)
     \<lparr>sys_breaker = ?g, callers = [7 \<mapsto> Normal]\<rparr> [(5, Call 3), (9, Finish 7 Succeeded)]
     = Some \<lparr>sys_breaker = ?g, callers = Map.empty\<rparr>"
    by (simp add: exec_simps Let_def)
  note run = breaker_execs_run [OF this] and eq = this
  have "\<not> isl (snd (acquire_guarded example_cfg 11 ?g))"
    using breaker_open_interval [OF _ _ run, of 11 12]
    by (simp add: exec_simps Let_def)
  with eq show ?thesis
    by (simp add: exec_simps Let_def)
qed

section \<open>Tripping\<close>

text \<open>Number of failures since the last success.\<close>

definition trailing :: "bool list \<Rightarrow> nat" where
  "trailing outs = length (takeWhile Not (rev outs))"

definition record_outcomes :: "circuit_breaker_config \<Rightarrow> nat \<Rightarrow> bool list \<Rightarrow> breaker_inner" where
  "record_outcomes cfg now outs =
     foldl (\<lambda>g ok. if ok then record_success g else record_failure cfg now g) breaker_new outs"

lemma closed_until_threshold:
  assumes "\<And>n. trailing (take n outs) < unat (failure_threshold cfg)"
  shows "record_outcomes cfg now outs = breaker_new\<lparr>consecutive_failures := of_nat (trailing outs)\<rparr>"
  using assms
proof (induction outs rule: rev_induct)
  case Nil
  then show ?case by (simp add: record_outcomes_def trailing_def breaker_new_def)
next
  case (snoc ok outs)
  have "trailing (take n outs) < unat (failure_threshold cfg)" for n
  proof (cases "n \<le> length outs")
    case True
    with snoc.prems [of n] show ?thesis by simp
  qed (use snoc.prems [of "length outs"] in simp)
  then have IH: "record_outcomes cfg now outs = breaker_new\<lparr>consecutive_failures := of_nat (trailing outs)\<rparr>"
    by (rule snoc.IH)
  show ?case
  proof (cases ok)
    case True
    with IH show ?thesis
      by (simp add: record_outcomes_def trailing_def record_success_def breaker_new_def)
  next
    case False
    let ?k = "trailing outs"
    from False snoc.prems [of "Suc (length outs)"] have k: "Suc ?k < unat (failure_threshold cfg)"
      by (simp add: trailing_def)
    then have small: "Suc ?k < 2 ^ 32" using unsigned_less [of "failure_threshold cfg", where 'a = nat] by simp
    then have add: "saturating_add (of_nat ?k :: u32) 1 = of_nat (Suc ?k)"
      by (simp add: saturating_add_def unat_of_nat)
    have "\<not> failure_threshold cfg \<le> of_nat (Suc ?k)"
      using k small by (simp add: word_le_nat_alt unat_of_nat del: of_nat_Suc)
    with IH False add show ?thesis
      by (simp add: record_outcomes_def record_failure_def breaker_new_def Let_def trailing_def del: of_nat_Suc)
  qed
qed

lemma trips_at_threshold:
  assumes "\<And>n. trailing (take n outs) < unat (failure_threshold cfg)"
  shows "br_state (record_failure cfg t (record_outcomes cfg now outs)) = Open
    \<longleftrightarrow> Suc (trailing outs) = unat (failure_threshold cfg)"
proof -
  have k: "trailing outs < unat (failure_threshold cfg)" using assms [of "length outs"] by simp
  then have small: "trailing outs < 2 ^ 32 - 1" using unsigned_less [of "failure_threshold cfg", where 'a = nat] by simp
  then have "saturating_add (of_nat (trailing outs) :: u32) 1 = of_nat (Suc (trailing outs))"
    by (simp add: saturating_add_def unat_of_nat)
  moreover have "failure_threshold cfg \<le> of_nat (Suc (trailing outs)) \<longleftrightarrow>
      unat (failure_threshold cfg) \<le> Suc (trailing outs)"
    using small by (simp add: word_le_nat_alt unat_of_nat del: of_nat_Suc)
  ultimately show ?thesis
    using k by (auto simp: closed_until_threshold [OF assms] record_failure_def breaker_new_def Let_def
        simp del: of_nat_Suc)
qed

section \<open>Stale outcomes\<close>

text \<open>The condition of the single-probe theorem is needed: a caller admitted before
  the breaker opened may report its failure while a probe is in flight; that
  clears the probe slot, and after another timeout a second probe is admitted
  while the first is still running.\<close>

theorem stale_outcome_admits_second_probe:
  "probes (the (breaker_execs example_cfg (\<lambda>_ _. True) sys_new
     [(0, Call 0), (0, Call 1), (1, Finish 0 Failed), (11, Call 2), (12, Finish 1 Failed), (22, Call 3)]))
   = {2, 3}"
  by (auto simp: exec_simps Let_def probes_def)

end
