(* ===== verification/Retry.thy ===== *)
theory Retry
  imports Prelude
begin

text \<open>
  Retries of failed calls: the global retry budget
  (\<open>pcloud-resilience/src/global_budget.rs\<close>) and the retry policies
  (\<open>retry.rs\<close>).  The budget's counter is updated by single atomic operations;
  threads interleave between them, so it is modelled as a step relation with a
  program counter per thread next to the sequential meaning of its methods.
  The counter (\<open>AtomicI64\<close>) is an \<^typ>\<open>int\<close>; it stays within the number of
  threads of the interval from 0 to the capacity.  A duration is its number of
  nanoseconds.  The floating-point delay \<open>exp_delay\<close> is an argument of the
  definitions that use it.
\<close>

unbundle bit_operations_syntax

section \<open>Global retry budget\<close>

record global_retry_budget =
  tokens :: int
  capacity :: int

text \<open>\<open>None\<close> is the panic of the assertion.\<close>

definition budget_new :: "u32 \<Rightarrow> global_retry_budget option" where
  "budget_new cap = (if cap > 0 then Some \<lparr>tokens = uint cap, capacity = uint cap\<rparr> else None)"

definition fetch_add :: "int \<Rightarrow> global_retry_budget \<Rightarrow> global_retry_budget \<times> int" where
  "fetch_add d b = (b\<lparr>tokens := tokens b + d\<rparr>, tokens b)"

definition try_consume :: "global_retry_budget \<Rightarrow> global_retry_budget \<times> bool" where
  "try_consume b =
     (let (b, prev) = fetch_add (- 1) b in
      if prev \<le> 0 then (fst (fetch_add 1 b), False) else (b, True))"

definition replenish :: "u32 \<Rightarrow> global_retry_budget \<Rightarrow> global_retry_budget" where
  "replenish n b =
     (if n = 0 then b else b\<lparr>tokens := min (tokens b + uint n) (capacity b)\<rparr>)"

definition available :: "global_retry_budget \<Rightarrow> u32" where
  "available b = word_of_int (max (tokens b) 0)"

text \<open>Where a thread is in \<open>try_consume\<close> or \<open>replenish\<close>: between them; after an
  unsuccessful \<open>fetch_sub\<close>; before the load and before the compare-exchange of
  the \<open>replenish\<close> loop.\<close>

datatype budget_pc = Idle | Restoring | Loading u32 | Swapping int u32

text \<open>The shared budget, the threads, and two counts of what happened: the tokens
  handed out by \<open>try_consume\<close> and the tokens asked for by \<open>replenish\<close>.\<close>

record budget_sys =
  shared :: global_retry_budget
  threads :: "budget_pc list"
  consumed :: nat
  requested :: nat

inductive budget_step :: "budget_sys \<Rightarrow> budget_sys \<Rightarrow> bool" where
  consume: "budget_step s (s\<lparr>shared := b, consumed := Suc (consumed s)\<rparr>)"
    if "i < length (threads s)" and "threads s ! i = Idle"
      and "fetch_add (- 1) (shared s) = (b, prev)" and "0 < prev"
| exhausted: "budget_step s (s\<lparr>shared := b, threads := (threads s)[i := Restoring]\<rparr>)"
    if "i < length (threads s)" and "threads s ! i = Idle"
      and "fetch_add (- 1) (shared s) = (b, prev)" and "prev \<le> 0"
| restore: "budget_step s (s\<lparr>shared := fst (fetch_add 1 (shared s)), threads := (threads s)[i := Idle]\<rparr>)"
    if "i < length (threads s)" and "threads s ! i = Restoring"
| call_replenish: "budget_step s
      (s\<lparr>threads := (threads s)[i := Loading n], requested := requested s + unat n\<rparr>)"
    if "i < length (threads s)" and "threads s ! i = Idle" and "n \<noteq> 0"
| load: "budget_step s (s\<lparr>threads := (threads s)[i := Swapping (tokens (shared s)) n]\<rparr>)"
    if "i < length (threads s)" and "threads s ! i = Loading n"
| exchange: "budget_step s (s\<lparr>shared := (shared s)\<lparr>tokens := min (current + uint n) (capacity (shared s))\<rparr>,
      threads := (threads s)[i := Idle]\<rparr>)"
    if "i < length (threads s)" and "threads s ! i = Swapping current n" and "tokens (shared s) = current"
| exchange_failed: "budget_step s (s\<lparr>threads := (threads s)[i := Loading n]\<rparr>)"
    if "i < length (threads s)" and "threads s ! i = Swapping current n"

definition budget_start :: "global_retry_budget \<Rightarrow> nat \<Rightarrow> budget_sys" where
  "budget_start b k = \<lparr>shared = b, threads = replicate k Idle, consumed = 0, requested = 0\<rparr>"

section \<open>Properties of the budget\<close>

text \<open>Tokens a thread will put back, and tokens it may still add.\<close>

fun owed :: "budget_pc \<Rightarrow> int" where
  "owed Restoring = 1"
| "owed _ = 0"

fun pending :: "budget_pc \<Rightarrow> int" where
  "pending (Loading n) = uint n"
| "pending (Swapping _ n) = uint n"
| "pending _ = 0"

abbreviation total_owed :: "budget_sys \<Rightarrow> int" where
  "total_owed s \<equiv> sum_list (map owed (threads s))"

abbreviation total_pending :: "budget_sys \<Rightarrow> int" where
  "total_pending s \<equiv> sum_list (map pending (threads s))"

lemma owed_bounds: "0 \<le> owed p" "owed p \<le> 1" "0 \<le> pending p"
  by (cases p; simp)+

lemma total_bounds: "0 \<le> total_owed s" "total_owed s \<le> int (length (threads s))" "0 \<le> total_pending s"
proof -
  show "0 \<le> total_owed s" and "0 \<le> total_pending s" by (auto intro!: sum_list_nonneg simp: owed_bounds)
  have "sum_list (map owed ps) \<le> int (length ps)" for ps
    by (induction ps) (use owed_bounds(2) in \<open>simp_all add: add_mono\<close>)
  then show "total_owed s \<le> int (length (threads s))" .
qed

lemma total_update:
  assumes "i < length ps"
  shows "sum_list (map f (ps[i := p])) = sum_list (map f ps) + f p - (f (ps ! i) :: int)"
  using assms
proof (induction ps arbitrary: i)
  case (Cons q ps)
  then show ?case by (cases i) simp_all
qed simp

definition budget_inv :: "budget_sys \<Rightarrow> bool" where
  "budget_inv s \<longleftrightarrow>
     0 \<le> capacity (shared s) \<and>
     0 \<le> tokens (shared s) + total_owed s \<and>
     tokens (shared s) + total_owed s \<le> capacity (shared s) + int (length (threads s)) \<and>
     tokens (shared s) + total_owed s + total_pending s + int (consumed s)
       \<le> capacity (shared s) + int (requested s)"

lemma budget_step_frame:
  "budget_step s s' \<Longrightarrow> capacity (shared s') = capacity (shared s) \<and> length (threads s') = length (threads s)"
  by (cases rule: budget_step.cases) (auto simp: fetch_add_def)

lemma budget_inv_step:
  assumes "budget_step s s'" and "budget_inv s"
  shows "budget_inv s'"
  using assms(1)
proof cases
  case (exchange i current n)
  have "0 \<le> t + uint n + x" if "0 \<le> t + x" for t x
    using that unsigned_greater_eq [of n, where 'a = int] by linarith
  with exchange assms(2) show ?thesis
    using total_bounds(1,2) [of s']
    by (auto simp: budget_inv_def total_update min_def)
qed (use assms(2) total_bounds(1) [of s] in \<open>auto simp: budget_inv_def total_update fetch_add_def\<close>)

lemma budget_reachable_inv:
  assumes "budget_step\<^sup>*\<^sup>* s s'" and "budget_inv s"
  shows "budget_inv s' \<and> capacity (shared s') = capacity (shared s)
    \<and> length (threads s') = length (threads s)"
  using assms by induction (auto dest: budget_inv_step budget_step_frame)

text \<open>In every interleaving of the atomic operations of any number of
  threads, no more retries are granted than the capacity plus the tokens that
  were replenished, and the counter leaves the interval from 0 to the
  capacity by at most the number of threads, so it cannot wrap around.\<close>

theorem budget_bounds_retries:
  assumes "budget_new cap = Some b" and "budget_step\<^sup>*\<^sup>* (budget_start b k) s"
  shows "consumed s \<le> unat cap + requested s
    \<and> - int k \<le> tokens (shared s) \<and> tokens (shared s) \<le> uint cap + int k"
proof -
  have b: "b = \<lparr>tokens = uint cap, capacity = uint cap\<rparr>"
    using assms(1) by (simp add: budget_new_def split: if_splits)
  have "budget_inv (budget_start b k)"
    by (simp add: b budget_inv_def budget_start_def sum_list_replicate)
  from budget_reachable_inv [OF assms(2) this]
  have inv: "budget_inv s" and cap: "capacity (shared s) = uint cap" and len: "length (threads s) = k"
    by (simp_all add: b budget_start_def)
  have "int (consumed s) \<le> uint cap + int (requested s)"
    using inv total_bounds [of s] unfolding budget_inv_def cap by linarith
  moreover have "- int k \<le> tokens (shared s)" "tokens (shared s) \<le> uint cap + int k"
    using inv total_bounds [of s] unfolding budget_inv_def cap len by linarith+
  ultimately show ?thesis by (simp flip: of_nat_le_iff [where 'a = int])
qed

text \<open>Without interference the methods have their documented meaning.\<close>

lemma try_consume_eq:
  "try_consume b = (if 0 < tokens b then (b\<lparr>tokens := tokens b - 1\<rparr>, True) else (b, False))"
  by (simp add: try_consume_def fetch_add_def)

lemma uninterrupted_consume:
  assumes "i < length (threads s)" and "threads s ! i = Idle"
  shows "budget_step\<^sup>*\<^sup>* s (s\<lparr>shared := fst (try_consume (shared s)),
    consumed := consumed s + (if snd (try_consume (shared s)) then 1 else 0)\<rparr>)"
proof (cases "0 < tokens (shared s)")
  case True
  with consume [OF assms, of "fst (fetch_add (- 1) (shared s))" "tokens (shared s)"] show ?thesis
    by (auto simp: try_consume_eq fetch_add_def)
next
  case False
  let ?s = "s\<lparr>shared := (shared s)\<lparr>tokens := tokens (shared s) - 1\<rparr>, threads := (threads s)[i := Restoring]\<rparr>"
  have "budget_step s ?s"
    using exhausted [OF assms, of "fst (fetch_add (- 1) (shared s))" "tokens (shared s)"] False
    by (simp add: fetch_add_def)
  moreover have "(threads s)[i := Idle] = threads s" using assms(2) by (metis list_update_id)
  then have "budget_step ?s s"
    using restore [of i ?s] assms(1) by (simp add: fetch_add_def)
  ultimately show ?thesis using False by (simp add: try_consume_eq)
qed

theorem budget_bounds_retries_witness:
  "\<exists>s. budget_step\<^sup>*\<^sup>* (budget_start \<lparr>tokens = 1, capacity = 1\<rparr> 2) s \<and> consumed s = 1
    \<and> consumed s \<le> unat (1 :: u32) + requested s
    \<and> - int 2 \<le> tokens (shared s) \<and> tokens (shared s) \<le> uint (1 :: u32) + int 2"
proof -
  let ?s = "\<lparr>shared = \<lparr>tokens = 0, capacity = 1\<rparr>, threads = [Idle, Idle], consumed = 1, requested = 0\<rparr>"
  have new: "budget_new 1 = Some \<lparr>tokens = 1, capacity = 1\<rparr>" by (simp add: budget_new_def)
  have run: "budget_step\<^sup>*\<^sup>* (budget_start \<lparr>tokens = 1, capacity = 1\<rparr> 2) ?s"
    using uninterrupted_consume [of 0 "budget_start \<lparr>tokens = 1, capacity = 1\<rparr> 2"]
    by (simp add: budget_start_def try_consume_eq numeral_2_eq_2)
  have "consumed ?s = 1" by simp
  with run budget_bounds_retries [OF new run] show ?thesis by blast
qed

text \<open>The compare-exchange loop does not keep the counter below the capacity: a
  thread that has yet to put back the token of an unsuccessful \<open>fetch_sub\<close> does
  so after a replenishment has filled the counter.\<close>

theorem budget_exceeds_capacity:
  "budget_step\<^sup>*\<^sup>* (budget_start \<lparr>tokens = 1, capacity = 1\<rparr> 2)
     \<lparr>shared = \<lparr>tokens = 2, capacity = 1\<rparr>, threads = [Idle, Idle], consumed = 1, requested = 3\<rparr>"
proof -
  let ?b = "\<lambda>t ts c r. \<lparr>shared = \<lparr>tokens = t, capacity = 1\<rparr>, threads = ts, consumed = c, requested = r\<rparr>"
  have 0: "budget_start \<lparr>tokens = 1, capacity = 1\<rparr> 2 = ?b 1 [Idle, Idle] 0 0"
    by (simp add: budget_start_def numeral_2_eq_2)
  have 1: "budget_step (?b 1 [Idle, Idle] 0 0) (?b 0 [Idle, Idle] 1 0)"
    using consume [of 0 "?b 1 [Idle, Idle] 0 0"] by (simp add: fetch_add_def)
  have 2: "budget_step (?b 0 [Idle, Idle] 1 0) (?b (- 1) [Idle, Restoring] 1 0)"
    using exhausted [of 1 "?b 0 [Idle, Idle] 1 0"] by (simp add: fetch_add_def)
  have 3: "budget_step (?b (- 1) [Idle, Restoring] 1 0) (?b (- 1) [Loading 3, Restoring] 1 3)"
    using call_replenish [of 0 "?b (- 1) [Idle, Restoring] 1 0" 3] by simp
  have 4: "budget_step (?b (- 1) [Loading 3, Restoring] 1 3) (?b (- 1) [Swapping (- 1) 3, Restoring] 1 3)"
    using load [of 0 "?b (- 1) [Loading 3, Restoring] 1 3"] by simp
  have 5: "budget_step (?b (- 1) [Swapping (- 1) 3, Restoring] 1 3) (?b 1 [Idle, Restoring] 1 3)"
    using exchange [of 0 "?b (- 1) [Swapping (- 1) 3, Restoring] 1 3"] by simp
  have 6: "budget_step (?b 1 [Idle, Restoring] 1 3) (?b 2 [Idle, Idle] 1 3)"
    using restore [of 1 "?b 1 [Idle, Restoring] 1 3"] by (simp add: fetch_add_def)
  show ?thesis
    unfolding 0 by (meson 1 2 3 4 5 6 converse_rtranclp_into_rtranclp rtranclp.rtrancl_refl)
qed

section \<open>Retry policies\<close>

text \<open>The growth factor of the exponential schedules is a floating-point number,
  of type \<open>'f\<close>.\<close>

datatype 'f backoff_schedule =
    Fixed nat
  | Exponential nat 'f nat
  | ExponentialJittered nat 'f nat u64

datatype retry_decision = RetryAfter nat | GiveUp

record 'f retry_policy =
  max_attempts :: u32
  schedule :: "'f backoff_schedule"

text \<open>\<open>None\<close> is a panic; \<open>factor_ok\<close> is the test that a factor is finite and at
  least one.\<close>

definition retry_policy_new :: "('f \<Rightarrow> bool) \<Rightarrow> u32 \<Rightarrow> 'f backoff_schedule \<Rightarrow> 'f retry_policy option" where
  "retry_policy_new factor_ok attempts sched =
     (if \<not> attempts \<ge> 1 then None
      else
        (case sched of
           Fixed _ \<Rightarrow> Some \<lparr>max_attempts = attempts, schedule = sched\<rparr>
         | Exponential _ factor _ \<Rightarrow>
             if factor_ok factor then Some \<lparr>max_attempts = attempts, schedule = sched\<rparr> else None
         | ExponentialJittered _ factor _ _ \<Rightarrow>
             if factor_ok factor then Some \<lparr>max_attempts = attempts, schedule = sched\<rparr> else None))"

definition splitmix64 :: "u64 \<Rightarrow> u64" where
  "splitmix64 x =
     (let x = x + 0x9E3779B97F4A7C15;
          z = x;
          z = (z XOR drop_bit 30 z) * 0xBF58476D1CE4E5B9;
          z = (z XOR drop_bit 27 z) * 0x94D049BB133111EB
      in z XOR drop_bit 31 z)"

definition apply_equal_jitter :: "nat \<Rightarrow> u64 \<Rightarrow> u32 \<Rightarrow> nat" where
  "apply_equal_jitter d seed attempt =
     (if d = 0 then d
      else
        let half_nanos = (of_nat (d div 2) :: u64);
            rnd = splitmix64 (seed XOR (ucast attempt * 0x9E3779B97F4A7C15));
            extra = (if half_nanos = 0 then 0 else rnd mod half_nanos)
        in unat (half_nanos + extra))"

definition compute_wait ::
  "(nat \<Rightarrow> 'f \<Rightarrow> nat \<Rightarrow> u32 \<Rightarrow> nat) \<Rightarrow> 'f retry_policy \<Rightarrow> u32 \<Rightarrow> nat" where
  "compute_wait exp_delay self attempt =
     (case schedule self of
        Fixed delay \<Rightarrow> delay
      | Exponential base factor mx \<Rightarrow> exp_delay base factor mx attempt
      | ExponentialJittered base factor mx seed \<Rightarrow>
          apply_equal_jitter (exp_delay base factor mx attempt) seed attempt)"

definition next_wait ::
  "(nat \<Rightarrow> 'f \<Rightarrow> nat \<Rightarrow> u32 \<Rightarrow> nat) \<Rightarrow> 'f retry_policy \<Rightarrow> u32 \<Rightarrow> nat option \<Rightarrow> retry_decision" where
  "next_wait exp_delay self attempt override_wait =
     (if attempt \<ge> max_attempts self then GiveUp
      else RetryAfter (case override_wait of Some w \<Rightarrow> w | None \<Rightarrow> compute_wait exp_delay self attempt))"

datatype retry_class = Idempotent | Mutation | UnknownClass

record 'f method_retry_policy =
  mrp_inner :: "'f retry_policy"
  retry_idempotent :: bool
  retry_mutations :: bool
  retry_unknown :: bool

definition secure_default :: "'f retry_policy \<Rightarrow> 'f method_retry_policy" where
  "secure_default inner =
     \<lparr>mrp_inner = inner, retry_idempotent = True, retry_mutations = False, retry_unknown = False\<rparr>"

definition method_next_wait ::
  "(nat \<Rightarrow> 'f \<Rightarrow> nat \<Rightarrow> u32 \<Rightarrow> nat) \<Rightarrow> 'f method_retry_policy \<Rightarrow> retry_class \<Rightarrow> u32 \<Rightarrow>
     nat option \<Rightarrow> retry_decision" where
  "method_next_wait exp_delay self cls attempt override_wait =
     (let allowed = (case cls of
            Idempotent \<Rightarrow> retry_idempotent self
          | Mutation \<Rightarrow> retry_mutations self
          | UnknownClass \<Rightarrow> retry_unknown self)
      in if \<not> allowed then GiveUp else next_wait exp_delay (mrp_inner self) attempt override_wait)"

lemma equal_jitter_bounds:
  assumes "d < 2 ^ 64"
  shows "d div 2 \<le> apply_equal_jitter d seed attempt" and "apply_equal_jitter d seed attempt \<le> d"
proof -
  let ?h = "of_nat (d div 2) :: u64"
  have h: "unat ?h = d div 2" using assms by (simp add: unat_of_nat)
  have *: "d div 2 \<le> unat (?h + (if ?h = 0 then 0 else r mod ?h))
      \<and> unat (?h + (if ?h = 0 then 0 else r mod ?h)) \<le> d" for r
  proof (cases "?h = 0")
    case True
    with h show ?thesis by simp
  next
    case False
    then have pos: "0 < d div 2" using h by (metis gr0I unsigned_0 unsigned_word_eqI)
    then have lt: "unat (r mod ?h) < d div 2" by (simp add: unat_mod_distrib h)
    then have "unat ?h + unat (r mod ?h) < 2 ^ 64" using assms h by linarith
    then have "unat (?h + r mod ?h) = d div 2 + unat (r mod ?h)" using h by (simp add: unat_word_ariths)
    with False lt show ?thesis by simp
  qed
  show "d div 2 \<le> apply_equal_jitter d seed attempt" and "apply_equal_jitter d seed attempt \<le> d"
    unfolding apply_equal_jitter_def Let_def using * by auto
qed

lemma mutations_not_retried:
  "cls \<noteq> Idempotent \<Longrightarrow> method_next_wait exp_delay (secure_default p) cls attempt w = GiveUp"
  by (cases cls) (simp_all add: method_next_wait_def secure_default_def)

end
