(* ===== verification/Cache.thy ===== *)
theory Cache
  imports Prelude "HOL-Library.AList"
begin

text \<open>
  The in-memory caches of \<open>pcloud-cache/src/\<close>: the page cache
  (\<open>page_cache.rs\<close>), bounded by bytes, and the staging cache (\<open>staging.rs\<close>),
  bounded by files, with the aggregate \<open>CacheShell\<close> (\<open>lib.rs\<close>).  Both are first-in
  first-out caches: the locale \<open>fifo_cache\<close> states that contract and what a
  client may conclude from it.  The page cache keeps its entries in the
  \<open>LinkedHashMap\<close> of an external crate, which is a parameter: a record of its
  operations, with the documented behaviour as the locale \<open>linked_map\<close>.  A
  \<open>HashMap\<close> of the standard library is a partial map with a finite domain.  Each
  method holds the lock of its cache, so it is one step.
\<close>

section \<open>First-in first-out caches\<close>

text \<open>The longest suffix that satisfies a condition, or nothing.\<close>

fun fit :: "('a list \<Rightarrow> bool) \<Rightarrow> 'a list \<Rightarrow> 'a list" where
  "fit ok [] = []"
| "fit ok (x # xs) = (if ok (x # xs) then x # xs else fit ok xs)"

abbreviation without :: "'k \<Rightarrow> ('k \<times> 'v) list \<Rightarrow> ('k \<times> 'v) list" where
  "without k es \<equiv> filter (\<lambda>e. fst e \<noteq> k) es"

lemma fit_id: "ok xs \<Longrightarrow> fit ok xs = xs"
  by (cases xs) simp_all

lemma fit_ok: "ok [] \<Longrightarrow> ok (fit ok xs)"
  by (induction xs) simp_all

lemma fit_suffix: "\<exists>n. fit ok xs = drop n xs"
proof (induction xs)
  case (Cons x xs)
  then obtain n where "fit ok xs = drop n xs" ..
  then show ?case by (cases "ok (x # xs)") (auto intro: exI [of _ 0] exI [of _ "Suc n"])
qed simp

lemma fit_keeps_newest: "ok [x] \<Longrightarrow> \<exists>ys. fit ok (xs @ [x]) = ys @ [x]"
  by (induction xs) auto

lemma map_of_drop:
  assumes "distinct (map fst es)" and "map_of (drop n es) k = Some v"
  shows "map_of es k = Some v"
proof -
  from assms(2) have "(k, v) \<in> set es" by (meson in_set_dropD map_of_SomeD)
  with assms(1) show ?thesis by simp
qed

locale fifo_cache =
  fixes put :: "'s \<Rightarrow> 'k \<Rightarrow> 'v \<Rightarrow> 's option"
    and contents :: "'s \<Rightarrow> ('k \<times> 'v) list"
    and ok_state :: "'s \<Rightarrow> bool"
    and fits :: "'s \<Rightarrow> ('k \<times> 'v) list \<Rightarrow> bool"
    and room :: "'s \<Rightarrow> 'v \<Rightarrow> bool"
  assumes put: "ok_state s \<Longrightarrow> room s v \<Longrightarrow>
      \<exists>s'. put s k v = Some s' \<and> ok_state s' \<and> contents s' = fit (fits s) (without k (contents s) @ [(k, v)])
        \<and> fits s' = fits s \<and> room s' = room s"
    and distinct_keys: "ok_state s \<Longrightarrow> distinct (map fst (contents s))"
    and within: "ok_state s \<Longrightarrow> fits s (contents s)"
begin

lemma put_obtain:
  assumes "ok_state s" and "room s v"
  obtains s' where "put s k v = Some s'" "ok_state s'" "fits s' = fits s" "room s' = room s"
    "contents s' = fit (fits s) (without k (contents s) @ [(k, v)])"
  using put [OF assms] by blast

lemma put_lookup_same:
  assumes "ok_state s" and "room s v" and "fits s [(k, v)]" and "put s k v = Some s'"
  shows "map_of (contents s') k = Some v"
proof -
  obtain s1 where "put s k v = Some s1" "contents s1 = fit (fits s) (without k (contents s) @ [(k, v)])"
    "ok_state s1" using put_obtain [OF assms(1,2)] by metis
  moreover obtain ys where "fit (fits s) (without k (contents s) @ [(k, v)]) = ys @ [(k, v)]"
    using fit_keeps_newest [of "fits s"] assms(3) by metis
  ultimately have "(k, v) \<in> set (contents s')" and "distinct (map fst (contents s'))"
    using assms(4) distinct_keys [of s1] by simp_all
  then show ?thesis by simp
qed

lemma put_lookup_only:
  assumes "ok_state s" and "room s v" and "put s k v = Some s'" and "map_of (contents s') k' = Some w"
  shows "if k' = k then w = v else map_of (contents s) k' = Some w"
proof -
  let ?es = "without k (contents s) @ [(k, v)]"
  obtain n where "contents s' = drop n ?es"
    using put_obtain [OF assms(1,2), of k] fit_suffix [of "fits s" ?es] assms(3) by (metis option.inject)
  moreover have "distinct (map fst ?es)"
    using distinct_keys [OF assms(1)] by (auto simp: distinct_map_filter)
  ultimately have "map_of ?es k' = Some w" using map_of_drop assms(4) by metis
  then have "(k', w) \<in> set ?es" by (rule map_of_SomeD)
  then show ?thesis using distinct_keys [OF assms(1)] by auto
qed

primrec puts :: "'s \<Rightarrow> ('k \<times> 'v) list \<Rightarrow> 's option" where
  "puts s [] = Some s"
| "puts s (kv # kvs) = Option.bind (put s (fst kv) (snd kv)) (\<lambda>s'. puts s' kvs)"

lemma puts_total:
  "ok_state s \<Longrightarrow> \<forall>v \<in> snd ` set kvs. room s v \<Longrightarrow> \<exists>s'. puts s kvs = Some s' \<and> ok_state s' \<and> fits s' = fits s"
proof (induction kvs arbitrary: s)
  case (Cons kv kvs)
  then have "room s (snd kv)" by simp
  with Cons.prems(1) obtain s1 where s1: "put s (fst kv) (snd kv) = Some s1" "ok_state s1"
    "fits s1 = fits s" "room s1 = room s" by (rule put_obtain)
  with Cons.IH [of s1] Cons.prems(2) show ?case by auto
qed simp

text \<open>A lookup returns the value of the last put, or nothing.\<close>

lemma puts_lookup:
  assumes "ok_state s" and "\<forall>v \<in> snd ` set kvs. room s v" and "puts s kvs = Some s'"
    and "map_of (contents s') k = Some v"
  shows "map_of (rev kvs @ contents s) k = Some v"
  using assms
proof (induction kvs arbitrary: s)
  case (Cons kv kvs)
  from Cons.prems(2) have "room s (snd kv)" by simp
  with Cons.prems(1) obtain s1 where s1: "put s (fst kv) (snd kv) = Some s1" "ok_state s1" "room s1 = room s"
    by (rule put_obtain)
  then have IH: "map_of (rev kvs @ contents s1) k = Some v" using Cons.IH [of s1] Cons.prems by auto
  show ?case
  proof (cases "map_of (rev kvs) k")
    case None
    with IH have "map_of (contents s1) k = Some v" by (simp add: map_add_def)
    with put_lookup_only [OF _ _ s1(1), of k v] Cons.prems(1,2) None show ?thesis
      by (cases kv) (auto simp: map_add_def split: if_splits)
  qed (use IH in \<open>simp add: map_add_def\<close>)
qed simp

end

section \<open>Page cache\<close>

record 'm linked_hash_map =
  lhm_new :: 'm
  lhm_remove :: "'m \<Rightarrow> string \<Rightarrow> 'm \<times> byte list option"
  lhm_insert :: "'m \<Rightarrow> string \<Rightarrow> byte list \<Rightarrow> 'm"
  lhm_pop_front :: "'m \<Rightarrow> 'm \<times> (string \<times> byte list) option"
  lhm_get :: "'m \<Rightarrow> string \<Rightarrow> byte list option"
  lhm_len :: "'m \<Rightarrow> nat"

record 'm page_cache =
  max_bytes :: u64
  page_size_bytes :: nat
  used_bytes :: u64
  page_entries :: 'm

definition page_cache_default :: "'m linked_hash_map \<Rightarrow> 'm page_cache" where
  "page_cache_default h =
     \<lparr>max_bytes = 256 * 1024 * 1024, page_size_bytes = 128 * 1024, used_bytes = 0, page_entries = lhm_new h\<rparr>"

definition with_capacity :: "'m linked_hash_map \<Rightarrow> u64 \<Rightarrow> nat \<Rightarrow> 'm page_cache" where
  "with_capacity h mx page_size =
     (page_cache_default h)\<lparr>max_bytes := mx, page_size_bytes := page_size\<rparr>"

text \<open>The eviction loop; \<open>None\<close> is a loop that does not end.\<close>

partial_function (option) evict_pages :: "'m linked_hash_map \<Rightarrow> 'm page_cache \<Rightarrow> 'm page_cache option" where
  "evict_pages h self =
     (if used_bytes self > max_bytes self then
        (case lhm_pop_front h (page_entries self) of
           (m, None) \<Rightarrow> Some (self\<lparr>page_entries := m\<rparr>)
         | (m, Some (_, removed)) \<Rightarrow>
             evict_pages h (self\<lparr>page_entries := m,
               used_bytes := saturating_sub (used_bytes self) (of_nat (length removed))\<rparr>))
      else Some self)"

definition page_put ::
  "'m linked_hash_map \<Rightarrow> 'm page_cache \<Rightarrow> string \<Rightarrow> byte list \<Rightarrow> 'm page_cache option" where
  "page_put h self key data =
     (let (m, previous) = lhm_remove h (page_entries self) key;
          self = self\<lparr>page_entries := m\<rparr>;
          self = (case previous of
              Some p \<Rightarrow> self\<lparr>used_bytes := saturating_sub (used_bytes self) (of_nat (length p))\<rparr>
            | None \<Rightarrow> self);
          self = self\<lparr>used_bytes := used_bytes self + of_nat (length data)\<rparr>;
          self = self\<lparr>page_entries := lhm_insert h (page_entries self) key data\<rparr>
      in evict_pages h self)"

definition page_get :: "'m linked_hash_map \<Rightarrow> 'm page_cache \<Rightarrow> string \<Rightarrow> byte list option" where
  "page_get h self key = lhm_get h (page_entries self) key"

definition entry_count :: "'m linked_hash_map \<Rightarrow> 'm page_cache \<Rightarrow> nat" where
  "entry_count h self = lhm_len h (page_entries self)"

definition set_max_bytes :: "'m linked_hash_map \<Rightarrow> 'm page_cache \<Rightarrow> u64 \<Rightarrow> 'm page_cache option" where
  "set_max_bytes h self mx = evict_pages h (self\<lparr>max_bytes := mx\<rparr>)"

definition set_page_size_bytes :: "'m page_cache \<Rightarrow> nat \<Rightarrow> 'm page_cache" where
  "set_page_size_bytes self n = self\<lparr>page_size_bytes := n\<rparr>"

section \<open>Staging cache\<close>

record staging_cache =
  max_open_files :: nat
  files :: "string \<rightharpoonup> byte list"
  open_order :: "string list"

definition staging_default :: staging_cache where
  "staging_default = \<lparr>max_open_files = 64, files = Map.empty, open_order = []\<rparr>"

fun evict_staged :: "nat \<Rightarrow> (string \<rightharpoonup> byte list) \<Rightarrow> string list \<Rightarrow> (string \<rightharpoonup> byte list) \<times> string list" where
  "evict_staged mx fs [] = (fs, [])"
| "evict_staged mx fs (oldest # order) =
     (if card (dom fs) > mx then evict_staged mx (fs(oldest := None)) order else (fs, oldest # order))"

definition stage :: "staging_cache \<Rightarrow> string \<Rightarrow> byte list \<Rightarrow> staging_cache" where
  "stage self path bytes =
     (let order = (if files self path \<noteq> None then filter (\<lambda>entry. entry \<noteq> path) (open_order self)
            else open_order self);
          order = order @ [path];
          fs = (files self)(path \<mapsto> bytes);
          (fs, order) = evict_staged (max_open_files self) fs order
      in self\<lparr>files := fs, open_order := order\<rparr>)"

definition staging_get :: "staging_cache \<Rightarrow> string \<Rightarrow> byte list option" where
  "staging_get self path = files self path"

definition staged_count :: "staging_cache \<Rightarrow> nat" where
  "staged_count self = card (dom (files self))"

section \<open>Cache shell\<close>

datatype eviction_policy = SizeBound | AgeBound

record checksum_cache =
  entry_limit :: nat

record 'm cache_shell =
  checksums :: checksum_cache
  pages :: "'m page_cache"
  staging :: staging_cache
  eviction_policy :: eviction_policy

definition cache_shell_default :: "'m linked_hash_map \<Rightarrow> 'm cache_shell" where
  "cache_shell_default h =
     \<lparr>checksums = \<lparr>entry_limit = 8192\<rparr>, pages = page_cache_default h, staging = staging_default,
      eviction_policy = SizeBound\<rparr>"

definition cache_page ::
  "'m linked_hash_map \<Rightarrow> 'm cache_shell \<Rightarrow> string \<Rightarrow> byte list \<Rightarrow> 'm cache_shell option" where
  "cache_page h self key data =
     Option.bind (page_put h (pages self) key data) (\<lambda>p. Some (self\<lparr>pages := p\<rparr>))"

definition stage_file :: "'m cache_shell \<Rightarrow> string \<Rightarrow> byte list \<Rightarrow> 'm cache_shell" where
  "stage_file self path data = self\<lparr>staging := stage (staging self) path data\<rparr>"

section \<open>The page cache is a first-in first-out cache\<close>

text \<open>Documented behaviour of \<open>LinkedHashMap\<close>: a map that lists its entries in
  insertion order.\<close>

locale linked_map =
  fixes h :: "'m linked_hash_map" and entries :: "'m \<Rightarrow> (string \<times> byte list) list"
  assumes entries_new: "entries (lhm_new h) = []"
    and entries_distinct: "distinct (map fst (entries m))"
    and entries_remove: "lhm_remove h m k = (m', r) \<Longrightarrow>
          entries m' = without k (entries m) \<and> r = map_of (entries m) k"
    and entries_insert: "map_of (entries m) k = None \<Longrightarrow> entries (lhm_insert h m k v) = entries m @ [(k, v)]"
    and entries_pop: "lhm_pop_front h m = (m', x) \<Longrightarrow>
          entries m' = tl (entries m) \<and> x = (case entries m of [] \<Rightarrow> None | e # _ \<Rightarrow> Some e)"
    and entries_get: "lhm_get h m k = map_of (entries m) k"
    and entries_len: "lhm_len h m = length (entries m)"

definition bytes_in :: "(string \<times> byte list) list \<Rightarrow> nat" where
  "bytes_in es = sum_list (map (length \<circ> snd) es)"

lemma bytes_in_simps [simp]:
  "bytes_in [] = 0" "bytes_in (e # es) = length (snd e) + bytes_in es"
  "bytes_in (es @ fs) = bytes_in es + bytes_in fs"
  by (simp_all add: bytes_in_def)

lemma bytes_in_without:
  "distinct (map fst es) \<Longrightarrow>
     bytes_in es = bytes_in (without k es) + (case map_of es k of Some v \<Rightarrow> length v | None \<Rightarrow> 0)"
proof (induction es)
  case (Cons e es)
  show ?case
  proof (cases "fst e = k")
    case True
    with Cons.prems have "without k es = es" by (intro filter_True) (auto simp: image_iff)
    with True show ?thesis by (cases e) simp
  qed (use Cons in \<open>auto simp: eq_commute [of k]\<close>)
qed simp

text \<open>The accounting of a page cache is exact and its bound is kept.\<close>

definition pages_exact :: "('m \<Rightarrow> (string \<times> byte list) list) \<Rightarrow> 'm page_cache \<Rightarrow> bool" where
  "pages_exact entries self \<longleftrightarrow> unat (used_bytes self) = bytes_in (entries (page_entries self))"

abbreviation page_contents :: "('m \<Rightarrow> (string \<times> byte list) list) \<Rightarrow> 'm page_cache \<Rightarrow> (string \<times> byte list) list" where
  "page_contents entries self \<equiv> entries (page_entries self)"

abbreviation pages_fit :: "'m page_cache \<Rightarrow> (string \<times> byte list) list \<Rightarrow> bool" where
  "pages_fit self es \<equiv> bytes_in es \<le> unat (max_bytes self)"

abbreviation pages_room :: "'m page_cache \<Rightarrow> byte list \<Rightarrow> bool" where
  "pages_room self data \<equiv> unat (max_bytes self) + length data < 2 ^ 64"

lemma unat_sub_length:
  "length d \<le> unat (x :: u64) \<Longrightarrow> unat (saturating_sub x (of_nat (length d))) = unat x - length d"
  using unsigned_less [of x, where 'a = nat] by (simp add: unat_saturating_sub unat_of_nat)

context linked_map
begin

lemma evict_pages_fit:
  assumes "pages_exact entries s"
  shows "\<exists>s'. evict_pages h s = Some s' \<and> pages_exact entries s' \<and> max_bytes s' = max_bytes s
    \<and> page_size_bytes s' = page_size_bytes s
    \<and> page_contents entries s' = fit (pages_fit s) (page_contents entries s)"
  using assms
proof (induction "page_contents entries s" arbitrary: s)
  case Nil
  then have "\<not> used_bytes s > max_bytes s" by (simp add: pages_exact_def word_less_nat_alt flip: Nil.hyps)
  then have "evict_pages h s = Some s" by (subst evict_pages.simps) simp
  with Nil show ?case by (metis fit.simps(1))
next
  case (Cons e es)
  note es = Cons.hyps(2) [symmetric]
  show ?case
  proof (cases "used_bytes s > max_bytes s")
    case True
    obtain m x where pop: "lhm_pop_front h (page_entries s) = (m, x)" by fastforce
    with entries_pop [OF pop] es have m: "entries m = es" and x: "x = Some e" by simp_all
    let ?s = "s\<lparr>page_entries := m, used_bytes := saturating_sub (used_bytes s) (of_nat (length (snd e)))\<rparr>"
    have ev: "evict_pages h s = evict_pages h ?s"
      by (subst evict_pages.simps) (simp add: True pop x case_prod_unfold)
    have "pages_exact entries ?s" using Cons.prems es by (simp add: pages_exact_def m unat_sub_length)
    moreover have "es = page_contents entries ?s" by (simp add: m)
    ultimately obtain s' where "evict_pages h ?s = Some s'" "pages_exact entries s'" "max_bytes s' = max_bytes s"
      "page_size_bytes s' = page_size_bytes s" "page_contents entries s' = fit (pages_fit s) es"
      using Cons.hyps(1) [of ?s] by auto
    moreover have "fit (pages_fit s) (e # es) = fit (pages_fit s) es"
      using True Cons.prems es by (simp add: pages_exact_def word_less_nat_alt)
    ultimately show ?thesis using ev es by auto
  next
    case False
    then have "evict_pages h s = Some s" by (subst evict_pages.simps) simp
    moreover have "fit (pages_fit s) (page_contents entries s) = page_contents entries s"
      using False Cons.prems by (intro fit_id) (simp add: pages_exact_def word_less_nat_alt not_less)
    ultimately show ?thesis using Cons.prems by simp
  qed
qed

lemma page_put_fit:
  assumes "pages_exact entries s" and "pages_fit s (page_contents entries s)" and "pages_room s data"
  shows "\<exists>s'. page_put h s key data = Some s' \<and> pages_exact entries s' \<and> max_bytes s' = max_bytes s
    \<and> page_size_bytes s' = page_size_bytes s
    \<and> page_contents entries s' = fit (pages_fit s) (without key (page_contents entries s) @ [(key, data)])"
proof -
  obtain m prev where rm: "lhm_remove h (page_entries s) key = (m, prev)" by fastforce
  let ?es = "page_contents entries s"
  have m: "entries m = without key ?es" and prev: "prev = map_of ?es key" using entries_remove [OF rm] by simp_all
  define u where "u = (case prev of Some p \<Rightarrow> saturating_sub (used_bytes s) (of_nat (length p)) | None \<Rightarrow> used_bytes s)"
  have u: "unat u = bytes_in (without key ?es)"
    using assms(1) bytes_in_without [OF entries_distinct, of "page_entries s" key]
    by (auto simp: u_def prev pages_exact_def unat_sub_length split: option.splits)
  let ?s = "s\<lparr>used_bytes := u + of_nat (length data), page_entries := lhm_insert h m key data\<rparr>"
  have put: "page_put h s key data = evict_pages h ?s"
    by (cases prev) (simp_all add: page_put_def rm u_def)
  have new: "page_contents entries ?s = without key ?es @ [(key, data)]"
    using entries_insert [of m key data] by (simp add: m map_of_eq_None_iff image_iff)
  have "bytes_in (without key ?es) \<le> unat (max_bytes s)"
    using assms(2) bytes_in_without [OF entries_distinct, of "page_entries s" key] by simp
  then have "unat u + length data < 2 ^ 64" using u assms(3) by simp
  then have "unat (u + of_nat (length data)) = unat u + length data"
    by (simp add: unat_word_ariths unat_of_nat)
  then have "pages_exact entries ?s" using new by (simp add: pages_exact_def u)
  from evict_pages_fit [OF this] show ?thesis unfolding put new by simp
qed

end

sublocale linked_map \<subseteq> pages: fifo_cache "page_put h" "page_contents entries"
  "\<lambda>s. pages_exact entries s \<and> pages_fit s (page_contents entries s)" pages_fit pages_room
proof
  fix s v k
  assume s: "pages_exact entries s \<and> pages_fit s (page_contents entries s)" and room: "pages_room s v"
  obtain s' where s': "page_put h s k v = Some s'" "pages_exact entries s'" "max_bytes s' = max_bytes s"
    "page_contents entries s' = fit (pages_fit s) (without k (page_contents entries s) @ [(k, v)])"
    using page_put_fit [OF conjunct1 [OF s] conjunct2 [OF s] room] by metis
  moreover have "pages_fit s' (page_contents entries s')"
    unfolding s'(3,4) by (rule fit_ok [of "pages_fit s"]) simp
  ultimately show "\<exists>s'. page_put h s k v = Some s' \<and>
      (pages_exact entries s' \<and> pages_fit s' (page_contents entries s')) \<and>
      page_contents entries s' = fit (pages_fit s) (without k (page_contents entries s) @ [(k, v)])
        \<and> pages_fit s' = pages_fit s \<and> pages_room s' = pages_room s"
    by auto
qed (simp_all add: entries_distinct)

context linked_map
begin

lemmas page_lookup_same = pages.put_lookup_same and page_lookup_only = pages.put_lookup_only
  and page_puts_lookup = pages.puts_lookup

end

text \<open>Lowering the bound evicts from the front just as a put does.\<close>

lemma set_max_bytes_fit:
  assumes "linked_map h entries" and "pages_exact entries s"
  shows "\<exists>s'. set_max_bytes h s mx = Some s' \<and> pages_exact entries s' \<and> max_bytes s' = mx
    \<and> page_contents entries s' = fit (\<lambda>es. bytes_in es \<le> unat mx) (page_contents entries s)"
  using linked_map.evict_pages_fit [OF assms(1), of "s\<lparr>max_bytes := mx\<rparr>"] assms(2)
  by (auto simp: set_max_bytes_def pages_exact_def)

text \<open>Putting a page ends, whatever the page cache holds; afterwards the cache
  holds the longest suffix of the insertion order, with the new page last,
  that fits the byte bound, and its byte count is exact.  A page that is not
  larger than the bound can be read back, and every other page that can be
  read is the one that could be read before.\<close>

theorem page_cache_put:
  assumes "linked_map h entries" and "pages_exact entries s" and "pages_fit s (page_contents entries s)"
    and "pages_room s data"
  shows "\<exists>s'. page_put h s key data = Some s'
    \<and> page_contents entries s' = fit (pages_fit s) (without key (page_contents entries s) @ [(key, data)])
    \<and> unat (used_bytes s') = bytes_in (page_contents entries s') \<and> used_bytes s' \<le> max_bytes s
    \<and> (length data \<le> unat (max_bytes s) \<longrightarrow> page_get h s' key = Some data)
    \<and> (\<forall>k v. k \<noteq> key \<longrightarrow> page_get h s' k = Some v \<longrightarrow> page_get h s k = Some v)"
proof -
  note lm = assms(1)
  have ok: "pages_exact entries s \<and> pages_fit s (page_contents entries s)" using assms(2,3) by simp
  obtain s' where s': "page_put h s key data = Some s'" "pages_exact entries s'" "max_bytes s' = max_bytes s"
    "page_contents entries s' = fit (pages_fit s) (without key (page_contents entries s) @ [(key, data)])"
    using linked_map.page_put_fit [OF lm assms(2-4)] by metis
  have "bytes_in (page_contents entries s') \<le> unat (max_bytes s)"
    unfolding s'(4) by (rule fit_ok [of "pages_fit s"]) simp
  moreover have "page_get h s' key = Some data" if "length data \<le> unat (max_bytes s)"
    using linked_map.page_lookup_same [OF lm ok assms(4) _ s'(1)] that
    by (simp add: page_get_def linked_map.entries_get [OF lm])
  moreover have "page_get h s k = Some v" if "k \<noteq> key" "page_get h s' k = Some v" for k v
    using linked_map.page_lookup_only [OF lm ok assms(4) s'(1), of k v] that
    by (simp add: page_get_def linked_map.entries_get [OF lm])
  ultimately show ?thesis using s' by (auto simp: pages_exact_def word_le_nat_alt)
qed

text \<open>A linked hash map as the list of its entries; of a list with repeated keys
  the first entry of each key counts.\<close>

definition list_hash_map :: "(string \<times> byte list) list linked_hash_map" where
  "list_hash_map =
     \<lparr>lhm_new = [], lhm_remove = (\<lambda>es k. (without k (AList.clearjunk es), map_of es k)),
      lhm_insert = (\<lambda>es k v. without k (AList.clearjunk es) @ [(k, v)]),
      lhm_pop_front = (\<lambda>es. (tl (AList.clearjunk es),
        case AList.clearjunk es of [] \<Rightarrow> None | e # _ \<Rightarrow> Some e)),
      lhm_get = map_of, lhm_len = (\<lambda>es. length (AList.clearjunk es))\<rparr>"

interpretation list_map: linked_map list_hash_map AList.clearjunk
proof
  fix m m' :: "(string \<times> byte list) list" and k r x v
  have d: "distinct (map fst (AList.clearjunk m))" by (rule distinct_clearjunk)
  have w: "distinct (map fst (without k (AList.clearjunk m)))" using d by (rule distinct_map_filter)
  show "AList.clearjunk m' = without k (AList.clearjunk m) \<and> r = map_of (AList.clearjunk m) k"
    if "lhm_remove list_hash_map m k = (m', r)"
    using that distinct_clearjunk_id [OF w] by (auto simp: list_hash_map_def map_of_clearjunk)
  show "AList.clearjunk (lhm_insert list_hash_map m k v) = AList.clearjunk m @ [(k, v)]"
    if "map_of (AList.clearjunk m) k = None"
  proof -
    from that have n: "k \<notin> fst ` set (AList.clearjunk m)" by (simp add: map_of_eq_None_iff)
    then have e: "without k (AList.clearjunk m) = AList.clearjunk m" by (intro filter_True) (auto simp: image_iff)
    have "distinct (map fst (AList.clearjunk m @ [(k, v)]))" using d n by simp
    from distinct_clearjunk_id [OF this] show ?thesis by (simp add: list_hash_map_def e)
  qed
  have t: "distinct (map fst (tl (AList.clearjunk m)))" using d by (simp add: map_tl distinct_tl)
  show "AList.clearjunk m' = tl (AList.clearjunk m)
      \<and> x = (case AList.clearjunk m of [] \<Rightarrow> None | e # _ \<Rightarrow> Some e)"
    if "lhm_pop_front list_hash_map m = (m', x)"
    using that distinct_clearjunk_id [OF t] by (auto simp: list_hash_map_def)
qed (simp_all add: list_hash_map_def distinct_clearjunk map_of_clearjunk)

theorem page_cache_put_witness:
  "\<exists>s'. page_put list_hash_map (with_capacity list_hash_map 5 4096) ''a'' [1, 2, 3] = Some s'
    \<and> page_get list_hash_map s' ''a'' = Some [1, 2, 3]"
  using page_cache_put [OF list_map.linked_map_axioms,
      of "with_capacity list_hash_map 5 4096" "[1, 2, 3]" "''a''"]
  by (auto simp: with_capacity_def page_cache_default_def pages_exact_def list_map.entries_new)

section \<open>The staging cache is a first-in first-out cache\<close>

definition staging_inv :: "staging_cache \<Rightarrow> bool" where
  "staging_inv s \<longleftrightarrow>
     distinct (open_order s) \<and> dom (files s) = set (open_order s) \<and> length (open_order s) \<le> max_open_files s"

definition staged :: "staging_cache \<Rightarrow> (string \<times> byte list) list" where
  "staged s = map (\<lambda>p. (p, the (files s p))) (open_order s)"

lemma fit_map_length: "fit (\<lambda>xs. length xs \<le> n) (map f xs) = map f (fit (\<lambda>xs. length xs \<le> n) xs)"
  by (induction xs) simp_all

lemma evict_staged_fit:
  assumes "distinct order" and "dom fs = set order"
  shows "evict_staged mx fs order =
    (fs |` set (fit (\<lambda>xs. length xs \<le> mx) order), fit (\<lambda>xs. length xs \<le> mx) order)"
  using assms
proof (induction order arbitrary: fs)
  case (Cons p order)
  have card: "card (dom fs) = length (p # order)" using Cons.prems distinct_card by metis
  have dom: "dom (fs(p := None)) = set order" using Cons.prems by auto
  have sub: "set (fit (\<lambda>xs. length xs \<le> mx) order) \<subseteq> set order"
    using fit_suffix [of "\<lambda>xs. length xs \<le> mx" order] set_drop_subset by metis
  then have rest: "fs(p := None) |` set (fit (\<lambda>xs. length xs \<le> mx) order) = fs |` set (fit (\<lambda>xs. length xs \<le> mx) order)"
    using Cons.prems(1) by (auto simp: restrict_map_def fun_eq_iff)
  have id: "fs |` set (p # order) = fs"
    unfolding Cons.prems(2) [symmetric] by (rule ext) (simp add: restrict_map_def domIff)
  show ?case
  proof (cases "length (p # order) \<le> mx")
    case True
    with card id show ?thesis by simp
  next
    case False
    have "evict_staged mx fs (p # order) = evict_staged mx (fs(p := None)) order" using card False by simp
    also have "\<dots> = (fs |` set (fit (\<lambda>xs. length xs \<le> mx) order), fit (\<lambda>xs. length xs \<le> mx) order)"
      using Cons.IH [OF _ dom] Cons.prems(1) unfolding rest by fastforce
    finally show ?thesis using False by simp
  qed
qed (simp add: restrict_map_def fun_eq_iff)

lemma stage_fit:
  assumes "staging_inv s"
  shows "staging_inv (stage s p v) \<and>
    staged (stage s p v) = fit (\<lambda>xs. length xs \<le> max_open_files s) (without p (staged s) @ [(p, v)])"
proof -
  let ?ok = "\<lambda>xs :: string list. length xs \<le> max_open_files s"
  let ?order = "filter (\<lambda>entry. entry \<noteq> p) (open_order s) @ [p]"
  let ?kept = "fit ?ok ?order" and ?fs = "(files s)(p \<mapsto> v)"
  from assms have inv: "distinct (open_order s)" "dom (files s) = set (open_order s)"
    by (simp_all add: staging_inv_def)
  have order: "(if files s p \<noteq> None then filter (\<lambda>entry. entry \<noteq> p) (open_order s) else open_order s) @ [p] = ?order"
  proof (cases "files s p = None")
    case True
    with inv(2) have "p \<notin> set (open_order s)" by (auto simp flip: inv(2))
    then have "filter (\<lambda>entry. entry \<noteq> p) (open_order s) = open_order s" by (intro filter_True) auto
    with True show ?thesis by simp
  qed simp
  have d: "distinct ?order" "dom ?fs = set ?order" using inv by auto
  have st: "stage s p v = s\<lparr>files := ?fs |` set ?kept, open_order := ?kept\<rparr>"
    unfolding stage_def Let_def order by (simp add: evict_staged_fit [OF d])
  obtain n where n: "?kept = drop n ?order" using fit_suffix [of ?ok] by blast
  have kept: "distinct ?kept" "set ?kept \<subseteq> set ?order" using d(1) unfolding n by (metis distinct_drop, metis set_drop_subset)
  have "?ok ?kept" by (rule fit_ok) simp
  then have "staging_inv (stage s p v)" using kept d(2) by (auto simp: st staging_inv_def)
  moreover have "staged (stage s p v) = map (\<lambda>q. (q, the (?fs q))) ?kept"
    by (auto simp: st staged_def)
  moreover have "map (\<lambda>q. (q, the (?fs q))) ?order = without p (staged s) @ [(p, v)]"
    by (auto simp: staged_def filter_map o_def)
  ultimately show ?thesis
    using fit_map_length [of "max_open_files s" "\<lambda>q. (q, the (?fs q))" ?order] by argo
qed

interpretation stages: fifo_cache "\<lambda>s p v. Some (stage s p v)" staged staging_inv
  "\<lambda>s es. length es \<le> max_open_files s" "\<lambda>_ _. True"
proof
  fix s p v assume "staging_inv s"
  moreover have "max_open_files (stage s p v) = max_open_files s" by (simp add: stage_def Let_def case_prod_unfold)
  ultimately show "\<exists>s'. Some (stage s p v) = Some s' \<and> staging_inv s' \<and>
      staged s' = fit (\<lambda>es. length es \<le> max_open_files s) (without p (staged s) @ [(p, v)]) \<and>
      (\<lambda>es. length es \<le> max_open_files s') = (\<lambda>es. length es \<le> max_open_files s) \<and> (\<lambda>_. True) = (\<lambda>_. True)"
    using stage_fit by simp
qed (auto simp: staging_inv_def staged_def o_def)

lemma staging_get_staged: "staging_inv s \<Longrightarrow> staging_get s p = map_of (staged s) p"
proof -
  assume "staging_inv s"
  then have "map_of (staged s) p = (if p \<in> set (open_order s) then Some (the (files s p)) else None)"
    by (simp add: staged_def map_of_map_restrict restrict_map_def o_def)
  with \<open>staging_inv s\<close> show ?thesis
    by (cases "files s p") (auto simp: staging_inv_def staging_get_def simp flip: domIff)
qed

text \<open>A staged buffer can be read back at once, and a later read returns it until
  it is staged again or evicted, never another buffer.\<close>

lemma staging_last_wins:
  assumes "staging_inv s" and "staging_get (foldl (\<lambda>s (p, v). stage s p v) s kvs) p = Some v"
  shows "map_of (rev kvs @ staged s) p = Some v"
proof -
  have puts: "stages.puts s kvs = Some (foldl (\<lambda>s (p, v). stage s p v) s kvs)" for s
    by (induction kvs arbitrary: s) (auto simp: case_prod_unfold)
  obtain s' where "stages.puts s kvs = Some s'" "staging_inv s'"
    using stages.puts_total [OF assms(1)] by auto
  with puts [of s] have "staging_inv (foldl (\<lambda>s (p, v). stage s p v) s kvs)" by simp
  from assms(2) [unfolded staging_get_staged [OF this]]
  show ?thesis using stages.puts_lookup [OF assms(1) _ puts] by simp
qed

end
