(* ===== verification/Bytes.thy ===== *)
theory Bytes
  imports Prelude
begin

text \<open>
  Byte-level parts of Rust's standard library: \<open>as_bytes\<close>, \<open>to_le_bytes\<close> and
  \<open>from_le_bytes\<close>, \<open>u64\<close> values assembled byte by byte, and
  \<open>String::from_utf8_lossy\<close>.  A \<open>u8\<close> is \<^typ>\<open>8 word\<close>; a \<open>String\<close> is the list of its
  UTF-8 bytes as characters.
\<close>

section \<open>Strings as bytes\<close>

definition byte_of_char :: "char \<Rightarrow> byte" where
  "byte_of_char c = of_nat (of_char c)"

definition char_of_byte :: "byte \<Rightarrow> char" where
  "char_of_byte b = char_of (unat b)"

definition as_bytes :: "string \<Rightarrow> byte list" where
  "as_bytes s = map byte_of_char s"

definition of_bytes :: "byte list \<Rightarrow> string" where
  "of_bytes bs = map char_of_byte bs"

lemma char_of_byte_of_char [simp]: "char_of_byte (byte_of_char c) = c"
  by (simp add: char_of_byte_def byte_of_char_def unat_of_nat)

lemma byte_of_char_of_byte [simp]: "byte_of_char (char_of_byte b) = b"
proof -
  have "unat b < 256" using unsigned_less [of b, where 'a = nat] by simp
  then show ?thesis by (simp add: char_of_byte_def byte_of_char_def of_char_mod_256 flip: word_unat_eq_iff)
qed

lemma of_bytes_as_bytes [simp]: "of_bytes (as_bytes s) = s"
  by (simp add: of_bytes_def as_bytes_def o_def)

lemma as_bytes_of_bytes [simp]: "as_bytes (of_bytes bs) = bs"
  by (simp add: of_bytes_def as_bytes_def o_def)

lemma length_as_bytes [simp]: "length (as_bytes s) = length s" "length (of_bytes bs) = length bs"
  by (simp_all add: as_bytes_def of_bytes_def)

lemma as_bytes_append [simp]: "as_bytes (s @ t) = as_bytes s @ as_bytes t"
  by (simp add: as_bytes_def)

section \<open>Little-endian integers\<close>

fun le_bytes :: "nat \<Rightarrow> nat \<Rightarrow> byte list" where
  "le_bytes 0 x = []"
| "le_bytes (Suc n) x = of_nat x # le_bytes n (x div 256)"

fun le_nat :: "byte list \<Rightarrow> nat" where
  "le_nat [] = 0"
| "le_nat (b # bs) = unat b + 256 * le_nat bs"

text \<open>\<open>w.to_le_bytes()\<close>, for an integer of \<open>n\<close> bytes.\<close>

definition to_le_bytes :: "'a::len word \<Rightarrow> byte list" where
  "to_le_bytes w = le_bytes (LENGTH('a) div 8) (unat w)"

definition from_le_bytes :: "byte list \<Rightarrow> 'a::len word" where
  "from_le_bytes bs = of_nat (le_nat bs)"

lemma length_le_bytes [simp]: "length (le_bytes n x) = n"
  by (induction n arbitrary: x) simp_all

lemma le_nat_bound: "le_nat bs < 256 ^ length bs"
proof (induction bs)
  case (Cons b bs)
  have "unat b < 256" using unsigned_less [of b, where 'a = nat] by simp
  then have "unat b + 256 * le_nat bs < 256 * (le_nat bs + 1)" by simp
  also have "\<dots> \<le> 256 * 256 ^ length bs" using Cons by (intro mult_le_mono) simp_all
  finally show ?case by simp
qed simp

lemma le_nat_le_bytes: "le_nat (le_bytes n x) = x mod 256 ^ n"
proof (induction n arbitrary: x)
  case (Suc n)
  have "unat (of_nat x :: byte) = x mod 256" by (simp add: unat_of_nat)
  then show ?case by (simp add: Suc mod_mult2_eq mult.commute)
qed simp

lemma le_bytes_le_nat: "le_bytes (length bs) (le_nat bs) = bs"
proof (induction bs)
  case (Cons b bs)
  have b: "unat b < 256" using unsigned_less [of b, where 'a = nat] by simp
  then have "(of_nat (unat b + 256 * le_nat bs) :: byte) = b"
    by (simp add: word_unat_eq_iff unat_of_nat del: of_nat_add of_nat_mult)
  with Cons b show ?case by simp
qed simp

lemma le_nat_append: "le_nat (xs @ ys) = le_nat xs + 256 ^ length xs * le_nat ys"
  by (induction xs) (simp_all add: algebra_simps)

lemma length_to_le_bytes [simp]:
  "length (to_le_bytes (w :: 16 word)) = 2" "length (to_le_bytes (v :: 32 word)) = 4"
  "length (to_le_bytes (u :: 64 word)) = 8"
  by (simp_all add: to_le_bytes_def)

lemma from_to_le_bytes: "8 dvd LENGTH('a) \<Longrightarrow> from_le_bytes (to_le_bytes (w :: 'a::len word)) = w"
proof -
  assume "8 dvd LENGTH('a)"
  then have "LENGTH('a) = 8 * (LENGTH('a) div 8)" by simp
  then have "(256 :: nat) ^ (LENGTH('a) div 8) = 2 ^ LENGTH('a)"
    using power_mult [of "2 :: nat" 8 "LENGTH('a) div 8"] by simp
  then show ?thesis
    using unsigned_less [of w, where 'a = nat]
    by (simp add: from_le_bytes_def to_le_bytes_def le_nat_le_bytes)
qed

lemma unat_of_nat_small: "n < 2 ^ LENGTH('a) \<Longrightarrow> unat (of_nat n :: 'a::len word) = n"
  by (simp add: unat_of_nat)

lemma le_nat_to_le_bytes: "8 dvd LENGTH('a) \<Longrightarrow> le_nat (to_le_bytes (w :: 'a::len word)) = unat w"
proof -
  assume "8 dvd LENGTH('a)"
  then have "(256 :: nat) ^ (LENGTH('a) div 8) = 2 ^ LENGTH('a)"
    using power_mult [of "2 :: nat" 8 "LENGTH('a) div 8"] by simp
  then show ?thesis
    using unsigned_less [of w, where 'a = nat] by (simp add: to_le_bytes_def le_nat_le_bytes)
qed

lemma take_drop_append:
  "length xs = n \<Longrightarrow> take n (xs @ ys) = xs" "length xs = n \<Longrightarrow> drop n (xs @ ys) = ys"
  by simp_all

section \<open>Bits of small numbers\<close>

lemma bit_nat_less: "bit (n :: nat) i \<Longrightarrow> n < 2 ^ k \<Longrightarrow> i < k"
  by (metis bit_take_bit_iff take_bit_nat_eq_self)

lemma bit_word_less: "bit (w :: 'a::len word) i \<Longrightarrow> unat w < 2 ^ k \<Longrightarrow> i < k"
  using bit_nat_less [of "unat w" i k] by (simp add: bit_unsigned_iff)

lemma byte_masks: "(0x3F :: byte) = mask 6" "(0x7F :: byte) = mask 7"
  by (simp_all add: mask_eq_exp_minus_1)

lemma bit_128: "bit (128 :: byte) i \<longleftrightarrow> i = 7" "bit (128 :: int) i \<longleftrightarrow> i = 7"
  using bit_exp_iff [of 7 i, where 'a = "8 word"] bit_exp_iff [of 7 i, where 'a = int] by auto

section \<open>UTF-8\<close>

definition is_cont :: "byte \<Rightarrow> bool" where
  "is_cont b \<longleftrightarrow> 0x80 \<le> b \<and> b \<le> 0xBF"

definition utf8_char_width :: "byte \<Rightarrow> nat" where
  "utf8_char_width b =
     (if b < 0x80 then 1 else if 0xC2 \<le> b \<and> b \<le> 0xDF then 2
      else if 0xE0 \<le> b \<and> b \<le> 0xEF then 3 else if 0xF0 \<le> b \<and> b \<le> 0xF4 then 4 else 0)"

text \<open>The byte at an index, or 0 beyond the end.\<close>

definition safe_get :: "byte list \<Rightarrow> nat \<Rightarrow> byte" where
  "safe_get bs i = (if i < length bs then bs ! i else 0)"

definition second_ok :: "byte \<Rightarrow> byte \<Rightarrow> bool" where
  "second_ok b c \<longleftrightarrow>
     (if b = 0xE0 then 0xA0 \<le> c \<and> c \<le> 0xBF
      else if b = 0xED then 0x80 \<le> c \<and> c \<le> 0x9F
      else if b = 0xF0 then 0x90 \<le> c \<and> c \<le> 0xBF
      else if b = 0xF4 then 0x80 \<le> c \<and> c \<le> 0x8F
      else 0x80 \<le> c \<and> c \<le> 0xBF)"

text \<open>One step of the lossy decoder: how many bytes it takes, and whether they are
  a character.\<close>

definition utf8_step :: "byte list \<Rightarrow> nat \<times> bool" where
  "utf8_step bs =
     (let b = safe_get bs 0 in
      case utf8_char_width b of
        0 \<Rightarrow> (1, False)
      | Suc 0 \<Rightarrow> (1, True)
      | Suc (Suc 0) \<Rightarrow> if is_cont (safe_get bs 1) then (2, True) else (1, False)
      | Suc (Suc (Suc 0)) \<Rightarrow>
          if \<not> second_ok b (safe_get bs 1) then (1, False)
          else if is_cont (safe_get bs 2) then (3, True) else (2, False)
      | _ \<Rightarrow>
          if \<not> second_ok b (safe_get bs 1) then (1, False)
          else if \<not> is_cont (safe_get bs 2) then (2, False)
          else if is_cont (safe_get bs 3) then (4, True) else (3, False))"

lemma utf8_step_pos: "0 < fst (utf8_step bs)"
  by (auto simp: utf8_step_def Let_def split: nat.splits)

definition REPLACEMENT :: "byte list" where
  "REPLACEMENT = [0xEF, 0xBF, 0xBD]"

function utf8_lossy :: "byte list \<Rightarrow> byte list" where
  "utf8_lossy bs =
     (if bs = [] then []
      else (case utf8_step bs of
        (n, ok) \<Rightarrow> (if ok then take n bs else REPLACEMENT) @ utf8_lossy (drop n bs)))"
  by auto
termination
proof (relation "measure length")
  fix bs :: "byte list" and n ok
  assume "bs \<noteq> []" "(n, ok) = utf8_step bs"
  then show "(drop n bs, bs) \<in> measure length" using utf8_step_pos [of bs] by (metis diff_less fst_conv in_measure length_drop length_greater_0_conv)
qed simp

function utf8_valid :: "byte list \<Rightarrow> bool" where
  "utf8_valid bs =
     (if bs = [] then True else (case utf8_step bs of (n, ok) \<Rightarrow> ok \<and> utf8_valid (drop n bs)))"
  by auto
termination
proof (relation "measure length")
  fix bs :: "byte list" and n ok
  assume "bs \<noteq> []" "(n, ok) = utf8_step bs"
  then show "(drop n bs, bs) \<in> measure length" using utf8_step_pos [of bs] by (metis diff_less fst_conv in_measure length_drop length_greater_0_conv)
qed simp

declare utf8_lossy.simps [simp del] utf8_valid.simps [simp del]

definition from_utf8_lossy :: "byte list \<Rightarrow> string" where
  "from_utf8_lossy bs = of_bytes (utf8_lossy bs)"

text \<open>A \<open>String\<close> holds valid UTF-8.\<close>

definition str_valid :: "string \<Rightarrow> bool" where
  "str_valid s \<longleftrightarrow> utf8_valid (as_bytes s)"

lemma utf8_lossy_valid: "utf8_valid bs \<Longrightarrow> utf8_lossy bs = bs"
proof (induction bs rule: utf8_valid.induct)
  case (1 bs)
  show ?case
  proof (cases "bs = []")
    case False
    obtain n ok where st: "utf8_step bs = (n, ok)" by fastforce
    with "1.prems" False have "ok" "utf8_valid (drop n bs)" by (auto simp: utf8_valid.simps [of bs])
    with "1.IH" [OF False st [symmetric]] st False show ?thesis by (subst utf8_lossy.simps) simp
  qed (simp add: utf8_lossy.simps)
qed

lemma from_utf8_lossy_valid [simp]: "str_valid s \<Longrightarrow> from_utf8_lossy (as_bytes s) = s"
  by (simp add: from_utf8_lossy_def str_valid_def utf8_lossy_valid)

text \<open>A lossy conversion at most triples the length.\<close>

lemma length_utf8_lossy: "length (utf8_lossy bs) \<le> 3 * length bs"
proof (induction bs rule: utf8_lossy.induct)
  case (1 bs)
  show ?case
  proof (cases "bs = []")
    case False
    obtain n ok where st: "utf8_step bs = (n, ok)" by fastforce
    have n: "0 < n" using utf8_step_pos [of bs] st by simp
    have "length (utf8_lossy (drop n bs)) \<le> 3 * length (drop n bs)"
      using "1.IH" [OF False st [symmetric]] .
    moreover have "length (if ok then take n bs else REPLACEMENT) \<le> 3 * min n (length bs)"
      using n False by (cases bs) (auto simp: REPLACEMENT_def min_def)
    ultimately show ?thesis using False st by (subst utf8_lossy.simps) (auto simp: min_def split: if_splits)
  qed (simp add: utf8_lossy.simps)
qed

end
