(* ===== verification/Wire.thy ===== *)
theory Wire
  imports Bytes
begin

text \<open>
  The binary API of the pCloud server: request frames
  (\<open>pcloud-proto/src/binary_api.rs\<close>) and the parser of response frames
  (\<open>response.rs\<close>).  The parser's cursor into the frame and its table of reused
  strings are threaded through the definitions; the recursion ends because the
  nesting depth and the lengths of arrays and hashes are limited.
\<close>

unbundle bit_operations_syntax

section \<open>Request frames\<close>

definition MAX_REQUEST_FRAME_LEN :: nat where
  "MAX_REQUEST_FRAME_LEN = 65535"

definition MAX_PARAM_NAME_LEN :: nat where
  "MAX_PARAM_NAME_LEN = 63"

definition MAX_RESPONSE_FRAME_LEN :: nat where
  "MAX_RESPONSE_FRAME_LEN = 256 * 1024 * 1024"

record request_frame =
  command :: string
  parameter_count :: nat

datatype binary_param_value = PString string | PNumber u64 | PBool bool

record binary_param =
  bp_name :: string
  bp_value :: binary_param_value

record encoded_request =
  er_frame :: request_frame
  er_params :: "binary_param list"
  er_bytes :: "byte list"

datatype frame_parse_error =
    CommandTooLong
  | ParamNameTooLong string
  | RequestTooLarge
  | TruncatedResponseHeader
  | ResponseTooLarge u32

fun value_size :: "binary_param_value \<Rightarrow> nat" where
  "value_size (PString v) = 4 + length v"
| "value_size (PNumber _) = 8"
| "value_size (PBool _) = 1"

fun payload_size :: "nat \<Rightarrow> binary_param list \<Rightarrow> (frame_parse_error, nat) result" where
  "payload_size payload_len [] = Ok payload_len"
| "payload_size payload_len (param # params) =
     (if length (bp_name param) > MAX_PARAM_NAME_LEN then Err (ParamNameTooLong (bp_name param))
      else payload_size (payload_len + (1 + length (bp_name param)) + value_size (bp_value param)) params)"

fun param_type :: "binary_param_value \<Rightarrow> byte" where
  "param_type (PString _) = 0"
| "param_type (PNumber _) = 1"
| "param_type (PBool _) = 2"

fun encode_value :: "binary_param_value \<Rightarrow> byte list" where
  "encode_value (PString v) = to_le_bytes (of_nat (length v) :: u32) @ as_bytes v"
| "encode_value (PNumber v) = to_le_bytes v"
| "encode_value (PBool v) = [if v then 1 else 0]"

definition encode_param :: "binary_param \<Rightarrow> byte list" where
  "encode_param param =
     (push_bit 6 (param_type (bp_value param)) OR of_nat (length (bp_name param)))
       # as_bytes (bp_name param) @ encode_value (bp_value param)"

definition encode_request ::
  "string \<Rightarrow> binary_param list \<Rightarrow> u64 option \<Rightarrow> (frame_parse_error, encoded_request) result" where
  "encode_request cmd params raw_body_len =
     (if length cmd > 255 then Err CommandTooLong
      else
        let cmd_len = (of_nat (length cmd) :: byte) in
        case payload_size (length cmd + 2 + (if raw_body_len \<noteq> None then 8 else 0)) params of
          Inl e \<Rightarrow> Err e
        | Inr payload_len \<Rightarrow>
            if payload_len + 2 > MAX_REQUEST_FRAME_LEN then Err RequestTooLarge
            else Ok
              \<lparr>er_frame = \<lparr>command = cmd, parameter_count = length params\<rparr>, er_params = params,
               er_bytes = to_le_bytes (of_nat payload_len :: 16 word)
                 @ [if raw_body_len \<noteq> None then cmd_len OR 0x80 else cmd_len]
                 @ (case raw_body_len of Some n \<Rightarrow> to_le_bytes n | None \<Rightarrow> [])
                 @ as_bytes cmd
                 @ [if length params \<le> 255 then of_nat (length params) else 255]
                 @ concat (map encode_param params)\<rparr>)"

definition parse_response_frame_len :: "byte list \<Rightarrow> (frame_parse_error, u32) result" where
  "parse_response_frame_len header =
     (if length header < 4 then Err TruncatedResponseHeader
      else
        let len = from_le_bytes (take 4 header) :: u32 in
        if unat len > MAX_RESPONSE_FRAME_LEN then Err (ResponseTooLarge len) else Ok len)"

section \<open>Response frames\<close>

datatype wire_value =
    VString string
  | VNumber u64
  | VBool bool
  | VArray "wire_value list"
  | VHash "(string \<times> wire_value) list"
  | VData u64

record parse_limits =
  max_frame_len :: nat
  max_depth :: nat
  max_array_len :: nat
  max_hash_len :: nat
  max_string_len :: nat
  max_reused_strings :: nat

definition parse_limits_default :: parse_limits where
  "parse_limits_default =
     \<lparr>max_frame_len = 1024 * 1024, max_depth = 32, max_array_len = 4096, max_hash_len = 4096,
      max_string_len = 64 * 1024, max_reused_strings = 4096\<rparr>"

datatype response_parse_error =
    TruncatedFrame
  | FrameTooLarge
  | UnexpectedEof
  | InvalidTag byte
  | NestingLimitExceeded
  | ArrayLimitExceeded
  | HashLimitExceeded
  | StringTooLarge
  | InvalidReuseReference nat
  | InvalidHashKeyType
  | TrailingBytes

definition read_u8 :: "byte list \<Rightarrow> nat \<Rightarrow> (response_parse_error, byte \<times> nat) result" where
  "read_u8 bytes cursor =
     (if cursor < length bytes then Ok (bytes ! cursor, cursor + 1) else Err UnexpectedEof)"

definition peek_u8 :: "byte list \<Rightarrow> nat \<Rightarrow> (response_parse_error, byte) result" where
  "peek_u8 bytes cursor = (if cursor < length bytes then Ok (bytes ! cursor) else Err UnexpectedEof)"

text \<open>The loop \<open>value |= byte << (idx * 8)\<close>.\<close>

fun or_bytes :: "nat \<Rightarrow> byte list \<Rightarrow> u64 \<Rightarrow> u64" where
  "or_bytes idx [] v = v"
| "or_bytes idx (b # bs) v = or_bytes (idx + 1) bs (v OR push_bit (idx * 8) (ucast b))"

definition read_var_u64 :: "byte list \<Rightarrow> nat \<Rightarrow> nat \<Rightarrow> (response_parse_error, u64 \<times> nat) result" where
  "read_var_u64 bytes cursor len =
     (if len = 0 \<or> len > 8 then Err UnexpectedEof
      else if cursor + len > length bytes then Err UnexpectedEof
      else Ok (or_bytes 0 (take len (drop cursor bytes)) 0, cursor + len))"

definition read_var_u32 :: "byte list \<Rightarrow> nat \<Rightarrow> nat \<Rightarrow> (response_parse_error, u32 \<times> nat) result" where
  "read_var_u32 bytes cursor len =
     (case read_var_u64 bytes cursor len of Inl e \<Rightarrow> Err e | Inr (v, cursor) \<Rightarrow> Ok (ucast v, cursor))"

type_synonym 'a parsed = "(response_parse_error, 'a \<times> nat \<times> string list) result"

definition read_string ::
  "byte list \<Rightarrow> parse_limits \<Rightarrow> nat \<Rightarrow> nat \<Rightarrow> string list \<Rightarrow> wire_value parsed" where
  "read_string bytes limits string_len cursor reused =
     (if string_len > max_string_len limits then Err StringTooLarge
      else if cursor + string_len > length bytes then Err UnexpectedEof
      else
        let v = from_utf8_lossy (take string_len (drop cursor bytes)) in
        Ok (VString v, cursor + string_len,
            if length reused < max_reused_strings limits then reused @ [v] else reused))"

definition reuse_string :: "nat \<Rightarrow> nat \<Rightarrow> string list \<Rightarrow> wire_value parsed" where
  "reuse_string n cursor reused =
     (if n < length reused then Ok (VString (reused ! n), cursor, reused) else Err (InvalidReuseReference n))"

text \<open>The tags that do not start an array or a hash.\<close>

definition parse_scalar ::
  "byte list \<Rightarrow> parse_limits \<Rightarrow> byte \<Rightarrow> nat \<Rightarrow> string list \<Rightarrow> wire_value parsed" where
  "parse_scalar bytes limits tag cursor reused =
     (if tag \<le> 3 then
        (case read_var_u32 bytes cursor (unat tag + 1) of
           Inl e \<Rightarrow> Err e
         | Inr (len, cursor) \<Rightarrow> read_string bytes limits (unat len) cursor reused)
      else if 4 \<le> tag \<and> tag \<le> 7 then
        (case read_var_u32 bytes cursor (unat (tag - 4) + 1) of
           Inl e \<Rightarrow> Err e
         | Inr (n, cursor) \<Rightarrow> reuse_string (unat n) cursor reused)
      else if 8 \<le> tag \<and> tag \<le> 15 then
        (case read_var_u64 bytes cursor (unat (tag - 8) + 1) of
           Inl e \<Rightarrow> Err e
         | Inr (n, cursor) \<Rightarrow> Ok (VNumber n, cursor, reused))
      else if tag = 18 then Ok (VBool False, cursor, reused)
      else if tag = 19 then Ok (VBool True, cursor, reused)
      else if tag = 20 then
        (case read_var_u64 bytes cursor 8 of
           Inl e \<Rightarrow> Err e
         | Inr (n, cursor) \<Rightarrow> Ok (VData n, cursor, reused))
      else if 100 \<le> tag \<and> tag \<le> 149 then
        read_string bytes limits (unat (tag - 100)) cursor reused
      else if 150 \<le> tag \<and> tag \<le> 199 then reuse_string (unat (tag - 150)) cursor reused
      else if 200 \<le> tag \<and> tag \<le> 219 then Ok (VNumber (ucast (tag - 200)), cursor, reused)
      else Err (InvalidTag tag))"

function (sequential)
  parse_value :: "byte list \<Rightarrow> parse_limits \<Rightarrow> nat \<Rightarrow> nat \<Rightarrow> string list \<Rightarrow> wire_value parsed" and
  parse_array :: "byte list \<Rightarrow> parse_limits \<Rightarrow> nat \<Rightarrow> wire_value list \<Rightarrow> nat \<Rightarrow> string list \<Rightarrow> wire_value parsed" and
  parse_hash :: "byte list \<Rightarrow> parse_limits \<Rightarrow> nat \<Rightarrow> (string \<times> wire_value) list \<Rightarrow> nat \<Rightarrow> string list \<Rightarrow>
    wire_value parsed"
where
  "parse_value bytes limits depth cursor reused =
     (if depth > max_depth limits then Err NestingLimitExceeded
      else (case read_u8 bytes cursor of
        Inl e \<Rightarrow> Err e
      | Inr (tag, cursor') \<Rightarrow>
          if tag = 16 then parse_hash bytes limits (depth + 1) [] cursor' reused
          else if tag = 17 then parse_array bytes limits (depth + 1) [] cursor' reused
          else parse_scalar bytes limits tag cursor' reused))"
| "parse_array bytes limits depth vs cursor reused =
     (case peek_u8 bytes cursor of
        Inl e \<Rightarrow> Err e
      | Inr b \<Rightarrow>
          if b = 255 then Ok (VArray vs, cursor + 1, reused)
          else if length vs \<ge> max_array_len limits then Err ArrayLimitExceeded
          else (case parse_value bytes limits depth cursor reused of
            Inl e \<Rightarrow> Err e
          | Inr (v, cursor', reused') \<Rightarrow> parse_array bytes limits depth (vs @ [v]) cursor' reused'))"
| "parse_hash bytes limits depth vs cursor reused =
     (case peek_u8 bytes cursor of
        Inl e \<Rightarrow> Err e
      | Inr b \<Rightarrow>
          if b = 255 then Ok (VHash vs, cursor + 1, reused)
          else if length vs \<ge> max_hash_len limits then Err HashLimitExceeded
          else (case parse_value bytes limits depth cursor reused of
            Inl e \<Rightarrow> Err e
          | Inr (VString key, cursor', reused') \<Rightarrow>
              (case parse_value bytes limits depth cursor' reused' of
                 Inl e \<Rightarrow> Err e
               | Inr (v, cursor'', reused'') \<Rightarrow>
                   parse_hash bytes limits depth (vs @ [(key, v)]) cursor'' reused'')
          | Inr (_, cursor', reused') \<Rightarrow> Err InvalidHashKeyType))"
  by pat_completeness auto
termination
proof (relation "inv_image (less_than <*lex*> less_than <*lex*> less_than)
    (\<lambda>x. case x of
       Inl (bytes, limits, depth, cursor, reused) \<Rightarrow> (Suc (max_depth limits) - depth, 0, 0)
     | Inr (Inl (bytes, limits, depth, vs, cursor, reused)) \<Rightarrow>
         (Suc (max_depth limits) - depth, 1, max_array_len limits - length vs)
     | Inr (Inr (bytes, limits, depth, vs, cursor, reused)) \<Rightarrow>
         (Suc (max_depth limits) - depth, 1, max_hash_len limits - length vs))")
qed (auto simp: wf_lex_prod)

declare parse_value.simps [simp del] parse_array.simps [simp del] parse_hash.simps [simp del]

definition parse_response_frame :: "byte list \<Rightarrow> parse_limits \<Rightarrow> (response_parse_error, wire_value) result" where
  "parse_response_frame bytes limits =
     (if length bytes < 4 then Err TruncatedFrame
      else
        let frame_len = unat (from_le_bytes (take 4 bytes) :: u32) in
        if frame_len > max_frame_len limits then Err FrameTooLarge
        else if length bytes < 4 + frame_len then Err TruncatedFrame
        else (case parse_value bytes limits 0 4 [] of
          Inl e \<Rightarrow> Err e
        | Inr (v, cursor, _) \<Rightarrow> if cursor \<noteq> 4 + frame_len then Err TrailingBytes else Ok v))"

section \<open>Typed access\<close>

fun as_hash :: "wire_value \<Rightarrow> (string \<times> wire_value) list option" where
  "as_hash (VHash vs) = Some vs"
| "as_hash _ = None"

fun as_string :: "wire_value \<Rightarrow> string option" where
  "as_string (VString s) = Some s"
| "as_string _ = None"

fun as_number :: "wire_value \<Rightarrow> u64 option" where
  "as_number (VNumber n) = Some n"
| "as_number (VData n) = Some n"
| "as_number _ = None"

fun as_bool :: "wire_value \<Rightarrow> bool option" where
  "as_bool (VBool b) = Some b"
| "as_bool _ = None"

fun as_array :: "wire_value \<Rightarrow> wire_value list option" where
  "as_array (VArray vs) = Some vs"
| "as_array _ = None"

definition hash_get :: "(string \<times> wire_value) list \<Rightarrow> string \<Rightarrow> wire_value option" where
  "hash_get self key = map_option snd (find (\<lambda>(candidate, _). candidate = key) self)"

definition get_string :: "(string \<times> wire_value) list \<Rightarrow> string \<Rightarrow> string option" where
  "get_string self key = Option.bind (hash_get self key) as_string"

definition get_number :: "(string \<times> wire_value) list \<Rightarrow> string \<Rightarrow> u64 option" where
  "get_number self key = Option.bind (hash_get self key) as_number"

definition get_bool :: "(string \<times> wire_value) list \<Rightarrow> string \<Rightarrow> bool option" where
  "get_bool self key = Option.bind (hash_get self key) as_bool"

definition get_hash :: "(string \<times> wire_value) list \<Rightarrow> string \<Rightarrow> (string \<times> wire_value) list option" where
  "get_hash self key = Option.bind (hash_get self key) as_hash"

definition get_array :: "(string \<times> wire_value) list \<Rightarrow> string \<Rightarrow> wire_value list option" where
  "get_array self key = Option.bind (hash_get self key) as_array"

lemma hash_get_map_of: "hash_get self key = map_of self key"
  by (induction self) (auto simp: hash_get_def)

section \<open>Requests can be read back\<close>

text \<open>The request format, read from the documentation of the wire layout.\<close>

definition decode_value :: "byte \<Rightarrow> byte list \<Rightarrow> (binary_param_value \<times> byte list) option" where
  "decode_value t bs =
     (if t = 0 then
        (if length bs < 4 then None
         else let n = le_nat (take 4 bs); bs = drop 4 bs in
           if length bs < n then None else Some (PString (of_bytes (take n bs)), drop n bs))
      else if t = 1 then
        (if length bs < 8 then None else Some (PNumber (from_le_bytes (take 8 bs)), drop 8 bs))
      else if t = 2 then
        (case bs of [] \<Rightarrow> None | b # bs \<Rightarrow> Some (PBool (b \<noteq> 0), bs))
      else None)"

definition decode_param :: "byte list \<Rightarrow> (binary_param \<times> byte list) option" where
  "decode_param bs =
     (case bs of
        [] \<Rightarrow> None
      | h # bs \<Rightarrow>
          let n = unat (h AND 0x3F) in
          if length bs < n then None
          else (case decode_value (drop_bit 6 h) (drop n bs) of
            None \<Rightarrow> None
          | Some (v, rest) \<Rightarrow> Some (\<lparr>bp_name = of_bytes (take n bs), bp_value = v\<rparr>, rest)))"

fun decode_params :: "nat \<Rightarrow> byte list \<Rightarrow> binary_param list option" where
  "decode_params 0 bs = (if bs = [] then Some [] else None)"
| "decode_params (Suc k) bs =
     (case decode_param bs of
        None \<Rightarrow> None
      | Some (param, rest) \<Rightarrow> map_option (Cons param) (decode_params k rest))"

definition decode_body :: "byte \<Rightarrow> byte list \<Rightarrow> (u64 option \<times> byte list) option" where
  "decode_body h bs =
     (if bit h 7 then (if length bs < 8 then None else Some (Some (from_le_bytes (take 8 bs)), drop 8 bs))
      else Some (None, bs))"

definition decode_request :: "byte list \<Rightarrow> (string \<times> u64 option \<times> binary_param list) option" where
  "decode_request bs =
     (if length bs < 3 \<or> le_nat (take 2 bs) + 2 \<noteq> length bs then None
      else
        let h = bs ! 2; n = unat (h AND 0x7F) in
        case decode_body h (drop 3 bs) of
          None \<Rightarrow> None
        | Some (body, bs) \<Rightarrow>
            if length bs < n + 1 then None
            else map_option (\<lambda>params. (of_bytes (take n bs), body, params))
                   (decode_params (unat (bs ! n)) (drop (n + 1) bs)))"

lemma param_header:
  assumes "n < 64"
  shows "(push_bit 6 t OR of_nat n) AND 0x3F = (of_nat n :: byte)"
    and "unat t < 4 \<Longrightarrow> drop_bit 6 (push_bit 6 t OR of_nat n) = (t :: byte)"
proof -
  show "(push_bit 6 t OR of_nat n) AND 0x3F = (of_nat n :: byte)"
    unfolding byte_masks using assms
    by (intro bit_word_eqI) (auto simp: bit_simps dest: bit_nat_less [of _ _ 6])
  show "unat t < 4 \<Longrightarrow> drop_bit 6 (push_bit 6 t OR of_nat n) = (t :: byte)"
    using assms
    by (intro bit_word_eqI) (auto simp: bit_simps dest: bit_nat_less [of _ _ 6] bit_word_less [of _ _ 2])
qed

lemma command_header:
  assumes "n < 128"
  shows "(of_nat n OR 0x80) AND 0x7F = (of_nat n :: byte)" and "of_nat n AND 0x7F = (of_nat n :: byte)"
    and "bit (of_nat n OR 0x80 :: byte) 7" and "\<not> bit (of_nat n :: byte) 7"
proof -
  have bits: "bit (of_nat n :: byte) i \<longleftrightarrow> i < 7 \<and> bit n i" for i
    using assms bit_nat_less [of n i 7] by (auto simp: bit_simps)
  show "(of_nat n OR 0x80) AND 0x7F = (of_nat n :: byte)" and "of_nat n AND 0x7F = (of_nat n :: byte)"
    unfolding byte_masks(2) by (rule bit_word_eqI, auto simp: bit_or_iff bit_and_iff bit_mask_iff bits bit_128)+
  show "bit (of_nat n OR 0x80 :: byte) 7" and "\<not> bit (of_nat n :: byte) 7"
    by (simp_all add: bit_or_iff bits bit_128)
qed

lemma decode_encode_value:
  "value_size v \<le> 65535 \<Longrightarrow> decode_value (param_type v) (encode_value v @ rest) = Some (v, rest)"
proof (cases v)
  case (PString t)
  assume "value_size v \<le> 65535"
  with PString have "unat (of_nat (length t) :: u32) = length t" by (simp add: unat_of_nat_small)
  then show ?thesis by (simp add: PString decode_value_def le_nat_to_le_bytes Let_def)
next
  case (PNumber n)
  then show ?thesis by (simp add: decode_value_def from_to_le_bytes)
qed (simp add: decode_value_def)

lemma length_encode_value [simp]: "length (encode_value v) = value_size v"
  by (cases v) simp_all

lemma decode_encode_param:
  assumes "length (bp_name p) \<le> MAX_PARAM_NAME_LEN" and "value_size (bp_value p) \<le> 65535"
  shows "decode_param (encode_param p @ rest) = Some (p, rest)"
proof -
  have n: "length (bp_name p) < 64" using assms(1) by (simp add: MAX_PARAM_NAME_LEN_def)
  have t: "unat (param_type (bp_value p)) < 4" by (cases "bp_value p") simp_all
  define h where "h = (push_bit 6 (param_type (bp_value p)) OR of_nat (length (bp_name p)))"
  have "unat (h AND 0x3F) = length (bp_name p)" and "drop_bit 6 h = param_type (bp_value p)"
    using n param_header [OF n] t unfolding h_def by (simp_all add: unat_of_nat_small del: drop_bit_or)
  then show ?thesis
    using assms(2) by (simp add: decode_param_def encode_param_def decode_encode_value Let_def flip: h_def)
qed

lemma payload_size_Ok:
  "payload_size n ps = Inr m \<Longrightarrow>
     (\<forall>p \<in> set ps. length (bp_name p) \<le> MAX_PARAM_NAME_LEN \<and> value_size (bp_value p) \<le> m)
     \<and> m = n + length (concat (map encode_param ps))"
proof (induction n ps rule: payload_size.induct)
  case (2 n p ps)
  let ?n = "n + (1 + length (bp_name p)) + value_size (bp_value p)"
  from "2.prems" have le: "length (bp_name p) \<le> MAX_PARAM_NAME_LEN" and rec: "payload_size ?n ps = Inr m"
    by (simp_all split: if_splits)
  from "2.IH" [OF _ rec] le show ?case by (auto simp: encode_param_def)
qed simp

lemma decode_encode_params:
  assumes "\<forall>p \<in> set ps. length (bp_name p) \<le> MAX_PARAM_NAME_LEN \<and> value_size (bp_value p) \<le> 65535"
  shows "decode_params (length ps) (concat (map encode_param ps)) = Some ps"
  using assms by (induction ps) (simp_all add: decode_encode_param)

text \<open>C24: an encoded request can be read back: the length prefix counts the bytes
  that follow, and the documented layout yields the command, the length of the
  raw body and the parameters, in order, provided the command and the number
  of parameters fit their one-byte fields.\<close>

theorem encode_request_roundtrip:
  assumes "encode_request cmd params body = Ok r" and "length cmd \<le> 127" and "length params \<le> 255"
  shows "decode_request (er_bytes r) = Some (cmd, body, params)
    \<and> le_nat (take 2 (er_bytes r)) + 2 = length (er_bytes r)
    \<and> length (er_bytes r) \<le> MAX_REQUEST_FRAME_LEN"
proof -
  let ?n = "length cmd + 2 + (if body \<noteq> None then 8 else 0)"
  from assms(1) obtain m where m: "payload_size ?n params = Inr m" and small: "m + 2 \<le> MAX_REQUEST_FRAME_LEN"
    and r: "er_bytes r = to_le_bytes (of_nat m :: 16 word)
       @ [if body \<noteq> None then of_nat (length cmd) OR 0x80 else of_nat (length cmd)]
       @ (case body of Some n \<Rightarrow> to_le_bytes n | None \<Rightarrow> [])
       @ as_bytes cmd @ [of_nat (length params)] @ concat (map encode_param params)"
    using assms(2,3) by (auto simp: encode_request_def Let_def split: sum.splits if_splits)
  note ps = payload_size_Ok [OF m]
  have len: "length (er_bytes r) = m + 2" using ps by (cases body) (simp_all add: r)
  have prefix: "le_nat (take 2 (er_bytes r)) = m"
    using small by (simp add: r le_nat_to_le_bytes unat_of_nat_small MAX_REQUEST_FRAME_LEN_def)
  have params: "decode_params (length params) (concat (map encode_param params)) = Some params"
    using ps small by (intro decode_encode_params) (fastforce simp: MAX_REQUEST_FRAME_LEN_def)
  have "decode_request (er_bytes r) = Some (cmd, body, params)"
  proof (cases body)
    case None
    with r have "er_bytes r = to_le_bytes (of_nat m :: 16 word) @ of_nat (length cmd) # as_bytes cmd
        @ of_nat (length params) # concat (map encode_param params)" by simp
    then show ?thesis
      using len prefix params None assms(2,3) command_header [of "length cmd"]
      by (simp add: decode_request_def decode_body_def Let_def nth_append unat_of_nat_small)
  next
    case (Some n)
    with r have "er_bytes r = to_le_bytes (of_nat m :: 16 word) @ (of_nat (length cmd) OR 0x80)
        # to_le_bytes n @ as_bytes cmd @ of_nat (length params) # concat (map encode_param params)" by simp
    then show ?thesis
      using len prefix params Some assms(2,3) command_header [of "length cmd"]
      by (simp add: decode_request_def decode_body_def Let_def nth_append unat_of_nat_small from_to_le_bytes)
  qed
  with prefix len small show ?thesis by simp
qed

theorem encode_request_roundtrip_witness:
  "\<exists>r. encode_request ''ls'' [\<lparr>bp_name = ''r'', bp_value = PBool True\<rparr>] (Some 7) = Ok r
    \<and> decode_request (er_bytes r) = Some (''ls'', Some 7, [\<lparr>bp_name = ''r'', bp_value = PBool True\<rparr>])"
proof -
  obtain r where r: "encode_request ''ls'' [\<lparr>bp_name = ''r'', bp_value = PBool True\<rparr>] (Some 7) = Ok r"
    by (simp add: encode_request_def MAX_PARAM_NAME_LEN_def MAX_REQUEST_FRAME_LEN_def)
  from encode_request_roundtrip [OF r] r show ?thesis by simp
qed

text \<open>The two provisos are not checked by the encoder: a command of 128 bytes is
  accepted, its length sets the raw-body flag, and its frame cannot be read
  back.\<close>

theorem long_command_accepted:
  "\<exists>r. encode_request (replicate 128 (CHR ''a'')) [] None = Ok r
    \<and> decode_request (er_bytes r) \<noteq> Some (replicate 128 (CHR ''a''), None, [])"
proof -
  let ?cmd = "replicate 128 (CHR ''a'')"
  obtain r where r: "encode_request ?cmd [] None = Ok r"
    by (simp add: encode_request_def MAX_REQUEST_FRAME_LEN_def)
  then have "er_bytes r = to_le_bytes (of_nat 130 :: 16 word) @ [128] @ as_bytes ?cmd @ [0]"
    by (auto simp: encode_request_def Let_def split: if_splits)
  then have "er_bytes r ! 2 = 128" by (simp add: nth_append)
  then have "decode_request (er_bytes r) \<noteq> Some (c, None, ps)" for c ps
    by (auto simp: decode_request_def decode_body_def bit_128 Let_def split: option.splits)
  with r show ?thesis by blast
qed

section \<open>Responses can be read back\<close>

lemma or_bytes_le_nat:
  assumes "unat v < 256 ^ idx" and "idx + length bs \<le> 8"
  shows "unat (or_bytes idx bs v) = unat v + 256 ^ idx * le_nat bs"
  using assms
proof (induction idx bs v rule: or_bytes.induct)
  case (2 idx b bs v)
  have pow: "(256 :: nat) ^ idx = 2 ^ (idx * 8)" using power_mult [of "2 :: nat" 8 idx] by (simp add: mult.commute)
  have b: "unat b < 256" using unsigned_less [of b, where 'a = nat] by simp
  have idx: "idx * 8 + 8 \<le> 64" using "2.prems"(2) by simp
  let ?p = "push_bit (idx * 8) (ucast b :: u64)"
  have bound: "2 ^ (idx * 8) * unat b + 2 ^ (idx * 8) \<le> (2 :: nat) ^ (idx * 8 + 8)"
    using b by (simp add: power_add flip: distrib_left)
  have bound64: "(2 :: nat) ^ (idx * 8 + 8) \<le> 2 ^ 64" using idx by (intro power_increasing) simp_all
  have p: "unat ?p = 2 ^ (idx * 8) * unat b"
  proof -
    have "unat (ucast b :: u64) = unat b" using b by (simp add: unsigned_ucast_eq take_bit_nat_eq_self)
    moreover have "2 ^ (idx * 8) * unat b < (2 :: nat) ^ 64" using bound bound64 zero_less_power [of "2 :: nat" "idx * 8"]
      by linarith
    ultimately show ?thesis by (simp add: unsigned_push_bit_eq push_bit_nat_def take_bit_nat_eq_self mult.commute)
  qed
  have disj: "v OR ?p = v + ?p"
  proof (rule disjunctive_add [symmetric])
    fix i show "\<not> bit v i \<or> \<not> bit ?p i"
      using bit_word_less [of v i "idx * 8"] "2.prems"(1) by (auto simp: pow bit_push_bit_iff)
  qed
  have sum: "unat v + 2 ^ (idx * 8) * unat b < 2 ^ (idx * 8 + 8)" using "2.prems"(1) bound by (simp add: pow)
  then have u: "unat (v OR ?p) = unat v + 2 ^ (idx * 8) * unat b"
    using bound64 p by (simp add: disj unat_word_ariths)
  then have "unat (v OR ?p) < 256 ^ (idx + 1)" using sum by (simp add: pow power_add)
  from "2.IH" [OF this] "2.prems"(2) show ?case by (simp add: u pow algebra_simps)
qed simp

lemma read_var_u64_le:
  assumes "0 < length bs" and "length bs \<le> 8"
  shows "read_var_u64 (pre @ bs @ post) (length pre) (length bs) = Ok (of_nat (le_nat bs), length pre + length bs)"
proof -
  have "unat (or_bytes 0 bs 0) = le_nat bs" using or_bytes_le_nat [of 0 0 bs] assms(2) by simp
  moreover have "or_bytes 0 bs 0 = of_nat (unat (or_bytes 0 bs 0))" by simp
  ultimately have "or_bytes 0 bs 0 = of_nat (le_nat bs)" by simp
  then show ?thesis using assms by (simp add: read_var_u64_def)
qed

text \<open>One encoding of each value: strings with a four-byte length, eight-byte
  numbers, no reused strings.\<close>

definition encode_string :: "string \<Rightarrow> byte list" where
  "encode_string v = 3 # le_bytes 4 (length v) @ as_bytes v"

fun encode_wire :: "wire_value \<Rightarrow> byte list" where
  "encode_wire (VString v) = encode_string v"
| "encode_wire (VNumber n) = 15 # to_le_bytes n"
| "encode_wire (VBool b) = [if b then 19 else 18]"
| "encode_wire (VArray vs) = 17 # concat (map encode_wire vs) @ [255]"
| "encode_wire (VHash kvs) = 16 # concat (map (\<lambda>(k, v). encode_string k @ encode_wire v) kvs) @ [255]"
| "encode_wire (VData n) = 20 # to_le_bytes n"

text \<open>The values the limits admit.\<close>

definition string_ok :: "parse_limits \<Rightarrow> string \<Rightarrow> bool" where
  "string_ok lim v \<longleftrightarrow> length v \<le> max_string_len lim \<and> length v < 2 ^ 32 \<and> str_valid v"

fun value_ok :: "parse_limits \<Rightarrow> nat \<Rightarrow> wire_value \<Rightarrow> bool" where
  "value_ok lim d (VString v) \<longleftrightarrow> d \<le> max_depth lim \<and> string_ok lim v"
| "value_ok lim d (VArray vs) \<longleftrightarrow>
     d \<le> max_depth lim \<and> length vs \<le> max_array_len lim \<and> (\<forall>v \<in> set vs. value_ok lim (d + 1) v)"
| "value_ok lim d (VHash kvs) \<longleftrightarrow>
     d \<le> max_depth lim \<and> length kvs \<le> max_hash_len lim
     \<and> (\<forall>(k, v) \<in> set kvs. d + 1 \<le> max_depth lim \<and> string_ok lim k \<and> value_ok lim (d + 1) v)"
| "value_ok lim d _ \<longleftrightarrow> d \<le> max_depth lim"

lemma encode_wire_head: "\<exists>b bs. encode_wire v = b # bs \<and> b \<noteq> 255"
  by (cases v) (auto simp: encode_string_def)

lemma read_var_u32_le:
  assumes "n < 2 ^ 32"
  shows "read_var_u32 (pre @ le_bytes 4 n @ post) (length pre) 4 = Ok (of_nat n, length pre + 4)"
proof -
  have "read_var_u64 (pre @ le_bytes 4 n @ post) (length pre) 4 = Ok (of_nat (le_nat (le_bytes 4 n)), length pre + 4)"
    using read_var_u64_le [of "le_bytes 4 n" pre post] by simp
  with assms show ?thesis
    by (simp add: read_var_u32_def le_nat_le_bytes word_unat_eq_iff unsigned_ucast_eq unsigned_of_nat
        take_bit_nat_eq_self)
qed

lemma read_number:
  "read_var_u64 (pre @ to_le_bytes n @ post) (length pre) 8 = Ok (n, length pre + 8)"
  using read_var_u64_le [of "to_le_bytes n" pre post] by (simp add: le_nat_to_le_bytes)

lemma parse_string:
  assumes "d \<le> max_depth lim" and "string_ok lim v"
  shows "\<exists>rs'. parse_value (pre @ encode_string v @ post) lim d (length pre) rs
    = Ok (VString v, length pre + length (encode_string v), rs')"
proof -
  let ?pre = "pre @ [3]" and ?bytes = "pre @ encode_string v @ post"
  have bytes: "?bytes = ?pre @ le_bytes 4 (length v) @ as_bytes v @ post" by (simp add: encode_string_def)
  have tag: "read_u8 ?bytes (length pre) = Ok (3, length ?pre)" by (simp add: read_u8_def encode_string_def)
  have len: "read_var_u32 ?bytes (length ?pre) 4 = Ok (of_nat (length v), length ?pre + 4)"
    unfolding bytes using assms(2) by (intro read_var_u32_le) (simp add: string_ok_def)
  have "drop (length ?pre + 4) ?bytes = as_bytes v @ post"
    unfolding bytes by (simp add: encode_string_def)
  then have "read_string ?bytes lim (length v) (length ?pre + 4) rs = Ok (VString v, length ?pre + 4 + length v,
      if length rs < max_reused_strings lim then rs @ [v] else rs)"
    using assms(2) by (simp add: read_string_def string_ok_def encode_string_def Let_def)
  with tag len assms show ?thesis
    by (auto simp: parse_value.simps parse_scalar_def string_ok_def encode_string_def unat_of_nat_small)
qed

lemma parse_array_encoded:
  assumes "\<And>v pre post rs. v \<in> set vs \<Longrightarrow> \<exists>rs'. parse_value (pre @ encode_wire v @ post) lim d (length pre) rs
      = Ok (v, length pre + length (encode_wire v), rs')"
    and "length acc + length vs \<le> max_array_len lim"
  shows "\<exists>rs'. parse_array (pre @ concat (map encode_wire vs) @ 255 # post) lim d acc (length pre) rs
    = Ok (VArray (acc @ vs), length pre + length (concat (map encode_wire vs)) + 1, rs')"
  using assms
proof (induction vs arbitrary: acc pre rs)
  case Nil
  then show ?case by (simp add: parse_array.simps peek_u8_def)
next
  case (Cons v vs)
  let ?bytes = "pre @ concat (map encode_wire (v # vs)) @ 255 # post"
  let ?pre = "pre @ encode_wire v"
  obtain rs1 where v: "parse_value ?bytes lim d (length pre) rs = Ok (v, length ?pre, rs1)"
    using Cons.prems(1) [of v pre "concat (map encode_wire vs) @ 255 # post" rs] by auto
  obtain b bs where "encode_wire v = b # bs" "b \<noteq> 255" using encode_wire_head by blast
  then have peek: "\<exists>b. peek_u8 ?bytes (length pre) = Ok b \<and> b \<noteq> 255" by (simp add: peek_u8_def)
  obtain rs2 where "parse_array (?pre @ concat (map encode_wire vs) @ 255 # post) lim d (acc @ [v]) (length ?pre) rs1
      = Ok (VArray ((acc @ [v]) @ vs), length ?pre + length (concat (map encode_wire vs)) + 1, rs2)"
    using Cons.IH [of "acc @ [v]" ?pre rs1] Cons.prems by force
  with v peek Cons.prems(2) show ?case by (subst parse_array.simps) auto
qed

lemma parse_hash_encoded:
  assumes "\<And>k v pre post rs. (k, v) \<in> set kvs \<Longrightarrow>
      \<exists>rs'. parse_value (pre @ encode_wire v @ post) lim d (length pre) rs
        = Ok (v, length pre + length (encode_wire v), rs')"
    and "\<And>k v. (k, v) \<in> set kvs \<Longrightarrow> string_ok lim k \<and> d \<le> max_depth lim"
    and "length acc + length kvs \<le> max_hash_len lim"
  shows "\<exists>rs'. parse_hash (pre @ concat (map (\<lambda>(k, v). encode_string k @ encode_wire v) kvs) @ 255 # post) lim d acc
      (length pre) rs
    = Ok (VHash (acc @ kvs),
        length pre + length (concat (map (\<lambda>(k, v). encode_string k @ encode_wire v) kvs)) + 1, rs')"
  using assms
proof (induction kvs arbitrary: acc pre rs)
  case Nil
  then show ?case by (simp add: parse_hash.simps peek_u8_def)
next
  case (Cons kv kvs)
  obtain k v where kv: "kv = (k, v)" by fastforce
  let ?rest = "concat (map (\<lambda>(k, v). encode_string k @ encode_wire v) kvs) @ 255 # post"
  let ?bytes = "pre @ encode_string k @ encode_wire v @ ?rest"
  let ?pre = "pre @ encode_string k"
  obtain rs1 where k: "parse_value ?bytes lim d (length pre) rs = Ok (VString k, length ?pre, rs1)"
    using parse_string [of d lim k pre "encode_wire v @ ?rest" rs] Cons.prems(2) [of k v] by (auto simp: kv)
  obtain rs2 where v: "parse_value ?bytes lim d (length ?pre) rs1 = Ok (v, length (?pre @ encode_wire v), rs2)"
    using Cons.prems(1) [of k v ?pre ?rest rs1] by (auto simp: kv)
  have peek: "\<exists>b. peek_u8 ?bytes (length pre) = Ok b \<and> b \<noteq> 255" by (simp add: peek_u8_def encode_string_def)
  obtain rs3 where "parse_hash ((?pre @ encode_wire v) @ ?rest) lim d (acc @ [(k, v)]) (length (?pre @ encode_wire v)) rs2
      = Ok (VHash ((acc @ [(k, v)]) @ kvs), length (?pre @ encode_wire v)
          + length (concat (map (\<lambda>(k, v). encode_string k @ encode_wire v) kvs)) + 1, rs3)"
    using Cons.IH [of "acc @ [(k, v)]" "?pre @ encode_wire v" rs2] Cons.prems by force
  with k v peek Cons.prems(3) show ?case by (subst parse_hash.simps) (auto simp: kv)
qed

lemma parse_encoded:
  "value_ok lim d v \<Longrightarrow>
     \<exists>rs'. parse_value (pre @ encode_wire v @ post) lim d (length pre) rs
       = Ok (v, length pre + length (encode_wire v), rs')"
proof (induction v arbitrary: d pre post rs)
  case (VString t)
  then show ?case using parse_string by simp
next
  case (VNumber n)
  then show ?case using read_number [of "pre @ [15]" n post]
    by (simp add: parse_value.simps read_u8_def parse_scalar_def)
next
  case (VBool b)
  then show ?case by (simp add: parse_value.simps read_u8_def parse_scalar_def)
next
  case (VArray vs)
  have "\<exists>rs'. parse_array ((pre @ [17]) @ concat (map encode_wire vs) @ 255 # post) lim (d + 1) [] (length (pre @ [17])) rs
    = Ok (VArray ([] @ vs), length (pre @ [17]) + length (concat (map encode_wire vs)) + 1, rs')"
    using VArray.prems VArray.IH by (intro parse_array_encoded) auto
  with VArray.prems show ?case by (auto simp: parse_value.simps [of _ _ d] read_u8_def)
next
  case (VHash kvs)
  have "\<exists>rs'. parse_hash ((pre @ [16]) @ concat (map (\<lambda>(k, v). encode_string k @ encode_wire v) kvs) @ 255 # post)
      lim (d + 1) [] (length (pre @ [16])) rs
    = Ok (VHash ([] @ kvs),
        length (pre @ [16]) + length (concat (map (\<lambda>(k, v). encode_string k @ encode_wire v) kvs)) + 1, rs')"
  proof (rule parse_hash_encoded)
    fix k v pre post rs assume "(k, v) \<in> set kvs"
    then show "\<exists>rs'. parse_value (pre @ encode_wire v @ post) lim (d + 1) (length pre) rs
        = Ok (v, length pre + length (encode_wire v), rs')"
      using VHash.IH [of "(k, v)" v "d + 1" pre post rs] VHash.prems by (auto simp: snds.simps)
  qed (use VHash.prems in auto)
  with VHash.prems show ?case by (auto simp: parse_value.simps [of _ _ d] read_u8_def)
next
  case (VData n)
  then show ?case using read_number [of "pre @ [20]" n post]
    by (simp add: parse_value.simps read_u8_def parse_scalar_def)
qed

text \<open>Every value within the limits can be received: the frame that holds its
  encoding, with a four-byte length, parses to that value.\<close>

lemma parse_response_roundtrip:
  assumes "value_ok lim 0 v" and "length (encode_wire v) \<le> max_frame_len lim"
    and "length (encode_wire v) < 2 ^ 32"
  shows "parse_response_frame (le_bytes 4 (length (encode_wire v)) @ encode_wire v) lim = Ok v"
proof -
  let ?n = "length (encode_wire v)"
  have "unat (from_le_bytes (le_bytes 4 ?n) :: u32) = ?n"
    using assms(3) by (simp add: from_le_bytes_def le_nat_le_bytes unat_of_nat_small)
  then show ?thesis
    using parse_encoded [OF assms(1), of "le_bytes 4 ?n" "[]" "[]"] assms(2)
    by (auto simp: parse_response_frame_def Let_def)
qed

section \<open>Hostile frames\<close>

text \<open>What the limits promise of a parsed value, and its number of nodes.  A string
  may be three times as long as its limit, because each invalid byte becomes a
  replacement character of three bytes.\<close>

fun within :: "parse_limits \<Rightarrow> nat \<Rightarrow> wire_value \<Rightarrow> bool" where
  "within lim d (VString v) \<longleftrightarrow> d \<le> max_depth lim \<and> length v \<le> 3 * max_string_len lim"
| "within lim d (VArray vs) \<longleftrightarrow>
     d \<le> max_depth lim \<and> length vs \<le> max_array_len lim \<and> (\<forall>v \<in> set vs. within lim (d + 1) v)"
| "within lim d (VHash kvs) \<longleftrightarrow>
     d \<le> max_depth lim \<and> length kvs \<le> max_hash_len lim
     \<and> (\<forall>(k, v) \<in> set kvs. length k \<le> 3 * max_string_len lim \<and> within lim (d + 1) v)"
| "within lim d _ \<longleftrightarrow> d \<le> max_depth lim"

fun nodes :: "wire_value \<Rightarrow> nat" where
  "nodes (VArray vs) = 1 + sum_list (map nodes vs)"
| "nodes (VHash kvs) = 1 + sum_list (map (\<lambda>(k, v). 1 + nodes v) kvs)"
| "nodes _ = 1"

definition table_ok :: "parse_limits \<Rightarrow> string list \<Rightarrow> bool" where
  "table_ok lim rs \<longleftrightarrow>
     length rs \<le> max_reused_strings lim \<and> (\<forall>t \<in> set rs. length t \<le> 3 * max_string_len lim)"

abbreviation scalar :: "wire_value \<Rightarrow> bool" where
  "scalar v \<equiv> (\<forall>vs. v \<noteq> VArray vs) \<and> (\<forall>kvs. v \<noteq> VHash kvs)"

lemma read_var_bounds:
  "read_var_u64 bytes c n = Inr (v, c') \<Longrightarrow> c < c' \<and> c' \<le> length bytes"
  "read_var_u32 bytes c n = Inr (w, c') \<Longrightarrow> c < c' \<and> c' \<le> length bytes"
  by (auto simp: read_var_u64_def read_var_u32_def split: if_splits sum.splits)

lemma read_string_bounds:
  assumes "read_string bytes lim n c rs = Inr (v, c', rs')" and "table_ok lim rs" and "c \<le> length bytes"
  shows "c \<le> c' \<and> c' \<le> length bytes \<and> table_ok lim rs' \<and> (\<exists>t. v = VString t \<and> length t \<le> 3 * max_string_len lim)"
proof -
  have "length (from_utf8_lossy (take n (drop c bytes))) \<le> 3 * n"
    using length_utf8_lossy [of "take n (drop c bytes)"] by (simp add: from_utf8_lossy_def)
  with assms show ?thesis
    by (auto simp: read_string_def table_ok_def Let_def split: if_splits)
qed

lemma reuse_string_bounds:
  assumes "reuse_string n c rs = Inr (v, c', rs')" and "table_ok lim rs"
  shows "c' = c \<and> rs' = rs \<and> (\<exists>t. v = VString t \<and> length t \<le> 3 * max_string_len lim)"
  using assms by (auto simp: reuse_string_def table_ok_def split: if_splits)

lemma parse_scalar_bounds:
  assumes "parse_scalar bytes lim tag c rs = Inr (v, c', rs')" and "table_ok lim rs" and "c \<le> length bytes"
    and "d \<le> max_depth lim"
  shows "c \<le> c' \<and> c' \<le> length bytes \<and> table_ok lim rs' \<and> within lim d v \<and> nodes v = 1"
proof -
  have leaf: "within lim d v \<and> nodes v = 1" if "\<exists>t. v = VString t \<and> length t \<le> 3 * max_string_len lim"
    using that assms(4) by auto
  show ?thesis
    using assms leaf read_string_bounds [of bytes lim _ _ rs v c' rs'] reuse_string_bounds [of _ _ rs v c' rs' lim]
    by (fastforce simp: parse_scalar_def dest!: read_var_bounds split: if_splits sum.splits)
qed

lemma parse_bounds:
  "parse_value bytes lim d c rs = Inr (v, c', rs') \<Longrightarrow> table_ok lim rs \<Longrightarrow>
     c < c' \<and> c' \<le> length bytes \<and> table_ok lim rs' \<and> within lim d v \<and> nodes v \<le> c' - c"
  "parse_array bytes lim d vs c rs = Inr (v, c', rs') \<Longrightarrow> table_ok lim rs \<Longrightarrow>
     length vs \<le> max_array_len lim \<Longrightarrow> \<forall>x \<in> set vs. within lim d x \<Longrightarrow>
     c < c' \<and> c' \<le> length bytes \<and> table_ok lim rs' \<and>
     (\<exists>ws. v = VArray ws \<and> length ws \<le> max_array_len lim \<and> (\<forall>x \<in> set ws. within lim d x)
        \<and> sum_list (map nodes ws) \<le> sum_list (map nodes vs) + (c' - c))"
  "parse_hash bytes lim d kvs c rs = Inr (v, c', rs') \<Longrightarrow> table_ok lim rs \<Longrightarrow>
     length kvs \<le> max_hash_len lim \<Longrightarrow>
     \<forall>(k, x) \<in> set kvs. length k \<le> 3 * max_string_len lim \<and> within lim d x \<Longrightarrow>
     c < c' \<and> c' \<le> length bytes \<and> table_ok lim rs' \<and>
     (\<exists>ws. v = VHash ws \<and> length ws \<le> max_hash_len lim
        \<and> (\<forall>(k, x) \<in> set ws. length k \<le> 3 * max_string_len lim \<and> within lim d x)
        \<and> sum_list (map (\<lambda>(k, v). 1 + nodes v) ws) \<le> sum_list (map (\<lambda>(k, v). 1 + nodes v) kvs) + (c' - c))"
proof (induction bytes lim d c rs and bytes lim d vs c rs and bytes lim d kvs c rs
    arbitrary: v c' rs' and v c' rs' and v c' rs' rule: parse_value_parse_array_parse_hash.induct)
  case (1 bytes lim d c rs)
  from "1.prems"(1) have d: "\<not> max_depth lim < d" by (auto simp: parse_value.simps [of _ _ d])
  with "1.prems"(1) obtain tag where r: "read_u8 bytes c = Inr (tag, c + 1)" and c: "c + 1 \<le> length bytes"
    by (auto simp: parse_value.simps [of _ _ d] read_u8_def split: if_splits)
  consider "tag = 16" | "tag \<noteq> 16" "tag = 17" | "tag \<noteq> 16" "tag \<noteq> 17" by blast
  then show ?case
  proof cases
    case 1
    with "1.prems" d r have "parse_hash bytes lim (d + 1) [] (c + 1) rs = Inr (v, c', rs')"
      by (simp add: parse_value.simps [of _ _ d])
    from "1.IH"(1) [OF d r refl 1 this "1.prems"(2)] d show ?thesis by auto
  next
    case 2
    with "1.prems" d r have "parse_array bytes lim (d + 1) [] (c + 1) rs = Inr (v, c', rs')"
      by (simp add: parse_value.simps [of _ _ d])
    from "1.IH"(2) [OF d r refl 2 this "1.prems"(2)] d show ?thesis by auto
  next
    case 3
    with "1.prems" d r have "parse_scalar bytes lim tag (c + 1) rs = Inr (v, c', rs')"
      by (simp add: parse_value.simps [of _ _ d])
    from parse_scalar_bounds [OF this "1.prems"(2) c, of d] d show ?thesis by auto
  qed
next
  case (2 bytes lim d vs c rs)
  from "2.prems"(1) obtain b where p: "peek_u8 bytes c = Inr b" and c: "c < length bytes"
    by (auto simp: parse_array.simps [of _ _ _ vs] peek_u8_def split: if_splits)
  show ?case
  proof (cases "b = 255")
    case True
    with p c "2.prems" show ?thesis by (auto simp: parse_array.simps [of _ _ _ vs])
  next
    case False
    with p "2.prems"(1) have n: "\<not> max_array_len lim \<le> length vs" by (auto simp: parse_array.simps [of _ _ _ vs])
    with p False "2.prems"(1) obtain x c1 rs1 where
      x: "parse_value bytes lim d c rs = Inr (x, c1, rs1)" and
      a: "parse_array bytes lim d (vs @ [x]) c1 rs1 = Inr (v, c', rs')"
      by (auto simp: parse_array.simps [of _ _ _ vs] split: sum.splits)
    note h = "2.IH"(1) [OF p False n x "2.prems"(2)]
    from "2.IH"(2) [OF p False n x refl refl a] h n "2.prems"(4)
    show ?thesis by fastforce
  qed
next
  case (3 bytes lim d kvs c rs)
  from "3.prems"(1) obtain b where p: "peek_u8 bytes c = Inr b" and c: "c < length bytes"
    by (auto simp: parse_hash.simps [of _ _ _ kvs] peek_u8_def split: if_splits)
  show ?case
  proof (cases "b = 255")
    case True
    with p c "3.prems" show ?thesis by (auto simp: parse_hash.simps [of _ _ _ kvs])
  next
    case False
    with p "3.prems"(1) have n: "\<not> max_hash_len lim \<le> length kvs" by (auto simp: parse_hash.simps [of _ _ _ kvs])
    with p False "3.prems"(1) obtain k c1 rs1 x c2 rs2 where
      k: "parse_value bytes lim d c rs = Inr (VString k, c1, rs1)" and
      x: "parse_value bytes lim d c1 rs1 = Inr (x, c2, rs2)" and
      a: "parse_hash bytes lim d (kvs @ [(k, x)]) c2 rs2 = Inr (v, c', rs')"
      by (auto simp: parse_hash.simps [of _ _ _ kvs] split: sum.splits wire_value.splits)
    note h = "3.IH"(1) [OF p False n k "3.prems"(2)]
    note h2 = "3.IH"(2) [OF p False n k refl refl refl x]
    from "3.IH"(3) [OF p False n k refl refl refl x refl refl a] h h2 n "3.prems"(4)
    show ?thesis by fastforce
  qed
qed

text \<open>Whatever bytes a server sends, an accepted frame is within the configured
  limits: its length, the nesting depth, the lengths of arrays, hashes and
  strings; the value has no more nodes than the frame has bytes, and the frame
  is consumed exactly.\<close>

theorem parse_response_bounded:
  assumes "parse_response_frame bytes lim = Ok v"
  shows "le_nat (take 4 bytes) \<le> max_frame_len lim \<and> 4 + le_nat (take 4 bytes) \<le> length bytes
    \<and> within lim 0 v \<and> nodes v \<le> le_nat (take 4 bytes)"
proof -
  let ?n = "unat (from_le_bytes (take 4 bytes) :: u32)"
  from assms obtain rs where 4: "4 \<le> length bytes" and n: "?n \<le> max_frame_len lim" "4 + ?n \<le> length bytes"
    and v: "parse_value bytes lim 0 4 [] = Inr (v, 4 + ?n, rs)"
    by (auto simp: parse_response_frame_def Let_def not_less split: if_splits sum.splits)
  have "le_nat (take 4 bytes) < 256 ^ 4" using le_nat_bound [of "take 4 bytes"] 4 by simp
  then have eq: "?n = le_nat (take 4 bytes)" by (simp add: from_le_bytes_def unat_of_nat_small)
  have "table_ok lim []" by (simp add: table_ok_def)
  from parse_bounds(1) [OF v this] n eq show ?thesis by simp
qed

theorem parse_response_bounded_witness:
  "within parse_limits_default 0 (VArray [VBool True])"
proof -
  have "parse_response_frame (le_bytes 4 3 @ encode_wire (VArray [VBool True])) parse_limits_default = Ok (VArray [VBool True])"
    by (simp add: parse_response_frame_def parse_value.simps parse_array.simps read_u8_def peek_u8_def
        parse_scalar_def parse_limits_default_def from_le_bytes_def le_nat_le_bytes nth_append)
  from parse_response_bounded [OF this] show ?thesis by (elim conjE)
qed

section \<open>Receiving a response\<close>

text \<open>The transport (\<open>transport.rs\<close>) reads the header and then the body with a loop
  over \<open>stream.read\<close>.  A stream is the list of what its reads return: bytes, an
  interruption (with the answer to whether the deadline is still ahead) or
  another error; a read at the end of the list, or one that returns no bytes,
  is the end of the stream.\<close>

datatype read_event = Chunk "byte list" | Interrupted bool | Broken

datatype transport_error =
    TransportEof
  | TransportIo
  | ResponseHeader frame_parse_error
  | ResponseBody response_parse_error
  | ResponseOverLimit nat nat

fun read_exact :: "nat \<Rightarrow> byte list \<Rightarrow> read_event list \<Rightarrow> (transport_error, byte list \<times> read_event list) result" where
  "read_exact n buf evs =
     (if n = 0 then Ok (buf, evs)
      else (case evs of
        [] \<Rightarrow> Err TransportEof
      | Chunk bs # evs' \<Rightarrow>
          if bs = [] then Err TransportEof
          else if length bs \<le> n then read_exact (n - length bs) (buf @ bs) evs'
          else Ok (buf @ take n bs, Chunk (drop n bs) # evs')
      | Interrupted in_time # evs' \<Rightarrow> if in_time then read_exact n buf evs' else Err TransportIo
      | Broken # _ \<Rightarrow> Err TransportIo))"

declare read_exact.simps [simp del]

definition receive_response :: "nat \<Rightarrow> read_event list \<Rightarrow> (transport_error, wire_value) result" where
  "receive_response max_response_bytes evs =
     (case read_exact 4 [] evs of
        Inl e \<Rightarrow> Err e
      | Inr (header, evs) \<Rightarrow>
          (case parse_response_frame_len header of
             Inl e \<Rightarrow> Err (ResponseHeader e)
           | Inr len \<Rightarrow>
               let frame_len = unat len in
               if frame_len > max_response_bytes then Err (ResponseOverLimit frame_len max_response_bytes)
               else (case read_exact frame_len [] evs of
                 Inl e \<Rightarrow> Err e
               | Inr (body, _) \<Rightarrow>
                   (case parse_response_frame (header @ body) parse_limits_default of
                      Inl e \<Rightarrow> Err (ResponseBody e)
                    | Inr v \<Rightarrow> Ok v))))"

fun stream_bytes :: "read_event list \<Rightarrow> byte list" where
  "stream_bytes [] = []"
| "stream_bytes (Chunk bs # evs) = bs @ stream_bytes evs"
| "stream_bytes (_ # evs) = stream_bytes evs"

definition smooth :: "read_event list \<Rightarrow> bool" where
  "smooth evs \<longleftrightarrow> Chunk [] \<notin> set evs \<and> Interrupted False \<notin> set evs \<and> Broken \<notin> set evs"

lemma read_exact_smooth:
  assumes "smooth evs" and "n \<le> length (stream_bytes evs)"
  shows "\<exists>evs'. read_exact n buf evs = Ok (buf @ take n (stream_bytes evs), evs') \<and> smooth evs'
    \<and> stream_bytes evs' = drop n (stream_bytes evs)"
  using assms
proof (induction n buf evs rule: read_exact.induct)
  case (1 n buf evs)
  show ?case
  proof (cases "n = 0")
    case True
    with "1.prems" show ?thesis by (subst read_exact.simps) simp
  next
    case n: False
    with "1.prems"(2) obtain ev evs1 where evs: "evs = ev # evs1" by (cases evs) auto
    from "1.prems"(1) have s1: "smooth evs1" by (auto simp: evs smooth_def)
    show ?thesis
    proof (cases ev)
      case (Chunk bs)
      with "1.prems"(1) have bs: "bs \<noteq> []" by (auto simp: evs smooth_def)
      show ?thesis
      proof (cases "length bs \<le> n")
        case True
        with "1.IH"(1) [OF n evs Chunk bs True s1] "1.prems"(2) n bs Chunk
        show ?thesis by (subst read_exact.simps) (auto simp: evs)
      next
        case False
        with "1.prems"(1) n bs Chunk show ?thesis
          by (subst read_exact.simps) (auto simp: evs smooth_def)
      qed
    next
      case (Interrupted in_time)
      with "1.prems"(1) have t: "in_time" by (cases in_time) (auto simp: evs smooth_def)
      with "1.IH"(2) [OF n evs Interrupted t s1] "1.prems"(2) n Interrupted show ?thesis
        by (subst read_exact.simps) (simp add: evs)
    next
      case Broken
      with "1.prems"(1) show ?thesis by (simp add: evs smooth_def)
    qed
  qed
qed



text \<open>The transport announces a cap of 64 MiB, but it parses every response with the
  default limits, whose frame cap is 1 MiB: a longer response is never received.\<close>

lemma read_exact_length: "read_exact n buf evs = Ok (buf', evs') \<Longrightarrow> length buf' = length buf + n"
proof (induction evs arbitrary: n buf)
  case Nil
  then show ?case by (subst (asm) read_exact.simps) (simp split: if_splits)
next
  case (Cons ev evs)
  from Cons.prems show ?case
    by (subst (asm) read_exact.simps)
      (auto split: if_splits read_event.splits dest: Cons.IH)
qed

theorem response_over_1MiB_rejected:
  assumes "receive_response mx evs = Ok v" and "read_exact 4 [] evs = Ok (header, evs1)"
    and "parse_response_frame_len header = Ok len"
  shows "unat len \<le> 1048576"
proof -
  have "length header = 4" using read_exact_length [OF assms(2)] by simp
  with assms(3) have len: "len = from_le_bytes header"
    by (simp add: parse_response_frame_len_def Let_def split: if_splits)
  from assms \<open>length header = 4\<close> show ?thesis unfolding len
    by (auto simp: receive_response_def parse_response_frame_def parse_limits_default_def Let_def
        split: sum.splits prod.splits if_splits)
qed

end
