(* ===== verification/Crypto.thy ===== *)
theory Crypto
  imports Bytes
begin

text \<open>Client-side encryption, the block modes (\<open>pcloud-crypto/src/pclsync_modes.rs\<close>).
  AES-256 and HMAC-SHA-512 come from the crates \<open>aes\<close>, \<open>hmac\<close> and \<open>sha2\<close>; they are the
  parameter \<open>crypto_ops\<close>, and \<open>crypto_laws\<close> is what the code relies on: a block
  cipher under a 32-byte key is a permutation of the 16-byte blocks whose inverse
  is the decryption, and a digest has 64 bytes.  \<open>xor_ops\<close> is an instance that
  shows the laws can hold.\<close>

unbundle bit_operations_syntax

section \<open>Primitives\<close>

record crypto_ops =
  aes_enc :: "byte list \<Rightarrow> byte list \<Rightarrow> byte list"
  aes_dec :: "byte list \<Rightarrow> byte list \<Rightarrow> byte list"
  hmac512 :: "byte list \<Rightarrow> byte list \<Rightarrow> byte list"

definition crypto_laws :: "crypto_ops \<Rightarrow> bool" where
  "crypto_laws ops \<longleftrightarrow>
     (\<forall>key b. length key = 32 \<longrightarrow> length b = 16 \<longrightarrow>
        length (aes_enc ops key b) = 16 \<and> length (aes_dec ops key b) = 16
        \<and> aes_dec ops key (aes_enc ops key b) = b \<and> aes_enc ops key (aes_dec ops key b) = b)
     \<and> (\<forall>key msg. length (hmac512 ops key msg) = 64)"

definition BLOCK :: nat where
  "BLOCK = 16"

fun xor_into :: "byte list \<Rightarrow> byte list \<Rightarrow> byte list" where
  "xor_into (d # dst) (s # src) = (d XOR s) # xor_into dst src"
| "xor_into dst src = dst"

definition xor_ops :: crypto_ops where
  "xor_ops = \<lparr>aes_enc = (\<lambda>key b. xor_into b (take 16 key)),
     aes_dec = (\<lambda>key b. xor_into b (take 16 key)),
     hmac512 = (\<lambda>key msg. replicate 64 (sum_list msg))\<rparr>"

lemma BLOCK_simp [simp]: "BLOCK = 16" by (simp add: BLOCK_def)

lemma xor_into_Nil [simp]: "xor_into dst [] = dst" "xor_into [] src = []"
  by (cases dst; simp)+

lemma length_xor_into [simp]: "length (xor_into dst src) = length dst"
  by (induction dst src rule: xor_into.induct) auto

lemma xor_into_self [simp]: "xor_into (xor_into a b) b = a"
  by (induction a b rule: xor_into.induct) (simp_all add: xor.assoc)

lemma xor_into_commute: "length a = length b \<Longrightarrow> xor_into a b = xor_into b a"
  by (induction a b rule: xor_into.induct) (simp_all add: xor.commute)

lemma xor_into_self_left [simp]: "length a = length b \<Longrightarrow> xor_into a (xor_into a b) = b"
  using xor_into_commute [of a "xor_into a b"] xor_into_commute [of a b] by simp

lemma xor_into_self_right [simp]: "length a = length b \<Longrightarrow> xor_into (xor_into a b) a = b"
  using xor_into_commute [of a b] by simp

lemma take_xor_into: "take n (xor_into a b) = xor_into (take n a) (take n b)"
  by (induction a b arbitrary: n rule: xor_into.induct) (auto simp: take_Cons')

lemma drop_xor_into: "drop n (xor_into a b) = xor_into (drop n a) (drop n b)"
  by (induction a b arbitrary: n rule: xor_into.induct) (auto simp: drop_Cons')

lemma xor_into_append:
  "length a = length c \<Longrightarrow> xor_into (a @ b) (c @ d) = xor_into a c @ xor_into b d"
  by (induction a c rule: xor_into.induct) auto

lemma xor_into_append_right [simp]:
  "length a = length b \<Longrightarrow> xor_into (a @ c) b = xor_into a b @ c"
  using xor_into_append [of a b c "[]"] by simp

lemma crypto_lawsD:
  assumes "crypto_laws ops" and "length key = 32"
  shows "length b = 16 \<Longrightarrow> length (aes_enc ops key b) = 16"
    and "length b = 16 \<Longrightarrow> length (aes_dec ops key b) = 16"
    and "length b = 16 \<Longrightarrow> aes_dec ops key (aes_enc ops key b) = b"
    and "length b = 16 \<Longrightarrow> aes_enc ops key (aes_dec ops key b) = b"
  using assms by (auto simp: crypto_laws_def)

lemma length_hmac512: "crypto_laws ops \<Longrightarrow> length (hmac512 ops key msg) = 64"
  by (simp add: crypto_laws_def)

lemma xor_ops_laws: "crypto_laws xor_ops"
  by (simp add: crypto_laws_def xor_ops_def)

section \<open>A keyed cipher\<close>

text \<open>What the modes need of one keyed cipher: encryption and decryption of blocks
  are inverse to each other.\<close>

definition block_cipher :: "(byte list \<Rightarrow> byte list) \<Rightarrow> (byte list \<Rightarrow> byte list) \<Rightarrow> bool" where
  "block_cipher enc dec \<longleftrightarrow>
     (\<forall>b. length b = 16 \<longrightarrow> length (enc b) = 16 \<and> length (dec b) = 16 \<and> dec (enc b) = b \<and> enc (dec b) = b)"

named_theorems cipher

lemma block_cipherD [cipher]:
  assumes "block_cipher enc dec" and "length b = 16"
  shows "length (enc b) = 16" and "length (dec b) = 16" and "dec (enc b) = b" and "enc (dec b) = b"
  using assms by (auto simp: block_cipher_def)

lemma block_cipher_aes [intro]:
  "crypto_laws ops \<Longrightarrow> length key = 32 \<Longrightarrow> block_cipher (aes_enc ops key) (aes_dec ops key)"
  by (simp add: block_cipher_def crypto_laws_def)

section \<open>Cipher block chaining\<close>

text \<open>The main loop of every CBC routine of the crate, over \<open>n\<close> blocks: the blocks
  written and the last value of \<open>prev\<close>.\<close>

primrec cbc_encrypt_blocks :: "(byte list \<Rightarrow> byte list) \<Rightarrow> nat \<Rightarrow> byte list \<Rightarrow> byte list \<Rightarrow> byte list \<times> byte list" where
  "cbc_encrypt_blocks enc 0 prev p = ([], prev)"
| "cbc_encrypt_blocks enc (Suc n) prev p =
     (let block = enc (xor_into (take BLOCK p) prev);
          (out, prev') = cbc_encrypt_blocks enc n block (drop BLOCK p)
      in (block @ out, prev'))"

primrec cbc_decrypt_blocks :: "(byte list \<Rightarrow> byte list) \<Rightarrow> nat \<Rightarrow> byte list \<Rightarrow> byte list \<Rightarrow> byte list \<times> byte list" where
  "cbc_decrypt_blocks dec 0 prev c = ([], prev)"
| "cbc_decrypt_blocks dec (Suc n) prev c =
     (let ct_saved = take BLOCK c;
          block = xor_into (dec ct_saved) prev;
          (out, prev') = cbc_decrypt_blocks dec n ct_saved (drop BLOCK c)
      in (block @ out, prev'))"

lemma cbc_encrypt_blocks_length:
  assumes "block_cipher enc dec" and "length prev = 16" and "16 * n \<le> length p"
  shows "length (fst (cbc_encrypt_blocks enc n prev p)) = 16 * n
    \<and> length (snd (cbc_encrypt_blocks enc n prev p)) = 16"
  using assms(2,3)
proof (induction n arbitrary: prev p)
  case (Suc n)
  then have "length (enc (xor_into (take 16 p) prev)) = 16"
    using block_cipherD [OF assms(1), of "xor_into (take 16 p) prev"] by simp
  with Suc.IH [of "enc (xor_into (take 16 p) prev)" "drop 16 p"] Suc.prems show ?case
    by (simp add: Let_def split_beta)
qed simp

lemma cbc_decrypt_blocks_length:
  assumes "block_cipher enc dec" and "length prev = 16" and "16 * n \<le> length c"
  shows "length (fst (cbc_decrypt_blocks dec n prev c)) = 16 * n
    \<and> length (snd (cbc_decrypt_blocks dec n prev c)) = 16"
  using assms(2,3)
proof (induction n arbitrary: prev c)
  case (Suc n)
  then have "length (dec (take 16 c)) = 16" using block_cipherD [OF assms(1), of "take 16 c"] by simp
  with Suc.IH [of "take 16 c" "drop 16 c"] Suc.prems show ?case by (simp add: Let_def split_beta)
qed simp

lemma cbc_blocks_roundtrip:
  assumes "block_cipher enc dec" and "length prev = 16" and "16 * n \<le> length p"
    and "cbc_encrypt_blocks enc n prev p = (c, prev')"
  shows "cbc_decrypt_blocks dec n prev (c @ rest) = (take (16 * n) p, prev')"
  using assms(2-)
proof (induction n arbitrary: prev p c)
  case (Suc n)
  let ?b = "enc (xor_into (take 16 p) prev)"
  have b: "length ?b = 16" "dec ?b = xor_into (take 16 p) prev"
    using block_cipherD [OF assms(1), of "xor_into (take 16 p) prev"] Suc.prems by auto
  obtain out where out: "cbc_encrypt_blocks enc n ?b (drop 16 p) = (out, prev')" "c = ?b @ out"
    using Suc.prems(3) by (auto simp: Let_def split: prod.splits)
  with Suc.IH [OF b(1) _ out(1)] Suc.prems(2) b show ?case
    by (simp add: Let_def take_add [symmetric] add.commute)
qed simp

section \<open>Counter mode\<close>

definition ctr_keystream :: "(byte list \<Rightarrow> byte list) \<Rightarrow> byte list \<Rightarrow> u64 \<Rightarrow> byte list" where
  "ctr_keystream enc iv counter = enc (xor_into iv (to_le_bytes counter))"

definition aes256_ctr_pclsync_xor_inplace :: "crypto_ops \<Rightarrow> byte list \<Rightarrow> byte list \<Rightarrow> u64 \<Rightarrow> byte list \<Rightarrow> byte list" where
  "aes256_ctr_pclsync_xor_inplace ops key iv block_offset buf =
     (if buf = [] then buf
      else
        let cipher = aes_enc ops key;
            full_blocks = length buf div BLOCK;
            tail = length buf mod BLOCK;
            full = concat (map (\<lambda>i.
              xor_into (take BLOCK (drop (i * BLOCK) buf))
                (ctr_keystream cipher iv (block_offset + of_nat i))) [0..<full_blocks])
        in if tail \<noteq> 0 then
             full @ xor_into (drop (full_blocks * BLOCK) buf)
               (take tail (ctr_keystream cipher iv (block_offset + of_nat full_blocks)))
           else full)"


text \<open>The reference definition: byte \<open>j\<close> of the stream is masked with byte
  \<open>j mod 16\<close> of the encrypted counter \<open>j div 16\<close>.\<close>

lemma length_to_le_bytes_u64: "length (to_le_bytes (w :: u64)) = 8"
  by (simp add: to_le_bytes_def)

lemma nth_xor_into:
  "i < length a \<Longrightarrow> xor_into a b ! i = (if i < length b then a ! i XOR b ! i else a ! i)"
  by (induction a b arbitrary: i rule: xor_into.induct) (auto simp: nth_Cons')

lemma length_concat_blocks:
  "(\<And>i. i < n \<Longrightarrow> length (f i) = 16) \<Longrightarrow> length (concat (map f [0..<n])) = 16 * n"
  by (induction n) auto

lemma block_index:
  fixes j n :: nat
  assumes "16 * n \<le> j" and "j < 16 * n + 16"
  shows "j div 16 = n" and "j mod 16 = j - 16 * n"
proof -
  from assms show d: "j div 16 = n" by (intro div_nat_eqI) auto
  show "j mod 16 = j - 16 * n" by (simp add: minus_mult_div_eq_mod [symmetric] d)
qed

lemma nth_concat_blocks:
  assumes "\<And>i. i < n \<Longrightarrow> length (f i) = 16" and "j < 16 * n"
  shows "concat (map f [0..<n]) ! j = f (j div 16) ! (j mod 16)"
  using assms
proof (induction n)
  case (Suc n)
  have l: "length (concat (map f [0..<n])) = 16 * n" by (rule length_concat_blocks) (simp add: Suc.prems)
  show ?case
  proof (cases "j < 16 * n")
    case True
    with Suc.IH Suc.prems(1) l show ?thesis by (simp add: nth_append)
  next
    case False
    with Suc.prems(2) have "j div 16 = n" "j mod 16 = j - 16 * n" by (intro block_index; simp)+
    with False l show ?thesis by (simp add: nth_append)
  qed
qed simp

lemma length_ctr_keystream:
  "crypto_laws ops \<Longrightarrow> length key = 32 \<Longrightarrow> length iv = 16 \<Longrightarrow>
   length (ctr_keystream (aes_enc ops key) iv counter) = 16"
  by (simp add: ctr_keystream_def crypto_lawsD)

lemma length_ctr [simp]:
  "length (aes256_ctr_pclsync_xor_inplace ops key iv off buf) = length buf"
proof -
  have "length (concat (map (\<lambda>i. xor_into (take 16 (drop (i * 16) buf))
      (ctr_keystream (aes_enc ops key) iv (off + of_nat i))) [0..<length buf div 16])) = 16 * (length buf div 16)"
    by (rule length_concat_blocks) simp
  then show ?thesis
    by (auto simp: aes256_ctr_pclsync_xor_inplace_def Let_def minus_div_mult_eq_mod)
qed

lemma nth_ctr:
  assumes "crypto_laws ops" "length key = 32" "length iv = 16" and "j < length buf"
  shows "aes256_ctr_pclsync_xor_inplace ops key iv off buf ! j =
    buf ! j XOR ctr_keystream (aes_enc ops key) iv (off + of_nat (j div 16)) ! (j mod 16)"
proof -
  let ?ks = "ctr_keystream (aes_enc ops key) iv"
  let ?n = "length buf div 16"
  let ?f = "\<lambda>i. xor_into (take 16 (drop (i * 16) buf)) (?ks (off + of_nat i))"
  have ks: "length (?ks c) = 16" for c using assms by (intro length_ctr_keystream)
  have f: "length (?f i) = 16" if "i < ?n" for i using that by simp
  have l: "length (concat (map ?f [0..<?n])) = 16 * ?n" using f by (rule length_concat_blocks)
  show ?thesis
  proof (cases "j < 16 * ?n")
    case True
    then have d: "j div 16 < ?n" "j div 16 * 16 + j mod 16 = j"
      by (simp_all add: less_mult_imp_div_less mult.commute)
    have "concat (map ?f [0..<?n]) ! j = ?f (j div 16) ! (j mod 16)"
      using f True by (rule nth_concat_blocks)
    also have "\<dots> = buf ! j XOR ?ks (off + of_nat (j div 16)) ! (j mod 16)"
      using f [OF d(1)] d assms(4) by (simp add: nth_xor_into ks)
    finally show ?thesis using assms(4) True l
      by (auto simp: aes256_ctr_pclsync_xor_inplace_def Let_def nth_append)
  next
    case False
    have len: "length buf - ?n * 16 = length buf mod 16" by (simp add: minus_div_mult_eq_mod)
    have "length buf < 16 * ?n + 16" using mod_less_divisor [of 16 "length buf"] len by linarith
    with False assms(4) have j: "j div 16 = ?n" "j mod 16 = j - 16 * ?n"
      by (intro block_index; simp)+
    moreover have "j - 16 * ?n < length buf mod 16" "length buf mod 16 \<noteq> 0" "16 * ?n + (j - 16 * ?n) = j"
      using False assms(4) len by linarith+
    ultimately show ?thesis using len assms(4) False l
      by (auto simp: aes256_ctr_pclsync_xor_inplace_def Let_def nth_append nth_xor_into ks mult.commute)
  qed
qed

text \<open>The counter mode can be entered at any block: applying it to a part of a
  stream that starts at block \<open>n\<close>, with the block offset \<open>n\<close>, gives that part of
  the whole stream's encryption, and applying it twice gives the data back.\<close>

theorem ctr_random_access:
  assumes "crypto_laws ops" "length key = 32" "length iv = 16" and "16 * n \<le> length buf"
  shows "aes256_ctr_pclsync_xor_inplace ops key iv (off + of_nat n) (drop (16 * n) buf) =
      drop (16 * n) (aes256_ctr_pclsync_xor_inplace ops key iv off buf)
    \<and> aes256_ctr_pclsync_xor_inplace ops key iv off (aes256_ctr_pclsync_xor_inplace ops key iv off buf) = buf"
  using assms
  by (auto intro!: nth_equalityI simp: nth_ctr xor.assoc add.assoc)

theorem ctr_random_access_witness:
  "aes256_ctr_pclsync_xor_inplace xor_ops (replicate 32 7) (replicate 16 1) (5 + of_nat 1) (drop 16 (replicate 40 3)) =
     drop 16 (aes256_ctr_pclsync_xor_inplace xor_ops (replicate 32 7) (replicate 16 1) 5 (replicate 40 3))"
  using ctr_random_access [OF xor_ops_laws, of "replicate 32 7" "replicate 16 1" 1 "replicate 40 3" 5] by simp

section \<open>Ciphertext stealing\<close>

datatype modes_error = InputTooShort nat

text \<open>The exchange of the last two blocks of a level output (CS3).\<close>

definition cs3_swap :: "byte list \<Rightarrow> byte list" where
  "cs3_swap out =
     (let blocks = length out div BLOCK in
      if blocks \<ge> 2 then
        let left = take ((blocks - 2) * BLOCK) out;
            last_two = drop ((blocks - 2) * BLOCK) out
        in left @ drop BLOCK last_two @ take BLOCK last_two
      else out)"

definition aes256_cbc_cts_encrypt :: "crypto_ops \<Rightarrow> byte list \<Rightarrow> byte list \<Rightarrow> byte list \<Rightarrow> (modes_error, byte list) result" where
  "aes256_cbc_cts_encrypt ops key iv plaintext =
     (let n = length plaintext; enc = aes_enc ops key in
      if n < BLOCK then Err (InputTooShort n)
      else if n mod BLOCK = 0 then
        Ok (cs3_swap (fst (cbc_encrypt_blocks enc (n div BLOCK) iv plaintext)))
      else
        let r = n mod BLOCK;
            full_prefix_blocks = (n - BLOCK - r) div BLOCK;
            tail_offset = full_prefix_blocks * BLOCK;
            (out, prev) = cbc_encrypt_blocks enc full_prefix_blocks iv plaintext;
            p_pen = take BLOCK (drop tail_offset plaintext);
            p_last = drop (tail_offset + BLOCK) plaintext;
            c_pen_raw = enc (xor_into p_pen prev);
            p_last_padded = p_last @ replicate (BLOCK - r) 0;
            c_last_full = enc (xor_into p_last_padded c_pen_raw)
        in Ok (out @ c_last_full @ take r c_pen_raw))"

definition aes256_cbc_cts_decrypt :: "crypto_ops \<Rightarrow> byte list \<Rightarrow> byte list \<Rightarrow> byte list \<Rightarrow> (modes_error, byte list) result" where
  "aes256_cbc_cts_decrypt ops key iv ciphertext =
     (let n = length ciphertext; dec = aes_dec ops key in
      if n < BLOCK then Err (InputTooShort n)
      else if n mod BLOCK = 0 then
        Ok (fst (cbc_decrypt_blocks dec (n div BLOCK) iv (cs3_swap ciphertext)))
      else
        let r = n mod BLOCK;
            full_prefix_blocks = (n - BLOCK - r) div BLOCK;
            tail_offset = full_prefix_blocks * BLOCK;
            (out, prev) = cbc_decrypt_blocks dec full_prefix_blocks iv ciphertext;
            c_last_full = take BLOCK (drop tail_offset ciphertext);
            c_pen_prefix = drop (tail_offset + BLOCK) ciphertext;
            dec_last = dec c_last_full;
            c_pen_raw = c_pen_prefix @ drop r dec_last;
            p_last = xor_into (take r dec_last) (take r c_pen_raw);
            dec_pen = dec c_pen_raw;
            p_pen = xor_into dec_pen prev
        in Ok (out @ p_pen @ p_last))"

lemma xor_into_zeros: "xor_into (replicate (length a) 0) a = a"
  by (induction a) auto

lemma xor_into_padded:
  assumes "length t = r" "r \<le> 16" and "length x = 16"
  shows "xor_into (t @ replicate (16 - r) 0) x = xor_into (take r x) t @ drop r x"
proof -
  have "xor_into (t @ replicate (16 - r) 0) (take r x @ drop r x) =
      xor_into t (take r x) @ xor_into (replicate (16 - r) 0) (drop r x)"
    using assms by (intro xor_into_append) simp
  then show ?thesis
    using assms xor_into_zeros [of "drop r x"] by (simp add: xor_into_commute [of t])
qed

lemma length_cs3_swap [simp]: "length (cs3_swap out) = length out"
  by (simp add: cs3_swap_def Let_def; linarith)

lemma cs3_swap_append:
  assumes "length a = 16 * k" "length b = 16" and "length c = 16"
  shows "cs3_swap (a @ b @ c) = a @ c @ b"
proof -
  have "length (a @ b @ c) div 16 = k + 2" using assms by simp
  then show ?thesis using assms by (simp add: cs3_swap_def Let_def mult.commute)
qed

lemma cs3_swap_idem [simp]:
  assumes "length out mod 16 = 0"
  shows "cs3_swap (cs3_swap out) = out"
proof (cases "length out div 16 \<ge> 2")
  case True
  then obtain k where k: "length out = 16 * k + 32"
    using assms that [of "length out div 16 - 2"] by (auto simp: diff_mult_distrib2)
  define a b c where "a = take (16 * k) out" and "b = take 16 (drop (16 * k) out)"
    and "c = drop 16 (drop (16 * k) out)"
  have "out = a @ b @ c" unfolding a_def b_def c_def by (simp only: append_take_drop_id)
  moreover have "length a = 16 * k" "length b = 16" "length c = 16"
    using k by (simp_all add: a_def b_def c_def)
  ultimately show ?thesis by (simp only: cs3_swap_append)
next
  case False
  then show ?thesis by (simp add: cs3_swap_def)
qed

lemma stealing_lengths:
  fixes n :: nat
  assumes "16 \<le> n" and "n mod 16 \<noteq> 0"
  obtains m r where "n = 16 * m + 16 + r" "n mod 16 = r" "(n - 16 - n mod 16) div 16 = m" "0 < r" "r < 16"
proof
  define q where "q = n div 16 - 1"
  have "1 \<le> n div 16" using assms(1) by (simp add: div_greater_zero_iff Suc_le_eq)
  then have "16 * q + 16 = n div 16 * 16" by (simp add: q_def)
  then show n: "n = 16 * q + 16 + n mod 16" by simp
  have "n - 16 - n mod 16 = 16 * q" using n by linarith
  then show "(n - 16 - n mod 16) div 16 = q" by simp
qed (use assms(2) in auto)

text \<open>Both CBC routines with ciphertext stealing keep the length of their input,
  and decryption inverts encryption, for every input of at least one block; a
  shorter input is refused.\<close>

lemma aes256_cbc_cts_roundtrip:
  assumes "crypto_laws ops" "length key = 32" "length iv = 16" and "16 \<le> length p"
  shows "\<exists>c. aes256_cbc_cts_encrypt ops key iv p = Ok c \<and> length c = length p
    \<and> aes256_cbc_cts_decrypt ops key iv c = Ok p"
proof (cases "length p mod 16 = 0")
  case True
  let ?n = "length p div 16"
  have bc: "block_cipher (aes_enc ops key) (aes_dec ops key)" using assms by blast
  obtain c prev where c: "cbc_encrypt_blocks (aes_enc ops key) ?n iv p = (c, prev)" by force
  have n: "16 * ?n = length p" using True by auto
  have "length c = length p" using cbc_encrypt_blocks_length [OF bc assms(3), of ?n p] c n by simp
  with True assms(4) c n cbc_blocks_roundtrip [OF bc assms(3) _ c, of "[]"] show ?thesis
    by (simp add: aes256_cbc_cts_encrypt_def aes256_cbc_cts_decrypt_def Let_def)
next
  case False
  obtain m r where len: "length p = 16 * m + 16 + r" and mr: "length p mod 16 = r"
      "(length p - 16 - length p mod 16) div 16 = m" "0 < r" "r < 16"
    using stealing_lengths [OF assms(4) False] .
  let ?enc = "aes_enc ops key" and ?dec = "aes_dec ops key"
  have bc: "block_cipher ?enc ?dec" using assms by blast
  obtain c prev where c: "cbc_encrypt_blocks ?enc m iv p = (c, prev)" by force
  have lc: "length c = 16 * m" "length prev = 16"
    using cbc_encrypt_blocks_length [OF bc assms(3), of m p] c len by auto
  define pen t where "pen = take 16 (drop (16 * m) p)" and "t = drop (16 * m + 16) p"
  define x where "x = ?enc (xor_into pen prev)"
  define y where "y = ?enc (xor_into (t @ replicate (16 - r) 0) x)"
  have lt: "length t = r" "length pen = 16" using len by (simp_all add: pen_def t_def)
  have x: "length x = 16" "?dec x = xor_into pen prev"
    using block_cipherD [OF bc, of "xor_into pen prev"] lt by (auto simp: x_def)
  have y: "length y = 16" "?dec y = xor_into (take r x) t @ drop r x"
    using block_cipherD [OF bc, of "xor_into (t @ replicate (16 - r) 0) x"] lt x mr(4)
    by (simp_all add: xor_into_padded y_def)
  have p: "take (16 * m) p @ pen @ t = p"
    unfolding pen_def t_def by (metis append_take_drop_id drop_drop add.commute)
  have "aes256_cbc_cts_encrypt ops key iv p = Ok (c @ y @ take r x)"
    using assms(4) False c mr
    by (simp add: aes256_cbc_cts_encrypt_def Let_def mult.commute [of m] pen_def t_def x_def y_def)
  moreover have "aes256_cbc_cts_decrypt ops key iv (c @ y @ take r x) = Ok (take (16 * m) p @ pen @ t)"
    using cbc_blocks_roundtrip [OF bc assms(3) _ c, of "y @ take r x"] len lc lt x y mr(3,4)
    by (simp add: aes256_cbc_cts_decrypt_def Let_def mult.commute [of m])
  ultimately show ?thesis using lc x y len mr by (simp add: p)
qed

end
