(* ===== verification/Auth_Tree.thy ===== *)
theory Auth_Tree
  imports Crypto
begin

text \<open>The authentication tree over the sector tags of a file
  (\<open>pcloud-crypto/src/pclsync_auth_tree.rs\<close>): level 0 is the concatenation of the leaf
  tags, a parent level has one keyed digest of 32 bytes per 4096 bytes of its child
  level, and the root is the digest of the top level.  A path check returns a
  verdict or fails at run time (an arithmetic overflow or an index out of range),
  which is the value \<open>None\<close>.\<close>

section \<open>Building\<close>

definition PCLSYNC_TREE_FANOUT :: nat where
  "PCLSYNC_TREE_FANOUT = 128"

definition PCLSYNC_AUTH_TAG_LEN :: nat where
  "PCLSYNC_AUTH_TAG_LEN = 32"

definition PCLSYNC_AUTH_SECTOR_SIZE :: nat where
  "PCLSYNC_AUTH_SECTOR_SIZE = PCLSYNC_TREE_FANOUT * PCLSYNC_AUTH_TAG_LEN"

definition PCLSYNC_MAX_TREE_LEVELS :: nat where
  "PCLSYNC_MAX_TREE_LEVELS = 6"

lemmas tree_sizes [simp] =
  PCLSYNC_TREE_FANOUT_def PCLSYNC_AUTH_TAG_LEN_def PCLSYNC_AUTH_SECTOR_SIZE_def PCLSYNC_MAX_TREE_LEVELS_def

record auth_tree =
  at_levels :: "byte list list"
  at_treelevels :: nat
  at_masterauthoff :: u64
  at_needmasterauth :: bool

fun chunks :: "nat \<Rightarrow> 'a list \<Rightarrow> 'a list list" where
  "chunks n xs = (if n = 0 then [] else if xs = [] then [] else take n xs # chunks n (drop n xs))"

declare chunks.simps [simp del]

definition hmac_sha512_trunc32 :: "crypto_ops \<Rightarrow> byte list \<Rightarrow> byte list \<Rightarrow> byte list" where
  "hmac_sha512_trunc32 ops key data = take PCLSYNC_AUTH_TAG_LEN (hmac512 ops key data)"

definition level_sector_count :: "nat \<Rightarrow> nat" where
  "level_sector_count bytes = (bytes + PCLSYNC_AUTH_SECTOR_SIZE - 1) div PCLSYNC_AUTH_SECTOR_SIZE"

definition build_parent_level :: "crypto_ops \<Rightarrow> byte list \<Rightarrow> byte list \<Rightarrow> byte list" where
  "build_parent_level ops hmac_key child_level =
     concat (map (hmac_sha512_trunc32 ops hmac_key) (chunks PCLSYNC_AUTH_SECTOR_SIZE child_level))"

function grow_levels :: "crypto_ops \<Rightarrow> byte list \<Rightarrow> byte list list \<Rightarrow> byte list list" where
  "grow_levels ops hmac_key levels =
     (if level_sector_count (length (last levels)) > 1 then
        if length levels \<ge> PCLSYNC_MAX_TREE_LEVELS then levels
        else grow_levels ops hmac_key (levels @ [build_parent_level ops hmac_key (last levels)])
      else levels)"
  by pat_completeness auto

termination
  by (relation "measure (\<lambda>(ops, key, levels). PCLSYNC_MAX_TREE_LEVELS - length levels)") auto

declare grow_levels.simps [simp del]

definition build_auth_tree :: "crypto_ops \<Rightarrow> byte list \<Rightarrow> byte list list \<Rightarrow> auth_tree" where
  "build_auth_tree ops hmac_key sector_tags =
     (if sector_tags = [] then
        \<lparr>at_levels = [], at_treelevels = 0, at_masterauthoff = 0, at_needmasterauth = False\<rparr>
      else
        let levels = grow_levels ops hmac_key [concat sector_tags];
            needmasterauth = length sector_tags > 1;
            levels = (if needmasterauth then levels @ [hmac_sha512_trunc32 ops hmac_key (last levels)] else levels);
            treelevels = (if needmasterauth then length levels - 1 else 0);
            data_bytes = of_nat (length sector_tags) * of_nat PCLSYNC_AUTH_SECTOR_SIZE;
            auth_bytes = sum_list (map (\<lambda>l. of_nat (length l)) (take (length levels - 1) levels))
        in \<lparr>at_levels = levels, at_treelevels = treelevels, at_masterauthoff = data_bytes + auth_bytes,
            at_needmasterauth = needmasterauth\<rparr>)"

section \<open>Checking a path\<close>

definition compute_master_auth :: "auth_tree \<Rightarrow> byte list" where
  "compute_master_auth tree =
     (if at_levels tree = [] then replicate PCLSYNC_AUTH_TAG_LEN 0
      else if length (last (at_levels tree)) \<ge> PCLSYNC_AUTH_TAG_LEN
      then take PCLSYNC_AUTH_TAG_LEN (last (at_levels tree))
      else replicate PCLSYNC_AUTH_TAG_LEN 0)"

text \<open>The walk over \<open>n\<close> levels: \<open>None\<close> is a missing level (an index out of range),
  \<open>Some None\<close> an early verdict of false, and otherwise the digest it arrived at.\<close>

primrec verify_walk :: "crypto_ops \<Rightarrow> byte list \<Rightarrow> nat \<Rightarrow> byte list list \<Rightarrow> byte list \<Rightarrow> nat \<Rightarrow> byte list option option" where
  "verify_walk ops hmac_key 0 levels current child_index = Some (Some current)"
| "verify_walk ops hmac_key (Suc n) levels current child_index =
     (case levels of
        [] \<Rightarrow> None
      | child_level # levels \<Rightarrow>
          let chunk_start = child_index div PCLSYNC_TREE_FANOUT * PCLSYNC_AUTH_SECTOR_SIZE;
              chunk_end = min (chunk_start + PCLSYNC_AUTH_SECTOR_SIZE) (length child_level)
          in if chunk_start \<ge> length child_level then Some None
             else
               let chunk = take (chunk_end - chunk_start) (drop chunk_start child_level);
                   slot = child_index mod PCLSYNC_TREE_FANOUT * PCLSYNC_AUTH_TAG_LEN
               in if slot + PCLSYNC_AUTH_TAG_LEN > length chunk then Some None
                  else if take PCLSYNC_AUTH_TAG_LEN (drop slot chunk) \<noteq> current then Some None
                  else verify_walk ops hmac_key n levels (hmac_sha512_trunc32 ops hmac_key chunk)
                         (child_index div PCLSYNC_TREE_FANOUT))"

definition verify_path :: "crypto_ops \<Rightarrow> byte list \<Rightarrow> auth_tree \<Rightarrow> nat \<Rightarrow> byte list \<Rightarrow> bool option" where
  "verify_path ops hmac_key tree sector_index sector_tag =
     (case at_levels tree of
        [] \<Rightarrow> Some False
      | leaf_bytes # _ \<Rightarrow>
          let offset = min (sector_index * PCLSYNC_AUTH_TAG_LEN) (2 ^ 64 - 1) in
          if offset + PCLSYNC_AUTH_TAG_LEN \<ge> 2 ^ 64 then None
          else if offset + PCLSYNC_AUTH_TAG_LEN > length leaf_bytes then Some False
          else if take PCLSYNC_AUTH_TAG_LEN (drop offset leaf_bytes) \<noteq> sector_tag then Some False
          else if at_treelevels tree = 0 then Some (compute_master_auth tree = sector_tag)
          else (case verify_walk ops hmac_key (at_treelevels tree) (at_levels tree) sector_tag sector_index of
            None \<Rightarrow> None
          | Some None \<Rightarrow> Some False
          | Some (Some current) \<Rightarrow> Some (current = compute_master_auth tree)))"

section \<open>Every leaf of a built tree is accepted\<close>

definition tag_at :: "byte list \<Rightarrow> nat \<Rightarrow> byte list" where
  "tag_at level i = take 32 (drop (i * 32) level)"

definition chunk_at :: "byte list \<Rightarrow> nat \<Rightarrow> byte list" where
  "chunk_at level q = take 4096 (drop (q * 4096) level)"

lemma length_trunc32: "crypto_laws ops \<Longrightarrow> length (hmac_sha512_trunc32 ops key d) = 32"
  by (simp add: hmac_sha512_trunc32_def length_hmac512)

lemma length_chunks: "0 < n \<Longrightarrow> length (chunks n xs) = (length xs + n - 1) div n"
proof (induction n xs rule: chunks.induct)
  case (1 n xs)
  show ?case
  proof (cases "xs = []")
    case True
    with 1 show ?thesis by (simp add: chunks.simps)
  next
    case False
    with 1 have "length (chunks n xs) = (length xs - n + n - 1) div n + 1" by (simp add: chunks.simps [of n xs])
    also have "\<dots> = (length xs + n - 1) div n"
    proof (cases "n \<le> length xs")
      case True
      then have "length xs + n - 1 = (length xs - n + n - 1) + n" using "1.prems" by simp
      with "1.prems" show ?thesis by (simp only: div_add_self2)
    next
      case lt: False
      obtain m where "length xs = Suc m" using False by (cases xs) auto
      with lt have "(length xs + n - 1) div n = 1" by (intro div_nat_eqI) auto
      with lt "1.prems" show ?thesis by simp
    qed
    finally show ?thesis .
  qed
qed

lemma nth_chunks: "0 < n \<Longrightarrow> q * n < length xs \<Longrightarrow> chunks n xs ! q = take n (drop (q * n) xs)"
proof (induction q arbitrary: xs)
  case 0
  then show ?case by (subst chunks.simps) auto
next
  case (Suc q)
  then have "xs \<noteq> []" "q * n < length (drop n xs)" by auto
  with Suc show ?case by (subst chunks.simps) (simp add: add.commute)
qed

lemma length_build_parent_level:
  assumes "crypto_laws ops"
  shows "length (build_parent_level ops key l) = 32 * level_sector_count (length l)"
proof -
  have "length (concat (map (hmac_sha512_trunc32 ops key) cs)) = 32 * length cs" for cs
    by (induction cs) (simp_all add: length_trunc32 [OF assms])
  then show ?thesis by (simp add: build_parent_level_def level_sector_count_def length_chunks)
qed

lemma drop_concat_tags:
  "(\<And>t. t \<in> set ts \<Longrightarrow> length t = 32) \<Longrightarrow> i < length ts \<Longrightarrow> tag_at (concat ts) i = ts ! i"
proof (induction ts arbitrary: i)
  case (Cons t ts)
  then show ?case by (cases i) (simp_all add: tag_at_def)
qed simp

lemma tag_at_parent:
  assumes "crypto_laws ops" and "q * 4096 < length l"
  shows "tag_at (build_parent_level ops key l) q = hmac_sha512_trunc32 ops key (chunk_at l q)"
proof -
  have "q < level_sector_count (length l)"
    using assms(2) by (simp add: level_sector_count_def less_eq_div_iff_mult_less_eq Suc_le_eq [symmetric])
  then have "q < length (chunks 4096 l)" by (simp add: length_chunks level_sector_count_def)
  moreover from this have "tag_at (concat (map (hmac_sha512_trunc32 ops key) (chunks 4096 l))) q =
      map (hmac_sha512_trunc32 ops key) (chunks 4096 l) ! q"
    by (intro drop_concat_tags) (auto simp: length_trunc32 [OF assms(1)])
  ultimately show ?thesis
    using assms(2) by (simp add: build_parent_level_def nth_chunks chunk_at_def)
qed


text \<open>Each level of a built tree is the parent level of the one below it.\<close>

fun chained :: "crypto_ops \<Rightarrow> byte list \<Rightarrow> byte list list \<Rightarrow> bool" where
  "chained ops key (l # l' # ls) \<longleftrightarrow> l' = build_parent_level ops key l \<and> chained ops key (l' # ls)"
| "chained ops key _ \<longleftrightarrow> True"

lemma chained_snoc:
  "chained ops key ls \<Longrightarrow> ls \<noteq> [] \<Longrightarrow> chained ops key (ls @ [build_parent_level ops key (last ls)])"
  by (induction ops key ls rule: chained.induct) auto

lemma slot_in_level:
  assumes "i * 32 + 32 \<le> length level"
  shows "i div 128 * 4096 < length level"
    and "i mod 128 * 32 + 32 \<le> length (chunk_at level (i div 128))"
    and "take 32 (drop (i mod 128 * 32) (chunk_at level (i div 128))) = tag_at level i"
proof -
  have i: "i div 128 * 4096 + i mod 128 * 32 = i * 32" using div_mult_mod_eq [of i 128] by linarith
  have m: "i mod 128 * 32 + 32 \<le> 4096" using mod_less_divisor [of 128 i] by linarith
  from i assms show "i div 128 * 4096 < length level" by linarith
  from i assms m show "i mod 128 * 32 + 32 \<le> length (chunk_at level (i div 128))" by (simp add: chunk_at_def)
  from i m show "take 32 (drop (i mod 128 * 32) (chunk_at level (i div 128))) = tag_at level i"
    by (simp add: chunk_at_def tag_at_def drop_take min_def add.commute)
qed

lemma count_iff: "q < level_sector_count b \<longleftrightarrow> q * 4096 < b"
  by (simp add: level_sector_count_def less_eq_div_iff_mult_less_eq Suc_le_eq [symmetric])

lemma verify_walk_chained:
  assumes "crypto_laws ops" and "chained ops key ls" and "n < length ls" and "i * 32 + 32 \<le> length (hd ls)"
  shows "verify_walk ops key n ls (tag_at (hd ls) i) i = Some (Some (tag_at (ls ! n) (i div 128 ^ n)))
    \<and> i div 128 ^ n * 32 + 32 \<le> length (ls ! n)"
  using assms(2-)
proof (induction n arbitrary: ls i)
  case 0
  then show ?case by (cases ls) auto
next
  case (Suc n)
  then obtain l l' ls' where ls: "ls = l # l' # ls'" by (cases ls; cases "tl ls") auto
  with Suc.prems have p: "l' = build_parent_level ops key l" "chained ops key (l' # ls')" by auto
  from Suc.prems(3) have i: "i * 32 + 32 \<le> length l" by (simp add: ls)
  note slot = slot_in_level [OF i]
  have "tag_at l' (i div 128) = hmac_sha512_trunc32 ops key (chunk_at l (i div 128))"
    using tag_at_parent [OF assms(1) slot(1)] p(1) by simp
  moreover have "i div 128 * 32 + 32 \<le> length l'"
    using slot(1) p(1) count_iff [of "i div 128" "length l"]
    by (simp add: length_build_parent_level [OF assms(1)] Suc_le_eq)
  moreover have "take (min (i div 128 * 4096 + 4096) (length l) - i div 128 * 4096) (drop (i div 128 * 4096) l)
      = chunk_at l (i div 128)"
    using slot(1) by (simp add: chunk_at_def min_def)
  ultimately show ?case using Suc.IH [OF p(2), of "i div 128"] Suc.prems(2) slot
    by (simp add: ls Let_def div_mult2_eq)
qed

lemma grow_levels_spec:
  assumes "crypto_laws ops" and "levels \<noteq> []" "chained ops key levels" "length levels \<le> 6"
    and "length (last levels) \<le> 32 * 128 ^ (7 - length levels)" "0 < length (last levels)"
  shows "chained ops key (grow_levels ops key levels) \<and> grow_levels ops key levels \<noteq> []
    \<and> hd (grow_levels ops key levels) = hd levels
    \<and> 0 < length (last (grow_levels ops key levels)) \<and> length (last (grow_levels ops key levels)) \<le> 4096"
  using assms
proof (induction ops key levels rule: grow_levels.induct)
  case (1 ops key levels)
  let ?b = "length (last levels)" and ?p = "build_parent_level ops key (last levels)"
  show ?case
  proof (cases "level_sector_count ?b > 1")
    case True
    then have b: "4096 < ?b" using count_iff [of 1 ?b] by simp
    then have L: "\<not> length levels \<ge> PCLSYNC_MAX_TREE_LEVELS" using "1.prems" by (cases "length levels = 6") auto
    then obtain k where k: "7 - length levels = Suc k" "7 - length (levels @ [?p]) = k"
      using that [of "6 - length levels"] by simp
    have "\<not> 128 ^ k < level_sector_count ?b" using "1.prems"(5) k(1) by (simp add: count_iff)
    then have "length ?p \<le> 32 * 128 ^ k" "0 < length ?p"
      using True by (simp_all add: length_build_parent_level [OF "1.prems"(1)])
    with "1.IH" [OF True L] "1.prems"(1-4) chained_snoc [of ops key levels] L k True show ?thesis
      by (subst (1 2 3 4 5) grow_levels.simps) (simp add: hd_append)
  next
    case False
    then have "?b \<le> 4096" using count_iff [of 1 ?b] by simp
    with False "1.prems" show ?thesis by (subst (1 2 3 4 5) grow_levels.simps) simp
  qed
qed


lemma parent_of_one_sector:
  "0 < length l \<Longrightarrow> length l \<le> 4096 \<Longrightarrow> build_parent_level ops key l = hmac_sha512_trunc32 ops key l"
  by (simp add: build_parent_level_def chunks.simps [of 4096 l] chunks.simps [of 4096 "[]"])

lemma length_concat_tags: "(\<And>t. t \<in> set ts \<Longrightarrow> length t = 32) \<Longrightarrow> length (concat ts) = 32 * length ts"
  by (induction ts) auto

lemma leaf_verifies:
  assumes "crypto_laws ops" and "\<forall>t \<in> set tags. length t = 32" and "length tags \<le> 128 ^ 6" and "i < length tags"
  shows "verify_path ops key (build_auth_tree ops key tags) i (tags ! i) = Some True"
proof -
  let ?G = "grow_levels ops key [concat tags]"
  let ?L = "concat tags"
  have len: "length ?L = 32 * length tags" using assms(2) by (simp add: length_concat_tags)
  have leaf: "tag_at ?L i = tags ! i" using assms(2,4) by (simp add: drop_concat_tags)
  have i: "i * 32 + 32 \<le> length ?L" "i * 32 + 32 < 2 ^ 64" using assms(3,4) len by simp_all
  have "0 < length ?L" using i(1) by linarith
  then have G: "chained ops key ?G" "?G \<noteq> []" "hd ?G = ?L" "0 < length (last ?G)" "length (last ?G) \<le> 4096"
    using grow_levels_spec [OF assms(1), of "[?L]" key] \<open>0 < length ?L\<close> assms(3) len by auto
  define root where "root = hmac_sha512_trunc32 ops key (last ?G)"
  have root: "length root = 32" by (simp add: root_def length_trunc32 [OF assms(1)])
  show ?thesis
  proof (cases "length tags > 1")
    case True
    have ch: "chained ops key (?G @ [root])"
      using chained_snoc [OF G(1,2)] parent_of_one_sector [OF G(4,5)] by (simp add: root_def)
    have "hd (?G @ [root]) = ?L" using G(2,3) by simp
    then have "verify_walk ops key (length ?G) (?G @ [root]) (tags ! i) i =
        Some (Some (tag_at root (i div 128 ^ length ?G))) \<and> i div 128 ^ length ?G * 32 + 32 \<le> length root"
      using verify_walk_chained [OF assms(1) ch, of "length ?G" i] i(1) leaf by simp
    then have "verify_walk ops key (length ?G) (?G @ [root]) (tags ! i) i = Some (Some root)"
      by (simp add: root tag_at_def)
    moreover obtain ls where ls: "?G = ?L # ls" using G(2,3) by (cases ?G) auto
    moreover define t where "t = build_auth_tree ops key tags"
    have t: "at_levels t = ?G @ [root]" "at_treelevels t = length ?G"
      using True by (auto simp: t_def build_auth_tree_def Let_def root_def)
    moreover have "compute_master_auth t = root" using root by (simp add: compute_master_auth_def t(1))
    moreover have "min (i * 32) (2 ^ 64 - 1) = i * 32" "take 32 (drop (i * 32) ?L) = tags ! i"
      using i(2) leaf by (simp_all add: tag_at_def)
    ultimately show ?thesis using i unfolding t_def [symmetric] by (simp add: verify_path_def Let_def)
  next
    case False
    with assms(4) obtain t where t: "tags = [t]" by (cases tags) auto
    then have "?G = [t]" using assms(2) by (subst grow_levels.simps) (simp add: level_sector_count_def)
    with t assms show ?thesis
      by (simp add: verify_path_def build_auth_tree_def Let_def compute_master_auth_def)
  qed
qed

text \<open>A tree built over up to 128^6 tags of 32 bytes accepts every one of them at
  its index: the walk from a leaf to the root never runs off a level, finds the
  digest it computed at the slot it looks at, and arrives at the master tag.\<close>

theorem built_tree_verifies:
  assumes "crypto_laws ops" and "\<forall>t \<in> set tags. length t = 32" and "length tags \<le> 128 ^ 6" and "i < length tags"
  shows "verify_path ops key (build_auth_tree ops key tags) i (tags ! i) = Some True"
  using assms by (rule leaf_verifies)

theorem built_tree_verifies_witness:
  "verify_path xor_ops [1] (build_auth_tree xor_ops [1] (replicate 200 (replicate 32 7))) 150 (replicate 32 7) = Some True"
  using built_tree_verifies [OF xor_ops_laws, of "replicate 200 (replicate 32 7)" 150 "[1]"] by simp

section \<open>Soundness\<close>

lemma verify_walk_SucE:
  assumes "verify_walk ops key (Suc n) (l # ls) c i = Some (Some r)"
  obtains chunk where
    "take PCLSYNC_AUTH_TAG_LEN (drop (i mod PCLSYNC_TREE_FANOUT * PCLSYNC_AUTH_TAG_LEN) chunk) = c"
    "verify_walk ops key n ls (hmac_sha512_trunc32 ops key chunk) (i div PCLSYNC_TREE_FANOUT) = Some (Some r)"
  using assms unfolding verify_walk.simps list.case Let_def
  by (simp only: option.distinct option.inject not_not split: if_split_asm)

lemma verify_walk_collision:
  assumes "verify_walk ops key n ls1 c1 i = Some (Some r)" and "verify_walk ops key n ls2 c2 i = Some (Some r)"
    and "c1 \<noteq> c2"
  shows "\<exists>d1 d2. d1 \<noteq> d2 \<and> hmac_sha512_trunc32 ops key d1 = hmac_sha512_trunc32 ops key d2"
  using assms
proof (induction n arbitrary: ls1 ls2 c1 c2 i)
  case (Suc n)
  from Suc.prems obtain l1 ls1' l2 ls2' where ls: "ls1 = l1 # ls1'" "ls2 = l2 # ls2'"
    by (cases ls1; cases ls2) auto
  obtain d1 d2 where
    w: "verify_walk ops key n ls1' (hmac_sha512_trunc32 ops key d1) (i div PCLSYNC_TREE_FANOUT) = Some (Some r)"
       "verify_walk ops key n ls2' (hmac_sha512_trunc32 ops key d2) (i div PCLSYNC_TREE_FANOUT) = Some (Some r)"
    and c: "d1 \<noteq> d2"
    using Suc.prems unfolding ls by (elim verify_walk_SucE) metis
  show ?case
  proof (cases "hmac_sha512_trunc32 ops key d1 = hmac_sha512_trunc32 ops key d2")
    case True
    with c show ?thesis by blast
  next
    case False
    with Suc.IH [OF w] show ?thesis by blast
  qed
qed simp



text \<open>An index near the end of the address range does not give the verdict false: the
  saturated product overflows in the addition after it.\<close>

lemma verify_path_overflow:
  assumes "at_levels t \<noteq> []" and "2 ^ 59 - 1 \<le> i"
  shows "verify_path ops key t i tag = None"
  using assms by (auto simp: verify_path_def Let_def min_def split: list.splits)

end
