(* ===== verification/Sector.thy ===== *)
theory Sector
  imports Crypto
begin

text \<open>The sector encryption (\<open>pcloud-crypto/src/pclsync_sector.rs\<close>): up to 4096 bytes
  are sealed under an AES and an HMAC key, the number of the sector and a random
  block, into a ciphertext of the same length and a detached tag of 32 bytes.  The
  operating system's random source is a parameter of \<open>seal_sector\<close>: the block it
  gave or its error.\<close>

section \<open>Data\<close>

definition PCLSYNC_SECTOR_SIZE :: nat where
  "PCLSYNC_SECTOR_SIZE = 4096"

definition PCLSYNC_AUTH_TAG_SIZE :: nat where
  "PCLSYNC_AUTH_TAG_SIZE = 32"

definition PCLSYNC_RND_SIZE :: nat where
  "PCLSYNC_RND_SIZE = 16"

record sector_keys =
  sk_aes_key :: "byte list"
  sk_hmac_key :: "byte list"

record sealed_sector =
  ss_ciphertext :: "byte list"
  ss_auth_tag :: "byte list"

datatype sector_error =
    PlaintextTooLong nat
  | CiphertextTooLong nat
  | AuthFailed
  | RngFailed string
  | EmptySector

section \<open>Helpers\<close>

definition hmac_sha512 :: "crypto_ops \<Rightarrow> byte list \<Rightarrow> byte list list \<Rightarrow> byte list" where
  "hmac_sha512 ops key parts = hmac512 ops key (concat parts)"

definition ecb_encrypt_two_blocks :: "(byte list \<Rightarrow> byte list) \<Rightarrow> byte list \<Rightarrow> byte list" where
  "ecb_encrypt_two_blocks enc blocks = enc (take BLOCK blocks) @ enc (drop BLOCK blocks)"

definition ecb_decrypt_two_blocks :: "(byte list \<Rightarrow> byte list) \<Rightarrow> byte list \<Rightarrow> byte list" where
  "ecb_decrypt_two_blocks dec blocks = dec (take BLOCK blocks) @ dec (drop BLOCK blocks)"

text \<open>Both directions of CBC with stealing first compute how many bytes the main loop
  covers and how many the stolen tail has.\<close>

definition steal_split :: "nat \<Rightarrow> nat \<times> nat" where
  "steal_split len =
     (if len mod BLOCK \<noteq> 0 then let r = len mod BLOCK in (len - (r + BLOCK), r) else (len, 0))"

definition cbc_cs_encrypt :: "(byte list \<Rightarrow> byte list) \<Rightarrow> byte list \<Rightarrow> byte list \<Rightarrow> byte list" where
  "cbc_cs_encrypt enc iv plaintext =
     (let (len, needsteal) = steal_split (length plaintext);
          (out, prev) = cbc_encrypt_blocks enc (len div BLOCK) iv plaintext
      in if needsteal \<noteq> 0 then
           let pen_pt = take BLOCK (drop len plaintext);
               tail_pt = take needsteal (drop (len + BLOCK) plaintext);
               aesdst = enc (xor_into prev pen_pt);
               final_ct = enc (xor_into (take needsteal aesdst) tail_pt @ drop needsteal aesdst)
           in out @ final_ct @ take needsteal aesdst
         else out)"

definition cbc_cs_decrypt :: "(byte list \<Rightarrow> byte list) \<Rightarrow> byte list \<Rightarrow> byte list \<Rightarrow> byte list" where
  "cbc_cs_decrypt dec iv ciphertext =
     (let (len, needsteal) = steal_split (length ciphertext);
          (out, prev) = cbc_decrypt_blocks dec (len div BLOCK) iv ciphertext
      in if needsteal \<noteq> 0 then
           let tail_ct = take needsteal (drop (len + BLOCK) ciphertext);
               aesdst = dec (take BLOCK (drop len ciphertext));
               tail_out = xor_into (take needsteal aesdst) tail_ct;
               again = xor_into (dec (tail_ct @ drop needsteal aesdst)) prev
           in out @ again @ tail_out
         else out)"

section \<open>Sealing and opening\<close>

definition seal_sector_with_rnd ::
  "crypto_ops \<Rightarrow> sector_keys \<Rightarrow> u64 \<Rightarrow> byte list \<Rightarrow> byte list \<Rightarrow> (sector_error, sealed_sector) result" where
  "seal_sector_with_rnd ops keys sector_id plaintext rnd =
     (if plaintext = [] then Err EmptySector
      else if length plaintext > PCLSYNC_SECTOR_SIZE then Err (PlaintextTooLong (length plaintext))
      else
        let sector_id_le = to_le_bytes sector_id;
            hmac_digest = hmac_sha512 ops (sk_hmac_key keys) [plaintext, sector_id_le, rnd];
            enc = aes_enc ops (sk_aes_key keys);
            datalen = length plaintext
        in if datalen < BLOCK then
             let tag_plain = xor_into (take datalen rnd) plaintext @ drop datalen rnd @ take BLOCK hmac_digest
             in Ok \<lparr>ss_ciphertext = take datalen rnd, ss_auth_tag = ecb_encrypt_two_blocks enc tag_plain\<rparr>
           else
             let tag_plain = take (BLOCK div 2) rnd @ take BLOCK hmac_digest @ drop (BLOCK div 2) rnd;
                 iv = take BLOCK hmac_digest
             in Ok \<lparr>ss_ciphertext = cbc_cs_encrypt enc iv plaintext,
                    ss_auth_tag = ecb_encrypt_two_blocks enc tag_plain\<rparr>)"

definition seal_sector ::
  "crypto_ops \<Rightarrow> (string, byte list) result \<Rightarrow> sector_keys \<Rightarrow> u64 \<Rightarrow> byte list \<Rightarrow> (sector_error, sealed_sector) result" where
  "seal_sector ops os_rng keys sector_id plaintext =
     (if plaintext = [] then Err EmptySector
      else if length plaintext > PCLSYNC_SECTOR_SIZE then Err (PlaintextTooLong (length plaintext))
      else case os_rng of
        Inl e \<Rightarrow> Err (RngFailed e)
      | Inr rnd \<Rightarrow> seal_sector_with_rnd ops keys sector_id plaintext rnd)"

text \<open>What \<open>open_sector\<close> recovers before it checks the digest: the plaintext, the first
  half of the digest and the random block.\<close>

definition recover_sector ::
  "crypto_ops \<Rightarrow> sector_keys \<Rightarrow> byte list \<Rightarrow> byte list \<Rightarrow> byte list \<times> byte list \<times> byte list" where
  "recover_sector ops keys ciphertext auth_tag =
     (let dec = aes_dec ops (sk_aes_key keys);
          tag_plain = ecb_decrypt_two_blocks dec auth_tag;
          datalen = length ciphertext
      in if datalen < BLOCK then
           let rnd_xored_pt = take BLOCK tag_plain; hmac_digest_slot = drop BLOCK tag_plain
           in (xor_into (take datalen rnd_xored_pt) ciphertext, hmac_digest_slot,
               ciphertext @ drop datalen rnd_xored_pt)
         else
           let iv = take BLOCK (drop (BLOCK div 2) tag_plain)
           in (cbc_cs_decrypt dec iv ciphertext, iv,
               take (BLOCK div 2) tag_plain @ drop (BLOCK + BLOCK div 2) tag_plain))"

definition open_sector ::
  "crypto_ops \<Rightarrow> sector_keys \<Rightarrow> u64 \<Rightarrow> byte list \<Rightarrow> byte list \<Rightarrow> (sector_error, byte list) result" where
  "open_sector ops keys sector_id ciphertext auth_tag =
     (if ciphertext = [] then Err EmptySector
      else if length ciphertext > PCLSYNC_SECTOR_SIZE then Err (CiphertextTooLong (length ciphertext))
      else
        let (plaintext, hmac16, rnd_recovered) = recover_sector ops keys ciphertext auth_tag;
            sector_id_le = to_le_bytes sector_id;
            recomputed = hmac_sha512 ops (sk_hmac_key keys) [plaintext, sector_id_le, rnd_recovered]
        in if take BLOCK recomputed \<noteq> hmac16 then Err AuthFailed else Ok plaintext)"

section \<open>The stealing variant\<close>

text \<open>On lengths that are not a multiple of the block size the sector routine computes
  what the CS3 routine of \<open>pclsync_modes.rs\<close> computes; on longer multiples the two
  differ by the exchange of the last two blocks, which only the latter makes.\<close>

lemma cbc_cs_encrypt_cts:
  assumes "crypto_laws ops" "length key = 32" "length iv = 16" and "16 \<le> length p"
  shows "aes256_cbc_cts_encrypt ops key iv p =
    Ok (if length p mod 16 = 0 then cs3_swap (cbc_cs_encrypt (aes_enc ops key) iv p)
        else cbc_cs_encrypt (aes_enc ops key) iv p)"
proof (cases "length p mod 16 = 0")
  case True
  with assms(4) show ?thesis
    by (simp add: aes256_cbc_cts_encrypt_def cbc_cs_encrypt_def steal_split_def Let_def split_beta)
next
  case False
  obtain m r where len: "length p = 16 * m + 16 + r" and mr: "length p mod 16 = r"
      "(length p - 16 - length p mod 16) div 16 = m" "0 < r" "r < 16"
    using stealing_lengths [OF assms(4) False] .
  have bc: "block_cipher (aes_enc ops key) (aes_dec ops key)" using assms by blast
  obtain c prev where c: "cbc_encrypt_blocks (aes_enc ops key) m iv p = (c, prev)" by force
  have lc: "length prev = 16" using cbc_encrypt_blocks_length [OF bc assms(3), of m p] c len by auto
  define pen t where "pen = take 16 (drop (16 * m) p)" and "t = drop (16 * m + 16) p"
  have lt: "length t = r" "length pen = 16" using len by (simp_all add: pen_def t_def)
  have x: "length (aes_enc ops key (xor_into pen prev)) = 16"
    using block_cipherD [OF bc, of "xor_into pen prev"] lt by simp
  have "length p - (r + 16) = 16 * m" using len by simp
  moreover have "xor_into prev pen = xor_into pen prev" using lc lt by (simp add: xor_into_commute)
  moreover have "take r t = t" using lt by simp
  ultimately show ?thesis using assms(4) False c mr lt x
    by (simp add: aes256_cbc_cts_encrypt_def cbc_cs_encrypt_def steal_split_def Let_def mult.commute [of m]
        pen_def [symmetric] t_def [symmetric] xor_into_padded)
qed

lemma cbc_cs_decrypt_cts:
  assumes "16 \<le> length c"
  shows "aes256_cbc_cts_decrypt ops key iv (if length c mod 16 = 0 then cs3_swap c else c) =
    Ok (cbc_cs_decrypt (aes_dec ops key) iv c)"
proof (cases "length c mod 16 = 0")
  case True
  with assms show ?thesis
    by (simp add: aes256_cbc_cts_decrypt_def cbc_cs_decrypt_def steal_split_def Let_def split_beta)
next
  case False
  obtain m r where len: "length c = 16 * m + 16 + r" and mr: "length c mod 16 = r"
      "(length c - 16 - length c mod 16) div 16 = m" "0 < r" "r < 16"
    using stealing_lengths [OF assms False] .
  have "length c - (r + 16) = 16 * m" using len by simp
  moreover have "length (drop (16 * m + 16) c) = r" using len by simp
  ultimately show ?thesis using assms False mr
    by (simp add: aes256_cbc_cts_decrypt_def cbc_cs_decrypt_def steal_split_def Let_def mult.commute [of m]
        split_beta)
qed

lemma cbc_cs_roundtrip:
  assumes "crypto_laws ops" "length key = 32" "length iv = 16" and "16 \<le> length p"
  shows "length (cbc_cs_encrypt (aes_enc ops key) iv p) = length p"
    and "cbc_cs_decrypt (aes_dec ops key) iv (cbc_cs_encrypt (aes_enc ops key) iv p) = p"
proof -
  let ?c = "cbc_cs_encrypt (aes_enc ops key) iv p"
  obtain c where c: "aes256_cbc_cts_encrypt ops key iv p = Ok c" "length c = length p"
      "aes256_cbc_cts_decrypt ops key iv c = Ok p"
    using aes256_cbc_cts_roundtrip [OF assms] by blast
  with cbc_cs_encrypt_cts [OF assms] show l: "length ?c = length p" by (auto split: if_splits)
  then have "c = (if length ?c mod 16 = 0 then cs3_swap ?c else ?c)"
    using c(1) cbc_cs_encrypt_cts [OF assms] by (simp split: if_splits)
  with c(3) cbc_cs_decrypt_cts [of ?c ops key iv] assms(4) l
  show "cbc_cs_decrypt (aes_dec ops key) iv ?c = p" by simp
qed

section \<open>Properties\<close>

definition keys_ok :: "sector_keys \<Rightarrow> bool" where
  "keys_ok keys \<longleftrightarrow> length (sk_aes_key keys) = 32"

lemma ecb_two_blocks_roundtrip:
  assumes "block_cipher enc dec" and "length b = 32"
  shows "ecb_decrypt_two_blocks dec (ecb_encrypt_two_blocks enc b) = b"
    and "length (ecb_encrypt_two_blocks enc b) = 32"
proof -
  have "length (enc (take 16 b)) = 16" "length (enc (drop 16 b)) = 16"
    "dec (enc (take 16 b)) = take 16 b" "dec (enc (drop 16 b)) = drop 16 b"
    using assms by (simp_all add: cipher)
  then show "ecb_decrypt_two_blocks dec (ecb_encrypt_two_blocks enc b) = b"
      and "length (ecb_encrypt_two_blocks enc b) = 32"
    by (simp_all add: ecb_decrypt_two_blocks_def ecb_encrypt_two_blocks_def)
qed

text \<open>What opening recovers from a sealed sector, whatever sector number is claimed.\<close>

lemma recover_sealed:
  assumes "crypto_laws ops" "keys_ok keys" "length rnd = 16"
    and "seal_sector_with_rnd ops keys sid p rnd = Ok s"
  shows "recover_sector ops keys (ss_ciphertext s) (ss_auth_tag s) =
      (p, take 16 (hmac_sha512 ops (sk_hmac_key keys) [p, to_le_bytes sid, rnd]), rnd)
    \<and> length (ss_ciphertext s) = length p \<and> length (ss_auth_tag s) = 32 \<and> p \<noteq> [] \<and> length p \<le> 4096"
proof -
  let ?key = "sk_aes_key keys"
  define h where "h = hmac_sha512 ops (sk_hmac_key keys) [p, to_le_bytes sid, rnd]"
  have lh: "length h = 64" using assms(1) by (simp add: h_def hmac_sha512_def length_hmac512)
  have bc: "block_cipher (aes_enc ops ?key) (aes_dec ops ?key)" using assms(1,2) by (auto simp: keys_ok_def)
  note ecb = ecb_two_blocks_roundtrip [OF bc]
  show ?thesis
  proof (cases "length p < 16")
    case True
    let ?tag = "xor_into (take (length p) rnd) p @ drop (length p) rnd @ take 16 h"
    have lt: "length ?tag = 32" using True lh assms(3) by simp
    have "s = \<lparr>ss_ciphertext = take (length p) rnd, ss_auth_tag = ecb_encrypt_two_blocks (aes_enc ops ?key) ?tag\<rparr>"
      and "p \<noteq> []" "length p \<le> 4096"
      using assms(4) True
      by (auto simp: seal_sector_with_rnd_def Let_def h_def PCLSYNC_SECTOR_SIZE_def split: if_splits)
    with True assms(3) lh ecb [OF lt] show ?thesis
      by (simp add: recover_sector_def Let_def h_def [symmetric])
  next
    case False
    let ?tag = "take 8 rnd @ take 16 h @ drop 8 rnd"
    let ?c = "cbc_cs_encrypt (aes_enc ops ?key) (take 16 h) p"
    have lt: "length ?tag = 32" using lh assms(3) by simp
    have "s = \<lparr>ss_ciphertext = ?c, ss_auth_tag = ecb_encrypt_two_blocks (aes_enc ops ?key) ?tag\<rparr>"
      and "p \<noteq> []" "length p \<le> 4096"
      using assms(4) False
      by (auto simp: seal_sector_with_rnd_def Let_def h_def PCLSYNC_SECTOR_SIZE_def split: if_splits)
    moreover have "length ?c = length p" "cbc_cs_decrypt (aes_dec ops ?key) (take 16 h) ?c = p"
      using cbc_cs_roundtrip [OF assms(1), of ?key "take 16 h" p] assms(2) False lh by (simp_all add: keys_ok_def)
    ultimately show ?thesis using False assms(3) lh ecb [OF lt]
      by (simp add: recover_sector_def Let_def h_def [symmetric])
  qed
qed

text \<open>C22: every plaintext of 1 to 4096 bytes can be sealed, the ciphertext has its
  length and the tag 32 bytes, and opening it under the same keys and sector number
  gives the plaintext back, on the short path and on the long one.\<close>

theorem open_sealed_sector:
  assumes "crypto_laws ops" "keys_ok keys" "length rnd = 16" and "p \<noteq> []" "length p \<le> 4096"
  shows "\<exists>s. seal_sector ops (Ok rnd) keys sid p = Ok s \<and> length (ss_ciphertext s) = length p
    \<and> length (ss_auth_tag s) = 32
    \<and> open_sector ops keys sid (ss_ciphertext s) (ss_auth_tag s) = Ok p"
proof -
  have "\<exists>s. seal_sector_with_rnd ops keys sid p rnd = Ok s"
    using assms(4,5) by (simp add: seal_sector_with_rnd_def Let_def PCLSYNC_SECTOR_SIZE_def)
  then obtain s where s: "seal_sector_with_rnd ops keys sid p rnd = Ok s" ..
  with recover_sealed [OF assms(1-3) s] assms(4,5) show ?thesis
    by (auto simp: seal_sector_def open_sector_def PCLSYNC_SECTOR_SIZE_def)
qed

theorem open_sealed_sector_witness:
  "\<exists>s. seal_sector xor_ops (Ok (replicate 16 5)) \<lparr>sk_aes_key = replicate 32 7, sk_hmac_key = [1]\<rparr> 3 (replicate 21 9) = Ok s
    \<and> open_sector xor_ops \<lparr>sk_aes_key = replicate 32 7, sk_hmac_key = [1]\<rparr> 3 (ss_ciphertext s) (ss_auth_tag s)
      = Ok (replicate 21 9)"
  using open_sealed_sector [OF xor_ops_laws, of "\<lparr>sk_aes_key = replicate 32 7, sk_hmac_key = [1]\<rparr>"
      "replicate 16 5" "replicate 21 9" 3] by (auto simp: keys_ok_def)

text \<open>A sealed sector moved to another position opens there exactly when the
  truncated digests of the two positions collide; otherwise it is refused as not
  authentic.\<close>

theorem moved_sector_refused:
  assumes "crypto_laws ops" "keys_ok keys" "length rnd = 16"
    and "seal_sector_with_rnd ops keys sid p rnd = Ok s"
  shows "open_sector ops keys sid' (ss_ciphertext s) (ss_auth_tag s) =
    (if take 16 (hmac512 ops (sk_hmac_key keys) (p @ to_le_bytes sid' @ rnd)) =
        take 16 (hmac512 ops (sk_hmac_key keys) (p @ to_le_bytes sid @ rnd))
     then Ok p else Err AuthFailed)"
  using recover_sealed [OF assms] by (auto simp: open_sector_def PCLSYNC_SECTOR_SIZE_def hmac_sha512_def)

theorem moved_sector_refused_witness:
  "\<exists>s. seal_sector_with_rnd xor_ops \<lparr>sk_aes_key = replicate 32 7, sk_hmac_key = [1]\<rparr> 3 [9] (replicate 16 5) = Ok s
    \<and> open_sector xor_ops \<lparr>sk_aes_key = replicate 32 7, sk_hmac_key = [1]\<rparr> 4 (ss_ciphertext s) (ss_auth_tag s)
      = Err AuthFailed"
proof -
  let ?k = "\<lparr>sk_aes_key = replicate 32 7, sk_hmac_key = [1]\<rparr>"
  obtain s where s: "seal_sector_with_rnd xor_ops ?k 3 [9] (replicate 16 5) = Ok s"
    by (simp add: seal_sector_with_rnd_def Let_def PCLSYNC_SECTOR_SIZE_def)
  have "take 16 (hmac512 xor_ops [1] ([9] @ to_le_bytes (4 :: u64) @ replicate 16 5)) \<noteq>
        take 16 (hmac512 xor_ops [1] ([9] @ to_le_bytes (3 :: u64) @ replicate 16 5))"
    by code_simp
  with moved_sector_refused [OF xor_ops_laws _ _ s, of 4] s show ?thesis by (simp add: keys_ok_def)
qed

text \<open>Whatever bytes are stored, opening a sector returns data only if the first 16
  bytes of the keyed digest over that data, the sector number and the recovered
  random block are the ones the tag carries.\<close>

lemma open_sector_authentic:
  assumes "open_sector ops keys sid c tag = Ok p"
  shows "c \<noteq> [] \<and> length c \<le> 4096
    \<and> (\<exists>rnd. recover_sector ops keys c tag =
        (p, take 16 (hmac512 ops (sk_hmac_key keys) (p @ to_le_bytes sid @ rnd)), rnd))"
  using assms by (auto simp: open_sector_def PCLSYNC_SECTOR_SIZE_def hmac_sha512_def Let_def
      split: if_splits prod.splits)

text \<open>The two stealing modes of the crate are not the same function: on two whole
  blocks their ciphertexts differ, although both stand for the mode of the same
  C routine.\<close>

lemma stealing_modes_differ:
  "aes256_cbc_cts_encrypt xor_ops (replicate 32 7) (replicate 16 1) (replicate 32 3) \<noteq>
     Ok (cbc_cs_encrypt (aes_enc xor_ops (replicate 32 7)) (replicate 16 1) (replicate 32 3))"
  by code_simp

end
