(* ===== verification/Filename.thy ===== *)
theory Filename
  imports Crypto
begin

text \<open>Encrypted file names (\<open>pcloud-crypto/src/pclsync_filename.rs\<close>): the name, padded
  with zeros to whole blocks, is encrypted in CBC mode with a tweak from the keyed
  digest of its tail, and written in unpadded base 32.  The operations are
  deterministic; a name is recovered from the ciphertext alone.\<close>

unbundle bit_operations_syntax

section \<open>Data\<close>

definition HMAC_KEY_LEN :: nat where
  "HMAC_KEY_LEN = 128"

definition PCLSYNC_MAX_FILENAME_PLAINTEXT :: nat where
  "PCLSYNC_MAX_FILENAME_PLAINTEXT = 255"

definition BASE32_ALPHABET :: string where
  "BASE32_ALPHABET = ''ABCDEFGHIJKLMNOPQRSTUVWXYZ234567''"

record filename_keys =
  fk_aes_key :: "byte list"
  fk_hmac_key :: "byte list"

datatype filename_error = FnEmpty | FnTooLong nat | Base32Decode | InvalidPlaintext | InvalidUtf8

section \<open>Base 32\<close>

definition base32_char :: "u32 \<Rightarrow> nat \<Rightarrow> char" where
  "base32_char buff bits = BASE32_ALPHABET ! unat (drop_bit bits buff AND 0x1F)"

function base32_flush :: "u32 \<Rightarrow> nat \<Rightarrow> string" where
  "base32_flush buff bits =
     (if bits = 0 then []
      else if bits < 5 then base32_char (push_bit (5 - bits) buff) 0 # base32_flush (push_bit (5 - bits) buff) 0
      else base32_char buff (bits - 5) # base32_flush buff (bits - 5))"
  by pat_completeness auto

termination by (relation "measure snd") auto

fun base32_encode_loop :: "u32 \<Rightarrow> nat \<Rightarrow> byte list \<Rightarrow> string" where
  "base32_encode_loop buff bits input =
     (if bits < 5 then
        (case input of
           [] \<Rightarrow> base32_flush buff bits
         | b # iter \<Rightarrow>
             base32_char (push_bit 8 buff OR ucast b) (bits + 8 - 5)
               # base32_encode_loop (push_bit 8 buff OR ucast b) (bits + 8 - 5) iter)
      else base32_char buff (bits - 5) # base32_encode_loop buff (bits - 5) input)"

declare base32_flush.simps [simp del] base32_encode_loop.simps [simp del]

definition base32_encode :: "byte list \<Rightarrow> string" where
  "base32_encode input = base32_encode_loop 0 0 input"

definition base32_value :: "byte \<Rightarrow> byte option" where
  "base32_value ch =
     (if 0x41 \<le> ch \<and> ch \<le> 0x5A then Some ((ch AND 0x1F) - 1)
      else if 0x32 \<le> ch \<and> ch \<le> 0x37 then Some (ch - (0x32 - 26))
      else None)"

fun base32_decode_loop :: "u32 \<Rightarrow> nat \<Rightarrow> byte list \<Rightarrow> (filename_error, byte list) result" where
  "base32_decode_loop buff bits [] = Ok []"
| "base32_decode_loop buff bits (ch # bytes) =
     (case base32_value ch of
        None \<Rightarrow> Err Base32Decode
      | Some v \<Rightarrow>
          if bits + 5 \<ge> 8 then
            map_sum id ((#) (ucast (drop_bit (bits + 5 - 8) (push_bit 5 buff OR ucast v))))
              (base32_decode_loop (push_bit 5 buff OR ucast v) (bits + 5 - 8) bytes)
          else base32_decode_loop (push_bit 5 buff OR ucast v) (bits + 5) bytes)"

definition base32_decode :: "string \<Rightarrow> (filename_error, byte list) result" where
  "base32_decode input = base32_decode_loop 0 0 (as_bytes input)"

section \<open>Names\<close>

definition hmac_sha512_tweak :: "crypto_ops \<Rightarrow> byte list \<Rightarrow> byte list \<Rightarrow> byte list" where
  "hmac_sha512_tweak ops hmac_key msg = take BLOCK (hmac512 ops hmac_key msg)"

definition encode_filename :: "crypto_ops \<Rightarrow> filename_keys \<Rightarrow> string \<Rightarrow> (filename_error, string) result" where
  "encode_filename ops keys plaintext =
     (let txt = as_bytes plaintext in
      if txt = [] then Err FnEmpty
      else if length txt > PCLSYNC_MAX_FILENAME_PLAINTEXT then Err (FnTooLong (length txt))
      else
        let padded_len = (length txt + BLOCK - 1) div BLOCK * BLOCK;
            padded = txt @ replicate (padded_len - length txt) 0;
            enc = aes_enc ops (fk_aes_key keys)
        in if padded_len = BLOCK then
             Ok (base32_encode (enc (xor_into padded (take BLOCK (fk_hmac_key keys)))))
           else
             let tweak = hmac_sha512_tweak ops (fk_hmac_key keys) (drop BLOCK txt);
                 first = enc (xor_into (take BLOCK padded) tweak);
                 (rest, _) = cbc_encrypt_blocks enc (padded_len div BLOCK - 1) first (drop BLOCK padded)
             in Ok (base32_encode (first @ rest)))"

text \<open>The bytes of the name, still padded, from a ciphertext of whole blocks.\<close>

definition decrypt_name :: "crypto_ops \<Rightarrow> filename_keys \<Rightarrow> byte list \<Rightarrow> byte list" where
  "decrypt_name ops keys data =
     (let dec = aes_dec ops (fk_aes_key keys) in
      if length data = BLOCK then
        xor_into (dec data) (take BLOCK (fk_hmac_key keys))
      else
        let blk0 = dec (take BLOCK data);
            (rest, _) = cbc_decrypt_blocks dec (length data div BLOCK - 1) (take BLOCK data) (drop BLOCK data);
            tail = takeWhile (\<lambda>b. b \<noteq> 0) rest;
            tweak = hmac_sha512_tweak ops (fk_hmac_key keys) tail
        in xor_into blk0 tweak @ rest)"

definition decode_filename :: "crypto_ops \<Rightarrow> filename_keys \<Rightarrow> string \<Rightarrow> (filename_error, string) result" where
  "decode_filename ops keys encoded =
     (if encoded = [] then Err FnEmpty
      else (case base32_decode encoded of
        Inl e \<Rightarrow> Err e
      | Inr data \<Rightarrow>
          if data = [] \<or> length data mod BLOCK \<noteq> 0 then Err InvalidPlaintext
          else
            let plain = decrypt_name ops keys data;
                name = takeWhile (\<lambda>b. b \<noteq> 0) plain;
                name_end = length name
            in if name_end < length plain \<and>
                  drop (name_end + 1) plain \<noteq> replicate (length plain - name_end - 1) 0 then Err InvalidPlaintext
               else if name_end = 0 then Err InvalidPlaintext
               else if utf8_valid name then Ok (of_bytes name) else Err InvalidUtf8))"

section \<open>Base 32 round trip\<close>

text \<open>The low \<open>n\<close> bits of a word, most significant first.\<close>

definition msb_bits :: "nat \<Rightarrow> 'a::len word \<Rightarrow> bool list" where
  "msb_bits n w = map (bit w) (rev [0..<n])"

lemma length_msb_bits [simp]: "length (msb_bits n w) = n"
  by (simp add: msb_bits_def)

lemma msb_bits_0 [simp]: "msb_bits 0 w = []"
  by (simp add: msb_bits_def)

lemma nth_msb_bits: "i < n \<Longrightarrow> msb_bits n w ! i = bit w (n - 1 - i)"
  by (simp add: msb_bits_def rev_nth)

lemma msb_bits_split: "msb_bits (m + k) w = msb_bits m (drop_bit k w) @ msb_bits k w"
  by (rule nth_equalityI) (auto simp: nth_msb_bits nth_append bit_drop_bit_eq add.commute [of k])

lemma msb_bits_eqI:
  "(\<And>i. i < n \<Longrightarrow> bit v i = bit w i) \<Longrightarrow> msb_bits n v = msb_bits n w"
  by (simp add: msb_bits_def)

lemma msb_bits_shift_in:
  fixes buff :: u32 and b :: byte
  assumes "n + k \<le> 32" and "unat b < 2 ^ k"
  shows "msb_bits (n + k) (push_bit k buff OR ucast b) = msb_bits n buff @ msb_bits k b"
proof (rule nth_equalityI)
  fix i
  assume i: "i < length (msb_bits (n + k) (push_bit k buff OR ucast b))"
  have "k \<le> j \<Longrightarrow> \<not> bit b j" for j using bit_word_less [OF _ assms(2), of j] by auto
  with i assms(1) show "msb_bits (n + k) (push_bit k buff OR ucast b) ! i = (msb_bits n buff @ msb_bits k b) ! i"
    by (auto simp: nth_msb_bits nth_append bit_or_iff bit_push_bit_iff bit_ucast_iff add.commute [of k])
qed simp

lemma msb_bits_inj_byte: "msb_bits 8 (v :: byte) = msb_bits 8 w \<Longrightarrow> v = w"
proof (rule bit_word_eqI)
  fix i
  assume "msb_bits 8 v = msb_bits 8 w" and i: "i < LENGTH(8)"
  then have "msb_bits 8 v ! (7 - i) = msb_bits 8 w ! (7 - i)" by simp
  with i show "bit v i = bit w i" by (simp add: nth_msb_bits)
qed

text \<open>The five bits a character stands for.\<close>

definition char_bits :: "byte \<Rightarrow> bool list" where
  "char_bits ch = (case base32_value ch of Some v \<Rightarrow> msb_bits 5 v | None \<Rightarrow> [])"

definition base32_ok :: "byte \<Rightarrow> bool" where
  "base32_ok ch \<longleftrightarrow> (\<exists>v. base32_value ch = Some v \<and> unat v < 32)"

lemma base32_value_alphabet:
  assumes "n < 32"
  shows "base32_value (byte_of_char (BASE32_ALPHABET ! n)) = Some (of_nat n)"
proof -
  have "list_all (\<lambda>n. base32_value (byte_of_char (BASE32_ALPHABET ! n)) = Some (of_nat n)) [0..<32]"
    by (simp add: upt_conv_Cons base32_value_def BASE32_ALPHABET_def byte_of_char_def)
  with assms show ?thesis by (simp add: list_all_iff)
qed

lemma base32_char_bits:
  "base32_ok (byte_of_char (base32_char buff k))"
  "char_bits (byte_of_char (base32_char buff k)) = msb_bits 5 (drop_bit k buff)"
proof -
  let ?x = "drop_bit k buff AND 0x1F"
  have m: "?x = take_bit 5 (drop_bit k buff)"
    by (simp add: take_bit_eq_mask mask_eq_exp_minus_1)
  have x: "unat ?x < 32"
    using take_bit_nat_less_exp [of 5 "unat (drop_bit k buff)"] by (simp only: m unsigned_take_bit_eq) simp
  have v: "base32_value (byte_of_char (base32_char buff k)) = Some (of_nat (unat ?x))"
    using base32_value_alphabet [OF x] by (simp add: base32_char_def)
  with x show "base32_ok (byte_of_char (base32_char buff k))"
    by (auto simp: base32_ok_def unsigned_ucast_eq take_bit_nat_eq_self)
  have "msb_bits 5 (of_nat (unat ?x) :: byte) = msb_bits 5 (drop_bit k buff)"
    by (rule msb_bits_eqI) (auto simp: m bit_take_bit_iff bit_ucast_iff)
  with v show "char_bits (byte_of_char (base32_char buff k)) = msb_bits 5 (drop_bit k buff)"
    by (simp add: char_bits_def)
qed


lemma base32_flush_bits:
  assumes "bits < 5"
  shows "(\<forall>ch \<in> set (as_bytes (base32_flush buff bits)). base32_ok ch)
    \<and> (\<exists>pad < 5. concat (map char_bits (as_bytes (base32_flush buff bits))) =
        msb_bits bits buff @ replicate pad False)"
proof (cases "bits = 0")
  case True
  then show ?thesis by (simp add: base32_flush.simps as_bytes_def)
next
  case False
  have "msb_bits (bits + (5 - bits)) (push_bit (5 - bits) buff OR ucast (0 :: byte)) =
      msb_bits bits buff @ msb_bits (5 - bits) (0 :: byte)"
    using assms by (intro msb_bits_shift_in) auto
  also have "msb_bits (5 - bits) (0 :: byte) = replicate (5 - bits) False"
    by (rule nth_equalityI) (auto simp: nth_msb_bits)
  finally have "msb_bits 5 (push_bit (5 - bits) buff) = msb_bits bits buff @ replicate (5 - bits) False"
    using assms by simp
  with False assms show ?thesis
    by (auto simp: base32_flush.simps [of _ bits] base32_flush.simps [of _ 0] as_bytes_def base32_char_bits
        intro!: exI [of _ "5 - bits"])
qed

lemma base32_encode_loop_bits:
  "bits \<le> 12 \<Longrightarrow> (\<forall>ch \<in> set (as_bytes (base32_encode_loop buff bits input)). base32_ok ch)
    \<and> (\<exists>pad < 5. concat (map char_bits (as_bytes (base32_encode_loop buff bits input))) =
        msb_bits bits buff @ concat (map (msb_bits 8) input) @ replicate pad False)"
proof (induction buff bits input rule: base32_encode_loop.induct)
  case (1 buff bits input)
  show ?case
  proof (cases "bits < 5")
    case lt: True
    show ?thesis
    proof (cases input)
      case Nil
      with lt base32_flush_bits [OF lt, of buff] show ?thesis
        by (subst (1 2) base32_encode_loop.simps) simp
    next
      case (Cons b iter)
      let ?w = "push_bit 8 buff OR ucast b"
      have "unat b < 2 ^ 8" using unsigned_less [of b, where 'a = nat] by simp
      then have "msb_bits (bits + 8) ?w = msb_bits bits buff @ msb_bits 8 b"
        using lt by (intro msb_bits_shift_in) auto
      moreover have "msb_bits (5 + (bits + 3)) ?w = msb_bits 5 (drop_bit (bits + 3) ?w) @ msb_bits (bits + 3) ?w"
        by (rule msb_bits_split)
      ultimately have "msb_bits 5 (drop_bit (bits + 3) ?w) @ msb_bits (bits + 3) ?w = msb_bits bits buff @ msb_bits 8 b"
        by (simp add: add.commute del: drop_bit_or)
      then show ?thesis using "1.IH"(1) [OF lt Cons] lt Cons
        by (subst (1 2) base32_encode_loop.simps)
          (auto simp: as_bytes_def base32_char_bits add.commute [of 3] simp del: drop_bit_or)
    qed
  next
    case ge: False
    have "msb_bits bits buff = msb_bits 5 (drop_bit (bits - 5) buff) @ msb_bits (bits - 5) buff"
      using msb_bits_split [of 5 "bits - 5" buff] ge by simp
    then show ?thesis using "1.IH"(2) [OF ge] "1.prems" ge
      by (subst (1 2) base32_encode_loop.simps) (auto simp: as_bytes_def base32_char_bits)
  qed
qed

lemma base32_decode_loop_bits:
  "bits < 8 \<Longrightarrow> \<forall>ch \<in> set chs. base32_ok ch \<Longrightarrow>
   \<exists>out rem. base32_decode_loop buff bits chs = Ok out \<and> length rem < 8
     \<and> msb_bits bits buff @ concat (map char_bits chs) = concat (map (msb_bits 8) out) @ rem"
proof (induction chs arbitrary: buff bits)
  case (Cons ch chs)
  then obtain v where v: "base32_value ch = Some v" "unat v < 2 ^ 5" by (auto simp: base32_ok_def)
  let ?w = "push_bit 5 buff OR ucast v"
  have w: "msb_bits (bits + 5) ?w = msb_bits bits buff @ msb_bits 5 v"
    using Cons.prems(1) v(2) by (intro msb_bits_shift_in) auto
  show ?case
  proof (cases "bits + 5 \<ge> 8")
    case True
    obtain out rem where o: "base32_decode_loop ?w (bits - 3) chs = Ok out" "length rem < 8"
        "msb_bits (bits - 3) ?w @ concat (map char_bits chs) = concat (map (msb_bits 8) out) @ rem"
      using Cons.IH [of "bits - 3" ?w] Cons.prems less_imp_diff_less [OF Cons.prems(1), of 3] by auto
    let ?b = "ucast (drop_bit (bits - 3) ?w) :: byte"
    have "msb_bits (8 + (bits - 3)) ?w = msb_bits 8 (drop_bit (bits - 3) ?w) @ msb_bits (bits - 3) ?w"
      by (rule msb_bits_split)
    also have "msb_bits 8 (drop_bit (bits - 3) ?w) = msb_bits 8 ?b"
      by (rule msb_bits_eqI) (simp add: bit_ucast_iff del: drop_bit_or)
    finally have "msb_bits bits buff @ char_bits ch = msb_bits 8 ?b @ msb_bits (bits - 3) ?w"
      using True v(1) w by (simp add: char_bits_def add.commute del: drop_bit_or)
    then have "msb_bits bits buff @ concat (map char_bits (ch # chs)) = concat (map (msb_bits 8) (?b # out)) @ rem"
      using o(3) by (simp del: drop_bit_or) (metis append_assoc)
    moreover have "base32_decode_loop buff bits (ch # chs) = Ok (?b # out)" using True v(1) o(1) by simp
    ultimately show ?thesis using o(2) by blast
  next
    case False
    with Cons.IH [of "bits + 5" ?w] Cons.prems v w show ?thesis by (auto simp: char_bits_def)
  qed
qed simp

lemma byte_bits_cancel:
  assumes "concat (map (msb_bits 8) xs) @ r = concat (map (msb_bits 8) ys) @ p" and "length r < 8" "length p < 8"
  shows "xs = (ys :: byte list)"
  using assms(1)
proof (induction xs arbitrary: ys)
  case Nil
  show ?case
  proof (cases ys)
    case (Cons y ys')
    with Nil assms(2) show ?thesis by (auto dest: arg_cong [of _ _ length])
  qed simp
next
  case (Cons x xs)
  show ?case
  proof (cases ys)
    case Nil
    with Cons assms(3) show ?thesis by (auto dest: arg_cong [of _ _ length])
  next
    case (Cons y ys')
    with Cons.prems Cons.IH [of ys'] show ?thesis by (auto dest: msb_bits_inj_byte)
  qed
qed

lemma base32_roundtrip [simp]: "base32_decode (base32_encode bs) = Ok bs"
proof -
  let ?s = "as_bytes (base32_encode bs)"
  obtain pad where p: "\<forall>ch \<in> set ?s. base32_ok ch" "pad < 5"
      "concat (map char_bits ?s) = concat (map (msb_bits 8) bs) @ replicate pad False"
    using base32_encode_loop_bits [of 0 0 bs] by (auto simp: base32_encode_def)
  obtain out rem where d: "base32_decode (base32_encode bs) = Ok out" "length rem < 8"
      "concat (map char_bits ?s) = concat (map (msb_bits 8) out) @ rem"
    using base32_decode_loop_bits [of 0 ?s 0] p(1) by (auto simp: base32_decode_def)
  have "out = bs" by (rule byte_bits_cancel [of _ rem _ "replicate pad False"]) (use p d in auto)
  with d show ?thesis by simp
qed

text \<open>An encoding has \<open>ceil (8 n / 5)\<close> characters: 26 and 52 for one and two blocks, but
  77, not 78, for three.\<close>

lemma length_base32_encode: "length (base32_encode bs) = (8 * length bs + 4) div 5"
proof -
  let ?s = "as_bytes (base32_encode bs)"
  obtain pad where p: "\<forall>ch \<in> set ?s. base32_ok ch" "pad < 5"
      "concat (map char_bits ?s) = concat (map (msb_bits 8) bs) @ replicate pad False"
    using base32_encode_loop_bits [of 0 0 bs] by (auto simp: base32_encode_def)
  have "length (concat (map char_bits cs)) = 5 * length cs" if "\<forall>ch \<in> set cs. base32_ok ch" for cs
    using that by (induction cs) (auto simp: base32_ok_def char_bits_def)
  moreover have "length (concat (map (msb_bits 8) bs)) = 8 * length bs" by (induction bs) auto
  ultimately have "5 * length (base32_encode bs) = 8 * length bs + pad"
    using p(1) arg_cong [OF p(3), of length] by simp
  with p(2) show ?thesis by simp
qed

section \<open>Name round trip\<close>

definition filename_keys_ok :: "filename_keys \<Rightarrow> bool" where
  "filename_keys_ok keys \<longleftrightarrow> length (fk_aes_key keys) = 32 \<and> length (fk_hmac_key keys) = HMAC_KEY_LEN"

lemma padded_length:
  fixes n :: nat
  assumes "0 < n"
  obtains m where "(n + 16 - 1) div 16 * 16 = 16 * m + 16" "n \<le> 16 * m + 16" "16 * m < n"
proof
  let ?m = "(n - 1) div 16"
  have "n + 16 - 1 = (n - 1) + 16" using assms by simp
  then have "(n + 16 - 1) div 16 = ?m + 1" by (simp only: div_add_self2)
  then show "(n + 16 - 1) div 16 * 16 = 16 * ?m + 16" by simp
  have "16 * ?m + (n - 1) mod 16 = n - 1" by simp
  moreover have "(n - 1) mod 16 < 16" by simp
  ultimately show "n \<le> 16 * ?m + 16" "16 * ?m < n" using assms by linarith+
qed

lemma takeWhile_padded: "0 \<notin> set bs \<Longrightarrow> takeWhile (\<lambda>b. b \<noteq> 0) (bs @ replicate k (0 :: byte)) = bs"
  by (induction bs) (auto simp: takeWhile_replicate)

lemma decrypt_encrypted_name:
  assumes "crypto_laws ops" "filename_keys_ok keys" and "0 < length txt" "length txt \<le> 255" "0 \<notin> set txt"
    and "txt = as_bytes name" "encode_filename ops keys name = Ok enc"
  obtains data m where "base32_decode enc = Ok data" "length data = 16 * m + 16" "length txt \<le> 16 * m + 16"
    "decrypt_name ops keys data = txt @ replicate (16 * m + 16 - length txt) 0"
proof -
  obtain m where m: "(length txt + 16 - 1) div 16 * 16 = 16 * m + 16" "length txt \<le> 16 * m + 16" "16 * m < length txt"
    using padded_length [OF assms(3)] .
  define padded where "padded = txt @ replicate (16 * m + 16 - length txt) 0"
  have lp: "length padded = 16 * m + 16" using m(2) by (simp add: padded_def)
  let ?enc = "aes_enc ops (fk_aes_key keys)" and ?dec = "aes_dec ops (fk_aes_key keys)"
  have bc: "block_cipher ?enc ?dec" using assms(1,2) by (auto simp: filename_keys_ok_def)
  note e = assms(7) [unfolded encode_filename_def assms(6) [symmetric]]
  show ?thesis
  proof (cases "m = 0")
    case True
    let ?data = "?enc (xor_into padded (take 16 (fk_hmac_key keys)))"
    have "length ?data = 16" "?dec ?data = xor_into padded (take 16 (fk_hmac_key keys))"
      using block_cipherD [OF bc, of "xor_into padded (take 16 (fk_hmac_key keys))"] lp True by simp_all
    moreover have "enc = base32_encode ?data"
      using e m True assms(3,4) by (auto simp: Let_def padded_def PCLSYNC_MAX_FILENAME_PLAINTEXT_def)
    ultimately show ?thesis using that [of ?data 0] m True
      by (simp add: decrypt_name_def padded_def)
  next
    case False
    define tweak where "tweak = hmac_sha512_tweak ops (fk_hmac_key keys) (drop 16 txt)"
    define first where "first = ?enc (xor_into (take 16 padded) tweak)"
    have f: "length first = 16" "?dec first = xor_into (take 16 padded) tweak"
      using block_cipherD [OF bc, of "xor_into (take 16 padded) tweak"] lp by (simp_all add: first_def)
    obtain rest prev where r: "cbc_encrypt_blocks ?enc m first (drop 16 padded) = (rest, prev)" by force
    have lr: "length rest = 16 * m" using cbc_encrypt_blocks_length [OF bc f(1), of m "drop 16 padded"] r lp by simp
    have dr: "cbc_decrypt_blocks ?dec m first rest = (drop 16 padded, prev)"
      using cbc_blocks_roundtrip [OF bc f(1) _ r, of "[]"] lp by simp
    have "enc = base32_encode (first @ rest)"
      using e m False r assms(3,4)
      by (auto simp: Let_def padded_def [symmetric] PCLSYNC_MAX_FILENAME_PLAINTEXT_def tweak_def [symmetric]
          first_def [symmetric])
    moreover have "16 \<le> length txt" using m(3) False by linarith
    then have d: "drop 16 padded = drop 16 txt @ replicate (16 * m + 16 - length txt) 0"
      by (simp add: padded_def)
    have "takeWhile (\<lambda>b. b \<noteq> 0) (drop 16 padded) = drop 16 txt"
      unfolding d using assms(5) by (intro takeWhile_padded) (auto dest: in_set_dropD)
    then have "decrypt_name ops keys (first @ rest) = take 16 padded @ drop 16 padded"
      using False f lr dr by (simp add: decrypt_name_def Let_def tweak_def [symmetric])
    then have "decrypt_name ops keys (first @ rest) = txt @ replicate (16 * m + 16 - length txt) 0"
      by (simp only: append_take_drop_id padded_def)
    ultimately show ?thesis using that [of "first @ rest" m] f(1) lr m(2) by simp
  qed
qed

text \<open>Every file name of 1 to 255 bytes without a zero byte is recovered from its
  encrypted form under the same keys; longer and empty names are refused.\<close>

theorem filename_roundtrip:
  assumes "crypto_laws ops" "filename_keys_ok keys" and "str_valid name" "CHR 0x00 \<notin> set name"
  shows "(name \<noteq> [] \<and> length name \<le> 255 \<longrightarrow>
      (\<exists>enc. encode_filename ops keys name = Ok enc \<and> decode_filename ops keys enc = Ok name))
    \<and> (name = [] \<longrightarrow> encode_filename ops keys name = Err FnEmpty)
    \<and> (length name > 255 \<longrightarrow> encode_filename ops keys name = Err (FnTooLong (length name)))"
proof (intro conjI impI)
  assume n: "name \<noteq> [] \<and> length name \<le> 255"
  let ?t = "as_bytes name"
  have z: "0 \<notin> set ?t"
  proof
    assume "0 \<in> set ?t"
    then obtain c where "c \<in> set name" "byte_of_char c = byte_of_char (CHR 0x00)"
      by (auto simp: as_bytes_def byte_of_char_def)
    with assms(4) show False by (metis char_of_byte_of_char)
  qed
  obtain enc where enc: "encode_filename ops keys name = Ok enc"
    using n by (fastforce simp: encode_filename_def Let_def PCLSYNC_MAX_FILENAME_PLAINTEXT_def as_bytes_def
        split: prod.splits)
  obtain data m where d: "base32_decode enc = Ok data" "length data = 16 * m + 16" "length ?t \<le> 16 * m + 16"
      "decrypt_name ops keys data = ?t @ replicate (16 * m + 16 - length ?t) 0"
    by (rule decrypt_encrypted_name [OF assms(1,2) _ _ z refl enc]) (use n in auto)
  have "enc \<noteq> []" "data \<noteq> []" using d(1,2) by (auto simp: base32_decode_def as_bytes_def)
  with d n assms(3) have "decode_filename ops keys enc = Ok name"
    by (simp add: decode_filename_def Let_def takeWhile_padded [OF z] str_valid_def)
  with enc show "\<exists>enc. encode_filename ops keys name = Ok enc \<and> decode_filename ops keys enc = Ok name" by blast
qed (auto simp: encode_filename_def Let_def PCLSYNC_MAX_FILENAME_PLAINTEXT_def as_bytes_def)

theorem filename_roundtrip_witness:
  "\<exists>enc. encode_filename xor_ops \<lparr>fk_aes_key = replicate 32 7, fk_hmac_key = replicate 128 9\<rparr> ''report of the year.txt'' = Ok enc
    \<and> decode_filename xor_ops \<lparr>fk_aes_key = replicate 32 7, fk_hmac_key = replicate 128 9\<rparr> enc = Ok ''report of the year.txt''"
proof -
  have "str_valid ''report of the year.txt''" by code_simp
  with filename_roundtrip [OF xor_ops_laws, of "\<lparr>fk_aes_key = replicate 32 7, fk_hmac_key = replicate 128 9\<rparr>"
      "''report of the year.txt''"]
  show ?thesis by (simp add: filename_keys_ok_def HMAC_KEY_LEN_def)
qed

end
