(* ===== verification/Kms.thy ===== *)
theory Kms
  imports Bytes
begin

text \<open>Key management (\<open>pcloud-kms/src/lib.rs\<close>): the provider interface, the provider
  that stands for none, and the process-local cache of unwrapped data keys.  The
  cache is a map whose entries carry the time (in milliseconds of the monotonic
  clock) at which they were stored; the vendors' services are the functions of a
  \<open>kms_provider\<close>.\<close>

type_synonym millis = nat

datatype kms_error =
    Unreachable string
  | KmsAuthFailed
  | PolicyDenied
  | KeyNotFound string
  | Malformed
  | NotImplemented string
  | KmsOther string

record kms_provider =
  kms_name :: string
  encrypt_dek :: "string \<Rightarrow> byte list \<Rightarrow> string option \<Rightarrow> (kms_error, byte list) result"
  decrypt_dek :: "string \<Rightarrow> byte list \<Rightarrow> string option \<Rightarrow> (kms_error, byte list) result"

definition null_kms :: kms_provider where
  "null_kms = \<lparr>kms_name = ''null'',
     encrypt_dek = (\<lambda>_ _ _. Err (NotImplemented ''null'')),
     decrypt_dek = (\<lambda>_ _ _. Err (NotImplemented ''null''))\<rparr>"

record cache_key =
  ck_provider :: string
  ck_key_id :: string
  ck_wrapped :: "byte list"
  ck_context :: "string option"

record cache_entry =
  ce_dek :: "byte list"
  ce_inserted :: millis

type_synonym dek_cache = "cache_key \<rightharpoonup> cache_entry"

definition DEFAULT_CACHE_TTL :: millis where
  "DEFAULT_CACHE_TTL = 300 * 1000"

definition cache_lookup :: "dek_cache \<Rightarrow> cache_key \<Rightarrow> millis \<Rightarrow> millis \<Rightarrow> byte list option \<times> dek_cache" where
  "cache_lookup cache key ttl now =
     (case cache key of
        None \<Rightarrow> (None, cache)
      | Some entry \<Rightarrow>
          if now - ce_inserted entry \<le> ttl then (Some (ce_dek entry), cache)
          else (None, cache(key := None)))"

definition cache_store :: "dek_cache \<Rightarrow> cache_key \<Rightarrow> byte list \<Rightarrow> millis \<Rightarrow> dek_cache" where
  "cache_store cache key dek now = cache(key \<mapsto> \<lparr>ce_dek = dek, ce_inserted = now\<rparr>)"

definition unwrap_cached ::
  "kms_provider \<Rightarrow> dek_cache \<Rightarrow> string \<Rightarrow> byte list \<Rightarrow> string option \<Rightarrow> millis \<Rightarrow> millis
    \<Rightarrow> (kms_error, byte list) result \<times> dek_cache" where
  "unwrap_cached kms cache key_id wrapped context ttl now =
     (let key = \<lparr>ck_provider = kms_name kms, ck_key_id = key_id, ck_wrapped = wrapped, ck_context = context\<rparr> in
      case cache_lookup cache key ttl now of
        (Some dek, cache) \<Rightarrow> (Ok dek, cache)
      | (None, cache) \<Rightarrow>
          (case decrypt_dek kms key_id wrapped context of
             Inl e \<Rightarrow> (Err e, cache)
           | Inr fresh \<Rightarrow> (Ok fresh, cache_store cache key fresh now)))"

definition evict_cached_dek ::
  "dek_cache \<Rightarrow> string \<Rightarrow> string \<Rightarrow> byte list \<Rightarrow> string option \<Rightarrow> bool \<times> dek_cache" where
  "evict_cached_dek cache provider key_id wrapped context =
     (let key = \<lparr>ck_provider = provider, ck_key_id = key_id, ck_wrapped = wrapped, ck_context = context\<rparr>
      in (cache key \<noteq> None, cache(key := None)))"

section \<open>The cache tells the truth\<close>

text \<open>Every entry is what the provider unwraps.\<close>

definition cache_sound :: "kms_provider \<Rightarrow> dek_cache \<Rightarrow> bool" where
  "cache_sound kms cache \<longleftrightarrow>
     (\<forall>key entry. cache key = Some entry \<longrightarrow> ck_provider key = kms_name kms \<longrightarrow>
        decrypt_dek kms (ck_key_id key) (ck_wrapped key) (ck_context key) = Ok (ce_dek entry))"

lemma cache_sound_empty [simp]: "cache_sound kms Map.empty"
  by (simp add: cache_sound_def)

lemma cache_sound_evict [simp]: "cache_sound kms cache \<Longrightarrow> cache_sound kms (cache(k := None))"
  by (auto simp: cache_sound_def)

lemma cache_soundD:
  "cache_sound kms cache \<Longrightarrow>
   cache \<lparr>ck_provider = kms_name kms, ck_key_id = key_id, ck_wrapped = wrapped, ck_context = context\<rparr> = Some entry \<Longrightarrow>
   decrypt_dek kms key_id wrapped context = Ok (ce_dek entry)"
  unfolding cache_sound_def by (metis cache_key.select_convs)

lemma cache_sound_store:
  "cache_sound kms cache \<Longrightarrow> decrypt_dek kms (ck_key_id key) (ck_wrapped key) (ck_context key) = Ok dek \<Longrightarrow>
   cache_sound kms (cache_store cache key dek now)"
  by (auto simp: cache_sound_def cache_store_def)

lemma unwrap_cached_sound:
  assumes "cache_sound kms cache" and "unwrap_cached kms cache key_id wrapped context ttl now = (r, cache')"
  shows "r = decrypt_dek kms key_id wrapped context \<and> cache_sound kms cache'"
  using assms
  by (auto simp: unwrap_cached_def cache_lookup_def Let_def cache_soundD cache_sound_store
      split: option.splits if_splits sum.splits)

text \<open>After an eviction the next unwrapping goes to the provider, whatever was cached.\<close>

lemma unwrap_after_evict:
  "fst (unwrap_cached kms (snd (evict_cached_dek cache (kms_name kms) key_id wrapped context)) key_id wrapped context ttl now)
    = decrypt_dek kms key_id wrapped context"
  by (simp add: unwrap_cached_def evict_cached_dek_def cache_lookup_def Let_def split: sum.splits)

end
