(* ===== verification/Compat_Profile.thy ===== *)
theory Compat_Profile
  imports Crypto
begin

text \<open>The profile of the compatible back-end: the key derivation
  (\<open>pclsync_kdf.rs\<close>), the wrapped symmetric keys (\<open>pclsync_rsa.rs\<close>) and the profile
  blobs (\<open>pclsync_compat_profile.rs\<close>).  PBKDF2, HMAC-SHA-256 and RSA come from
  external crates: they are the parameter \<open>compat_ops\<close>, over abstract types of
  private and public keys, and \<open>compat_laws\<close> says what is used of them.\<close>

section \<open>Primitives\<close>

record ('priv, 'pub) compat_ops =
  prims :: crypto_ops
  pbkdf2 :: "byte list \<Rightarrow> byte list \<Rightarrow> nat \<Rightarrow> byte list"
  hmac256 :: "byte list \<Rightarrow> byte list \<Rightarrow> byte list"
  rsa_public :: "'priv \<Rightarrow> 'pub"
  rsa_encrypt :: "'pub \<Rightarrow> byte list \<Rightarrow> byte list option"
  rsa_decrypt :: "'priv \<Rightarrow> byte list \<Rightarrow> byte list option"
  priv_to_der :: "'priv \<Rightarrow> byte list option"
  priv_from_der :: "byte list \<Rightarrow> 'priv option"
  pub_to_der :: "'pub \<Rightarrow> byte list option"

definition compat_laws :: "('priv, 'pub) compat_ops \<Rightarrow> bool" where
  "compat_laws ops \<longleftrightarrow> crypto_laws (prims ops)
     \<and> (\<forall>pw salt n. length (pbkdf2 ops pw salt n) = 48)
     \<and> (\<forall>k der. priv_to_der ops k = Some der \<longrightarrow> priv_from_der ops der = Some k)
     \<and> (\<forall>k m c. rsa_encrypt ops (rsa_public ops k) m = Some c \<longrightarrow> rsa_decrypt ops k c = Some m)"

definition toy_compat_ops :: "(byte list, byte list) compat_ops" where
  "toy_compat_ops = \<lparr>prims = xor_ops,
     pbkdf2 = (\<lambda>pw salt n. take 48 (pw @ salt @ replicate 48 0)),
     hmac256 = (\<lambda>key msg. take 32 (key @ msg @ replicate 32 0)),
     rsa_public = id, rsa_encrypt = (\<lambda>k m. if length m = 168 then Some (m @ replicate 344 0) else None),
     rsa_decrypt = (\<lambda>k c. Some (take 168 c)), priv_to_der = Some, priv_from_der = Some, pub_to_der = Some\<rparr>"

lemma toy_compat_laws: "compat_laws toy_compat_ops"
  by (auto simp: compat_laws_def toy_compat_ops_def xor_ops_laws min_def)

section \<open>Key derivation\<close>

definition PCLSYNC_PBKDF2_ITERATIONS :: nat where
  "PCLSYNC_PBKDF2_ITERATIONS = 20000"

definition PCLSYNC_PBKDF2_SALT_LEN :: nat where
  "PCLSYNC_PBKDF2_SALT_LEN = 64"

record unlocked_kek =
  kek_key :: "byte list"
  kek_iv :: "byte list"

definition derive_kek :: "('priv, 'pub) compat_ops \<Rightarrow> string \<Rightarrow> byte list \<Rightarrow> unlocked_kek" where
  "derive_kek ops password salt =
     (let dk = pbkdf2 ops (as_bytes password) salt PCLSYNC_PBKDF2_ITERATIONS
      in \<lparr>kek_key = take 32 dk, kek_iv = drop 32 dk\<rparr>)"

lemma length_derive_kek [simp]:
  assumes "compat_laws ops"
  shows "length (kek_key (derive_kek ops pw salt)) = 32" "length (kek_iv (derive_kek ops pw salt)) = 16"
  using assms by (simp_all add: compat_laws_def derive_kek_def Let_def)

section \<open>Wrapped symmetric keys\<close>

datatype rsa_error =
    KeyGen
  | OaepFailed
  | WrongCiphertextLen nat
  | WrongSymKeyLen nat
  | UnsupportedSymKeyType u32
  | DerFailed

record sym_key_ver1 =
  sym_type :: u32
  sym_flags :: u32
  sym_aes_key :: "byte list"
  sym_hmac_key :: "byte list"

definition PCLSYNC_SYM_KEY_VER1_SIZE :: nat where
  "PCLSYNC_SYM_KEY_VER1_SIZE = 8 + 32 + 128"

definition PCLSYNC_RSA_BYTES :: nat where
  "PCLSYNC_RSA_BYTES = 4096 div 8"

definition serialize_sym_key_ver1 :: "sym_key_ver1 \<Rightarrow> byte list" where
  "serialize_sym_key_ver1 skey =
     to_le_bytes (sym_type skey) @ to_le_bytes (sym_flags skey) @ sym_aes_key skey @ sym_hmac_key skey"

definition parse_sym_key_ver1 :: "byte list \<Rightarrow> (rsa_error, sym_key_ver1) result" where
  "parse_sym_key_ver1 buf =
     (if length buf \<noteq> PCLSYNC_SYM_KEY_VER1_SIZE then Err (WrongSymKeyLen (length buf))
      else
        let typ = from_le_bytes (take 4 buf);
            flags = from_le_bytes (take 4 (drop 4 buf))
        in if typ \<noteq> 0 then Err (UnsupportedSymKeyType typ)
           else Ok \<lparr>sym_type = typ, sym_flags = flags, sym_aes_key = take 32 (drop 8 buf),
                    sym_hmac_key = drop 40 buf\<rparr>)"

definition oaep_wrap :: "('priv, 'pub) compat_ops \<Rightarrow> 'pub \<Rightarrow> sym_key_ver1 \<Rightarrow> (rsa_error, byte list) result" where
  "oaep_wrap ops pubkey skey =
     (case rsa_encrypt ops pubkey (serialize_sym_key_ver1 skey) of
        None \<Rightarrow> Err OaepFailed
      | Some ct \<Rightarrow> if length ct \<noteq> PCLSYNC_RSA_BYTES then Err (WrongCiphertextLen (length ct)) else Ok ct)"

definition oaep_unwrap :: "('priv, 'pub) compat_ops \<Rightarrow> 'priv \<Rightarrow> byte list \<Rightarrow> (rsa_error, sym_key_ver1) result" where
  "oaep_unwrap ops privkey wrapped =
     (if length wrapped \<noteq> PCLSYNC_RSA_BYTES then Err (WrongCiphertextLen (length wrapped))
      else (case rsa_decrypt ops privkey wrapped of
        None \<Rightarrow> Err OaepFailed
      | Some plaintext \<Rightarrow> parse_sym_key_ver1 plaintext))"

definition sym_key_ok :: "sym_key_ver1 \<Rightarrow> bool" where
  "sym_key_ok skey \<longleftrightarrow> sym_type skey = 0 \<and> length (sym_aes_key skey) = 32 \<and> length (sym_hmac_key skey) = 128"

lemma parse_serialize_sym_key:
  assumes "sym_key_ok skey"
  shows "parse_sym_key_ver1 (serialize_sym_key_ver1 skey) = Ok skey"
  using assms
  by (simp add: sym_key_ok_def parse_sym_key_ver1_def serialize_sym_key_ver1_def PCLSYNC_SYM_KEY_VER1_SIZE_def
      Let_def from_to_le_bytes)

lemma oaep_roundtrip:
  assumes "compat_laws ops" "sym_key_ok skey" and "oaep_wrap ops (rsa_public ops k) skey = Ok ct"
  shows "oaep_unwrap ops k ct = Ok skey"
  using assms
  by (auto simp: oaep_wrap_def oaep_unwrap_def compat_laws_def parse_serialize_sym_key
      split: option.splits if_splits)

section \<open>Profile blobs\<close>

datatype compat_error =
    PrivKeyTruncated
  | PubKeyTruncated
  | UnsupportedPrivType u32
  | UnsupportedPubType u32
  | CompatRsa rsa_error
  | CompatRng

record compat_profile =
  priv_key_ver1_blob :: "byte list"
  pub_key_ver1_blob :: "byte list"
  pub_fingerprint :: "byte list"
  pf_flags :: u32

definition parse_priv_blob :: "byte list \<Rightarrow> (compat_error, u32 \<times> u32 \<times> byte list \<times> byte list) result" where
  "parse_priv_blob blob =
     (let header_len = 4 + 4 + PCLSYNC_PBKDF2_SALT_LEN in
      if length blob < header_len then Err PrivKeyTruncated
      else
        let typ = from_le_bytes (take 4 blob);
            flags = from_le_bytes (take 4 (drop 4 blob))
        in if typ \<noteq> 0 then Err (UnsupportedPrivType typ)
           else Ok (typ, flags, take PCLSYNC_PBKDF2_SALT_LEN (drop 8 blob), drop header_len blob))"

definition build_priv_blob :: "u32 \<Rightarrow> byte list \<Rightarrow> byte list \<Rightarrow> byte list" where
  "build_priv_blob flags salt ciphertext_der =
     to_le_bytes (0 :: u32) @ to_le_bytes flags @ salt @ ciphertext_der"

definition parse_pub_blob :: "byte list \<Rightarrow> (compat_error, u32 \<times> u32 \<times> byte list) result" where
  "parse_pub_blob blob =
     (if length blob < 8 then Err PubKeyTruncated
      else
        let typ = from_le_bytes (take 4 blob);
            flags = from_le_bytes (take 4 (drop 4 blob))
        in if typ \<noteq> 0 then Err (UnsupportedPubType typ) else Ok (typ, flags, drop 8 blob))"

definition build_pub_blob :: "u32 \<Rightarrow> byte list \<Rightarrow> byte list" where
  "build_pub_blob flags pub_der = to_le_bytes (0 :: u32) @ to_le_bytes flags @ pub_der"

definition pub_fingerprint_of :: "('priv, 'pub) compat_ops \<Rightarrow> byte list \<Rightarrow> byte list \<Rightarrow> byte list" where
  "pub_fingerprint_of ops key pub_blob = hmac256 ops key pub_blob"

text \<open>Randomness is an argument: the salt, or a failure of the random source, and the
  generated key, or a failure of the generation.\<close>

definition generate_profile ::
  "('priv, 'pub) compat_ops \<Rightarrow> byte list option \<Rightarrow> 'priv option \<Rightarrow> string \<Rightarrow> (compat_error, compat_profile) result" where
  "generate_profile ops rng_salt keygen password =
     (case rng_salt of
        None \<Rightarrow> Err CompatRng
      | Some salt \<Rightarrow>
          let kek = derive_kek ops password salt in
          (case keygen of
             None \<Rightarrow> Err (CompatRsa KeyGen)
           | Some priv_key \<Rightarrow>
               (case (priv_to_der ops priv_key, pub_to_der ops (rsa_public ops priv_key)) of
                  (Some priv_der, Some pub_der) \<Rightarrow>
                    let wrapped = aes256_ctr_pclsync_xor_inplace (prims ops) (kek_key kek) (kek_iv kek) 0 priv_der;
                        pub_blob = build_pub_blob 0 pub_der;
                        priv_blob = build_priv_blob 0 salt wrapped
                    in Ok \<lparr>priv_key_ver1_blob = priv_blob, pub_key_ver1_blob = pub_blob,
                           pub_fingerprint = pub_fingerprint_of ops (kek_key kek) pub_blob, pf_flags = 0\<rparr>
                | _ \<Rightarrow> Err (CompatRsa DerFailed))))"

record 'priv compat_state =
  st_priv_key :: 'priv
  st_folder_keys :: "u64 \<rightharpoonup> sym_key_ver1"
  st_file_keys :: "u64 \<rightharpoonup> sym_key_ver1"

definition new_compat_state :: "'priv \<Rightarrow> 'priv compat_state" where
  "new_compat_state priv_key = \<lparr>st_priv_key = priv_key, st_folder_keys = Map.empty, st_file_keys = Map.empty\<rparr>"

definition unlock_profile ::
  "('priv, 'pub) compat_ops \<Rightarrow> string \<Rightarrow> compat_profile \<Rightarrow> (compat_error, 'priv compat_state) result" where
  "unlock_profile ops password profile =
     (case parse_priv_blob (priv_key_ver1_blob profile) of
        Inl e \<Rightarrow> Err e
      | Inr (_, _, salt, ct_der) \<Rightarrow>
          let kek = derive_kek ops password salt;
              expected = pub_fingerprint_of ops (kek_key kek) (pub_key_ver1_blob profile)
          in if expected \<noteq> pub_fingerprint profile then Err (CompatRsa OaepFailed)
             else
               let der = aes256_ctr_pclsync_xor_inplace (prims ops) (kek_key kek) (kek_iv kek) 0 ct_der
               in (case priv_from_der ops der of
                     None \<Rightarrow> Err (CompatRsa DerFailed)
                   | Some priv_key \<Rightarrow> Ok (new_compat_state priv_key)))"

section \<open>Round trips\<close>

lemma parse_build_priv_blob:
  "length salt = 64 \<Longrightarrow> parse_priv_blob (build_priv_blob flags salt ct) = Ok (0, flags, salt, ct)"
  by (simp add: parse_priv_blob_def build_priv_blob_def PCLSYNC_PBKDF2_SALT_LEN_def Let_def from_to_le_bytes)

lemma parse_build_pub_blob: "parse_pub_blob (build_pub_blob flags der) = Ok (0, flags, der)"
  by (simp add: parse_pub_blob_def build_pub_blob_def Let_def from_to_le_bytes)

lemma ctr_involution:
  assumes "crypto_laws ops" "length key = 32" "length iv = 16"
  shows "aes256_ctr_pclsync_xor_inplace ops key iv off (aes256_ctr_pclsync_xor_inplace ops key iv off buf) = buf"
  using assms by (auto intro!: nth_equalityI simp: nth_ctr xor.assoc)

lemma unlock_generated_profile:
  assumes "compat_laws ops" and "length salt = 64" and "generate_profile ops (Some salt) (Some k) pw = Ok profile"
  shows "unlock_profile ops pw profile = Ok (new_compat_state k)"
  using assms
  by (auto simp: generate_profile_def unlock_profile_def Let_def parse_build_priv_blob ctr_involution compat_laws_def
      split: option.splits)

text \<open>A generated profile is unlocked by the password it was made with, to the
  generated private key; a password whose derived key gives another fingerprint of
  the public blob is refused before the private key is read.\<close>

lemma profile_password:
  assumes "compat_laws ops" and "length salt = 64" and "generate_profile ops (Some salt) (Some k) pw = Ok profile"
  shows "unlock_profile ops pw profile = Ok (new_compat_state k)
    \<and> (pub_fingerprint_of ops (kek_key (derive_kek ops pw' salt)) (pub_key_ver1_blob profile) \<noteq> pub_fingerprint profile \<longrightarrow>
        unlock_profile ops pw' profile = Err (CompatRsa OaepFailed))"
proof
  show "unlock_profile ops pw profile = Ok (new_compat_state k)"
    using assms by (rule unlock_generated_profile)
  obtain ct where "priv_key_ver1_blob profile = build_priv_blob 0 salt ct"
    using assms(3) by (auto simp: generate_profile_def Let_def split: option.splits)
  then show "pub_fingerprint_of ops (kek_key (derive_kek ops pw' salt)) (pub_key_ver1_blob profile) \<noteq> pub_fingerprint profile \<longrightarrow>
        unlock_profile ops pw' profile = Err (CompatRsa OaepFailed)"
    using assms(2) by (simp add: unlock_profile_def parse_build_priv_blob Let_def)
qed

end
