(* ===== verification/Crypto_Shell.thy ===== *)
theory Crypto_Shell
  imports Sector Filename Kms Compat_Profile
begin

text \<open>The crypto runtime (\<open>pcloud-crypto/src/lib.rs\<close> with \<open>keys.rs\<close>, \<open>content.rs\<close>,
  \<open>metadata.rs\<close>, \<open>policy.rs\<close> and \<open>state.rs\<close>): the life cycle of the master key, the
  lockout after wrong passwords, the sector operations of both back-ends and the
  folder registry.  The shell is a record; an operation maps it, with the
  process-wide key cache where that is used, to a result and the new state.  The
  primitives of external crates, the clocks and the random bytes are arguments.\<close>

section \<open>Environment\<close>

record ('priv, 'pub) shell_env =
  compat :: "('priv, 'pub) compat_ops"
  nfc :: "string \<Rightarrow> string"
  argon2 :: "byte list \<Rightarrow> byte list \<Rightarrow> byte list"
  gcm_enc :: "byte list \<Rightarrow> byte list \<Rightarrow> byte list \<Rightarrow> byte list \<Rightarrow> byte list option"
  gcm_dec :: "byte list \<Rightarrow> byte list \<Rightarrow> byte list \<Rightarrow> byte list \<Rightarrow> byte list option"

text \<open>What the code uses of them: normalization is idempotent and keeps a non-empty
  string non-empty, Argon2id and HMAC-SHA-256 give 32 bytes, and AES-GCM adds a tag
  of 16 bytes and decrypts what it encrypted under the same key, nonce and
  associated data.\<close>

definition env_laws :: "('priv, 'pub) shell_env \<Rightarrow> bool" where
  "env_laws env \<longleftrightarrow> compat_laws (compat env)
     \<and> (\<forall>s. nfc env (nfc env s) = nfc env s)
     \<and> (\<forall>pw salt. length (argon2 env pw salt) = 32)
     \<and> (\<forall>k m. length (hmac256 (compat env) k m) = 32)
     \<and> (\<forall>k n aad m c. gcm_enc env k n aad m = Some c \<longrightarrow>
          length c = length m + 16 \<and> gcm_dec env k n aad c = Some m)"

record clock =
  wall :: nat
  mono :: millis

section \<open>Keys\<close>

definition DERIVED_KEY_LEN :: nat where
  "DERIVED_KEY_LEN = 32"

record key_manager =
  cache_ttl_secs :: nat
  derivation_salt :: "byte list"
  setup_fingerprint :: "byte list option"
  private_flags :: u64
  active_key_material :: "byte list option"
  last_authenticated_at :: "millis option"

definition key_manager_default :: "byte list \<Rightarrow> key_manager" where
  "key_manager_default salt =
     \<lparr>cache_ttl_secs = 300, derivation_salt = salt, setup_fingerprint = None, private_flags = 0,
      active_key_material = None, last_authenticated_at = None\<rparr>"

definition derive_key_material_with_salt :: "('priv, 'pub) shell_env \<Rightarrow> string \<Rightarrow> byte list \<Rightarrow> byte list" where
  "derive_key_material_with_salt env password salt = argon2 env (as_bytes password) salt"

definition derive_key_material :: "('priv, 'pub) shell_env \<Rightarrow> key_manager \<Rightarrow> string \<Rightarrow> byte list" where
  "derive_key_material env keys password = derive_key_material_with_salt env password (derivation_salt keys)"

definition fingerprint_for :: "('priv, 'pub) shell_env \<Rightarrow> byte list \<Rightarrow> byte list" where
  "fingerprint_for env key = hmac256 (compat env) key (as_bytes ''pcloud-crypto/fingerprint/v1'')"

definition check_and_evict_if_stale :: "millis \<Rightarrow> key_manager \<Rightarrow> bool \<times> key_manager" where
  "check_and_evict_if_stale now keys =
     (if cache_ttl_secs keys = 0 then (False, keys)
      else (case last_authenticated_at keys of
        None \<Rightarrow> (False, keys)
      | Some t \<Rightarrow>
          if (now - t) div 1000 \<ge> cache_ttl_secs keys
          then (True, keys\<lparr>active_key_material := None, last_authenticated_at := None\<rparr>)
          else (False, keys)))"

definition touch :: "millis \<Rightarrow> key_manager \<Rightarrow> key_manager" where
  "touch now keys = keys\<lparr>last_authenticated_at := Some now\<rparr>"

definition matches_setup :: "('priv, 'pub) shell_env \<Rightarrow> key_manager \<Rightarrow> byte list \<Rightarrow> bool" where
  "matches_setup env keys key =
     (case setup_fingerprint keys of None \<Rightarrow> False | Some stored \<Rightarrow> fingerprint_for env key = stored)"

section \<open>Policy, state and errors\<close>

record crypto_policy =
  lock_on_suspend :: bool
  persist_master_key :: bool
  auto_lock_idle_secs :: nat

definition crypto_policy_default :: crypto_policy where
  "crypto_policy_default = \<lparr>lock_on_suspend = True, persist_master_key = False, auto_lock_idle_secs = 0\<rparr>"

definition is_safe :: "crypto_policy \<Rightarrow> bool" where
  "is_safe policy \<longleftrightarrow> \<not> persist_master_key policy"

datatype unlock_state = StNotSetup | StLocked | StUnlocking | StUnlocked

datatype crypto_backend = PclsyncCompat | Enhanced

datatype content_error = CLocked | InvalidFrame | CAuthFailed | SectorTooLarge | SectorIndexMismatch

datatype metadata_error = MLocked | MInvalidName

datatype crypto_error =
    EmptyPassword | AlreadySetup | NotSetup | Locked | AlreadyStarted | WrongPassword
  | InvalidName | FolderExists | UnsafePolicy | PasswordUnchanged
  | Content content_error | Metadata metadata_error
  | KmsFailed | NoKmsProvider | KmsDekLen | BruteForceLockedOut
  | BackendMismatch crypto_backend crypto_backend
  | NotYetWired | MissingFileId | MissingFolderId
  | FileKeyNotCached u64 | FolderKeyNotCached u64
  | CompatFailed | NonceBudgetExhausted | CEmptySector | MasterKeyExpired

datatype crypto_mode = Raw | KmsMode string "byte list" "string option"

record folder_entry =
  fe_folder_id :: u64
  fe_parent_folder_id :: "u64 option"
  fe_encrypted_name :: string

record 'priv crypto_shell =
  cs_keys :: key_manager
  cs_sector_size :: nat
  cs_policy :: crypto_policy
  cs_unlock_state :: unlock_state
  cs_folders :: "u64 \<rightharpoonup> folder_entry"
  cs_next_local_folder_id :: u64
  cs_hint :: "string option"
  cs_kms :: kms_provider
  cs_mode :: crypto_mode
  cs_sectors_sealed :: nat
  cs_consecutive_failures :: nat
  cs_last_fail_at :: nat
  cs_backend :: "crypto_backend option"
  cs_compat :: "compat_profile option"
  cs_compat_state :: "'priv compat_state option"
  cs_lockout_floor :: "millis option"

definition KMS_DEK_LEN :: nat where "KMS_DEK_LEN = 32"

definition NONCE_BUDGET_SAFETY_MARGIN :: nat where "NONCE_BUDGET_SAFETY_MARGIN = 64"

definition MAX_CONSECUTIVE_FAILURES :: nat where "MAX_CONSECUTIVE_FAILURES = 10"

definition MAX_LOCKOUT_BACKOFF_SECS :: nat where "MAX_LOCKOUT_BACKOFF_SECS = 30 * 60"

definition budget_cap :: nat where
  "budget_cap = 2 ^ 32 - 1 - NONCE_BUDGET_SAFETY_MARGIN"

definition crypto_shell_default :: "byte list \<Rightarrow> 'priv crypto_shell" where
  "crypto_shell_default salt =
     \<lparr>cs_keys = key_manager_default salt, cs_sector_size = 4096, cs_policy = crypto_policy_default,
      cs_unlock_state = StNotSetup, cs_folders = Map.empty, cs_next_local_folder_id = 1, cs_hint = None,
      cs_kms = null_kms, cs_mode = Raw, cs_sectors_sealed = 0, cs_consecutive_failures = 0, cs_last_fail_at = 0,
      cs_backend = None, cs_compat = None, cs_compat_state = None, cs_lockout_floor = None\<rparr>"

definition lockout_backoff_secs :: "nat \<Rightarrow> nat" where
  "lockout_backoff_secs failures =
     (if failures \<le> 1 then 0 else min (2 ^ min failures 40) MAX_LOCKOUT_BACKOFF_SECS)"

definition effective_backend :: "'priv crypto_shell \<Rightarrow> crypto_backend" where
  "effective_backend s =
     (case cs_backend s of
        Some b \<Rightarrow> b
      | None \<Rightarrow> if setup_fingerprint (cs_keys s) \<noteq> None then Enhanced else PclsyncCompat)"

definition is_setup :: "'priv crypto_shell \<Rightarrow> bool" where
  "is_setup s \<longleftrightarrow> setup_fingerprint (cs_keys s) \<noteq> None \<or> cs_compat s \<noteq> None"

definition is_started :: "'priv crypto_shell \<Rightarrow> bool" where
  "is_started s \<longleftrightarrow>
     cs_unlock_state s = StUnlocked \<and> (active_key_material (cs_keys s) \<noteq> None \<or> cs_compat_state s \<noteq> None)"

section \<open>Set-up\<close>

definition setup_enhanced ::
  "('priv, 'pub) shell_env \<Rightarrow> string \<Rightarrow> string option \<Rightarrow> 'priv crypto_shell \<Rightarrow> (crypto_error, unit) result \<times> 'priv crypto_shell" where
  "setup_enhanced env password hint s =
     (if \<not> is_safe (cs_policy s) then (Err UnsafePolicy, s)
      else if password = [] then (Err EmptyPassword, s)
      else if is_setup s then (Err AlreadySetup, s)
      else
        let derived = derive_key_material env (cs_keys s) (nfc env password)
        in (Ok (), s\<lparr>cs_keys := (cs_keys s)\<lparr>setup_fingerprint := Some (fingerprint_for env derived)\<rparr>,
                     cs_hint := hint, cs_unlock_state := StLocked, cs_backend := Some Enhanced\<rparr>))"

definition setup_pclsync_compat ::
  "('priv, 'pub) shell_env \<Rightarrow> byte list option \<Rightarrow> 'priv option \<Rightarrow> string \<Rightarrow> string option \<Rightarrow> 'priv crypto_shell
    \<Rightarrow> (crypto_error, unit) result \<times> 'priv crypto_shell" where
  "setup_pclsync_compat env rng_salt keygen password hint s =
     (if \<not> is_safe (cs_policy s) then (Err UnsafePolicy, s)
      else if password = [] then (Err EmptyPassword, s)
      else if is_setup s then (Err AlreadySetup, s)
      else (case generate_profile (compat env) rng_salt keygen (nfc env password) of
        Inl _ \<Rightarrow> (Err CompatFailed, s)
      | Inr profile \<Rightarrow>
          (Ok (), s\<lparr>cs_compat := Some profile, cs_hint := hint, cs_unlock_state := StLocked,
                    cs_backend := Some PclsyncCompat\<rparr>)))"

definition setup_with_backend ::
  "('priv, 'pub) shell_env \<Rightarrow> byte list option \<Rightarrow> 'priv option \<Rightarrow> string \<Rightarrow> string option \<Rightarrow> crypto_backend
    \<Rightarrow> 'priv crypto_shell \<Rightarrow> (crypto_error, unit) result \<times> 'priv crypto_shell" where
  "setup_with_backend env rng_salt keygen password hint backend s =
     (case backend of
        Enhanced \<Rightarrow> setup_enhanced env password hint s
      | PclsyncCompat \<Rightarrow> setup_pclsync_compat env rng_salt keygen password hint s)"

definition setup_shell ::
  "('priv, 'pub) shell_env \<Rightarrow> string \<Rightarrow> string option \<Rightarrow> 'priv crypto_shell \<Rightarrow> (crypto_error, unit) result \<times> 'priv crypto_shell" where
  "setup_shell env password hint s = setup_with_backend env None None password hint Enhanced s"

section \<open>Unlocking\<close>

text \<open>The lockout check that both unlock bodies make before they derive a key.\<close>

definition locked_out :: "clock \<Rightarrow> 'priv crypto_shell \<Rightarrow> bool" where
  "locked_out clk s \<longleftrightarrow>
     (let failures = cs_consecutive_failures s; backoff = lockout_backoff_secs failures in
      failures \<ge> MAX_CONSECUTIVE_FAILURES \<or>
      (backoff > 0 \<and>
        ((cs_last_fail_at s > 0 \<and> wall clk - cs_last_fail_at s < backoff) \<or>
         (case cs_lockout_floor s of None \<Rightarrow> False | Some floor \<Rightarrow> mono clk < floor))))"

text \<open>The state after a wrong password, and after a right one.\<close>

definition unlock_failed :: "clock \<Rightarrow> 'priv crypto_shell \<Rightarrow> 'priv crypto_shell" where
  "unlock_failed clk s =
     (let new_failures = cs_consecutive_failures s + 1; new_backoff = lockout_backoff_secs new_failures in
      s\<lparr>cs_unlock_state := StLocked, cs_consecutive_failures := new_failures, cs_last_fail_at := wall clk,
        cs_lockout_floor := (if new_backoff > 0 then Some (mono clk + new_backoff * 1000) else cs_lockout_floor s)\<rparr>)"

definition unlock_succeeded :: "'priv crypto_shell \<Rightarrow> 'priv crypto_shell" where
  "unlock_succeeded s =
     s\<lparr>cs_unlock_state := StUnlocked, cs_consecutive_failures := 0, cs_last_fail_at := 0, cs_lockout_floor := None\<rparr>"

definition start_enhanced ::
  "('priv, 'pub) shell_env \<Rightarrow> clock \<Rightarrow> string \<Rightarrow> 'priv crypto_shell \<Rightarrow> (crypto_error, unit) result \<times> 'priv crypto_shell" where
  "start_enhanced env clk password s =
     (if \<not> is_safe (cs_policy s) then (Err UnsafePolicy, s)
      else if password = [] then (Err EmptyPassword, s)
      else if \<not> is_setup s then (Err NotSetup, s)
      else if is_started s then (Err AlreadyStarted, s)
      else if locked_out clk s then (Err BruteForceLockedOut, s)
      else
        let derived = derive_key_material env (cs_keys s) (nfc env password)
        in if \<not> matches_setup env (cs_keys s) derived then (Err WrongPassword, unlock_failed clk s)
           else (Ok (), unlock_succeeded (s\<lparr>cs_keys := (cs_keys s)\<lparr>active_key_material := Some derived\<rparr>\<rparr>)))"

definition start_pclsync_compat ::
  "('priv, 'pub) shell_env \<Rightarrow> clock \<Rightarrow> string \<Rightarrow> 'priv crypto_shell \<Rightarrow> (crypto_error, unit) result \<times> 'priv crypto_shell" where
  "start_pclsync_compat env clk password s =
     (if \<not> is_safe (cs_policy s) then (Err UnsafePolicy, s)
      else if password = [] then (Err EmptyPassword, s)
      else (case cs_compat s of
        None \<Rightarrow> (Err NotSetup, s)
      | Some profile \<Rightarrow>
          if cs_compat_state s \<noteq> None then (Err AlreadyStarted, s)
          else if locked_out clk s then (Err BruteForceLockedOut, s)
          else (case unlock_profile (compat env) (nfc env password) profile of
            Inr st \<Rightarrow> (Ok (), unlock_succeeded (s\<lparr>cs_compat_state := Some st\<rparr>))
          | Inl _ \<Rightarrow> (Err WrongPassword, unlock_failed clk s))))"

definition start_inner ::
  "('priv, 'pub) shell_env \<Rightarrow> clock \<Rightarrow> string \<Rightarrow> crypto_backend option \<Rightarrow> 'priv crypto_shell
    \<Rightarrow> (crypto_error, unit) result \<times> 'priv crypto_shell" where
  "start_inner env clk password expected s =
     (if \<not> is_safe (cs_policy s) then (Err UnsafePolicy, s)
      else if password = [] then (Err EmptyPassword, s)
      else if \<not> is_setup s then (Err NotSetup, s)
      else
        let effective = effective_backend s in
        if expected \<noteq> None \<and> expected \<noteq> Some effective then (Err (BackendMismatch effective (the expected)), s)
        else
          let (res, s') = (case effective of
                Enhanced \<Rightarrow> start_enhanced env clk password s
              | PclsyncCompat \<Rightarrow> start_pclsync_compat env clk password s)
          in (res, if \<not> isl res \<and> cs_backend s = None then s'\<lparr>cs_backend := Some effective\<rparr> else s'))"

definition start ::
  "('priv, 'pub) shell_env \<Rightarrow> clock \<Rightarrow> string \<Rightarrow> 'priv crypto_shell \<Rightarrow> (crypto_error, unit) result \<times> 'priv crypto_shell" where
  "start env clk password s = start_inner env clk password None s"

definition start_with_backend ::
  "('priv, 'pub) shell_env \<Rightarrow> clock \<Rightarrow> string \<Rightarrow> crypto_backend \<Rightarrow> 'priv crypto_shell
    \<Rightarrow> (crypto_error, unit) result \<times> 'priv crypto_shell" where
  "start_with_backend env clk password expected s = start_inner env clk password (Some expected) s"

definition evict_mode :: "'priv crypto_shell \<Rightarrow> dek_cache \<Rightarrow> dek_cache" where
  "evict_mode s cache =
     (case cs_mode s of
        Raw \<Rightarrow> cache
      | KmsMode key_id wrapped_dek ctx \<Rightarrow>
          snd (evict_cached_dek cache (kms_name (cs_kms s)) key_id wrapped_dek ctx))"

definition stop :: "'priv crypto_shell \<Rightarrow> dek_cache \<Rightarrow> 'priv crypto_shell \<times> dek_cache" where
  "stop s cache =
     (let s' = s\<lparr>cs_keys := (cs_keys s)\<lparr>active_key_material := None\<rparr>, cs_compat_state := None\<rparr>
      in (s'\<lparr>cs_unlock_state := (if is_setup s' then StLocked else StNotSetup)\<rparr>, evict_mode s cache))"

definition unlock ::
  "('priv, 'pub) shell_env \<Rightarrow> clock \<Rightarrow> string \<Rightarrow> 'priv crypto_shell \<Rightarrow> (crypto_error, unit) result \<times> 'priv crypto_shell" where
  "unlock env clk password s =
     (if is_setup s then start env clk password s
      else (case setup_shell env password None s of
        (Inl e, s') \<Rightarrow> (Err e, s')
      | (Inr _, s') \<Rightarrow> start env clk password s'))"

definition reset :: "'priv crypto_shell \<Rightarrow> dek_cache \<Rightarrow> 'priv crypto_shell \<times> dek_cache" where
  "reset s cache =
     (let (s', cache') = stop s cache
      in (s'\<lparr>cs_keys := (cs_keys s')\<lparr>setup_fingerprint := None\<rparr>, cs_folders := Map.empty,
             cs_next_local_folder_id := 1, cs_hint := None, cs_mode := Raw, cs_unlock_state := StNotSetup,
             cs_backend := None, cs_compat := None, cs_compat_state := None\<rparr>, cache'))"

text \<open>What a restart of the process keeps: the fields that are serialized.\<close>

definition reload :: "'priv crypto_shell \<Rightarrow> 'priv crypto_shell" where
  "reload s =
     s\<lparr>cs_keys := (cs_keys s)\<lparr>active_key_material := None, last_authenticated_at := None\<rparr>,
       cs_kms := null_kms, cs_compat_state := None, cs_lockout_floor := None\<rparr>"

section \<open>Data keys\<close>

definition enable_kms_mode ::
  "byte list \<Rightarrow> string \<Rightarrow> string option \<Rightarrow> 'priv crypto_shell \<Rightarrow> (crypto_error, unit) result \<times> 'priv crypto_shell" where
  "enable_kms_mode rng_dek key_id ctx s =
     (if \<not> is_safe (cs_policy s) then (Err UnsafePolicy, s)
      else if kms_name (cs_kms s) = ''null'' then (Err NoKmsProvider, s)
      else (case encrypt_dek (cs_kms s) key_id rng_dek ctx of
        Inl _ \<Rightarrow> (Err KmsFailed, s)
      | Inr wrapped \<Rightarrow> (Ok (), s\<lparr>cs_mode := KmsMode key_id wrapped ctx\<rparr>)))"

definition unwrap_active_dek ::
  "millis \<Rightarrow> 'priv crypto_shell \<Rightarrow> dek_cache \<Rightarrow> (crypto_error, byte list) result \<times> dek_cache" where
  "unwrap_active_dek now s cache =
     (case cs_mode s of
        Raw \<Rightarrow> (Err KmsFailed, cache)
      | KmsMode key_id wrapped_dek ctx \<Rightarrow>
          (case unwrap_cached (cs_kms s) cache key_id wrapped_dek ctx DEFAULT_CACHE_TTL now of
             (Inl _, cache') \<Rightarrow> (Err KmsFailed, cache')
           | (Inr pt, cache') \<Rightarrow> (if length pt \<noteq> KMS_DEK_LEN then Err KmsDekLen else Ok pt, cache')))"

definition require_active_key ::
  "millis \<Rightarrow> 'priv crypto_shell \<Rightarrow> (crypto_error, byte list) result \<times> 'priv crypto_shell" where
  "require_active_key now s =
     (let (stale, keys) = check_and_evict_if_stale now (cs_keys s) in
      if stale then (Err MasterKeyExpired, s\<lparr>cs_keys := keys, cs_unlock_state := StLocked\<rparr>)
      else
        let s' = s\<lparr>cs_keys := touch now keys\<rparr>
        in (case active_key_material (cs_keys s') of
              None \<Rightarrow> (Err Locked, s')
            | Some key \<Rightarrow> (Ok key, s')))"

definition derive_file_key :: "('priv, 'pub) shell_env \<Rightarrow> byte list \<Rightarrow> byte list \<Rightarrow> byte list" where
  "derive_file_key env master file_seed =
     hmac256 (compat env) master (as_bytes ''pcloud-crypto/file-key/v1'' @ file_seed)"

definition derive_sector_file_key ::
  "('priv, 'pub) shell_env \<Rightarrow> millis \<Rightarrow> byte list \<Rightarrow> 'priv crypto_shell \<Rightarrow> dek_cache
    \<Rightarrow> (crypto_error, byte list) result \<times> 'priv crypto_shell \<times> dek_cache" where
  "derive_sector_file_key env now file_seed s cache =
     (case require_active_key now s of
        (Inl e, s') \<Rightarrow> (Err e, s', cache)
      | (Inr master, s') \<Rightarrow>
          (case cs_mode s' of
             Raw \<Rightarrow> (Ok (derive_file_key env master file_seed), s', cache)
           | KmsMode _ _ _ \<Rightarrow>
               (case unwrap_active_dek now s' cache of
                  (Inl e, cache') \<Rightarrow> (Err e, s', cache')
                | (Inr dek, cache') \<Rightarrow> (Ok (derive_file_key env dek file_seed), s', cache'))))"

section \<open>Sectors\<close>

definition NONCE_LEN :: nat where "NONCE_LEN = 12"

definition TAG_LEN :: nat where "TAG_LEN = 16"

definition to_be_bytes :: "u32 \<Rightarrow> byte list" where
  "to_be_bytes w = rev (to_le_bytes w)"

definition from_be_bytes :: "byte list \<Rightarrow> u32" where
  "from_be_bytes bs = from_le_bytes (rev bs)"

definition content_seal_sector ::
  "('priv, 'pub) shell_env \<Rightarrow> byte list option \<Rightarrow> byte list \<Rightarrow> u32 \<Rightarrow> byte list \<Rightarrow> nat \<Rightarrow> (content_error, byte list) result" where
  "content_seal_sector env rng_nonce file_key sector_index plaintext sector_size =
     (if length plaintext > sector_size then Err SectorTooLarge
      else if length file_key \<noteq> 32 then Err InvalidFrame
      else (case rng_nonce of
        None \<Rightarrow> Err InvalidFrame
      | Some nonce \<Rightarrow>
          (case gcm_enc env file_key nonce (to_be_bytes sector_index) plaintext of
             None \<Rightarrow> Err CAuthFailed
           | Some ct \<Rightarrow> Ok (to_be_bytes sector_index @ nonce @ ct))))"

definition content_open_sector ::
  "('priv, 'pub) shell_env \<Rightarrow> byte list \<Rightarrow> u32 \<Rightarrow> byte list \<Rightarrow> (content_error, byte list) result" where
  "content_open_sector env file_key expected_index frame =
     (if length frame < 4 + NONCE_LEN + TAG_LEN then Err InvalidFrame
      else
        let idx = take 4 frame in
        if from_be_bytes idx \<noteq> expected_index then Err SectorIndexMismatch
        else if length file_key \<noteq> 32 then Err InvalidFrame
        else (case gcm_dec env file_key (take NONCE_LEN (drop 4 frame)) idx (drop (4 + NONCE_LEN) frame) of
          None \<Rightarrow> Err CAuthFailed
        | Some pt \<Rightarrow> Ok pt))"

text \<open>The reservation of a budget slot is a compare-and-swap loop; the exclusive
  borrow makes it one step.  The slot is given back only when the sealing fails, not
  when the derivation of the key does.\<close>

definition shell_seal_sector ::
  "('priv, 'pub) shell_env \<Rightarrow> millis \<Rightarrow> byte list option \<Rightarrow> byte list \<Rightarrow> u32 \<Rightarrow> byte list
    \<Rightarrow> 'priv crypto_shell \<Rightarrow> dek_cache \<Rightarrow> (crypto_error, byte list) result \<times> 'priv crypto_shell \<times> dek_cache" where
  "shell_seal_sector env now rng_nonce file_seed sector_index plaintext s cache =
     (if effective_backend s = PclsyncCompat then
        (if cs_compat_state s = None then (Err Locked, s, cache) else (Err MissingFileId, s, cache))
      else if cs_sectors_sealed s \<ge> budget_cap then (Err NonceBudgetExhausted, s, cache)
      else
        let s1 = s\<lparr>cs_sectors_sealed := cs_sectors_sealed s + 1\<rparr> in
        (case derive_sector_file_key env now file_seed s1 cache of
           (Inl e, s2, cache') \<Rightarrow> (Err e, s2, cache')
         | (Inr file_key, s2, cache') \<Rightarrow>
             (case content_seal_sector env rng_nonce file_key sector_index plaintext (cs_sector_size s2) of
                Inr frame \<Rightarrow> (Ok frame, s2, cache')
              | Inl e \<Rightarrow> (Err (Content e), s2\<lparr>cs_sectors_sealed := cs_sectors_sealed s2 - 1\<rparr>, cache'))))"

definition shell_open_sector ::
  "('priv, 'pub) shell_env \<Rightarrow> millis \<Rightarrow> byte list \<Rightarrow> u32 \<Rightarrow> byte list
    \<Rightarrow> 'priv crypto_shell \<Rightarrow> dek_cache \<Rightarrow> (crypto_error, byte list) result \<times> 'priv crypto_shell \<times> dek_cache" where
  "shell_open_sector env now file_seed sector_index frame s cache =
     (if effective_backend s = PclsyncCompat then
        (if cs_compat_state s = None then (Err Locked, s, cache) else (Err MissingFileId, s, cache))
      else (case derive_sector_file_key env now file_seed s cache of
        (Inl e, s', cache') \<Rightarrow> (Err e, s', cache')
      | (Inr file_key, s', cache') \<Rightarrow>
          (case content_open_sector env file_key sector_index frame of
             Inl e \<Rightarrow> (Err (Content e), s', cache')
           | Inr pt \<Rightarrow> (Ok pt, s', cache'))))"

record sealed_sector_frame =
  sf_ciphertext :: "byte list"
  sf_auth_tag :: "byte list option"

text \<open>The compatible back-end draws its random block only after the key is found.\<close>

definition seal_sector_with_context ::
  "('priv, 'pub) shell_env \<Rightarrow> millis \<Rightarrow> (string, byte list) result \<Rightarrow> byte list \<Rightarrow> u64 \<Rightarrow> byte list \<Rightarrow> u64 option
    \<Rightarrow> 'priv crypto_shell \<Rightarrow> dek_cache \<Rightarrow> (crypto_error, sealed_sector_frame) result \<times> 'priv crypto_shell \<times> dek_cache" where
  "seal_sector_with_context env now rng file_seed sector_index plaintext file_id s cache =
     (if effective_backend s = PclsyncCompat then
        ((case file_id of
            None \<Rightarrow> Err MissingFileId
          | Some fid \<Rightarrow>
              (case cs_compat_state s of
                 None \<Rightarrow> Err Locked
               | Some st \<Rightarrow>
                   (case st_file_keys st fid of
                      None \<Rightarrow> Err (FileKeyNotCached fid)
                    | Some key \<Rightarrow>
                        (case seal_sector (prims (compat env)) rng
                                \<lparr>sk_aes_key = sym_aes_key key, sk_hmac_key = sym_hmac_key key\<rparr> sector_index plaintext of
                           Inl e \<Rightarrow> Err (if e = EmptySector then CEmptySector else CompatFailed)
                         | Inr sealed \<Rightarrow> Ok \<lparr>sf_ciphertext = ss_ciphertext sealed, sf_auth_tag = Some (ss_auth_tag sealed)\<rparr>)))),
         s, cache)
      else if unat sector_index \<ge> 2 ^ 32 then (Err (Content SectorIndexMismatch), s, cache)
      else (case shell_seal_sector env now (case rng of Inl _ \<Rightarrow> None | Inr n \<Rightarrow> Some n) file_seed (ucast sector_index) plaintext s cache of
        (Inl e, s', cache') \<Rightarrow> (Err e, s', cache')
      | (Inr frame, s', cache') \<Rightarrow> (Ok \<lparr>sf_ciphertext = frame, sf_auth_tag = None\<rparr>, s', cache')))"

definition open_sector_with_context ::
  "('priv, 'pub) shell_env \<Rightarrow> millis \<Rightarrow> byte list \<Rightarrow> u64 \<Rightarrow> byte list \<Rightarrow> byte list option \<Rightarrow> u64 option
    \<Rightarrow> 'priv crypto_shell \<Rightarrow> dek_cache \<Rightarrow> (crypto_error, byte list) result \<times> 'priv crypto_shell \<times> dek_cache" where
  "open_sector_with_context env now file_seed sector_index ciphertext auth_tag file_id s cache =
     (if effective_backend s = PclsyncCompat then
        ((case file_id of
            None \<Rightarrow> Err MissingFileId
          | Some fid \<Rightarrow>
              (case auth_tag of
                 None \<Rightarrow> Err CompatFailed
               | Some tag \<Rightarrow>
                   (case cs_compat_state s of
                      None \<Rightarrow> Err Locked
                    | Some st \<Rightarrow>
                        (case st_file_keys st fid of
                           None \<Rightarrow> Err (FileKeyNotCached fid)
                         | Some key \<Rightarrow>
                             (case open_sector (prims (compat env))
                                     \<lparr>sk_aes_key = sym_aes_key key, sk_hmac_key = sym_hmac_key key\<rparr>
                                     sector_index ciphertext tag of
                                Inl _ \<Rightarrow> Err CompatFailed
                              | Inr pt \<Rightarrow> Ok pt))))),
         s, cache)
      else if unat sector_index \<ge> 2 ^ 32 then (Err (Content SectorIndexMismatch), s, cache)
      else shell_open_sector env now file_seed (ucast sector_index) ciphertext s cache)"

section \<open>Changing the password\<close>

record reencoded_private_key =
  private_key_hex :: string
  signature_hex :: string

definition hex_encode :: "byte list \<Rightarrow> string" where
  "hex_encode bs =
     concat (map (\<lambda>b. [''0123456789abcdef'' ! unat (drop_bit 4 b), ''0123456789abcdef'' ! unat (take_bit 4 b)]) bs)"

definition rewrap_single_kms_blob ::
  "kms_provider \<Rightarrow> string \<Rightarrow> byte list \<Rightarrow> string option \<Rightarrow> (crypto_error, crypto_mode) result" where
  "rewrap_single_kms_blob kms key_id wrapped_dek ctx =
     (case decrypt_dek kms key_id wrapped_dek ctx of
        Inl _ \<Rightarrow> Err KmsFailed
      | Inr plaintext \<Rightarrow>
          if length plaintext \<noteq> KMS_DEK_LEN then Err KmsDekLen
          else (case encrypt_dek kms key_id plaintext ctx of
            Inl _ \<Rightarrow> Err KmsFailed
          | Inr new_wrapped \<Rightarrow> Ok (KmsMode key_id new_wrapped ctx)))"

definition stage_mode :: "'priv crypto_shell \<Rightarrow> (crypto_error, crypto_mode option) result" where
  "stage_mode s =
     (case cs_mode s of
        Raw \<Rightarrow> Ok None
      | KmsMode key_id wrapped_dek ctx \<Rightarrow>
          (case rewrap_single_kms_blob (cs_kms s) key_id wrapped_dek ctx of
             Inl e \<Rightarrow> Err e
           | Inr m \<Rightarrow> Ok (Some m)))"

definition change_password_unlocked ::
  "('priv, 'pub) shell_env \<Rightarrow> byte list \<Rightarrow> string \<Rightarrow> u64 \<Rightarrow> 'priv crypto_shell \<Rightarrow> dek_cache
    \<Rightarrow> (crypto_error, reencoded_private_key) result \<times> 'priv crypto_shell \<times> dek_cache" where
  "change_password_unlocked env new_salt new_password flags s cache =
     (if \<not> is_safe (cs_policy s) then (Err UnsafePolicy, s, cache)
      else if new_password = [] then (Err EmptyPassword, s, cache)
      else (case active_key_material (cs_keys s) of
        None \<Rightarrow> (Err Locked, s, cache)
      | Some current_key \<Rightarrow>
          let new_key = derive_key_material_with_salt env new_password new_salt;
              new_fingerprint = fingerprint_for env new_key;
              blob = ''pcrypto/v1/'' @ hex_encode new_salt @ ''/'' @ hex_encode new_fingerprint @ ''/''
                       @ hex_encode (to_le_bytes flags);
              signature = hmac256 (compat env) current_key (as_bytes blob)
          in (case stage_mode s of
                Inl e \<Rightarrow> (Err e, s, cache)
              | Inr staged \<Rightarrow>
                  (Ok \<lparr>private_key_hex = blob, signature_hex = hex_encode signature\<rparr>,
                   s\<lparr>cs_keys := (cs_keys s)\<lparr>derivation_salt := new_salt, setup_fingerprint := Some new_fingerprint,
                       private_flags := flags, active_key_material := Some new_key\<rparr>,
                     cs_mode := (case staged of None \<Rightarrow> cs_mode s | Some m \<Rightarrow> m), cs_sectors_sealed := 0\<rparr>,
                   (case staged of None \<Rightarrow> cache | Some _ \<Rightarrow> evict_mode s cache)))))"

definition change_password_pclsync_compat_reencoded ::
  "('priv, 'pub) shell_env \<Rightarrow> byte list \<Rightarrow> string \<Rightarrow> string \<Rightarrow> u64 \<Rightarrow> 'priv crypto_shell
    \<Rightarrow> (crypto_error, reencoded_private_key) result \<times> 'priv crypto_shell" where
  "change_password_pclsync_compat_reencoded env new_salt old_password new_password flags s =
     (if old_password = new_password then (Err PasswordUnchanged, s)
      else (case cs_compat s of
        None \<Rightarrow> (Err NotSetup, s)
      | Some profile \<Rightarrow>
          (case unlock_profile (compat env) (nfc env old_password) profile of
             Inl _ \<Rightarrow> (Err WrongPassword, s)
           | Inr st \<Rightarrow>
               (case parse_priv_blob (priv_key_ver1_blob profile) of
                  Inl _ \<Rightarrow> (Err CompatFailed, s)
                | Inr (_, _, old_salt, _) \<Rightarrow>
                    let old_kek = derive_kek (compat env) (nfc env old_password) old_salt;
                        new_kek = derive_kek (compat env) (nfc env new_password) new_salt
                    in (case priv_to_der (compat env) (st_priv_key st) of
                          None \<Rightarrow> (Err CompatFailed, s)
                        | Some priv_der \<Rightarrow>
                            let wrapped = aes256_ctr_pclsync_xor_inplace (prims (compat env)) (kek_key new_kek) (kek_iv new_kek) 0 priv_der;
                                flags_u32 = ucast flags;
                                new_priv_blob = build_priv_blob flags_u32 new_salt wrapped;
                                new_fpr = hmac256 (compat env) (kek_key new_kek) (pub_key_ver1_blob profile);
                                new_priv_hex = hex_encode new_priv_blob;
                                signature = hmac256 (compat env) (kek_key old_kek) (as_bytes new_priv_hex)
                            in (Ok \<lparr>private_key_hex = new_priv_hex, signature_hex = hex_encode signature\<rparr>,
                                s\<lparr>cs_compat := Some (profile\<lparr>priv_key_ver1_blob := new_priv_blob,
                                     pub_fingerprint := new_fpr, pf_flags := flags_u32\<rparr>)\<rparr>))))))"

definition change_password ::
  "('priv, 'pub) shell_env \<Rightarrow> byte list \<Rightarrow> string \<Rightarrow> string \<Rightarrow> u64 \<Rightarrow> 'priv crypto_shell \<Rightarrow> dek_cache
    \<Rightarrow> (crypto_error, reencoded_private_key) result \<times> 'priv crypto_shell \<times> dek_cache" where
  "change_password env new_salt old_password new_password flags s cache =
     (if \<not> is_safe (cs_policy s) then (Err UnsafePolicy, s, cache)
      else if old_password = [] \<or> new_password = [] then (Err EmptyPassword, s, cache)
      else if \<not> is_setup s then (Err NotSetup, s, cache)
      else if effective_backend s = PclsyncCompat then
        (case change_password_pclsync_compat_reencoded env new_salt old_password new_password flags s of
           (res, s') \<Rightarrow> (res, s', cache))
      else if old_password = new_password then (Err PasswordUnchanged, s, cache)
      else
        let derived_old = derive_key_material env (cs_keys s) old_password
        in if \<not> matches_setup env (cs_keys s) derived_old then (Err WrongPassword, s, cache)
           else
             let s' = (if \<not> is_started s
                       then s\<lparr>cs_keys := (cs_keys s)\<lparr>active_key_material := Some derived_old\<rparr>, cs_unlock_state := StUnlocked\<rparr>
                       else s)
             in change_password_unlocked env new_salt new_password flags s' cache)"

record change_password_result =
  new_priv_key_ver1_blob :: "byte list"
  new_pub_fingerprint :: "byte list"
  cr_flags :: u32

definition change_password_with_context ::
  "('priv, 'pub) shell_env \<Rightarrow> byte list \<Rightarrow> string \<Rightarrow> string \<Rightarrow> u32 \<Rightarrow> 'priv crypto_shell
    \<Rightarrow> (crypto_error, change_password_result) result \<times> 'priv crypto_shell" where
  "change_password_with_context env new_salt old_password new_password flags s =
     (let effective = effective_backend s in
      if effective \<noteq> PclsyncCompat then (Err (BackendMismatch effective PclsyncCompat), s)
      else (case change_password_pclsync_compat_reencoded env new_salt old_password new_password (ucast flags) s of
        (Inl e, s') \<Rightarrow> (Err e, s')
      | (Inr _, s') \<Rightarrow>
          (case cs_compat s' of
             None \<Rightarrow> (Err CompatFailed, s')
           | Some p \<Rightarrow>
               (Ok \<lparr>new_priv_key_ver1_blob = priv_key_ver1_blob p, new_pub_fingerprint = pub_fingerprint p,
                    cr_flags = pf_flags p\<rparr>, s'))))"

definition priv_key_flags :: "'priv crypto_shell \<Rightarrow> u64" where
  "priv_key_flags s = private_flags (cs_keys s)"

section \<open>Folders and cached keys\<close>

definition encrypt_filename :: "('priv, 'pub) shell_env \<Rightarrow> byte list \<Rightarrow> string \<Rightarrow> (metadata_error, string) result" where
  "encrypt_filename env master plaintext =
     (if plaintext = [] \<or> CHR ''/'' \<in> set plaintext then Err MInvalidName
      else Ok (hex_encode (hmac256 (compat env) master
             (as_bytes ''pcloud-crypto/filename/v1'' @ as_bytes (nfc env plaintext)))))"

text \<open>Both variants of \<open>mkdir\<close> end with the same allocation of an id and the same
  insertion.\<close>

definition register_folder ::
  "u64 option \<Rightarrow> string \<Rightarrow> u64 option \<Rightarrow> 'priv crypto_shell \<Rightarrow> (crypto_error, folder_entry) result \<times> 'priv crypto_shell" where
  "register_folder parent encrypted_name local_folder_id s =
     (case local_folder_id of
        Some fid \<Rightarrow>
          if cs_folders s fid \<noteq> None then (Err FolderExists, s)
          else
            let entry = \<lparr>fe_folder_id = fid, fe_parent_folder_id = parent, fe_encrypted_name = encrypted_name\<rparr>
            in (Ok entry, s\<lparr>cs_folders := (cs_folders s)(fid \<mapsto> entry)\<rparr>)
      | None \<Rightarrow>
          let fid = cs_next_local_folder_id s;
              entry = \<lparr>fe_folder_id = fid, fe_parent_folder_id = parent, fe_encrypted_name = encrypted_name\<rparr>
          in (Ok entry, s\<lparr>cs_next_local_folder_id := saturating_add fid 1, cs_folders := (cs_folders s)(fid \<mapsto> entry)\<rparr>))"

definition mkdir_pclsync_compat ::
  "('priv, 'pub) shell_env \<Rightarrow> (byte list \<times> byte list) option \<Rightarrow> u64 option \<Rightarrow> string \<Rightarrow> u64 option \<Rightarrow> 'priv crypto_shell
    \<Rightarrow> (crypto_error, folder_entry \<times> sym_key_ver1 option) result \<times> 'priv crypto_shell" where
  "mkdir_pclsync_compat env rng_keys parent_folder_id name local_folder_id s =
     (case cs_compat_state s of
        None \<Rightarrow> (Err Locked, s)
      | Some st \<Rightarrow>
          if name = [] \<or> CHR ''/'' \<in> set name then (Err InvalidName, s)
          else (case parent_folder_id of
            None \<Rightarrow> (Err MissingFolderId, s)
          | Some parent_id \<Rightarrow>
              (case st_folder_keys st parent_id of
                 None \<Rightarrow> (Err (FolderKeyNotCached parent_id), s)
               | Some parent_sym \<Rightarrow>
                   (case encode_filename (prims (compat env))
                           \<lparr>fk_aes_key = sym_aes_key parent_sym, fk_hmac_key = sym_hmac_key parent_sym\<rparr> name of
                      Inl _ \<Rightarrow> (Err CompatFailed, s)
                    | Inr encoded_name \<Rightarrow>
                        (case rng_keys of
                           None \<Rightarrow> (Err CompatFailed, s)
                         | Some (aes, hmac) \<Rightarrow>
                             (case register_folder parent_folder_id encoded_name local_folder_id s of
                                (Inl e, s') \<Rightarrow> (Err e, s')
                              | (Inr entry, s') \<Rightarrow>
                                  (Ok (entry, Some \<lparr>sym_type = 0, sym_flags = 0, sym_aes_key = aes, sym_hmac_key = hmac\<rparr>), s')))))))"

definition mkdir ::
  "('priv, 'pub) shell_env \<Rightarrow> (byte list \<times> byte list) option \<Rightarrow> u64 option \<Rightarrow> string \<Rightarrow> u64 option \<Rightarrow> 'priv crypto_shell
    \<Rightarrow> (crypto_error, folder_entry) result \<times> 'priv crypto_shell" where
  "mkdir env rng_keys parent_folder_id name local_folder_id s =
     (if effective_backend s = PclsyncCompat then
        (case mkdir_pclsync_compat env rng_keys parent_folder_id name local_folder_id s of
           (Inl e, s') \<Rightarrow> (Err e, s')
         | (Inr (entry, _), s') \<Rightarrow> (Ok entry, s'))
      else (case active_key_material (cs_keys s) of
        None \<Rightarrow> (Err Locked, s)
      | Some key \<Rightarrow>
          (case encrypt_filename env key name of
             Inl e \<Rightarrow> (Err (Metadata e), s)
           | Inr encrypted_name \<Rightarrow> register_folder parent_folder_id encrypted_name local_folder_id s)))"

definition mkdir_with_context ::
  "('priv, 'pub) shell_env \<Rightarrow> (byte list \<times> byte list) option \<Rightarrow> u64 option \<Rightarrow> string \<Rightarrow> u64 option \<Rightarrow> 'priv crypto_shell
    \<Rightarrow> (crypto_error, folder_entry \<times> sym_key_ver1 option) result \<times> 'priv crypto_shell" where
  "mkdir_with_context env rng_keys parent_folder_id name local_folder_id s =
     (if effective_backend s = PclsyncCompat
      then mkdir_pclsync_compat env rng_keys parent_folder_id name local_folder_id s
      else (case mkdir env rng_keys parent_folder_id name local_folder_id s of
        (Inl e, s') \<Rightarrow> (Err e, s')
      | (Inr entry, s') \<Rightarrow> (Ok (entry, None), s')))"

text \<open>The four operations that fill the key caches share the back-end and lock guards.\<close>

definition with_compat_state ::
  "('priv compat_state \<Rightarrow> (crypto_error, 'priv compat_state) result) \<Rightarrow> 'priv crypto_shell
    \<Rightarrow> (crypto_error, unit) result \<times> 'priv crypto_shell" where
  "with_compat_state f s =
     (let effective = effective_backend s in
      if effective \<noteq> PclsyncCompat then (Err (BackendMismatch effective PclsyncCompat), s)
      else (case cs_compat_state s of
        None \<Rightarrow> (Err Locked, s)
      | Some st \<Rightarrow>
          (case f st of
             Inl e \<Rightarrow> (Err e, s)
           | Inr st' \<Rightarrow> (Ok (), s\<lparr>cs_compat_state := Some st'\<rparr>))))"

definition cache_folder_key :: "u64 \<Rightarrow> sym_key_ver1 \<Rightarrow> 'priv crypto_shell \<Rightarrow> (crypto_error, unit) result \<times> 'priv crypto_shell" where
  "cache_folder_key folder_id key =
     with_compat_state (\<lambda>st. Ok (st\<lparr>st_folder_keys := (st_folder_keys st)(folder_id \<mapsto> key)\<rparr>))"

definition cache_file_key :: "u64 \<Rightarrow> sym_key_ver1 \<Rightarrow> 'priv crypto_shell \<Rightarrow> (crypto_error, unit) result \<times> 'priv crypto_shell" where
  "cache_file_key file_id key =
     with_compat_state (\<lambda>st. Ok (st\<lparr>st_file_keys := (st_file_keys st)(file_id \<mapsto> key)\<rparr>))"

definition unwrap_and_cache_folder_key ::
  "('priv, 'pub) shell_env \<Rightarrow> u64 \<Rightarrow> byte list \<Rightarrow> 'priv crypto_shell \<Rightarrow> (crypto_error, unit) result \<times> 'priv crypto_shell" where
  "unwrap_and_cache_folder_key env folder_id wrapped =
     with_compat_state (\<lambda>st.
       case oaep_unwrap (compat env) (st_priv_key st) wrapped of
         Inl _ \<Rightarrow> Err CompatFailed
       | Inr key \<Rightarrow> Ok (st\<lparr>st_folder_keys := (st_folder_keys st)(folder_id \<mapsto> key)\<rparr>))"

definition unwrap_and_cache_file_key ::
  "('priv, 'pub) shell_env \<Rightarrow> u64 \<Rightarrow> byte list \<Rightarrow> 'priv crypto_shell \<Rightarrow> (crypto_error, unit) result \<times> 'priv crypto_shell" where
  "unwrap_and_cache_file_key env file_id wrapped =
     with_compat_state (\<lambda>st.
       case oaep_unwrap (compat env) (st_priv_key st) wrapped of
         Inl _ \<Rightarrow> Err CompatFailed
       | Inr key \<Rightarrow> Ok (st\<lparr>st_file_keys := (st_file_keys st)(file_id \<mapsto> key)\<rparr>))"

definition folder_ids :: "'priv crypto_shell \<Rightarrow> u64 list" where
  "folder_ids s = sorted_list_of_set (dom (cs_folders s))"

definition any_folder_id :: "'priv crypto_shell \<Rightarrow> u64 option" where
  "any_folder_id s = (case folder_ids s of [] \<Rightarrow> None | fid # _ \<Rightarrow> Some fid)"

end
