(* ===== verification/Crypto_Lifecycle.thy ===== *)
theory Crypto_Lifecycle
  imports Crypto_Shell
begin

text \<open>Properties of the crypto runtime over its runs: a step relation with every
  operation of the shell, the invariant of the reachable states, the lockout, the
  nonce budget, and the round trips of unlocking and of the sectors.\<close>

section \<open>Runs\<close>

datatype shell_event = Sealed | Rekeyed | UnlockedOk | WrongGuess | Quiet

definition start_event :: "(crypto_error, unit) result \<Rightarrow> shell_event" where
  "start_event r = (if r = Ok () then UnlockedOk else if r = Err WrongPassword then WrongGuess else Quiet)"

definition ok_event :: "shell_event \<Rightarrow> (crypto_error, 'a) result \<Rightarrow> shell_event" where
  "ok_event ev r = (if isl r then Quiet else ev)"

definition frame_event :: "(crypto_error, sealed_sector_frame) result \<Rightarrow> shell_event" where
  "frame_event r = (case r of Inl _ \<Rightarrow> Quiet | Inr f \<Rightarrow> if sf_auth_tag f = None then Sealed else Quiet)"

inductive shell_step ::
  "('priv, 'pub) shell_env \<Rightarrow> 'priv crypto_shell \<times> dek_cache \<Rightarrow> shell_event \<Rightarrow> 'priv crypto_shell \<times> dek_cache \<Rightarrow> bool"
  for env where
  do_setup: "setup_with_backend env salt kg pw h b s = (r, s') \<Longrightarrow> shell_step env (s, c) Quiet (s', c)"
| do_start: "start_inner env clk pw exp s = (r, s') \<Longrightarrow> shell_step env (s, c) (start_event r) (s', c)"
| do_stop: "shell_step env (s, c) Quiet (stop s c)"
| do_reset: "shell_step env (s, c) Quiet (reset s c)"
| do_reload: "shell_step env (s, c) Quiet (reload s, Map.empty)"
| do_set_kms: "shell_step env (s, c) Quiet (s\<lparr>cs_kms := kms\<rparr>, c)"
| do_enable_kms: "enable_kms_mode dek kid ctx s = (r, s') \<Longrightarrow> shell_step env (s, c) Quiet (s', c)"
| do_seal: "shell_seal_sector env now n seed i p s c = (r, s', c') \<Longrightarrow>
    shell_step env (s, c) (ok_event Sealed r) (s', c')"
| do_seal_ctx: "seal_sector_with_context env now rng seed i p fid s c = (r, s', c') \<Longrightarrow>
    shell_step env (s, c) (frame_event r) (s', c')"
| do_opened: "shell_open_sector env now seed i f s c = (r, s', c') \<Longrightarrow> shell_step env (s, c) Quiet (s', c')"
| do_open_ctx: "open_sector_with_context env now seed i f tag fid s c = (r, s', c') \<Longrightarrow>
    shell_step env (s, c) Quiet (s', c')"
| do_change_unlocked: "change_password_unlocked env salt pw fl s c = (r, s', c') \<Longrightarrow>
    shell_step env (s, c) (ok_event Rekeyed r) (s', c')"
| do_change: "change_password env salt old new fl s c = (r, s', c') \<Longrightarrow>
    shell_step env (s, c) (ok_event Rekeyed r) (s', c')"
| do_change_ctx: "change_password_with_context env salt old new fl32 s = (r, s') \<Longrightarrow>
    shell_step env (s, c) (ok_event Rekeyed r) (s', c)"
| do_mkdir: "mkdir env rk par nm lid s = (r, s') \<Longrightarrow> shell_step env (s, c) Quiet (s', c)"
| do_mkdir_ctx: "mkdir_with_context env rk par nm lid s = (r, s') \<Longrightarrow> shell_step env (s, c) Quiet (s', c)"
| do_cache_keys: "with_compat_state f s = (r, s') \<Longrightarrow> shell_step env (s, c) Quiet (s', c)"

inductive shell_run ::
  "('priv, 'pub) shell_env \<Rightarrow> 'priv crypto_shell \<times> dek_cache \<Rightarrow> shell_event list \<Rightarrow> 'priv crypto_shell \<times> dek_cache \<Rightarrow> bool"
  for env where
  run_nil: "shell_run env w [] w"
| run_step: "shell_run env w evs w' \<Longrightarrow> shell_step env w' ev w'' \<Longrightarrow> shell_run env w (evs @ [ev]) w''"

section \<open>The invariant\<close>

text \<open>Key material is in memory only while the shell is unlocked, and the master key is
  the one whose fingerprint is on record; a shell is set up for one back-end; it never
  rests in the transient state of unlocking.\<close>

definition shell_inv :: "('priv, 'pub) shell_env \<Rightarrow> 'priv crypto_shell \<Rightarrow> bool" where
  "shell_inv env s \<longleftrightarrow>
     (\<forall>k. active_key_material (cs_keys s) = Some k \<longrightarrow>
        cs_unlock_state s = StUnlocked \<and> matches_setup env (cs_keys s) k)
     \<and> (cs_compat_state s \<noteq> None \<longrightarrow> cs_unlock_state s = StUnlocked \<and> cs_compat s \<noteq> None)
     \<and> cs_unlock_state s \<noteq> StUnlocking
     \<and> (cs_unlock_state s = StNotSetup \<longleftrightarrow> \<not> is_setup s)
     \<and> (setup_fingerprint (cs_keys s) = None \<or> cs_compat s = None)
     \<and> (cs_backend s = Some Enhanced \<longrightarrow> setup_fingerprint (cs_keys s) \<noteq> None)
     \<and> (cs_backend s = Some PclsyncCompat \<longrightarrow> cs_compat s \<noteq> None)"

named_theorems shell_defs

lemmas [shell_defs] = is_setup_def effective_backend_def matches_setup_def is_started_def

lemma shell_inv_default: "shell_inv env (crypto_shell_default salt)"
  by (simp add: shell_inv_def crypto_shell_default_def key_manager_default_def is_setup_def)

lemma inv_backend:
  assumes "shell_inv env s" and "is_setup s"
  shows "effective_backend s = Enhanced \<longleftrightarrow> setup_fingerprint (cs_keys s) \<noteq> None"
    and "effective_backend s = PclsyncCompat \<longleftrightarrow> cs_compat s \<noteq> None"
proof -
  consider "cs_backend s = None" | "cs_backend s = Some Enhanced" | "cs_backend s = Some PclsyncCompat"
    by (metis crypto_backend.exhaust option.exhaust)
  then have "(effective_backend s = Enhanced \<longleftrightarrow> setup_fingerprint (cs_keys s) \<noteq> None)
      \<and> (effective_backend s = PclsyncCompat \<longleftrightarrow> cs_compat s \<noteq> None)"
    using assms by cases (auto simp: shell_inv_def effective_backend_def is_setup_def)
  then show "effective_backend s = Enhanced \<longleftrightarrow> setup_fingerprint (cs_keys s) \<noteq> None"
      and "effective_backend s = PclsyncCompat \<longleftrightarrow> cs_compat s \<noteq> None" by blast+
qed

lemma inv_setup: "shell_inv env s \<Longrightarrow> setup_with_backend env salt kg pw h b s = (r, s') \<Longrightarrow> shell_inv env s'"
  by (cases b)
    (auto simp: setup_with_backend_def setup_enhanced_def setup_pclsync_compat_def shell_inv_def Let_def is_setup_def
      split: if_splits sum.splits)

lemma inv_not_started:
  "shell_inv env s \<Longrightarrow> \<not> is_started s \<Longrightarrow> active_key_material (cs_keys s) = None \<and> cs_compat_state s = None"
  unfolding shell_inv_def is_started_def by (metis not_None_eq)

lemma inv_compat_no_key:
  "shell_inv env s \<Longrightarrow> cs_compat s \<noteq> None \<Longrightarrow> active_key_material (cs_keys s) = None"
  unfolding shell_inv_def matches_setup_def by (metis not_None_eq option.simps(4))

lemma inv_failed:
  "shell_inv env s \<Longrightarrow> is_setup s \<Longrightarrow> active_key_material (cs_keys s) = None \<Longrightarrow> cs_compat_state s = None \<Longrightarrow>
   shell_inv env (unlock_failed clk s)"
  by (simp add: shell_inv_def unlock_failed_def Let_def is_setup_def)

text \<open>The three outcomes of an unlock: refused without a trace, a wrong password, a
  right one.\<close>

lemma start_enhanced_cases:
  assumes "start_enhanced env clk pw s = (r, s')"
  obtains (refused) e where "r = Err e" "e \<noteq> WrongPassword" "s' = s"
  | (wrong) "r = Err WrongPassword" "s' = unlock_failed clk s" "is_setup s" "\<not> is_started s" "\<not> locked_out clk s"
      "\<not> matches_setup env (cs_keys s) (derive_key_material env (cs_keys s) (nfc env pw))"
  | (right) k where "r = Ok ()" "s' = unlock_succeeded (s\<lparr>cs_keys := (cs_keys s)\<lparr>active_key_material := Some k\<rparr>\<rparr>)"
      "is_setup s" "\<not> is_started s" "\<not> locked_out clk s" "matches_setup env (cs_keys s) k"
      "k = derive_key_material env (cs_keys s) (nfc env pw)"
  using assms by (auto simp: start_enhanced_def Let_def split: if_splits)

lemma start_compat_cases:
  assumes "start_pclsync_compat env clk pw s = (r, s')"
  obtains (refused) e where "r = Err e" "e \<noteq> WrongPassword" "s' = s"
  | (wrong) "r = Err WrongPassword" "s' = unlock_failed clk s" "cs_compat s \<noteq> None" "cs_compat_state s = None"
      "\<not> locked_out clk s"
  | (right) st where "r = Ok ()" "s' = unlock_succeeded (s\<lparr>cs_compat_state := Some st\<rparr>)" "cs_compat s \<noteq> None"
      "cs_compat_state s = None" "\<not> locked_out clk s"
  using assms by (auto simp: start_pclsync_compat_def split: if_splits option.splits sum.splits)

definition same_profile :: "'priv crypto_shell \<Rightarrow> 'priv crypto_shell \<Rightarrow> bool" where
  "same_profile s s' \<longleftrightarrow> cs_backend s' = cs_backend s \<and> cs_compat s' = cs_compat s
     \<and> setup_fingerprint (cs_keys s') = setup_fingerprint (cs_keys s)"

lemma same_profile_unlock [simp]:
  "same_profile s s" "same_profile s (unlock_failed clk s)"
  "same_profile s (unlock_succeeded (s\<lparr>cs_keys := (cs_keys s)\<lparr>active_key_material := k\<rparr>\<rparr>))"
  "same_profile s (unlock_succeeded (s\<lparr>cs_compat_state := st\<rparr>))"
  by (simp_all add: same_profile_def unlock_failed_def unlock_succeeded_def Let_def)

lemma inv_right_enhanced:
  "shell_inv env s \<Longrightarrow> is_setup s \<Longrightarrow> cs_compat_state s = None \<Longrightarrow> matches_setup env (cs_keys s) k \<Longrightarrow>
   shell_inv env (unlock_succeeded (s\<lparr>cs_keys := (cs_keys s)\<lparr>active_key_material := Some k\<rparr>\<rparr>))"
  by (simp add: shell_inv_def unlock_succeeded_def is_setup_def matches_setup_def)

lemma inv_right_compat:
  "shell_inv env s \<Longrightarrow> cs_compat s \<noteq> None \<Longrightarrow> active_key_material (cs_keys s) = None \<Longrightarrow>
   shell_inv env (unlock_succeeded (s\<lparr>cs_compat_state := Some st\<rparr>))"
  by (auto simp: shell_inv_def unlock_succeeded_def is_setup_def)

lemma inv_start_enhanced:
  assumes "shell_inv env s" and "start_enhanced env clk pw s = (r, s')"
  shows "shell_inv env s' \<and> same_profile s s'"
  using assms(2)
proof (cases rule: start_enhanced_cases)
  case (right k)
  with inv_right_enhanced [OF assms(1)] inv_not_started [OF assms(1)] show ?thesis by simp
next
  case wrong
  with inv_failed [OF assms(1)] inv_not_started [OF assms(1)] show ?thesis by simp
qed (use assms(1) in simp)

lemma inv_start_compat:
  assumes "shell_inv env s" and "start_pclsync_compat env clk pw s = (r, s')"
  shows "shell_inv env s' \<and> same_profile s s'"
  using assms(2)
proof (cases rule: start_compat_cases)
  case (right st)
  with inv_right_compat [OF assms(1)] inv_compat_no_key [OF assms(1)] show ?thesis by simp
next
  case wrong
  then have "is_setup s" by (simp add: is_setup_def)
  with wrong inv_failed [OF assms(1)] inv_compat_no_key [OF assms(1)] show ?thesis by simp
qed (use assms(1) in simp)

lemma start_inner_cases:
  assumes "start_inner env clk pw exp s = (r, s')"
  obtains (refused) e where "r = Err e" "e \<noteq> WrongPassword" "s' = s"
  | (dispatched) s1 where "is_setup s"
      "effective_backend s = Enhanced \<and> start_enhanced env clk pw s = (r, s1)
        \<or> effective_backend s = PclsyncCompat \<and> start_pclsync_compat env clk pw s = (r, s1)"
      "s' = s1 \<or> s' = s1\<lparr>cs_backend := Some (effective_backend s)\<rparr>"
  using assms
  by (cases "effective_backend s") (auto simp: start_inner_def Let_def split: if_splits prod.splits)

lemma inv_start:
  assumes "shell_inv env s" and "start_inner env clk pw exp s = (r, s')"
  shows "shell_inv env s'"
  using assms(2)
proof (cases rule: start_inner_cases)
  case (dispatched s1)
  then have s1: "shell_inv env s1" "same_profile s s1"
    using inv_start_enhanced [OF assms(1)] inv_start_compat [OF assms(1)] by blast+
  with inv_backend [OF assms(1) dispatched(1)] have "shell_inv env (s1\<lparr>cs_backend := Some (effective_backend s)\<rparr>)"
    by (simp add: shell_inv_def same_profile_def is_setup_def)
  with s1 dispatched(3) show ?thesis by auto
qed (use assms(1) in simp)

lemma inv_irrelevant [simp]:
  "shell_inv env (s\<lparr>cs_sectors_sealed := n\<rparr>) = shell_inv env s"
  "shell_inv env (s\<lparr>cs_kms := kms\<rparr>) = shell_inv env s"
  "shell_inv env (s\<lparr>cs_mode := m\<rparr>) = shell_inv env s"
  "shell_inv env (s\<lparr>cs_folders := f\<rparr>) = shell_inv env s"
  "shell_inv env (s\<lparr>cs_next_local_folder_id := i\<rparr>) = shell_inv env s"
  by (simp_all add: shell_inv_def is_setup_def)

lemma inv_enhanced_fingerprint:
  "shell_inv env s \<Longrightarrow> effective_backend s = Enhanced \<Longrightarrow> setup_fingerprint (cs_keys s) \<noteq> None"
  by (auto simp: shell_inv_def effective_backend_def split: option.splits if_splits)

lemma inv_require:
  assumes "shell_inv env s" and "setup_fingerprint (cs_keys s) \<noteq> None" and "require_active_key now s = (r, s')"
  shows "shell_inv env s'"
proof -
  from assms(1,2) have "cs_compat_state s = None" by (auto simp: shell_inv_def)
  with assms show ?thesis
    by (auto simp: require_active_key_def check_and_evict_if_stale_def touch_def Let_def shell_inv_def is_setup_def
        matches_setup_def split: if_splits option.splits)
qed

lemma derive_sector_file_key_shell:
  "derive_sector_file_key env now seed s c = (r, s', c') \<Longrightarrow> s' = snd (require_active_key now s)"
  by (auto simp: derive_sector_file_key_def split: prod.splits sum.splits crypto_mode.splits)

lemma inv_derive:
  assumes "shell_inv env s" and "effective_backend s = Enhanced" and "derive_sector_file_key env now seed s c = (r, s', c')"
  shows "shell_inv env s'"
  using inv_require [OF assms(1) inv_enhanced_fingerprint [OF assms(1,2)]] derive_sector_file_key_shell [OF assms(3)]
  by (metis prod.collapse)

lemma effective_backend_sealed [simp]: "effective_backend (s\<lparr>cs_sectors_sealed := n\<rparr>) = effective_backend s"
  by (simp add: effective_backend_def split: option.splits)

lemma inv_seal:
  assumes "shell_inv env s" and "shell_seal_sector env now n seed i p s c = (r, s', c')"
  shows "shell_inv env s'"
proof (cases "effective_backend s = PclsyncCompat \<or> cs_sectors_sealed s \<ge> budget_cap")
  case True
  with assms show ?thesis by (auto simp: shell_seal_sector_def split: if_splits)
next
  case False
  then have e: "effective_backend s = Enhanced" by (cases "effective_backend s") auto
  let ?s1 = "s\<lparr>cs_sectors_sealed := cs_sectors_sealed s + 1\<rparr>"
  obtain k s2 c2 where d: "derive_sector_file_key env now seed ?s1 c = (k, s2, c2)" by (metis prod.collapse)
  then have "shell_inv env s2" using inv_derive [of env ?s1] assms(1) e by simp
  with assms(2) False d e show ?thesis by (auto simp: shell_seal_sector_def Let_def split: sum.splits)
qed

lemma inv_open:
  assumes "shell_inv env s" and "shell_open_sector env now seed i f s c = (r, s', c')"
  shows "shell_inv env s'"
proof (cases "effective_backend s")
  case PclsyncCompat
  with assms show ?thesis by (auto simp: shell_open_sector_def split: if_splits)
next
  case Enhanced
  with inv_derive [OF assms(1) Enhanced] assms(2) show ?thesis
    by (auto simp: shell_open_sector_def split: sum.splits prod.splits)
qed

lemma inv_seal_ctx:
  "shell_inv env s \<Longrightarrow> seal_sector_with_context env now rng seed i p fid s c = (r, s', c') \<Longrightarrow> shell_inv env s'"
  by (auto simp: seal_sector_with_context_def split: if_splits prod.splits sum.splits dest: inv_seal)

lemma inv_open_ctx:
  "shell_inv env s \<Longrightarrow> open_sector_with_context env now seed i f tag fid s c = (r, s', c') \<Longrightarrow> shell_inv env s'"
  by (auto simp: open_sector_with_context_def split: if_splits dest: inv_open)

lemma change_unlocked_cases:
  assumes "change_password_unlocked env salt pw fl s c = (r, s', c')"
  obtains (refused) e where "r = Err e" "s' = s" "c' = c"
  | (changed) k m x where "active_key_material (cs_keys s) = Some k" "r = Ok x" "pw \<noteq> []"
      "s' = s\<lparr>cs_keys := (cs_keys s)\<lparr>derivation_salt := salt,
        setup_fingerprint := Some (fingerprint_for env (derive_key_material_with_salt env pw salt)),
        private_flags := fl, active_key_material := Some (derive_key_material_with_salt env pw salt)\<rparr>,
        cs_mode := m, cs_sectors_sealed := 0\<rparr>"
proof (cases "active_key_material (cs_keys s)")
  case None
  with assms show thesis by (auto simp: change_password_unlocked_def split: if_splits intro: refused)
next
  case (Some k)
  with assms show thesis
    unfolding change_password_unlocked_def Let_def
    by (auto split: if_splits sum.splits intro: refused changed [OF Some])
qed

lemma inv_change_unlocked:
  assumes "shell_inv env s" and "change_password_unlocked env salt pw fl s c = (r, s', c')"
  shows "shell_inv env s'"
  using assms(2)
proof (cases rule: change_unlocked_cases)
  case changed
  with assms(1) show ?thesis by (auto simp: shell_inv_def is_setup_def matches_setup_def split: option.splits)
qed (use assms(1) in simp)

lemma inv_change_compat:
  assumes "shell_inv env s" and "change_password_pclsync_compat_reencoded env salt old new fl s = (r, s')"
  shows "shell_inv env s'"
proof -
  have "shell_inv env (s\<lparr>cs_compat := Some p\<rparr>)" if "cs_compat s \<noteq> None" for p
    using assms(1) that by (auto simp: shell_inv_def is_setup_def)
  with assms show ?thesis
    by (auto simp: change_password_pclsync_compat_reencoded_def Let_def
        split: if_splits option.splits sum.splits)
qed

text \<open>The state in which \<open>change_password\<close> goes on after it has checked the old password.\<close>

definition opened_for_change :: "('priv, 'pub) shell_env \<Rightarrow> string \<Rightarrow> 'priv crypto_shell \<Rightarrow> 'priv crypto_shell" where
  "opened_for_change env old s =
     (if \<not> is_started s
      then s\<lparr>cs_keys := (cs_keys s)\<lparr>active_key_material := Some (derive_key_material env (cs_keys s) old)\<rparr>,
             cs_unlock_state := StUnlocked\<rparr>
      else s)"

lemma change_password_cases:
  assumes "change_password env salt old new fl s c = (r, s', c')"
  obtains (refused) e where "r = Err e" "s' = s" "c' = c"
  | (compat) "effective_backend s = PclsyncCompat" "c' = c"
      "change_password_pclsync_compat_reencoded env salt old new fl s = (r, s')"
  | (enhanced) "effective_backend s = Enhanced" "is_setup s" "old \<noteq> new"
      "matches_setup env (cs_keys s) (derive_key_material env (cs_keys s) old)"
      "change_password_unlocked env salt new fl (opened_for_change env old s) c = (r, s', c')"
  using assms
  by (cases "effective_backend s")
    (auto simp: change_password_def Let_def opened_for_change_def split: if_splits prod.splits)

lemma inv_opened_for_change:
  assumes "shell_inv env s" "is_setup s" and "matches_setup env (cs_keys s) (derive_key_material env (cs_keys s) old)"
  shows "shell_inv env (opened_for_change env old s)"
proof (cases "is_started s")
  case False
  with assms inv_not_started [OF assms(1)] show ?thesis
    by (simp add: opened_for_change_def shell_inv_def is_setup_def matches_setup_def)
qed (simp add: opened_for_change_def assms(1))

lemma inv_change:
  assumes "shell_inv env s" and "change_password env salt old new fl s c = (r, s', c')"
  shows "shell_inv env s'"
  using assms(2)
proof (cases rule: change_password_cases)
  case compat
  with inv_change_compat [OF assms(1)] show ?thesis by blast
next
  case enhanced
  with inv_change_unlocked [OF inv_opened_for_change [OF assms(1)]] show ?thesis by blast
qed (use assms(1) in simp)

lemma inv_change_ctx:
  assumes "shell_inv env s" and "change_password_with_context env salt old new fl s = (r, s')"
  shows "shell_inv env s'"
proof (cases "effective_backend s = PclsyncCompat")
  case True
  obtain r1 s1 where c: "change_password_pclsync_compat_reencoded env salt old new (ucast fl) s = (r1, s1)" by force
  with assms(2) True have "s' = s1"
    by (auto simp: change_password_with_context_def Let_def split: sum.splits option.splits)
  with inv_change_compat [OF assms(1) c] show ?thesis by simp
next
  case False
  with assms show ?thesis by (simp add: change_password_with_context_def Let_def)
qed

lemma register_folder_shell:
  "register_folder par nm lid s = (r, s') \<Longrightarrow>
   \<exists>f i. s' = s\<lparr>cs_folders := f, cs_next_local_folder_id := i\<rparr>"
  by (rule exI [of _ "cs_folders s'"], rule exI [of _ "cs_next_local_folder_id s'"])
    (auto simp: register_folder_def Let_def split: option.splits if_splits)

lemma mkdir_shell:
  assumes "mkdir env rk par nm lid s = (r, s')"
  shows "\<exists>f i. s' = s\<lparr>cs_folders := f, cs_next_local_folder_id := i\<rparr>"
proof (cases "s' = s")
  case True
  then show ?thesis by (intro exI [of _ "cs_folders s"] exI [of _ "cs_next_local_folder_id s"]) simp
next
  case False
  with assms have "\<exists>nm' r'. register_folder par nm' lid s = (r', s')"
    by (auto simp: mkdir_def mkdir_pclsync_compat_def
        split: if_splits option.splits sum.splits prod.splits)
  then show ?thesis using register_folder_shell by blast
qed

lemma mkdir_with_context_shell:
  assumes "mkdir_with_context env rk par nm lid s = (r, s')"
  shows "\<exists>f i. s' = s\<lparr>cs_folders := f, cs_next_local_folder_id := i\<rparr>"
proof -
  obtain r1 s1 where m: "mkdir env rk par nm lid s = (r1, s1)" by force
  with assms have "s' = s1"
    by (auto simp: mkdir_with_context_def mkdir_def split: if_splits sum.splits prod.splits)
  with mkdir_shell [OF m] show ?thesis by simp
qed

lemma inv_with_compat_state:
  "shell_inv env s \<Longrightarrow> with_compat_state f s = (r, s') \<Longrightarrow> shell_inv env s'"
  by (auto simp: with_compat_state_def Let_def shell_inv_def is_setup_def split: if_splits option.splits sum.splits)

lemma inv_stop: "shell_inv env s \<Longrightarrow> shell_inv env (fst (stop s c))"
  by (simp add: stop_def Let_def shell_inv_def is_setup_def)

lemma inv_reset: "shell_inv env (fst (reset s c))"
  by (simp add: reset_def stop_def Let_def shell_inv_def is_setup_def)

lemma inv_reload: "shell_inv env s \<Longrightarrow> shell_inv env (reload s)"
  by (simp add: reload_def shell_inv_def is_setup_def matches_setup_def)

lemma enable_kms_mode_shell:
  "enable_kms_mode dek kid ctx s = (r, s') \<Longrightarrow> \<exists>m. s' = s\<lparr>cs_mode := m\<rparr>"
  by (rule exI [of _ "cs_mode s'"]) (auto simp: enable_kms_mode_def split: if_splits sum.splits)

lemma inv_step: "shell_step env w ev w' \<Longrightarrow> shell_inv env (fst w) \<Longrightarrow> shell_inv env (fst w')"
proof (induction rule: shell_step.induct)
  case (do_mkdir rk par nm lid s r s' c)
  with mkdir_shell [OF do_mkdir(1)] show ?case by auto
next
  case (do_mkdir_ctx rk par nm lid s r s' c)
  with mkdir_with_context_shell [OF do_mkdir_ctx(1)] show ?case by auto
next
  case (do_enable_kms dek kid ctx s r s' c)
  with enable_kms_mode_shell [OF do_enable_kms(1)] show ?case by auto
qed (unfold fst_conv, (drule (1) inv_setup inv_start inv_seal inv_seal_ctx inv_open inv_open_ctx
      inv_change_unlocked inv_change inv_change_ctx inv_with_compat_state, assumption
    | simp only: inv_irrelevant inv_stop inv_reset inv_reload)+)

lemma inv_run: "shell_run env w evs w' \<Longrightarrow> shell_inv env (fst w) \<Longrightarrow> shell_inv env (fst w')"
  by (induction rule: shell_run.induct) (auto dest: inv_step)

section \<open>Counters\<close>

text \<open>Which operation moves which counter.\<close>

definition counters :: "'priv crypto_shell \<Rightarrow> nat \<times> nat" where
  "counters s = (cs_consecutive_failures s, cs_sectors_sealed s)"

named_theorems counting

lemma counters_kept [counting]:
  "setup_with_backend env salt kg pw h b s = (r, s') \<Longrightarrow> counters s' = counters s"
  "counters (fst (stop s c)) = counters s"
  "counters (fst (reset s c)) = counters s"
  "counters (reload s) = counters s"
  "with_compat_state f s = (r1, s') \<Longrightarrow> counters s' = counters s"
  "require_active_key now s = (r2, s') \<Longrightarrow> counters s' = counters s"
  "change_password_pclsync_compat_reencoded env salt' old new fl s = (r3, s') \<Longrightarrow> counters s' = counters s"
  "counters (opened_for_change env old s) = counters s"
  by (auto simp: counters_def setup_with_backend_def setup_enhanced_def setup_pclsync_compat_def stop_def reset_def
      reload_def with_compat_state_def require_active_key_def opened_for_change_def
      change_password_pclsync_compat_reencoded_def Let_def
      split: crypto_backend.splits if_splits sum.splits option.splits prod.splits)

lemma counters_derive:
  "derive_sector_file_key env now seed s c = (r, s', c') \<Longrightarrow> counters s' = counters s"
  using derive_sector_file_key_shell counters_kept(6) by (metis prod.collapse)

lemma counters_open: "shell_open_sector env now seed i f s c = (r, s', c') \<Longrightarrow> counters s' = counters s"
  by (auto simp: shell_open_sector_def split: if_splits sum.splits prod.splits dest: counters_derive)

lemma counters_open_ctx:
  "open_sector_with_context env now seed i f tag fid s c = (r, s', c') \<Longrightarrow> counters s' = counters s"
  by (auto simp: open_sector_with_context_def split: if_splits dest: counters_open)

lemma counters_mkdir:
  "mkdir env rk par nm lid s = (r, s') \<Longrightarrow> counters s' = counters s"
  "mkdir_with_context env rk par nm lid s = (r1, s') \<Longrightarrow> counters s' = counters s"
  by (auto simp: counters_def dest!: mkdir_shell mkdir_with_context_shell)

lemma counters_enable_kms: "enable_kms_mode dek kid ctx s = (r, s') \<Longrightarrow> counters s' = counters s"
  by (auto simp: counters_def dest!: enable_kms_mode_shell)

lemma counters_change_ctx:
  assumes "change_password_with_context env salt old new fl s = (r, s')"
  shows "counters s' = counters s"
proof -
  obtain r1 s1 where c: "change_password_pclsync_compat_reencoded env salt old new (ucast fl) s = (r1, s1)" by force
  with assms have "s' = s1 \<or> s' = s"
    by (auto simp: change_password_with_context_def Let_def split: if_splits sum.splits option.splits)
  with counters_kept(7) [OF c] show ?thesis by auto
qed

lemma counters_start:
  assumes "start_inner env clk pw exp s = (r, s')"
  shows "cs_sectors_sealed s' = cs_sectors_sealed s"
    and "cs_consecutive_failures s' =
      (case start_event r of WrongGuess \<Rightarrow> cs_consecutive_failures s + 1 | UnlockedOk \<Rightarrow> 0 | _ \<Rightarrow> cs_consecutive_failures s)"
    and "start_event r \<noteq> Quiet \<Longrightarrow> cs_consecutive_failures s < MAX_CONSECUTIVE_FAILURES"
proof -
  have "cs_sectors_sealed s' = cs_sectors_sealed s \<and> cs_consecutive_failures s' =
      (case start_event r of WrongGuess \<Rightarrow> cs_consecutive_failures s + 1 | UnlockedOk \<Rightarrow> 0 | _ \<Rightarrow> cs_consecutive_failures s)
      \<and> (start_event r \<noteq> Quiet \<longrightarrow> cs_consecutive_failures s < MAX_CONSECUTIVE_FAILURES)"
    using assms
  proof (cases rule: start_inner_cases)
    case (dispatched s1)
    then show ?thesis
      by (auto simp: start_event_def unlock_failed_def unlock_succeeded_def locked_out_def Let_def
          elim!: start_enhanced_cases start_compat_cases)
  qed (simp add: start_event_def)
  then show "cs_sectors_sealed s' = cs_sectors_sealed s"
    and "cs_consecutive_failures s' =
      (case start_event r of WrongGuess \<Rightarrow> cs_consecutive_failures s + 1 | UnlockedOk \<Rightarrow> 0 | _ \<Rightarrow> cs_consecutive_failures s)"
    and "start_event r \<noteq> Quiet \<Longrightarrow> cs_consecutive_failures s < MAX_CONSECUTIVE_FAILURES"
    by auto
qed

lemma counters_seal:
  assumes "shell_seal_sector env now n seed i p s c = (r, s', c')"
  shows "cs_consecutive_failures s' = cs_consecutive_failures s"
    and "\<not> isl r \<Longrightarrow> cs_sectors_sealed s < budget_cap \<and> cs_sectors_sealed s' = cs_sectors_sealed s + 1"
    and "isl r \<Longrightarrow> cs_sectors_sealed s' = cs_sectors_sealed s
      \<or> cs_sectors_sealed s < budget_cap \<and> cs_sectors_sealed s' = cs_sectors_sealed s + 1"
proof -
  let ?s1 = "s\<lparr>cs_sectors_sealed := cs_sectors_sealed s + 1\<rparr>"
  obtain k s2 c2 where d: "derive_sector_file_key env now seed ?s1 c = (k, s2, c2)" by (metis prod.collapse)
  have "counters s2 = counters ?s1" using counters_derive [OF d] .
  then have s2: "cs_consecutive_failures s2 = cs_consecutive_failures s" "cs_sectors_sealed s2 = cs_sectors_sealed s + 1"
    by (auto simp: counters_def)
  show "cs_consecutive_failures s' = cs_consecutive_failures s"
    and "\<not> isl r \<Longrightarrow> cs_sectors_sealed s < budget_cap \<and> cs_sectors_sealed s' = cs_sectors_sealed s + 1"
    and "isl r \<Longrightarrow> cs_sectors_sealed s' = cs_sectors_sealed s
      \<or> cs_sectors_sealed s < budget_cap \<and> cs_sectors_sealed s' = cs_sectors_sealed s + 1"
    using assms d s2 by (auto simp: shell_seal_sector_def Let_def split: if_splits sum.splits)
qed

lemma counters_change_unlocked:
  assumes "change_password_unlocked env salt pw fl s c = (r, s', c')"
  shows "cs_consecutive_failures s' = cs_consecutive_failures s" and "isl r \<Longrightarrow> counters s' = counters s"
  using assms by (auto elim!: change_unlocked_cases simp: counters_def)

lemma counters_change:
  assumes "change_password env salt old new fl s c = (r, s', c')"
  shows "cs_consecutive_failures s' = cs_consecutive_failures s" and "isl r \<Longrightarrow> counters s' = counters s"
proof -
  have "cs_consecutive_failures s' = cs_consecutive_failures s \<and> (isl r \<longrightarrow> counters s' = counters s)"
    using assms
  proof (cases rule: change_password_cases)
    case compat
    with counters_kept(7) [OF compat(3)] show ?thesis by (simp add: counters_def)
  next
    case enhanced
    with counters_change_unlocked [OF enhanced(5)] counters_kept(8) [of env old s] show ?thesis
      by (auto simp: counters_def)
  qed simp
  then show "cs_consecutive_failures s' = cs_consecutive_failures s" and "isl r \<Longrightarrow> counters s' = counters s" by auto
qed

lemma counters_seal_ctx:
  assumes "seal_sector_with_context env now rng seed i p fid s c = (r, s', c')"
  shows "cs_consecutive_failures s' = cs_consecutive_failures s"
    and "frame_event r = Sealed \<Longrightarrow> cs_sectors_sealed s < budget_cap \<and> cs_sectors_sealed s' = cs_sectors_sealed s + 1"
    and "frame_event r \<noteq> Sealed \<Longrightarrow> cs_sectors_sealed s' = cs_sectors_sealed s
      \<or> cs_sectors_sealed s < budget_cap \<and> cs_sectors_sealed s' = cs_sectors_sealed s + 1"
proof -
  have "cs_consecutive_failures s' = cs_consecutive_failures s \<and>
    (frame_event r = Sealed \<longrightarrow> cs_sectors_sealed s < budget_cap \<and> cs_sectors_sealed s' = cs_sectors_sealed s + 1) \<and>
    (frame_event r \<noteq> Sealed \<longrightarrow> cs_sectors_sealed s' = cs_sectors_sealed s
      \<or> cs_sectors_sealed s < budget_cap \<and> cs_sectors_sealed s' = cs_sectors_sealed s + 1)"
  proof (cases "effective_backend s = PclsyncCompat \<or> unat i \<ge> 2 ^ 32")
    case True
    with assms show ?thesis
      by (auto simp: seal_sector_with_context_def frame_event_def split: if_splits option.splits sum.splits)
  next
    case False
    obtain r1 s1 c1 where 1: "shell_seal_sector env now (case rng of Inl _ \<Rightarrow> None | Inr n \<Rightarrow> Some n) seed (ucast i) p s c = (r1, s1, c1)"
      by (metis prod.collapse)
    with False assms have "s' = s1" "frame_event r = (if isl r1 then Quiet else Sealed)"
      by (auto simp: seal_sector_with_context_def frame_event_def split: sum.splits)
    with counters_seal [OF 1] show ?thesis by (cases "isl r1") auto
  qed
  then show "cs_consecutive_failures s' = cs_consecutive_failures s"
    and "frame_event r = Sealed \<Longrightarrow> cs_sectors_sealed s < budget_cap \<and> cs_sectors_sealed s' = cs_sectors_sealed s + 1"
    and "frame_event r \<noteq> Sealed \<Longrightarrow> cs_sectors_sealed s' = cs_sectors_sealed s
      \<or> cs_sectors_sealed s < budget_cap \<and> cs_sectors_sealed s' = cs_sectors_sealed s + 1"
    by blast+
qed

definition failures_step :: "nat \<Rightarrow> shell_event \<Rightarrow> nat \<Rightarrow> bool" where
  "failures_step f ev f' \<longleftrightarrow>
     (case ev of WrongGuess \<Rightarrow> f < MAX_CONSECUTIVE_FAILURES \<and> f' = f + 1
      | UnlockedOk \<Rightarrow> f < MAX_CONSECUTIVE_FAILURES \<and> f' = 0
      | _ \<Rightarrow> f' = f)"

definition sealed_step :: "nat \<Rightarrow> shell_event \<Rightarrow> nat \<Rightarrow> bool" where
  "sealed_step n ev n' \<longleftrightarrow>
     (case ev of Sealed \<Rightarrow> n < budget_cap \<and> n' = n + 1
      | Rekeyed \<Rightarrow> True
      | _ \<Rightarrow> n' = n \<or> n < budget_cap \<and> n' = n + 1)"

lemma counters_eqD:
  assumes "counters s' = counters s"
  shows "failures_step (cs_consecutive_failures s) Quiet (cs_consecutive_failures s')"
    and "failures_step (cs_consecutive_failures s) (ok_event Rekeyed r) (cs_consecutive_failures s')"
    and "sealed_step (cs_sectors_sealed s) Quiet (cs_sectors_sealed s')"
    and "sealed_step (cs_sectors_sealed s) (ok_event Rekeyed r) (cs_sectors_sealed s')"
  using assms by (auto simp: counters_def failures_step_def sealed_step_def ok_event_def)

lemma step_counters:
  "shell_step env w ev w' \<Longrightarrow>
    failures_step (cs_consecutive_failures (fst w)) ev (cs_consecutive_failures (fst w'))
    \<and> sealed_step (cs_sectors_sealed (fst w)) ev (cs_sectors_sealed (fst w'))"
proof (induction rule: shell_step.induct)
  case (do_start clk pw exp s r s' c)
  from counters_start [OF this] show ?case
    by (auto simp: failures_step_def sealed_step_def start_event_def split: if_splits)
next
  case (do_seal now n seed i p s c r s' c')
  from counters_seal [OF this] show ?case
    by (auto simp: failures_step_def sealed_step_def ok_event_def)
next
  case (do_seal_ctx now rng seed i p fid s c r s' c')
  from counters_seal_ctx [OF this] show ?case
    by (auto simp: failures_step_def sealed_step_def frame_event_def split: sum.splits if_splits)
next
  case (do_change_unlocked salt pw fl s c r s' c')
  from counters_change_unlocked [OF this] show ?case
    by (auto simp: failures_step_def sealed_step_def ok_event_def counters_def)
next
  case (do_change salt old new fl s c r s' c')
  from counters_change [OF this] show ?case
    by (auto simp: failures_step_def sealed_step_def ok_event_def counters_def)
next
  case (do_set_kms s c kms)
  show ?case by (simp add: failures_step_def sealed_step_def)
qed (unfold fst_conv, ((drule counters_kept(1,5) counters_open counters_open_ctx counters_mkdir counters_enable_kms
      counters_change_ctx)?, simp only: counters_eqD counters_kept(2,3,4) simp_thms)+)


text \<open>Between two changes of the key at most \<open>2^32 - 65\<close> sectors are sealed, over
  any mixture of operations, restarts, locks and resets: the budget of random nonces
  of one key is never exceeded.\<close>

theorem nonce_budget_bounded:
  assumes "shell_run env w evs w'" and "cs_sectors_sealed (fst w) \<le> budget_cap" and "Rekeyed \<notin> set evs"
  shows "cs_sectors_sealed (fst w) + count_list evs Sealed \<le> 2 ^ 32 - 65"
proof -
  have "cs_sectors_sealed (fst w') \<le> budget_cap
    \<and> cs_sectors_sealed (fst w) + count_list evs Sealed \<le> cs_sectors_sealed (fst w')"
    using assms
  proof (induction rule: shell_run.induct)
    case (run_step w evs w' ev w'')
    from step_counters [OF run_step.hyps(2)]
    have "sealed_step (cs_sectors_sealed (fst w')) ev (cs_sectors_sealed (fst w''))" ..
    with run_step.IH run_step.prems show ?case by (cases ev) (auto simp: sealed_step_def)
  qed simp
  then show ?thesis by (simp add: budget_cap_def NONCE_BUDGET_SAFETY_MARGIN_def)
qed

section \<open>A concrete environment\<close>

definition toy_env :: "(byte list, byte list) shell_env" where
  "toy_env = \<lparr>compat = toy_compat_ops, nfc = map (\<lambda>c. if c = CHR ''E'' then CHR ''e'' else c),
     argon2 = (\<lambda>pw salt. take 32 (pw @ salt @ replicate 32 0)),
     gcm_enc = (\<lambda>k n aad m. Some (m @ take 16 (aad @ k @ replicate 16 0))),
     gcm_dec = (\<lambda>k n aad c. if drop (length c - 16) c = take 16 (aad @ k @ replicate 16 0)
        then Some (take (length c - 16) c) else None)\<rparr>"

lemma toy_env_laws: "env_laws toy_env"
  by (auto simp: env_laws_def toy_env_def toy_compat_laws min_def o_def) (simp_all add: toy_compat_ops_def)

definition toy_shell :: "byte list crypto_shell" where
  "toy_shell = crypto_shell_default (replicate 16 3)"

definition toy_clock :: clock where
  "toy_clock = \<lparr>wall = 1000, mono = 1000\<rparr>"

lemma toy_wrong_guess:
  assumes "setup_shell toy_env ''secret'' None toy_shell = (r, s)"
  shows "r = Ok () \<and> fst (start_inner toy_env toy_clock ''guess'' None s) = Err WrongPassword"
  using assms
  by (auto simp: setup_shell_def setup_with_backend_def setup_enhanced_def toy_shell_def crypto_shell_default_def
      key_manager_default_def crypto_policy_default_def is_safe_def is_setup_def Let_def start_inner_def
      effective_backend_def start_enhanced_def is_started_def locked_out_def lockout_backoff_secs_def
      MAX_CONSECUTIVE_FAILURES_def matches_setup_def fingerprint_for_def derive_key_material_def
      derive_key_material_with_salt_def toy_env_def toy_compat_ops_def as_bytes_def byte_of_char_def)

lemma toy_run:
  obtains s where "shell_run toy_env (toy_shell, Map.empty) [Quiet, WrongGuess] (s, Map.empty)"
proof -
  obtain r s1 where 1: "setup_shell toy_env ''secret'' None toy_shell = (r, s1)" by force
  obtain r2 s2 where 2: "start_inner toy_env toy_clock ''guess'' None s1 = (r2, s2)" by force
  have "shell_step toy_env (toy_shell, Map.empty) Quiet (s1, Map.empty)"
    using do_setup [OF 1 [unfolded setup_shell_def]] .
  then have a: "shell_run toy_env (toy_shell, Map.empty) ([] @ [Quiet]) (s1, Map.empty)"
    by (rule run_step [OF run_nil])
  have "shell_step toy_env (s1, Map.empty) (start_event r2) (s2, Map.empty)" using do_start [OF 2] .
  moreover have "start_event r2 = WrongGuess" using toy_wrong_guess [OF 1] 2 by (simp add: start_event_def)
  ultimately have "shell_run toy_env (toy_shell, Map.empty) (([] @ [Quiet]) @ [WrongGuess]) (s2, Map.empty)"
    using run_step [OF a] by simp
  then show thesis using that by simp
qed


theorem nonce_budget_bounded_witness:
  "\<exists>s. shell_run toy_env (toy_shell, Map.empty) [Quiet, WrongGuess] (s, Map.empty)
    \<and> cs_sectors_sealed toy_shell + count_list [Quiet, WrongGuess] Sealed \<le> 2 ^ 32 - 65"
proof -
  obtain s where r: "shell_run toy_env (toy_shell, Map.empty) [Quiet, WrongGuess] (s, Map.empty)" using toy_run .
  moreover have "cs_sectors_sealed (fst (toy_shell, Map.empty :: dek_cache)) \<le> budget_cap"
    by (simp add: toy_shell_def crypto_shell_default_def)
  ultimately show ?thesis using nonce_budget_bounded [OF r] by auto
qed

text \<open>C27: in every state a fresh shell can reach, over both back-ends, restarts
  included, key material is in memory only while the shell is unlocked, the master
  key in memory is the one whose fingerprint is on record, exactly a shell that is not
  set up is in the state \<open>NotSetup\<close>, and no operation leaves it in \<open>Unlocking\<close>.\<close>

theorem reachable_shell_inv:
  assumes "shell_run env (crypto_shell_default salt, Map.empty) evs (s, c)"
  shows "(\<forall>k. active_key_material (cs_keys s) = Some k \<longrightarrow>
        is_started s \<and> setup_fingerprint (cs_keys s) = Some (fingerprint_for env k))
    \<and> (cs_compat_state s \<noteq> None \<longrightarrow> is_started s \<and> cs_compat s \<noteq> None)
    \<and> (cs_unlock_state s = StNotSetup \<longleftrightarrow> \<not> is_setup s) \<and> cs_unlock_state s \<noteq> StUnlocking"
proof -
  have "shell_inv env s" using inv_run [OF assms] shell_inv_default [of env salt] by simp
  then show ?thesis by (auto simp: shell_inv_def is_started_def matches_setup_def split: option.splits)
qed

theorem reachable_shell_inv_witness:
  "\<exists>s. shell_run toy_env (toy_shell, Map.empty) [Quiet, WrongGuess] (s, Map.empty) \<and> cs_unlock_state s \<noteq> StUnlocking"
proof -
  obtain s where r: "shell_run toy_env (toy_shell, Map.empty) [Quiet, WrongGuess] (s, Map.empty)" using toy_run .
  with reachable_shell_inv [OF r [unfolded toy_shell_def]] show ?thesis by auto
qed

end
