(* ===== verification/Crypto_Sessions.thy ===== *)
theory Crypto_Sessions
  imports Crypto_Lifecycle
begin

text \<open>What a session of the crypto runtime gives its user: a set-up shell opens again
  with its password, a sealed sector opens again at its place and nowhere else, and
  what becomes of the password after a change.  The last section holds the places
  where the code does not do what its comments say.\<close>

section \<open>Unlocking what was set up\<close>

lemma start_enhanced_result:
  assumes "is_safe (cs_policy s)" "pw \<noteq> []" "is_setup s" "\<not> is_started s" "\<not> locked_out clk s"
    and "effective_backend s = Enhanced"
  shows "start env clk pw s =
    (if matches_setup env (cs_keys s) (derive_key_material env (cs_keys s) (nfc env pw))
     then (Ok (), (unlock_succeeded (s\<lparr>cs_keys := (cs_keys s)\<lparr>active_key_material :=
        Some (derive_key_material env (cs_keys s) (nfc env pw))\<rparr>\<rparr>))
          \<lparr>cs_backend := Some Enhanced\<rparr>)
     else (Err WrongPassword, unlock_failed clk s))"
proof -
  have "cs_backend s = Some Enhanced \<or> cs_backend s = None"
    using assms(6) by (auto simp: effective_backend_def split: option.splits)
  then show ?thesis
    using assms by (auto simp: start_def start_inner_def start_enhanced_def Let_def unlock_succeeded_def)
qed

lemma unlock_succeeded_started:
  "is_started (unlock_succeeded (s\<lparr>cs_keys := (cs_keys s)\<lparr>active_key_material := Some k\<rparr>\<rparr>))"
  "is_started (unlock_succeeded (s\<lparr>cs_compat_state := Some st\<rparr>))"
  by (simp_all add: is_started_def unlock_succeeded_def)

text \<open>A shell right after its set-up, or after a restart that follows.\<close>

definition just_set_up ::
  "('priv, 'pub) shell_env \<Rightarrow> byte list \<Rightarrow> 'priv \<Rightarrow> string \<Rightarrow> crypto_backend \<Rightarrow> 'priv crypto_shell \<Rightarrow> 'priv crypto_shell \<Rightarrow> bool" where
  "just_set_up env salt k pw b s s' \<longleftrightarrow>
     (\<exists>h s1. setup_with_backend env (Some salt) (Some k) pw h b s = (Ok (), s1) \<and> (s' = s1 \<or> s' = reload s1))"

lemma start_after_setup_enhanced:
  assumes "shell_inv env s" "just_set_up env salt k pw Enhanced s s'" and "nfc env pw' = nfc env pw" "pw' \<noteq> []"
    and "\<not> locked_out clk s'"
  shows "\<exists>s''. start env clk pw' s' = (Ok (), s'') \<and> is_started s''"
proof -
  obtain h s1 where s1: "setup_enhanced env pw h s = (Ok (), s1)" "s' = s1 \<or> s' = reload s1"
    using assms(2) by (auto simp: just_set_up_def setup_with_backend_def)
  then have n: "is_safe (cs_policy s)" "\<not> is_setup s"
    by (auto simp: setup_enhanced_def Let_def split: if_splits)
  let ?f = "fingerprint_for env (derive_key_material env (cs_keys s) (nfc env pw))"
  have e: "cs_unlock_state s' = StLocked" "setup_fingerprint (cs_keys s') = Some ?f" "cs_policy s' = cs_policy s"
    "derivation_salt (cs_keys s') = derivation_salt (cs_keys s)" "cs_backend s' = Some Enhanced"
    using s1 by (auto simp: setup_enhanced_def reload_def Let_def split: if_splits)
  have "start env clk pw' s' = (Ok (), (unlock_succeeded (s'\<lparr>cs_keys := (cs_keys s')\<lparr>active_key_material :=
        Some (derive_key_material env (cs_keys s') (nfc env pw'))\<rparr>\<rparr>))\<lparr>cs_backend := Some Enhanced\<rparr>)"
    using start_enhanced_result [of s' pw' clk env] e n assms(3-5)
    by (simp add: is_setup_def is_started_def effective_backend_def matches_setup_def derive_key_material_def)
  then show ?thesis by (simp add: is_started_def unlock_succeeded_def)
qed

lemma start_after_setup_compat:
  assumes "env_laws env" "shell_inv env s" "just_set_up env salt k pw PclsyncCompat s s'" "length salt = 64"
    and "nfc env pw' = nfc env pw" "pw' \<noteq> []" and "\<not> locked_out clk s'"
  shows "\<exists>s''. start env clk pw' s' = (Ok (), s'') \<and> is_started s''"
proof -
  obtain h s1 where s1: "setup_pclsync_compat env (Some salt) (Some k) pw h s = (Ok (), s1)" "s' = s1 \<or> s' = reload s1"
    using assms(3) by (auto simp: just_set_up_def setup_with_backend_def)
  then obtain profile where p: "generate_profile (compat env) (Some salt) (Some k) (nfc env pw) = Ok profile"
    and s1': "s1 = s\<lparr>cs_compat := Some profile, cs_hint := h, cs_unlock_state := StLocked, cs_backend := Some PclsyncCompat\<rparr>"
    and n: "is_safe (cs_policy s)" "\<not> is_setup s"
    by (auto simp: setup_pclsync_compat_def split: if_splits sum.splits)
  have "cs_compat_state s = None"
    using assms(2) n(2) by (auto simp: shell_inv_def is_setup_def)
  then have e: "cs_compat s' = Some profile" "cs_policy s' = cs_policy s" "cs_backend s' = Some PclsyncCompat"
    "cs_compat_state s' = None" using s1(2) s1' by (auto simp: reload_def)
  have u: "unlock_profile (compat env) (nfc env pw') profile = Ok (new_compat_state k)"
    using unlock_generated_profile [OF _ assms(4) p] assms(1,5) by (simp add: env_laws_def)
  have "start env clk pw' s' = (Ok (), unlock_succeeded (s'\<lparr>cs_compat_state := Some (new_compat_state k)\<rparr>))"
    using e n assms(6,7) u
    by (simp add: start_def start_inner_def start_pclsync_compat_def effective_backend_def is_setup_def Let_def)
  then show ?thesis by (simp add: unlock_succeeded_started)
qed

text \<open>A shell that was set up, with either back-end, is opened by every spelling of
  its password that normalizes to the same text, also after a restart of the
  process, unless it is locked out.\<close>

theorem setup_then_start:
  assumes "env_laws env" "shell_inv env s" "just_set_up env salt k pw b s s'" "length salt = 64"
    and "nfc env pw' = nfc env pw" "pw' \<noteq> []" and "\<not> locked_out clk s'"
  shows "\<exists>s''. start env clk pw' s' = (Ok (), s'') \<and> is_started s''"
proof (cases b)
  case Enhanced
  from start_after_setup_enhanced [OF assms(2) assms(3) [unfolded Enhanced] assms(5-7)] show ?thesis .
next
  case PclsyncCompat
  from start_after_setup_compat [OF assms(1,2) assms(3) [unfolded PclsyncCompat] assms(4-7)] show ?thesis .
qed

theorem setup_then_start_witness:
  "\<exists>s' s''. just_set_up toy_env (replicate 64 1) [5] ''seCret'' PclsyncCompat toy_shell s'
    \<and> start toy_env toy_clock ''sECret'' s' = (Ok (), s'') \<and> is_started s''"
proof -
  obtain s1 where s1: "setup_with_backend toy_env (Some (replicate 64 1)) (Some [5]) ''seCret'' None PclsyncCompat toy_shell = (Ok (), s1)"
    and l: "\<not> locked_out toy_clock (reload s1)"
    by (simp add: setup_with_backend_def setup_pclsync_compat_def toy_shell_def crypto_shell_default_def
        crypto_policy_default_def is_safe_def is_setup_def key_manager_default_def generate_profile_def toy_env_def
        toy_compat_ops_def Let_def locked_out_def reload_def lockout_backoff_secs_def MAX_CONSECUTIVE_FAILURES_def)
  then have j: "just_set_up toy_env (replicate 64 1) [5] ''seCret'' PclsyncCompat toy_shell (reload s1)"
    by (auto simp: just_set_up_def)
  have "shell_inv toy_env toy_shell" by (simp add: toy_shell_def shell_inv_default)
  from setup_then_start [OF toy_env_laws this j _ _ _ l, of "''sECret''"] j show ?thesis
    by (auto simp: toy_env_def)
qed

section \<open>Sectors\<close>

lemma be_bytes [simp]: "length (to_be_bytes w) = 4" "from_be_bytes (to_be_bytes w) = w"
  by (simp_all add: to_be_bytes_def from_be_bytes_def from_to_le_bytes)

lemma content_roundtrip:
  assumes "env_laws env" and "length nonce = 12" and "content_seal_sector env (Some nonce) fk i p size' = Ok frame"
  shows "content_open_sector env fk j frame = (if j = i then Ok p else Err SectorIndexMismatch)"
proof -
  obtain ct where ct: "gcm_enc env fk nonce (to_be_bytes i) p = Some ct" "frame = to_be_bytes i @ nonce @ ct" "length fk = 32"
    using assms(3) by (auto simp: content_seal_sector_def split: if_splits option.splits)
  with assms(1) have "length ct = length p + 16" "gcm_dec env fk nonce (to_be_bytes i) ct = Some p"
    by (auto simp: env_laws_def)
  with ct assms(2) show ?thesis by (auto simp: content_open_sector_def Let_def NONCE_LEN_def TAG_LEN_def)
qed

text \<open>The time to live of the key has not run out at \<open>now'\<close>, counted from \<open>now\<close>.\<close>

definition within_ttl :: "millis \<Rightarrow> millis \<Rightarrow> 'priv crypto_shell \<Rightarrow> bool" where
  "within_ttl now now' s \<longleftrightarrow> cache_ttl_secs (cs_keys s) = 0 \<or> (now' - now) div 1000 < cache_ttl_secs (cs_keys s)"

lemma require_again:
  assumes "require_active_key now s = (Ok k, s1)" and "within_ttl now now' s"
  shows "\<exists>s2. require_active_key now' s1 = (Ok k, s2) \<and> cs_mode s2 = cs_mode s \<and> cs_kms s2 = cs_kms s"
    and "cs_mode s1 = cs_mode s" "cs_kms s1 = cs_kms s"
    and "effective_backend s1 = effective_backend s" "within_ttl now now' s1"
  using assms
  by (auto simp: require_active_key_def check_and_evict_if_stale_def touch_def Let_def within_ttl_def
      effective_backend_def split: if_splits option.splits)

lemma derive_again:
  assumes "derive_sector_file_key env now seed s c = (Ok fk, s1, c1)" and "within_ttl now now' s"
    and "cache_sound (cs_kms s) c"
  shows "\<exists>s2 c2. derive_sector_file_key env now' seed s1 c1 = (Ok fk, s2, c2)"
    and "effective_backend s1 = effective_backend s"
proof -
  obtain k where k: "require_active_key now s = (Ok k, s1)"
    using assms(1) by (auto simp: derive_sector_file_key_def split: sum.splits prod.splits crypto_mode.splits)
  note again = require_again [OF k assms(2)]
  then show "effective_backend s1 = effective_backend s" by simp
  obtain s2 where s2: "require_active_key now' s1 = (Ok k, s2)" "cs_mode s2 = cs_mode s" "cs_kms s2 = cs_kms s"
    using again(1) by blast
  show "\<exists>s2 c2. derive_sector_file_key env now' seed s1 c1 = (Ok fk, s2, c2)"
  proof (cases "cs_mode s")
    case Raw
    with assms(1) k s2 again show ?thesis by (simp add: derive_sector_file_key_def)
  next
    case (KmsMode kid w ctx)
    obtain r c1' where u: "unwrap_cached (cs_kms s) c kid w ctx DEFAULT_CACHE_TTL now = (r, c1')" by force
    have r: "r = decrypt_dek (cs_kms s) kid w ctx" "cache_sound (cs_kms s) c1'"
      using unwrap_cached_sound [OF assms(3) u] by auto
    have "c1' = c1" "r = Ok (case r of Inr x \<Rightarrow> x)" "fk = derive_file_key env (case r of Inr x \<Rightarrow> x) seed"
      "length (case r of Inr x \<Rightarrow> x) = KMS_DEK_LEN"
      using assms(1) k KmsMode again u
      by (auto simp: derive_sector_file_key_def unwrap_active_dek_def split: sum.splits if_splits)
    moreover obtain r2 c2 where u2: "unwrap_cached (cs_kms s) c1 kid w ctx DEFAULT_CACHE_TTL now' = (r2, c2)" by force
    ultimately have "r2 = r" using unwrap_cached_sound [OF _ u2] r by simp
    with s2 KmsMode u2 \<open>r = Ok _\<close> \<open>fk = _\<close> \<open>length _ = _\<close> show ?thesis
      by (auto simp: derive_sector_file_key_def unwrap_active_dek_def split: sum.splits)
  qed
qed

lemma within_ttl_sealed [simp]: "within_ttl now now' (s\<lparr>cs_sectors_sealed := n\<rparr>) = within_ttl now now' s"
  by (simp add: within_ttl_def)

text \<open>A sector sealed by an unlocked shell opens again as long as the key has not
  timed out, in the raw mode and with a data key unwrapped by the key service; asked
  for under another index it is refused.\<close>

theorem shell_sector_roundtrip:
  assumes "env_laws env" "cache_sound (cs_kms s) c" "length nonce = 12"
    and "shell_seal_sector env now (Some nonce) seed i p s c = (Ok frame, s1, c1)" and "within_ttl now now' s"
  shows "\<exists>s2 c2. shell_open_sector env now' seed j frame s1 c1 =
    (if j = i then Ok p else Err (Content SectorIndexMismatch), s2, c2)"
proof -
  let ?s0 = "s\<lparr>cs_sectors_sealed := cs_sectors_sealed s + 1\<rparr>"
  obtain fk where d: "derive_sector_file_key env now seed ?s0 c = (Ok fk, s1, c1)"
    and f: "content_seal_sector env (Some nonce) fk i p (cs_sector_size s1) = Ok frame"
    and e: "effective_backend s \<noteq> PclsyncCompat"
    using assms(4) by (auto simp: shell_seal_sector_def Let_def split: if_splits sum.splits prod.splits)
  have "cache_sound (cs_kms ?s0) c" using assms(2) by simp
  then obtain s2 c2 where "derive_sector_file_key env now' seed s1 c1 = (Ok fk, s2, c2)"
      "effective_backend s1 = effective_backend s"
    using derive_again [OF d, of now'] assms(5) by auto
  with content_roundtrip [OF assms(1,3) f] e show ?thesis by (auto simp: shell_open_sector_def)
qed

theorem shell_sector_roundtrip_witness:
  "\<exists>s frame s1 c1 s2 c2. shell_seal_sector toy_env 10 (Some (replicate 12 9)) [1] 4 [1, 2, 3] s Map.empty = (Ok frame, s1, c1)
    \<and> shell_open_sector toy_env 11 [1] 4 frame s1 c1 = (Ok [1, 2, 3], s2, c2)"
proof -
  let ?s = "toy_shell\<lparr>cs_keys := (cs_keys toy_shell)\<lparr>active_key_material := Some (replicate 32 1)\<rparr>, cs_backend := Some Enhanced\<rparr>"
  obtain frame s1 c1 where f: "shell_seal_sector toy_env 10 (Some (replicate 12 9)) [1] 4 [1, 2, 3] ?s Map.empty = (Ok frame, s1, c1)"
    by (simp add: shell_seal_sector_def effective_backend_def toy_shell_def crypto_shell_default_def budget_cap_def
        NONCE_BUDGET_SAFETY_MARGIN_def derive_sector_file_key_def require_active_key_def check_and_evict_if_stale_def
        key_manager_default_def touch_def Let_def content_seal_sector_def derive_file_key_def toy_env_def toy_compat_ops_def
        min_def)
  have "within_ttl 10 11 ?s" by (simp add: within_ttl_def toy_shell_def crypto_shell_default_def key_manager_default_def)
  from shell_sector_roundtrip [OF toy_env_laws _ _ f this, of 4] f show ?thesis by fastforce
qed

section \<open>After a change of the password\<close>

lemma start_after_change:
  assumes "shell_inv env s" "effective_backend s = Enhanced" "change_password env salt old new fl s c = (Ok x, s1, c1)"
    and "pw \<noteq> []" "\<not> locked_out clk (fst (stop s1 c1))"
  shows "fst (start env clk pw (fst (stop s1 c1))) =
    (if fingerprint_for env (derive_key_material_with_salt env (nfc env pw) salt) =
        fingerprint_for env (derive_key_material_with_salt env new salt)
     then Ok () else Err WrongPassword)"
proof -
  from assms(3) have "change_password_unlocked env salt new fl (opened_for_change env old s) c = (Ok x, s1, c1)"
    by (cases rule: change_password_cases) (use assms(2) in auto)
  then obtain m where s1: "s1 = (opened_for_change env old s)\<lparr>cs_keys := (cs_keys (opened_for_change env old s))\<lparr>derivation_salt := salt,
        setup_fingerprint := Some (fingerprint_for env (derive_key_material_with_salt env new salt)),
        private_flags := fl, active_key_material := Some (derive_key_material_with_salt env new salt)\<rparr>,
        cs_mode := m, cs_sectors_sealed := 0\<rparr>"
    by (cases rule: change_unlocked_cases) auto
  let ?s2 = "fst (stop s1 c1)"
  have p: "is_safe (cs_policy s)" using assms(3) by (auto simp: change_password_def split: if_splits)
  have b: "cs_backend s = None \<or> cs_backend s = Some Enhanced"
    using assms(2) by (auto simp: effective_backend_def split: option.splits)
  have "is_safe (cs_policy ?s2)" "is_setup ?s2" "\<not> is_started ?s2" "effective_backend ?s2 = Enhanced"
    "derivation_salt (cs_keys ?s2) = salt"
    "setup_fingerprint (cs_keys ?s2) = Some (fingerprint_for env (derive_key_material_with_salt env new salt))"
    using p b by (auto simp: s1 stop_def Let_def is_setup_def is_started_def effective_backend_def opened_for_change_def)
  with start_enhanced_result [of ?s2 pw clk env] assms(4,5) show ?thesis
    by (simp add: matches_setup_def derive_key_material_def)
qed

text \<open>After a change of the password under the enhanced back-end, a new password in
  normal form opens the shell; a new password in another form does not open it
  again, because the change derives the key from the text as given and the unlock
  from its normal form.\<close>

theorem password_after_change:
  assumes "shell_inv env s" "effective_backend s = Enhanced" "change_password env salt old new fl s c = (Ok x, s1, c1)"
    and "\<not> locked_out clk (fst (stop s1 c1))"
  shows "(nfc env new = new \<longrightarrow> fst (start env clk new (fst (stop s1 c1))) = Ok ())
    \<and> (fingerprint_for env (derive_key_material_with_salt env (nfc env new) salt) \<noteq>
         fingerprint_for env (derive_key_material_with_salt env new salt) \<longrightarrow>
       fst (start env clk new (fst (stop s1 c1))) = Err WrongPassword)"
proof -
  have "new \<noteq> []" using assms(3) by (auto simp: change_password_def split: if_splits)
  from start_after_change [OF assms(1-3) this assms(4)] show ?thesis by simp
qed

text \<open>A shell of the concrete environment, set up with the password \<open>old\<close>.\<close>

definition toy_enhanced :: "byte list crypto_shell" where
  "toy_enhanced = snd (setup_shell toy_env ''old'' None toy_shell)"

lemmas toy_simps = setup_shell_def setup_with_backend_def setup_enhanced_def toy_shell_def crypto_shell_default_def
  key_manager_default_def crypto_policy_default_def is_safe_def is_setup_def Let_def effective_backend_def
  is_started_def matches_setup_def fingerprint_for_def derive_key_material_def derive_key_material_with_salt_def
  toy_env_def toy_compat_ops_def as_bytes_def byte_of_char_def

lemma toy_enhanced_inv: "shell_inv toy_env toy_enhanced"
proof -
  obtain r where "setup_with_backend toy_env None None ''old'' None Enhanced toy_shell = (r, toy_enhanced)"
    by (metis toy_enhanced_def setup_shell_def prod.collapse)
  from inv_setup [OF _ this] show ?thesis by (simp add: toy_shell_def shell_inv_default)
qed

lemma toy_change:
  obtains x s1 c1 where "change_password toy_env (replicate 16 4) ''old'' ''nEw'' 0 toy_enhanced Map.empty = (Ok x, s1, c1)"
    "\<not> locked_out toy_clock (fst (stop s1 c1))"
  by (simp add: toy_enhanced_def toy_simps change_password_def change_password_unlocked_def stage_mode_def
      locked_out_def stop_def lockout_backoff_secs_def MAX_CONSECUTIVE_FAILURES_def)

theorem password_after_change_witness:
  "\<exists>x s1 c1. change_password toy_env (replicate 16 4) ''old'' ''nEw'' 0 toy_enhanced Map.empty = (Ok x, s1, c1)
    \<and> fst (start toy_env toy_clock ''nEw'' (fst (stop s1 c1))) = Err WrongPassword"
proof -
  obtain x s1 c1 where c: "change_password toy_env (replicate 16 4) ''old'' ''nEw'' 0 toy_enhanced Map.empty = (Ok x, s1, c1)"
    "\<not> locked_out toy_clock (fst (stop s1 c1))" using toy_change .
  have e: "effective_backend toy_enhanced = Enhanced" by (simp add: toy_enhanced_def toy_simps)
  have "fingerprint_for toy_env (derive_key_material_with_salt toy_env (nfc toy_env ''nEw'') (replicate 16 4)) \<noteq>
      fingerprint_for toy_env (derive_key_material_with_salt toy_env ''nEw'' (replicate 16 4))"
    by (simp add: toy_simps)
  with password_after_change [OF toy_enhanced_inv e c] c(1) show ?thesis by blast
qed

section \<open>Divergences\<close>

text \<open>Locking does not forget when the key was last used: a shell that was used,
  locked and unlocked again after the time to live has passed refuses its first
  sector as timed out and locks itself, although it was unlocked a moment before.\<close>

lemma unlock_after_ttl_expires_at_once:
  assumes "effective_backend s = Enhanced" "last_authenticated_at (cs_keys s) = Some t" "cache_ttl_secs (cs_keys s) \<noteq> 0"
    and "start env clk pw (fst (stop s c)) = (Ok (), s1)"
    and "(now - t) div 1000 \<ge> cache_ttl_secs (cs_keys s)" and "cs_sectors_sealed s < budget_cap"
  shows "is_started s1 \<and> fst (shell_seal_sector env now n seed i p s1 c) = Err MasterKeyExpired
    \<and> \<not> is_started (fst (snd (shell_seal_sector env now n seed i p s1 c)))"
proof -
  let ?s0 = "fst (stop s c)"
  have s0: "last_authenticated_at (cs_keys ?s0) = Some t" "cache_ttl_secs (cs_keys ?s0) = cache_ttl_secs (cs_keys s)"
      "effective_backend ?s0 = Enhanced" "cs_sectors_sealed ?s0 = cs_sectors_sealed s" "cs_compat_state ?s0 = None"
    using assms(1,2) by (auto simp: stop_def Let_def effective_backend_def split: option.splits if_splits)
  have "start_inner env clk pw None ?s0 = (Ok (), s1)" using assms(4) by (simp add: start_def)
  then obtain k where s1: "s1 = (unlock_succeeded (?s0\<lparr>cs_keys := (cs_keys ?s0)\<lparr>active_key_material := Some k\<rparr>\<rparr>))
      \<or> s1 = (unlock_succeeded (?s0\<lparr>cs_keys := (cs_keys ?s0)\<lparr>active_key_material := Some k\<rparr>\<rparr>))\<lparr>cs_backend := Some Enhanced\<rparr>"
    by (cases rule: start_inner_cases) (use s0(3) in \<open>auto elim: start_enhanced_cases\<close>)
  have "is_started s1" "last_authenticated_at (cs_keys s1) = Some t" "cache_ttl_secs (cs_keys s1) = cache_ttl_secs (cs_keys s)"
      "effective_backend s1 = Enhanced" "cs_sectors_sealed s1 = cs_sectors_sealed s"
    using s1 s0 by (auto simp: unlock_succeeded_def is_started_def effective_backend_def split: option.splits if_splits)
  with assms(3,5,6) show ?thesis
    by (simp add: shell_seal_sector_def derive_sector_file_key_def require_active_key_def
        check_and_evict_if_stale_def Let_def is_started_def)
qed

text \<open>A folder that was registered under an explicit id is overwritten by one with an
  allocated id: the allocation does not look at the registry.\<close>

lemma allocated_id_overwrites:
  assumes "cs_folders s (cs_next_local_folder_id s) = Some e"
  shows "\<exists>e' s'. register_folder par nm None s = (Ok e', s') \<and> fe_encrypted_name e' = nm
    \<and> cs_folders s' (cs_next_local_folder_id s) = Some e'"
  by (simp add: register_folder_def Let_def)

text \<open>The lockout does not guard the change of the password: a shell that refuses every
  unlock still tells whether a password is right, and is unlocked by it.\<close>

lemma change_password_ignores_lockout:
  "\<exists>s. locked_out toy_clock s \<and> fst (start toy_env toy_clock ''old'' s) = Err BruteForceLockedOut
    \<and> (\<exists>x s1 c1. change_password toy_env (replicate 16 4) ''old'' ''new'' 0 s Map.empty = (Ok x, s1, c1) \<and> is_started s1)
    \<and> fst (change_password toy_env (replicate 16 4) ''bad'' ''new'' 0 s Map.empty) = Err WrongPassword"
  by (rule exI [of _ "toy_enhanced\<lparr>cs_consecutive_failures := 10\<rparr>"])
    (simp add: toy_enhanced_def toy_simps change_password_def change_password_unlocked_def stage_mode_def
      locked_out_def MAX_CONSECUTIVE_FAILURES_def start_def start_inner_def start_enhanced_def)

text \<open>Sealing on a locked shell uses up the nonce budget.\<close>

lemma locked_seal_burns_budget:
  assumes "effective_backend s = Enhanced" "active_key_material (cs_keys s) = None" "last_authenticated_at (cs_keys s) = None"
    and "cs_sectors_sealed s < budget_cap"
  shows "fst (shell_seal_sector env now n seed i p s c) = Err Locked
    \<and> cs_sectors_sealed (fst (snd (shell_seal_sector env now n seed i p s c))) = cs_sectors_sealed s + 1"
  using assms
  by (auto simp: shell_seal_sector_def derive_sector_file_key_def require_active_key_def
      check_and_evict_if_stale_def touch_def Let_def)

end
