(* ===== verification/Fs_Paths.thy ===== *)
theory Fs_Paths
  imports Rust_Str
begin

text \<open>
  Paths and errors of the mounted drive: \<open>pcloud-fs/src/path_norm.rs\<close>, which brings the
  names the kernel hands in into canonical form, and \<open>errors.rs\<close>, which maps failures to
  the error numbers the kernel gets back.
\<close>

section \<open>Errors\<close>

datatype fs_error =
    FsNotFound | FsPermissionDenied | FsNotDirectory | FsInvalid | FsIo | FsInodeSpaceExhausted | FsTransport string

definition ENOENT :: int where "ENOENT = 2"
definition EIO :: int where "EIO = 5"
definition EACCES :: int where "EACCES = 13"
definition ENOTDIR :: int where "ENOTDIR = 20"
definition EINVAL :: int where "EINVAL = 22"
definition EROFS :: int where "EROFS = 30"

definition from_pcloud_result :: "u64 \<Rightarrow> fs_error" where
  "from_pcloud_result code =
     (if code \<in> {2002, 2005, 2009, 2010} then FsNotFound
      else if code \<in> {1004, 1027, 2003, 2004, 2014} then FsPermissionDenied
      else FsIo)"

fun fs_to_errno :: "fs_error \<Rightarrow> int" where
  "fs_to_errno FsNotFound = ENOENT"
| "fs_to_errno FsPermissionDenied = EACCES"
| "fs_to_errno FsNotDirectory = ENOTDIR"
| "fs_to_errno FsInvalid = EINVAL"
| "fs_to_errno FsIo = EIO"
| "fs_to_errno (FsTransport m) = EIO"
| "fs_to_errno FsInodeSpaceExhausted = EIO"

section \<open>Canonical paths\<close>

datatype path_error = EmbeddedNul | InvalidComponent string | EmptyName | EscapesRoot

definition validate_no_nul :: "string \<Rightarrow> (path_error, unit) result" where
  "validate_no_nul s = (if CHR 0x00 \<in> set s then Err EmbeddedNul else Ok ())"

fun canon_loop :: "string list \<Rightarrow> string list \<Rightarrow> string list option" where
  "canon_loop stack [] = Some stack"
| "canon_loop stack (segment # segments) =
     (if segment = '''' \<or> segment = ''.'' then canon_loop stack segments
      else if segment = ''..'' then
        (if stack = [] then None else canon_loop (butlast stack) segments)
      else canon_loop (stack @ [segment]) segments)"

definition render :: "string list \<Rightarrow> string" where
  "render stack = (if stack = [] then ''/'' else concat (map (\<lambda>s. CHR ''/'' # s) stack))"

definition canonicalise :: "string \<Rightarrow> (path_error, string) result" where
  "canonicalise path =
     (case validate_no_nul path of
        Inl e \<Rightarrow> Err e
      | Inr _ \<Rightarrow>
          (case canon_loop [] (split_on (CHR ''/'') path) of
             None \<Rightarrow> Err EscapesRoot
           | Some stack \<Rightarrow> Ok (render stack)))"

definition parent_of :: "string \<Rightarrow> (path_error, string) result" where
  "parent_of path =
     (case canonicalise path of
        Inl e \<Rightarrow> Err e
      | Inr canon \<Rightarrow>
          if canon = ''/'' then Err EscapesRoot
          else (case rfind (CHR ''/'') canon of
            None \<Rightarrow> Err EscapesRoot
          | Some idx \<Rightarrow> if idx = 0 then Ok ''/'' else Ok (take idx canon)))"

definition join_child :: "string \<Rightarrow> string \<Rightarrow> (path_error, string) result" where
  "join_child parent name =
     (case validate_no_nul parent of
        Inl e \<Rightarrow> Err e
      | Inr _ \<Rightarrow>
          (case validate_no_nul name of
             Inl e \<Rightarrow> Err e
           | Inr _ \<Rightarrow>
               if name = [] then Err EmptyName
               else if name = ''.'' then canonicalise parent
               else if name = ''..'' then parent_of parent
               else if CHR ''/'' \<in> set name then Err (InvalidComponent name)
               else (case canonicalise parent of
                 Inl e \<Rightarrow> Err e
               | Inr base \<Rightarrow> Ok (if base = ''/'' then CHR ''/'' # name else base @ CHR ''/'' # name))))"

section \<open>Properties\<close>

text \<open>The names a canonical path is made of.\<close>

definition plain_name :: "string \<Rightarrow> bool" where
  "plain_name s \<longleftrightarrow> s \<noteq> [] \<and> s \<noteq> ''.'' \<and> s \<noteq> ''..'' \<and> CHR ''/'' \<notin> set s \<and> CHR 0x00 \<notin> set s"

definition canonical :: "string \<Rightarrow> bool" where
  "canonical p \<longleftrightarrow> (\<exists>segs. list_all plain_name segs \<and> p = render segs)"

lemma canon_loop_plain: "list_all plain_name segs \<Longrightarrow> canon_loop stack segs = Some (stack @ segs)"
  by (induction segs arbitrary: stack) (auto simp: plain_name_def)

lemma canon_loop_stays_plain:
  assumes "canon_loop stack segs = Some q" and "list_all plain_name stack"
    and "\<forall>s \<in> set segs. CHR ''/'' \<notin> set s \<and> CHR 0x00 \<notin> set s"
  shows "list_all plain_name q"
  using assms
proof (induction segs arbitrary: stack)
  case (Cons s segs)
  have s: "CHR ''/'' \<notin> set s" "CHR 0x00 \<notin> set s" using Cons.prems(3) by simp_all
  have "list_all plain_name (butlast stack)"
    using Cons.prems(2) by (auto simp: list_all_iff dest: in_set_butlastD)
  moreover have "s \<noteq> [] \<Longrightarrow> s \<noteq> ''.'' \<Longrightarrow> s \<noteq> ''..'' \<Longrightarrow> list_all plain_name (stack @ [s])"
    using Cons.prems(2) s by (simp add: list_all_append) (simp add: plain_name_def)
  ultimately show ?case using Cons.IH Cons.prems by (simp split: if_splits)
qed simp

lemma split_render:
  assumes "list_all plain_name segs"
  shows "split_on (CHR ''/'') (render segs) = (if segs = [] then [[], []] else [] # segs)"
proof -
  have "split_on (CHR ''/'') (concat (map (\<lambda>s. CHR ''/'' # s) segs)) = [] # segs" using assms
  proof (induction segs rule: rev_induct)
    case (snoc s segs)
    then have "CHR ''/'' \<notin> set s" by (simp add: plain_name_def)
    then show ?case using snoc by (simp add: split_on_append split_on_plain)
  qed simp
  then show ?thesis by (simp add: render_def)
qed

lemma nul_render: "list_all plain_name segs \<Longrightarrow> CHR 0x00 \<notin> set (render segs)"
  by (auto simp: render_def plain_name_def list_all_iff)

lemma canonicalise_render: "list_all plain_name segs \<Longrightarrow> canonicalise (render segs) = Ok (render segs)"
  by (auto simp: canonicalise_def validate_no_nul_def nul_render split_render canon_loop_plain)

lemma canonicalise_cases:
  assumes "canonicalise p = Ok q"
  obtains segs where "list_all plain_name segs" "q = render segs" "CHR 0x00 \<notin> set p"
proof -
  from assms obtain stack where nul: "CHR 0x00 \<notin> set p"
      and st: "canon_loop [] (split_on (CHR ''/'') p) = Some stack" and q: "q = render stack"
    by (auto simp: canonicalise_def validate_no_nul_def split: sum.splits if_splits option.splits)
  have "set w \<subseteq> set p" if "w \<in> set (split_on (CHR ''/'') p)" for w
    using that by (induction p arbitrary: w) (auto split: list.splits if_splits, fastforce+)
  then have "list_all plain_name stack"
    using nul by (intro canon_loop_stays_plain [OF st]) (auto dest: split_on_no_sep)
  from this q nul show thesis by (rule that)
qed

lemma render_snoc:
  assumes "list_all plain_name (segs @ [n])"
  shows "render (segs @ [n]) = (if render segs = ''/'' then CHR ''/'' # n else render segs @ CHR ''/'' # n)"
proof (cases segs)
  case (Cons s ss)
  with assms have "length (render segs) > 1" by (simp add: render_def plain_name_def)
  then show ?thesis using Cons by (auto simp: render_def)
qed (simp add: render_def)

lemma parent_of_render:
  assumes "list_all plain_name (segs @ [n])"
  shows "parent_of (render (segs @ [n])) = Ok (render segs)"
proof -
  have n: "CHR ''/'' \<notin> set n" "n \<noteq> []" using assms by (simp_all add: plain_name_def)
  define u where "u = concat (map (\<lambda>s. CHR ''/'' # s) segs)"
  have r: "render (segs @ [n]) = u @ CHR ''/'' # n" by (simp add: u_def render_def)
  have "rfind (CHR ''/'') (u @ CHR ''/'' # n) = Some (length u)" using n(1) by (rule rfind_append_last)
  moreover have "canonicalise (u @ CHR ''/'' # n) = Ok (u @ CHR ''/'' # n)"
    using canonicalise_render [OF assms] r by simp
  ultimately show ?thesis using n(2) unfolding r by (cases segs) (auto simp: parent_of_def u_def render_def)
qed

text \<open>Joining a name to a directory path gives a canonical path one level below the
  directory, going up from it leads back to the directory, and canonical paths are
  fixed points of the canonicaliser: the kernel cannot name an object above the root or
  one object by two paths.\<close>

theorem join_child_canonical:
  assumes "join_child parent name = Ok q" and "name \<noteq> ''.''" and "name \<noteq> ''..''"
  shows "canonical q \<and> canonicalise q = Ok q \<and> join_child q ''..'' = canonicalise parent
    \<and> (\<exists>segs. canonicalise parent = Ok (render segs) \<and> list_all plain_name segs \<and> q = render (segs @ [name]))"
proof -
  from assms obtain base where b: "canonicalise parent = Ok base" and name: "plain_name name"
      and q: "q = (if base = ''/'' then CHR ''/'' # name else base @ CHR ''/'' # name)"
    by (auto simp: join_child_def validate_no_nul_def plain_name_def split: sum.splits if_splits)
  from b obtain segs where segs: "list_all plain_name segs" "base = render segs" by (rule canonicalise_cases)
  with name have all: "list_all plain_name (segs @ [name])" by simp
  from render_snoc [OF all] q segs(2) have r: "q = render (segs @ [name])" by simp
  have "join_child q ''..'' = Ok base"
    using parent_of_render [OF all] nul_render [OF all] segs(2) by (simp add: join_child_def validate_no_nul_def r)
  moreover have "canonical q" unfolding canonical_def r using all by blast
  ultimately show ?thesis using b canonicalise_render [OF all] segs r by auto
qed

theorem join_child_canonical_witness:
  "join_child ''/a//b/./..'' ''c'' = Ok ''/a/c'' \<and> join_child ''/a/c'' ''..'' = Ok ''/a''"
proof -
  have 1: "join_child ''/a//b/./..'' ''c'' = Ok ''/a/c''" "canonicalise ''/a//b/./..'' = Ok ''/a''"
    by (simp_all add: join_child_def canonicalise_def validate_no_nul_def render_def)
  from join_child_canonical [OF 1(1)] 1 show ?thesis by simp
qed

text \<open>How far a prefix of the segments climbs, and that climbing above the root is the
  only reason for a refusal besides a zero byte.\<close>

fun depth :: "string list \<Rightarrow> int" where
  "depth [] = 0"
| "depth (s # ss) = (if s = '''' \<or> s = ''.'' then 0 else if s = ''..'' then - 1 else 1) + depth ss"

lemma canon_loop_None:
  "canon_loop stack segs = None \<longleftrightarrow> (\<exists>n \<le> length segs. int (length stack) + depth (take n segs) < 0)"
proof (induction stack segs rule: canon_loop.induct)
  case (2 stack s ss)
  have split: "(\<exists>n \<le> length (s # ss). P n) \<longleftrightarrow> P 0 \<or> (\<exists>n \<le> length ss. P (Suc n))" for P
    by (auto simp: less_Suc_eq_le [symmetric] dest: less_Suc_eq_0_disj [THEN iffD1])
  have "stack \<noteq> [] \<Longrightarrow> int (length (butlast stack)) = int (length stack) - 1" by (cases stack) simp_all
  with 2 show ?case unfolding split by (auto simp: algebra_simps split: if_splits)
qed simp

lemma canonicalise_refuses:
  "(\<exists>e. canonicalise p = Err e) \<longleftrightarrow>
     CHR 0x00 \<in> set p \<or> (\<exists>n. depth (take n (split_on (CHR ''/'') p)) < 0)"
proof -
  have "(\<exists>n. depth (take n ss) < 0) \<longleftrightarrow> (\<exists>n \<le> length ss. depth (take n ss) < 0)" for ss
    by (metis linear take_all_iff order_refl)
  then show ?thesis
    using canon_loop_None [of "[]" "split_on (CHR ''/'') p"]
    by (auto simp: canonicalise_def validate_no_nul_def split: option.splits)
qed

end
