(* ===== verification/Inode_Table.thy ===== *)
theory Inode_Table
  imports Fs_Paths
begin

text \<open>
  The inode table of the mounted drive, \<open>pcloud-fs/src/inode.rs\<close>: which path an inode
  number of the kernel stands for.  Each method holds the lock of the table, so it is
  one step; \<open>insert_with_lookup\<close> takes the lock twice and is two.
\<close>

section \<open>Table and operations\<close>

datatype fs_entry_kind = KDirectory | KRegularFile | KSymlink

record inode_entry =
  ie_path :: string
  ie_kind :: fs_entry_kind
  ie_generation :: u64

record inode_table =
  by_ino :: "u64 \<rightharpoonup> inode_entry"
  by_path :: "string \<rightharpoonup> u64"
  next_ino :: u64
  lookup_counts :: "u64 \<rightharpoonup> u64"

definition ROOT_INODE :: u64 where "ROOT_INODE = 1"

definition inode_table_new :: inode_table where
  "inode_table_new =
     \<lparr>by_ino = [ROOT_INODE \<mapsto> \<lparr>ie_path = ''/'', ie_kind = KDirectory, ie_generation = 1\<rparr>],
      by_path = [''/'' \<mapsto> ROOT_INODE], next_ino = ROOT_INODE + 1, lookup_counts = Map.empty\<rparr>"

definition resolve_ino :: "inode_table \<Rightarrow> u64 \<Rightarrow> (string \<times> u64 \<times> fs_entry_kind) option" where
  "resolve_ino t ino = map_option (\<lambda>e. (ie_path e, ie_generation e, ie_kind e)) (by_ino t ino)"

definition ino_for_path :: "inode_table \<Rightarrow> string \<Rightarrow> u64 option" where
  "ino_for_path t path = by_path t path"

definition alloc_ino :: "string \<Rightarrow> fs_entry_kind \<Rightarrow> inode_table \<Rightarrow> (fs_error, u64 \<times> u64) result \<times> inode_table" where
  "alloc_ino path kind t =
     (let ino = next_ino t in
      if ino = - 1 then (Err FsInodeSpaceExhausted, t)
      else (Ok (ino, 1),
        t\<lparr>next_ino := ino + 1,
          by_ino := (by_ino t)(ino \<mapsto> \<lparr>ie_path = path, ie_kind = kind, ie_generation = 1\<rparr>),
          by_path := (by_path t)(path \<mapsto> ino)\<rparr>))"

definition insert_or_get :: "string \<Rightarrow> fs_entry_kind \<Rightarrow> inode_table \<Rightarrow> (fs_error, u64 \<times> u64) result \<times> inode_table" where
  "insert_or_get path kind t =
     (case by_path t path of
        None \<Rightarrow> alloc_ino path kind t
      | Some ino \<Rightarrow>
          (case by_ino t ino of
             None \<Rightarrow> alloc_ino path kind t
           | Some entry \<Rightarrow>
               (Ok (ino, ie_generation entry), t\<lparr>by_ino := (by_ino t)(ino \<mapsto> entry\<lparr>ie_kind := kind\<rparr>)\<rparr>)))"

definition insert_with_lookup :: "string \<Rightarrow> fs_entry_kind \<Rightarrow> inode_table \<Rightarrow> (fs_error, u64 \<times> u64) result \<times> inode_table" where
  "insert_with_lookup path kind t =
     (case insert_or_get path kind t of
        (Inl e, t') \<Rightarrow> (Err e, t')
      | (Inr (ino, generation), t') \<Rightarrow>
          (Ok (ino, generation),
           if lookup_counts t' ino = None then t'\<lparr>lookup_counts := (lookup_counts t')(ino \<mapsto> 0)\<rparr> else t'))"

definition invalidate_path :: "string \<Rightarrow> inode_table \<Rightarrow> u64 option \<times> inode_table" where
  "invalidate_path path t =
     (if path = ''/'' then (None, t)
      else (case by_path t path of
        None \<Rightarrow> (None, t)
      | Some ino \<Rightarrow> (Some ino, t\<lparr>by_path := (by_path t)(path := None), by_ino := (by_ino t)(ino := None)\<rparr>)))"

definition invalidate_ino :: "u64 \<Rightarrow> inode_table \<Rightarrow> string option \<times> inode_table" where
  "invalidate_ino ino t =
     (if ino = ROOT_INODE then (None, t)
      else (case by_ino t ino of
        None \<Rightarrow> (None, t)
      | Some entry \<Rightarrow>
          (Some (ie_path entry),
           t\<lparr>by_ino := (by_ino t)(ino := None), by_path := (by_path t)(ie_path entry := None)\<rparr>)))"

definition table_len :: "inode_table \<Rightarrow> nat" where
  "table_len t = card (dom (by_ino t))"

definition increment_lookup :: "u64 \<Rightarrow> inode_table \<Rightarrow> inode_table" where
  "increment_lookup ino t =
     t\<lparr>lookup_counts := (lookup_counts t)(ino \<mapsto> (case lookup_counts t ino of None \<Rightarrow> 0 | Some c \<Rightarrow> c) + 1)\<rparr>"

definition evict_ino :: "u64 \<Rightarrow> inode_table \<Rightarrow> inode_table" where
  "evict_ino ino t =
     (case by_ino t ino of
        None \<Rightarrow> t
      | Some entry \<Rightarrow> t\<lparr>by_ino := (by_ino t)(ino := None), by_path := (by_path t)(ie_path entry := None)\<rparr>)"

definition forget :: "u64 \<Rightarrow> u64 \<Rightarrow> inode_table \<Rightarrow> inode_table" where
  "forget ino nlookup t =
     (if ino = ROOT_INODE then t
      else (case lookup_counts t ino of
        Some cnt \<Rightarrow>
          let cnt' = saturating_sub cnt nlookup in
          if cnt' = 0 then evict_ino ino (t\<lparr>lookup_counts := (lookup_counts t)(ino := None)\<rparr>)
          else t\<lparr>lookup_counts := (lookup_counts t)(ino \<mapsto> cnt')\<rparr>
      | None \<Rightarrow> evict_ino ino t))"

definition lookup_count :: "inode_table \<Rightarrow> u64 \<Rightarrow> u64" where
  "lookup_count t ino = (case lookup_counts t ino of None \<Rightarrow> 0 | Some c \<Rightarrow> c)"

definition bump_generation :: "u64 \<Rightarrow> inode_table \<Rightarrow> u64 option \<times> inode_table" where
  "bump_generation ino t =
     (case by_ino t ino of
        None \<Rightarrow> (None, t)
      | Some entry \<Rightarrow>
          let g = (if ie_generation entry = - 1 then 1 else ie_generation entry + 1)
          in (Some g, t\<lparr>by_ino := (by_ino t)(ino \<mapsto> entry\<lparr>ie_generation := g\<rparr>)\<rparr>))"

section \<open>Steps and invariant\<close>

inductive table_step :: "inode_table \<Rightarrow> inode_table \<Rightarrow> bool" where
  st_insert: "table_step t (snd (insert_or_get path kind t))"
| st_insert_lookup: "table_step t (snd (insert_with_lookup path kind t))"
| st_inval_path: "table_step t (snd (invalidate_path path t))"
| st_inval_ino: "table_step t (snd (invalidate_ino ino t))"
| st_incr: "table_step t (increment_lookup ino t)"
| st_forget: "table_step t (forget ino n t)"
| st_bump: "table_step t (snd (bump_generation ino t))"

definition inode_inv :: "inode_table \<Rightarrow> bool" where
  "inode_inv t \<longleftrightarrow>
     (\<forall>p i. by_path t p = Some i \<longleftrightarrow> (\<exists>e. by_ino t i = Some e \<and> ie_path e = p))
     \<and> (\<forall>i. by_ino t i \<noteq> None \<longrightarrow> i < next_ino t)
     \<and> by_path t ''/'' = Some ROOT_INODE \<and> ROOT_INODE < next_ino t"

lemma inode_inv_new: "inode_inv inode_table_new"
  by (auto simp: inode_inv_def inode_table_new_def ROOT_INODE_def)

lemma inode_invD:
  assumes "inode_inv t"
  shows "by_path t p = Some i \<longleftrightarrow> (\<exists>e. by_ino t i = Some e \<and> ie_path e = p)"
    and "by_ino t i = Some e \<Longrightarrow> i < next_ino t"
    and "by_path t ''/'' = Some ROOT_INODE" and "ROOT_INODE < next_ino t"
  using assms by (auto simp: inode_inv_def)

lemma unat_next: "n \<noteq> - 1 \<Longrightarrow> unat (n + 1 :: u64) = Suc (unat n)"
  using unatSuc [of n] by (simp add: add.commute add_eq_0_iff)

lemma next_less: "n \<noteq> - 1 \<Longrightarrow> i \<le> n \<Longrightarrow> i < (n + 1 :: u64)"
  by (simp add: word_less_nat_alt word_le_nat_alt unat_next)

text \<open>Every operation does one of four things to the two maps.\<close>

definition same_maps :: "inode_table \<Rightarrow> inode_table \<Rightarrow> bool" where
  "same_maps t t' \<longleftrightarrow> by_path t' = by_path t \<and> next_ino t' = next_ino t
     \<and> (\<forall>i. map_option ie_path (by_ino t' i) = map_option ie_path (by_ino t i))"

definition added :: "string \<Rightarrow> inode_table \<Rightarrow> inode_table \<Rightarrow> bool" where
  "added p t t' \<longleftrightarrow> next_ino t \<noteq> - 1 \<and> next_ino t' = next_ino t + 1 \<and> by_path t' = (by_path t)(p \<mapsto> next_ino t)
     \<and> (\<exists>e. ie_path e = p \<and> by_ino t' = (by_ino t)(next_ino t \<mapsto> e))
     \<and> (\<forall>i. by_path t p = Some i \<longrightarrow> by_ino t i = None)"

definition removed :: "u64 \<Rightarrow> inode_table \<Rightarrow> inode_table \<Rightarrow> bool" where
  "removed i t t' \<longleftrightarrow> i \<noteq> ROOT_INODE \<and> next_ino t' = next_ino t
     \<and> (\<exists>e. by_ino t i = Some e \<and> by_ino t' = (by_ino t)(i := None) \<and> by_path t' = (by_path t)(ie_path e := None))"

lemma alloc_ino_effect: "(\<And>i. by_path t p = Some i \<Longrightarrow> by_ino t i = None) \<Longrightarrow>
    same_maps t (snd (alloc_ino p kind t)) \<or> added p t (snd (alloc_ino p kind t))"
  by (auto simp: alloc_ino_def same_maps_def added_def Let_def
      intro!: exI [of _ "\<lparr>ie_path = p, ie_kind = kind, ie_generation = 1\<rparr>"])

lemma insert_or_get_effect:
  "same_maps t (snd (insert_or_get p kind t)) \<or> added p t (snd (insert_or_get p kind t))"
proof (cases "\<exists>i e. by_path t p = Some i \<and> by_ino t i = Some e")
  case True
  then show ?thesis by (auto simp: insert_or_get_def same_maps_def)
next
  case False
  then have "insert_or_get p kind t = alloc_ino p kind t"
    by (auto simp: insert_or_get_def split: option.splits)
  with False alloc_ino_effect [of t p kind] show ?thesis by auto
qed

lemma counts_only: "same_maps t (t\<lparr>lookup_counts := c\<rparr>)"
  by (simp add: same_maps_def)

lemma same_maps_trans:
  "same_maps t t' \<Longrightarrow> same_maps t' t'' \<Longrightarrow> same_maps t t''"
  "added p t t' \<Longrightarrow> added p t (t'\<lparr>lookup_counts := c\<rparr>)"
  "removed i (t\<lparr>lookup_counts := c\<rparr>) t' \<Longrightarrow> removed i t t'"
  by (simp_all add: same_maps_def added_def removed_def)

lemma evict_ino_effect: "i \<noteq> ROOT_INODE \<Longrightarrow> same_maps t (evict_ino i t) \<or> removed i t (evict_ino i t)"
  by (auto simp: evict_ino_def same_maps_def removed_def split: option.splits)

lemma forget_cases:
  assumes "ino \<noteq> ROOT_INODE"
  obtains c where "forget ino n t = t\<lparr>lookup_counts := c\<rparr> \<or> forget ino n t = evict_ino ino (t\<lparr>lookup_counts := c\<rparr>)"
proof (cases "lookup_counts t ino")
  case None
  with assms that [of "lookup_counts t"] show ?thesis by (simp add: forget_def)
next
  case (Some cnt)
  show ?thesis
  proof (cases "saturating_sub cnt n = 0")
    case True
    with Some assms that [of "(lookup_counts t)(ino := None)"] show ?thesis by (simp add: forget_def)
  next
    case False
    with Some assms that [of "(lookup_counts t)(ino \<mapsto> saturating_sub cnt n)"] show ?thesis
      by (simp add: forget_def)
  qed
qed

lemma table_step_effect:
  assumes "table_step t t'" and "inode_inv t"
  shows "same_maps t t' \<or> (\<exists>p. added p t t') \<or> (\<exists>i. removed i t t')"
  using assms
proof (induction rule: table_step.induct)
  case (st_insert t path kind)
  then show ?case using insert_or_get_effect by blast
next
  case (st_insert_lookup t path kind)
  let ?u = "snd (insert_or_get path kind t)"
  have "\<exists>c. snd (insert_with_lookup path kind t) = ?u\<lparr>lookup_counts := c\<rparr>"
    by (auto simp: insert_with_lookup_def split: prod.splits sum.splits intro: exI [of _ "lookup_counts ?u"])
  then show ?case
    using insert_or_get_effect [of t path kind] same_maps_trans(1) [OF _ counts_only] same_maps_trans(2) by metis
next
  case (st_inval_path t path)
  show ?case
  proof (cases "path = ''/'' \<or> by_path t path = None")
    case True
    then show ?thesis by (auto simp: invalidate_path_def same_maps_def)
  next
    case False
    then obtain i e where i: "by_path t path = Some i" "by_ino t i = Some e" "ie_path e = path"
      using inode_invD(1) [OF st_inval_path] by blast
    moreover have "i \<noteq> ROOT_INODE"
      using i False inode_invD(1,3) [OF st_inval_path] by (metis option.inject)
    ultimately have "removed i t (snd (invalidate_path path t))"
      using False by (auto simp: invalidate_path_def removed_def)
    then show ?thesis by blast
  qed
next
  case (st_inval_ino t ino)
  show ?case
  proof (cases "ino = ROOT_INODE \<or> by_ino t ino = None")
    case True
    then show ?thesis by (auto simp: invalidate_ino_def same_maps_def)
  next
    case False
    then have "removed ino t (snd (invalidate_ino ino t))" by (auto simp: invalidate_ino_def removed_def)
    then show ?thesis by blast
  qed
next
  case (st_forget t ino n)
  show ?case
  proof (cases "ino = ROOT_INODE")
    case False
    then obtain c where "forget ino n t = t\<lparr>lookup_counts := c\<rparr> \<or> forget ino n t = evict_ino ino (t\<lparr>lookup_counts := c\<rparr>)"
      by (rule forget_cases)
    then show ?thesis
    proof
      assume "forget ino n t = evict_ino ino (t\<lparr>lookup_counts := c\<rparr>)"
      with evict_ino_effect [OF False, of "t\<lparr>lookup_counts := c\<rparr>"] show ?thesis
        by (metis same_maps_trans(1) [OF counts_only] same_maps_trans(3))
    qed (simp add: counts_only)
  qed (simp add: forget_def same_maps_def)
next
  case (st_bump t ino)
  then show ?case by (auto simp: bump_generation_def same_maps_def Let_def split: option.splits)
qed (simp add: increment_lookup_def counts_only)

lemma inv_same_maps:
  assumes "same_maps t t'" and "inode_inv t"
  shows "inode_inv t'"
proof -
  have e: "(\<exists>e. by_ino t' i = Some e \<and> ie_path e = p) \<longleftrightarrow> (\<exists>e. by_ino t i = Some e \<and> ie_path e = p)" for i p
    using assms(1) by (simp add: same_maps_def) (metis map_option_eq_Some)
  have d: "by_ino t' i = None \<longleftrightarrow> by_ino t i = None" for i
    using assms(1) by (simp add: same_maps_def) (metis option.map_disc_iff)
  have "by_path t' = by_path t" "next_ino t' = next_ino t" using assms(1) by (simp_all add: same_maps_def)
  with assms(2) show ?thesis by (simp add: inode_inv_def e d)
qed

lemma inv_added:
  assumes "added p t t'" and "inode_inv t"
  shows "inode_inv t'"
proof -
  from assms(1) obtain e where n: "next_ino t \<noteq> - 1" "next_ino t' = next_ino t + 1"
      "by_path t' = (by_path t)(p \<mapsto> next_ino t)" "by_ino t' = (by_ino t)(next_ino t \<mapsto> e)" "ie_path e = p"
      "\<And>i. by_path t p = Some i \<Longrightarrow> by_ino t i = None"
    by (auto simp: added_def)
  note inv = inode_invD [OF assms(2)]
  have fresh: "by_ino t (next_ino t) = None" using inv(2) by (metis less_irrefl not_None_eq)
  have new: "by_path t p = None" using n(6) inv(1) by (metis not_None_eq)
  have other: "ie_path x \<noteq> p" if "by_ino t j = Some x" for j x
    using that inv(1) [of "ie_path x" j] new by auto
  from new have "p \<noteq> ''/''" using inv(3) by auto
  moreover have "i < next_ino t'" if "by_ino t' i = Some x" for i x
    using that n(1,2,4) inv(2) next_less [of "next_ino t" i] by (auto split: if_splits intro: order_less_imp_le)
  moreover have "by_path t' q = Some i \<longleftrightarrow> (\<exists>x. by_ino t' i = Some x \<and> ie_path x = q)" for q i
    using n(3-5) fresh other inv(1) by auto
  ultimately show ?thesis
    using n(1-3) inv(3,4) next_less [of "next_ino t" ROOT_INODE] by (auto simp: inode_inv_def)
qed

lemma inv_removed:
  assumes "removed i t t'" and "inode_inv t"
  shows "inode_inv t'"
proof -
  note inv = inode_invD [OF assms(2)]
  from assms(1) obtain e where r: "i \<noteq> ROOT_INODE" "next_ino t' = next_ino t" "by_ino t i = Some e"
      "by_ino t' = (by_ino t)(i := None)" "by_path t' = (by_path t)(ie_path e := None)"
    by (auto simp: removed_def)
  have "ie_path e \<noteq> ''/''" using inv(1,3) r(1,3) by (metis option.inject)
  moreover have "by_path t' q = Some k \<longleftrightarrow> (\<exists>x. by_ino t' k = Some x \<and> ie_path x = q)" for q k
    using r(3-5) inv(1) by (auto split: if_splits) (metis option.inject)+
  ultimately show ?thesis using r inv(2-4) by (auto simp: inode_inv_def split: if_splits)
qed

lemma inv_table_step: "table_step t t' \<Longrightarrow> inode_inv t \<Longrightarrow> inode_inv t'"
  using table_step_effect inv_same_maps inv_added inv_removed by blast

lemma bindings_kept:
  assumes "table_step t t'" and "inode_inv t"
  shows "next_ino t \<le> next_ino t' \<and>
    (\<forall>i < next_ino t. \<forall>e'. by_ino t' i = Some e' \<longrightarrow> (\<exists>e. by_ino t i = Some e \<and> ie_path e = ie_path e'))"
  using table_step_effect [OF assms]
proof (elim disjE exE)
  assume "same_maps t t'"
  then show ?thesis by (simp add: same_maps_def) (metis map_option_eq_Some)
next
  fix p assume "added p t t'"
  then show ?thesis using next_less [of "next_ino t" "next_ino t"] by (auto simp: added_def split: if_splits)
next
  fix i assume "removed i t t'"
  then show ?thesis by (auto simp: removed_def split: if_splits)
qed

text \<open>C34: whatever sequence of operations the table goes through, the two maps stay
  inverse to each other, the root stays bound, and an inode number that stood for a
  path never comes to stand for another one: a stale handle of the kernel finds its own
  path or nothing.\<close>

theorem inode_binding_stable:
  assumes "table_step\<^sup>*\<^sup>* inode_table_new t" and "table_step\<^sup>*\<^sup>* t t'"
  shows "(ino_for_path t' p = Some i \<longleftrightarrow> (\<exists>g k. resolve_ino t' i = Some (p, g, k)))
    \<and> ino_for_path t' ''/'' = Some ROOT_INODE
    \<and> (resolve_ino t i = Some (q, x) \<longrightarrow> resolve_ino t' i = Some (q', x') \<longrightarrow> q' = q)"
proof -
  from assms(1) have inv: "inode_inv t"
    by (induction rule: rtranclp_induct) (auto intro: inode_inv_new inv_table_step)
  have "inode_inv t' \<and> next_ino t \<le> next_ino t'
    \<and> (\<forall>j < next_ino t. \<forall>e'. by_ino t' j = Some e' \<longrightarrow> (\<exists>e. by_ino t j = Some e \<and> ie_path e = ie_path e'))"
    using assms(2)
  proof (induction rule: rtranclp_induct)
    case (step u v)
    then have u: "inode_inv u" by simp
    from inv_table_step [OF step.hyps(2) u] step.IH bindings_kept [OF step.hyps(2) u] show ?case
      by (smt (verit) order_trans order_less_le_trans)
  qed (use inv in auto)
  moreover have "i < next_ino t" if "resolve_ino t i = Some (q, x)"
    using that inode_invD(2) [OF inv] by (auto simp: resolve_ino_def)
  ultimately show ?thesis
    using inode_invD(1,3) [of t'] by (fastforce simp: ino_for_path_def resolve_ino_def)
qed

text \<open>A lookup of the path of an open file, and its number after it was invalidated and
  looked up again.\<close>

theorem inode_binding_stable_witness:
  "\<exists>t t'. table_step\<^sup>*\<^sup>* inode_table_new t \<and> table_step\<^sup>*\<^sup>* t t' \<and> resolve_ino t 2 = Some (''/a'', 1, KRegularFile)
    \<and> ino_for_path t' ''/'' = Some ROOT_INODE \<and> resolve_ino t' 2 = None \<and> ino_for_path t' ''/a'' = Some 3"
proof -
  define t where "t = snd (insert_or_get ''/a'' KRegularFile inode_table_new)"
  define u where "u = snd (invalidate_path ''/a'' t)"
  define t' where "t' = snd (insert_or_get ''/a'' KDirectory u)"
  have 1: "table_step\<^sup>*\<^sup>* inode_table_new t" unfolding t_def by (intro r_into_rtranclp st_insert)
  have "table_step\<^sup>*\<^sup>* t u" "table_step\<^sup>*\<^sup>* u t'"
    unfolding u_def t'_def by (intro r_into_rtranclp st_inval_path st_insert)+
  then have 2: "table_step\<^sup>*\<^sup>* t t'" by (rule rtranclp_trans)
  have ops: "by_ino t = [1 \<mapsto> \<lparr>ie_path = ''/'', ie_kind = KDirectory, ie_generation = 1\<rparr>,
      2 \<mapsto> \<lparr>ie_path = ''/a'', ie_kind = KRegularFile, ie_generation = 1\<rparr>]" "by_path t = [''/'' \<mapsto> 1, ''/a'' \<mapsto> 2]" "next_ino t = 3"
    by (simp_all add: t_def insert_or_get_def alloc_ino_def inode_table_new_def ROOT_INODE_def Let_def)
  have "resolve_ino t 2 = Some (''/a'', 1, KRegularFile)" by (simp add: resolve_ino_def ops)
  moreover have "resolve_ino t' 2 = None" "ino_for_path t' ''/a'' = Some 3"
    by (simp_all add: t'_def u_def invalidate_path_def insert_or_get_def alloc_ino_def ops resolve_ino_def ino_for_path_def Let_def)
  ultimately show ?thesis using 1 2 inode_binding_stable [OF 1 2] by blast
qed

section \<open>References of the kernel\<close>

text \<open>The kernel counts the replies that named an inode and gives the counts back with
  \<open>forget\<close>; it never gives back more than it holds.\<close>

inductive kernel_run :: "inode_table \<Rightarrow> (u64 \<Rightarrow> nat) \<Rightarrow> bool" where
  kr_start: "kernel_run inode_table_new (\<lambda>_. 0)"
| kr_reply: "\<lbrakk>kernel_run t refs; insert_with_lookup path kind t = (Ok (i, g), t'); refs i + 1 < 2 ^ 64\<rbrakk>
    \<Longrightarrow> kernel_run (increment_lookup i t') (refs(i := refs i + 1))"
| kr_forget: "\<lbrakk>kernel_run t refs; unat n \<le> refs i\<rbrakk>
    \<Longrightarrow> kernel_run (forget i n t) (refs(i := refs i - unat n))"

lemma kernel_run_inv: "kernel_run t refs \<Longrightarrow> inode_inv t"
proof (induction rule: kernel_run.induct)
  case (kr_reply t refs path kind i g t')
  then have "t' = snd (insert_with_lookup path kind t)" by simp
  with kr_reply have "inode_inv t'" using inv_table_step st_insert_lookup by blast
  then show ?case using inv_table_step st_incr by blast
next
  case (kr_forget t refs n i)
  then show ?case using inv_table_step st_forget by blast
qed (rule inode_inv_new)

text \<open>What a successful reply leaves in the table.\<close>

lemma insert_or_get_Ok:
  assumes "insert_or_get p kind t = (Ok (i, g), t')" and "inode_inv t"
  shows "by_ino t' i \<noteq> None \<and> lookup_counts t' = lookup_counts t \<and> (\<forall>j. by_ino t' j \<noteq> None \<longleftrightarrow> j = i \<or> by_ino t j \<noteq> None)"
  using assms by (auto simp: insert_or_get_def alloc_ino_def Let_def split: option.splits if_splits)

lemma reply_Ok:
  assumes "insert_with_lookup p kind t = (Ok (i, g), t')" and "inode_inv t"
  shows "by_ino t' j \<noteq> None \<longleftrightarrow> j = i \<or> by_ino t j \<noteq> None"
    and "lookup_counts t' = (lookup_counts t)(i \<mapsto> lookup_count t i)"
proof -
  obtain u where u: "insert_or_get p kind t = (Ok (i, g), u)"
      "t' = (if lookup_counts u i = None then u\<lparr>lookup_counts := (lookup_counts u)(i \<mapsto> 0)\<rparr> else u)"
    using assms(1) by (auto simp: insert_with_lookup_def split: prod.splits sum.splits)
  note e = insert_or_get_Ok [OF u(1) assms(2)]
  from e u(2) show "by_ino t' j \<noteq> None \<longleftrightarrow> j = i \<or> by_ino t j \<noteq> None" by auto
  from e u(2) show "lookup_counts t' = (lookup_counts t)(i \<mapsto> lookup_count t i)"
    by (auto simp: lookup_count_def split: option.splits)
qed

definition counts_exact :: "inode_table \<Rightarrow> (u64 \<Rightarrow> nat) \<Rightarrow> bool" where
  "counts_exact t refs \<longleftrightarrow>
     (\<forall>i. i \<noteq> ROOT_INODE \<longrightarrow> unat (lookup_count t i) = refs i
        \<and> (lookup_counts t i \<noteq> None \<longleftrightarrow> 0 < refs i) \<and> (by_ino t i \<noteq> None \<longleftrightarrow> 0 < refs i))"

lemma counts_reply:
  assumes "counts_exact t refs" and "inode_inv t" and "insert_with_lookup p kind t = (Ok (i, g), t')"
    and "refs i + 1 < 2 ^ 64"
  shows "counts_exact (increment_lookup i t') (refs(i := refs i + 1))"
proof -
  note r = reply_Ok [OF assms(3,2)]
  have "unat (lookup_count t i + 1) = refs i + 1" if "i \<noteq> ROOT_INODE"
    using assms(1,4) that by (simp add: counts_exact_def unat_word_ariths)
  with assms(1) r show ?thesis
    by (auto simp: counts_exact_def increment_lookup_def lookup_count_def)
qed

lemma evict_other: "by_ino (evict_ino i t) j = (if j = i then None else by_ino t j)"
  "lookup_counts (evict_ino i t) = lookup_counts t"
  by (auto simp: evict_ino_def split: option.splits)

lemma counts_forget:
  assumes "counts_exact t refs" and "unat n \<le> refs i"
  shows "counts_exact (forget i n t) (refs(i := refs i - unat n))"
proof (cases "i = ROOT_INODE")
  case True
  with assms(1) show ?thesis by (auto simp: counts_exact_def forget_def)
next
  case False
  show ?thesis
  proof (cases "lookup_counts t i")
    case None
    then have "refs i = 0" using assms(1) False by (metis counts_exact_def not_gr_zero)
    with None False assms(1) show ?thesis
      by (auto simp: counts_exact_def forget_def evict_other lookup_count_def)
  next
    case (Some c)
    then have c: "unat c = refs i" using assms(1) False by (auto simp: counts_exact_def lookup_count_def)
    then have "unat (saturating_sub c n) = refs i - unat n" by (simp add: unat_saturating_sub)
    moreover from this have "saturating_sub c n = 0 \<longleftrightarrow> refs i - unat n = 0" by (simp add: unat_eq_0 [symmetric])
    ultimately show ?thesis using Some False assms(1)
      by (auto simp: counts_exact_def forget_def evict_other lookup_count_def Let_def)
  qed
qed

text \<open>As long as the kernel holds a reference to an inode number, the table resolves
  it; once the last reference is given back, the entry is gone, so the table holds no
  more entries than the kernel has open.\<close>

theorem referenced_inode_resolves:
  assumes "kernel_run t refs"
  shows "(0 < refs i \<longrightarrow> resolve_ino t i \<noteq> None) \<and> (i \<noteq> ROOT_INODE \<longrightarrow> unat (lookup_count t i) = refs i)
    \<and> (resolve_ino t i \<noteq> None \<longrightarrow> i = ROOT_INODE \<or> 0 < refs i)"
proof -
  have "counts_exact t refs" using assms
  proof (induction rule: kernel_run.induct)
    case kr_start
    show ?case by (auto simp: counts_exact_def inode_table_new_def lookup_count_def)
  next
    case (kr_reply t refs path kind i g t')
    then show ?case using counts_reply kernel_run_inv by blast
  qed (rule counts_forget)
  moreover have "resolve_ino t ROOT_INODE \<noteq> None"
    using inode_invD(1,3) [OF kernel_run_inv [OF assms]] by (auto simp: resolve_ino_def)
  ultimately show ?thesis by (cases "i = ROOT_INODE") (auto simp: counts_exact_def resolve_ino_def)
qed

theorem referenced_inode_resolves_witness:
  "\<exists>t refs. kernel_run t refs \<and> refs 2 = 1 \<and> resolve_ino t 2 \<noteq> None"
proof -
  define t where "t = snd (insert_with_lookup ''/a'' KRegularFile inode_table_new)"
  have "insert_with_lookup ''/a'' KRegularFile inode_table_new = (Ok (2, 1), t)"
    by (simp add: t_def insert_with_lookup_def insert_or_get_def alloc_ino_def inode_table_new_def ROOT_INODE_def Let_def)
  from kr_reply [OF kr_start this] have "kernel_run (increment_lookup 2 t) ((\<lambda>_. 0)(2 := 1))" by simp
  from this referenced_inode_resolves [OF this, of 2] show ?thesis
    by (intro exI [of _ "increment_lookup 2 t"] exI [of _ "(\<lambda>_. 0)(2 := 1)"]) simp
qed

end
