(* ===== verification/Write_Journal.thy ===== *)
theory Write_Journal
  imports Bytes
begin

text \<open>
  The write-ahead journal of the mounted drive, \<open>pcloud-fs/src/write_journal.rs\<close>: the
  framed records, the checksum, appending and replay.  The journal file is the list of
  its bytes.  The JSON codec of the records is a parameter; what the code relies on is
  that decoding an encoded record gives it back.  An append can be cut short by a
  failing write, which is also what a crash in the middle of it leaves behind.
\<close>

unbundle bit_operations_syntax

section \<open>Records\<close>

datatype journal_op =
    OpCreate (op_parent_path: string) (op_name: string)
  | OpWrite (op_file: string) (op_offset: u64) (op_len: u64) (op_staging_blob: string)
  | OpTruncate (op_file: string) (op_new_size: u64)
  | OpUnlink (op_file: string)
  | OpRename (op_from: string) (op_to: string)
  | OpFlushBarrier (op_file: string)
  | OpChunkAck (op_file: string) (op_upload_id: u64) (op_offset: u64) (op_len: u64)

record journal_record =
  jr_seq :: u64
  jr_op :: journal_op

datatype write_journal_error = JournalIo | JournalCodec | RecordTooLarge u32 | JournalCorrupt

record write_journal =
  wj_file :: "byte list"
  wj_next_seq :: u64

definition JOURNAL_MAGIC :: u32 where "JOURNAL_MAGIC = 0x50434A31"

definition MAX_RECORD_BYTES :: nat where "MAX_RECORD_BYTES = 16 * 1024 * 1024"

section \<open>Checksum\<close>

definition crc_shift :: "u32 \<Rightarrow> u32" where
  "crc_shift c = (if c AND 1 \<noteq> 0 then drop_bit 1 c XOR 0xEDB88320 else drop_bit 1 c)"

definition crc_byte :: "u32 \<Rightarrow> byte \<Rightarrow> u32" where
  "crc_byte crc b = (let c = (crc XOR ucast b) AND 0xFF in drop_bit 8 crc XOR (crc_shift ^^ 8) c)"

definition crc32_ieee :: "byte list \<Rightarrow> u32" where
  "crc32_ieee bytes = NOT (foldl crc_byte 0xFFFFFFFF bytes)"

section \<open>Appending\<close>

definition wj_frame :: "byte list \<Rightarrow> byte list" where
  "wj_frame payload =
     to_le_bytes JOURNAL_MAGIC @ to_le_bytes (of_nat (length payload) :: u32)
       @ to_le_bytes (crc32_ieee payload) @ payload"

text \<open>A write that fails has put the first \<open>k\<close> bytes of the frame into the file; a failing
  sync leaves all of them there.\<close>

datatype io_fault = NoFault | WriteFault nat | SyncFault

definition wj_open :: "byte list \<Rightarrow> write_journal" where
  "wj_open file = \<lparr>wj_file = file, wj_next_seq = 1\<rparr>"

definition wj_append ::
  "(journal_record \<Rightarrow> byte list option) \<Rightarrow> io_fault \<Rightarrow> journal_op \<Rightarrow> write_journal
    \<Rightarrow> (write_journal_error, u64) result \<times> write_journal" where
  "wj_append enc fault jop j =
     (let seq = wj_next_seq j in
      case enc \<lparr>jr_seq = seq, jr_op = jop\<rparr> of
        None \<Rightarrow> (Err JournalCodec, j)
      | Some payload \<Rightarrow>
          if length payload > MAX_RECORD_BYTES then
            (Err (RecordTooLarge (if length payload < 2 ^ 32 then of_nat (length payload) else - 1)), j)
          else
            case fault of
              WriteFault k \<Rightarrow> (Err JournalIo, j\<lparr>wj_file := wj_file j @ take k (wj_frame payload)\<rparr>)
            | SyncFault \<Rightarrow> (Err JournalIo, j\<lparr>wj_file := wj_file j @ wj_frame payload\<rparr>)
            | NoFault \<Rightarrow> (Ok seq, j\<lparr>wj_file := wj_file j @ wj_frame payload, wj_next_seq := seq + 1\<rparr>))"

definition wj_is_empty :: "write_journal \<Rightarrow> bool" where
  "wj_is_empty j \<longleftrightarrow> length (wj_file j) = 0"

definition wj_reset :: "write_journal \<Rightarrow> write_journal" where
  "wj_reset j = j\<lparr>wj_file := []\<rparr>"

section \<open>Replay\<close>

function replay_loop ::
  "(byte list \<Rightarrow> journal_record option) \<Rightarrow> byte list \<Rightarrow> (write_journal_error, journal_record list) result" where
  "replay_loop dec rest =
     (if length rest < 12 then Ok []
      else if from_le_bytes (take 4 rest) \<noteq> JOURNAL_MAGIC then Ok []
      else
        let payload_len = (from_le_bytes (take 4 (drop 4 rest)) :: u32);
            crc_expected = from_le_bytes (take 4 (drop 8 rest))
        in if unat payload_len > MAX_RECORD_BYTES then Err (RecordTooLarge payload_len)
           else if unat payload_len > length rest - 12 then Ok []
           else
             let payload = take (unat payload_len) (drop 12 rest)
             in if crc32_ieee payload \<noteq> crc_expected then Ok []
                else (case dec payload of
                  None \<Rightarrow> Ok []
                | Some r \<Rightarrow>
                    (case replay_loop dec (drop (12 + unat payload_len) rest) of
                       Inl e \<Rightarrow> Err e
                     | Inr rs \<Rightarrow> Ok (r # rs))))"
  by pat_completeness auto
termination
  by (relation "measure (\<lambda>(dec, rest). length rest)") auto

declare replay_loop.simps [simp del]

text \<open>\<open>None\<close> is a journal file that does not exist.\<close>

definition replay_path ::
  "(byte list \<Rightarrow> journal_record option) \<Rightarrow> byte list option \<Rightarrow> (write_journal_error, journal_record list) result" where
  "replay_path dec file = (case file of None \<Rightarrow> Ok [] | Some bytes \<Rightarrow> replay_loop dec bytes)"

definition replay :: "(byte list \<Rightarrow> journal_record option) \<Rightarrow> write_journal \<Rightarrow> (write_journal_error, journal_record list) result" where
  "replay dec j = replay_path dec (Some (wj_file j))"

section \<open>The checksum is linear and injective on bursts\<close>

lemma and_1_odd: "c AND 1 \<noteq> 0 \<longleftrightarrow> bit (c :: u32) 0"
  by (metis and_one_eq bit_0 odd_iff_mod_2_eq_one even_iff_mod_2_eq_zero one_neq_zero)

lemma crc_shift_xor: "crc_shift (x XOR y) = crc_shift x XOR crc_shift y"
  unfolding crc_shift_def and_1_odd
  by (auto simp: bit_xor_iff drop_bit_xor xor.assoc xor.left_commute xor.commute)

lemma crc_shifts_xor: "(crc_shift ^^ n) (x XOR y) = (crc_shift ^^ n) x XOR (crc_shift ^^ n) y"
  by (induction n) (simp_all add: crc_shift_xor)

lemma crc_shift_zero [simp]: "crc_shift 0 = 0"
  by (simp add: crc_shift_def)

lemma crc_shift_eq_0:
  assumes "crc_shift z = 0"
  shows "z = 0"
proof (rule ccontr)
  assume "z \<noteq> 0"
  have top: "bit (0xEDB88320 :: u32) 31" by (simp add: bit_numeral_rec)
  have "\<not> bit (drop_bit 1 z) 31" using bit_imp_le_length [of z 32] by (auto simp: bit_drop_bit_eq)
  with top assms have even: "\<not> bit z 0"
    by (auto simp: crc_shift_def and_1_odd bit_xor_iff dest: arg_cong [where f = "\<lambda>w. bit w 31"])
  with assms have "drop_bit 1 z = 0" by (simp add: crc_shift_def and_1_odd)
  moreover have "bit z (Suc i) = bit (drop_bit 1 z) i" for i by (simp add: bit_drop_bit_eq)
  ultimately have "\<not> bit z (Suc i)" for i by simp
  with even have "\<not> bit z i" for i by (cases i) auto
  with \<open>z \<noteq> 0\<close> show False by (auto intro: bit_eqI)
qed

lemma xor_right_cancel: "x XOR z = y XOR z \<longleftrightarrow> x = (y :: u32)"
proof
  assume "x XOR z = y XOR z"
  then have "(x XOR z) XOR z = (y XOR z) XOR z" by simp
  then show "x = y" by (simp only: xor.assoc xor_self_eq xor.right_neutral)
qed simp

lemma xor_cancel: "x XOR y = 0 \<longleftrightarrow> x = (y :: u32)"
  using xor_right_cancel [of x y y] by simp

lemma crc_shift_inj:
  assumes "crc_shift x = crc_shift y"
  shows "x = y"
proof -
  have "crc_shift (x XOR y) = 0" using assms by (simp add: crc_shift_xor)
  from crc_shift_eq_0 [OF this] show ?thesis by (simp add: xor_cancel)
qed

lemma crc_shifts_inj: "(crc_shift ^^ n) x = (crc_shift ^^ n) y \<Longrightarrow> x = y"
  by (induction n arbitrary: x y) (auto dest: crc_shift_inj)

text \<open>Zero bits are shifted out without touching the others.\<close>

lemma crc_shifts_zeros: "\<forall>i < n. \<not> bit z i \<Longrightarrow> (crc_shift ^^ n) z = drop_bit n z"
proof (induction n)
  case (Suc n)
  then have "\<not> bit (drop_bit n z) 0" by (simp add: bit_drop_bit_eq)
  with Suc show ?case by (simp add: crc_shift_def and_1_odd)
qed simp

lemma mask_8: "(0xFF :: u32) = mask 8"
  by (simp add: mask_eq_exp_minus_1)

text \<open>The loop over the low byte computes the bit-serial checksum.\<close>

lemma crc_byte_serial: "crc_byte crc b = (crc_shift ^^ 8) (crc XOR ucast b)"
proof -
  let ?x = "crc XOR ucast b :: u32"
  have split: "?x = (?x AND mask 8) XOR (?x AND NOT (mask 8))"
    by (rule bit_eqI) (auto simp: bit_and_iff bit_xor_iff bit_not_iff)
  have "(crc_shift ^^ 8) (?x AND NOT (mask 8)) = drop_bit 8 (?x AND NOT (mask 8))"
    by (rule crc_shifts_zeros) (simp add: bit_and_iff bit_not_iff bit_mask_iff)
  also have "\<dots> = drop_bit 8 crc"
    by (rule bit_eqI) (auto simp: bit_drop_bit_eq bit_and_iff bit_not_iff bit_mask_iff bit_xor_iff bit_ucast_iff dest: bit_imp_le_length)
  finally have "(crc_shift ^^ 8) ?x = (crc_shift ^^ 8) (?x AND mask 8) XOR drop_bit 8 crc"
    using crc_shifts_xor [of 8 "?x AND mask 8" "?x AND NOT (mask 8)"] split by simp
  then show ?thesis by (simp add: crc_byte_def mask_8 xor.commute)
qed

lemma crc_burst:
  "length bs \<le> 4 \<Longrightarrow> foldl crc_byte s bs = (crc_shift ^^ (8 * length bs)) (s XOR of_nat (le_nat bs))"
proof (induction bs arbitrary: s)
  case (Cons b bs)
  let ?w = "of_nat (le_nat bs) :: u32"
  have "le_nat bs < 256 ^ length bs" by (rule le_nat_bound)
  also have "\<dots> \<le> 256 ^ 3" using Cons.prems by (intro power_increasing) simp_all
  finally have w: "unat ?w < 2 ^ 24" by (simp add: unat_of_nat)
  have hi: "of_nat (256 * le_nat bs) = push_bit 8 ?w" by (simp add: push_bit_eq_mult)
  have "\<forall>i < 8. \<not> bit (push_bit 8 ?w) i" by (simp add: bit_push_bit_iff)
  then have "(crc_shift ^^ 8) (push_bit 8 ?w) = drop_bit 8 (push_bit 8 ?w)" by (rule crc_shifts_zeros)
  also have "\<dots> = ?w"
    by (rule bit_eqI) (auto simp: bit_drop_bit_eq bit_push_bit_iff dest: bit_word_less [OF _ w])
  finally have shifted: "(crc_shift ^^ 8) (push_bit 8 ?w) = ?w" .
  have "of_nat (le_nat (b # bs)) = (ucast b :: u32) XOR push_bit 8 ?w"
  proof -
    have "(ucast b :: u32) AND push_bit 8 ?w = 0"
      by (rule bit_eqI) (auto simp: bit_and_iff bit_ucast_iff bit_push_bit_iff dest: bit_imp_le_length)
    then have "ucast b XOR push_bit 8 ?w = ucast b + push_bit 8 ?w"
      by (simp add: disjunctive_add_eq_xor)
    also have "\<dots> = of_nat (le_nat (b # bs))"
      unfolding hi [symmetric] by simp
    finally show ?thesis ..
  qed
  then have "(crc_shift ^^ 8) (s XOR of_nat (le_nat (b # bs))) = crc_byte s b XOR ?w"
    by (simp add: crc_byte_serial crc_shifts_xor shifted flip: xor.assoc)
  then show ?case using Cons.IH [of "crc_byte s b"] Cons.prems
    by (simp add: funpow_add add.commute [of 8])
qed simp

lemma crc_bytes_inj: "foldl crc_byte s bs = foldl crc_byte t bs \<Longrightarrow> s = t"
proof (induction bs arbitrary: s t)
  case (Cons b bs)
  then have "crc_byte s b = crc_byte t b" by simp
  then have "s XOR ucast b = t XOR ucast b" by (auto simp: crc_byte_serial dest: crc_shifts_inj)
  then show ?case by (simp add: xor_right_cancel)
qed simp

section \<open>Reading back a framed record\<close>

text \<open>Encodings that fit a frame, and the codec contract.\<close>

definition codec_ok :: "(journal_record \<Rightarrow> byte list option) \<Rightarrow> (byte list \<Rightarrow> journal_record option) \<Rightarrow> bool" where
  "codec_ok enc dec \<longleftrightarrow> (\<forall>r p. enc r = Some p \<longrightarrow> dec p = Some r)"

lemma length_wj_frame [simp]: "length (wj_frame p) = 12 + length p"
  by (simp add: wj_frame_def)

lemma le_bytes_numeral: "le_bytes (numeral n) x = of_nat x # le_bytes (pred_numeral n) (x div 256)"
  by (simp add: numeral_eq_Suc [of n])

lemma magic_bytes: "to_le_bytes JOURNAL_MAGIC = [0x31, 0x4A, 0x43, 0x50]"
  by (simp add: to_le_bytes_def JOURNAL_MAGIC_def le_bytes_numeral)

lemma unat_from_le_4: "unat (from_le_bytes (take 4 xs) :: u32) = le_nat (take 4 xs)"
proof -
  have "le_nat (take 4 xs) < 256 ^ length (take 4 xs)" by (rule le_nat_bound)
  also have "\<dots> \<le> 256 ^ 4" by (rule power_increasing) simp_all
  finally show ?thesis by (simp add: from_le_bytes_def unat_of_nat_small)
qed

lemma frame_len:
  assumes "length p \<le> MAX_RECORD_BYTES"
  shows "unat (of_nat (length p) :: u32) = length p"
  using assms by (intro unat_of_nat_small) (simp add: MAX_RECORD_BYTES_def)

lemma le32: "from_le_bytes (to_le_bytes (w :: u32)) = w"
  by (rule from_to_le_bytes) simp

text \<open>The three fields of a header read back.\<close>

lemma frame_fields:
  "from_le_bytes (take 4 (wj_frame p @ rest)) = JOURNAL_MAGIC"
  "from_le_bytes (take 4 (drop 4 (wj_frame p @ rest))) = (of_nat (length p) :: u32)"
  "from_le_bytes (take 4 (drop 8 (wj_frame p @ rest))) = crc32_ieee p"
  by (simp_all add: wj_frame_def le32)

lemma frame_payload: "drop 12 (wj_frame p @ rest) = p @ rest" "drop (12 + length p) (wj_frame p @ rest) = rest"
  by (simp_all add: wj_frame_def)

text \<open>One turn of the loop, once the magic number has been read.\<close>

lemma replay_header:
  assumes "12 \<le> length bs" and "from_le_bytes (take 4 bs) = JOURNAL_MAGIC"
    and "from_le_bytes (take 4 (drop 4 bs)) = (n :: u32)" and "from_le_bytes (take 4 (drop 8 bs)) = crc"
  shows "replay_loop dec bs =
    (if unat n > MAX_RECORD_BYTES then Err (RecordTooLarge n)
     else if unat n > length bs - 12 \<or> crc32_ieee (take (unat n) (drop 12 bs)) \<noteq> crc then Ok []
     else (case dec (take (unat n) (drop 12 bs)) of
         None \<Rightarrow> Ok []
       | Some r \<Rightarrow> (case replay_loop dec (drop (12 + unat n) bs) of Inl e \<Rightarrow> Err e | Inr rs \<Rightarrow> Ok (r # rs))))"
  using assms by (subst replay_loop.simps) (simp add: Let_def)

lemma replay_frame:
  assumes "length p \<le> MAX_RECORD_BYTES" and "dec p = Some r"
  shows "replay_loop dec (wj_frame p @ rest) =
    (case replay_loop dec rest of Inl e \<Rightarrow> Err e | Inr rs \<Rightarrow> Ok (r # rs))"
  unfolding replay_header [OF _ frame_fields, of p rest, simplified length_append length_wj_frame, OF trans_le_add1 [OF le_add1]]
  unfolding frame_payload frame_len [OF assms(1)]
  using assms by (simp add: not_less)

text \<open>A frame that is cut off ends the replay, whatever its length field says.\<close>

lemma replay_torn:
  assumes "length p \<le> MAX_RECORD_BYTES" and "k < 12 + length p"
  shows "replay_loop dec (take k (wj_frame p)) = Ok []"
proof (cases "k < 12")
  case False
  let ?t = "take k (wj_frame p)"
  have "take 4 ?t = take 4 (wj_frame p @ [])" "take 4 (drop 4 ?t) = take 4 (drop 4 (wj_frame p @ []))"
    using False by (simp_all add: drop_take min_def)
  then have "from_le_bytes (take 4 ?t) = JOURNAL_MAGIC" "from_le_bytes (take 4 (drop 4 ?t)) = (of_nat (length p) :: u32)"
    by (simp_all only: frame_fields)
  moreover have "k - 12 < length p" using False assms(2) by linarith
  ultimately show ?thesis using replay_header [of ?t _ _ dec] False assms by (simp add: frame_len)
qed (simp add: replay_loop.simps)

section \<open>Logs\<close>

text \<open>The bytes of a list of records, when every one of them can be framed.\<close>

fun frames :: "(journal_record \<Rightarrow> byte list option) \<Rightarrow> journal_record list \<Rightarrow> byte list option" where
  "frames enc [] = Some []"
| "frames enc (r # rs) =
     (case (enc r, frames enc rs) of
        (Some p, Some bs) \<Rightarrow> if length p \<le> MAX_RECORD_BYTES then Some (wj_frame p @ bs) else None
      | _ \<Rightarrow> None)"

lemma frames_append:
  "frames enc (rs @ qs) =
     (case (frames enc rs, frames enc qs) of (Some a, Some b) \<Rightarrow> Some (a @ b) | _ \<Rightarrow> None)"
  by (induction rs) (auto split: option.splits)

lemma replay_frames:
  assumes "codec_ok enc dec" and "frames enc rs = Some bs"
  shows "replay_loop dec (bs @ rest) =
    (case replay_loop dec rest of Inl e \<Rightarrow> Err e | Inr qs \<Rightarrow> Ok (rs @ qs))"
  using assms(2)
proof (induction rs arbitrary: bs)
  case (Cons r rs)
  from Cons.prems obtain p bs' where p: "enc r = Some p" "length p \<le> MAX_RECORD_BYTES"
      "frames enc rs = Some bs'" "bs = wj_frame p @ bs'"
    by (auto split: option.splits if_splits)
  then have "dec p = Some r" using assms(1) by (simp add: codec_ok_def)
  with Cons.IH [OF p(3)] p show ?case by (simp add: replay_frame split: sum.splits)
qed (simp split: sum.splits)

text \<open>Logs a running program can have: a fresh file, acknowledged appends, checkpoints
  and clean restarts.\<close>

inductive wj_log :: "(journal_record \<Rightarrow> byte list option) \<Rightarrow> write_journal \<Rightarrow> journal_record list \<Rightarrow> bool"
  for enc where
    log_fresh: "wj_log enc (wj_open []) []"
  | log_append: "\<lbrakk>wj_log enc j rs; wj_append enc NoFault jop j = (Ok seq, j')\<rbrakk>
      \<Longrightarrow> wj_log enc j' (rs @ [\<lparr>jr_seq = seq, jr_op = jop\<rparr>])"
  | log_reset: "wj_log enc j rs \<Longrightarrow> wj_log enc (wj_reset j) []"
  | log_reopen: "wj_log enc j rs \<Longrightarrow> wj_log enc (wj_open (wj_file j)) rs"

lemma wj_append_Ok:
  assumes "wj_append enc fault jop j = (Ok seq, j')"
  obtains p where "fault = NoFault" "seq = wj_next_seq j" "enc \<lparr>jr_seq = seq, jr_op = jop\<rparr> = Some p"
    "length p \<le> MAX_RECORD_BYTES" "wj_file j' = wj_file j @ wj_frame p" "wj_next_seq j' = seq + 1"
  using assms by (auto simp: wj_append_def Let_def split: option.splits if_splits io_fault.splits)

lemma log_frames: "wj_log enc j rs \<Longrightarrow> frames enc rs = Some (wj_file j)"
proof (induction rule: wj_log.induct)
  case (log_append j rs jop seq j')
  from log_append.hyps(2) obtain p where "enc \<lparr>jr_seq = seq, jr_op = jop\<rparr> = Some p"
      "length p \<le> MAX_RECORD_BYTES" "wj_file j' = wj_file j @ wj_frame p"
    by (rule wj_append_Ok)
  with log_append.IH show ?case by (simp add: frames_append)
qed (simp_all add: wj_open_def wj_reset_def)

text \<open>How much of the new frame an append leaves in the file.\<close>

definition written :: "io_fault \<Rightarrow> byte list \<Rightarrow> byte list" where
  "written fault p = (case fault of WriteFault k \<Rightarrow> take k (wj_frame p) | _ \<Rightarrow> wj_frame p)"

text \<open>A concrete codec: sequence number, tag, and strings with a mark before each byte.\<close>

definition put_str :: "string \<Rightarrow> byte list" where
  "put_str s = concat (map (\<lambda>c. [1, byte_of_char c]) s) @ [0]"

fun get_str :: "byte list \<Rightarrow> (string \<times> byte list) option" where
  "get_str (m # bs) =
     (if m = 0 then Some ([], bs)
      else (case bs of
        [] \<Rightarrow> None
      | b # bs' \<Rightarrow> map_option (\<lambda>(s, rest). (char_of_byte b # s, rest)) (get_str bs')))"
| "get_str [] = None"

lemma get_put_str [simp]: "get_str (put_str s @ rest) = Some (s, rest)"
  by (induction s) (simp_all add: put_str_def)

fun put_op :: "journal_op \<Rightarrow> byte list" where
  "put_op (OpCreate a b) = 0 # put_str a @ put_str b"
| "put_op (OpWrite a x y b) = 1 # to_le_bytes x @ to_le_bytes y @ put_str a @ put_str b"
| "put_op (OpTruncate a x) = 2 # to_le_bytes x @ put_str a"
| "put_op (OpUnlink a) = 3 # put_str a"
| "put_op (OpRename a b) = 4 # put_str a @ put_str b"
| "put_op (OpFlushBarrier a) = 5 # put_str a"
| "put_op (OpChunkAck a x y z) = 6 # to_le_bytes x @ to_le_bytes y @ to_le_bytes z @ put_str a"

definition get_two :: "(string \<Rightarrow> string \<Rightarrow> journal_op) \<Rightarrow> byte list \<Rightarrow> journal_op option" where
  "get_two f bs =
     Option.bind (get_str bs) (\<lambda>(a, bs). Option.bind (get_str bs) (\<lambda>(b, bs). if bs = [] then Some (f a b) else None))"

definition get_one :: "(string \<Rightarrow> journal_op) \<Rightarrow> byte list \<Rightarrow> journal_op option" where
  "get_one f bs = Option.bind (get_str bs) (\<lambda>(a, bs). if bs = [] then Some (f a) else None)"

fun get_op :: "byte list \<Rightarrow> journal_op option" where
  "get_op [] = None"
| "get_op (tag # bs) =
     (let x = from_le_bytes (take 8 bs); y = from_le_bytes (take 8 (drop 8 bs)); z = from_le_bytes (take 8 (drop 16 bs)) in
      if tag = 0 then get_two OpCreate bs
      else if tag = 1 then get_two (\<lambda>a b. OpWrite a x y b) (drop 16 bs)
      else if tag = 2 then get_one (\<lambda>a. OpTruncate a x) (drop 8 bs)
      else if tag = 3 then get_one OpUnlink bs
      else if tag = 4 then get_two OpRename bs
      else if tag = 5 then get_one OpFlushBarrier bs
      else get_one (\<lambda>a. OpChunkAck a x y z) (drop 24 bs))"

definition toy_enc :: "journal_record \<Rightarrow> byte list option" where
  "toy_enc r = Some (to_le_bytes (jr_seq r) @ put_op (jr_op r))"

definition toy_dec :: "byte list \<Rightarrow> journal_record option" where
  "toy_dec bs = map_option (\<lambda>x. \<lparr>jr_seq = from_le_bytes (take 8 bs), jr_op = x\<rparr>) (get_op (drop 8 bs))"

lemma le64: "from_le_bytes (to_le_bytes (w :: u64)) = w"
  by (rule from_to_le_bytes) simp

lemma get_put_op: "get_op (put_op x) = Some x"
  using get_put_str [of _ "[]"] by (cases x) (simp_all add: get_two_def get_one_def le64)

lemma toy_codec: "codec_ok toy_enc toy_dec"
  by (auto simp: codec_ok_def toy_enc_def toy_dec_def le64 get_put_op)



lemma damaged_frame:
  assumes "length q = length p" and "length p \<le> MAX_RECORD_BYTES" and "crc32_ieee q \<noteq> crc32_ieee p"
  shows "replay_loop dec (take 12 (wj_frame p) @ q @ rest) = Ok []"
proof -
  let ?B = "take 12 (wj_frame p) @ q @ rest"
  have "take 4 ?B = take 4 (wj_frame p @ [])" "take 4 (drop 4 ?B) = take 4 (drop 4 (wj_frame p @ []))"
      "take 4 (drop 8 ?B) = take 4 (drop 8 (wj_frame p @ []))" "drop 12 ?B = q @ rest"
    by (simp_all add: drop_take)
  with replay_header [of ?B _ _ dec] assms show ?thesis
    by (simp only: frame_fields) (simp add: frame_len)
qed

text \<open>A payload that was changed in up to four neighbouring bytes has another
  checksum, so replay stops before the damaged record and returns the ones before
  it.\<close>

theorem damaged_record_stops_replay:
  assumes "codec_ok enc dec" and "frames enc rs = Some bs" and "length (pre @ xs @ post) \<le> MAX_RECORD_BYTES"
    and "length ys = length xs" and "ys \<noteq> xs" and "length xs \<le> 4"
  shows "crc32_ieee (pre @ ys @ post) \<noteq> crc32_ieee (pre @ xs @ post)
    \<and> replay_loop dec (bs @ take 12 (wj_frame (pre @ xs @ post)) @ pre @ ys @ post @ rest) = Ok rs"
proof -
  let ?P = "pre @ xs @ post" and ?Q = "pre @ ys @ post"
  let ?B = "take 12 (wj_frame ?P) @ ?Q @ rest"
  have "le_nat ys \<noteq> le_nat xs" using assms(4,5) by (metis le_bytes_le_nat)
  moreover have "le_nat ys < 2 ^ 32" "le_nat xs < 2 ^ 32"
    using le_nat_bound [of ys] le_nat_bound [of xs] assms(4,6)
      power_increasing [of "length xs" 4 "256 :: nat"] by simp_all
  ultimately have "(of_nat (le_nat ys) :: u32) \<noteq> of_nat (le_nat xs)"
    using unat_of_nat_small [of "le_nat ys", where 'a = 32] unat_of_nat_small [of "le_nat xs", where 'a = 32] by auto
  then have "s XOR of_nat (le_nat ys) \<noteq> s XOR (of_nat (le_nat xs) :: u32)" for s
    by (simp add: xor.commute [of s] xor_right_cancel)
  then have "foldl crc_byte s ys \<noteq> foldl crc_byte s xs" for s
    using assms(4,6) by (auto simp: crc_burst dest: crc_shifts_inj)
  then have crc: "crc32_ieee ?Q \<noteq> crc32_ieee ?P"
    by (auto simp: crc32_ieee_def dest: crc_bytes_inj)
  have "replay_loop dec ?B = Ok []"
    using damaged_frame [of ?Q ?P] crc assms(3,4) by simp
  with replay_frames [OF assms(1,2), of ?B] crc show ?thesis by simp
qed

theorem damaged_record_stops_replay_witness:
  "crc32_ieee ([] @ [8] @ [9]) \<noteq> crc32_ieee ([] @ [7] @ [9])
    \<and> replay_loop toy_dec ([] @ take 12 (wj_frame ([] @ [7] @ [9])) @ [] @ [8] @ [9] @ []) = Ok []"
  using damaged_record_stops_replay [OF toy_codec, of "[]" "[]" "[]" "[7]" "[9]" "[8]" "[]"]
  by (simp add: MAX_RECORD_BYTES_def)

section \<open>After a torn append\<close>

text \<open>A process that starts again on a torn journal appends behind the torn bytes.  When
  the crash left four to seven bytes of a header, the length field read at replay takes
  bytes of the next magic number, and the whole replay fails: no record, not even one
  acknowledged before the crash, is recovered any more.\<close>

lemma torn_header_poisons_journal:
  assumes "codec_ok enc dec" and "wj_log enc j rs"
    and "wj_append enc (WriteFault k) jop j = (Err JournalIo, j1)" and "4 \<le> k" "k < 8"
    and "wj_append enc NoFault jop2 (wj_open (wj_file j1)) = (Ok seq, j2)"
  shows "\<exists>n. replay dec j2 = Err (RecordTooLarge n)"
proof -
  from assms(3) obtain p where p: "wj_file j1 = wj_file j @ take k (wj_frame p)"
    by (auto simp: wj_append_def Let_def split: option.splits if_splits)
  from assms(6) obtain q where q: "wj_file j2 = wj_file j1 @ wj_frame q"
    by (rule wj_append_Ok) (simp add: wj_open_def)
  let ?B = "take k (wj_frame p) @ wj_frame q"
  let ?n = "from_le_bytes (take 4 (drop 4 ?B)) :: u32"
  have k: "k = 4 \<or> k = 5 \<or> k = 6 \<or> k = 7" using assms(4,5) by linarith
  then have len: "take 4 (drop 4 ?B) = take (k - 4) (to_le_bytes (of_nat (length p) :: u32)) @ take (8 - k) (to_le_bytes JOURNAL_MAGIC)"
    by (elim disjE) (simp_all add: wj_frame_def)
  from k have big: "0x31000000 \<le> 256 ^ (k - 4) * le_nat (take (8 - k) (to_le_bytes JOURNAL_MAGIC))"
    by (elim disjE) (simp_all add: magic_bytes)
  have "unat ?n = le_nat (take 4 (drop 4 ?B))" by (rule unat_from_le_4)
  also have "\<dots> \<ge> 0x31000000" unfolding len le_nat_append using big assms(4,5) by simp
  finally have "unat ?n > MAX_RECORD_BYTES" by (simp add: MAX_RECORD_BYTES_def)
  moreover have "take 4 ?B = take 4 (wj_frame p @ [])" using assms(4) by (simp add: min_def)
  then have "from_le_bytes (take 4 ?B) = JOURNAL_MAGIC" by (simp only: frame_fields)
  ultimately have "replay_loop dec ?B = Err (RecordTooLarge ?n)"
    using replay_header [of ?B _ _ dec] by simp
  with replay_frames [OF assms(1) log_frames [OF assms(2)], of ?B] p q show ?thesis
    by (simp add: replay_def replay_path_def)
qed

end
