(* ===== verification/Staging_Dir.thy ===== *)
theory Staging_Dir
  imports Write_Journal Fs_Paths
begin

text \<open>
  The disk under the mounted drive's write path: the staging directory of
  \<open>pcloud-fs/src/staging.rs\<close>, whose blobs are files below \<open>blobs/\<close>.  A directory is the
  map from its file names to their contents.  The disk may fail: a write can stop after
  some bytes, or the final sync can be refused.  The permission checks at opening are
  calls of the operating system and not modelled.
\<close>

section \<open>Blobs\<close>

datatype staging_error = StagingIo | StagingNotFound | StagingInvalidName

type_synonym blobs = "string \<rightharpoonup> byte list"

definition blob_name_ok :: "string \<Rightarrow> bool" where
  "blob_name_ok name \<longleftrightarrow>
     \<not> (name = [] \<or> CHR ''/'' \<in> set name \<or> CHR 0x5C \<in> set name \<or> name = ''.'' \<or> name = ''..'' \<or> CHR 0x00 \<in> set name)"

text \<open>\<open>file.write_all\<close> at a position and \<open>file.set_len\<close>.\<close>

definition write_at :: "byte list \<Rightarrow> nat \<Rightarrow> byte list \<Rightarrow> byte list" where
  "write_at bs offset data =
     take offset bs @ replicate (offset - length bs) 0 @ data @ drop (offset + length data) bs"

definition set_len :: "byte list \<Rightarrow> nat \<Rightarrow> byte list" where
  "set_len bs n = take n bs @ replicate (n - length bs) 0"

definition create_blob :: "string \<Rightarrow> blobs \<Rightarrow> (staging_error, unit) result \<times> blobs" where
  "create_blob name bl =
     (if \<not> blob_name_ok name then (Err StagingInvalidName, bl)
      else if bl name \<noteq> None then (Err StagingIo, bl)
      else (Ok (), bl(name \<mapsto> [])))"

definition open_blob :: "string \<Rightarrow> blobs \<Rightarrow> (staging_error, byte list) result" where
  "open_blob name bl =
     (if \<not> blob_name_ok name then Err StagingInvalidName
      else (case bl name of None \<Rightarrow> Err StagingNotFound | Some bs \<Rightarrow> Ok bs))"

definition read_blob :: "string \<Rightarrow> blobs \<Rightarrow> (staging_error, byte list) result" where
  "read_blob name bl = open_blob name bl"

definition remove_blob :: "io_fault \<Rightarrow> string \<Rightarrow> blobs \<Rightarrow> (staging_error, unit) result \<times> blobs" where
  "remove_blob fault name bl =
     (if \<not> blob_name_ok name then (Err StagingInvalidName, bl)
      else (case fault of NoFault \<Rightarrow> (Ok (), bl(name := None)) | _ \<Rightarrow> (Err StagingIo, bl)))"

definition write_blob_full ::
  "io_fault \<Rightarrow> string \<Rightarrow> byte list \<Rightarrow> blobs \<Rightarrow> (staging_error, nat) result \<times> blobs" where
  "write_blob_full fault name bytes bl =
     (if \<not> blob_name_ok name then (Err StagingInvalidName, bl)
      else (case fault of
        NoFault \<Rightarrow> (Ok (length bytes), bl(name \<mapsto> bytes))
      | SyncFault \<Rightarrow> (Err StagingIo, bl(name \<mapsto> bytes))
      | WriteFault k \<Rightarrow> (Err StagingIo, bl(name \<mapsto> take k bytes))))"

text \<open>Opening an existing blob or creating it.\<close>

definition open_or_create :: "string \<Rightarrow> blobs \<Rightarrow> (staging_error, byte list) result \<times> blobs" where
  "open_or_create name bl =
     (case open_blob name bl of
        Inr bs \<Rightarrow> (Ok bs, bl)
      | Inl StagingNotFound \<Rightarrow>
          (case create_blob name bl of (Inl e, bl') \<Rightarrow> (Err e, bl') | (Inr _, bl') \<Rightarrow> (Ok [], bl'))
      | Inl e \<Rightarrow> (Err e, bl))"

definition write_blob_at ::
  "io_fault \<Rightarrow> string \<Rightarrow> nat \<Rightarrow> byte list \<Rightarrow> blobs \<Rightarrow> (staging_error, nat) result \<times> blobs" where
  "write_blob_at fault name offset bytes bl =
     (case open_or_create name bl of
        (Inl e, bl') \<Rightarrow> (Err e, bl')
      | (Inr bs, bl') \<Rightarrow>
          (case fault of
             NoFault \<Rightarrow> (Ok (length (write_at bs offset bytes)), bl'(name \<mapsto> write_at bs offset bytes))
           | SyncFault \<Rightarrow> (Err StagingIo, bl'(name \<mapsto> write_at bs offset bytes))
           | WriteFault k \<Rightarrow> (Err StagingIo, bl'(name \<mapsto> write_at bs offset (take k bytes)))))"

definition truncate_blob :: "io_fault \<Rightarrow> string \<Rightarrow> nat \<Rightarrow> blobs \<Rightarrow> (staging_error, unit) result \<times> blobs" where
  "truncate_blob fault name new_size bl =
     (case open_or_create name bl of
        (Inl e, bl') \<Rightarrow> (Err e, bl')
      | (Inr bs, bl') \<Rightarrow>
          (case fault of
             NoFault \<Rightarrow> (Ok (), bl'(name \<mapsto> set_len bs new_size))
           | SyncFault \<Rightarrow> (Err StagingIo, bl'(name \<mapsto> set_len bs new_size))
           | WriteFault k \<Rightarrow> (Err StagingIo, bl')))"

section \<open>Files as functions\<close>

text \<open>The byte at a position, zero beyond the end: what a reader of a sparse file sees.\<close>

definition byte_at :: "byte list \<Rightarrow> nat \<Rightarrow> byte" where
  "byte_at bs i = (if i < length bs then bs ! i else 0)"

lemma length_write_at: "length (write_at bs off data) = max (length bs) (off + length data)"
  by (simp add: write_at_def)

lemma byte_at_write_at:
  "byte_at (write_at bs off data) i =
     (if off \<le> i \<and> i < off + length data then data ! (i - off) else byte_at bs i)"
  by (auto simp: byte_at_def write_at_def nth_append min_def split: if_splits)

lemma length_set_len [simp]: "length (set_len bs n) = n"
  by (simp add: set_len_def)

lemma byte_at_set_len: "byte_at (set_len bs n) i = (if i < n then byte_at bs i else 0)"
  by (auto simp: byte_at_def set_len_def nth_append)

lemma write_at_prefix: "take n (write_at bs off data) = take n bs" if "n \<le> off" "n \<le> length bs"
  using that by (simp add: write_at_def)

lemma write_at_end: "off \<le> length bs \<Longrightarrow> length bs \<le> off + length data \<Longrightarrow> write_at bs off data = take off bs @ data"
  by (simp add: write_at_def)

lemma write_at_empty [simp]: "off \<le> length bs \<Longrightarrow> write_at bs off [] = bs"
  by (simp add: write_at_def)

end
