(* ===== verification/Write_Path.thy ===== *)
theory Write_Path
  imports Staging_Dir
begin

text \<open>
  The write path of the mounted drive, \<open>pcloud-fs/src/write_path.rs\<close>: open handles, staged
  writes, whole-file and chunked uploads, and the reconciliation of interrupted uploads
  at start-up.  The upload back-end is a trait, so it is a parameter: a record of its
  operations over a state of its own.  Disk faults are a list in the state, one entry for
  each operation that changes the disk, and the clock advances by the back-off the retry
  loop sleeps.  Methods run one after the other here, so no mutex is poisoned; \<open>GLOBAL_STAGING_BYTES\<close>, a static of
  the process, is a field of the state.
\<close>

section \<open>Data\<close>

datatype write_path_error =
    WpJournal write_journal_error | WpStaging staging_error | WpUpload string | WpUploadTransient string
  | WpUploadPermanent string | WpNotOpen u64 | WpInvalid string | WpFs fs_error
  | WpInternal string

fun wp_to_errno :: "write_path_error \<Rightarrow> int" where
  "wp_to_errno (WpFs e) = fs_to_errno e"
| "wp_to_errno (WpInvalid m) = EINVAL"
| "wp_to_errno (WpNotOpen ino) = EINVAL"
| "wp_to_errno (WpJournal e) = EIO"
| "wp_to_errno (WpStaging e) = EIO"
| "wp_to_errno (WpUpload m) = EIO"
| "wp_to_errno (WpUploadTransient m) = EIO"
| "wp_to_errno (WpUploadPermanent m) = EIO"
| "wp_to_errno (WpInternal m) = EIO"

datatype upload_status = StatusBytes nat | StatusNotFound

definition CHUNKED_NOT_SUPPORTED :: string where "CHUNKED_NOT_SUPPORTED = ''chunked upload api not implemented''"
definition STATUS_NOT_SUPPORTED :: string where "STATUS_NOT_SUPPORTED = ''upload_status api not implemented''"
definition UPLOAD_CHUNK_BYTES :: nat where "UPLOAD_CHUNK_BYTES = 4 * 1024 * 1024"
definition DEFAULT_FLUSH_THRESHOLD_BYTES :: nat where "DEFAULT_FLUSH_THRESHOLD_BYTES = 64 * 1024 * 1024"
definition DEFAULT_CHUNK_SIZE_BYTES :: nat where "DEFAULT_CHUNK_SIZE_BYTES = UPLOAD_CHUNK_BYTES"
definition DEFAULT_MAX_STAGING_BYTES :: nat where "DEFAULT_MAX_STAGING_BYTES = 512 * 1024 * 1024"
definition DEFAULT_MAX_GLOBAL_STAGING_BYTES :: nat where "DEFAULT_MAX_GLOBAL_STAGING_BYTES = 2 * 1024 * 1024 * 1024"
definition DEFAULT_CHUNK_RETRY_ATTEMPTS :: nat where "DEFAULT_CHUNK_RETRY_ATTEMPTS = 5"
definition DEFAULT_CHUNK_RETRY_INITIAL_BACKOFF :: nat where "DEFAULT_CHUNK_RETRY_INITIAL_BACKOFF = 1000"
definition DEFAULT_FLUSH_INTERVAL :: nat where "DEFAULT_FLUSH_INTERVAL = 30 * 1000"
definition DEFAULT_HEARTBEAT_TIMEOUT :: nat where "DEFAULT_HEARTBEAT_TIMEOUT = 10 * 60"

abbreviation usize_max :: nat where "usize_max \<equiv> 2 ^ 64 - 1"

text \<open>Durations are in milliseconds.\<close>

record write_path_options =
  flush_threshold_bytes :: nat
  flush_interval :: nat
  chunk_size_bytes :: nat
  max_staging_bytes :: nat
  chunk_retry_attempts :: nat
  chunk_retry_initial_backoff :: nat
  max_global_staging_bytes :: nat

definition write_path_options_default :: write_path_options where
  "write_path_options_default =
     \<lparr>flush_threshold_bytes = DEFAULT_FLUSH_THRESHOLD_BYTES, flush_interval = DEFAULT_FLUSH_INTERVAL,
      chunk_size_bytes = DEFAULT_CHUNK_SIZE_BYTES, max_staging_bytes = DEFAULT_MAX_STAGING_BYTES,
      chunk_retry_attempts = DEFAULT_CHUNK_RETRY_ATTEMPTS,
      chunk_retry_initial_backoff = DEFAULT_CHUNK_RETRY_INITIAL_BACKOFF,
      max_global_staging_bytes = DEFAULT_MAX_GLOBAL_STAGING_BYTES\<rparr>"

record write_handle =
  wh_path :: string
  wh_blob_name :: string
  wh_dirty_bytes :: nat
  wh_last_flush :: nat
  wh_append_mode :: bool

record upload_progress =
  up_upload_id :: u64
  up_blob_name :: string
  up_total_size :: nat
  up_acked_offset :: nat
  up_heartbeat :: nat

text \<open>A progress file holds an encoded record or bytes that do not decode.\<close>

datatype sidecar_file = SideProgress upload_progress | SideGarbage

text \<open>The back-end operations and the encoder of the journal records.\<close>

record 'b wp_env =
  be_upload_file :: "'b \<Rightarrow> string \<Rightarrow> string \<Rightarrow> byte list \<Rightarrow> (write_path_error, unit) result \<times> 'b"
  be_unlink_remote :: "'b \<Rightarrow> string \<Rightarrow> (write_path_error, unit) result \<times> 'b"
  be_rename_remote :: "'b \<Rightarrow> string \<Rightarrow> string \<Rightarrow> (write_path_error, unit) result \<times> 'b"
  be_upload_create :: "'b \<Rightarrow> string \<Rightarrow> string \<Rightarrow> (write_path_error, u64) result \<times> 'b"
  be_upload_write :: "'b \<Rightarrow> u64 \<Rightarrow> nat \<Rightarrow> byte list \<Rightarrow> (write_path_error, unit) result \<times> 'b"
  be_upload_save :: "'b \<Rightarrow> u64 \<Rightarrow> string \<Rightarrow> string \<Rightarrow> nat \<Rightarrow> (write_path_error, unit) result \<times> 'b"
  be_upload_status :: "'b \<Rightarrow> u64 \<Rightarrow> (write_path_error, upload_status) result"
  wp_enc :: "journal_record \<Rightarrow> byte list option"

record 'b write_path =
  wp_options :: write_path_options
  wp_blobs :: blobs
  wp_journal :: write_journal
  wp_handles :: "u64 \<rightharpoonup> write_handle"
  wp_sidecars :: "u64 \<rightharpoonup> sidecar_file"
  wp_backend :: 'b
  wp_global :: nat
  wp_faults :: "io_fault list"
  wp_mono :: nat
  wp_epoch :: nat

text \<open>A method with \<open>&mut self\<close> that can fail, and the operator \<open>?\<close>.\<close>

type_synonym ('b, 'a) wp_method = "'b write_path \<Rightarrow> (write_path_error, 'a) result \<times> 'b write_path"

definition and_then :: "('b, 'a) wp_method \<Rightarrow> ('a \<Rightarrow> ('b, 'c) wp_method) \<Rightarrow> ('b, 'c) wp_method" where
  "and_then m f s = (case m s of (Inl e, s') \<Rightarrow> (Err e, s') | (Inr x, s') \<Rightarrow> f x s')"

definition fails :: "write_path_error \<Rightarrow> ('b, 'a) wp_method" where
  "fails e s = (Err e, s)"

definition returns :: "'a \<Rightarrow> ('b, 'a) wp_method" where
  "returns x s = (Ok x, s)"

section \<open>Helpers\<close>

definition blob_name_for_ino :: "u64 \<Rightarrow> string" where
  "blob_name_for_ino ino = ''ino-'' @ show_nat (unat ino) @ ''.blob''"

definition exp_backoff :: "nat \<Rightarrow> nat \<Rightarrow> nat" where
  "exp_backoff initial attempt =
     (let cap = 60 * 1000; shift = min attempt 20; d = initial * 2 ^ shift in if d \<le> cap then d else cap)"

definition join_path :: "string \<Rightarrow> string \<Rightarrow> string" where
  "join_path parent name = (if parent = ''/'' then CHR ''/'' # name else parent @ CHR ''/'' # name)"

definition split_parent_name :: "string \<Rightarrow> (string \<times> string) option" where
  "split_parent_name path =
     (if path = ''/'' then None
      else (case rfind (CHR ''/'') path of
        None \<Rightarrow> None
      | Some idx \<Rightarrow>
          let parent = (if idx = 0 then ''/'' else take idx path); name = drop (idx + 1) path
          in if name = [] then None else Some (parent, name)))"

definition now_unix_secs :: "'b write_path \<Rightarrow> nat" where
  "now_unix_secs s = wp_epoch s + wp_mono s div 1000"

definition next_fault :: "'b write_path \<Rightarrow> io_fault \<times> 'b write_path" where
  "next_fault s = (case wp_faults s of [] \<Rightarrow> (NoFault, s) | f # fs \<Rightarrow> (f, s\<lparr>wp_faults := fs\<rparr>))"

text \<open>An operation of the staging directory, lifted to the service.\<close>

definition on_stage :: "(io_fault \<Rightarrow> blobs \<Rightarrow> (staging_error, 'a) result \<times> blobs) \<Rightarrow> ('b, 'a) wp_method" where
  "on_stage f s =
     (case next_fault s of (fault, s1) \<Rightarrow>
        (case f fault (wp_blobs s1) of
           (Inl e, bl) \<Rightarrow> (Err (WpStaging e), s1\<lparr>wp_blobs := bl\<rparr>)
         | (Inr x, bl) \<Rightarrow> (Ok x, s1\<lparr>wp_blobs := bl\<rparr>)))"

definition journal_append :: "'b wp_env \<Rightarrow> journal_op \<Rightarrow> ('b, u64) wp_method" where
  "journal_append env jop s =
     (case next_fault s of (fault, s1) \<Rightarrow>
        (case wj_append (wp_enc env) fault jop (wp_journal s1) of
           (Inl e, j) \<Rightarrow> (Err (WpJournal e), s1\<lparr>wp_journal := j\<rparr>)
         | (Inr seq, j) \<Rightarrow> (Ok seq, s1\<lparr>wp_journal := j\<rparr>)))"

definition get_handle :: "u64 \<Rightarrow> ('b, write_handle) wp_method" where
  "get_handle ino s = (case wp_handles s ino of None \<Rightarrow> (Err (WpNotOpen ino), s) | Some h \<Rightarrow> (Ok h, s))"

definition on_backend :: "('b \<Rightarrow> (write_path_error, 'a) result \<times> 'b) \<Rightarrow> ('b, 'a) wp_method" where
  "on_backend f s = (case f (wp_backend s) of (r, b) \<Rightarrow> (r, s\<lparr>wp_backend := b\<rparr>))"

section \<open>Opening and closing\<close>

definition write_path_new :: "blobs \<Rightarrow> write_journal \<Rightarrow> 'b \<Rightarrow> write_path_options \<Rightarrow> 'b write_path" where
  "write_path_new stage journal backend options =
     \<lparr>wp_options = options, wp_blobs = stage, wp_journal = journal, wp_handles = Map.empty,
      wp_sidecars = Map.empty, wp_backend = backend, wp_global = 0, wp_faults = [], wp_mono = 0, wp_epoch = 0\<rparr>"

definition open_for_write :: "u64 \<Rightarrow> string \<Rightarrow> bool \<Rightarrow> bool \<Rightarrow> ('b, unit) wp_method" where
  "open_for_write ino path append_mode o_trunc =
     (let blob_name = blob_name_for_ino ino in
      and_then
        (\<lambda>s. if o_trunc then on_stage (\<lambda>fault. truncate_blob fault blob_name 0) s
             else if \<not> blob_name_ok blob_name then fails (WpStaging StagingInvalidName) s
             else if wp_blobs s blob_name = None then
               and_then (on_stage (\<lambda>fault. write_blob_full fault blob_name [])) (\<lambda>_. returns ()) s
             else returns () s)
        (\<lambda>_ s. returns () (s\<lparr>wp_handles := (wp_handles s)(ino \<mapsto>
           \<lparr>wh_path = path, wh_blob_name = blob_name, wh_dirty_bytes = 0, wh_last_flush = wp_mono s,
            wh_append_mode = append_mode\<rparr>)\<rparr>)))"

definition seed_blob :: "u64 \<Rightarrow> byte list \<Rightarrow> ('b, unit) wp_method" where
  "seed_blob ino bytes =
     and_then (on_stage (\<lambda>fault. write_blob_full fault (blob_name_for_ino ino) bytes)) (\<lambda>_. returns ())"

definition create_file :: "'b wp_env \<Rightarrow> u64 \<Rightarrow> string \<Rightarrow> string \<Rightarrow> ('b, unit) wp_method" where
  "create_file env ino parent_path name =
     (if name = [] \<or> CHR ''/'' \<in> set name \<or> CHR 0x00 \<in> set name then fails (WpInvalid ''name'')
      else
        and_then (open_for_write ino (join_path parent_path name) False True) (\<lambda>_.
        and_then (journal_append env (OpCreate parent_path name)) (\<lambda>_. returns ())))"

definition release_global :: "nat \<Rightarrow> 'b write_path \<Rightarrow> 'b write_path" where
  "release_global dirty s =
     (if max_global_staging_bytes (wp_options s) < usize_max \<and> dirty > 0
      then s\<lparr>wp_global := wp_global s - min (min dirty usize_max) (wp_global s)\<rparr> else s)"

definition release_handle :: "u64 \<Rightarrow> 'b write_path \<Rightarrow> 'b write_path" where
  "release_handle ino s =
     (case wp_handles s ino of
        None \<Rightarrow> s
      | Some h \<Rightarrow> let s1 = release_global (wh_dirty_bytes h) s in s1\<lparr>wp_handles := (wp_handles s1)(ino := None)\<rparr>)"

text \<open>The bookkeeping at the end of a flush.\<close>

definition reset_dirty :: "u64 \<Rightarrow> 'b write_path \<Rightarrow> 'b write_path" where
  "reset_dirty ino s =
     (case wp_handles s ino of
        None \<Rightarrow> s
      | Some h \<Rightarrow>
          let s1 = release_global (wh_dirty_bytes h) s
          in s1\<lparr>wp_handles := (wp_handles s1)(ino \<mapsto> h\<lparr>wh_dirty_bytes := 0, wh_last_flush := wp_mono s1\<rparr>)\<rparr>)"

section \<open>Flushing\<close>

definition flush :: "'b wp_env \<Rightarrow> u64 \<Rightarrow> ('b, unit) wp_method" where
  "flush env ino =
     and_then (get_handle ino) (\<lambda>h.
     and_then (journal_append env (OpFlushBarrier (wh_path h))) (\<lambda>_ s.
       if \<not> blob_name_ok (wh_blob_name h) then fails (WpStaging StagingInvalidName) s
       else (case split_parent_name (wh_path h) of
         None \<Rightarrow> fails (WpInvalid ''path has no parent'') s
       | Some (parent, name) \<Rightarrow>
           (case wp_blobs s (wh_blob_name h) of
              None \<Rightarrow> fails (WpUpload ''staging blob is missing'') s
            | Some bytes \<Rightarrow>
                and_then (on_backend (\<lambda>b. be_upload_file env b parent name bytes))
                  (\<lambda>_ s. returns () (reset_dirty ino s)) s))))"

definition fsync_inode :: "'b wp_env \<Rightarrow> u64 \<Rightarrow> ('b, unit) wp_method" where
  "fsync_inode env ino = flush env ino"

text \<open>Write-then-rename: a progress file is replaced as a whole or not at all.\<close>

definition save_progress :: "u64 \<Rightarrow> upload_progress \<Rightarrow> ('b, unit) wp_method" where
  "save_progress ino p s =
     (case next_fault s of (fault, s1) \<Rightarrow>
        (case fault of
           NoFault \<Rightarrow> (Ok (), s1\<lparr>wp_sidecars := (wp_sidecars s1)(ino \<mapsto> SideProgress p)\<rparr>)
         | _ \<Rightarrow> (Err (WpUpload ''progress file''), s1)))"

definition remove_progress :: "u64 \<Rightarrow> 'b write_path \<Rightarrow> 'b write_path" where
  "remove_progress ino s =
     (case next_fault s of (fault, s1) \<Rightarrow>
        (case fault of NoFault \<Rightarrow> s1\<lparr>wp_sidecars := (wp_sidecars s1)(ino := None)\<rparr> | _ \<Rightarrow> s1))"

definition load_progress :: "u64 \<Rightarrow> 'b write_path \<Rightarrow> (write_path_error, upload_progress option) result" where
  "load_progress ino s =
     (case wp_sidecars s ino of
        None \<Rightarrow> Ok None
      | Some (SideProgress p) \<Rightarrow> Ok (Some p)
      | Some SideGarbage \<Rightarrow> Err (WpUpload ''decode upload-progress''))"

text \<open>The retry loop around one chunk; \<open>left\<close> counts the attempts that remain.\<close>

primrec send_chunk :: "'b wp_env \<Rightarrow> u64 \<Rightarrow> nat \<Rightarrow> byte list \<Rightarrow> nat \<Rightarrow> ('b, unit) wp_method" where
  "send_chunk env upload_id offset chunk 0 s =
     (case on_backend (\<lambda>b. be_upload_write env b upload_id offset chunk) s of
        (Inl (WpUploadTransient msg), s1) \<Rightarrow>
          (Err (WpUploadTransient (''exhausted '' @ show_nat (chunk_retry_attempts (wp_options s))
             @ '' retries at offset '' @ show_nat offset @ '': '' @ msg)), s1)
      | (r, s1) \<Rightarrow> (r, s1))"
| "send_chunk env upload_id offset chunk (Suc left) s =
     (case on_backend (\<lambda>b. be_upload_write env b upload_id offset chunk) s of
        (Inl (WpUploadTransient msg), s1) \<Rightarrow>
          send_chunk env upload_id offset chunk left
            (s1\<lparr>wp_mono := wp_mono s1 + exp_backoff (chunk_retry_initial_backoff (wp_options s1))
               (chunk_retry_attempts (wp_options s1) - Suc left)\<rparr>)
      | (r, s1) \<Rightarrow> (r, s1))"

text \<open>The loop over the chunks.  The chunk size is never zero; the loop would not end then.\<close>

function upload_loop ::
  "'b wp_env \<Rightarrow> u64 \<Rightarrow> string \<Rightarrow> string \<Rightarrow> byte list \<Rightarrow> nat \<Rightarrow> u64 \<Rightarrow> nat \<Rightarrow> nat \<Rightarrow> ('b, unit) wp_method" where
  "upload_loop env ino logical_path blob_name bytes total_size upload_id chunk_bytes offset s =
     (if offset < total_size \<and> chunk_bytes > 0 then
        let want = min chunk_bytes (total_size - offset);
            chunk = take want (drop offset bytes)
        in if length chunk < want then (Err (WpUpload ''read staging blob''), s)
           else
             (case and_then (send_chunk env upload_id offset chunk (chunk_retry_attempts (wp_options s))) (\<lambda>_.
                 and_then (journal_append env (OpChunkAck logical_path upload_id (of_nat offset) (of_nat want))) (\<lambda>_ s.
                 save_progress ino \<lparr>up_upload_id = upload_id, up_blob_name = blob_name, up_total_size = total_size,
                   up_acked_offset = offset + want, up_heartbeat = now_unix_secs s\<rparr> s)) s of
                (Inl e, s1) \<Rightarrow> (Err e, s1)
              | (Inr _, s1) \<Rightarrow>
                  upload_loop env ino logical_path blob_name bytes total_size upload_id chunk_bytes (offset + want) s1)
      else (Ok (), s))"
  by pat_completeness auto
termination
  by (relation "measure (\<lambda>(env, ino, lp, bn, bytes, total, uid, cb, offset, s). total - offset)") auto

declare upload_loop.simps [simp del]

definition fresh_session ::
  "'b wp_env \<Rightarrow> u64 \<Rightarrow> string \<Rightarrow> string \<Rightarrow> string \<Rightarrow> nat \<Rightarrow> ('b, u64 \<times> nat) wp_method" where
  "fresh_session env ino parent name blob_name total_size =
     and_then (on_backend (\<lambda>b. be_upload_create env b parent name)) (\<lambda>id s.
     and_then (save_progress ino \<lparr>up_upload_id = id, up_blob_name = blob_name, up_total_size = total_size,
         up_acked_offset = 0, up_heartbeat = now_unix_secs s\<rparr>) (\<lambda>_. returns (id, 0)) s)"

definition session_start ::
  "'b wp_env \<Rightarrow> u64 \<Rightarrow> string \<Rightarrow> string \<Rightarrow> string \<Rightarrow> nat \<Rightarrow> ('b, u64 \<times> nat) wp_method" where
  "session_start env ino parent name blob_name total_size s =
     (case load_progress ino s of
        Inl e \<Rightarrow> (Err e, s)
      | Inr None \<Rightarrow> fresh_session env ino parent name blob_name total_size s
      | Inr (Some p) \<Rightarrow>
          if up_blob_name p = blob_name \<and> up_total_size p = total_size
          then (Ok (up_upload_id p, up_acked_offset p), s)
          else fresh_session env ino parent name blob_name total_size s)"

definition run_chunked_session ::
  "'b wp_env \<Rightarrow> u64 \<Rightarrow> string \<Rightarrow> string \<Rightarrow> string \<Rightarrow> nat \<Rightarrow> ('b, unit) wp_method" where
  "run_chunked_session env ino parent name blob_name total_size =
     and_then (session_start env ino parent name blob_name total_size) (\<lambda>(upload_id, resume_offset) s.
       let chunk_bytes = (if chunk_size_bytes (wp_options s) = 0 then DEFAULT_CHUNK_SIZE_BYTES
             else chunk_size_bytes (wp_options s))
       in (case open_blob blob_name (wp_blobs s) of
         Inl e \<Rightarrow> (Err (WpUpload ''open staging blob''), s)
       | Inr bytes \<Rightarrow>
           and_then (upload_loop env ino (join_path parent name) blob_name bytes total_size upload_id chunk_bytes resume_offset) (\<lambda>_.
           and_then (on_backend (\<lambda>b. be_upload_save env b upload_id parent name total_size)) (\<lambda>_ s.
             returns () (remove_progress ino s))) s))"

text \<open>At most \<open>n\<close> new sessions after permanent failures.\<close>

primrec session_attempts ::
  "'b wp_env \<Rightarrow> u64 \<Rightarrow> string \<Rightarrow> string \<Rightarrow> string \<Rightarrow> nat \<Rightarrow> nat \<Rightarrow> ('b, unit) wp_method" where
  "session_attempts env ino parent name blob_name total_size 0 s =
     run_chunked_session env ino parent name blob_name total_size s"
| "session_attempts env ino parent name blob_name total_size (Suc n) s =
     (case run_chunked_session env ino parent name blob_name total_size s of
        (Inl (WpUploadPermanent msg), s1) \<Rightarrow>
          session_attempts env ino parent name blob_name total_size n (remove_progress ino s1)
      | (r, s1) \<Rightarrow> (r, s1))"

definition chunked_flush :: "'b wp_env \<Rightarrow> u64 \<Rightarrow> ('b, unit) wp_method" where
  "chunked_flush env ino =
     and_then (get_handle ino) (\<lambda>h.
       (case split_parent_name (wh_path h) of
          None \<Rightarrow> fails (WpInvalid ''path has no parent'')
        | Some (parent, name) \<Rightarrow>
            and_then (journal_append env (OpFlushBarrier (wh_path h))) (\<lambda>_ s.
              if \<not> blob_name_ok (wh_blob_name h) then fails (WpStaging StagingInvalidName) s
              else (case wp_blobs s (wh_blob_name h) of
                None \<Rightarrow> fails (WpUpload ''staging metadata'') s
              | Some bytes \<Rightarrow>
                  and_then (session_attempts env ino parent name (wh_blob_name h) (length bytes) 1)
                    (\<lambda>_ s. returns () (reset_dirty ino s)) s))))"

section \<open>Writing\<close>

text \<open>The two ceilings; the second one reserves the bytes it admits.\<close>

definition within_staging_limit :: "write_path_options \<Rightarrow> nat \<Rightarrow> nat \<Rightarrow> bool" where
  "within_staging_limit opts offset n \<longleftrightarrow>
     \<not> (max_staging_bytes opts < usize_max \<and> min (offset + n) (2 ^ 64 - 1) > max_staging_bytes opts)"

definition reserve_global :: "nat \<Rightarrow> ('b, unit) wp_method" where
  "reserve_global n s =
     (let mx = max_global_staging_bytes (wp_options s) in
      if mx < usize_max then
        if min (wp_global s + n) usize_max > mx
        then (Err (WpInvalid ''write would exceed process-wide max_global_staging_bytes ceiling''), s)
        else (Ok (), s\<lparr>wp_global := wp_global s + n\<rparr>)
      else (Ok (), s))"

definition effective_offset :: "write_handle \<Rightarrow> nat \<Rightarrow> 'b write_path \<Rightarrow> nat" where
  "effective_offset h offset s =
     (if wh_append_mode h then (case wp_blobs s (wh_blob_name h) of None \<Rightarrow> 0 | Some bs \<Rightarrow> length bs) else offset)"

definition after_write :: "'b wp_env \<Rightarrow> u64 \<Rightarrow> write_handle \<Rightarrow> nat \<Rightarrow> nat \<Rightarrow> ('b, nat) wp_method" where
  "after_write env ino h dirty n s =
     (let size_trigger = dirty \<ge> flush_threshold_bytes (wp_options s);
          time_trigger = wp_mono s - wh_last_flush h \<ge> flush_interval (wp_options s)
      in if size_trigger then
           (case chunked_flush env ino s of
              (Inr _, s1) \<Rightarrow> (Ok n, s1)
            | (Inl (WpUpload msg), s1) \<Rightarrow>
                if msg = CHUNKED_NOT_SUPPORTED then and_then (flush env ino) (\<lambda>_. returns n) s1
                else (Err (WpUpload msg), s1)
            | (Inl e, s1) \<Rightarrow> (Err e, s1))
         else if time_trigger then and_then (flush env ino) (\<lambda>_. returns n) s
         else (Ok n, s))"

definition write_file :: "'b wp_env \<Rightarrow> u64 \<Rightarrow> nat \<Rightarrow> byte list \<Rightarrow> ('b, nat) wp_method" where
  "write_file env ino offset data =
     and_then (get_handle ino) (\<lambda>h s.
       let off = effective_offset h offset s; n = length data in
       if \<not> within_staging_limit (wp_options s) off n
       then fails (WpInvalid ''write would exceed max_staging_bytes ceiling'') s
       else
         and_then (reserve_global n) (\<lambda>_.
         and_then (on_stage (\<lambda>fault. write_blob_at fault (wh_blob_name h) off data)) (\<lambda>_.
         and_then (journal_append env (OpWrite (wh_path h) (of_nat off) (of_nat n) (wh_blob_name h))) (\<lambda>_ s.
           let dirty = min (wh_dirty_bytes h + n) (2 ^ 64 - 1) in
           after_write env ino h dirty n
             (s\<lparr>wp_handles := (wp_handles s)(ino \<mapsto> h\<lparr>wh_dirty_bytes := dirty\<rparr>)\<rparr>)))) s)"

definition truncate_file :: "'b wp_env \<Rightarrow> u64 \<Rightarrow> nat \<Rightarrow> ('b, unit) wp_method" where
  "truncate_file env ino new_size =
     and_then (get_handle ino) (\<lambda>h.
     and_then (on_stage (\<lambda>fault. truncate_blob fault (wh_blob_name h) new_size)) (\<lambda>_.
     and_then (journal_append env (OpTruncate (wh_path h) (of_nat new_size))) (\<lambda>_. returns ())))"

definition unlink_file :: "'b wp_env \<Rightarrow> u64 option \<Rightarrow> string \<Rightarrow> ('b, unit) wp_method" where
  "unlink_file env ino path =
     and_then (journal_append env (OpUnlink path)) (\<lambda>_ s.
     and_then (on_backend (\<lambda>b. be_unlink_remote env b path)) (\<lambda>_. returns ())
       (case ino of
          None \<Rightarrow> s
        | Some i \<Rightarrow>
            let s1 = snd (on_stage (\<lambda>fault. remove_blob fault (blob_name_for_ino i)) s)
            in s1\<lparr>wp_handles := (wp_handles s1)(i := None)\<rparr>))"

definition rename_file :: "'b wp_env \<Rightarrow> string \<Rightarrow> string \<Rightarrow> ('b, unit) wp_method" where
  "rename_file env from to =
     and_then (journal_append env (OpRename from to)) (\<lambda>_.
     and_then (on_backend (\<lambda>b. be_rename_remote env b from to)) (\<lambda>_ s.
       returns () (s\<lparr>wp_handles := (\<lambda>ino. map_option (\<lambda>h. if wh_path h = from then h\<lparr>wh_path := to\<rparr> else h) (wp_handles s ino))\<rparr>)))"

text \<open>\<open>order\<close> is the order in which the hash map of handles is iterated.\<close>

definition due_for_flush :: "'b write_path \<Rightarrow> u64 \<Rightarrow> bool" where
  "due_for_flush s ino \<longleftrightarrow>
     (case wp_handles s ino of
        None \<Rightarrow> False
      | Some h \<Rightarrow> wh_dirty_bytes h > 0 \<and> wp_mono s - wh_last_flush h \<ge> flush_interval (wp_options s))"

primrec flush_each :: "'b wp_env \<Rightarrow> u64 list \<Rightarrow> ('b, unit) wp_method" where
  "flush_each env [] s = (Ok (), s)"
| "flush_each env (ino # inos) s = and_then (flush env ino) (\<lambda>_. flush_each env inos) s"

definition wp_tick :: "'b wp_env \<Rightarrow> u64 list \<Rightarrow> ('b, unit) wp_method" where
  "wp_tick env order s = flush_each env (filter (due_for_flush s) order) s"

primrec drain_each ::
  "'b wp_env \<Rightarrow> u64 list \<Rightarrow> 'b write_path \<Rightarrow> (u64 \<times> (write_path_error, unit) result) list \<times> 'b write_path" where
  "drain_each env [] s = ([], s)"
| "drain_each env (ino # inos) s =
     (let (r, s1) = flush env ino s; (rs, s2) = drain_each env inos s1 in ((ino, r) # rs, s2))"

definition is_dirty :: "'b write_path \<Rightarrow> u64 \<Rightarrow> bool" where
  "is_dirty s ino \<longleftrightarrow> (case wp_handles s ino of None \<Rightarrow> False | Some h \<Rightarrow> wh_dirty_bytes h > 0)"

definition drain_all ::
  "'b wp_env \<Rightarrow> u64 list \<Rightarrow> 'b write_path \<Rightarrow> (u64 \<times> (write_path_error, unit) result) list \<times> 'b write_path" where
  "drain_all env order s = drain_each env (filter (is_dirty s) order) s"

definition open_inode_count :: "'b write_path \<Rightarrow> nat" where
  "open_inode_count s = card (dom (wp_handles s))"

definition has_open_handle :: "'b write_path \<Rightarrow> u64 \<Rightarrow> bool" where
  "has_open_handle s ino \<longleftrightarrow> wp_handles s ino \<noteq> None"

definition read_staged :: "u64 \<Rightarrow> nat \<Rightarrow> nat \<Rightarrow> 'b write_path \<Rightarrow> (write_path_error, byte list) result" where
  "read_staged ino offset n s =
     (case wp_handles s ino of
        None \<Rightarrow> Err (WpNotOpen ino)
      | Some h \<Rightarrow>
          (case read_blob (wh_blob_name h) (wp_blobs s) of
             Inl e \<Rightarrow> Err (WpStaging e)
           | Inr bytes \<Rightarrow> if offset \<ge> length bytes then Ok [] else Ok (take n (drop offset bytes))))"

definition total_dirty_bytes :: "'b write_path \<Rightarrow> nat" where
  "total_dirty_bytes s = (\<Sum>ino \<in> dom (wp_handles s). wh_dirty_bytes (the (wp_handles s ino)))"

section \<open>Interrupted uploads at start-up\<close>

datatype resume_outcome =
    Resumed u64 u64 nat | ServerAhead u64 u64 nat | SidecarTrimmed u64 u64 nat | Expired u64 u64
  | Stalled u64 u64 nat | Unparseable u64 | BackendError u64 u64

definition idle_for_if_stalled :: "upload_progress \<Rightarrow> nat \<Rightarrow> nat \<Rightarrow> nat option" where
  "idle_for_if_stalled p now_secs heartbeat_timeout =
     (if up_heartbeat p = 0 then None
      else let idle = now_secs - up_heartbeat p in if idle \<ge> heartbeat_timeout then Some idle else None)"

definition rewrite_progress ::
  "u64 \<Rightarrow> upload_progress \<Rightarrow> nat \<Rightarrow> nat \<Rightarrow> resume_outcome \<Rightarrow> 'b write_path \<Rightarrow> resume_outcome \<times> 'b write_path" where
  "rewrite_progress ino p acked now outcome s =
     (case save_progress ino (p\<lparr>up_acked_offset := acked, up_heartbeat := now\<rparr>) s of
        (Inl e, s1) \<Rightarrow> (BackendError ino (up_upload_id p), s1)
      | (Inr _, s1) \<Rightarrow> (outcome, s1))"

definition reconcile_sidecar ::
  "'b wp_env \<Rightarrow> nat \<Rightarrow> nat \<Rightarrow> u64 \<Rightarrow> upload_progress \<Rightarrow> 'b write_path \<Rightarrow> resume_outcome \<times> 'b write_path" where
  "reconcile_sidecar env now heartbeat_timeout ino p s =
     (let id = up_upload_id p; acked = up_acked_offset p in
      case be_upload_status env (wp_backend s) id of
        Inl e \<Rightarrow>
          if e = WpUpload STATUS_NOT_SUPPORTED \<or> e = WpUpload CHUNKED_NOT_SUPPORTED then
            (case idle_for_if_stalled p now heartbeat_timeout of
               Some idle \<Rightarrow> (Stalled ino id idle, remove_progress ino s)
             | None \<Rightarrow> (Resumed ino id acked, s))
          else (BackendError ino id, s)
      | Inr StatusNotFound \<Rightarrow> (Expired ino id, remove_progress ino s)
      | Inr (StatusBytes server_bytes) \<Rightarrow>
          (case (if server_bytes > acked then None else idle_for_if_stalled p now heartbeat_timeout) of
             Some idle \<Rightarrow> (Stalled ino id idle, remove_progress ino s)
           | None \<Rightarrow>
               if server_bytes = acked then (Resumed ino id acked, s)
               else if server_bytes > acked then
                 let new_offset = min server_bytes (up_total_size p)
                 in rewrite_progress ino p new_offset now (ServerAhead ino id new_offset) s
               else rewrite_progress ino p server_bytes now (SidecarTrimmed ino id server_bytes) s))"

primrec replay_sidecars ::
  "'b wp_env \<Rightarrow> nat \<Rightarrow> nat \<Rightarrow> u64 list \<Rightarrow> 'b write_path \<Rightarrow> resume_outcome list \<times> 'b write_path" where
  "replay_sidecars env now heartbeat_timeout [] s = ([], s)"
| "replay_sidecars env now heartbeat_timeout (ino # inos) s =
     (case load_progress ino s of
        Inl e \<Rightarrow>
          (let (os, s1) = replay_sidecars env now heartbeat_timeout inos s in (Unparseable ino # os, s1))
      | Inr None \<Rightarrow> replay_sidecars env now heartbeat_timeout inos s
      | Inr (Some p) \<Rightarrow>
          (let (out, s1) = reconcile_sidecar env now heartbeat_timeout ino p s;
               (os, s2) = replay_sidecars env now heartbeat_timeout inos s1 in (out # os, s2)))"

definition replay_upload_sidecars ::
  "'b wp_env \<Rightarrow> nat \<Rightarrow> u64 list \<Rightarrow> 'b write_path \<Rightarrow> resume_outcome list \<times> 'b write_path" where
  "replay_upload_sidecars env heartbeat_timeout order s =
     replay_sidecars env (now_unix_secs s) heartbeat_timeout order s"

primrec enumerate_upload_sidecars :: "'b write_path \<Rightarrow> u64 list \<Rightarrow> resume_outcome list" where
  "enumerate_upload_sidecars s [] = []"
| "enumerate_upload_sidecars s (ino # inos) =
     (case load_progress ino s of
        Inl e \<Rightarrow> Unparseable ino # enumerate_upload_sidecars s inos
      | Inr None \<Rightarrow> enumerate_upload_sidecars s inos
      | Inr (Some p) \<Rightarrow> Resumed ino (up_upload_id p) (up_acked_offset p) # enumerate_upload_sidecars s inos)"

end
