(* ===== verification/Upload_Contract.thy ===== *)
theory Upload_Contract
  imports Write_Path
begin

text \<open>
  What the write path may rely on of the upload server, as the locale \<open>upload_server\<close>, and
  the content a chunked upload leaves there: which bytes come from the local file and
  which from an earlier, interrupted attempt.
\<close>

section \<open>Bookkeeping of methods\<close>

lemma and_then_Ok:
  assumes "and_then m f s = (Ok y, s')"
  obtains x s1 where "m s = (Ok x, s1)" "f x s1 = (Ok y, s')"
  using assms by (auto simp: and_then_def split: prod.splits sum.splits)

lemma and_then_cases:
  assumes "and_then m f s = (r, s')"
  obtains e where "m s = (Err e, s')" "r = Err e"
  | x s1 where "m s = (Ok x, s1)" "f x s1 = (r, s')"
  using assms by (auto simp: and_then_def split: prod.splits sum.splits)

lemma returns_simps [simp]: "returns x s = (Ok x, s)" "fails e s = (Err e, s)"
  by (simp_all add: returns_def fails_def)

text \<open>A disk operation takes at most one fault from the list and touches one part of the
  state.\<close>

lemma next_fault_fields:
  assumes "next_fault s = (f, s1)"
  shows "wp_options s1 = wp_options s" "wp_blobs s1 = wp_blobs s" "wp_journal s1 = wp_journal s"
    "wp_handles s1 = wp_handles s" "wp_sidecars s1 = wp_sidecars s" "wp_backend s1 = wp_backend s"
    "wp_global s1 = wp_global s" "wp_mono s1 = wp_mono s"
  using assms by (auto simp: next_fault_def split: list.splits)

text \<open>The parts of the state that belong to the files and handles of this process.\<close>

definition same_files :: "'b write_path \<Rightarrow> 'b write_path \<Rightarrow> bool" where
  "same_files s s' \<longleftrightarrow> wp_blobs s' = wp_blobs s \<and> wp_handles s' = wp_handles s \<and> wp_options s' = wp_options s
     \<and> wp_global s' = wp_global s"

lemma same_files_refl [simp]: "same_files s s"
  by (simp add: same_files_def)

lemma same_files_trans: "same_files s s1 \<Longrightarrow> same_files s1 s2 \<Longrightarrow> same_files s s2"
  by (simp add: same_files_def)

lemma journal_append_frame:
  assumes "journal_append env jop s = (r, s')"
  shows "same_files s s'" "wp_sidecars s' = wp_sidecars s" "wp_backend s' = wp_backend s" "wp_mono s' = wp_mono s"
  using assms
  by (auto simp: journal_append_def same_files_def dest: next_fault_fields split: prod.splits sum.splits)

lemma save_progress_frame:
  assumes "save_progress ino p s = (r, s')"
  shows "same_files s s'" "wp_backend s' = wp_backend s"
    "r = Ok () \<Longrightarrow> wp_sidecars s' = (wp_sidecars s)(ino \<mapsto> SideProgress p)"
    "r = Err e \<Longrightarrow> wp_sidecars s' = wp_sidecars s"
  using assms
  by (auto simp: save_progress_def same_files_def dest: next_fault_fields split: prod.splits io_fault.splits)

lemma remove_progress_frame:
  "same_files s (remove_progress ino s)" "wp_backend (remove_progress ino s) = wp_backend s"
  "wp_sidecars (remove_progress ino s) = (wp_sidecars s)(ino := None) \<or> wp_sidecars (remove_progress ino s) = wp_sidecars s"
  by (auto simp: remove_progress_def same_files_def dest: next_fault_fields split: prod.splits io_fault.splits)

lemma on_backend_frame:
  assumes "on_backend f s = (r, s')"
  shows "same_files s s'" "wp_sidecars s' = wp_sidecars s" "f (wp_backend s) = (r, wp_backend s')"
  using assms by (auto simp: on_backend_def same_files_def split: prod.splits)

lemma release_global_frame [simp]:
  "wp_backend (release_global n s) = wp_backend s" "wp_sidecars (release_global n s) = wp_sidecars s"
  "wp_blobs (release_global n s) = wp_blobs s" "wp_options (release_global n s) = wp_options s"
  "wp_journal (release_global n s) = wp_journal s" "wp_mono (release_global n s) = wp_mono s"
  "wp_handles (release_global n s) = wp_handles s"
  by (simp_all add: release_global_def)

lemma reset_dirty_frame [simp]:
  "wp_backend (reset_dirty ino s) = wp_backend s" "wp_sidecars (reset_dirty ino s) = wp_sidecars s"
  "wp_blobs (reset_dirty ino s) = wp_blobs s" "wp_options (reset_dirty ino s) = wp_options s"
  "wp_journal (reset_dirty ino s) = wp_journal s" "wp_mono (reset_dirty ino s) = wp_mono s"
  by (simp_all add: reset_dirty_def Let_def split: option.split)

lemma reset_dirty_handle:
  "wp_handles s ino = Some h \<Longrightarrow>
     wp_handles (reset_dirty ino s) = (wp_handles s)(ino \<mapsto> h\<lparr>wh_dirty_bytes := 0, wh_last_flush := wp_mono s\<rparr>)"
  by (simp add: reset_dirty_def Let_def)

lemma join_split:
  assumes "split_parent_name path = Some (parent, name)" and "canonical path"
  shows "join_path parent name = path"
proof -
  from assms(1) obtain idx where i: "rfind (CHR ''/'') path = Some idx" "name = drop (idx + 1) path"
      "parent = (if idx = 0 then ''/'' else take idx path)"
    by (auto simp: split_parent_name_def Let_def split: if_splits option.splits)
  from i(1) obtain u v where u: "path = u @ CHR ''/'' # v" "idx = length u" by (rule rfind_Some)
  from assms(2) obtain segs where segs: "list_all plain_name segs" "path = render segs" by (auto simp: canonical_def)
  have "u \<noteq> ''/''"
  proof
    assume "u = ''/''"
    with u segs(2) have r: "render segs = CHR ''/'' # CHR ''/'' # v" by simp
    then obtain w ws where "segs = w # ws" by (cases segs) (auto simp: render_def)
    with r segs(1) show False by (cases w) (auto simp: render_def plain_name_def)
  qed
  with i u show ?thesis by (auto simp: join_path_def)
qed

section \<open>The server\<close>

text \<open>The first \<open>off\<close> bytes of the session are those of \<open>target\<close>, and it is not longer.\<close>

definition received :: "('b \<Rightarrow> u64 \<rightharpoonup> byte list) \<Rightarrow> 'b \<Rightarrow> u64 \<Rightarrow> nat \<Rightarrow> byte list \<Rightarrow> bool" where
  "received session b uid off target \<longleftrightarrow>
     (\<forall>bs. session b uid = Some bs \<longrightarrow> off \<le> length bs \<and> length bs \<le> length target \<and> take off bs = take off target)"

definition progress_for :: "upload_progress \<Rightarrow> u64 \<Rightarrow> string \<Rightarrow> nat \<Rightarrow> bool" where
  "progress_for p uid bn n \<longleftrightarrow> up_upload_id p = uid \<and> up_blob_name p = bn \<and> up_total_size p = n"

text \<open>What a session that starts in a state uploads: after a matching progress file the bytes
  received before, followed by the rest of the local file; otherwise the local file.\<close>

definition resumable :: "u64 \<Rightarrow> string \<Rightarrow> nat \<Rightarrow> 'b write_path \<Rightarrow> upload_progress \<Rightarrow> bool" where
  "resumable ino bn n s p \<longleftrightarrow>
     wp_sidecars s ino = Some (SideProgress p) \<and> up_blob_name p = bn \<and> up_total_size p = n"

definition sound_resume :: "('b \<Rightarrow> u64 \<rightharpoonup> byte list) \<Rightarrow> u64 \<Rightarrow> string \<Rightarrow> byte list \<Rightarrow> byte list \<Rightarrow> 'b write_path \<Rightarrow> bool" where
  "sound_resume session ino bn bytes target s \<longleftrightarrow> length target = length bytes
     \<and> (\<forall>p. resumable ino bn (length bytes) s p \<longrightarrow> up_acked_offset p \<le> length bytes
          \<and> drop (up_acked_offset p) bytes = drop (up_acked_offset p) target
          \<and> received session (wp_backend s) (up_upload_id p) (up_acked_offset p) target)
     \<and> ((\<nexists>p. resumable ino bn (length bytes) s p) \<longrightarrow> target = bytes)"

text \<open>A progress file left for this content: the server holds its first bytes.\<close>

abbreviation faithful :: "('b \<Rightarrow> u64 \<rightharpoonup> byte list) \<Rightarrow> u64 \<Rightarrow> string \<Rightarrow> byte list \<Rightarrow> 'b write_path \<Rightarrow> bool" where
  "faithful session ino bn bytes \<equiv> sound_resume session ino bn bytes bytes"

text \<open>\<open>remote\<close> gives the files of the account by path, \<open>session\<close> the bytes received for an
  upload that is not finished.  A failed request may have had its effect or not, and a
  session may disappear when one fails.\<close>

locale upload_server =
  fixes env :: "'b wp_env"
    and remote :: "'b \<Rightarrow> string \<rightharpoonup> byte list"
    and session :: "'b \<Rightarrow> u64 \<rightharpoonup> byte list"
  assumes create_Ok: "be_upload_create env b parent name = (Ok uid, b') \<Longrightarrow>
      session b' = (session b)(uid \<mapsto> []) \<and> remote b' = remote b"
    and create_Err: "be_upload_create env b parent name = (Err e, b') \<Longrightarrow> session b' = session b \<and> remote b' = remote b"
    and write_Ok: "be_upload_write env b uid off chunk = (Ok (), b') \<Longrightarrow>
      \<exists>bs. session b uid = Some bs \<and> session b' = (session b)(uid \<mapsto> write_at bs off chunk) \<and> remote b' = remote b"
    and write_Err: "be_upload_write env b uid off chunk = (Err e, b') \<Longrightarrow> remote b' = remote b \<and>
      (\<forall>i bs. session b' i = Some bs \<longrightarrow> session b i = Some bs
         \<or> i = uid \<and> (\<exists>old. session b uid = Some old \<and> bs = write_at old off chunk))"
    and save_Ok: "be_upload_save env b uid parent name n = (Ok (), b') \<Longrightarrow>
      \<exists>bs. session b uid = Some bs \<and> length bs = n \<and> remote b' = (remote b)(join_path parent name \<mapsto> bs)
        \<and> (\<forall>i bs. session b' i = Some bs \<longrightarrow> session b i = Some bs)"
    and save_Err: "be_upload_save env b uid parent name n = (Err e, b') \<Longrightarrow>
      \<forall>i bs. session b' i = Some bs \<longrightarrow> session b i = Some bs"
    and file_Ok: "be_upload_file env b parent name bytes = (Ok (), b') \<Longrightarrow>
      remote b' = (remote b)(join_path parent name \<mapsto> bytes) \<and> session b' = session b"
    and file_Err: "be_upload_file env b parent name bytes = (Err e, b') \<Longrightarrow> session b' = session b"
begin

lemma received_shorter: "received session b uid off target \<Longrightarrow> off' \<le> off \<Longrightarrow> received session b uid off' target"
  unfolding received_def by (metis (no_types, lifting) dual_order.trans min_def take_take)

lemma received_all:
  assumes "received session b uid (length target) target" and "session b uid = Some bs"
  shows "bs = target"
  using assms by (auto simp: received_def)

lemma write_at_chunk:
  assumes "off \<le> length bs" "length bs \<le> length target" "take off bs = take off target" "off + n \<le> length target"
  shows "take (off + n) (write_at bs off (take n (drop off target))) = take (off + n) target"
    and "length (write_at bs off (take n (drop off target))) \<le> length target"
    and "off + n \<le> length (write_at bs off (take n (drop off target)))"
proof -
  have "take (off + n) target = take off target @ take n (drop off target)" by (simp add: take_add)
  with assms show "take (off + n) (write_at bs off (take n (drop off target))) = take (off + n) target"
    by (simp add: write_at_def)
qed (use assms in \<open>simp_all add: length_write_at\<close>)

lemma received_write:
  assumes "received session b uid off target" and "off + n \<le> length target"
    and "be_upload_write env b uid off (take n (drop off target)) = (r, b')"
  shows "received session b' uid off target" and "remote b' = remote b" and "r = Ok () \<Longrightarrow> received session b' uid (off + n) target"
    and "r = Ok () \<Longrightarrow> session b' uid \<noteq> None"
proof -
  have step: "received session b' uid (off + n) target \<and> remote b' = remote b \<and> session b' uid \<noteq> None" if "r = Ok ()"
    using write_Ok [OF assms(3) [unfolded that]] assms(1,2) write_at_chunk [of off _ target n]
    by (auto simp: received_def)
  then show "r = Ok () \<Longrightarrow> received session b' uid (off + n) target" "r = Ok () \<Longrightarrow> session b' uid \<noteq> None" by simp_all
  show "received session b' uid off target"
  proof (cases r)
    case (Inl e)
    show ?thesis unfolding received_def
    proof (intro allI impI)
      fix bs assume bs: "session b' uid = Some bs"
      then consider "session b uid = Some bs"
        | old where "session b uid = Some old" "bs = write_at old off (take n (drop off target))"
        using write_Err [OF assms(3) [unfolded Inl]] by blast
      then show "off \<le> length bs \<and> length bs \<le> length target \<and> take off bs = take off target"
      proof cases
        case 2
        with assms(1) have "off \<le> length old" "length old \<le> length target" "take off old = take off target"
          by (auto simp: received_def)
        with 2 write_at_chunk(2,3) [OF this assms(2)] write_at_prefix [OF order_refl this(1)] show ?thesis by simp
      qed (use assms(1) in \<open>simp add: received_def\<close>)
    qed
  qed (use step received_shorter in auto)
  show "remote b' = remote b"
    using step write_Err assms(3) by (cases r) auto
qed

lemma send_chunk_received:
  assumes "send_chunk env uid off (take n (drop off target)) left s = (r, s')"
    and "received session (wp_backend s) uid off target" and "off + n \<le> length target"
  shows "same_files s s' \<and> wp_sidecars s' = wp_sidecars s \<and> received session (wp_backend s') uid off target
    \<and> remote (wp_backend s') = remote (wp_backend s)
    \<and> (r = Ok () \<longrightarrow> received session (wp_backend s') uid (off + n) target \<and> session (wp_backend s') uid \<noteq> None)"
  using assms(1,2)
proof (induction left arbitrary: s)
  case 0
  obtain q s1 where o: "on_backend (\<lambda>b. be_upload_write env b uid off (take n (drop off target))) s = (q, s1)" by fastforce
  note w = received_write [OF "0.prems"(2) assms(3) on_backend_frame(3) [OF o]]
  from "0.prems"(1) o have "s' = s1 \<and> (r = q \<or> (\<exists>e. r = Err e))"
    by (auto split: sum.splits write_path_error.splits)
  with w on_backend_frame(1,2) [OF o] show ?case by auto
next
  case (Suc left)
  obtain q s1 where o: "on_backend (\<lambda>b. be_upload_write env b uid off (take n (drop off target))) s = (q, s1)" by fastforce
  note w = received_write [OF Suc.prems(2) assms(3) on_backend_frame(3) [OF o]]
  note f = on_backend_frame(1,2) [OF o]
  show ?case
  proof (cases "\<exists>msg. q = Err (WpUploadTransient msg)")
    case True
    define s2 where "s2 = s1\<lparr>wp_mono := wp_mono s1 + exp_backoff (chunk_retry_initial_backoff (wp_options s1))
               (chunk_retry_attempts (wp_options s1) - Suc left)\<rparr>"
    have eq: "wp_backend s2 = wp_backend s1" "wp_sidecars s2 = wp_sidecars s1" "same_files s1 s2"
      by (simp_all add: s2_def same_files_def)
    from Suc.prems(1) o True have "send_chunk env uid off (take n (drop off target)) left s2 = (r, s')"
      by (auto simp: s2_def)
    from Suc.IH [OF this] w(1) eq have "same_files s2 s' \<and> wp_sidecars s' = wp_sidecars s2 \<and> received session (wp_backend s') uid off target
      \<and> remote (wp_backend s') = remote (wp_backend s2)
      \<and> (r = Ok () \<longrightarrow> received session (wp_backend s') uid (off + n) target \<and> session (wp_backend s') uid \<noteq> None)" by simp
    with eq f w(2) show ?thesis using same_files_trans by (metis (no_types, lifting))
  next
    case False
    with Suc.prems(1) o have "s' = s1" "r = q" by (auto split: sum.splits write_path_error.splits)
    with w f show ?thesis by auto
  qed
qed

text \<open>One turn of the loop: the chunk is sent, recorded and the progress file replaced.\<close>

lemma chunk_turn:
  assumes "and_then (send_chunk env uid off (take n (drop off target)) left) (\<lambda>_.
       and_then (journal_append env jop) (\<lambda>_ s. save_progress ino (p s) s)) s = (r, s')"
    and "received session (wp_backend s) uid off target" and "off + n \<le> length target"
  shows "same_files s s' \<and> remote (wp_backend s') = remote (wp_backend s) \<and> received session (wp_backend s') uid off target
    \<and> (r = Ok () \<longrightarrow> received session (wp_backend s') uid (off + n) target \<and> session (wp_backend s') uid \<noteq> None
         \<and> (\<exists>s0. wp_sidecars s' = (wp_sidecars s)(ino \<mapsto> SideProgress (p s0))))
    \<and> ((\<exists>e. r = Err e) \<longrightarrow> wp_sidecars s' = wp_sidecars s)"
proof -
  obtain q1 s1 where m1: "send_chunk env uid off (take n (drop off target)) left s = (q1, s1)" by fastforce
  note w = send_chunk_received [OF m1 assms(2,3)]
  show ?thesis
  proof (cases q1)
    case (Inl e)
    with assms(1) m1 w show ?thesis by (auto simp: and_then_def)
  next
    case (Inr u)
    obtain q2 s2 where m2: "journal_append env jop s1 = (q2, s2)" by fastforce
    note j = journal_append_frame [OF m2]
    show ?thesis
    proof (cases q2)
      case (Inl e)
      with assms(1) m1 m2 Inr w j show ?thesis by (auto simp: and_then_def intro: same_files_trans)
    next
      case (Inr v)
      with assms(1) m1 m2 \<open>q1 = _\<close> have m3: "save_progress ino (p s2) s2 = (r, s')" by (simp add: and_then_def)
      note f = save_progress_frame [OF m3]
      have "same_files s s'" using w j f same_files_trans by blast
      with w j f \<open>q1 = _\<close> show ?thesis by (cases r) auto
    qed
  qed
qed

lemma upload_loop_received:
  assumes "upload_loop env ino lp bn bytes (length target) uid cb off s = (r, s')"
    and "off \<le> length target" "cb > 0" "drop off bytes = drop off target"
    and "received session (wp_backend s) uid off target"
    and "wp_sidecars s ino = Some (SideProgress p)" "progress_for p uid bn (length target)" "up_acked_offset p = off"
  shows "same_files s s' \<and> remote (wp_backend s') = remote (wp_backend s)
    \<and> (\<exists>p'. wp_sidecars s' ino = Some (SideProgress p') \<and> progress_for p' uid bn (length target)
         \<and> up_acked_offset p' \<le> length target \<and> received session (wp_backend s') uid (up_acked_offset p') target)
    \<and> (r = Ok () \<longrightarrow> received session (wp_backend s') uid (length target) target)"
  using assms
proof (induction "length target - off" arbitrary: off s p rule: less_induct)
  case less
  show ?case
  proof (cases "off < length target")
    case False
    with less.prems show ?thesis
      by (subst (asm) upload_loop.simps) (auto simp: progress_for_def)
  next
    case True
    define want where "want = min cb (length target - off)"
    have want: "0 < want" "off + want \<le> length target" using True less.prems(3) by (auto simp: want_def)
    have chunk: "take want (drop off bytes) = take want (drop off target)" using less.prems(4) by simp
    have len: "length (take want (drop off target)) = want" using want by simp
    have lb: "length bytes - off = length target - off" using less.prems(4) by (metis length_drop)
    define prog where "prog = (\<lambda>s :: 'b write_path. \<lparr>up_upload_id = uid, up_blob_name = bn,
      up_total_size = length target, up_acked_offset = off + want, up_heartbeat = now_unix_secs s\<rparr>)"
    obtain q s1 where t: "and_then (send_chunk env uid off (take want (drop off target)) (chunk_retry_attempts (wp_options s))) (\<lambda>_.
       and_then (journal_append env (OpChunkAck lp uid (of_nat off) (of_nat want))) (\<lambda>_ s. save_progress ino (prog s) s)) s = (q, s1)"
      by fastforce
    note turn = chunk_turn [OF t less.prems(5) want(2)]
    have step: "upload_loop env ino lp bn bytes (length target) uid cb off s =
        (case q of Inl e \<Rightarrow> (Err e, s1)
         | Inr _ \<Rightarrow> upload_loop env ino lp bn bytes (length target) uid cb (off + want) s1)"
      using True less.prems(3) len t [unfolded prog_def]
      by (subst upload_loop.simps) (simp add: want_def [symmetric] chunk lb Let_def split: sum.splits)
    show ?thesis
    proof (cases q)
      case (Inl e)
      with less.prems(1) step have "r = Err e" "s' = s1" by simp_all
      with turn Inl less.prems show ?thesis by auto
    next
      case (Inr u)
      with less.prems(1) step
      have rec: "upload_loop env ino lp bn bytes (length target) uid cb (off + want) s1 = (r, s')" by simp
      from turn Inr obtain s0 where sc: "wp_sidecars s1 ino = Some (SideProgress (prog s0))" by auto
      have pf: "progress_for (prog s0) uid bn (length target)" "up_acked_offset (prog s0) = off + want"
        by (simp_all add: prog_def progress_for_def)
      have d: "drop (off + want) bytes = drop (off + want) target"
        using less.prems(4) by (metis add.commute drop_drop)
      have "received session (wp_backend s1) uid (off + want) target" using turn Inr by simp
      moreover have "length target - (off + want) < length target - off" using want(1) True by linarith
      ultimately have "same_files s1 s'" "remote (wp_backend s') = remote (wp_backend s1)"
        "\<exists>p'. wp_sidecars s' ino = Some (SideProgress p') \<and> progress_for p' uid bn (length target)
         \<and> up_acked_offset p' \<le> length target \<and> received session (wp_backend s') uid (up_acked_offset p') target"
        "r = Ok () \<longrightarrow> received session (wp_backend s') uid (length target) target"
        using less.hyps [OF _ rec want(2) less.prems(3) d _ sc pf] by simp_all
      with turn same_files_trans show ?thesis by metis
    qed
  qed
qed

section \<open>One session\<close>

lemma fresh_session_cases:
  assumes "fresh_session env ino parent name bn n s = (r, s')"
  shows "same_files s s' \<and> remote (wp_backend s') = remote (wp_backend s)
    \<and> (\<forall>uid off. r = Ok (uid, off) \<longrightarrow> off = 0 \<and> session (wp_backend s') uid = Some []
         \<and> (\<exists>p. wp_sidecars s' ino = Some (SideProgress p) \<and> progress_for p uid bn n \<and> up_acked_offset p = 0))
    \<and> ((\<exists>e. r = Err e) \<longrightarrow> wp_sidecars s' = wp_sidecars s)"
proof -
  obtain q s1 where m: "on_backend (\<lambda>b. be_upload_create env b parent name) s = (q, s1)" by fastforce
  note f = on_backend_frame [OF m]
  show ?thesis
  proof (cases q)
    case (Inl e)
    with assms m f create_Err show ?thesis by (auto simp: fresh_session_def and_then_def)
  next
    case (Inr uid)
    note c = create_Ok [OF f(3) [unfolded Inr]]
    obtain q2 s2 where m2: "save_progress ino \<lparr>up_upload_id = uid, up_blob_name = bn, up_total_size = n,
         up_acked_offset = 0, up_heartbeat = now_unix_secs s1\<rparr> s1 = (q2, s2)" by fastforce
    note g = save_progress_frame [OF m2]
    from assms m m2 Inr have rs: "s' = s2" "r = (case q2 of Inl e \<Rightarrow> Err e | Inr _ \<Rightarrow> Ok (uid, 0))"
      by (auto simp: fresh_session_def and_then_def split: sum.splits)
    have "same_files s s'" using f(1) g(1) rs(1) same_files_trans by blast
    with rs c g f show ?thesis by (cases q2) (auto simp: progress_for_def)
  qed
qed

lemma session_start_cases:
  assumes "session_start env ino parent name bn (length bytes) s = (r, s')" and "sound_resume session ino bn bytes target s"
  shows "same_files s s' \<and> remote (wp_backend s') = remote (wp_backend s)
    \<and> (\<forall>uid off. r = Ok (uid, off) \<longrightarrow> off \<le> length target \<and> drop off bytes = drop off target
         \<and> received session (wp_backend s') uid off target
         \<and> (\<exists>p. wp_sidecars s' ino = Some (SideProgress p) \<and> progress_for p uid bn (length target) \<and> up_acked_offset p = off))
    \<and> ((\<exists>e. r = Err e) \<longrightarrow> (\<nexists>p. resumable ino bn (length bytes) s' p))"
proof (cases "\<exists>p. resumable ino bn (length bytes) s p")
  case True
  then obtain p where p: "resumable ino bn (length bytes) s p" ..
  with assms show ?thesis
    by (auto simp: session_start_def load_progress_def resumable_def sound_resume_def progress_for_def)
next
  case False
  then have t: "target = bytes" using assms(2) by (simp add: sound_resume_def)
  show ?thesis
  proof (cases "wp_sidecars s ino = Some SideGarbage")
    case True
    with assms(1) show ?thesis by (auto simp: session_start_def load_progress_def resumable_def)
  next
    case not_garbage: False
    with False assms(1) have "fresh_session env ino parent name bn (length bytes) s = (r, s')"
      by (auto simp: session_start_def load_progress_def resumable_def split: option.splits sidecar_file.splits)
    from fresh_session_cases [OF this] False t show ?thesis
      by (auto simp: received_def resumable_def)
  qed
qed

text \<open>A session that succeeds stores \<open>target\<close> under the path; whether it succeeds or not, a
  later session may resume it.\<close>

lemma run_session_content:
  assumes "run_chunked_session env ino parent name bn (length bytes) s = (r, s')"
    and "blob_name_ok bn" "wp_blobs s bn = Some bytes" and "sound_resume session ino bn bytes target s"
  shows "same_files s s'
    \<and> (\<forall>p. resumable ino bn (length bytes) s' p \<longrightarrow> up_acked_offset p \<le> length bytes
         \<and> received session (wp_backend s') (up_upload_id p) (up_acked_offset p) target)
    \<and> (r = Ok () \<longrightarrow> remote (wp_backend s') = (remote (wp_backend s))(join_path parent name \<mapsto> target))"
proof -
  obtain q s1 where m1: "session_start env ino parent name bn (length bytes) s = (q, s1)" by fastforce
  note st = session_start_cases [OF m1 assms(4)]
  have lt: "length target = length bytes" using assms(4) by (simp add: sound_resume_def)
  show ?thesis
  proof (cases q)
    case (Inl e)
    with assms(1) m1 st show ?thesis by (auto simp: run_chunked_session_def and_then_def)
  next
    case (Inr x)
    then obtain uid off where q: "q = Ok (uid, off)" by (cases x) auto
    from st q obtain p where p: "off \<le> length target" "drop off bytes = drop off target"
        "received session (wp_backend s1) uid off target" "wp_sidecars s1 ino = Some (SideProgress p)"
        "progress_for p uid bn (length target)" "up_acked_offset p = off" by blast
    define cb where "cb = (if chunk_size_bytes (wp_options s1) = 0 then DEFAULT_CHUNK_SIZE_BYTES else chunk_size_bytes (wp_options s1))"
    have cb: "cb > 0" by (simp add: cb_def DEFAULT_CHUNK_SIZE_BYTES_def UPLOAD_CHUNK_BYTES_def)
    have blob: "open_blob bn (wp_blobs s1) = Ok bytes"
      using assms(2,3) st by (simp add: open_blob_def same_files_def)
    obtain q2 s2 where m2: "upload_loop env ino (join_path parent name) bn bytes (length target) uid cb off s1 = (q2, s2)" by fastforce
    note lo = upload_loop_received [OF m2 p(1) cb p(2-6)]
    have fs: "same_files s s2" "remote (wp_backend s2) = remote (wp_backend s)" using st lo same_files_trans by auto
    from lo obtain p2 where p2: "wp_sidecars s2 ino = Some (SideProgress p2)" "progress_for p2 uid bn (length target)"
        "up_acked_offset p2 \<le> length target" "received session (wp_backend s2) uid (up_acked_offset p2) target" by blast
    have run: "and_then (upload_loop env ino (join_path parent name) bn bytes (length target) uid cb off) (\<lambda>_.
        and_then (on_backend (\<lambda>b. be_upload_save env b uid parent name (length target))) (\<lambda>_ s.
          returns () (remove_progress ino s))) s1 = (r, s')"
      using assms(1) m1 q blob lt by (simp add: run_chunked_session_def and_then_def cb_def)
    show ?thesis
    proof (cases q2)
      case (Inl e)
      with run m2 have "s' = s2" "r = Err e" by (simp_all add: and_then_def)
      with fs p2 lt show ?thesis by (auto simp: resumable_def progress_for_def)
    next
      case (Inr u)
      obtain q3 s3 where m3: "on_backend (\<lambda>b. be_upload_save env b uid parent name (length target)) s2 = (q3, s3)" by fastforce
      note sv = on_backend_frame [OF m3]
      have kept: "\<forall>i bs. session (wp_backend s3) i = Some bs \<longrightarrow> session (wp_backend s2) i = Some bs"
        using save_Ok [of "wp_backend s2"] save_Err [of "wp_backend s2"] sv(3)
        by (cases q3) (metis old.unit.exhaust)+
      with p2(4) have rec: "received session (wp_backend s3) uid (up_acked_offset p2) target" by (simp add: received_def)
      show ?thesis
      proof (cases q3)
        case (Inl e)
        with run m2 m3 \<open>q2 = _\<close> have "s' = s3" "r = Err e" by (simp_all add: and_then_def)
        moreover have "same_files s s3" using fs(1) sv(1) same_files_trans by blast
        ultimately show ?thesis using sv p2 lt rec by (auto simp: resumable_def progress_for_def)
      next
        case (Inr v)
        with run m2 m3 \<open>q2 = _\<close> have s': "s' = remove_progress ino s3" "r = Ok ()" by (simp_all add: and_then_def)
        note rp = remove_progress_frame [where s = s3 and ino = ino]
        have "same_files s s'" unfolding s'(1) using fs(1) sv(1) rp(1) same_files_trans by blast
        moreover have sv3: "be_upload_save env (wp_backend s2) uid parent name (length target) = (Ok (), wp_backend s3)"
          using sv(3) Inr by simp
        from save_Ok [OF sv3] obtain bs where bs: "session (wp_backend s2) uid = Some bs"
            "remote (wp_backend s3) = (remote (wp_backend s2))(join_path parent name \<mapsto> bs)" by auto
        have "received session (wp_backend s2) uid (length target) target" using lo \<open>q2 = _\<close> by simp
        then have "bs = target" using bs(1) by (rule received_all)
        moreover have "\<forall>p. resumable ino bn (length bytes) s' p \<longrightarrow> p = p2"
          using rp(3) sv(2) p2(1) by (auto simp: s' resumable_def)
        ultimately show ?thesis using s' rp(2) bs(2) fs(2) rec p2 lt by (auto simp: progress_for_def)
      qed
    qed
  qed
qed

section \<open>A flush\<close>

lemma faithful_iff:
  "faithful session ino bn bytes s \<longleftrightarrow> (\<forall>p. resumable ino bn (length bytes) s p \<longrightarrow> up_acked_offset p \<le> length bytes
     \<and> received session (wp_backend s) (up_upload_id p) (up_acked_offset p) bytes)"
  by (auto simp: sound_resume_def)

lemma faithful_removed: "faithful session ino bn bytes s \<Longrightarrow> faithful session ino bn bytes (remove_progress ino s)"
  using remove_progress_frame [where s = s and ino = ino] unfolding faithful_iff resumable_def by auto

lemma session_attempts_content:
  assumes "session_attempts env ino parent name bn (length bytes) n s = (r, s')"
    and "blob_name_ok bn" "wp_blobs s bn = Some bytes" and "faithful session ino bn bytes s"
  shows "same_files s s' \<and> faithful session ino bn bytes s'
    \<and> (r = Ok () \<longrightarrow> remote (wp_backend s') (join_path parent name) = Some bytes)"
  using assms
proof (induction n arbitrary: s)
  case 0
  with run_session_content [OF _ 0(2-4)] show ?case by (auto simp: faithful_iff)
next
  case (Suc n)
  obtain q s1 where m: "run_chunked_session env ino parent name bn (length bytes) s = (q, s1)" by fastforce
  note c = run_session_content [OF m Suc.prems(2-4)]
  then have f1: "faithful session ino bn bytes s1" by (auto simp: faithful_iff)
  show ?case
  proof (cases "\<exists>msg. q = Err (WpUploadPermanent msg)")
    case True
    let ?s2 = "remove_progress ino s1"
    from Suc.prems(1) m True have rec: "session_attempts env ino parent name bn (length bytes) n ?s2 = (r, s')" by auto
    have sf: "same_files s ?s2" using c remove_progress_frame(1) same_files_trans by blast
    then have "wp_blobs ?s2 bn = Some bytes" using Suc.prems(3) by (simp add: same_files_def)
    from Suc.IH [OF rec Suc.prems(2) this faithful_removed [OF f1]] sf same_files_trans show ?thesis by blast
  next
    case False
    with Suc.prems(1) m have "r = q" "s' = s1" by (auto split: sum.splits write_path_error.splits)
    with c f1 show ?thesis by auto
  qed
qed

lemma chunked_flush_content:
  assumes "chunked_flush env ino s = (r, s')" and "wp_handles s ino = Some h"
    and "wp_blobs s (wh_blob_name h) = Some bytes" and "faithful session ino (wh_blob_name h) bytes s"
    and "canonical (wh_path h)"
  shows "wp_blobs s' = wp_blobs s \<and> faithful session ino (wh_blob_name h) bytes s'
    \<and> (r = Ok () \<longrightarrow> remote (wp_backend s') (wh_path h) = Some bytes
         \<and> map_option wh_dirty_bytes (wp_handles s' ino) = Some 0)"
proof (cases "split_parent_name (wh_path h)")
  case None
  with assms show ?thesis by (auto simp: chunked_flush_def and_then_def get_handle_def)
next
  case (Some pn)
  then obtain parent name where pn: "split_parent_name (wh_path h) = Some (parent, name)" by (cases pn) auto
  obtain q s1 where m: "journal_append env (OpFlushBarrier (wh_path h)) s = (q, s1)" by fastforce
  note j = journal_append_frame [OF m]
  have b1: "wp_blobs s1 (wh_blob_name h) = Some bytes" "wp_handles s1 ino = Some h" "wp_blobs s1 = wp_blobs s"
    using assms(2,3) j(1) by (simp_all add: same_files_def)
  have f1: "faithful session ino (wh_blob_name h) bytes s1" using assms(4) j by (simp add: faithful_iff resumable_def)
  show ?thesis
  proof (cases "\<exists>u. q = Ok u \<and> blob_name_ok (wh_blob_name h)")
    case False
    with assms(1,2) m pn b1 have "s' = s1 \<and> (\<exists>e. r = Err e)"
      by (cases q) (auto simp: chunked_flush_def and_then_def get_handle_def)
    with b1(3) f1 show ?thesis by auto
  next
    case True
    obtain q2 s2 where m2: "session_attempts env ino parent name (wh_blob_name h) (length bytes) 1 s1 = (q2, s2)" by fastforce
    from True have ok: "blob_name_ok (wh_blob_name h)" by blast
    note c = session_attempts_content [OF m2 ok b1(1) f1]
    from assms(1,2) m m2 pn b1 True
    have "(r, s') = (case q2 of Inl e \<Rightarrow> (Err e, s2) | Inr _ \<Rightarrow> (Ok (), reset_dirty ino s2))"
      by (auto simp: chunked_flush_def and_then_def get_handle_def split: sum.splits)
    moreover have "wp_handles s2 ino = Some h" "wp_blobs s2 = wp_blobs s" using c b1 by (auto simp: same_files_def)
    ultimately show ?thesis using c join_split [OF pn assms(5)]
      by (cases q2) (auto simp: faithful_iff resumable_def reset_dirty_handle)
  qed
qed

end

end
