(* ===== verification/Mock_Backend.thy ===== *)
theory Mock_Backend
  imports Upload_Contract
begin

text \<open>
  \<open>MockUploadBackend\<close>, the upload server the sources keep beside the write path: finished
  files, unfinished uploads and injected failures.  It satisfies the contract
  \<open>upload_server\<close>.
\<close>

record mock =
  mk_uploads :: "string \<rightharpoonup> byte list"
  mk_unlinks :: "string list"
  mk_renames :: "(string \<times> string) list"
  mk_fail_next_upload :: bool
  mk_chunk_calls :: "string list"
  mk_in_progress :: "u64 \<rightharpoonup> string \<times> string \<times> byte list"
  mk_next_upload_id :: u64
  mk_fail_chunk_after :: "nat option"
  mk_chunk_writes_seen :: nat
  mk_disable_chunked :: bool
  mk_status_bytes :: "u64 \<rightharpoonup> upload_status"
  mk_transient_writes_remaining :: nat
  mk_permanent_next_write :: bool

definition mock_new :: mock where
  "mock_new =
     \<lparr>mk_uploads = Map.empty, mk_unlinks = [], mk_renames = [], mk_fail_next_upload = False, mk_chunk_calls = [],
      mk_in_progress = Map.empty, mk_next_upload_id = 1, mk_fail_chunk_after = None, mk_chunk_writes_seen = 0,
      mk_disable_chunked = False, mk_status_bytes = Map.empty, mk_transient_writes_remaining = 0,
      mk_permanent_next_write = False\<rparr>"

definition mock_upload_file :: "mock \<Rightarrow> string \<Rightarrow> string \<Rightarrow> byte list \<Rightarrow> (write_path_error, unit) result \<times> mock" where
  "mock_upload_file b parent_path name bytes =
     (if mk_fail_next_upload b then (Err (WpUpload ''injected''), b\<lparr>mk_fail_next_upload := False\<rparr>)
      else (Ok (), b\<lparr>mk_uploads := (mk_uploads b)(join_path parent_path name \<mapsto> bytes)\<rparr>))"

definition mock_unlink_remote :: "mock \<Rightarrow> string \<Rightarrow> (write_path_error, unit) result \<times> mock" where
  "mock_unlink_remote b path =
     (Ok (), b\<lparr>mk_unlinks := mk_unlinks b @ [path], mk_uploads := (mk_uploads b)(path := None)\<rparr>)"

definition mock_rename_remote :: "mock \<Rightarrow> string \<Rightarrow> string \<Rightarrow> (write_path_error, unit) result \<times> mock" where
  "mock_rename_remote b from to =
     (Ok (), b\<lparr>mk_renames := mk_renames b @ [(from, to)],
        mk_uploads := (case mk_uploads b from of
            None \<Rightarrow> mk_uploads b
          | Some bytes \<Rightarrow> (mk_uploads b)(from := None, to \<mapsto> bytes))\<rparr>)"

definition mock_upload_create :: "mock \<Rightarrow> string \<Rightarrow> string \<Rightarrow> (write_path_error, u64) result \<times> mock" where
  "mock_upload_create b parent_path name =
     (if mk_disable_chunked b then (Err (WpUpload CHUNKED_NOT_SUPPORTED), b)
      else let upload_id = mk_next_upload_id b in
        (Ok upload_id, b\<lparr>mk_chunk_calls := mk_chunk_calls b @ [''create:'' @ join_path parent_path name],
           mk_next_upload_id := upload_id + 1,
           mk_in_progress := (mk_in_progress b)(upload_id \<mapsto> (parent_path, name, []))\<rparr>))"

definition mock_upload_write :: "mock \<Rightarrow> u64 \<Rightarrow> nat \<Rightarrow> byte list \<Rightarrow> (write_path_error, unit) result \<times> mock" where
  "mock_upload_write b upload_id offset chunk =
     (if mk_disable_chunked b then (Err (WpUpload CHUNKED_NOT_SUPPORTED), b)
      else if mk_transient_writes_remaining b > 0 then
        (Err (WpUploadTransient (''injected transient at offset '' @ show_nat offset)),
         b\<lparr>mk_transient_writes_remaining := mk_transient_writes_remaining b - 1\<rparr>)
      else if mk_permanent_next_write b then
        (Err (WpUploadPermanent (''injected permanent at offset '' @ show_nat offset)),
         b\<lparr>mk_permanent_next_write := False\<rparr>)
      else
        (let idx = mk_chunk_writes_seen b; b1 = b\<lparr>mk_chunk_writes_seen := idx + 1\<rparr> in
         if (case mk_fail_chunk_after b of None \<Rightarrow> False | Some fail_at \<Rightarrow> idx \<ge> fail_at) then
           (Err (WpUpload (''simulated crash at write #'' @ show_nat idx)), b1)
         else
           let b2 = b1\<lparr>mk_chunk_calls := mk_chunk_calls b1 @ [''write:'' @ show_nat (unat upload_id) @ '':''
                 @ show_nat offset @ '':'' @ show_nat (length chunk)]\<rparr>
           in (case mk_in_progress b2 upload_id of
                 None \<Rightarrow> (Err (WpUpload (''upload_write: unknown id '' @ show_nat (unat upload_id))), b2)
               | Some (parent, name, bytes) \<Rightarrow>
                   if offset + length chunk > usize_max then (Err (WpUpload ''offset overflow''), b2)
                   else (Ok (), b2\<lparr>mk_in_progress := (mk_in_progress b2)(upload_id \<mapsto>
                           (parent, name, write_at bytes offset chunk))\<rparr>))))"

definition mock_upload_status :: "mock \<Rightarrow> u64 \<Rightarrow> (write_path_error, upload_status) result" where
  "mock_upload_status b upload_id =
     (if mk_disable_chunked b then Err (WpUpload STATUS_NOT_SUPPORTED)
      else (case mk_status_bytes b upload_id of
        Some st \<Rightarrow> Ok st
      | None \<Rightarrow> (case mk_in_progress b upload_id of
          Some (parent, name, bytes) \<Rightarrow> Ok (StatusBytes (length bytes))
        | None \<Rightarrow> Ok StatusNotFound)))"

definition mock_upload_save ::
  "mock \<Rightarrow> u64 \<Rightarrow> string \<Rightarrow> string \<Rightarrow> nat \<Rightarrow> (write_path_error, unit) result \<times> mock" where
  "mock_upload_save b upload_id parent_path name total_size =
     (if mk_disable_chunked b then (Err (WpUpload CHUNKED_NOT_SUPPORTED), b)
      else
        (let full = join_path parent_path name;
             b1 = b\<lparr>mk_chunk_calls := mk_chunk_calls b @ [''save:'' @ show_nat (unat upload_id) @ '':'' @ full
               @ '':'' @ show_nat total_size]\<rparr>
         in (case mk_in_progress b1 upload_id of
               None \<Rightarrow> (Err (WpUpload (''save: unknown id '' @ show_nat (unat upload_id))), b1)
             | Some (parent, n, bytes) \<Rightarrow>
                 let b2 = b1\<lparr>mk_in_progress := (mk_in_progress b1)(upload_id := None)\<rparr>
                 in if length bytes \<noteq> total_size
                    then (Err (WpUpload (''save: short upload '' @ show_nat (length bytes) @ ''/'' @ show_nat total_size)), b2)
                    else (Ok (), b2\<lparr>mk_uploads := (mk_uploads b2)(full \<mapsto> bytes)\<rparr>))))"

definition mock_env :: "(journal_record \<Rightarrow> byte list option) \<Rightarrow> mock wp_env" where
  "mock_env enc =
     \<lparr>be_upload_file = mock_upload_file, be_unlink_remote = mock_unlink_remote, be_rename_remote = mock_rename_remote,
      be_upload_create = mock_upload_create, be_upload_write = mock_upload_write, be_upload_save = mock_upload_save,
      be_upload_status = mock_upload_status, wp_enc = enc\<rparr>"

text \<open>The bytes of an unfinished upload.\<close>

definition mock_session :: "mock \<Rightarrow> u64 \<rightharpoonup> byte list" where
  "mock_session b i = map_option (\<lambda>(parent, name, bytes). bytes) (mk_in_progress b i)"

lemmas mock_op_defs =
  mock_env_def mock_upload_file_def mock_upload_create_def mock_upload_write_def mock_upload_save_def

interpretation mock: upload_server "mock_env enc" mk_uploads mock_session
proof unfold_locales
  fix b :: mock and parent name :: string and uid :: u64 and b' :: mock
  assume "be_upload_create (mock_env enc) b parent name = (Ok uid, b')"
  then show "mock_session b' = (mock_session b)(uid \<mapsto> []) \<and> mk_uploads b' = mk_uploads b"
    by (auto simp: mock_op_defs mock_session_def Let_def fun_eq_iff split: if_splits)
next
  fix b :: mock and parent name e b'
  assume "be_upload_create (mock_env enc) b parent name = (Err e, b')"
  then show "mock_session b' = mock_session b \<and> mk_uploads b' = mk_uploads b"
    by (auto simp: mock_op_defs Let_def split: if_splits)
next
  fix b :: mock and uid off chunk b'
  assume "be_upload_write (mock_env enc) b uid off chunk = (Ok (), b')"
  then show "\<exists>bs. mock_session b uid = Some bs \<and> mock_session b' = (mock_session b)(uid \<mapsto> write_at bs off chunk)
      \<and> mk_uploads b' = mk_uploads b"
    by (auto simp: mock_op_defs mock_session_def Let_def fun_eq_iff split: if_splits option.splits)
next
  fix b :: mock and uid off chunk e b'
  assume "be_upload_write (mock_env enc) b uid off chunk = (Err e, b')"
  then have "mk_in_progress b' = mk_in_progress b \<and> mk_uploads b' = mk_uploads b"
    by (auto simp: mock_op_defs Let_def split: if_splits option.splits)
  then show "mk_uploads b' = mk_uploads b \<and> (\<forall>i bs. mock_session b' i = Some bs \<longrightarrow> mock_session b i = Some bs
      \<or> i = uid \<and> (\<exists>old. mock_session b uid = Some old \<and> bs = write_at old off chunk))"
    by (simp add: mock_session_def)
next
  fix b :: mock and uid parent name n b'
  assume "be_upload_save (mock_env enc) b uid parent name n = (Ok (), b')"
  then show "\<exists>bs. mock_session b uid = Some bs \<and> length bs = n \<and> mk_uploads b' = (mk_uploads b)(join_path parent name \<mapsto> bs)
      \<and> (\<forall>i bs. mock_session b' i = Some bs \<longrightarrow> mock_session b i = Some bs)"
    by (auto simp: mock_op_defs mock_session_def Let_def split: if_splits option.splits)
next
  fix b :: mock and uid parent name n e b'
  assume "be_upload_save (mock_env enc) b uid parent name n = (Err e, b')"
  then show "\<forall>i bs. mock_session b' i = Some bs \<longrightarrow> mock_session b i = Some bs"
    by (auto simp: mock_op_defs mock_session_def Let_def split: if_splits option.splits)
next
  fix b :: mock and parent name bytes b'
  assume "be_upload_file (mock_env enc) b parent name bytes = (Ok (), b')"
  then show "mk_uploads b' = (mk_uploads b)(join_path parent name \<mapsto> bytes) \<and> mock_session b' = mock_session b"
    by (auto simp: mock_op_defs mock_session_def fun_eq_iff split: if_splits)
next
  fix b :: mock and parent name bytes e b'
  assume "be_upload_file (mock_env enc) b parent name bytes = (Err e, b')"
  then show "mock_session b' = mock_session b"
    by (auto simp: mock_op_defs mock_session_def fun_eq_iff split: if_splits)
qed

end
