(* ===== verification/Write_Accounting.thy ===== *)
theory Write_Accounting
  imports Mock_Backend
begin

text \<open>
  The bookkeeping of the write path over every sequence of its operations: the
  process-wide ceiling on staged bytes, what the counter loses, and what a reader of a
  staged file sees after a write.
\<close>

section \<open>Relations that methods keep\<close>

definition keeps :: "('b write_path \<Rightarrow> 'b write_path \<Rightarrow> bool) \<Rightarrow> ('b, 'a) wp_method \<Rightarrow> bool" where
  "keeps R m \<longleftrightarrow> (\<forall>s. R s (snd (m s)))"

named_theorems keeping \<open>methods that keep a relation\<close>

lemma keepsD: "keeps R m \<Longrightarrow> m s = (r, s') \<Longrightarrow> R s s'"
  unfolding keeps_def by (metis snd_conv)

lemma keepsI: "(\<And>s r s'. m s = (r, s') \<Longrightarrow> R s s') \<Longrightarrow> keeps R m"
  unfolding keeps_def by (metis prod.collapse)

text \<open>A preorder between the states before and after a call that holds when only the
  journal, the progress files, the server, the clock or the faults differ.\<close>

locale state_relation =
  fixes R :: "'b write_path \<Rightarrow> 'b write_path \<Rightarrow> bool"
  assumes trans_R: "R s s1 \<Longrightarrow> R s1 s2 \<Longrightarrow> R s s2"
    and contains: "same_files s s' \<Longrightarrow> R s s'"
begin

lemma refl_R [simp]: "R s s"
  by (rule contains) simp

lemma keeps_and_then [keeping]: "keeps R m \<Longrightarrow> (\<And>x. keeps R (f x)) \<Longrightarrow> keeps R (and_then m f)"
  unfolding keeps_def and_then_def by (auto split: prod.split sum.split) (metis trans_R snd_conv)+

lemma keeps_returns [keeping]: "keeps R (returns x)" "keeps R (fails e)" "keeps R (get_handle ino)"
  by (simp_all add: keeps_def get_handle_def split: option.split)

lemma keeps_branch [keeping]:
  "keeps R m \<Longrightarrow> keeps R m' \<Longrightarrow> keeps R (\<lambda>s. if c s then m s else m' s)"
  "keeps R m \<Longrightarrow> (\<And>y. keeps R (g y)) \<Longrightarrow> keeps R (\<lambda>s. case z s of None \<Rightarrow> m s | Some y \<Rightarrow> g y s)"
  "(\<And>y z. keeps R (k y z)) \<Longrightarrow> keeps R (\<lambda>s. case p of (y, z) \<Rightarrow> k y z s)"
  "keeps R m \<Longrightarrow> (\<And>y. keeps R (g y)) \<Longrightarrow> keeps R (case x of None \<Rightarrow> m | Some y \<Rightarrow> g y)"
  "(\<And>y z. keeps R (k y z)) \<Longrightarrow> keeps R (case p of (y, z) \<Rightarrow> k y z)"
  "(\<And>e. keeps R (l e)) \<Longrightarrow> (\<And>y. keeps R (g y)) \<Longrightarrow> keeps R (\<lambda>s. case w s of Inl e \<Rightarrow> l e s | Inr y \<Rightarrow> g y s)"
  by (auto simp: keeps_def split: option.split sum.split prod.split)

lemma keeps_journal_append [keeping]: "keeps R (journal_append env jop)"
  unfolding keeps_def by (metis contains journal_append_frame(1) prod.collapse)

lemma keeps_on_backend [keeping]: "keeps R (on_backend f)"
  unfolding keeps_def by (metis contains on_backend_frame(1) prod.collapse)

lemma keeps_save_progress [keeping]: "keeps R (save_progress ino p)"
  unfolding keeps_def by (metis contains save_progress_frame(1) prod.collapse)

lemma R_remove_progress: "R s (remove_progress ino s)"
  by (rule contains) (rule remove_progress_frame)

lemma keeps_reset: "(\<And>s. R s (reset_dirty ino s)) \<Longrightarrow> keeps R (\<lambda>s. returns () (reset_dirty ino s))"
  by (simp add: keeps_def)

lemma keeps_flush: "(\<And>s. R s (reset_dirty ino s)) \<Longrightarrow> keeps R (flush env ino)"
  unfolding flush_def by (intro keeping keeps_reset)

lemma keeps_send_chunk [keeping]: "keeps R (send_chunk env uid off chunk left)"
proof (induction left)
  case 0
  have "keeps R (\<lambda>s. on_backend (\<lambda>b. be_upload_write env b uid off chunk) s)" by (intro keeping)
  then show ?case
    by (auto simp: keeps_def split: prod.splits sum.splits write_path_error.splits) (metis snd_conv)+
next
  case (Suc left)
  show ?case
  proof (rule keepsI)
    fix s r s' assume r: "send_chunk env uid off chunk (Suc left) s = (r, s')"
    obtain q s1 where o: "on_backend (\<lambda>b. be_upload_write env b uid off chunk) s = (q, s1)" by fastforce
    have a: "R s s1" using keepsD [OF keeps_on_backend o] .
    show "R s s'"
    proof (cases "\<exists>msg. q = Err (WpUploadTransient msg)")
      case True
      with r o have "send_chunk env uid off chunk left (s1\<lparr>wp_mono := wp_mono s1 +
          exp_backoff (chunk_retry_initial_backoff (wp_options s1)) (chunk_retry_attempts (wp_options s1) - Suc left)\<rparr>) = (r, s')"
        by auto
      with Suc.IH have "R (s1\<lparr>wp_mono := wp_mono s1 +
          exp_backoff (chunk_retry_initial_backoff (wp_options s1)) (chunk_retry_attempts (wp_options s1) - Suc left)\<rparr>) s'"
        by (rule keepsD)
      moreover have "R s1 (s1\<lparr>wp_mono := m\<rparr>)" for m by (rule contains) (simp add: same_files_def)
      ultimately show ?thesis using a trans_R by blast
    next
      case False
      with r o have "s' = s1" by (auto split: sum.splits write_path_error.splits)
      with a show ?thesis by simp
    qed
  qed
qed

lemma R_upload_loop:
  "upload_loop env ino lp bn bytes n uid cb off s = (r, s') \<Longrightarrow> R s s'"
proof (induction env ino lp bn bytes n uid cb off s rule: upload_loop.induct)
  case (1 env ino lp bn bytes n uid cb off s)
  define want where "want = min cb (n - off)"
  define turn where "turn = and_then (send_chunk env uid off (take want (drop off bytes)) (chunk_retry_attempts (wp_options s))) (\<lambda>_.
     and_then (journal_append env (OpChunkAck lp uid (of_nat off) (of_nat want))) (\<lambda>_ s.
       save_progress ino \<lparr>up_upload_id = uid, up_blob_name = bn, up_total_size = n,
         up_acked_offset = off + want, up_heartbeat = now_unix_secs s\<rparr> s))"
  have sp: "keeps R (\<lambda>s. save_progress ino (f s) s)" for f
    using keeps_save_progress by (auto simp: keeps_def)
  have t: "keeps R turn" unfolding turn_def by (intro keeping sp)
  show ?case
  proof (cases "off < n \<and> cb > 0 \<and> want \<le> length (take want (drop off bytes))")
    case True
    obtain q s1 where m: "turn s = (q, s1)" by fastforce
    note a = keepsD [OF t m]
    show ?thesis
    proof (cases q)
      case (Inl e)
      with "1.prems" True m have "s' = s1"
        by (subst (asm) upload_loop.simps) (simp add: want_def [symmetric] turn_def Let_def)
      with a show ?thesis by simp
    next
      case (Inr u)
      with "1.prems" True m have rec: "upload_loop env ino lp bn bytes n uid cb (off + want) s1 = (r, s')"
        by (subst (asm) upload_loop.simps) (simp add: want_def [symmetric] turn_def Let_def)
      have "R s1 s'"
        by (rule "1.IH" [OF _ want_def refl _ m [unfolded turn_def, symmetric] Inr rec]) (use True in auto)
      with a show ?thesis by (rule trans_R)
    qed
  next
    case False
    with "1.prems" have "s' = s"
      by (subst (asm) upload_loop.simps) (auto simp: want_def [symmetric] Let_def not_le split: if_splits)
    then show ?thesis by simp
  qed
qed

lemma keeps_upload_loop [keeping]: "keeps R (upload_loop env ino lp bn bytes n uid cb off)"
  by (rule keepsI) (rule R_upload_loop)

lemma keeps_session_start [keeping]: "keeps R (session_start env ino parent name bn n)"
proof -
  have f: "keeps R (fresh_session env ino parent name bn n)"
    unfolding fresh_session_def and_then_def [of "save_progress _ _"]
    by (auto simp: keeps_def and_then_def split: prod.splits sum.splits)
       (metis keepsD keeps_on_backend keeps_save_progress trans_R)+
  then show ?thesis
    by (auto simp: keeps_def session_start_def split: sum.splits option.splits)
qed

lemma keeps_removed [keeping]: "keeps R (\<lambda>s. returns x (remove_progress ino s))"
  by (simp add: keeps_def R_remove_progress)

lemma keeps_run_session [keeping]: "keeps R (run_chunked_session env ino parent name bn n)"
proof -
  have "keeps R (\<lambda>s. let cb = (if chunk_size_bytes (wp_options s) = 0 then DEFAULT_CHUNK_SIZE_BYTES
             else chunk_size_bytes (wp_options s))
       in (case open_blob bn (wp_blobs s) of
         Inl e \<Rightarrow> (Err (WpUpload ''open staging blob''), s)
       | Inr bytes \<Rightarrow>
           and_then (upload_loop env ino (join_path parent name) bn bytes n uid cb off) (\<lambda>_.
           and_then (on_backend (\<lambda>b. be_upload_save env b uid parent name n)) (\<lambda>_ s.
             returns () (remove_progress ino s))) s))" for uid off
  proof -
    have "keeps R (and_then (upload_loop env ino (join_path parent name) bn bytes n uid cb off) (\<lambda>_.
           and_then (on_backend (\<lambda>b. be_upload_save env b uid parent name n)) (\<lambda>_ s.
             returns () (remove_progress ino s))))" for bytes cb by (intro keeping)
    then show ?thesis by (auto simp: keeps_def Let_def split: sum.split)
  qed
  then show ?thesis unfolding run_chunked_session_def by (intro keeping) (auto split: prod.split)
qed

lemma keeps_session_attempts [keeping]: "keeps R (session_attempts env ino parent name bn n k)"
proof (induction k)
  case 0
  then show ?case using keeps_run_session by (simp add: keeps_def)
next
  case (Suc k)
  show ?case
  proof (rule keepsI)
    fix s r s' assume r: "session_attempts env ino parent name bn n (Suc k) s = (r, s')"
    obtain q s1 where m: "run_chunked_session env ino parent name bn n s = (q, s1)" by fastforce
    note a = keepsD [OF keeps_run_session m]
    show "R s s'"
    proof (cases "\<exists>msg. q = Err (WpUploadPermanent msg)")
      case True
      with r m have "session_attempts env ino parent name bn n k (remove_progress ino s1) = (r, s')" by auto
      with a R_remove_progress keepsD [OF Suc.IH] show ?thesis by (blast intro: trans_R)
    next
      case False
      with r m have "s' = s1" by (auto split: sum.splits write_path_error.splits)
      with a show ?thesis by simp
    qed
  qed
qed

lemma keeps_chunked_flush: "(\<And>s. R s (reset_dirty ino s)) \<Longrightarrow> keeps R (chunked_flush env ino)"
  unfolding chunked_flush_def by (intro keeping keeps_reset)

lemma keeps_after_write:
  assumes "\<And>s. R s (reset_dirty ino s)"
  shows "keeps R (after_write env ino h dirty n)"
proof (rule keepsI)
  fix s r s' assume r: "after_write env ino h dirty n s = (r, s')"
  have fl: "keeps R (and_then (flush env ino) (\<lambda>_. returns n))" by (intro keeping keeps_flush assms)
  obtain q s1 where m: "chunked_flush env ino s = (q, s1)" by fastforce
  note a = keepsD [OF keeps_chunked_flush [OF assms] m]
  from r m consider "s' = s" | "s' = s1" | "and_then (flush env ino) (\<lambda>_. returns n) s = (r, s')"
    | "and_then (flush env ino) (\<lambda>_. returns n) s1 = (r, s')"
    by (auto simp: after_write_def Let_def split: if_splits sum.splits write_path_error.splits)
  then show "R s s'" using a by cases (auto intro: keepsD [OF fl] trans_R [OF a])
qed

end

section \<open>Dirty bytes\<close>

definition dirty_in :: "(u64 \<rightharpoonup> write_handle) \<Rightarrow> u64 \<Rightarrow> nat" where
  "dirty_in H ino = (case H ino of None \<Rightarrow> 0 | Some h \<Rightarrow> wh_dirty_bytes h)"

definition dirty_sum :: "(u64 \<rightharpoonup> write_handle) \<Rightarrow> nat" where
  "dirty_sum H = (\<Sum>ino \<in> dom H. dirty_in H ino)"

lemma total_dirty_bytes_sum: "total_dirty_bytes s = dirty_sum (wp_handles s)"
  unfolding total_dirty_bytes_def dirty_sum_def by (rule sum.cong) (auto simp: dirty_in_def)

lemma dirty_sum_split: "dirty_sum H = dirty_in H ino + (\<Sum>i \<in> dom H - {ino}. dirty_in H i)" if "finite (dom H)"
proof (cases "ino \<in> dom H")
  case True
  with that show ?thesis by (simp add: dirty_sum_def sum.remove)
next
  case False
  then have "dirty_in H ino = 0" by (auto simp: dirty_in_def split: option.splits)
  with False show ?thesis by (simp add: dirty_sum_def)
qed

lemma dirty_sum_upd:
  assumes "finite (dom H)"
  shows "dirty_sum (H(ino \<mapsto> h)) + dirty_in H ino = dirty_sum H + wh_dirty_bytes h"
    and "dirty_sum (H(ino := None)) + dirty_in H ino = dirty_sum H"
proof -
  have rest: "(\<Sum>i \<in> dom H - {ino}. dirty_in (H(ino := x)) i) = (\<Sum>i \<in> dom H - {ino}. dirty_in H i)" for x
    by (rule sum.cong) (auto simp: dirty_in_def)
  have "insert ino (dom H) - {ino} = dom H - {ino}" by auto
  with dirty_sum_split [OF assms, of ino] dirty_sum_split [of "H(ino \<mapsto> h)" ino] assms rest [of "Some h"]
  show "dirty_sum (H(ino \<mapsto> h)) + dirty_in H ino = dirty_sum H + wh_dirty_bytes h"
    by (simp add: dirty_in_def)
  show "dirty_sum (H(ino := None)) + dirty_in H ino = dirty_sum H"
    using dirty_sum_split [OF assms, of ino] dirty_sum_split [of "H(ino := None)" ino] assms rest [of None]
    by (simp add: dirty_in_def)
qed

lemma dirty_sum_cong: "dom H = dom H' \<Longrightarrow> (\<And>i. dirty_in H i = dirty_in H' i) \<Longrightarrow> dirty_sum H = dirty_sum H'"
  by (simp add: dirty_sum_def)

section \<open>The invariant\<close>

definition limited :: "'b write_path \<Rightarrow> bool" where
  "limited s \<longleftrightarrow> max_global_staging_bytes (wp_options s) < usize_max"

text \<open>Every open file has its own blob, and the counter of staged bytes covers the bytes the
  open files have not uploaded, within the ceiling.\<close>

definition wp_inv :: "'b write_path \<Rightarrow> bool" where
  "wp_inv s \<longleftrightarrow> finite (dom (wp_handles s))
     \<and> (\<forall>ino h. wp_handles s ino = Some h \<longrightarrow> wh_blob_name h = blob_name_for_ino ino)
     \<and> (limited s \<longrightarrow> total_dirty_bytes s \<le> wp_global s \<and> wp_global s \<le> max_global_staging_bytes (wp_options s))"

text \<open>Reserved bytes that no open file accounts for.\<close>

definition leaked :: "'b write_path \<Rightarrow> nat" where
  "leaked s = wp_global s - total_dirty_bytes s"

text \<open>What one operation does to the accounts: the invariant is kept and nothing leaked
  comes back.\<close>

definition accounts :: "'b write_path \<Rightarrow> 'b write_path \<Rightarrow> bool" where
  "accounts s s' \<longleftrightarrow> wp_options s' = wp_options s \<and> (wp_inv s \<longrightarrow> wp_inv s' \<and> (limited s \<longrightarrow> leaked s \<le> leaked s'))"

lemma accounts_refl [simp]: "accounts s s"
  by (simp add: accounts_def)

lemma accounts_trans: "accounts s s1 \<Longrightarrow> accounts s1 s2 \<Longrightarrow> accounts s s2"
  by (auto simp: accounts_def limited_def)

lemma accounts_same_files: "same_files s s' \<Longrightarrow> accounts s s'"
  by (simp add: accounts_def same_files_def wp_inv_def limited_def leaked_def total_dirty_bytes_sum)

lemma accounts_same: "wp_handles s' = wp_handles s \<Longrightarrow> wp_options s' = wp_options s \<Longrightarrow> wp_global s' = wp_global s \<Longrightarrow> accounts s s'"
  by (simp add: accounts_def wp_inv_def limited_def leaked_def total_dirty_bytes_sum)

section \<open>The operations that change the accounts\<close>

lemma inv_handles:
  assumes "wp_inv s" and "limited s"
  shows "finite (dom (wp_handles s))" "dirty_sum (wp_handles s) \<le> wp_global s"
    "wp_global s \<le> max_global_staging_bytes (wp_options s)" "wp_global s < usize_max"
  using assms by (auto simp: wp_inv_def limited_def total_dirty_bytes_sum)

lemma dirty_in_le: "finite (dom H) \<Longrightarrow> dirty_in H ino \<le> dirty_sum H"
  using dirty_sum_split [of H ino] by simp

text \<open>Replacing a handle: the counter falls by no more than the dirty bytes that go.\<close>

lemma accounts_handle:
  assumes "wp_options s' = wp_options s" and "wp_handles s' = (wp_handles s)(ino := new)"
    and "\<And>h. wp_inv s \<Longrightarrow> new = Some h \<Longrightarrow> wh_blob_name h = blob_name_for_ino ino"
    and "wp_inv s \<Longrightarrow> limited s \<Longrightarrow> wp_global s' \<le> max_global_staging_bytes (wp_options s) \<and>
      wp_global s + dirty_in (wp_handles s') ino \<le> wp_global s' + dirty_in (wp_handles s) ino"
  shows "accounts s s'"
proof -
  have lim: "limited s' = limited s" using assms(1) by (simp add: limited_def)
  have "leaked s \<le> leaked s' \<and> total_dirty_bytes s' \<le> wp_global s' \<and> wp_global s' \<le> max_global_staging_bytes (wp_options s')"
    if "wp_inv s" "limited s"
  proof -
    note i = inv_handles [OF that]
    have "dirty_sum (wp_handles s') + dirty_in (wp_handles s) ino = dirty_sum (wp_handles s) + dirty_in (wp_handles s') ino"
      using dirty_sum_upd [OF i(1), of ino] assms(2) by (cases new) (simp_all add: dirty_in_def)
    with i assms(4) [OF that] assms(1) show ?thesis
      by (auto simp: leaked_def total_dirty_bytes_sum)
  qed
  moreover have "finite (dom (wp_handles s'))" if "wp_inv s" using that assms(2) by (cases new) (auto simp: wp_inv_def)
  ultimately show ?thesis
    using assms(1-3) lim by (auto simp: accounts_def wp_inv_def)
qed

lemma dirty_le_global: "wp_inv s \<Longrightarrow> limited s \<Longrightarrow> dirty_in (wp_handles s) ino \<le> wp_global s"
  using dirty_in_le inv_handles by (metis order_trans)

lemma release_global_value:
  "wp_inv s \<Longrightarrow> limited s \<Longrightarrow> wp_handles s ino = Some h \<Longrightarrow>
     wp_global (release_global (wh_dirty_bytes h) s) = wp_global s - wh_dirty_bytes h \<and> wh_dirty_bytes h \<le> wp_global s
       \<and> wp_global s \<le> max_global_staging_bytes (wp_options s)"
  using dirty_le_global [of s ino] inv_handles [of s]
  by (auto simp: release_global_def limited_def dirty_in_def)

lemma accounts_reset_dirty: "accounts s (reset_dirty ino s)"
proof (cases "wp_handles s ino")
  case None
  then show ?thesis by (simp add: reset_dirty_def)
next
  case (Some h)
  show ?thesis
    by (rule accounts_handle [OF _ reset_dirty_handle [OF Some]])
      (simp, use Some in \<open>fastforce simp: wp_inv_def\<close>,
       use Some release_global_value [OF _ _ Some] in \<open>auto simp: reset_dirty_def dirty_in_def Let_def\<close>)
qed

lemma accounts_release: "accounts s (release_handle ino s)"
proof (cases "wp_handles s ino")
  case None
  then show ?thesis by (simp add: release_handle_def)
next
  case (Some h)
  show ?thesis
    by (rule accounts_handle [where new = None and ino = ino])
      (use Some release_global_value [OF _ _ Some] in \<open>auto simp: release_handle_def Let_def dirty_in_def\<close>)
qed

text \<open>A reservation alone.\<close>

lemma accounts_reserved:
  assumes "wp_options s' = wp_options s" "wp_handles s' = wp_handles s"
    and "limited s \<Longrightarrow> wp_global s \<le> wp_global s' \<and> wp_global s' \<le> max_global_staging_bytes (wp_options s)"
  shows "accounts s s'"
  by (rule accounts_handle [where ino = 0 and new = "wp_handles s 0"]) (use assms in \<open>auto simp: wp_inv_def\<close>)

lemma accounted_on_stage [keeping]: "keeps accounts (on_stage f)"
  by (auto simp: keeps_def on_stage_def intro!: accounts_same dest: next_fault_fields split: prod.splits sum.splits)

interpretation acct: state_relation accounts
  by unfold_locales (auto intro: accounts_trans accounts_same_files)

lemmas accounted_flush [keeping] = acct.keeps_flush [OF accounts_reset_dirty]
lemmas accounted_after_write [keeping] = acct.keeps_after_write [OF accounts_reset_dirty]

section \<open>The methods of the service\<close>

lemma on_stage_fields:
  assumes "on_stage f s = (r, s')"
  shows "wp_options s' = wp_options s" "wp_handles s' = wp_handles s" "wp_global s' = wp_global s"
    "wp_blobs s' = snd (f (fst (next_fault s)) (wp_blobs s))"
    "r = (case fst (f (fst (next_fault s)) (wp_blobs s)) of Inl e \<Rightarrow> Err (WpStaging e) | Inr x \<Rightarrow> Ok x)"
  using assms by (auto simp: on_stage_def dest: next_fault_fields split: prod.splits sum.splits)

lemma reserve_global_cases:
  assumes "reserve_global n s = (r, s')"
  obtains (refused) e where "r = Err e" "s' = s"
  | (reserved) "r = Ok ()" "wp_options s' = wp_options s" "wp_handles s' = wp_handles s" "wp_blobs s' = wp_blobs s"
      "limited s \<Longrightarrow> wp_global s' = wp_global s + n \<and> wp_global s + n \<le> max_global_staging_bytes (wp_options s)"
      "wp_journal s' = wp_journal s" "wp_mono s' = wp_mono s"
  using assms by (auto simp: reserve_global_def limited_def Let_def split: if_splits)

text \<open>The stages of a write: refused with nothing changed; failed after the reservation; or
  staged and journalled, with the handle updated and perhaps a flush.\<close>

lemma write_file_cases:
  assumes "write_file env ino offset data s = (r, s')"
  obtains (refused) e where "r = Err e" "s' = s"
  | (failed) e where "r = Err e" "wp_options s' = wp_options s" "wp_handles s' = wp_handles s"
      "limited s \<Longrightarrow> wp_global s' = wp_global s + length data \<and> wp_global s' \<le> max_global_staging_bytes (wp_options s)"
  | (staged) h s1 where "wp_handles s ino = Some h" "wp_options s1 = wp_options s"
      "wp_handles s1 = (wp_handles s)(ino \<mapsto> h\<lparr>wh_dirty_bytes := min (wh_dirty_bytes h + length data) (2 ^ 64 - 1)\<rparr>)"
      "limited s \<Longrightarrow> wp_global s1 = wp_global s + length data \<and> wp_global s1 \<le> max_global_staging_bytes (wp_options s)"
      "\<exists>m. write_blob_at NoFault (wh_blob_name h) (effective_offset h offset s) data (wp_blobs s) = (Ok m, wp_blobs s1)"
      "after_write env ino h (min (wh_dirty_bytes h + length data) (2 ^ 64 - 1)) (length data) s1 = (r, s')"
proof (cases "wp_handles s ino")
  case None
  with assms show ?thesis by (intro that(1)) (auto simp: write_file_def and_then_def get_handle_def)
next
  case (Some h)
  let ?off = "effective_offset h offset s"
  show ?thesis
  proof (cases "within_staging_limit (wp_options s) ?off (length data)")
    case False
    with assms Some show ?thesis by (intro that(1)) (auto simp: write_file_def and_then_def get_handle_def)
  next
    case lim: True
    obtain q s1 where m1: "reserve_global (length data) s = (q, s1)" by fastforce
    then show ?thesis
    proof (cases rule: reserve_global_cases)
      case (refused e)
      with assms Some lim m1 show ?thesis by (intro that(1)) (auto simp: write_file_def and_then_def get_handle_def)
    next
      case reserved
      obtain q2 s2 where m2: "on_stage (\<lambda>fault. write_blob_at fault (wh_blob_name h) ?off data) s1 = (q2, s2)" by fastforce
      note st = on_stage_fields [OF m2]
      show ?thesis
      proof (cases q2)
        case (Inl e)
        with assms Some lim m1 m2 reserved have "r = Err e" "s' = s2"
          by (simp_all add: write_file_def and_then_def get_handle_def)
        with st reserved show ?thesis by (intro that(2)) auto
      next
        case inr2: (Inr m)
        obtain q3 s3 where m3: "journal_append env (OpWrite (wh_path h) (of_nat ?off) (of_nat (length data)) (wh_blob_name h)) s2 = (q3, s3)"
          by fastforce
        note j = journal_append_frame(1) [OF m3, unfolded same_files_def]
        show ?thesis
        proof (cases q3)
          case (Inl e)
          with assms Some lim m1 m2 m3 reserved inr2 have "r = Err e" "s' = s3"
            by (simp_all add: write_file_def and_then_def get_handle_def)
          with st reserved j show ?thesis by (intro that(2)) auto
        next
          case inr3: (Inr u)
          let ?d = "min (wh_dirty_bytes h + length data) (2 ^ 64 - 1)"
          have w: "after_write env ino h ?d (length data)
              (s3\<lparr>wp_handles := (wp_handles s3)(ino \<mapsto> h\<lparr>wh_dirty_bytes := ?d\<rparr>)\<rparr>) = (r, s')"
            using assms Some lim m1 m2 m3 reserved inr2 inr3
            by (simp add: write_file_def and_then_def get_handle_def Let_def)
          have "\<exists>m. write_blob_at NoFault (wh_blob_name h) ?off data (wp_blobs s) = (Ok m, wp_blobs s3)"
            using st(4,5) inr2 reserved j
            by (auto simp: write_blob_at_def prod_eq_iff split: sum.splits prod.splits io_fault.splits)
          with w Some st reserved j show ?thesis by (intro that(3)) auto
        qed
      qed
    qed
  qed
qed

lemma accounted_write [keeping]: "keeps accounts (write_file env ino offset data)"
proof (rule keepsI)
  fix s r s' assume "write_file env ino offset data s = (r, s')"
  then show "accounts s s'"
  proof (cases rule: write_file_cases)
    case (staged h s1)
    have "accounts s s1"
      by (rule accounts_handle [OF staged(2,3)]) (use staged in \<open>auto simp: wp_inv_def dirty_in_def\<close>)
    then show ?thesis using keepsD [OF accounted_after_write staged(6)] accounts_trans by blast
  qed (auto intro: accounts_reserved)
qed

lemma accounted_open [keeping]: "keeps accounts (open_for_write ino path ap tr)"
proof -
  have ins: "keeps accounts (\<lambda>s. returns () (s\<lparr>wp_handles := (wp_handles s)(ino \<mapsto>
      \<lparr>wh_path = path, wh_blob_name = blob_name_for_ino ino, wh_dirty_bytes = 0, wh_last_flush = wp_mono s,
       wh_append_mode = ap\<rparr>)\<rparr>))"
    by (rule keepsI, rule accounts_handle [where ino = ino]) (auto simp: wp_inv_def dirty_in_def)
  show ?thesis unfolding open_for_write_def Let_def by (intro keeping ins)
qed

lemma accounted_seed [keeping]: "keeps accounts (seed_blob ino bytes)"
  unfolding seed_blob_def by (intro keeping)

lemma accounted_create [keeping]: "keeps accounts (create_file env ino parent name)"
  unfolding create_file_def by (auto intro: keeping)

lemma accounted_truncate [keeping]: "keeps accounts (truncate_file env ino n)"
  unfolding truncate_file_def by (intro keeping)

text \<open>Unlinking an open file drops its handle and keeps its reservation.\<close>

lemma unlink_cases:
  assumes "unlink_file env (Some ino) path s = (r, s')"
  obtains (failed) e where "r = Err e" "same_files s s'"
  | (dropped) "wp_options s' = wp_options s" "wp_handles s' = (wp_handles s)(ino := None)" "wp_global s' = wp_global s"
proof -
  obtain q s1 where m: "journal_append env (OpUnlink path) s = (q, s1)" by fastforce
  note j = journal_append_frame(1) [OF m]
  show ?thesis
  proof (cases q)
    case (Inl e)
    with assms m j failed show ?thesis by (auto simp: unlink_file_def and_then_def)
  next
    case (Inr u)
    obtain q2 s2 where m2: "on_stage (\<lambda>fault. remove_blob fault (blob_name_for_ino ino)) s1 = (q2, s2)" by fastforce
    obtain q3 s3 where m3: "on_backend (\<lambda>b. be_unlink_remote env b path) (s2\<lparr>wp_handles := (wp_handles s2)(ino := None)\<rparr>) = (q3, s3)"
      by fastforce
    have "s' = s3" using assms m m2 m3 Inr by (auto simp: unlink_file_def and_then_def Let_def split: sum.splits)
    then show ?thesis
      using dropped j on_stage_fields(1-3) [OF m2] on_backend_frame(1) [OF m3] by (simp add: same_files_def)
  qed
qed

lemma accounted_unlink [keeping]: "keeps accounts (unlink_file env ino path)"
proof (cases ino)
  case None
  show ?thesis unfolding unlink_file_def None option.case by (intro keeping)
next
  case (Some i)
  show ?thesis unfolding Some
  proof (rule keepsI)
    fix s r s' assume "unlink_file env (Some i) path s = (r, s')"
    then show "accounts s s'"
      by (cases rule: unlink_cases)
        (auto intro: accounts_same_files accounts_handle [where ino = i and new = None] simp: wp_inv_def dirty_in_def)
  qed
qed

lemma accounts_renamed:
  "accounts s (s\<lparr>wp_handles := (\<lambda>ino. map_option (\<lambda>h. if wh_path h = from then h\<lparr>wh_path := to\<rparr> else h) (wp_handles s ino))\<rparr>)"
  (is "accounts s (s\<lparr>wp_handles := ?H\<rparr>)")
proof -
  have d: "dom ?H = dom (wp_handles s)" by (auto simp: dom_def)
  have "dirty_in ?H i = dirty_in (wp_handles s) i" for i by (auto simp: dirty_in_def split: option.split)
  with d have "dirty_sum ?H = dirty_sum (wp_handles s)" by (rule dirty_sum_cong)
  with d show ?thesis by (auto simp: accounts_def wp_inv_def limited_def leaked_def total_dirty_bytes_sum)
qed

lemma accounted_rename [keeping]: "keeps accounts (rename_file env from to)"
proof -
  have up: "keeps accounts (\<lambda>s. returns () (s\<lparr>wp_handles := (\<lambda>ino. map_option (\<lambda>h. if wh_path h = from then h\<lparr>wh_path := to\<rparr> else h) (wp_handles s ino))\<rparr>))"
    by (rule keepsI) (auto intro: accounts_renamed)
  show ?thesis unfolding rename_file_def by (intro keeping up)
qed

lemma accounted_flush_each: "keeps accounts (flush_each env inos)"
proof (induction inos)
  case (Cons ino inos)
  then have "keeps accounts (and_then (flush env ino) (\<lambda>_. flush_each env inos))" by (intro keeping)
  then show ?case by (simp add: keeps_def)
qed (simp add: keeps_def)

lemma accounted_tick [keeping]: "keeps accounts (wp_tick env order)"
  using accounted_flush_each by (auto simp: keeps_def wp_tick_def)

lemma accounts_drain_each: "accounts s (snd (drain_each env inos s))"
proof (induction inos arbitrary: s)
  case (Cons ino inos)
  obtain r s1 where m: "flush env ino s = (r, s1)" by fastforce
  from Cons [of s1] keepsD [OF accounted_flush m] have "accounts s (snd (drain_each env inos s1))"
    using accounts_trans by blast
  with m show ?case by (simp add: case_prod_unfold Let_def)
qed simp

lemma same_files_reconcile: "same_files s (snd (reconcile_sidecar env now timeout ino p s))"
  using remove_progress_frame(1)
  by (auto simp: reconcile_sidecar_def rewrite_progress_def Let_def dest: save_progress_frame(1)
      split: sum.split upload_status.split option.split prod.split)

lemma same_files_replay: "same_files s (snd (replay_sidecars env now timeout inos s))"
proof (induction inos arbitrary: s)
  case (Cons ino inos)
  show ?case
    using Cons same_files_trans [OF same_files_reconcile Cons]
    by (auto simp: case_prod_unfold Let_def split: sum.split option.split)
qed simp

section \<open>Every sequence of operations\<close>

text \<open>One call of the service, a tick of the clock, or a change of the disk's or the server's
  behaviour.\<close>

inductive wp_step :: "'b wp_env \<Rightarrow> 'b write_path \<Rightarrow> 'b write_path \<Rightarrow> bool" for env where
  opened: "open_for_write ino path ap tr s = (r, s') \<Longrightarrow> wp_step env s s'"
| seeded: "seed_blob ino bytes s = (r, s') \<Longrightarrow> wp_step env s s'"
| created: "create_file env ino parent name s = (r, s') \<Longrightarrow> wp_step env s s'"
| wrote: "write_file env ino offset data s = (q, s') \<Longrightarrow> wp_step env s s'"
| flushed: "flush env ino s = (r, s') \<Longrightarrow> wp_step env s s'"
| truncated: "truncate_file env ino n s = (r, s') \<Longrightarrow> wp_step env s s'"
| unlinked: "unlink_file env oi path s = (r, s') \<Longrightarrow> wp_step env s s'"
| renamed: "rename_file env from to s = (r, s') \<Longrightarrow> wp_step env s s'"
| ticked: "wp_tick env order s = (r, s') \<Longrightarrow> wp_step env s s'"
| drained: "drain_all env order s = (rs, s') \<Longrightarrow> wp_step env s s'"
| released: "wp_step env s (release_handle ino s)"
| reconciled: "replay_upload_sidecars env timeout order s = (os, s') \<Longrightarrow> wp_step env s s'"
| environment: "wp_step env s (s\<lparr>wp_mono := t, wp_epoch := e, wp_faults := fs, wp_backend := b\<rparr>)"

lemma wp_step_accounts: "wp_step env s s' \<Longrightarrow> accounts s s'"
proof (induction rule: wp_step.induct)
  case (drained order s rs s')
  then show ?case using accounts_drain_each by (metis drain_all_def snd_conv)
next
  case (reconciled timeout order s os s')
  then show ?case using same_files_replay accounts_same_files by (metis replay_upload_sidecars_def snd_conv)
next
  case (environment s t e fs b)
  show ?case by (rule accounts_same) simp_all
qed (auto intro: accounts_release keepsD [OF accounted_open] keepsD [OF accounted_seed] keepsD [OF accounted_create]
  keepsD [OF accounted_write] keepsD [OF accounted_flush] keepsD [OF accounted_truncate]
  keepsD [OF accounted_unlink] keepsD [OF accounted_rename] keepsD [OF accounted_tick])

lemma wp_steps_accounts: "(wp_step env)\<^sup>*\<^sup>* s s' \<Longrightarrow> accounts s s'"
  by (induction rule: rtranclp_induct) (auto intro: accounts_trans wp_step_accounts)

lemma wp_inv_new: "wp_inv (write_path_new stage journal backend opts)"
  by (simp add: wp_inv_def write_path_new_def total_dirty_bytes_def)

lemma reachable_inv:
  assumes "(wp_step env)\<^sup>*\<^sup>* (write_path_new stage journal backend opts) s"
  shows "wp_inv s \<and> wp_options s = opts"
  using wp_steps_accounts [OF assms] wp_inv_new [of stage journal backend opts]
  unfolding accounts_def by (simp add: write_path_new_def)

section \<open>Blob names\<close>

lemma digit_eq: "i < 10 \<Longrightarrow> j < 10 \<Longrightarrow> ''0123456789'' ! i = ''0123456789'' ! j \<longleftrightarrow> i = j"
  by (rule nth_eq_iff_index_eq) simp_all

lemma show_nat_nonempty: "show_nat n \<noteq> []"
  by (subst show_nat.simps) simp

lemma show_nat_inj: "show_nat m = show_nat n \<Longrightarrow> m = n"
proof (induction m arbitrary: n rule: show_nat.induct)
  case (1 m)
  have big: "show_nat (k div 10) @ [''0123456789'' ! (k mod 10)] \<noteq> [c]" for k c
    by (simp add: show_nat_nonempty)
  show ?case
  proof (cases "m < 10")
    case True
    with "1.prems" big [of n] have "n < 10" by (auto simp: show_nat.simps [of m] show_nat.simps [of n] split: if_splits)
    with True "1.prems" show ?thesis by (simp add: show_nat.simps [of m] show_nat.simps [of n] digit_eq)
  next
    case False
    with "1.prems" big [of m] have "\<not> n < 10"
      by (metis show_nat.simps)
    with False "1.prems" have "show_nat (m div 10) = show_nat (n div 10)" "m mod 10 = n mod 10"
      by (auto simp: show_nat.simps [of m] show_nat.simps [of n] digit_eq)
    with "1.IH" [OF False] show ?thesis by (metis div_mult_mod_eq)
  qed
qed

lemma show_nat_digits: "set (show_nat n) \<subseteq> set ''0123456789''"
proof (induction n rule: show_nat.induct)
  case (1 n)
  have "k < 10 \<Longrightarrow> ''0123456789'' ! k \<in> set ''0123456789''" for k by (rule nth_mem) simp
  with 1 show ?case by (subst show_nat.simps) auto
qed

lemma blob_name_for_ino_inj [simp]: "blob_name_for_ino i = blob_name_for_ino j \<longleftrightarrow> i = j"
  by (auto simp: blob_name_for_ino_def word_unat_eq_iff dest!: show_nat_inj)

lemma blob_name_for_ino_ok [simp]: "blob_name_ok (blob_name_for_ino i)"
  using show_nat_digits [of "unat i"] by (auto simp: blob_name_ok_def blob_name_for_ino_def)

section \<open>What readers see\<close>

text \<open>No staged content and no name of a blob changes.\<close>

definition quiet :: "'b write_path \<Rightarrow> 'b write_path \<Rightarrow> bool" where
  "quiet s s' \<longleftrightarrow> wp_blobs s' = wp_blobs s
     \<and> (\<forall>i. map_option wh_blob_name (wp_handles s' i) = map_option wh_blob_name (wp_handles s i))"

interpretation qt: state_relation quiet
  by unfold_locales (simp_all add: quiet_def same_files_def)

lemma quiet_reset_dirty: "quiet s (reset_dirty ino s)"
  by (cases "wp_handles s ino") (auto simp: quiet_def reset_dirty_handle reset_dirty_def)

lemma quiet_read:
  assumes "quiet s s'"
  shows "read_staged i pos k s' = read_staged i pos k s"
proof -
  have n: "map_option wh_blob_name (wp_handles s' i) = map_option wh_blob_name (wp_handles s i)" and b: "wp_blobs s' = wp_blobs s"
    using assms by (simp_all add: quiet_def)
  from n show ?thesis by (cases "wp_handles s i"; cases "wp_handles s' i") (simp_all add: read_staged_def b)
qed

lemma after_write_result:
  assumes "after_write env ino h dirty n s = (Ok m, s')"
  shows "m = n"
  using assms
  by (auto simp: after_write_def and_then_def Let_def split: if_splits sum.splits write_path_error.splits prod.splits)

definition window :: "nat \<Rightarrow> nat \<Rightarrow> byte list \<Rightarrow> byte list" where
  "window pos k bs = take k (drop pos bs)"

section \<open>A small service\<close>

definition small_options :: write_path_options where
  "small_options = write_path_options_default\<lparr>max_global_staging_bytes := 10\<rparr>"

definition small_service :: "mock write_path" where
  "small_service = write_path_new Map.empty (wj_open []) mock_new small_options"

abbreviation menv :: "mock wp_env" where "menv \<equiv> mock_env toy_enc"

lemma toy_append:
  "length (put_op jop) \<le> 1000 \<Longrightarrow> wj_append toy_enc NoFault jop j =
     (Ok (wj_next_seq j), j\<lparr>wj_file := wj_file j @ wj_frame (to_le_bytes (wj_next_seq j) @ put_op jop), wj_next_seq := wj_next_seq j + 1\<rparr>)"
  by (simp add: wj_append_def toy_enc_def MAX_RECORD_BYTES_def Let_def)

lemmas run_simps = and_then_def get_handle_def journal_append_def next_fault_def on_stage_def on_backend_def Let_def
  create_file_def open_for_write_def truncate_blob_def open_or_create_def open_blob_def create_blob_def
  write_file_def effective_offset_def within_staging_limit_def reserve_global_def write_blob_at_def after_write_def
  unlink_file_def remove_blob_def

lemmas service_simps = small_service_def write_path_new_def small_options_def write_path_options_default_def
  DEFAULT_MAX_STAGING_BYTES_def DEFAULT_FLUSH_THRESHOLD_BYTES_def DEFAULT_FLUSH_INTERVAL_def
  mock_env_def mock_unlink_remote_def mock_new_def wj_open_def

definition small_created :: "mock write_path" where
  "small_created = snd (create_file menv 2 ''/'' ''a'' small_service)"

definition small_written :: "mock write_path" where
  "small_written = snd (write_file menv 2 0 [1, 2, 3, 4, 5, 6] small_created)"

definition small_unlinked :: "mock write_path" where
  "small_unlinked = snd (unlink_file menv (Some 2) ''/a'' small_written)"

lemma small_create_Ok: "create_file menv 2 ''/'' ''a'' small_service = (Ok (), small_created)"
  unfolding small_created_def by (simp add: run_simps service_simps toy_append put_str_def prod_eq_iff)

lemma small_created_fields:
  "wp_handles small_created = [2 \<mapsto> \<lparr>wh_path = ''/a'', wh_blob_name = blob_name_for_ino 2, wh_dirty_bytes = 0,
     wh_last_flush = 0, wh_append_mode = False\<rparr>]"
  "wp_options small_created = small_options" "wp_global small_created = 0" "wp_faults small_created = []"
  "wp_blobs small_created = [blob_name_for_ino 2 \<mapsto> []]" "wp_mono small_created = 0" "wp_backend small_created = mock_new"
  unfolding small_created_def
  by (simp_all add: run_simps service_simps toy_append put_str_def join_path_def set_len_def)

lemma blob_2: "blob_name_for_ino 2 = ''ino-2.blob''"
  by (simp add: blob_name_for_ino_def show_nat.simps)

lemma small_write_Ok: "write_file menv 2 0 [1, 2, 3, 4, 5, 6] small_created = (Ok 6, small_written)"
  unfolding small_written_def
  by (simp add: run_simps small_created_fields service_simps toy_append put_str_def blob_2 blob_name_ok_def prod_eq_iff)

lemma six: "Suc (Suc (Suc (Suc (Suc (Suc 0))))) = 6"
  by simp

lemma small_written_fields:
  "wp_handles small_written = [2 \<mapsto> \<lparr>wh_path = ''/a'', wh_blob_name = blob_name_for_ino 2, wh_dirty_bytes = 6,
     wh_last_flush = 0, wh_append_mode = False\<rparr>]"
  "wp_options small_written = small_options" "wp_global small_written = 6" "wp_faults small_written = []"
  "wp_blobs small_written = [blob_name_for_ino 2 \<mapsto> [1, 2, 3, 4, 5, 6]]" "wp_mono small_written = 0"
  "wp_backend small_written = mock_new"
  unfolding small_written_def
  by (simp_all add: run_simps small_created_fields service_simps toy_append put_str_def blob_2 blob_name_ok_def write_at_def
      six)

lemma small_unlink_Ok: "unlink_file menv (Some 2) ''/a'' small_written = (Ok (), small_unlinked)"
  unfolding small_unlinked_def
  by (simp add: run_simps small_written_fields service_simps toy_append put_str_def blob_2 blob_name_ok_def prod_eq_iff)

lemma small_steps:
  "(wp_step menv)\<^sup>*\<^sup>* small_service small_created" "(wp_step menv)\<^sup>*\<^sup>* small_service small_written"
  using wp_step.created [OF small_create_Ok] wp_step.wrote [OF small_write_Ok] by auto

section \<open>Properties\<close>

text \<open>C30: whatever calls are made, fail or are retried, and whatever the disk and the server
  do, every open file has a staging blob of its own, and the process-wide counter covers
  all bytes not yet uploaded and never exceeds its ceiling.\<close>

theorem write_path_invariant:
  assumes "(wp_step env)\<^sup>*\<^sup>* (write_path_new stage journal backend opts) s"
  shows "(\<forall>i j h h'. wp_handles s i = Some h \<longrightarrow> wp_handles s j = Some h' \<longrightarrow> wh_blob_name h = wh_blob_name h' \<longrightarrow> i = j)
    \<and> (max_global_staging_bytes opts < usize_max \<longrightarrow>
         total_dirty_bytes s \<le> wp_global s \<and> wp_global s \<le> max_global_staging_bytes opts)"
  using reachable_inv [OF assms] unfolding wp_inv_def limited_def by auto

theorem write_path_invariant_witness:
  "wp_global small_written = 6 \<and> total_dirty_bytes small_written \<le> 6 \<and> wp_global small_written \<le> 10"
  using write_path_invariant [OF small_steps(2) [unfolded small_service_def]]
  by (simp add: small_options_def small_written_fields)

text \<open>Unlinking an open file does not release the bytes it had reserved, and no later
  operation gives them back: a write that needs them is refused for the rest of the
  process.\<close>

theorem unlink_leaks_reservation:
  assumes "(wp_step env)\<^sup>*\<^sup>* (write_path_new stage journal backend opts) s" and "max_global_staging_bytes opts < usize_max"
    and "wp_handles s ino = Some h" and "unlink_file env (Some ino) path s = (Ok (), s1)"
    and "(wp_step env)\<^sup>*\<^sup>* s1 s2" and "wh_dirty_bytes h + length data > max_global_staging_bytes opts"
  shows "total_dirty_bytes s2 + wh_dirty_bytes h \<le> wp_global s2 \<and> (\<exists>e. write_file env i offset data s2 = (Err e, s2))"
proof -
  have inv: "wp_inv s" "wp_options s = opts" using reachable_inv [OF assms(1)] by simp_all
  have lim: "limited s" using inv(2) assms(2) by (simp add: limited_def)
  note fin = inv_handles [OF inv(1) lim]
  from assms(4) have d: "wp_options s1 = wp_options s" "wp_handles s1 = (wp_handles s)(ino := None)" "wp_global s1 = wp_global s"
    by (cases rule: unlink_cases; simp)+
  have "total_dirty_bytes s1 + wh_dirty_bytes h = total_dirty_bytes s"
    using dirty_sum_upd(2) [OF fin(1), of ino] assms(3) d(2) by (simp add: total_dirty_bytes_sum dirty_in_def)
  with fin d have l1: "wh_dirty_bytes h \<le> leaked s1" by (simp add: leaked_def total_dirty_bytes_sum)
  have "accounts s s1" using keepsD [OF accounted_unlink assms(4)] .
  then have i1: "wp_inv s1" "limited s1" using inv lim d(1) by (simp_all add: accounts_def limited_def)
  with wp_steps_accounts [OF assms(5)] have i2: "wp_inv s2" "limited s2" "leaked s1 \<le> leaked s2" "wp_options s2 = opts"
    using d(1) inv(2) by (simp_all add: accounts_def limited_def)
  note f2 = inv_handles [OF i2(1,2)]
  have g2: "total_dirty_bytes s2 + wh_dirty_bytes h \<le> wp_global s2"
    using l1 i2(3) f2 by (simp add: leaked_def total_dirty_bytes_sum)
  have big: "wp_global s2 + length data > max_global_staging_bytes opts" using g2 assms(6) by linarith
  have "\<exists>e. write_file env i offset data s2 = (Err e, s2)"
  proof (cases "wp_handles s2 i")
    case (Some h2)
    with big i2(2,4) show ?thesis
      by (auto simp: write_file_def and_then_def get_handle_def reserve_global_def Let_def limited_def)
  qed (simp add: write_file_def and_then_def get_handle_def)
  with g2 show ?thesis ..
qed

theorem unlink_leaks_reservation_witness:
  "\<exists>e. write_file menv 3 0 [1, 2, 3, 4, 5] (snd (create_file menv 3 ''/'' ''b'' small_unlinked))
     = (Err e, snd (create_file menv 3 ''/'' ''b'' small_unlinked))"
proof -
  let ?s = "snd (create_file menv 3 ''/'' ''b'' small_unlinked)"
  have step: "(wp_step menv)\<^sup>*\<^sup>* small_unlinked ?s"
    using wp_step.created [of menv 3 "''/''" "''b''" small_unlinked _ ?s] by (metis prod.collapse r_into_rtranclp)
  show ?thesis
    using unlink_leaks_reservation [OF small_steps(2) [unfolded small_service_def] _ _ small_unlink_Ok step, of _ "[1, 2, 3, 4, 5]" 3 0]
    by (simp add: small_options_def small_written_fields)
qed

text \<open>C31: a write that succeeds reports all its bytes; the staged file is then the old one with
  the bytes written at the offset (its end for a file opened for appending), whatever
  flush the write started; and no other open file changes.\<close>

theorem read_after_write:
  assumes "(wp_step env)\<^sup>*\<^sup>* (write_path_new stage journal backend opts) s"
    and "write_file env ino offset data s = (Ok n, s')" and "wp_handles s ino = Some h"
  shows "n = length data
    \<and> (\<forall>pos k. read_staged ino pos k s' = Ok (window pos k (write_at (case wp_blobs s (wh_blob_name h) of None \<Rightarrow> [] | Some bs \<Rightarrow> bs)
          (effective_offset h offset s) data)))
    \<and> (\<forall>i pos k. i \<noteq> ino \<longrightarrow> read_staged i pos k s' = read_staged i pos k s)"
  using assms(2)
proof (cases rule: write_file_cases)
  case (staged h' s1)
  with assms(3) have h: "h' = h" by simp
  have inv: "wp_inv s" using reachable_inv [OF assms(1)] ..
  have name: "wh_blob_name h = blob_name_for_ino ino" using inv assms(3) by (simp add: wp_inv_def)
  note q = quiet_read [OF keepsD [OF qt.keeps_after_write [OF quiet_reset_dirty] staged(6)]]
  from staged(5) have b: "wp_blobs s1 = (wp_blobs s)(wh_blob_name h \<mapsto>
      write_at (case wp_blobs s (wh_blob_name h) of None \<Rightarrow> [] | Some bs \<Rightarrow> bs) (effective_offset h offset s) data)"
    unfolding h
    by (auto simp: write_blob_at_def open_or_create_def open_blob_def create_blob_def name split: option.splits)
  have "read_staged ino pos k s1 = Ok (window pos k (write_at (case wp_blobs s (wh_blob_name h) of None \<Rightarrow> [] | Some bs \<Rightarrow> bs)
      (effective_offset h offset s) data))" for pos k
    using staged(3) b by (simp add: read_staged_def read_blob_def open_blob_def name window_def h)
  moreover have "read_staged i pos k s1 = read_staged i pos k s" if "i \<noteq> ino" for i pos k
  proof (cases "wp_handles s i")
    case (Some hi)
    with inv have "wh_blob_name hi = blob_name_for_ino i" by (simp add: wp_inv_def)
    with that Some staged(3) b show ?thesis by (simp add: read_staged_def read_blob_def open_blob_def name)
  qed (use that staged(3) in \<open>simp add: read_staged_def\<close>)
  ultimately show ?thesis using q after_write_result [OF staged(6)] by simp
qed auto

theorem read_after_write_witness:
  "\<forall>pos k. read_staged 2 pos k small_written = Ok (window pos k [1, 2, 3, 4, 5, 6])"
  using read_after_write [OF small_steps(1) [unfolded small_service_def] small_write_Ok, of
      "\<lparr>wh_path = ''/a'', wh_blob_name = blob_name_for_ino 2, wh_dirty_bytes = 0, wh_last_flush = 0, wh_append_mode = False\<rparr>"]
  by (simp add: small_created_fields effective_offset_def write_at_def)

end
