(* ===== verification/Upload_Safety.thy ===== *)
theory Upload_Safety
  imports Write_Accounting
begin

text \<open>
  What a chunked upload stores and when it finishes: content, resumption after an
  interrupted attempt, reconciliation of progress files with the server, and completion
  under transient failures.
\<close>

section \<open>Reconciliation\<close>

lemma remove_progress_quiet [simp]:
  "wp_faults s = [] \<Longrightarrow> wp_sidecars (remove_progress ino s) = (wp_sidecars s)(ino := None)"
  by (simp add: remove_progress_def next_fault_def)

lemma save_progress_quiet:
  "wp_faults s = [] \<Longrightarrow> save_progress ino p s = (Ok (), s\<lparr>wp_sidecars := (wp_sidecars s)(ino \<mapsto> SideProgress p)\<rparr>)"
  by (simp add: save_progress_def next_fault_def)

text \<open>Without disk faults, a progress file that survives the reconciliation records what the
  server reports.\<close>

lemma reconcile_progress:
  assumes "reconcile_sidecar env now timeout ino p s = (out, s')"
    and "wp_sidecars s ino = Some (SideProgress p)" and "wp_faults s = []"
    and "be_upload_status env (wp_backend s) (up_upload_id p) = Ok (StatusBytes n)"
    and "wp_sidecars s' ino = Some (SideProgress q)"
  shows "up_upload_id q = up_upload_id p \<and> up_blob_name q = up_blob_name p \<and> up_total_size q = up_total_size p
    \<and> (n \<le> up_total_size p \<longrightarrow> up_acked_offset q = n)"
  using assms
  by (auto simp: reconcile_sidecar_def rewrite_progress_def save_progress_quiet Let_def min_def split: option.splits if_splits)

lemma reconcile_backend: "wp_backend (snd (reconcile_sidecar env now timeout ino p s)) = wp_backend s"
  by (auto simp: reconcile_sidecar_def rewrite_progress_def remove_progress_frame(2) Let_def dest: save_progress_frame(2)
      split: sum.split upload_status.split option.split prod.split)

lemma reconcile_faithful:
  assumes "reconcile_sidecar env now timeout ino p s = (out, s')"
    and "wp_sidecars s ino = Some (SideProgress p)" and "wp_faults s = []"
    and "be_upload_status env (wp_backend s) (up_upload_id p) = Ok (StatusBytes (length bs))"
    and "session (wp_backend s) (up_upload_id p) = Some bs" and "bytes = bs @ rest"
    and "up_total_size p = length bytes"
  shows "sound_resume session ino bn bytes bytes s'"
proof -
  have b: "wp_backend s' = wp_backend s" using reconcile_backend assms(1) by (metis snd_conv)
  have "length bs \<le> length bytes" using assms(6) by simp
  then have q: "up_acked_offset q = length bs" "up_upload_id q = up_upload_id p" if "resumable ino bn (length bytes) s' q" for q
    using reconcile_progress [OF assms(1-4), of q] that assms(7) by (simp_all add: resumable_def)
  have "received session (wp_backend s') (up_upload_id p) (length bs) bytes"
    using assms(5,6) by (simp add: received_def b)
  then show ?thesis unfolding sound_resume_def using q assms(6) by simp
qed

section \<open>Completion\<close>

text \<open>A server that, while healthy, accepts every request except for a bounded number of
  transient failures.\<close>

locale patient_server = upload_server env remote session
  for env :: "'b wp_env" and remote :: "'b \<Rightarrow> string \<rightharpoonup> byte list" and session :: "'b \<Rightarrow> u64 \<rightharpoonup> byte list" +
  fixes healthy :: "'b \<Rightarrow> bool" and patience :: "'b \<Rightarrow> nat"
  assumes create_works: "healthy b \<Longrightarrow>
      \<exists>uid b'. be_upload_create env b parent name = (Ok uid, b') \<and> healthy b' \<and> patience b' \<le> patience b"
    and write_works: "healthy b \<Longrightarrow> session b uid \<noteq> None \<Longrightarrow> off + length chunk \<le> usize_max \<Longrightarrow>
      \<exists>r b'. be_upload_write env b uid off chunk = (r, b') \<and> healthy b' \<and> session b' uid \<noteq> None \<and>
        (r = Ok () \<and> patience b' \<le> patience b \<or> (\<exists>m. r = Err (WpUploadTransient m)) \<and> patience b' < patience b)"
    and save_works: "healthy b \<Longrightarrow> session b uid = Some bs \<Longrightarrow> length bs = n \<Longrightarrow>
      \<exists>b'. be_upload_save env b uid parent name n = (Ok (), b')"

definition encodable :: "'b wp_env \<Rightarrow> string \<Rightarrow> bool" where
  "encodable env path \<longleftrightarrow> (\<forall>seq uid off n jop. jop \<in> {OpFlushBarrier path, OpChunkAck path uid off n} \<longrightarrow>
     (\<exists>p. wp_enc env \<lparr>jr_seq = seq, jr_op = jop\<rparr> = Some p \<and> length p \<le> MAX_RECORD_BYTES))"

lemma journal_append_works:
  assumes "\<And>seq. \<exists>p. wp_enc env \<lparr>jr_seq = seq, jr_op = jop\<rparr> = Some p \<and> length p \<le> MAX_RECORD_BYTES" and "wp_faults s = []"
  shows "\<exists>seq j. journal_append env jop s = (Ok seq, s\<lparr>wp_journal := j\<rparr>)"
  using assms(1) [of "wj_next_seq (wp_journal s)"] assms(2)
  by (auto simp: journal_append_def next_fault_def wj_append_def Let_def)

context patient_server
begin

text \<open>The state during an upload: disk and server work, the session is open.\<close>

definition going :: "u64 \<Rightarrow> 'b write_path \<Rightarrow> 'b write_path \<Rightarrow> bool" where
  "going uid s s' \<longleftrightarrow> wp_faults s' = [] \<and> healthy (wp_backend s') \<and> session (wp_backend s') uid \<noteq> None
     \<and> patience (wp_backend s') \<le> patience (wp_backend s) \<and> wp_options s' = wp_options s"

lemma send_chunk_completes:
  assumes "going uid s0 s" and "patience (wp_backend s) \<le> left" and "off + length chunk \<le> usize_max"
  shows "\<exists>s'. send_chunk env uid off chunk left s = (Ok (), s') \<and> going uid s0 s'"
  using assms(1,2)
proof (induction left arbitrary: s)
  case 0
  obtain r b' where w: "be_upload_write env (wp_backend s) uid off chunk = (r, b')" "healthy b'" "session b' uid \<noteq> None"
      "r = Ok () \<and> patience b' \<le> patience (wp_backend s) \<or> (\<exists>m. r = Err (WpUploadTransient m)) \<and> patience b' < patience (wp_backend s)"
    using write_works [OF _ _ assms(3), of "wp_backend s" uid] "0.prems"(1) by (auto simp: going_def)
  with 0 have "r = Ok ()" by auto
  with w 0 show ?case by (auto simp: on_backend_def going_def)
next
  case (Suc left)
  obtain r b' where w: "be_upload_write env (wp_backend s) uid off chunk = (r, b')" "healthy b'" "session b' uid \<noteq> None"
      "r = Ok () \<and> patience b' \<le> patience (wp_backend s) \<or> (\<exists>m. r = Err (WpUploadTransient m)) \<and> patience b' < patience (wp_backend s)"
    using write_works [OF _ _ assms(3), of "wp_backend s" uid] Suc.prems(1) by (auto simp: going_def)
  from w(4) show ?case
  proof
    assume "r = Ok () \<and> patience b' \<le> patience (wp_backend s)"
    with w Suc.prems show ?thesis by (auto simp: on_backend_def going_def)
  next
    assume r: "(\<exists>m. r = Err (WpUploadTransient m)) \<and> patience b' < patience (wp_backend s)"
    let ?s1 = "s\<lparr>wp_backend := b', wp_mono := wp_mono s + exp_backoff (chunk_retry_initial_backoff (wp_options s))
      (chunk_retry_attempts (wp_options s) - Suc left)\<rparr>"
    have "going uid s0 ?s1" "patience (wp_backend ?s1) \<le> left" using w r Suc.prems by (auto simp: going_def)
    from Suc.IH [OF this] r w(1) show ?thesis by (auto simp: on_backend_def)
  qed
qed

lemma upload_loop_completes:
  assumes "going uid s0 s" and "patience (wp_backend s0) \<le> chunk_retry_attempts (wp_options s0)"
    and "encodable env lp" and "length bytes \<le> usize_max" and "cb > 0"
  shows "\<exists>s'. upload_loop env ino lp bn bytes (length bytes) uid cb off s = (Ok (), s') \<and> going uid s0 s'"
  using assms(1)
proof (induction "length bytes - off" arbitrary: off s rule: less_induct)
  case less
  show ?case
  proof (cases "off < length bytes")
    case False
    with less.prems show ?thesis by (simp add: upload_loop.simps)
  next
    case True
    define want where "want = min cb (length bytes - off)"
    have w: "want > 0" "off + want \<le> length bytes" "length (take want (drop off bytes)) = want"
      using True assms(5) by (auto simp: want_def)
    have "patience (wp_backend s) \<le> chunk_retry_attempts (wp_options s)"
      using less.prems assms(2) by (auto simp: going_def)
    then obtain s1 where s1: "send_chunk env uid off (take want (drop off bytes)) (chunk_retry_attempts (wp_options s)) s = (Ok (), s1)"
        "going uid s0 s1"
      using send_chunk_completes [OF less.prems, of _ off "take want (drop off bytes)"] w assms(4) by fastforce
    have "wp_faults s1 = []" using s1(2) by (simp add: going_def)
    then obtain seq j where j: "journal_append env (OpChunkAck lp uid (of_nat off) (of_nat want)) s1 = (Ok seq, s1\<lparr>wp_journal := j\<rparr>)"
      using journal_append_works [of env "OpChunkAck lp uid (of_nat off) (of_nat want)" s1] assms(3) by (auto simp: encodable_def)
    obtain s3 where s3: "and_then (send_chunk env uid off (take want (drop off bytes)) (chunk_retry_attempts (wp_options s))) (\<lambda>_.
       and_then (journal_append env (OpChunkAck lp uid (of_nat off) (of_nat want))) (\<lambda>_ s. save_progress ino
         \<lparr>up_upload_id = uid, up_blob_name = bn, up_total_size = length bytes, up_acked_offset = off + want,
          up_heartbeat = now_unix_secs s\<rparr> s)) s = (Ok (), s3)" "going uid s0 s3"
      using s1 j \<open>wp_faults s1 = []\<close> by (auto simp: and_then_def save_progress_quiet going_def)
    have step: "upload_loop env ino lp bn bytes (length bytes) uid cb off s =
        upload_loop env ino lp bn bytes (length bytes) uid cb (off + want) s3"
      using True assms(5) w s3(1) by (subst upload_loop.simps) (simp add: want_def [symmetric] Let_def)
    have "length bytes - (off + want) < length bytes - off" using w True by linarith
    from less.hyps [OF this s3(2)] step show ?thesis by simp
  qed
qed

lemma session_start_completes:
  assumes "wp_faults s = []" "healthy (wp_backend s)" "wp_sidecars s ino \<noteq> Some SideGarbage"
    and "\<And>p. resumable ino bn n s p \<Longrightarrow> session (wp_backend s) (up_upload_id p) \<noteq> None"
  shows "\<exists>uid off s'. session_start env ino parent name bn n s = (Ok (uid, off), s') \<and> going uid s s'"
proof (cases "\<exists>p. resumable ino bn n s p")
  case True
  with assms show ?thesis by (auto simp: resumable_def session_start_def load_progress_def going_def)
next
  case False
  then have fresh: "session_start env ino parent name bn n s = fresh_session env ino parent name bn n s"
    using assms(3) by (auto simp: resumable_def session_start_def load_progress_def split: option.split sidecar_file.split)
  obtain uid b' where c: "be_upload_create env (wp_backend s) parent name = (Ok uid, b')" "healthy b'" "patience b' \<le> patience (wp_backend s)"
    using create_works [OF assms(2)] by blast
  with create_Ok [OF c(1)] assms(1) show ?thesis
    by (auto simp: fresh fresh_session_def and_then_def on_backend_def save_progress_quiet going_def)
qed

lemma run_session_completes:
  assumes "wp_faults s = []" "healthy (wp_backend s)" "wp_sidecars s ino \<noteq> Some SideGarbage"
    and "\<And>p. resumable ino bn (length bytes) s p \<Longrightarrow> session (wp_backend s) (up_upload_id p) \<noteq> None"
    and "patience (wp_backend s) \<le> chunk_retry_attempts (wp_options s)" and "encodable env (join_path parent name)"
    and "length bytes \<le> usize_max" "blob_name_ok bn" "wp_blobs s bn = Some bytes" and "sound_resume session ino bn bytes target s"
  shows "\<exists>s'. run_chunked_session env ino parent name bn (length bytes) s = (Ok (), s')"
proof -
  obtain uid off s1 where s1: "session_start env ino parent name bn (length bytes) s = (Ok (uid, off), s1)" "going uid s s1"
    using session_start_completes [OF assms(1-4)] by blast
  note st = session_start_cases [OF s1(1) assms(10)]
  let ?cb = "if chunk_size_bytes (wp_options s1) = 0 then DEFAULT_CHUNK_SIZE_BYTES else chunk_size_bytes (wp_options s1)"
  have cb: "?cb > 0" by (simp add: DEFAULT_CHUNK_SIZE_BYTES_def UPLOAD_CHUNK_BYTES_def)
  obtain s2 where s2: "upload_loop env ino (join_path parent name) bn bytes (length bytes) uid ?cb off s1 = (Ok (), s2)" "going uid s s2"
    using upload_loop_completes [OF s1(2) assms(5,6,7) cb] by blast
  have len: "length target = length bytes" using assms(10) by (simp add: sound_resume_def)
  from st s1(1) obtain p where p: "off \<le> length target" "drop off bytes = drop off target" "received session (wp_backend s1) uid off target"
      "wp_sidecars s1 ino = Some (SideProgress p)" "progress_for p uid bn (length target)" "up_acked_offset p = off" by blast
  have rec: "received session (wp_backend s2) uid (length target) target"
    using upload_loop_received [OF s2(1) [folded len] p(1) cb p(2-6)] by simp
  obtain bs where bs: "session (wp_backend s2) uid = Some bs" using s2(2) by (auto simp: going_def)
  then have "length bs = length bytes" using rec received_all len by metis
  with bs s2(2) obtain b' where "be_upload_save env (wp_backend s2) uid parent name (length bytes) = (Ok (), b')"
    using save_works [of "wp_backend s2" uid bs "length bytes"] by (auto simp: going_def)
  moreover have "open_blob bn (wp_blobs s1) = Ok bytes" using assms(8,9) st by (simp add: open_blob_def same_files_def)
  ultimately show ?thesis using s1(1) s2(1) by (simp add: run_chunked_session_def and_then_def on_backend_def Let_def)
qed

lemma chunked_flush_completes:
  assumes "wp_faults s = []" "healthy (wp_backend s)" "wp_sidecars s ino \<noteq> Some SideGarbage"
    and "\<And>p. resumable ino (wh_blob_name h) (length bytes) s p \<Longrightarrow> session (wp_backend s) (up_upload_id p) \<noteq> None"
    and "patience (wp_backend s) \<le> chunk_retry_attempts (wp_options s)" and "encodable env (wh_path h)"
    and "wp_handles s ino = Some h" and "length bytes \<le> usize_max" "blob_name_ok (wh_blob_name h)"
    and "wp_blobs s (wh_blob_name h) = Some bytes" and "faithful session ino (wh_blob_name h) bytes s"
    and "canonical (wh_path h)" and "split_parent_name (wh_path h) \<noteq> None"
  shows "\<exists>s'. chunked_flush env ino s = (Ok (), s') \<and> remote (wp_backend s') (wh_path h) = Some bytes"
proof -
  obtain parent name where pn: "split_parent_name (wh_path h) = Some (parent, name)" using assms(13) by auto
  note path = join_split [OF pn assms(12)]
  obtain seq j where j: "journal_append env (OpFlushBarrier (wh_path h)) s = (Ok seq, s\<lparr>wp_journal := j\<rparr>)"
    using journal_append_works [OF _ assms(1), of env "OpFlushBarrier (wh_path h)"] assms(6) by (auto simp: encodable_def)
  let ?s1 = "s\<lparr>wp_journal := j\<rparr>"
  have "faithful session ino (wh_blob_name h) bytes ?s1" using assms(11) by (simp add: faithful_iff resumable_def)
  then obtain s2 where s2: "run_chunked_session env ino parent name (wh_blob_name h) (length bytes) ?s1 = (Ok (), s2)"
    using run_session_completes [of ?s1 ino "wh_blob_name h" bytes parent name] assms path by (auto simp: resumable_def)
  then have ok: "chunked_flush env ino s = (Ok (), reset_dirty ino s2)"
    using assms(7,9,10) pn j by (simp add: chunked_flush_def and_then_def get_handle_def)
  from chunked_flush_content [OF ok assms(7,10,11,12)] ok show ?thesis by blast
qed

end

section \<open>The mock server\<close>

definition mock_healthy :: "mock \<Rightarrow> bool" where
  "mock_healthy b \<longleftrightarrow> \<not> mk_disable_chunked b \<and> \<not> mk_permanent_next_write b \<and> mk_fail_chunk_after b = None"

interpretation mock: patient_server "mock_env enc" mk_uploads mock_session mock_healthy mk_transient_writes_remaining
proof unfold_locales
  fix b parent name assume "mock_healthy b"
  then show "\<exists>uid b'. be_upload_create (mock_env enc) b parent name = (Ok uid, b') \<and> mock_healthy b'
      \<and> mk_transient_writes_remaining b' \<le> mk_transient_writes_remaining b"
    by (simp add: mock_env_def mock_upload_create_def mock_healthy_def Let_def)
next
  fix b uid off chunk assume "mock_healthy b" "mock_session b uid \<noteq> None" "off + length (chunk :: byte list) \<le> usize_max"
  then show "\<exists>r b'. be_upload_write (mock_env enc) b uid off chunk = (r, b') \<and> mock_healthy b' \<and> mock_session b' uid \<noteq> None \<and>
      (r = Ok () \<and> mk_transient_writes_remaining b' \<le> mk_transient_writes_remaining b
       \<or> (\<exists>m. r = Err (WpUploadTransient m)) \<and> mk_transient_writes_remaining b' < mk_transient_writes_remaining b)"
    by (auto simp: mock_env_def mock_upload_write_def mock_healthy_def mock_session_def Let_def)
next
  fix b uid bs n parent name assume "mock_healthy b" "mock_session b uid = Some bs" "length bs = n"
  then show "\<exists>b'. be_upload_save (mock_env enc) b uid parent name n = (Ok (), b')"
    by (auto simp: mock_env_def mock_upload_save_def mock_healthy_def mock_session_def Let_def)
qed

lemma canonical_a: "canonical ''/a''"
  unfolding canonical_def
  by (intro exI [of _ "[''a'']"]) (simp add: plain_name_def render_def)

lemma parent_a: "split_parent_name ''/a'' = Some (''/'', ''a'')"
  by (simp add: split_parent_name_def)

lemma encodable_a: "encodable (mock_env toy_enc) ''/a''"
  by (auto simp: encodable_def mock_env_def toy_enc_def put_str_def MAX_RECORD_BYTES_def)

definition with_server :: "mock \<Rightarrow> mock write_path" where
  "with_server b = small_written\<lparr>wp_backend := b\<rparr>"

lemma with_server_fields [simp]:
  "wp_handles (with_server b) = [2 \<mapsto> \<lparr>wh_path = ''/a'', wh_blob_name = blob_name_for_ino 2, wh_dirty_bytes = 6,
     wh_last_flush = 0, wh_append_mode = False\<rparr>]"
  "wp_options (with_server b) = small_options" "wp_faults (with_server b) = []"
  "wp_blobs (with_server b) = [blob_name_for_ino 2 \<mapsto> [1, 2, 3, 4, 5, 6]]" "wp_backend (with_server b) = b"
  "wp_sidecars (with_server b) = Map.empty"
proof -
  show "wp_sidecars (with_server b) = Map.empty"
    unfolding with_server_def small_written_def
    by (simp add: run_simps small_created_fields service_simps toy_append put_str_def blob_2 blob_name_ok_def)
      (simp add: small_created_def run_simps service_simps toy_append put_str_def)
qed (simp_all add: with_server_def small_written_fields)

abbreviation file_a :: write_handle where
  "file_a \<equiv> \<lparr>wh_path = ''/a'', wh_blob_name = blob_name_for_ino 2, wh_dirty_bytes = 6, wh_last_flush = 0, wh_append_mode = False\<rparr>"

lemma with_server_faithful: "faithful session 2 bn bytes (with_server b)"
  by (simp add: sound_resume_def resumable_def)

section \<open>Properties\<close>



text \<open>An attempt that resumes sends only the bytes after the recorded offset.  The progress
  file is matched by the inode's blob name and the size alone, so when the file was
  overwritten in place since the interrupted attempt, the stored file is the old beginning
  followed by the new rest.\<close>

theorem resumed_upload_keeps_old_prefix:
  assumes "upload_server env remote session"
    and "run_chunked_session env ino parent name bn (length new) s = (Ok (), s')"
    and "blob_name_ok bn" and "wp_blobs s bn = Some new"
    and "wp_sidecars s ino = Some (SideProgress p)" and "up_blob_name p = bn" and "up_total_size p = length new"
    and "length old = length new" and "up_acked_offset p \<le> length new"
    and "session (wp_backend s) (up_upload_id p) = Some (take (up_acked_offset p) old)"
  shows "remote (wp_backend s') (join_path parent name) = Some (take (up_acked_offset p) old @ drop (up_acked_offset p) new)"
proof -
  let ?k = "up_acked_offset p" and ?t = "take (up_acked_offset p) old @ drop (up_acked_offset p) new"
  have "sound_resume session ino bn new ?t s"
    using assms(5-10) by (auto simp: sound_resume_def resumable_def received_def)
  from upload_server.run_session_content [OF assms(1-4) this] show ?thesis by simp
qed

definition old_session :: "mock write_path" where
  "old_session = (with_server (mock_new\<lparr>mk_in_progress := [7 \<mapsto> (''/'', ''a'', [9, 9, 9])]\<rparr>))
     \<lparr>wp_sidecars := [2 \<mapsto> SideProgress \<lparr>up_upload_id = 7, up_blob_name = blob_name_for_ino 2, up_total_size = 6,
        up_acked_offset = 3, up_heartbeat = 0\<rparr>]\<rparr>"

theorem resumed_upload_keeps_old_prefix_witness:
  "\<exists>s'. run_chunked_session menv 2 ''/'' ''a'' (blob_name_for_ino 2) 6 old_session = (Ok (), s')
     \<and> mk_uploads (wp_backend s') ''/a'' = Some [9, 9, 9, 4, 5, 6]"
proof -
  let ?new = "[1, 2, 3, 4, 5, 6] :: byte list" and ?old = "[9, 9, 9, 9, 9, 9] :: byte list"
  have "sound_resume mock_session 2 (blob_name_for_ino 2) ?new [9, 9, 9, 4, 5, 6] old_session"
    by (auto simp: sound_resume_def resumable_def received_def old_session_def mock_session_def numeral_eq_Suc)
  then obtain s' where "run_chunked_session menv 2 ''/'' ''a'' (blob_name_for_ino 2) (length ?new) old_session = (Ok (), s')"
    using mock.run_session_completes [of old_session 2 "blob_name_for_ino 2" ?new toy_enc "''/''" "''a''"] encodable_a
    by (auto simp: old_session_def mock_healthy_def mock_new_def resumable_def mock_session_def join_path_def)
  with resumed_upload_keeps_old_prefix [OF mock.upload_server_axioms this, of _ ?old]
  show ?thesis by (auto simp: old_session_def mock_session_def join_path_def six)
qed

text \<open>C29: with a working disk and a server that fails transiently no more often than a chunk may
  be retried, a chunked upload completes and the file is stored.\<close>

theorem chunked_flush_finishes:
  assumes "patient_server env remote session healthy patience"
    and "wp_faults s = []" and "healthy (wp_backend s)" and "wp_sidecars s ino \<noteq> Some SideGarbage"
    and "\<forall>p. resumable ino (wh_blob_name h) (length bytes) s p \<longrightarrow> session (wp_backend s) (up_upload_id p) \<noteq> None"
    and "patience (wp_backend s) \<le> chunk_retry_attempts (wp_options s)" and "encodable env (wh_path h)"
    and "wp_handles s ino = Some h" and "length bytes \<le> usize_max" and "blob_name_ok (wh_blob_name h)"
    and "wp_blobs s (wh_blob_name h) = Some bytes" and "faithful session ino (wh_blob_name h) bytes s"
    and "canonical (wh_path h)" and "split_parent_name (wh_path h) \<noteq> None"
  shows "\<exists>s'. chunked_flush env ino s = (Ok (), s') \<and> remote (wp_backend s') (wh_path h) = Some bytes"
  using patient_server.chunked_flush_completes [OF assms(1-4) _ assms(6-14)] assms(5) by blast

theorem chunked_flush_finishes_witness:
  "\<exists>s'. chunked_flush menv 2 (with_server (mock_new\<lparr>mk_transient_writes_remaining := 5\<rparr>)) = (Ok (), s')
     \<and> mk_uploads (wp_backend s') ''/a'' = Some [1, 2, 3, 4, 5, 6]"
  using chunked_flush_finishes [OF mock.patient_server_axioms, of
      "with_server (mock_new\<lparr>mk_transient_writes_remaining := 5\<rparr>)" 2
      file_a "[1, 2, 3, 4, 5, 6]" toy_enc]
  by (simp add: canonical_a encodable_a with_server_faithful resumable_def mock_healthy_def mock_new_def small_options_def
      write_path_options_default_def DEFAULT_CHUNK_RETRY_ATTEMPTS_def parent_a)

text \<open>C32: after a restart, when the server reports the bytes it holds of an interrupted upload
  and they are the beginning of the file, the reconciled progress file leads the next
  chunked upload to store exactly the file.\<close>

theorem reconciled_upload_stores_file:
  assumes "upload_server env remote session"
    and "replay_upload_sidecars env timeout [ino] s = (outcomes, s1)" and "chunked_flush env ino s1 = (Ok (), s2)"
    and "wp_sidecars s ino = Some (SideProgress p)" and "up_total_size p = length (bs @ rest)" and "wp_faults s = []"
    and "session (wp_backend s) (up_upload_id p) = Some bs"
    and "be_upload_status env (wp_backend s) (up_upload_id p) = Ok (StatusBytes (length bs))"
    and "wp_handles s ino = Some h" and "wp_blobs s (wh_blob_name h) = Some (bs @ rest)" and "canonical (wh_path h)"
  shows "remote (wp_backend s2) (wh_path h) = Some (bs @ rest)"
proof -
  have r: "reconcile_sidecar env (now_unix_secs s) timeout ino p s = (hd outcomes, s1)"
    using assms(2,4) by (auto simp: replay_upload_sidecars_def load_progress_def Let_def case_prod_unfold prod_eq_iff)
  have "same_files s s1" using same_files_reconcile r by (metis snd_conv)
  then have h: "wp_handles s1 ino = Some h" "wp_blobs s1 (wh_blob_name h) = Some (bs @ rest)"
    using assms(9,10) by (simp_all add: same_files_def)
  have "faithful session ino (wh_blob_name h) (bs @ rest) s1"
    using reconcile_faithful [where session = session, OF r assms(4,6,8,7) refl assms(5)] .
  from upload_server.chunked_flush_content [OF assms(1,3) h this assms(11)] show ?thesis by simp
qed

theorem reconciled_upload_stores_file_witness:
  "\<exists>s1 s2. replay_upload_sidecars menv 600 [2] (old_session\<lparr>wp_backend := mock_new\<lparr>mk_in_progress := [7 \<mapsto> (''/'', ''a'', [1, 2])]\<rparr>\<rparr>)
       = ([SidecarTrimmed 2 7 2], s1)
     \<and> chunked_flush menv 2 s1 = (Ok (), s2) \<and> mk_uploads (wp_backend s2) ''/a'' = Some [1, 2, 3, 4, 5, 6]"
proof -
  let ?s = "old_session\<lparr>wp_backend := mock_new\<lparr>mk_in_progress := [7 \<mapsto> (''/'', ''a'', [1, 2])]\<rparr>\<rparr>"
  define p where "p = \<lparr>up_upload_id = 7, up_blob_name = blob_name_for_ino 2, up_total_size = 6, up_acked_offset = 2,
      up_heartbeat = now_unix_secs ?s\<rparr>"
  define s1 where "s1 = snd (replay_upload_sidecars menv 600 [2] ?s)"
  note eval = replay_upload_sidecars_def load_progress_def old_session_def reconcile_sidecar_def rewrite_progress_def
    save_progress_quiet mock_env_def mock_upload_status_def mock_new_def idle_for_if_stalled_def Let_def
  have "fst (replay_upload_sidecars menv 600 [2] ?s) = [SidecarTrimmed 2 7 2]" by (simp add: eval)
  then have r: "replay_upload_sidecars menv 600 [2] ?s = ([SidecarTrimmed 2 7 2], s1)" by (simp add: s1_def prod_eq_iff)
  have s1: "wp_sidecars s1 2 = Some (SideProgress p)" "wp_faults s1 = []" "wp_options s1 = small_options"
      "wp_backend s1 = mock_new\<lparr>mk_in_progress := [7 \<mapsto> (''/'', ''a'', [1, 2])]\<rparr>" "wp_handles s1 2 = Some file_a"
      "wp_blobs s1 (blob_name_for_ino 2) = Some [1, 2, 3, 4, 5, 6]"
    by (simp_all add: s1_def eval p_def)
  have f: "faithful mock_session 2 (blob_name_for_ino 2) [1, 2, 3, 4, 5, 6] s1"
    by (auto simp: sound_resume_def resumable_def received_def s1 p_def mock_session_def numeral_eq_Suc)
  obtain s2 where s2: "chunked_flush menv 2 s1 = (Ok (), s2)"
    using mock.chunked_flush_completes [of s1 2 file_a "[1, 2, 3, 4, 5, 6]" toy_enc] f canonical_a encodable_a
    by (auto simp: s1 mock_healthy_def mock_new_def resumable_def mock_session_def p_def
        parent_a)
  show ?thesis
    using reconciled_upload_stores_file [OF mock.upload_server_axioms r s2, of _ "[1, 2]" "[3, 4, 5, 6]" file_a] r s2
    by (simp add: old_session_def mock_session_def canonical_a mock_env_def mock_upload_status_def mock_new_def)
qed

end
