(* ===== verification/Http_Date.thy ===== *)
theory Http_Date
  imports Rust_Str
begin

text \<open>
  The parser of \<open>Retry-After\<close> dates in \<open>pcloud-resilience/src/transport.rs\<close>: IMF-fixdate
  text to a Unix timestamp.  The slices of the text are compared byte by byte; a slice
  that is not on character boundaries holds a byte that is no digit, so \<open>str::get\<close> and the
  number parser reject the same texts.  Years are integers: the parser reads at most four
  characters, far from the bounds of \<open>i32\<close>.
\<close>

section \<open>Numbers\<close>

definition digit_value :: "char \<Rightarrow> nat option" where
  "digit_value c = (let k = of_char c :: nat in if 48 \<le> k \<and> k \<le> 57 then Some (k - 48) else None)"

fun digits_value :: "nat \<Rightarrow> string \<Rightarrow> nat option" where
  "digits_value acc [] = Some acc"
| "digits_value acc (c # cs) = (case digit_value c of None \<Rightarrow> None | Some k \<Rightarrow> digits_value (10 * acc + k) cs)"

text \<open>\<open>parse::<u32>()\<close> and \<open>parse::<i32>()\<close> of a short text.\<close>

definition parse_unsigned :: "string \<Rightarrow> nat option" where
  "parse_unsigned s =
     (case s of
        [] \<Rightarrow> None
      | c # cs \<Rightarrow> if c = CHR ''+'' then (if cs = [] then None else digits_value 0 cs) else digits_value 0 s)"

definition parse_signed :: "string \<Rightarrow> int option" where
  "parse_signed s =
     (case s of
        [] \<Rightarrow> None
      | c # cs \<Rightarrow>
          if c = CHR ''-'' then (if cs = [] then None else map_option (\<lambda>n. - int n) (digits_value 0 cs))
          else map_option int (parse_unsigned s))"

section \<open>The calendar\<close>

definition is_leap_year :: "int \<Rightarrow> bool" where
  "is_leap_year y \<longleftrightarrow> (y mod 4 = 0 \<and> y mod 100 \<noteq> 0) \<or> y mod 400 = 0"

definition days_in_month :: "int \<Rightarrow> nat \<Rightarrow> nat" where
  "days_in_month year month =
     (if month \<in> {1, 3, 5, 7, 8, 10, 12} then 31
      else if month \<in> {4, 6, 9, 11} then 30
      else if month = 2 then (if is_leap_year year then 29 else 28)
      else 0)"

text \<open>Division in \<open>i32\<close> rounds towards zero.\<close>

definition unix_timestamp :: "int \<Rightarrow> nat \<Rightarrow> nat \<Rightarrow> nat \<Rightarrow> nat \<Rightarrow> nat \<Rightarrow> int" where
  "unix_timestamp year month day hour minute second =
     (let y = (if month \<le> 2 then year - 1 else year);
          era = (if y \<ge> 0 then y div 400 else - ((399 - y) div 400));
          yoe = y - era * 400;
          doy = (153 * (if month > 2 then int month - 3 else int month + 9) + 2) div 5 + int day - 1;
          doe = yoe * 365 + yoe div 4 - yoe div 100 + doy;
          days = era * 146097 + doe - 719468
      in days * 86400 + int hour * 3600 + int minute * 60 + int second)"

definition month_number :: "string \<Rightarrow> nat option" where
  "month_number s =
     (if s = ''Jan'' then Some 1 else if s = ''Feb'' then Some 2 else if s = ''Mar'' then Some 3
      else if s = ''Apr'' then Some 4 else if s = ''May'' then Some 5 else if s = ''Jun'' then Some 6
      else if s = ''Jul'' then Some 7 else if s = ''Aug'' then Some 8 else if s = ''Sep'' then Some 9
      else if s = ''Oct'' then Some 10 else if s = ''Nov'' then Some 11 else if s = ''Dec'' then Some 12
      else None)"

abbreviation slice :: "nat \<Rightarrow> nat \<Rightarrow> string \<Rightarrow> string" where
  "slice a b s \<equiv> take (b - a) (drop a s)"

definition parse_imf_fixdate_unix :: "string \<Rightarrow> int option" where
  "parse_imf_fixdate_unix s =
     (if length s \<noteq> 29 then None
      else if s ! 3 \<noteq> CHR '','' \<or> s ! 4 \<noteq> CHR '' '' \<or> drop 25 s \<noteq> '' GMT'' then None
      else
        (case parse_unsigned (slice 5 7 s) of None \<Rightarrow> None | Some day \<Rightarrow>
        (case parse_signed (slice 12 16 s) of None \<Rightarrow> None | Some year \<Rightarrow>
        (case parse_unsigned (slice 17 19 s) of None \<Rightarrow> None | Some hour \<Rightarrow>
        (case parse_unsigned (slice 20 22 s) of None \<Rightarrow> None | Some minute \<Rightarrow>
        (case parse_unsigned (slice 23 25 s) of None \<Rightarrow> None | Some second \<Rightarrow>
          if \<not> hour < 24 \<or> \<not> minute < 60 \<or> \<not> second < 60 then None
          else
            (case month_number (slice 8 11 s) of None \<Rightarrow> None | Some month \<Rightarrow>
              if day = 0 \<or> day > days_in_month year month then None
              else Some (unix_timestamp year month day hour minute second))))))))"

section \<open>The reference calendar\<close>

text \<open>The day after a date, and the days counted from the epoch.\<close>

fun next_day :: "int \<times> nat \<times> nat \<Rightarrow> int \<times> nat \<times> nat" where
  "next_day (y, m, d) =
     (if d < days_in_month y m then (y, m, d + 1)
      else if m < 12 then (y, m + 1, 1)
      else (y + 1, 1, 1))"

definition civil_day :: "nat \<Rightarrow> int \<times> nat \<times> nat" where
  "civil_day k = (next_day ^^ k) (1970, 1, 1)"

definition valid_date :: "int \<times> nat \<times> nat \<Rightarrow> bool" where
  "valid_date = (\<lambda>(y, m, d). 1 \<le> m \<and> m \<le> 12 \<and> 1 \<le> d \<and> d \<le> days_in_month y m)"

definition day_number :: "int \<times> nat \<times> nat \<Rightarrow> int" where
  "day_number = (\<lambda>(y, m, d). unix_timestamp y m d 0 0 0 div 86400)"

text \<open>The number of days without eras.\<close>

lemma era_floor: "(if y \<ge> 0 then y div 400 else - ((399 - y) div 400)) = (y :: int) div 400"
proof -
  let ?q = "(399 - y) div 400" and ?r = "(399 - y) mod 400"
  have "399 - y = 400 * ?q + ?r" "0 \<le> ?r" "?r < 400" by simp_all
  then have "y = 400 * (- ?q) + (399 - ?r)" "0 \<le> 399 - ?r" "399 - ?r < 400" by linarith+
  then have "y div 400 = - ?q" by (intro int_div_pos_eq)
  then show ?thesis by simp
qed

definition year_days :: "int \<Rightarrow> int" where
  "year_days y = 365 * y + y div 4 - y div 100 + y div 400"

lemma day_number_flat:
  "day_number (y, m, d) =
     (let y' = (if m \<le> 2 then y - 1 else y) in
      year_days y' + (153 * (if m > 2 then int m - 3 else int m + 9) + 2) div 5 + int d - 1 - 719468)"
proof -
  have yoe: "(y' - y' div 400 * 400) div 4 = y' div 4 - 100 * (y' div 400)"
      "(y' - y' div 400 * 400) div 100 = y' div 100 - 4 * (y' div 400)" for y' :: int
    using div_mult_self1 [of 4 y' "- 100 * (y' div 400)"] div_mult_self1 [of 100 y' "- 4 * (y' div 400)"]
    by (simp_all add: algebra_simps)
  show ?thesis
    unfolding day_number_def unix_timestamp_def prod.case era_floor
    by (simp add: Let_def yoe year_days_def)
qed

lemma timestamp_split:
  "unix_timestamp y m d hour minute second = 86400 * day_number (y, m, d) + int hour * 3600 + int minute * 60 + int second"
proof -
  obtain N where N: "\<And>h i s. unix_timestamp y m d h i s = N * 86400 + int h * 3600 + int i * 60 + int s"
    unfolding unix_timestamp_def Let_def by blast
  then have "day_number (y, m, d) = N" by (simp add: day_number_def)
  with N show ?thesis by simp
qed

lemma month_cases: "1 \<le> m \<Longrightarrow> m \<le> 12 \<Longrightarrow> m \<in> {1, 2, 3, 4, 5, 6, 7, 8, 9, 10, 11, 12 :: nat}"
  by (simp only: insert_iff empty_iff) presburger

lemma div_step:
  fixes y n :: int
  assumes "n > 0"
  shows "y div n = (y - 1) div n + (if y mod n = 0 then 1 else 0)"
proof -
  have e: "y = n * (y div n) + y mod n" "0 \<le> y mod n" "y mod n < n" using assms by simp_all
  show ?thesis
  proof (cases "y mod n = 0")
    case True
    with e have "y - 1 = n * (y div n - 1) + (n - 1)" by (simp add: algebra_simps)
    then have "(y - 1) div n = y div n - 1" by (rule int_div_pos_eq) (use assms in auto)
    with True show ?thesis by simp
  next
    case False
    with e have "y - 1 = n * (y div n) + (y mod n - 1)" "0 \<le> y mod n - 1" "y mod n - 1 < n" by linarith+
    then have "(y - 1) div n = y div n" by (intro int_div_pos_eq)
    with False show ?thesis by simp
  qed
qed

lemma leap_step: "year_days y = year_days (y - 1) + (if is_leap_year y then 366 else 365)"
proof -
  have count: "365 * y + a - b + c = 365 * (y - 1) + a' - b' + c' + (if p \<and> \<not> q \<or> r then 366 else 365)"
    if "a = a' + (if p then 1 else 0)" "b = b' + (if q then 1 else 0)" "c = c' + (if r then 1 else 0)" "r \<longrightarrow> q" "q \<longrightarrow> p"
    for a a' b b' c c' :: int and p q r
    using that by auto
  have "y mod 400 = 0 \<longrightarrow> y mod 100 = 0" "y mod 100 = 0 \<longrightarrow> y mod 4 = 0"
    unfolding mod_eq_0_iff_dvd using dvd_trans [of 100 400 y] dvd_trans [of 4 100 y] by simp_all
  from count [OF div_step [OF zero_less_numeral] div_step [OF zero_less_numeral] div_step [OF zero_less_numeral] this]
  show ?thesis unfolding year_days_def is_leap_year_def .
qed

lemma next_day_number:
  assumes "valid_date x"
  shows "valid_date (next_day x) \<and> day_number (next_day x) = day_number x + 1"
proof -
  obtain y m d where x: "x = (y, m, d)" by (cases x) auto
  have m: "m \<in> {1, 2, 3, 4, 5, 6, 7, 8, 9, 10, 11, 12}"
    using assms by (intro month_cases) (simp_all add: x valid_date_def)
  have dim: "days_in_month y' k \<ge> 1" if "1 \<le> k" "k \<le> 12" for y' k
    using month_cases [OF that] by (auto simp: days_in_month_def)
  show ?thesis
  proof (cases "d < days_in_month y m")
    case True
    with assms show ?thesis by (auto simp: x valid_date_def day_number_flat Let_def)
  next
    case False
    then have d: "d = days_in_month y m" using assms by (simp add: x valid_date_def)
    have v: "valid_date (next_day x)" using m False dim by (auto simp: x valid_date_def)
    have "day_number (next_day x) = day_number x + 1"
      using m False leap_step [of y]
      by (auto simp: x d day_number_flat Let_def days_in_month_def)
    with v show ?thesis ..
  qed
qed

lemma civil_day_number: "valid_date (civil_day k) \<and> day_number (civil_day k) = int k"
proof (induction k)
  case 0
  show ?case by (simp add: civil_day_def valid_date_def days_in_month_def day_number_flat year_days_def Let_def)
next
  case (Suc k)
  have "civil_day (Suc k) = next_day (civil_day k)" by (simp add: civil_day_def)
  with Suc next_day_number [of "civil_day k"] show ?case by simp
qed

section \<open>Dates as senders write them\<close>

definition digit :: "nat \<Rightarrow> char" where
  "digit k = char_of (48 + k)"

definition pad2 :: "nat \<Rightarrow> string" where
  "pad2 n = [digit (n div 10), digit (n mod 10)]"

definition pad4 :: "nat \<Rightarrow> string" where
  "pad4 n = pad2 (n div 100) @ pad2 (n mod 100)"

definition month_name :: "nat \<Rightarrow> string" where
  "month_name m = [''Jan'', ''Feb'', ''Mar'', ''Apr'', ''May'', ''Jun'', ''Jul'', ''Aug'', ''Sep'', ''Oct'', ''Nov'', ''Dec''] ! (m - 1)"

definition imf_fixdate :: "string \<Rightarrow> int \<times> nat \<times> nat \<Rightarrow> nat \<Rightarrow> nat \<Rightarrow> nat \<Rightarrow> string" where
  "imf_fixdate weekday = (\<lambda>(y, m, d) hour minute second.
     weekday @ '', '' @ pad2 d @ '' '' @ month_name m @ '' '' @ pad4 (nat y) @ '' ''
       @ pad2 hour @ '':'' @ pad2 minute @ '':'' @ pad2 second @ '' GMT'')"

lemma digit_value_digit [simp]: "k < 10 \<Longrightarrow> digit_value (digit k) = Some k"
  by (simp add: digit_value_def digit_def)

lemma digit_no_sign [simp]: "k < 10 \<Longrightarrow> digit k \<noteq> CHR ''+''" "k < 10 \<Longrightarrow> digit k \<noteq> CHR ''-''"
  using digit_value_digit [of k] by (auto simp: digit_value_def)

lemma parse_pad2 [simp]: "n < 100 \<Longrightarrow> parse_unsigned (pad2 n) = Some n"
  by (simp add: parse_unsigned_def pad2_def)

lemma parse_pad4 [simp]: "n < 10000 \<Longrightarrow> parse_signed (pad4 n) = Some (int n)"
  by (simp add: parse_signed_def parse_unsigned_def pad4_def pad2_def less_mult_imp_div_less)

lemma month_name_number: "1 \<le> m \<Longrightarrow> m \<le> 12 \<Longrightarrow> length (month_name m) = 3 \<and> month_number (month_name m) = Some m"
  using month_cases [of m] by (auto simp: month_name_def month_number_def)

lemma length_pad [simp]: "length (pad2 n) = 2" "length (pad4 n) = 4"
  by (simp_all add: pad2_def pad4_def)

lemma imf_fixdate_slices:
  assumes "length weekday = 3" "length (month_name m) = 3"
  shows "length (imf_fixdate weekday (y, m, d) h i s) = 29"
    and "imf_fixdate weekday (y, m, d) h i s ! 3 = CHR '',''" "imf_fixdate weekday (y, m, d) h i s ! 4 = CHR '' ''"
    and "drop 25 (imf_fixdate weekday (y, m, d) h i s) = '' GMT''"
    and "slice 5 7 (imf_fixdate weekday (y, m, d) h i s) = pad2 d" "slice 8 11 (imf_fixdate weekday (y, m, d) h i s) = month_name m"
    and "slice 12 16 (imf_fixdate weekday (y, m, d) h i s) = pad4 (nat y)" "slice 17 19 (imf_fixdate weekday (y, m, d) h i s) = pad2 h"
    and "slice 20 22 (imf_fixdate weekday (y, m, d) h i s) = pad2 i" "slice 23 25 (imf_fixdate weekday (y, m, d) h i s) = pad2 s"
  using assms by (simp_all add: imf_fixdate_def nth_append)

text \<open>Every date from 1970 to 9999, written as senders must write it, is read as the number
  of seconds since the epoch that counting the days of the calendar one by one gives.\<close>

theorem imf_fixdate_read:
  assumes "civil_day k = (y, m, d)" and "y \<le> 9999" and "hour < 24" and "minute < 60" and "second < 60" and "length weekday = 3"
  shows "parse_imf_fixdate_unix (imf_fixdate weekday (y, m, d) hour minute second)
    = Some (86400 * int k + 3600 * int hour + 60 * int minute + int second)"
proof -
  have v: "valid_date (y, m, d)" "day_number (y, m, d) = int k" using civil_day_number [of k] assms(1) by simp_all
  have "y \<ge> 1970"
  proof -
    have step: "fst x \<le> fst (next_day x)" for x by (cases x) simp
    have "fst (civil_day k) \<ge> 1970" for k
    proof (induction k)
      case (Suc k)
      then show ?case using step [of "civil_day k"] unfolding civil_day_def funpow.simps comp_def by (rule order_trans)
    qed (simp add: civil_day_def)
    with assms(1) show ?thesis by (metis fst_conv)
  qed
  then have y: "nat y < 10000" "int (nat y) = y" using assms(2) by simp_all
  have d: "d < 100" using v(1) by (auto simp: valid_date_def days_in_month_def split: if_splits)
  note mn = month_name_number [of m]
  from v(1) have m: "length (month_name m) = 3" "month_number (month_name m) = Some m" "0 < d" "\<not> days_in_month y m < d"
    using mn by (auto simp: valid_date_def)
  show ?thesis
    using imf_fixdate_slices [OF assms(6) m(1), of y d hour minute second] y d m assms(3-5)
    by (simp add: parse_imf_fixdate_unix_def timestamp_split v(2))
qed

theorem imf_fixdate_read_witness:
  "civil_day 59 = (1970, 3, 1)
     \<and> parse_imf_fixdate_unix (imf_fixdate ''Sun'' (1970, 3, 1) 7 28 0) = Some (86400 * 59 + 3600 * 7 + 60 * 28)"
proof -
  have "civil_day 59 = (1970, 3, 1)" by code_simp
  with imf_fixdate_read [OF this, of 7 28 0 "''Sun''"] show ?thesis by simp
qed

end
