(* ===== verification/Resilient_Transport.thy ===== *)
theory Resilient_Transport
  imports Retry Http_Date
begin

text \<open>
  The request executor \<open>ResilientTransport\<close> of \<open>pcloud-resilience/src/transport.rs\<close>:
  classification of failures, \<open>Retry-After\<close> hints and the retry loop.  The caller's
  closure is a function from the number of a request to its response, the system time
  one from that number to seconds.  The floating-point number of a \<open>Retry-After\<close> header
  is an argument: its parser, the test for finite and not negative, and the product of the
  number cut at 300 with 1000 as an integer.  Metrics are not modelled.
\<close>

section \<open>Classification\<close>

datatype error_kind = TransientKind | TerminalKind

text \<open>\<open>std::io::ErrorKind\<close>: the kinds the sources name, and the others.\<close>

datatype io_kind =
    KTimedOut | KInterrupted | KWouldBlock | KConnectionReset | KBrokenPipe | KConnectionAborted
  | KPermissionDenied | KNotFound | KAlreadyExists | KInvalidInput | KInvalidData | KUnexpectedEof
  | KOther | KUnlisted string

datatype tls_error = InvalidCertificate | AlertReceived | NoVersionOrCipher | InvalidServerName | TlsOther

datatype resilience_error =
    TeIo io_kind | TeTls tls_error | TeConnect | TeInvalidAddress | TeTimeout | TeBody | TeDecode
  | TeResponseTooLarge | TeSocketConfig | TeUnknown

definition is_retryable_io_kind :: "io_kind \<Rightarrow> bool" where
  "is_retryable_io_kind kind \<longleftrightarrow>
     kind \<in> {KTimedOut, KConnectionReset, KBrokenPipe, KConnectionAborted, KInterrupted, KWouldBlock}"

fun classify_transport_error :: "resilience_error \<Rightarrow> error_kind" where
  "classify_transport_error (TeIo kind) = (if is_retryable_io_kind kind then TransientKind else TerminalKind)"
| "classify_transport_error (TeTls _) = TerminalKind"
| "classify_transport_error TeConnect = TransientKind"
| "classify_transport_error TeTimeout = TransientKind"
| "classify_transport_error TeBody = TransientKind"
| "classify_transport_error TeInvalidAddress = TerminalKind"
| "classify_transport_error TeDecode = TerminalKind"
| "classify_transport_error TeResponseTooLarge = TerminalKind"
| "classify_transport_error TeSocketConfig = TerminalKind"
| "classify_transport_error TeUnknown = TerminalKind"

definition TYPED_ERR_PREFIX :: string where
  "TYPED_ERR_PREFIX = ''pcloud-resilience:typed:''"

text \<open>\<open>split_once\<close> at the first separator.\<close>

fun split_once :: "char \<Rightarrow> string \<Rightarrow> (string \<times> string) option" where
  "split_once d [] = None"
| "split_once d (c # cs) =
     (if c = d then Some ([], cs) else map_option (\<lambda>(a, b). (c # a, b)) (split_once d cs))"

definition io_kind_of :: "string \<Rightarrow> io_kind" where
  "io_kind_of payload =
     (if payload = ''TimedOut'' then KTimedOut else if payload = ''Interrupted'' then KInterrupted
      else if payload = ''WouldBlock'' then KWouldBlock else if payload = ''ConnectionReset'' then KConnectionReset
      else if payload = ''BrokenPipe'' then KBrokenPipe else if payload = ''ConnectionAborted'' then KConnectionAborted
      else if payload = ''PermissionDenied'' then KPermissionDenied else if payload = ''NotFound'' then KNotFound
      else if payload = ''AlreadyExists'' then KAlreadyExists else if payload = ''InvalidInput'' then KInvalidInput
      else if payload = ''InvalidData'' then KInvalidData else if payload = ''UnexpectedEof'' then KUnexpectedEof
      else KOther)"

definition tls_error_of :: "string \<Rightarrow> tls_error" where
  "tls_error_of payload =
     (if payload = ''InvalidCertificate'' then InvalidCertificate else if payload = ''AlertReceived'' then AlertReceived
      else if payload = ''NoVersionOrCipher'' then NoVersionOrCipher else if payload = ''InvalidServerName'' then InvalidServerName
      else TlsOther)"

definition decode_typed_tag :: "string \<Rightarrow> resilience_error option" where
  "decode_typed_tag rest =
     (let (variant, payload) = (case split_once (CHR '':'') rest of Some (v, p) \<Rightarrow> (v, p) | None \<Rightarrow> (rest, [])) in
      if variant = ''io'' then Some (TeIo (io_kind_of payload))
      else if variant = ''tls'' then Some (TeTls (tls_error_of payload))
      else if variant = ''connect'' then Some TeConnect
      else if variant = ''timeout'' then Some TeTimeout
      else if variant = ''body'' then Some TeBody
      else if variant = ''invalid_address'' then Some TeInvalidAddress
      else if variant = ''decode'' then Some TeDecode
      else if variant = ''response_too_large'' then Some TeResponseTooLarge
      else if variant = ''socket_config'' then Some TeSocketConfig
      else if variant = ''unknown'' then Some TeUnknown
      else None)"

fun io_kind_name :: "io_kind \<Rightarrow> string" where
  "io_kind_name KTimedOut = ''TimedOut''"
| "io_kind_name KInterrupted = ''Interrupted''"
| "io_kind_name KWouldBlock = ''WouldBlock''"
| "io_kind_name KConnectionReset = ''ConnectionReset''"
| "io_kind_name KBrokenPipe = ''BrokenPipe''"
| "io_kind_name KConnectionAborted = ''ConnectionAborted''"
| "io_kind_name KPermissionDenied = ''PermissionDenied''"
| "io_kind_name KNotFound = ''NotFound''"
| "io_kind_name KAlreadyExists = ''AlreadyExists''"
| "io_kind_name KInvalidInput = ''InvalidInput''"
| "io_kind_name KInvalidData = ''InvalidData''"
| "io_kind_name KUnexpectedEof = ''UnexpectedEof''"
| "io_kind_name KOther = ''Other''"
| "io_kind_name (KUnlisted _) = ''Other''"

fun tls_error_name :: "tls_error \<Rightarrow> string" where
  "tls_error_name InvalidCertificate = ''InvalidCertificate''"
| "tls_error_name AlertReceived = ''AlertReceived''"
| "tls_error_name NoVersionOrCipher = ''NoVersionOrCipher''"
| "tls_error_name InvalidServerName = ''InvalidServerName''"
| "tls_error_name TlsOther = ''Other''"

fun encode_typed_tag :: "resilience_error \<Rightarrow> string" where
  "encode_typed_tag (TeIo kind) = TYPED_ERR_PREFIX @ ''io:'' @ io_kind_name kind"
| "encode_typed_tag (TeTls tls) = TYPED_ERR_PREFIX @ ''tls:'' @ tls_error_name tls"
| "encode_typed_tag TeConnect = TYPED_ERR_PREFIX @ ''connect:''"
| "encode_typed_tag TeTimeout = TYPED_ERR_PREFIX @ ''timeout:''"
| "encode_typed_tag TeBody = TYPED_ERR_PREFIX @ ''body:''"
| "encode_typed_tag TeInvalidAddress = TYPED_ERR_PREFIX @ ''invalid_address:''"
| "encode_typed_tag TeDecode = TYPED_ERR_PREFIX @ ''decode:''"
| "encode_typed_tag TeResponseTooLarge = TYPED_ERR_PREFIX @ ''response_too_large:''"
| "encode_typed_tag TeSocketConfig = TYPED_ERR_PREFIX @ ''socket_config:''"
| "encode_typed_tag TeUnknown = TYPED_ERR_PREFIX @ ''unknown:''"

definition classify_error :: "string \<Rightarrow> error_kind" where
  "classify_error error_message =
     (case strip_prefix error_message TYPED_ERR_PREFIX of
        Some rest \<Rightarrow> (case decode_typed_tag rest of Some err \<Rightarrow> classify_transport_error err | None \<Rightarrow> TerminalKind)
      | None \<Rightarrow> TerminalKind)"

section \<open>Responses\<close>

record transport_response =
  tr_status :: nat
  tr_headers :: "string \<rightharpoonup> string"
  tr_error :: "string option"

definition response_ok :: "nat \<Rightarrow> transport_response" where
  "response_ok status = \<lparr>tr_status = status, tr_headers = Map.empty, tr_error = None\<rparr>"

definition response_transport_error :: "string \<Rightarrow> transport_response" where
  "response_transport_error message = \<lparr>tr_status = 0, tr_headers = Map.empty, tr_error = Some message\<rparr>"

definition typed_error :: "resilience_error \<Rightarrow> transport_response" where
  "typed_error err = \<lparr>tr_status = 0, tr_headers = Map.empty, tr_error = Some (encode_typed_tag err)\<rparr>"

definition is_rate_limited :: "transport_response \<Rightarrow> bool" where
  "is_rate_limited r \<longleftrightarrow> tr_status r = 429"

definition is_server_error :: "transport_response \<Rightarrow> bool" where
  "is_server_error r \<longleftrightarrow> tr_status r \<ge> 500 \<and> tr_status r < 600"

definition is_success :: "transport_response \<Rightarrow> bool" where
  "is_success r \<longleftrightarrow> tr_status r \<ge> 200 \<and> tr_status r < 300"

text \<open>The numbers of the standard library the header parser needs, and what it relies on of
  them; a wait is in nanoseconds.\<close>

record 'n f64_ops =
  parse_f64 :: "string \<Rightarrow> 'n option"
  usable_f64 :: "'n \<Rightarrow> bool"
  capped_millis :: "'n \<Rightarrow> nat"

definition f64_capped :: "'n f64_ops \<Rightarrow> bool" where
  "f64_capped F \<longleftrightarrow> (\<forall>x. usable_f64 F x \<longrightarrow> capped_millis F x \<le> 300000)"

definition parse_retry_after_header :: "'n f64_ops \<Rightarrow> int \<Rightarrow> string \<Rightarrow> nat option" where
  "parse_retry_after_header F now value =
     (let trimmed = trim value in
      case parse_f64 F trimmed of
        Some secs \<Rightarrow> if usable_f64 F secs then Some (capped_millis F secs * 1000000) else None
      | None \<Rightarrow>
          (case parse_imf_fixdate_unix trimmed of
             None \<Rightarrow> None
           | Some target \<Rightarrow>
               let delta = target - now
               in if delta \<le> 0 then None else Some (nat (min delta 300) * 1000000000)))"

definition ascii_lower :: "char \<Rightarrow> char" where
  "ascii_lower c = (let k = of_char c :: nat in if 65 \<le> k \<and> k \<le> 90 then char_of (k + 32) else c)"

definition parse_retry_after_from_headers :: "'n f64_ops \<Rightarrow> int \<Rightarrow> string \<Rightarrow> nat option" where
  "parse_retry_after_from_headers F now headers =
     (case List.find (\<lambda>l. starts_with (map ascii_lower l) ''retry-after:'') (str_lines headers) of
        None \<Rightarrow> None
      | Some l \<Rightarrow>
          (case split_once (CHR '':'') l of None \<Rightarrow> None | Some (_, v) \<Rightarrow> parse_retry_after_header F now v))"

definition retry_after :: "'n f64_ops \<Rightarrow> int \<Rightarrow> transport_response \<Rightarrow> nat option" where
  "retry_after F now r =
     (case (case tr_headers r ''retry-after'' of Some v \<Rightarrow> Some v | None \<Rightarrow> tr_headers r ''Retry-After'') of
        None \<Rightarrow> None
      | Some raw \<Rightarrow> parse_retry_after_header F now raw)"

section \<open>The loop\<close>

record 'f resilience_config =
  method_policy :: "'f method_retry_policy"
  max_total_attempts :: u32

definition transport_config_new :: "'f method_retry_policy \<Rightarrow> 'f resilience_config" where
  "transport_config_new policy = \<lparr>method_policy = policy, max_total_attempts = 10\<rparr>"

definition with_max_total_attempts :: "u32 \<Rightarrow> 'f resilience_config \<Rightarrow> 'f resilience_config option" where
  "with_max_total_attempts n c = (if n \<ge> 1 then Some (c\<lparr>max_total_attempts := n\<rparr>) else None)"

text \<open>The messages of the failures are left to their cause.\<close>

datatype failure = TerminalError string | BudgetExhausted | PolicyForbids

datatype transport_outcome = Responded transport_response | GaveUp failure

text \<open>What one turn of the loop does with a response: end, wait as the server asks without
  counting the attempt, or wait and count it.\<close>

datatype verdict = Done transport_outcome | Throttled nat | Again nat

definition policy_verdict :: "retry_decision \<Rightarrow> verdict" where
  "policy_verdict d = (case d of GiveUp \<Rightarrow> Done (GaveUp PolicyForbids) | RetryAfter wait \<Rightarrow> Again wait)"

definition judge_status ::
  "'n f64_ops \<Rightarrow> (nat \<Rightarrow> 'f \<Rightarrow> nat \<Rightarrow> u32 \<Rightarrow> nat) \<Rightarrow> 'f resilience_config \<Rightarrow> retry_class \<Rightarrow> u32 \<Rightarrow> int
    \<Rightarrow> transport_response \<Rightarrow> verdict" where
  "judge_status F exp_delay cfg cls attempt now r =
     (if is_success r then Done (Responded r)
      else if tr_status r \<ge> 400 \<and> tr_status r < 500 \<and> tr_status r \<noteq> 429 then Done (Responded r)
      else if attempt \<ge> max_total_attempts cfg then Done (GaveUp BudgetExhausted)
      else
        (case (if is_rate_limited r then retry_after F now r else None) of
           Some hint \<Rightarrow> Throttled hint
         | None \<Rightarrow>
             if is_server_error r then policy_verdict (method_next_wait exp_delay (method_policy cfg) cls attempt None)
             else policy_verdict (method_next_wait exp_delay (method_policy cfg) cls attempt None)))"

definition judge ::
  "'n f64_ops \<Rightarrow> (nat \<Rightarrow> 'f \<Rightarrow> nat \<Rightarrow> u32 \<Rightarrow> nat) \<Rightarrow> 'f resilience_config \<Rightarrow> retry_class \<Rightarrow> u32 \<Rightarrow> int
    \<Rightarrow> transport_response \<Rightarrow> verdict" where
  "judge F exp_delay cfg cls attempt now r =
     (case tr_error r of
        Some err_msg \<Rightarrow>
          if classify_error err_msg = TerminalKind then Done (GaveUp (TerminalError err_msg))
          else judge_status F exp_delay cfg cls attempt now r
      | None \<Rightarrow> judge_status F exp_delay cfg cls attempt now r)"

text \<open>The loop returns the outcome, the number of requests sent and the waits between them;
  \<open>None\<close> stands for a loop that does not end.\<close>

partial_function (option) execute_loop ::
  "(u32 \<Rightarrow> int \<Rightarrow> transport_response \<Rightarrow> verdict) \<Rightarrow> (nat \<Rightarrow> transport_response) \<Rightarrow> (nat \<Rightarrow> int)
    \<Rightarrow> u32 \<Rightarrow> nat \<Rightarrow> nat list \<Rightarrow> (transport_outcome \<times> nat \<times> nat list) option" where
  "execute_loop J make_request clock attempt n waits =
     (let attempt = attempt + 1 in
      case J attempt (clock n) (make_request n) of
        Done out \<Rightarrow> Some (out, Suc n, waits)
      | Throttled hint \<Rightarrow> execute_loop J make_request clock (attempt - 1) (Suc n) (waits @ [hint])
      | Again wait \<Rightarrow> execute_loop J make_request clock attempt (Suc n) (waits @ [wait]))"

definition execute ::
  "'n f64_ops \<Rightarrow> (nat \<Rightarrow> 'f \<Rightarrow> nat \<Rightarrow> u32 \<Rightarrow> nat) \<Rightarrow> 'f resilience_config \<Rightarrow> retry_class
    \<Rightarrow> (nat \<Rightarrow> transport_response) \<Rightarrow> (nat \<Rightarrow> int) \<Rightarrow> (transport_outcome \<times> nat \<times> nat list) option" where
  "execute F exp_delay cfg cls make_request clock =
     execute_loop (judge F exp_delay cfg cls) make_request clock 0 0 []"

section \<open>Tags\<close>

lemma split_once_plain: "d \<notin> set u \<Longrightarrow> split_once d (u @ d # v) = Some (u, v)"
  by (induction u) auto

lemma strip_typed [simp]: "strip_prefix (TYPED_ERR_PREFIX @ t) TYPED_ERR_PREFIX = Some t"
  by (simp add: strip_prefix_def starts_with_iff)

text \<open>The tag keeps the class of every error, and everything but the kinds without a name.\<close>

lemma classify_encoded: "classify_error (encode_typed_tag e) = classify_transport_error e"
proof (cases e)
  case (TeIo k)
  then show ?thesis
    by (cases k) (simp_all add: classify_error_def decode_typed_tag_def io_kind_of_def is_retryable_io_kind_def)
next
  case (TeTls t)
  then show ?thesis by (simp add: classify_error_def decode_typed_tag_def)
qed (simp_all add: classify_error_def decode_typed_tag_def)

section \<open>Turns of the loop\<close>

lemma judge_Throttled:
  "judge F xd cfg cls attempt now r = Throttled h \<Longrightarrow>
     tr_status r = 429 \<and> retry_after F now r = Some h \<and> attempt < max_total_attempts cfg"
  by (auto simp: judge_def judge_status_def policy_verdict_def is_rate_limited_def
      split: option.splits if_splits retry_decision.splits)

lemma judge_Again:
  "judge F xd cfg cls attempt now r = Again w \<Longrightarrow>
     method_next_wait xd (method_policy cfg) cls attempt None = RetryAfter w \<and> attempt < max_total_attempts cfg
     \<and> \<not> is_success r"
  by (auto simp: judge_def judge_status_def policy_verdict_def split: option.splits if_splits retry_decision.splits)

lemma judge_Terminal:
  "tr_error r = Some m \<Longrightarrow> classify_error m = TerminalKind \<Longrightarrow> judge F xd cfg cls attempt now r = Done (GaveUp (TerminalError m))"
  by (simp add: judge_def)

lemma retry_after_capped:
  assumes "f64_capped F" and "retry_after F now r = Some h"
  shows "h \<le> 300 * 1000000000"
  using assms
  by (auto simp: retry_after_def parse_retry_after_header_def f64_capped_def Let_def
      split: option.splits if_splits)

section \<open>Runs of the loop\<close>

text \<open>The finished runs of the loop as a relation.\<close>

inductive loop_runs ::
  "(u32 \<Rightarrow> int \<Rightarrow> transport_response \<Rightarrow> verdict) \<Rightarrow> (nat \<Rightarrow> transport_response) \<Rightarrow> (nat \<Rightarrow> int)
    \<Rightarrow> u32 \<Rightarrow> nat \<Rightarrow> nat list \<Rightarrow> transport_outcome \<times> nat \<times> nat list \<Rightarrow> bool" for J req clock where
  ended: "J (a + 1) (clock n) (req n) = Done out \<Longrightarrow> loop_runs J req clock a n ws (out, Suc n, ws)"
| throttled: "J (a + 1) (clock n) (req n) = Throttled h \<Longrightarrow> loop_runs J req clock a (Suc n) (ws @ [h]) res \<Longrightarrow> loop_runs J req clock a n ws res"
| again: "J (a + 1) (clock n) (req n) = Again w \<Longrightarrow> loop_runs J req clock (a + 1) (Suc n) (ws @ [w]) res \<Longrightarrow> loop_runs J req clock a n ws res"

lemma execute_loop_iff: "execute_loop J req clock a n ws = Some res \<longleftrightarrow> loop_runs J req clock a n ws res"
proof
  show "loop_runs J req clock a n ws res" if "execute_loop J req clock a n ws = Some res"
    using that
  proof (rule execute_loop.raw_induct [where P = loop_runs, rotated])
    fix loop J req clock a n ws res
    assume ih: "\<And>J req clock a n ws res. loop J req clock a n ws = Some res \<Longrightarrow> loop_runs J req clock a n ws res"
      and step: "(let attempt = a + 1 in case J attempt (clock n) (req n) of Done out \<Rightarrow> Some (out, Suc n, ws)
         | Throttled hint \<Rightarrow> loop J req clock (attempt - 1) (Suc n) (ws @ [hint])
         | Again wait \<Rightarrow> loop J req clock attempt (Suc n) (ws @ [wait])) = Some res"
    show "loop_runs J req clock a n ws res"
      using step by (cases "J (a + 1) (clock n) (req n)") (auto intro: loop_runs.intros ih)
  qed
  show "execute_loop J req clock a n ws = Some res" if "loop_runs J req clock a n ws res"
    using that by induction (subst execute_loop.simps, simp)+
qed

text \<open>Every wait but the last request's was the verdict on the response before.\<close>

definition sent_again :: "(u32 \<Rightarrow> int \<Rightarrow> transport_response \<Rightarrow> verdict) \<Rightarrow> (nat \<Rightarrow> transport_response) \<Rightarrow> (nat \<Rightarrow> int) \<Rightarrow> nat \<Rightarrow> nat \<Rightarrow> bool" where
  "sent_again J req clock i w \<longleftrightarrow> (\<exists>a. J a (clock i) (req i) = Throttled w \<or> J a (clock i) (req i) = Again w)"

lemma loop_runs_sent_again:
  "loop_runs J req clock a n ws res \<Longrightarrow>
     \<exists>out m vs. res = (out, Suc m, ws @ vs) \<and> n \<le> m \<and> length vs = m - n
       \<and> (\<forall>i. n \<le> i \<and> i < m \<longrightarrow> sent_again J req clock i (vs ! (i - n)))
       \<and> (\<exists>b. J b (clock m) (req m) = Done out)"
proof (induction rule: loop_runs.induct)
  case (ended a n out ws)
  then show ?case by (intro exI [of _ out] exI [of _ n] exI [of _ "[]"]) auto
next
  case (throttled a n h ws res)
  then obtain out m vs where r: "res = (out, Suc m, (ws @ [h]) @ vs)" "Suc n \<le> m" "length vs = m - Suc n"
      "\<forall>i. Suc n \<le> i \<and> i < m \<longrightarrow> sent_again J req clock i (vs ! (i - Suc n))" "\<exists>b. J b (clock m) (req m) = Done out" by blast
  have "sent_again J req clock n h" using throttled by (auto simp: sent_again_def)
  with r show ?case
    by (intro exI [of _ out] exI [of _ m] exI [of _ "h # vs"]) (auto simp: nth_Cons' Suc_diff_Suc)
next
  case (again a n h ws res)
  then obtain out m vs where r: "res = (out, Suc m, (ws @ [h]) @ vs)" "Suc n \<le> m" "length vs = m - Suc n"
      "\<forall>i. Suc n \<le> i \<and> i < m \<longrightarrow> sent_again J req clock i (vs ! (i - Suc n))" "\<exists>b. J b (clock m) (req m) = Done out" by blast
  have "sent_again J req clock n h" using again by (auto simp: sent_again_def)
  with r show ?case
    by (intro exI [of _ out] exI [of _ m] exI [of _ "h # vs"]) (auto simp: nth_Cons' Suc_diff_Suc)
qed

section \<open>Termination\<close>

text \<open>Responses that make the loop wait without counting.\<close>

definition throttles :: "'n f64_ops \<Rightarrow> int \<Rightarrow> transport_response \<Rightarrow> bool" where
  "throttles F now r \<longleftrightarrow> tr_status r = 429 \<and> retry_after F now r \<noteq> None"

lemma counted_step:
  assumes "a < (b :: u32)"
  shows "unat (a + 1) = Suc (unat a)"
  using assms unsigned_less [of b, where 'a = nat] by (simp add: unat_word_ariths(1) word_less_nat_alt)

lemma loop_ends:
  assumes "\<And>i. i \<ge> K \<Longrightarrow> \<not> throttles F (clock i) (req i)"
  shows "a = 0 \<or> a < max_total_attempts cfg \<Longrightarrow> \<exists>res. loop_runs (judge F xd cfg cls) req clock a n ws res"
proof (induction "unat (max_total_attempts cfg) - unat a + (K - n)" arbitrary: a n ws rule: less_induct)
  case less
  show ?case
  proof (cases "judge F xd cfg cls (a + 1) (clock n) (req n)")
    case (Done out)
    then show ?thesis by (blast intro: loop_runs.ended)
  next
    case (Throttled h)
    from judge_Throttled [OF this] have t: "throttles F (clock n) (req n)" by (simp add: throttles_def)
    then have "n < K" using assms by (meson not_le)
    then have "K - Suc n < K - n" by simp
    then obtain res where "loop_runs (judge F xd cfg cls) req clock a (Suc n) (ws @ [h]) res"
      using less.hyps [of a "Suc n"] less.prems by fastforce
    with Throttled show ?thesis by (blast intro: loop_runs.throttled)
  next
    case (Again w)
    from judge_Again [OF this] have lt: "a + 1 < max_total_attempts cfg" by simp
    have "unat (a + 1) = Suc (unat a)"
    proof (cases "a = 0")
      case False
      with less.prems show ?thesis by (auto intro: counted_step)
    qed simp
    moreover have "unat (a + 1) < unat (max_total_attempts cfg)" using lt by (simp add: word_less_nat_alt)
    ultimately have "unat (max_total_attempts cfg) - unat (a + 1) + (K - Suc n) < unat (max_total_attempts cfg) - unat a + (K - n)"
      by linarith
    then obtain res where "loop_runs (judge F xd cfg cls) req clock (a + 1) (Suc n) (ws @ [w]) res"
      using less.hyps lt by blast
    with Again show ?thesis by (blast intro: loop_runs.again)
  qed
qed

text \<open>The requests that count stay within the budget.\<close>

lemma counted_requests:
  assumes "loop_runs (judge F xd cfg cls) req clock a n ws res" and "a = 0 \<or> a < max_total_attempts cfg"
  shows "card {i. n \<le> i \<and> i < fst (snd res) \<and> \<not> throttles F (clock i) (req i)}
    \<le> max 1 (unat (max_total_attempts cfg) - unat a)"
  using assms
proof (induction rule: loop_runs.induct)
  case (ended a n out ws)
  have "{i. n \<le> i \<and> i < Suc n \<and> \<not> throttles F (clock i) (req i)} \<subseteq> {n}" by auto
  from card_mono [OF _ this] show ?case by simp
next
  case (throttled a n h ws res)
  have "throttles F (clock n) (req n)" using judge_Throttled [OF throttled(1)] by (simp add: throttles_def)
  then have "{i. n \<le> i \<and> i < fst (snd res) \<and> \<not> throttles F (clock i) (req i)}
      = {i. Suc n \<le> i \<and> i < fst (snd res) \<and> \<not> throttles F (clock i) (req i)}"
    by (auto simp: Suc_le_eq le_less)
  with throttled show ?case by simp
next
  case (again a n w ws res)
  have lt: "a + 1 < max_total_attempts cfg" using judge_Again [OF again(1)] by simp
  have s: "unat (a + 1) = Suc (unat a)"
    using again.prems by (cases "a = 0") (auto intro: counted_step)
  have l: "unat (a + 1) < unat (max_total_attempts cfg)" using lt by (simp add: word_less_nat_alt)
  let ?B = "{i. Suc n \<le> i \<and> i < fst (snd res) \<and> \<not> throttles F (clock i) (req i)}"
  have "{i. n \<le> i \<and> i < fst (snd res) \<and> \<not> throttles F (clock i) (req i)} \<subseteq> insert n ?B"
    by (auto simp: Suc_le_eq le_less)
  then have "card {i. n \<le> i \<and> i < fst (snd res) \<and> \<not> throttles F (clock i) (req i)} \<le> card (insert n ?B)"
    by (rule card_mono [rotated]) simp
  also have "\<dots> \<le> Suc (card ?B)" by (simp add: card_insert_if)
  finally have "card {i. n \<le> i \<and> i < fst (snd res) \<and> \<not> throttles F (clock i) (req i)} \<le> Suc (card ?B)" .
  with again.IH lt s l show ?case by auto
qed

section \<open>Properties\<close>


text \<open>A number format that reads nothing, for evaluations.\<close>

definition no_numbers :: "unit f64_ops" where
  "no_numbers = \<lparr>parse_f64 = (\<lambda>_. None), usable_f64 = (\<lambda>_. True), capped_millis = (\<lambda>_. 0)\<rparr>"

definition three_attempts :: "unit resilience_config" where
  "three_attempts = \<lparr>method_policy = secure_default \<lparr>max_attempts = 3, schedule = Fixed 5\<rparr>, max_total_attempts = 3\<rparr>"

lemma f64_capped_no_numbers: "f64_capped no_numbers"
  by (simp add: f64_capped_def no_numbers_def)

lemma mutation_forbidden: "method_next_wait xd (method_policy three_attempts) Mutation = (\<lambda>_ _. GiveUp)"
  by (simp add: fun_eq_iff method_next_wait_def three_attempts_def secure_default_def)


text \<open>C40: when the server throttles with hints only finitely often, the loop ends; the requests
  other than the throttled ones are at most \<open>max_total_attempts\<close>, and none is sent after a
  success or after an error that is not transient, such as every failure of TLS.\<close>

theorem execute_ends_within_budget:
  assumes "\<forall>i \<ge> K. \<not> throttles F (clock i) (req i)"
  shows "\<exists>out n waits. execute F xd cfg cls req clock = Some (out, n, waits)
    \<and> card {i. i < n \<and> \<not> throttles F (clock i) (req i)} \<le> max 1 (unat (max_total_attempts cfg))
    \<and> (\<forall>i < n - 1. \<not> is_success (req i) \<and> (\<forall>e. classify_transport_error e = TerminalKind \<longrightarrow> req i \<noteq> typed_error e))"
proof -
  obtain out n waits where r: "loop_runs (judge F xd cfg cls) req clock 0 0 [] (out, n, waits)"
    using loop_ends [of K F clock req 0 cfg xd cls 0 "[]"] assms by (metis prod_cases3)
  have "execute F xd cfg cls req clock = Some (out, n, waits)" using r by (simp add: execute_def execute_loop_iff)
  moreover have "card {i. i < n \<and> \<not> throttles F (clock i) (req i)} \<le> max 1 (unat (max_total_attempts cfg))"
    using counted_requests [OF r] by simp
  moreover have "\<not> is_success (req i) \<and> (\<forall>e. classify_transport_error e = TerminalKind \<longrightarrow> req i \<noteq> typed_error e)" if "i < n - 1" for i
  proof -
    from loop_runs_sent_again [OF r] that have "sent_again (judge F xd cfg cls) req clock i (waits ! i)" by auto
    then obtain w a where "judge F xd cfg cls a (clock i) (req i) = Throttled w
        \<or> judge F xd cfg cls a (clock i) (req i) = Again w" unfolding sent_again_def by blast
    then show ?thesis
      using judge_Throttled [of F xd cfg cls a "clock i" "req i" w] judge_Again [of F xd cfg cls a "clock i" "req i" w]
        judge_Terminal [of "req i" _ F xd cfg cls a "clock i"]
      by (auto simp: is_success_def typed_error_def classify_encoded)
  qed
  ultimately show ?thesis by blast
qed

theorem execute_ends_within_budget_witness:
  "\<exists>out n waits. execute no_numbers (\<lambda>_ _ _ _. 0) three_attempts Idempotent (\<lambda>_. response_ok 503) (\<lambda>_. 0) = Some (out, n, waits)
     \<and> card {i. i < n \<and> \<not> throttles no_numbers 0 (response_ok 503)} \<le> 3"
proof -
  have no: "\<not> throttles no_numbers 0 (response_ok 503)" by (simp add: throttles_def response_ok_def)
  then show ?thesis
    using execute_ends_within_budget [of 0 no_numbers "\<lambda>_. 0" "\<lambda>_. response_ok 503" "\<lambda>_ _ _ _. 0" three_attempts Idempotent]
    by (auto simp: three_attempts_def)
qed

text \<open>A server that throttles every request with a hint keeps the loop running for ever.\<close>

lemma endless_throttling:
  assumes "\<And>i. tr_error (req i) = None \<and> tr_status (req i) = 429 \<and> retry_after F (clock i) (req i) \<noteq> None"
    and "max_total_attempts cfg > 1"
  shows "execute F xd cfg cls req clock = None"
proof -
  have j: "\<exists>h. judge F xd cfg cls 1 (clock i) (req i) = Throttled h" for i
    using assms(1) [of i] assms(2) by (auto simp: judge_def judge_status_def is_success_def is_rate_limited_def)
  have "\<not> loop_runs (judge F xd cfg cls) req clock 0 n ws res" for n ws res
  proof
    assume "loop_runs (judge F xd cfg cls) req clock 0 n ws res"
    then show False by (induction "0 :: u32" n ws res rule: loop_runs.induct) (use j in \<open>metis add_0 verdict.distinct\<close>)+
  qed
  then show ?thesis unfolding execute_def by (metis execute_loop_iff not_None_eq)
qed

end
