(* ===== verification/Auth_Session.thy ===== *)
theory Auth_Session
  imports Prelude
begin

text \<open>
  The session of the signed-in user, \<open>pcloud-auth/src\<close>: the state machine of \<open>manager.rs\<close> and
  \<open>state.rs\<close>, the timers of \<open>lifecycle.rs\<close> and the refresh coordinator of \<open>refresh.rs\<close>.
  Secrets are strings; that a dropped secret is overwritten in memory is not modelled.
  Times are seconds.  The share of the lifetime after which a token is refreshed is a
  floating-point number: the arithmetic on it is an argument.
\<close>

section \<open>State\<close>

datatype session_state =
    LoggedOut | AwaitingCredentials | AuthenticatingWithPassword | AuthenticatingWithToken
  | TwoFactorRequired | Authenticated | AuthFailed

record pending_challenge =
  pc_token :: string
  pc_trust_device :: bool

record session_snapshot =
  ss_state :: session_state
  ss_authenticated_user :: "u64 option"
  ss_auth_token :: "string option"
  ss_email :: "string option"
  ss_pending_challenge :: "pending_challenge option"
  ss_last_auth_error :: "string option"

datatype auth_command =
    BeginLogin
  | LoginWithPassword string string
  | LoginWithToken string
  | SubmitTwoFactorCode string bool
  | MarkAuthenticated "u64 option" string
  | MarkAuthenticationFailed "string option"
  | MarkTwoFactorCodeInvalid "string option"
  | Logout

datatype auth_event =
    LoginStarted | LoginSucceeded "u64 option" | LoginFailed "string option" | TwoFactorChallengeIssued
  | EvLoggedOut | TokenRefreshed "u64 option" | TokenRefreshExpired u64 | TokenRefreshTemporaryFailure string

datatype session_manager_error = NoPendingChallenge | InvalidAuthenticatedTransition

section \<open>Lifecycle\<close>

record 'f refresh_policy =
  rp_lifetime :: nat
  rp_refresh_threshold :: 'f
  rp_max_idle :: "nat option"

text \<open>The floating-point operations: the range check, the default 0.8, and the product of a
  number of seconds with the threshold, rounded down.\<close>

record 'f threshold_ops =
  th_in_unit :: "'f \<Rightarrow> bool"
  th_default :: 'f
  th_scale :: "nat \<Rightarrow> 'f \<Rightarrow> nat"

definition threshold_laws :: "'f threshold_ops \<Rightarrow> bool" where
  "threshold_laws T \<longleftrightarrow> th_in_unit T (th_default T) \<and> (\<forall>n f. th_in_unit T f \<longrightarrow> th_scale T n f \<le> n)"

definition refresh_policy_default :: "'f threshold_ops \<Rightarrow> 'f refresh_policy" where
  "refresh_policy_default T = \<lparr>rp_lifetime = 3600, rp_refresh_threshold = th_default T, rp_max_idle = None\<rparr>"

definition sanitized :: "'f threshold_ops \<Rightarrow> 'f refresh_policy \<Rightarrow> 'f refresh_policy" where
  "sanitized T p =
     (let p = (if \<not> th_in_unit T (rp_refresh_threshold p) then p\<lparr>rp_refresh_threshold := th_default T\<rparr> else p)
      in if rp_lifetime p = 0 then p\<lparr>rp_lifetime := 3600\<rparr> else p)"

definition refresh_after_secs :: "'f threshold_ops \<Rightarrow> 'f refresh_policy \<Rightarrow> nat" where
  "refresh_after_secs T p = th_scale T (rp_lifetime p) (rp_refresh_threshold p)"

abbreviation secs_max :: nat where "secs_max \<equiv> 2 ^ 64 - 1"

record session_lifecycle =
  lc_established_at :: nat
  lc_expires_at :: nat
  lc_last_used_at :: nat
  lc_credentials_retained :: bool

definition lifecycle_new :: "nat \<Rightarrow> 'f refresh_policy \<Rightarrow> bool \<Rightarrow> session_lifecycle" where
  "lifecycle_new now_secs policy credentials_retained =
     \<lparr>lc_established_at = now_secs, lc_expires_at = min (now_secs + rp_lifetime policy) secs_max,
      lc_last_used_at = now_secs, lc_credentials_retained = credentials_retained\<rparr>"

definition lifecycle_mark_used :: "nat \<Rightarrow> session_lifecycle \<Rightarrow> session_lifecycle" where
  "lifecycle_mark_used now_secs lc = lc\<lparr>lc_last_used_at := now_secs\<rparr>"

definition should_refresh :: "'f threshold_ops \<Rightarrow> session_lifecycle \<Rightarrow> nat \<Rightarrow> 'f refresh_policy \<Rightarrow> bool" where
  "should_refresh T lc now_secs policy \<longleftrightarrow>
     now_secs \<ge> min (lc_established_at lc + refresh_after_secs T policy) secs_max"

definition is_expired :: "session_lifecycle \<Rightarrow> nat \<Rightarrow> bool" where
  "is_expired lc now_secs \<longleftrightarrow> now_secs \<ge> lc_expires_at lc"

definition is_idle_expired :: "session_lifecycle \<Rightarrow> nat \<Rightarrow> 'f refresh_policy \<Rightarrow> bool" where
  "is_idle_expired lc now_secs policy =
     (case rp_max_idle policy of Some mx \<Rightarrow> now_secs - lc_last_used_at lc \<ge> mx | None \<Rightarrow> False)"

definition lifecycle_record_refresh :: "nat \<Rightarrow> 'f refresh_policy \<Rightarrow> session_lifecycle \<Rightarrow> session_lifecycle" where
  "lifecycle_record_refresh now_secs policy lc =
     lc\<lparr>lc_established_at := now_secs, lc_expires_at := min (now_secs + rp_lifetime policy) secs_max,
        lc_last_used_at := now_secs\<rparr>"

section \<open>The manager\<close>

record session_manager =
  sm_snapshot :: session_snapshot
  sm_lifecycle :: "session_lifecycle option"

definition session_manager_new :: session_manager where
  "session_manager_new =
     \<lparr>sm_snapshot = \<lparr>ss_state = LoggedOut, ss_authenticated_user = None, ss_auth_token = None, ss_email = None,
        ss_pending_challenge = None, ss_last_auth_error = None\<rparr>,
      sm_lifecycle = None\<rparr>"

definition attach_lifecycle :: "nat \<Rightarrow> 'f refresh_policy \<Rightarrow> bool \<Rightarrow> session_manager \<Rightarrow> session_manager" where
  "attach_lifecycle now_secs policy credentials_retained m =
     m\<lparr>sm_lifecycle := Some (lifecycle_new now_secs policy credentials_retained)\<rparr>"

definition mark_used :: "nat \<Rightarrow> session_manager \<Rightarrow> session_manager" where
  "mark_used now_secs m = m\<lparr>sm_lifecycle := map_option (lifecycle_mark_used now_secs) (sm_lifecycle m)\<rparr>"

definition record_refresh ::
  "nat \<Rightarrow> 'f refresh_policy \<Rightarrow> string \<Rightarrow> session_manager \<Rightarrow> (session_manager_error, unit) result \<times> session_manager" where
  "record_refresh now_secs policy new_token m =
     (if ss_state (sm_snapshot m) \<noteq> Authenticated then (Err InvalidAuthenticatedTransition, m)
      else
        (Ok (), m\<lparr>sm_snapshot := (sm_snapshot m)\<lparr>ss_auth_token := Some new_token\<rparr>,
           sm_lifecycle := (case sm_lifecycle m of
               Some lc \<Rightarrow> Some (lifecycle_record_refresh now_secs policy lc)
             | None \<Rightarrow> Some (lifecycle_new now_secs policy False))\<rparr>))"

definition cleared :: "session_state \<Rightarrow> string option \<Rightarrow> session_manager" where
  "cleared st msg =
     \<lparr>sm_snapshot = \<lparr>ss_state = st, ss_authenticated_user = None, ss_auth_token = None, ss_email = None,
        ss_pending_challenge = None, ss_last_auth_error = msg\<rparr>,
      sm_lifecycle = None\<rparr>"

definition revoke :: "session_manager \<Rightarrow> auth_event \<times> session_manager" where
  "revoke m = (EvLoggedOut, cleared LoggedOut None)"

definition update_userinfo ::
  "u64 option \<Rightarrow> string option \<Rightarrow> session_manager \<Rightarrow> (session_manager_error, unit) result \<times> session_manager" where
  "update_userinfo user_id email m =
     (if ss_state (sm_snapshot m) = Authenticated then
        (Ok (), m\<lparr>sm_snapshot := (sm_snapshot m)
           \<lparr>ss_authenticated_user := (if user_id \<noteq> None then user_id else ss_authenticated_user (sm_snapshot m)),
            ss_email := email\<rparr>\<rparr>)
      else (Err InvalidAuthenticatedTransition, m))"

definition replace_auth_token ::
  "string \<Rightarrow> session_manager \<Rightarrow> (session_manager_error, unit) result \<times> session_manager" where
  "replace_auth_token auth_token m =
     (if ss_state (sm_snapshot m) = Authenticated
      then (Ok (), m\<lparr>sm_snapshot := (sm_snapshot m)\<lparr>ss_auth_token := Some auth_token\<rparr>\<rparr>)
      else (Err InvalidAuthenticatedTransition, m))"

fun apply_command ::
  "auth_command \<Rightarrow> session_manager \<Rightarrow> (session_manager_error, auth_event) result \<times> session_manager" where
  "apply_command BeginLogin m =
     (Ok LoginStarted, m\<lparr>sm_snapshot := (sm_snapshot m)\<lparr>ss_state := AwaitingCredentials, ss_last_auth_error := None\<rparr>\<rparr>)"
| "apply_command (LoginWithPassword username password) m =
     (Ok LoginStarted, m\<lparr>sm_snapshot := (sm_snapshot m)
        \<lparr>ss_state := AuthenticatingWithPassword, ss_pending_challenge := None, ss_last_auth_error := None\<rparr>\<rparr>)"
| "apply_command (LoginWithToken token) m =
     (Ok LoginStarted, m\<lparr>sm_snapshot := (sm_snapshot m)
        \<lparr>ss_state := AuthenticatingWithToken, ss_pending_challenge := None, ss_last_auth_error := None\<rparr>\<rparr>)"
| "apply_command (SubmitTwoFactorCode code trust_device) m =
     (case ss_pending_challenge (sm_snapshot m) of
        None \<Rightarrow> (Err NoPendingChallenge, m)
      | Some pc \<Rightarrow>
          (Ok LoginStarted, m\<lparr>sm_snapshot := (sm_snapshot m)
             \<lparr>ss_state := AuthenticatingWithPassword, ss_pending_challenge := Some (pc\<lparr>pc_trust_device := trust_device\<rparr>)\<rparr>\<rparr>))"
| "apply_command (MarkAuthenticated user_id auth_token) m =
     (if ss_state (sm_snapshot m) \<in> {AuthenticatingWithPassword, AuthenticatingWithToken, TwoFactorRequired} then
        (Ok (LoginSucceeded user_id), m\<lparr>sm_snapshot := (sm_snapshot m)
           \<lparr>ss_state := Authenticated, ss_authenticated_user := user_id, ss_auth_token := Some auth_token,
            ss_pending_challenge := None, ss_last_auth_error := None\<rparr>\<rparr>)
      else (Err InvalidAuthenticatedTransition, m))"
| "apply_command (MarkAuthenticationFailed message) m = (Ok (LoginFailed message), cleared AuthFailed message)"
| "apply_command (MarkTwoFactorCodeInvalid message) m =
     (Ok (LoginFailed message), m\<lparr>sm_snapshot := (sm_snapshot m)\<lparr>ss_last_auth_error := message\<rparr>\<rparr>)"
| "apply_command Logout m = (Ok EvLoggedOut, cleared LoggedOut None)"

definition issue_two_factor_challenge :: "string \<Rightarrow> bool \<Rightarrow> session_manager \<Rightarrow> auth_event \<times> session_manager" where
  "issue_two_factor_challenge token trust_device m =
     (TwoFactorChallengeIssued, m\<lparr>sm_snapshot := (sm_snapshot m)
        \<lparr>ss_state := TwoFactorRequired, ss_pending_challenge := Some \<lparr>pc_token = token, pc_trust_device = trust_device\<rparr>,
         ss_last_auth_error := None\<rparr>\<rparr>)"

section \<open>The refresh coordinator\<close>

datatype refresh_decision = NoSession | SessionOk | Refresh | IdleLogout | Expired

datatype refresh_outcome = Refreshed | AlreadyInFlight | OutcomeNoSession

datatype lifecycle_error = RefreshInFlight | AuthExpired | LifecycleNoSession

text \<open>The guard is the flag \<open>in_flight\<close>; a ticket is held while a refresh runs.\<close>

definition try_begin :: "bool \<Rightarrow> bool \<times> bool" where
  "try_begin in_flight = (if in_flight then (False, in_flight) else (True, True))"

definition evaluate :: "'f threshold_ops \<Rightarrow> 'f refresh_policy \<Rightarrow> nat \<Rightarrow> session_manager \<Rightarrow> refresh_decision" where
  "evaluate T policy now session =
     (case sm_lifecycle session of
        None \<Rightarrow> NoSession
      | Some lc \<Rightarrow>
          if is_expired lc now then Expired
          else if is_idle_expired lc now policy then IdleLogout
          else if should_refresh T lc now policy then Refresh
          else SessionOk)"

text \<open>\<open>refresh_fn\<close> is the result of the caller's closure, or what it may fail with; \<open>from\<close>
  converts a lifecycle error.\<close>

definition run_refresh ::
  "'f refresh_policy \<Rightarrow> nat \<Rightarrow> bool \<Rightarrow> (lifecycle_error \<Rightarrow> 'e) \<Rightarrow> ('e, string) result \<Rightarrow> session_manager
    \<Rightarrow> ('e, refresh_outcome) result \<times> session_manager" where
  "run_refresh policy now in_flight from refresh_fn session =
     (if sm_lifecycle session = None then (Ok OutcomeNoSession, session)
      else if \<not> fst (try_begin in_flight) then (Ok AlreadyInFlight, session)
      else
        (case refresh_fn of
           Inl e \<Rightarrow> (Err e, session)
         | Inr new_token \<Rightarrow>
             (case record_refresh now policy new_token session of
                (Inl e, s) \<Rightarrow> (Err (from LifecycleNoSession), s)
              | (Inr _, s) \<Rightarrow> (Ok Refreshed, s))))"

definition handle_auth_expired ::
  "'f refresh_policy \<Rightarrow> nat \<Rightarrow> bool \<Rightarrow> (lifecycle_error \<Rightarrow> 'e) \<Rightarrow> ('e, string) result option \<Rightarrow> session_manager
    \<Rightarrow> ('e, refresh_outcome) result \<times> session_manager" where
  "handle_auth_expired policy now in_flight from reauth_fn session =
     (case (case sm_lifecycle session of Some lc \<Rightarrow> lc_credentials_retained lc | None \<Rightarrow> False, reauth_fn) of
        (True, Some f) \<Rightarrow> run_refresh policy now in_flight from f session
      | _ \<Rightarrow> (Err (from AuthExpired), snd (revoke session)))"

section \<open>The invariant\<close>

text \<open>A signed-in session has a token, a session waiting for the second factor has a challenge,
  and after a logout or a rejection nothing of the user is left.\<close>

definition session_inv :: "session_manager \<Rightarrow> bool" where
  "session_inv m \<longleftrightarrow>
     (ss_state (sm_snapshot m) = Authenticated \<longrightarrow> ss_auth_token (sm_snapshot m) \<noteq> None)
     \<and> (ss_state (sm_snapshot m) = TwoFactorRequired \<longrightarrow> ss_pending_challenge (sm_snapshot m) \<noteq> None)
     \<and> (ss_state (sm_snapshot m) \<in> {LoggedOut, AuthFailed} \<longrightarrow>
          ss_auth_token (sm_snapshot m) = None \<and> ss_authenticated_user (sm_snapshot m) = None
          \<and> ss_email (sm_snapshot m) = None \<and> ss_pending_challenge (sm_snapshot m) = None)"

lemmas session_op_defs = session_inv_def record_refresh_def cleared_def revoke_def update_userinfo_def replace_auth_token_def
  issue_two_factor_challenge_def attach_lifecycle_def mark_used_def

named_theorems keeps_session \<open>operations that keep the session invariant\<close>

lemma apply_command_inv [keeps_session]: "session_inv m \<Longrightarrow> session_inv (snd (apply_command c m))"
  by (cases c) (auto simp: session_op_defs split: option.split)

lemma session_ops_inv [keeps_session]:
  "session_inv m \<Longrightarrow> session_inv (snd (record_refresh now policy tok m))"
  "session_inv (snd (revoke m))"
  "session_inv m \<Longrightarrow> session_inv (snd (update_userinfo user email m))"
  "session_inv m \<Longrightarrow> session_inv (snd (replace_auth_token tok m))"
  "session_inv m \<Longrightarrow> session_inv (snd (issue_two_factor_challenge tok trust m))"
  "session_inv m \<Longrightarrow> session_inv (attach_lifecycle now policy retained m)"
  "session_inv m \<Longrightarrow> session_inv (mark_used now m)"
  by (auto simp: session_op_defs)

lemma run_refresh_inv [keeps_session]: "session_inv m \<Longrightarrow> session_inv (snd (run_refresh policy now fl from f m))"
  using session_ops_inv(1) [of m now policy]
  by (auto simp: run_refresh_def split: sum.split prod.split) (metis snd_conv)+

lemma handle_auth_expired_inv [keeps_session]:
  "session_inv m \<Longrightarrow> session_inv (snd (handle_auth_expired policy now fl from f m))"
  using session_ops_inv(2) run_refresh_inv by (auto simp: handle_auth_expired_def split: option.split bool.split)

lemma session_inv_new [simp]: "session_inv session_manager_new"
  by (simp add: session_inv_def session_manager_new_def)

section \<open>Refreshing and idleness\<close>

text \<open>The session polled at given times, refreshed whenever the coordinator asks for it, while
  the user does nothing.\<close>

primrec polled :: "'f threshold_ops \<Rightarrow> 'f refresh_policy \<Rightarrow> string \<Rightarrow> (nat \<Rightarrow> nat) \<Rightarrow> session_manager \<Rightarrow> nat \<Rightarrow> session_manager" where
  "polled T policy tok t s 0 = s"
| "polled T policy tok t s (Suc n) =
     (let m = polled T policy tok t s n in
      if evaluate T policy (t n) m = Refresh then snd (run_refresh policy (t n) False id (Inr tok) m) else m)"

text \<open>Before the poll at \<open>now\<close>: established and last used at the same moment \<open>e\<close>.\<close>

definition unused_since :: "'f refresh_policy \<Rightarrow> nat \<Rightarrow> session_manager \<Rightarrow> bool" where
  "unused_since policy e m \<longleftrightarrow> ss_state (sm_snapshot m) = Authenticated
     \<and> (\<exists>retained. sm_lifecycle m = Some \<lparr>lc_established_at = e, lc_expires_at = min (e + rp_lifetime policy) secs_max,
          lc_last_used_at = e, lc_credentials_retained = retained\<rparr>)"

lemma evaluate_unused:
  assumes "unused_since policy e m" and "rp_max_idle policy = Some idle" and "e \<le> now" "now < e + idle" "now < e + rp_lifetime policy"
    and "e + rp_lifetime policy \<le> secs_max" and "refresh_after_secs T policy \<le> rp_lifetime policy"
  shows "evaluate T policy now m = (if e + refresh_after_secs T policy \<le> now then Refresh else SessionOk)"
  using assms by (auto simp: unused_since_def evaluate_def is_expired_def is_idle_expired_def should_refresh_def)

lemma refresh_unused:
  assumes "unused_since policy e m"
  shows "unused_since policy now (snd (run_refresh policy now False id (Inr tok) m))"
  using assms
  by (auto simp: unused_since_def run_refresh_def try_begin_def record_refresh_def lifecycle_record_refresh_def)

lemma polled_unused:
  assumes "unused_since policy (t 0) s" and "rp_max_idle policy = Some idle"
    and "refresh_after_secs T policy + gap < idle" "refresh_after_secs T policy + gap < rp_lifetime policy"
    and "\<And>k. t k \<le> t (Suc k) \<and> t (Suc k) \<le> t k + gap" and "\<And>k. k \<le> n \<Longrightarrow> t k + rp_lifetime policy \<le> secs_max"
  shows "\<exists>e. unused_since policy e (polled T policy tok t s n) \<and> e \<le> t n \<and> t n \<le> e + refresh_after_secs T policy + gap
    \<and> e + rp_lifetime policy \<le> secs_max"
  using assms(6)
proof (induction n)
  case 0
  with assms(1) show ?case by (intro exI [of _ "t 0"]) auto
next
  case (Suc n)
  then obtain e where e: "unused_since policy e (polled T policy tok t s n)" "e \<le> t n"
      "t n \<le> e + refresh_after_secs T policy + gap" "e + rp_lifetime policy \<le> secs_max" by auto
  have ev: "evaluate T policy (t n) (polled T policy tok t s n) =
      (if e + refresh_after_secs T policy \<le> t n then Refresh else SessionOk)"
    by (rule evaluate_unused [OF e(1) assms(2)]) (use e assms(3,4) in auto)
  show ?case
  proof (cases "e + refresh_after_secs T policy \<le> t n")
    case True
    have "t n + rp_lifetime policy \<le> secs_max" using Suc.prems [of n] by simp
    with True ev refresh_unused [OF e(1), of "t n" tok] assms(5) [of n] show ?thesis
      by (intro exI [of _ "t n"]) (simp add: Let_def)
  next
    case False
    with ev e assms(5) [of n] show ?thesis by (intro exI [of _ e]) (simp add: Let_def)
  qed
qed

text \<open>A refresh counts as use of the session.  When tokens are refreshed in time, and the
  idle limit is longer than the time to the next refresh, a session that nobody uses is
  never logged out for being idle.\<close>

theorem idle_logout_never_due:
  assumes "unused_since policy (t 0) s" and "rp_max_idle policy = Some idle"
    and "refresh_after_secs T policy + gap < idle" and "refresh_after_secs T policy + gap < rp_lifetime policy"
    and "\<forall>k. t k \<le> t (Suc k) \<and> t (Suc k) \<le> t k + gap" and "\<forall>k \<le> n. t k + rp_lifetime policy \<le> secs_max"
  shows "evaluate T policy (t n) (polled T policy tok t s n) \<in> {SessionOk, Refresh}"
proof -
  obtain e where e: "unused_since policy e (polled T policy tok t s n)" "e \<le> t n"
      "t n \<le> e + refresh_after_secs T policy + gap" "e + rp_lifetime policy \<le> secs_max"
    using polled_unused [of policy t s idle T gap n tok] assms by auto
  have "evaluate T policy (t n) (polled T policy tok t s n) =
      (if e + refresh_after_secs T policy \<le> t n then Refresh else SessionOk)"
    by (rule evaluate_unused [OF e(1) assms(2)]) (use e assms(3,4) in auto)
  then show ?thesis by simp
qed

text \<open>Integer percentages as thresholds.\<close>

definition percent :: "nat threshold_ops" where
  "percent = \<lparr>th_in_unit = (\<lambda>f. f \<le> 100), th_default = 80, th_scale = (\<lambda>n f. n * f div 100)\<rparr>"

definition idle_policy :: "nat refresh_policy" where
  "idle_policy = \<lparr>rp_lifetime = 1000, rp_refresh_threshold = 80, rp_max_idle = Some 900\<rparr>"

definition unused_session :: session_manager where
  "unused_session = attach_lifecycle 0 idle_policy False
     (snd (apply_command (MarkAuthenticated None ''t'') (snd (apply_command (LoginWithToken ''t'') session_manager_new))))"

theorem idle_logout_never_due_witness:
  "evaluate percent idle_policy 100000 (polled percent idle_policy ''t'' (\<lambda>k. 10 * k) unused_session 10000) \<in> {SessionOk, Refresh}"
proof -
  have u: "unused_since idle_policy 0 unused_session"
    by (auto simp: unused_since_def unused_session_def attach_lifecycle_def lifecycle_new_def idle_policy_def
        session_manager_new_def intro!: exI [of _ False])
  show ?thesis
    using idle_logout_never_due [of idle_policy "\<lambda>k. 10 * k" unused_session 900 percent 10 10000 "''t''"] u
    by (simp add: refresh_after_secs_def idle_policy_def percent_def)
qed

end
