(* ===== verification/Api_Transport.thy ===== *)
theory Api_Transport
  imports Wire Http_Date
begin

text \<open>
  What every protocol client of \<open>pcloud-proto/src\<close> rests on: the request builders' trait
  (\<open>methods/mod.rs\<close>), the transport traits (\<open>auth_api.rs\<close>), the configuration of the binary
  transport and how a server may move it to another host (\<open>transport.rs\<close>), and the same
  hint applied to the configured endpoint (\<open>pcloud-config/src/api.rs\<close>).

  The network is an argument: what a request sent to a given endpoint returns, and the
  state of the world after it.
\<close>

section \<open>Requests\<close>

abbreviation p_string :: "string \<Rightarrow> string \<Rightarrow> binary_param" where
  "p_string name v \<equiv> \<lparr>bp_name = name, bp_value = PString v\<rparr>"

abbreviation p_number :: "string \<Rightarrow> u64 \<Rightarrow> binary_param" where
  "p_number name v \<equiv> \<lparr>bp_name = name, bp_value = PNumber v\<rparr>"

abbreviation p_bool :: "string \<Rightarrow> bool \<Rightarrow> binary_param" where
  "p_bool name v \<equiv> \<lparr>bp_name = name, bp_value = PBool v\<rparr>"

text \<open>A builder is the pair of its command name and its parameters.\<close>

type_synonym protocol_method = "string \<times> binary_param list"

definition encode_method :: "protocol_method \<Rightarrow> (frame_parse_error, encoded_request) result" where
  "encode_method rq = encode_request (fst rq) (snd rq) (Some 0)"

section \<open>Transports\<close>

record ('s, 'e) protocol_transport =
  tp_execute :: "encoded_request \<Rightarrow> 's \<Rightarrow> ('e, wire_value) result \<times> 's"
  tp_hint :: "string \<Rightarrow> 's \<Rightarrow> 's"
  tp_display :: "'e \<Rightarrow> string"

datatype 'e auth_api_error = Encode frame_parse_error | Transport 'e | Malformed string

text \<open>Encode a request and execute it, the opening steps of every client operation.\<close>

definition call ::
  "('s, 'e) protocol_transport \<Rightarrow> protocol_method \<Rightarrow> 's \<Rightarrow> ('e auth_api_error, wire_value) result \<times> 's" where
  "call T rq s =
     (case encode_method rq of
        Inl e \<Rightarrow> (Err (Encode e), s)
      | Inr encoded \<Rightarrow>
          (case tp_execute T encoded s of
             (Inl e, s') \<Rightarrow> (Err (Transport e), s')
           | (Inr response, s') \<Rightarrow> (Ok response, s')))"

text \<open>The same for a response that has to be a hash.\<close>

definition call_hash ::
  "('s, 'e) protocol_transport \<Rightarrow> protocol_method \<Rightarrow> string \<Rightarrow> 's
    \<Rightarrow> ('e auth_api_error, (string \<times> wire_value) list) result \<times> 's" where
  "call_hash T rq not_hash s =
     (case call T rq s of
        (Inl e, s') \<Rightarrow> (Err e, s')
      | (Inr response, s') \<Rightarrow>
          (case as_hash response of None \<Rightarrow> (Err (Malformed not_hash), s') | Some h \<Rightarrow> (Ok h, s')))"

definition result_code :: "(string \<times> wire_value) list \<Rightarrow> u64" where
  "result_code hash = (case get_number hash ''result'' of Some n \<Rightarrow> n | None \<Rightarrow> 0)"

text \<open>A predicate on the transport's state that neither a request nor a hint can break is
  kept by every client operation, which reach the transport in these two ways only.\<close>

locale kept_by_transport =
  fixes T :: "('s, 'e) protocol_transport" and P :: "'s \<Rightarrow> bool"
  assumes execute_keeps: "P s \<Longrightarrow> P (snd (tp_execute T rq s))"
    and hint_keeps: "P s \<Longrightarrow> P (tp_hint T h s)"
begin

lemma call_keeps: "P s \<Longrightarrow> P (snd (call T rq s))"
  using execute_keeps by (fastforce simp: call_def split: sum.split prod.split dest: arg_cong [of _ _ snd])

lemma call_hash_keeps: "P s \<Longrightarrow> P (snd (call_hash T rq msg s))"
  using call_keeps [of s rq] by (auto simp: call_hash_def split: sum.split prod.split option.split)

end

section \<open>The binary transport\<close>

record transport_config =
  tc_host :: string
  tc_port :: nat
  tc_server_name :: string
  tc_use_tls :: bool
  tc_connect_timeout :: nat
  tc_read_timeout :: nat
  tc_write_timeout :: nat
  tc_interrupt_retry_delay :: nat
  tc_total_request_timeout :: nat
  tc_max_response_bytes :: nat

text \<open>Milliseconds.\<close>

definition with_tls :: "bool \<Rightarrow> string \<Rightarrow> nat \<Rightarrow> string \<Rightarrow> nat \<Rightarrow> nat \<Rightarrow> transport_config" where
  "with_tls use_tls host port server_name connect_timeout read_timeout =
     \<lparr>tc_host = host, tc_port = port, tc_server_name = server_name, tc_use_tls = use_tls,
      tc_connect_timeout = connect_timeout, tc_read_timeout = read_timeout, tc_write_timeout = read_timeout,
      tc_interrupt_retry_delay = 10, tc_total_request_timeout = 300000, tc_max_response_bytes = 64 * 1024 * 1024\<rparr>"

definition production :: "string \<Rightarrow> nat \<Rightarrow> string \<Rightarrow> transport_config" where
  "production host port server_name =
     \<lparr>tc_host = host, tc_port = port, tc_server_name = server_name, tc_use_tls = True,
      tc_connect_timeout = 10000, tc_read_timeout = 30000, tc_write_timeout = 30000,
      tc_interrupt_retry_delay = 10, tc_total_request_timeout = 300000, tc_max_response_bytes = 64 * 1024 * 1024\<rparr>"

definition dev_plaintext :: "string \<Rightarrow> nat \<Rightarrow> string \<Rightarrow> transport_config" where
  "dev_plaintext host port server_name =
     \<lparr>tc_host = host, tc_port = port, tc_server_name = server_name, tc_use_tls = False,
      tc_connect_timeout = 10000, tc_read_timeout = 30000, tc_write_timeout = 30000,
      tc_interrupt_retry_delay = 10, tc_total_request_timeout = 300000, tc_max_response_bytes = 64 * 1024 * 1024\<rparr>"

definition ends_with :: "string \<Rightarrow> string \<Rightarrow> bool" where
  "ends_with s p \<longleftrightarrow> drop (length s - length p) s = p"

definition is_known_safe_host :: "string \<Rightarrow> bool" where
  "is_known_safe_host host \<longleftrightarrow> ends_with host ''.pcloud.com'' \<or> ends_with host ''.pcloud.link''"

text \<open>\<open>s.rsplit_once(d)\<close> and \<open>parse::<u16>()\<close>.\<close>

definition rsplit_once :: "char \<Rightarrow> string \<Rightarrow> (string \<times> string) option" where
  "rsplit_once d s = map_option (\<lambda>i. (take i s, drop (Suc i) s)) (rfind d s)"

definition parse_u16 :: "string \<Rightarrow> nat option" where
  "parse_u16 s = (case parse_unsigned s of Some n \<Rightarrow> (if n < 65536 then Some n else None) | None \<Rightarrow> None)"

definition parse_api_server_hint :: "string \<Rightarrow> string \<times> nat option" where
  "parse_api_server_hint api_server =
     (let trimmed = trim api_server in
      case rsplit_once CHR '':'' trimmed of
        Some (host, port) \<Rightarrow>
          (case parse_u16 port of Some port \<Rightarrow> (host, Some port) | None \<Rightarrow> (trimmed, None))
      | None \<Rightarrow> (trimmed, None))"

definition apply_api_server_hint :: "string \<Rightarrow> transport_config \<Rightarrow> transport_config" where
  "apply_api_server_hint api_server config =
     (if trim api_server = [] then config
      else
        let (host, port) = parse_api_server_hint api_server in
        if \<not> is_known_safe_host host then config
        else
          let config = config\<lparr>tc_host := host, tc_server_name := host\<rparr> in
          (case port of Some port \<Rightarrow> config\<lparr>tc_port := port\<rparr> | None \<Rightarrow> config))"

text \<open>The transport shared by all clients: its live configuration and the state of the world.\<close>

definition binary_api_transport ::
  "(transport_config \<Rightarrow> encoded_request \<Rightarrow> 'w \<Rightarrow> ('e, wire_value) result \<times> 'w) \<Rightarrow> ('e \<Rightarrow> string)
    \<Rightarrow> (transport_config \<times> 'w, 'e) protocol_transport" where
  "binary_api_transport net display =
     \<lparr>tp_execute = (\<lambda>rq (config, w). case net config rq w of (r, w') \<Rightarrow> (r, (config, w'))),
      tp_hint = (\<lambda>h (config, w). (apply_api_server_hint h config, w)),
      tp_display = display\<rparr>"

section \<open>The configured endpoint\<close>

datatype environment = Development | Test | Production

datatype api_mode = ApiDevelopment | Plaintext | Tls

datatype tls_revocation_check = RevocationDisabled | StapledPermissive | StapledStrict | CrlFile string

definition revocation_is_strict :: "tls_revocation_check \<Rightarrow> bool" where
  "revocation_is_strict c \<longleftrightarrow> c = StapledStrict"

definition revocation_is_disabled :: "tls_revocation_check \<Rightarrow> bool" where
  "revocation_is_disabled c = (case c of RevocationDisabled \<Rightarrow> True | CrlFile path \<Rightarrow> trim path = [] | _ \<Rightarrow> False)"

record api_endpoint =
  ae_mode :: api_mode
  ae_host :: string
  ae_port :: nat
  ae_server_name :: string
  ae_connect_timeout_ms :: nat
  ae_read_timeout_ms :: nat
  ae_tls_revocation_check :: tls_revocation_check

datatype config_error = InvalidApiEndpoint string | InvalidTimeoutComposition string

fun secure_default_for :: "environment \<Rightarrow> api_mode" where
  "secure_default_for Development = ApiDevelopment"
| "secure_default_for Test = ApiDevelopment"
| "secure_default_for Production = Tls"

definition secure_defaults :: "environment \<Rightarrow> api_endpoint" where
  "secure_defaults environment =
     \<lparr>ae_mode = secure_default_for environment, ae_host = ''bineapi.pcloud.com'', ae_port = 443,
      ae_server_name = ''bineapi.pcloud.com'', ae_connect_timeout_ms = 5000, ae_read_timeout_ms = 15000,
      ae_tls_revocation_check = RevocationDisabled\<rparr>"

definition validate_timeout_composition :: "nat \<Rightarrow> nat \<Rightarrow> nat option \<Rightarrow> (config_error, unit) result" where
  "validate_timeout_composition connect rd tot =
     (if connect > rd then Err (InvalidTimeoutComposition ''connect_timeout must not exceed read_timeout'')
      else (case tot of
        Some t \<Rightarrow>
          if rd > t then Err (InvalidTimeoutComposition ''read_timeout must not exceed total_request_timeout'') else Ok ()
      | None \<Rightarrow> Ok ()))"

definition validate_endpoint :: "environment \<Rightarrow> api_endpoint \<Rightarrow> (config_error, unit) result" where
  "validate_endpoint environment a =
     (if environment = Production \<and> ae_mode a = Plaintext then
        Err (InvalidApiEndpoint ''production environment requires tls api mode'')
      else if ae_mode a = ApiDevelopment then Ok ()
      else if trim (ae_host a) = [] then Err (InvalidApiEndpoint ''host must not be empty'')
      else if ae_port a = 0 then Err (InvalidApiEndpoint ''port must not be zero'')
      else if ae_mode a = Tls \<and> trim (ae_server_name a) = [] then
        Err (InvalidApiEndpoint ''server_name must not be empty in tls mode'')
      else if ae_connect_timeout_ms a = 0 then Err (InvalidApiEndpoint ''connect_timeout_ms must be non-zero'')
      else if ae_read_timeout_ms a = 0 then Err (InvalidApiEndpoint ''read_timeout_ms must be non-zero'')
      else validate_timeout_composition (ae_connect_timeout_ms a) (ae_read_timeout_ms a) None)"

definition endpoint_hint :: "string \<Rightarrow> api_endpoint \<Rightarrow> (string, unit) result \<times> api_endpoint" where
  "endpoint_hint api_server a =
     (if trim api_server = [] then (Ok (), a)
      else
        let (host, port) = parse_api_server_hint api_server in
        if \<not> is_known_safe_host host then
          (Err ''api server hint rejected: host is not a known pCloud domain'', a)
        else
          let a = a\<lparr>ae_host := host, ae_server_name := host\<rparr> in
          (Ok (), case port of Some port \<Rightarrow> a\<lparr>ae_port := port\<rparr> | None \<Rightarrow> a))"

text \<open>The port of a hint is not checked: a hint with port 0 is accepted and leaves an endpoint that
  no longer validates.\<close>

lemma hint_with_port_zero:
  "let a = secure_defaults Production; (r, a') = endpoint_hint ''api.pcloud.com:0'' a
   in validate_endpoint Production a = Ok () \<and> r = Ok () \<and> validate_endpoint Production a' \<noteq> Ok ()"
proof -
  have nt: "trim s = s" if "find (\<lambda>w. w \<noteq> [] \<and> starts_with s w) whitespace_encodings = None"
      "find (\<lambda>w. w \<noteq> [] \<and> starts_with (rev s) w) (map rev whitespace_encodings) = None" for s
    using that by (simp add: trim_def trim_start_def trim_end_def trim_start_by.simps)
  have t: "trim ''bineapi.pcloud.com'' = ''bineapi.pcloud.com''" "trim ''api.pcloud.com:0'' = ''api.pcloud.com:0''"
      "trim ''api.pcloud.com'' = ''api.pcloud.com''"
    by (rule nt; simp add: whitespace_encodings_def starts_with_def)+
  show ?thesis
    by (simp add: t secure_defaults_def endpoint_hint_def parse_api_server_hint_def rsplit_once_def parse_u16_def
        parse_unsigned_def digit_value_def is_known_safe_host_def ends_with_def validate_endpoint_def
        validate_timeout_composition_def)
qed

end
