(* ===== verification/Auth_Api.thy ===== *)
theory Auth_Api
  imports Api_Transport
begin

text \<open>
  The client of the authentication methods, \<open>pcloud-proto/src/methods/auth.rs\<close> and
  \<open>auth_api.rs\<close>: the request builders, what a reply to a login means, the exchange of a
  token for a fresh one, and which replies move the transport to another server.
  SHA-1 is an argument.
\<close>

section \<open>Requests\<close>

record auth_request_context =
  ac_timeformat :: string
  ac_os_version :: string
  ac_app_version :: string
  ac_device_id :: string
  ac_device_name :: string
  ac_os_id :: u64
  ac_get_auth :: bool
  ac_crypto_keys_sign :: bool
  ac_get_api_server :: bool
  ac_get_last_subscription :: bool

definition hex_lower :: "byte list \<Rightarrow> string" where
  "hex_lower bs =
     concat (map (\<lambda>b. [''0123456789abcdef'' ! unat (drop_bit 4 b), ''0123456789abcdef'' ! unat (take_bit 4 b)]) bs)"

text \<open>The two environment variables are arguments.\<close>

definition legacy_compatible_device_id :: "(byte list \<Rightarrow> byte list) \<Rightarrow> string option \<Rightarrow> string option \<Rightarrow> string" where
  "legacy_compatible_device_id sha1 hostname host =
     (let host = (case hostname of Some h \<Rightarrow> h | None \<Rightarrow> (case host of Some h \<Rightarrow> h | None \<Rightarrow> ''pcloud-rust''))
      in take 32 (hex_lower (sha1 (as_bytes host @ as_bytes '':pcloud-rust-dev''))))"

definition context_default :: "string \<Rightarrow> auth_request_context" where
  "context_default device_id =
     \<lparr>ac_timeformat = ''timestamp'', ac_os_version = ''Desktop, Linux'', ac_app_version = ''1.5.1'',
      ac_device_id = device_id, ac_device_name = ''Desktop, Linux, 1.5.1'', ac_os_id = 7,
      ac_get_auth = True, ac_crypto_keys_sign = True, ac_get_api_server = True, ac_get_last_subscription = True\<rparr>"

definition standard_params :: "auth_request_context \<Rightarrow> binary_param list" where
  "standard_params c =
     [p_string ''timeformat'' (ac_timeformat c), p_string ''osversion'' (ac_os_version c),
      p_string ''appversion'' (ac_app_version c), p_string ''deviceid'' (ac_device_id c),
      p_string ''device'' (ac_device_name c), p_bool ''getauth'' (ac_get_auth c),
      p_bool ''cryptokeyssign'' (ac_crypto_keys_sign c), p_bool ''getapiserver'' (ac_get_api_server c),
      p_bool ''getlastsubscription'' (ac_get_last_subscription c), p_number ''os'' (ac_os_id c)]"

definition get_digest_request :: protocol_method where
  "get_digest_request = (''getdigest'', [p_string ''MS'' ''sucks''])"

definition login_request :: "string \<Rightarrow> protocol_method" where
  "login_request username = (''login'', [p_string ''username'' username])"

definition password_params :: "string \<Rightarrow> string \<Rightarrow> binary_param list" where
  "password_params username password = [p_string ''username'' username, p_string ''password'' password]"

definition user_info_request :: "string \<Rightarrow> auth_request_context \<Rightarrow> protocol_method" where
  "user_info_request auth_token context = (''userinfo'', p_string ''auth'' auth_token # standard_params context)"

definition two_factor_login_request ::
  "string \<Rightarrow> string \<Rightarrow> bool \<Rightarrow> bool \<Rightarrow> auth_request_context \<Rightarrow> protocol_method" where
  "two_factor_login_request token code trust_device recovery_code context =
     (if recovery_code then ''tfa_loginwithrecoverycode'' else ''tfa_login'',
      [p_string ''token'' token, p_string ''code'' code, p_bool ''trustdevice'' trust_device] @ standard_params context)"

definition two_factor_send_sms_request :: "string \<Rightarrow> protocol_method" where
  "two_factor_send_sms_request token = (''tfa_sendcodeviasms'', [p_string ''token'' token])"

definition two_factor_send_notification_request :: "string \<Rightarrow> protocol_method" where
  "two_factor_send_notification_request token = (''tfa_sendcodeviasysnotification'', [p_string ''token'' token])"

definition login_digest_request ::
  "string \<Rightarrow> string \<Rightarrow> string \<Rightarrow> string option \<Rightarrow> auth_request_context \<Rightarrow> protocol_method" where
  "login_digest_request username digest_token password_digest code context =
     (''login'',
      [p_string ''username'' username, p_string ''digest'' digest_token, p_string ''passworddigest'' password_digest]
        @ (case code of Some c \<Rightarrow> [p_string ''code'' c] | None \<Rightarrow> []) @ standard_params context)"

section \<open>Replies\<close>

datatype password_login_outcome =
    OutAuthenticated string "u64 option" "string option"
  | OutTwoFactorRequired string bool "string option"
  | OutFailed u64 "string option" "string option"

record user_info =
  ui_user_id :: "u64 option"
  ui_email :: "string option"
  ui_api_server :: "string option"
  ui_quota :: "u64 option"
  ui_used_quota :: "u64 option"
  ui_premium :: "bool option"
  ui_premium_expires :: "u64 option"
  ui_email_verified :: "bool option"
  ui_plan :: "u64 option"

record two_factor_sms_delivery =
  sd_country_code :: "string option"
  sd_phone_number :: "string option"

record logged_device =
  ld_name :: "string option"
  ld_device_type :: "u64 option"

datatype 'e auth_refresh_error = RefreshAuthExpired u64 | TemporaryFailure "'e auth_api_error" | MissingAuthField

definition AUTH_EXPIRED_RESULTS :: "u64 list" where
  "AUTH_EXPIRED_RESULTS = [1000, 2000, 2094, 2297]"

definition is_auth_expired_result :: "u64 \<Rightarrow> bool" where
  "is_auth_expired_result result \<longleftrightarrow> result \<in> set AUTH_EXPIRED_RESULTS"

definition or_else :: "'a option \<Rightarrow> 'a option \<Rightarrow> 'a option" where
  "or_else a b = (case a of Some x \<Rightarrow> Some x | None \<Rightarrow> b)"

definition extract_api_server_hint :: "(string \<times> wire_value) list \<Rightarrow> string option" where
  "extract_api_server_hint hash =
     or_else (get_string hash ''binapi'')
       (case get_hash hash ''apiserver'' of
          None \<Rightarrow> None
        | Some apiserver \<Rightarrow>
            or_else
              (case get_array apiserver ''binapi'' of Some (entry # _) \<Rightarrow> as_string entry | _ \<Rightarrow> None)
              (get_string apiserver ''binapi''))"

definition parse_login_outcome :: "wire_value \<Rightarrow> ('e auth_api_error, password_login_outcome) result" where
  "parse_login_outcome response =
     (case as_hash response of
        None \<Rightarrow> Err (Malformed ''login response was not a hash'')
      | Some hash \<Rightarrow>
          let result = result_code hash; hint = extract_api_server_hint hash;
              trust = (get_bool hash ''trustdevice'' = Some True) in
          if result = 0 then
            (case get_string hash ''auth'' of
               None \<Rightarrow> Err (Malformed ''missing auth token on successful login'')
             | Some auth_token \<Rightarrow> Ok (OutAuthenticated auth_token (get_number hash ''userid'') hint))
          else
            (case or_else (get_string hash ''token'') (get_string hash ''tfa_token'') of
               Some challenge_token \<Rightarrow> Ok (OutTwoFactorRequired challenge_token trust hint)
             | None \<Rightarrow>
                 if result = 2297 then Ok (OutTwoFactorRequired [] trust hint)
                 else Ok (OutFailed result (get_string hash ''error'') hint)))"

definition parse_two_factor_sms_delivery :: "wire_value \<Rightarrow> ('e auth_api_error, two_factor_sms_delivery) result" where
  "parse_two_factor_sms_delivery response =
     (case as_hash response of
        None \<Rightarrow> Err (Malformed ''tfa sms response was not a hash'')
      | Some hash \<Rightarrow>
          if result_code hash \<noteq> 0 then Err (Malformed ''tfa sms result was non-zero'')
          else
            let phone = get_hash hash ''phonedata'' in
            Ok \<lparr>sd_country_code = Option.bind phone (\<lambda>p. get_string p ''countrycode''),
                sd_phone_number = Option.bind phone (\<lambda>p. get_string p ''msisdn'')\<rparr>)"

definition parse_two_factor_notification_delivery :: "wire_value \<Rightarrow> ('e auth_api_error, logged_device list) result" where
  "parse_two_factor_notification_delivery response =
     (case as_hash response of
        None \<Rightarrow> Err (Malformed ''tfa notification response was not a hash'')
      | Some hash \<Rightarrow>
          if result_code hash \<noteq> 0 then Err (Malformed ''tfa notification result was non-zero'')
          else Ok (case get_array hash ''devices'' of
              None \<Rightarrow> []
            | Some entries \<Rightarrow>
                map (\<lambda>device. \<lparr>ld_name = get_string device ''name'', ld_device_type = get_number device ''type''\<rparr>)
                  (List.map_filter as_hash entries)))"

fun login_outcome_api_server_hint :: "password_login_outcome \<Rightarrow> string option" where
  "login_outcome_api_server_hint (OutAuthenticated _ _ api_server) = api_server"
| "login_outcome_api_server_hint (OutTwoFactorRequired _ _ api_server) = api_server"
| "login_outcome_api_server_hint (OutFailed _ _ api_server) = api_server"

section \<open>Operations\<close>

definition apply_hint :: "('s, 'e) protocol_transport \<Rightarrow> string option \<Rightarrow> 's \<Rightarrow> 's" where
  "apply_hint T api_server s = (case api_server of Some hint \<Rightarrow> tp_hint T hint s | None \<Rightarrow> s)"

definition ascii_lowercase :: "char \<Rightarrow> char" where
  "ascii_lowercase c = (let k = of_char c :: nat in if 65 \<le> k \<and> k \<le> 90 then char_of (k + 32) else c)"

definition to_ascii_lowercase :: "string \<Rightarrow> string" where
  "to_ascii_lowercase = map ascii_lowercase"

definition compute_password_digest :: "(byte list \<Rightarrow> byte list) \<Rightarrow> string \<Rightarrow> string \<Rightarrow> string \<Rightarrow> string" where
  "compute_password_digest sha1 username password server_digest =
     (let user_hex = hex_lower (sha1 (as_bytes (to_ascii_lowercase username)))
      in hex_lower (sha1 (as_bytes password @ as_bytes user_hex @ as_bytes server_digest)))"

record ('s, 'e) auth_api =
  aa_transport :: "('s, 'e) protocol_transport"
  aa_context :: auth_request_context
  aa_sha1 :: "byte list \<Rightarrow> byte list"

definition refresh_auth_token ::
  "('s, 'e) auth_api \<Rightarrow> string \<Rightarrow> 's \<Rightarrow> ('e auth_refresh_error, string) result \<times> 's" where
  "refresh_auth_token A current s =
     (let T = aa_transport A; context = (aa_context A)\<lparr>ac_get_auth := True\<rparr> in
      case call_hash T (user_info_request current context) ''refresh response was not a hash'' s of
        (Inl e, s') \<Rightarrow> (Err (TemporaryFailure e), s')
      | (Inr hash, s') \<Rightarrow>
          let result = result_code hash in
          if result \<noteq> 0 then
            (if is_auth_expired_result result then (Err (RefreshAuthExpired result), s')
             else (Err (TemporaryFailure (Malformed ''refresh returned non-zero result'')), s'))
          else
            let s'' = apply_hint T (extract_api_server_hint hash) s' in
            (case get_string hash ''auth'' of
               None \<Rightarrow> (Err MissingAuthField, s'')
             | Some new_token \<Rightarrow> if new_token = [] then (Err MissingAuthField, s'') else (Ok new_token, s'')))"

definition get_digest :: "('s, 'e) auth_api \<Rightarrow> 's \<Rightarrow> ('e auth_api_error, string) result \<times> 's" where
  "get_digest A s =
     (case call_hash (aa_transport A) get_digest_request ''getdigest response was not a hash'' s of
        (Inl e, s') \<Rightarrow> (Err e, s')
      | (Inr hash, s') \<Rightarrow>
          if result_code hash \<noteq> 0 then (Err (Malformed ''getdigest result was non-zero''), s')
          else (case get_string hash ''digest'' of
              None \<Rightarrow> (Err (Malformed ''getdigest response was missing digest''), s')
            | Some digest \<Rightarrow> (Ok digest, s')))"

text \<open>The steps that the login operations share: execute, read the outcome, follow its hint.\<close>

definition login_call ::
  "('s, 'e) auth_api \<Rightarrow> protocol_method \<Rightarrow> 's \<Rightarrow> ('e auth_api_error, password_login_outcome) result \<times> 's" where
  "login_call A rq s =
     (case call (aa_transport A) rq s of
        (Inl e, s') \<Rightarrow> (Err e, s')
      | (Inr response, s') \<Rightarrow>
          (case parse_login_outcome response of
             Inl e \<Rightarrow> (Err e, s')
           | Inr outcome \<Rightarrow> (Ok outcome, apply_hint (aa_transport A) (login_outcome_api_server_hint outcome) s')))"

definition login_password_with_code ::
  "('s, 'e) auth_api \<Rightarrow> string \<Rightarrow> string \<Rightarrow> string option \<Rightarrow> 's
    \<Rightarrow> ('e auth_api_error, password_login_outcome) result \<times> 's" where
  "login_password_with_code A username password code s =
     (case get_digest A s of
        (Inl e, s') \<Rightarrow> (Err e, s')
      | (Inr digest, s') \<Rightarrow>
          login_call A
            (login_digest_request username digest (compute_password_digest (aa_sha1 A) username password digest)
               code (aa_context A)) s')"

definition login_password ::
  "('s, 'e) auth_api \<Rightarrow> string \<Rightarrow> string \<Rightarrow> 's \<Rightarrow> ('e auth_api_error, password_login_outcome) result \<times> 's" where
  "login_password A username password s = login_password_with_code A username password None s"

definition api_submit_two_factor_code ::
  "('s, 'e) auth_api \<Rightarrow> string \<Rightarrow> string \<Rightarrow> bool \<Rightarrow> bool \<Rightarrow> 's
    \<Rightarrow> ('e auth_api_error, password_login_outcome) result \<times> 's" where
  "api_submit_two_factor_code A token code trust_device recovery_code s =
     login_call A (two_factor_login_request token code trust_device recovery_code (aa_context A)) s"

definition userinfo :: "('s, 'e) auth_api \<Rightarrow> string \<Rightarrow> 's \<Rightarrow> ('e auth_api_error, user_info) result \<times> 's" where
  "userinfo A auth_token s =
     (case call_hash (aa_transport A) (user_info_request auth_token (aa_context A)) ''userinfo response was not a hash'' s of
        (Inl e, s') \<Rightarrow> (Err e, s')
      | (Inr hash, s') \<Rightarrow>
          let info = \<lparr>ui_user_id = get_number hash ''userid'', ui_email = get_string hash ''email'',
                ui_api_server = extract_api_server_hint hash, ui_quota = get_number hash ''quota'',
                ui_used_quota = get_number hash ''usedquota'', ui_premium = get_bool hash ''premium'',
                ui_premium_expires = get_number hash ''premiumexpires'',
                ui_email_verified = get_bool hash ''emailverified'', ui_plan = get_number hash ''plan''\<rparr>
          in (Ok info, apply_hint (aa_transport A) (ui_api_server info) s'))"

definition api_send_two_factor_sms ::
  "('s, 'e) auth_api \<Rightarrow> string \<Rightarrow> 's \<Rightarrow> ('e auth_api_error, two_factor_sms_delivery) result \<times> 's" where
  "api_send_two_factor_sms A token s =
     (case call (aa_transport A) (two_factor_send_sms_request token) s of
        (Inl e, s') \<Rightarrow> (Err e, s')
      | (Inr response, s') \<Rightarrow> (parse_two_factor_sms_delivery response, s'))"

definition api_send_two_factor_notification ::
  "('s, 'e) auth_api \<Rightarrow> string \<Rightarrow> 's \<Rightarrow> ('e auth_api_error, logged_device list) result \<times> 's" where
  "api_send_two_factor_notification A token s =
     (case call (aa_transport A) (two_factor_send_notification_request token) s of
        (Inl e, s') \<Rightarrow> (Err e, s')
      | (Inr response, s') \<Rightarrow> (parse_two_factor_notification_delivery response, s'))"

section \<open>What the operations do to the transport\<close>

context kept_by_transport
begin

lemma apply_hint_keeps: "P s \<Longrightarrow> P (apply_hint T h s)"
  using hint_keeps by (auto simp: apply_hint_def split: option.split)

lemma login_call_keeps: "aa_transport A = T \<Longrightarrow> P s \<Longrightarrow> P (snd (login_call A rq s))"
  using call_keeps [of s rq] apply_hint_keeps by (auto simp: login_call_def split: sum.split prod.split)

lemma get_digest_keeps: "aa_transport A = T \<Longrightarrow> P s \<Longrightarrow> P (snd (get_digest A s))"
  using call_hash_keeps [of s get_digest_request "''getdigest response was not a hash''"]
  by (auto simp: get_digest_def split: sum.split prod.split option.split)

lemma login_password_with_code_keeps:
  "aa_transport A = T \<Longrightarrow> P s \<Longrightarrow> P (snd (login_password_with_code A user pw code s))"
  using get_digest_keeps [of A s]
  by (auto simp: login_password_with_code_def login_call_keeps split: sum.split prod.split)

lemma userinfo_keeps: "aa_transport A = T \<Longrightarrow> P s \<Longrightarrow> P (snd (userinfo A tok s))"
  using call_hash_keeps [of s "user_info_request tok (aa_context A)" "''userinfo response was not a hash''"] apply_hint_keeps
  by (auto simp: userinfo_def Let_def split: sum.split prod.split)

lemma refresh_auth_token_keeps: "aa_transport A = T \<Longrightarrow> P s \<Longrightarrow> P (snd (refresh_auth_token A tok s))"
  using call_hash_keeps [of s "user_info_request tok ((aa_context A)\<lparr>ac_get_auth := True\<rparr>)" "''refresh response was not a hash''"]
    apply_hint_keeps
  by (auto simp: refresh_auth_token_def Let_def split: sum.split prod.split option.split)

lemma two_factor_keeps:
  "aa_transport A = T \<Longrightarrow> P s \<Longrightarrow> P (snd (api_submit_two_factor_code A tok code trust rec s))"
  "aa_transport A = T \<Longrightarrow> P s \<Longrightarrow> P (snd (api_send_two_factor_sms A tok s))"
  "aa_transport A = T \<Longrightarrow> P s \<Longrightarrow> P (snd (api_send_two_factor_notification A tok s))"
  using call_keeps [of s "two_factor_send_sms_request tok"] call_keeps [of s "two_factor_send_notification_request tok"]
  by (auto simp: api_submit_two_factor_code_def login_call_keeps api_send_two_factor_sms_def
      api_send_two_factor_notification_def split: sum.split prod.split)

lemmas auth_api_keeps = login_password_with_code_keeps userinfo_keeps refresh_auth_token_keeps two_factor_keeps

end

text \<open>Hints never take the binary transport out of the domains of the service: host and
  certificate name are the configured ones or one name below the two domains, and the
  choice of TLS stays.\<close>

definition pinned :: "transport_config \<Rightarrow> transport_config \<times> 'w \<Rightarrow> bool" where
  "pinned c0 s \<longleftrightarrow>
     (case s of (c, _) \<Rightarrow>
        tc_use_tls c = tc_use_tls c0
        \<and> (tc_host c = tc_host c0 \<and> tc_server_name c = tc_server_name c0
            \<or> is_known_safe_host (tc_host c) \<and> tc_server_name c = tc_host c))"

lemma pinned_hint: "pinned c0 (c, w) \<Longrightarrow> pinned c0 (apply_api_server_hint h c, w)"
  by (auto simp: pinned_def apply_api_server_hint_def Let_def split: prod.split option.split)

interpretation bin: kept_by_transport "binary_api_transport net display" "pinned c0"
  for net :: "transport_config \<Rightarrow> encoded_request \<Rightarrow> 'w \<Rightarrow> ('e, wire_value) result \<times> 'w" and display c0
  by unfold_locales
    (auto simp: binary_api_transport_def pinned_hint, auto simp: pinned_def split: prod.split)

end
