(* ===== verification/Auth_Flow.thy ===== *)
theory Auth_Flow
  imports Auth_Session Auth_Api
begin

text \<open>
  Signing in, \<open>pcloud-auth/src/orchestrator.rs\<close>: each operation drives the session's state
  machine by requests to the server.  An operation takes and returns the session and the
  state of the transport.
\<close>

datatype 'e auth_flow_error = FlowSession session_manager_error | FlowProtocol "'e auth_api_error"

datatype 'e refresh_token_error =
    NotAuthenticated
  | RtAuthExpired u64
  | RtTemporaryFailure string
  | RtSession session_manager_error
  | RtMissingAuthField

section \<open>Messages\<close>

fun display_frame_error :: "frame_parse_error \<Rightarrow> string" where
  "display_frame_error CommandTooLong = ''command name is too long for on-wire encoding''"
| "display_frame_error (ParamNameTooLong n) = ''parameter name '' @ [CHR 39] @ n @ [CHR 39] @ '' is too long for on-wire encoding''"
| "display_frame_error RequestTooLarge = ''request frame exceeds protocol limit''"
| "display_frame_error TruncatedResponseHeader = ''response frame header is truncated''"
| "display_frame_error (ResponseTooLarge n) = ''response frame length '' @ show_nat (unat n) @ '' exceeds parser limit''"

fun display_api_error :: "('e \<Rightarrow> string) \<Rightarrow> 'e auth_api_error \<Rightarrow> string" where
  "display_api_error show (Encode e) = ''request encoding failed: '' @ display_frame_error e"
| "display_api_error show (Transport e) = ''transport failed: '' @ show e"
| "display_api_error show (Malformed msg) = ''response was malformed: '' @ msg"

definition error_text :: "('s, 'e) auth_api \<Rightarrow> 'e auth_api_error \<Rightarrow> string" where
  "error_text A e = display_api_error (tp_display (aa_transport A)) e"

section \<open>Operations\<close>

type_synonym ('s, 'e, 'a) flow = "('e auth_flow_error, 'a) result \<times> session_manager \<times> 's"

text \<open>The closing steps of every successful login: mark the session as authenticated and
  record what the server says about the user.\<close>

definition install_user ::
  "u64 option \<Rightarrow> string option \<Rightarrow> string \<Rightarrow> session_manager \<Rightarrow> 's \<Rightarrow> ('s, 'e, auth_event) flow" where
  "install_user user_id email auth_token m s =
     (case apply_command (MarkAuthenticated user_id auth_token) m of
        (Inl e, m) \<Rightarrow> (Err (FlowSession e), m, s)
      | (Inr event, m) \<Rightarrow>
          (case update_userinfo user_id email m of
             (Inl e, m) \<Rightarrow> (Err (FlowSession e), m, s)
           | (Inr _, m) \<Rightarrow> (Ok event, m, s)))"

definition fail_login :: "('s, 'e) auth_api \<Rightarrow> 'e auth_api_error \<Rightarrow> session_manager \<Rightarrow> 's \<Rightarrow> ('s, 'e, 'a) flow" where
  "fail_login A e m s = (Err (FlowProtocol e), snd (apply_command (MarkAuthenticationFailed (Some (error_text A e))) m), s)"

definition login_with_token ::
  "('s, 'e) auth_api \<Rightarrow> string \<Rightarrow> session_manager \<Rightarrow> 's \<Rightarrow> ('s, 'e, auth_event) flow" where
  "login_with_token A auth_token m s =
     (case apply_command (LoginWithToken auth_token) m of
        (Inl e, m) \<Rightarrow> (Err (FlowSession e), m, s)
      | (Inr _, m) \<Rightarrow>
          (case userinfo A auth_token s of
             (Inl e, s) \<Rightarrow> fail_login A e m s
           | (Inr info, s) \<Rightarrow> install_user (ui_user_id info) (ui_email info) auth_token m s))"

text \<open>What the three operations that end in a login outcome do with it; \<open>rejected\<close> is the
  command for a refusal.\<close>

definition follow_outcome ::
  "('s, 'e) auth_api \<Rightarrow> (string option \<Rightarrow> auth_command) \<Rightarrow> password_login_outcome \<Rightarrow> session_manager \<Rightarrow> 's
    \<Rightarrow> ('s, 'e, auth_event) flow" where
  "follow_outcome A rejected outcome m s =
     (case outcome of
        OutAuthenticated auth_token user_id _ \<Rightarrow>
          (case userinfo A auth_token s of
             (Inl e, s) \<Rightarrow> (Err (FlowProtocol e), m, s)
           | (Inr info, s) \<Rightarrow> install_user (or_else (ui_user_id info) user_id) (ui_email info) auth_token m s)
      | OutTwoFactorRequired challenge_token trust_device _ \<Rightarrow>
          (let (event, m) = issue_two_factor_challenge challenge_token trust_device m in (Ok event, m, s))
      | OutFailed _ message _ \<Rightarrow>
          (case apply_command (rejected message) m of
             (Inl e, m) \<Rightarrow> (Err (FlowSession e), m, s)
           | (Inr event, m) \<Rightarrow> (Ok event, m, s)))"

definition login_with_password ::
  "('s, 'e) auth_api \<Rightarrow> string \<Rightarrow> string \<Rightarrow> session_manager \<Rightarrow> 's \<Rightarrow> ('s, 'e, auth_event) flow" where
  "login_with_password A username password m s =
     (case apply_command (LoginWithPassword username password) m of
        (Inl e, m) \<Rightarrow> (Err (FlowSession e), m, s)
      | (Inr _, m) \<Rightarrow>
          (case login_password A username password s of
             (Inl e, s) \<Rightarrow> fail_login A e m s
           | (Inr outcome, s) \<Rightarrow> follow_outcome A MarkAuthenticationFailed outcome m s))"

definition submit_two_factor_code ::
  "('s, 'e) auth_api \<Rightarrow> string \<Rightarrow> bool \<Rightarrow> bool \<Rightarrow> session_manager \<Rightarrow> 's \<Rightarrow> ('s, 'e, auth_event) flow" where
  "submit_two_factor_code A code trust_device recovery_code m s =
     (case ss_pending_challenge (sm_snapshot m) of
        None \<Rightarrow> (Err (FlowSession NoPendingChallenge), m, s)
      | Some challenge \<Rightarrow>
          (case apply_command (SubmitTwoFactorCode code trust_device) m of
             (Inl e, m) \<Rightarrow> (Err (FlowSession e), m, s)
           | (Inr _, m) \<Rightarrow>
               (case api_submit_two_factor_code A (pc_token challenge) code trust_device recovery_code s of
                  (Inl e, s) \<Rightarrow> fail_login A e m s
                | (Inr outcome, s) \<Rightarrow> follow_outcome A MarkTwoFactorCodeInvalid outcome m s)))"

definition submit_two_factor_code_with_password ::
  "('s, 'e) auth_api \<Rightarrow> string \<Rightarrow> string \<Rightarrow> string \<Rightarrow> session_manager \<Rightarrow> 's \<Rightarrow> ('s, 'e, auth_event) flow" where
  "submit_two_factor_code_with_password A username password code m s =
     (case apply_command (SubmitTwoFactorCode code False) m of
        (Inl e, m) \<Rightarrow> (Err (FlowSession e), m, s)
      | (Inr _, m) \<Rightarrow>
          (case login_password_with_code A username password (Some code) s of
             (Inl e, s) \<Rightarrow> fail_login A e m s
           | (Inr outcome, s) \<Rightarrow> follow_outcome A MarkAuthenticationFailed outcome m s))"

definition refresh_token ::
  "('s, 'e) auth_api \<Rightarrow> string \<Rightarrow> session_manager \<Rightarrow> 's
    \<Rightarrow> ('e refresh_token_error, auth_event) result \<times> session_manager \<times> 's" where
  "refresh_token A current m s =
     (if ss_state (sm_snapshot m) \<noteq> Authenticated then (Err NotAuthenticated, m, s)
      else
        (case refresh_auth_token A current s of
           (Inr new_token, s) \<Rightarrow>
             (case replace_auth_token new_token m of
                (Inl e, m) \<Rightarrow> (Err (RtSession e), m, s)
              | (Inr _, m) \<Rightarrow> (Ok (TokenRefreshed (ss_authenticated_user (sm_snapshot m))), m, s))
         | (Inl (RefreshAuthExpired result), s) \<Rightarrow> (Err (RtAuthExpired result), snd (revoke m), s)
         | (Inl MissingAuthField, s) \<Rightarrow> (Err RtMissingAuthField, m, s)
         | (Inl (TemporaryFailure inner), s) \<Rightarrow> (Err (RtTemporaryFailure (error_text A inner)), m, s)))"

definition send_two_factor_sms ::
  "('s, 'e) auth_api \<Rightarrow> session_manager \<Rightarrow> 's \<Rightarrow> ('e auth_flow_error, two_factor_sms_delivery) result \<times> 's" where
  "send_two_factor_sms A m s =
     (case ss_pending_challenge (sm_snapshot m) of
        None \<Rightarrow> (Err (FlowSession NoPendingChallenge), s)
      | Some challenge \<Rightarrow>
          (case api_send_two_factor_sms A (pc_token challenge) s of
             (Inl e, s) \<Rightarrow> (Err (FlowProtocol e), s)
           | (Inr d, s) \<Rightarrow> (Ok d, s)))"

definition send_two_factor_notification ::
  "('s, 'e) auth_api \<Rightarrow> session_manager \<Rightarrow> 's \<Rightarrow> ('e auth_flow_error, logged_device list) result \<times> 's" where
  "send_two_factor_notification A m s =
     (case ss_pending_challenge (sm_snapshot m) of
        None \<Rightarrow> (Err (FlowSession NoPendingChallenge), s)
      | Some challenge \<Rightarrow>
          (case api_send_two_factor_notification A (pc_token challenge) s of
             (Inl e, s) \<Rightarrow> (Err (FlowProtocol e), s)
           | (Inr d, s) \<Rightarrow> (Ok d, s)))"

section \<open>Reachable sessions\<close>

text \<open>Every operation a caller has on the session: the commands of the manager, the timers,
  the refresh coordinator and the login flows.\<close>

inductive session_step ::
  "('s, 'e) auth_api \<Rightarrow> 'f refresh_policy \<Rightarrow> session_manager \<times> 's \<Rightarrow> session_manager \<times> 's \<Rightarrow> bool" for A policy where
  command: "session_step A policy (m, s) (snd (apply_command c m), s)"
| attach: "session_step A policy (m, s) (attach_lifecycle now policy retained m, s)"
| used: "session_step A policy (m, s) (mark_used now m, s)"
| userinfo: "session_step A policy (m, s) (snd (update_userinfo user email m), s)"
| revoked: "session_step A policy (m, s) (snd (revoke m), s)"
| refreshed: "session_step A policy (m, s) (snd (run_refresh policy now fl (id :: lifecycle_error \<Rightarrow> lifecycle_error) f m), s)"
| expired: "session_step A policy (m, s) (snd (handle_auth_expired policy now fl (id :: lifecycle_error \<Rightarrow> lifecycle_error) g m), s)"
| token_login: "session_step A policy (m, s) (snd (login_with_token A tok m s))"
| password_login: "session_step A policy (m, s) (snd (login_with_password A user pw m s))"
| second_factor: "session_step A policy (m, s) (snd (submit_two_factor_code A code trust rec m s))"
| combined: "session_step A policy (m, s) (snd (submit_two_factor_code_with_password A user pw code m s))"
| exchange: "session_step A policy (m, s) (snd (refresh_token A tok m s))"
| sms: "session_step A policy (m, s) (m, snd (send_two_factor_sms A m s))"
| notification: "session_step A policy (m, s) (m, snd (send_two_factor_notification A m s))"

inductive session_reachable :: "('s, 'e) auth_api \<Rightarrow> 'f refresh_policy \<Rightarrow> 's \<Rightarrow> session_manager \<times> 's \<Rightarrow> bool"
  for A policy s0 where
  start: "session_reachable A policy s0 (session_manager_new, s0)"
| step: "session_reachable A policy s0 x \<Longrightarrow> session_step A policy x y \<Longrightarrow> session_reachable A policy s0 y"

subsection \<open>The session invariant\<close>

declare apply_command.simps [simp del]

lemma apply_commandD: "apply_command c m = (r, m') \<Longrightarrow> session_inv m \<Longrightarrow> session_inv m'"
  using apply_command_inv [of m c] by simp

lemma update_userinfoD: "update_userinfo u e m = (r, m') \<Longrightarrow> session_inv m \<Longrightarrow> session_inv m'"
  using session_ops_inv(3) [of m u e] by simp

lemma replace_auth_tokenD: "replace_auth_token tok m = (r, m') \<Longrightarrow> session_inv m \<Longrightarrow> session_inv m'"
  using session_ops_inv(4) [of m tok] by simp

lemma install_user_inv: "session_inv m \<Longrightarrow> session_inv (fst (snd (install_user u e tok m s)))"
  by (auto simp: install_user_def split: sum.split prod.split dest: apply_commandD update_userinfoD)

lemma fail_login_inv: "session_inv m \<Longrightarrow> session_inv (fst (snd (fail_login A e m s)))"
  by (simp add: fail_login_def apply_command_inv)

lemma follow_outcome_inv: "session_inv m \<Longrightarrow> session_inv (fst (snd (follow_outcome A rejected outcome m s)))"
  using session_ops_inv(5) [of m]
  by (auto simp: follow_outcome_def install_user_inv split: password_login_outcome.split sum.split prod.split
      dest: apply_commandD) (metis snd_conv)

lemmas flow_parts_inv = install_user_inv fail_login_inv follow_outcome_inv

lemma flows_inv:
  assumes "session_inv m"
  shows "session_inv (fst (snd (login_with_token A tok m s)))"
    and "session_inv (fst (snd (login_with_password A user pw m s)))"
    and "session_inv (fst (snd (submit_two_factor_code A code trust rec m s)))"
    and "session_inv (fst (snd (submit_two_factor_code_with_password A user pw code m s)))"
    and "session_inv (fst (snd (refresh_token A tok m s)))"
  using assms
  by (auto simp: login_with_token_def login_with_password_def submit_two_factor_code_def
      submit_two_factor_code_with_password_def refresh_token_def
      intro!: flow_parts_inv session_ops_inv(2) split: sum.split prod.split option.split auth_refresh_error.split
      dest: apply_commandD replace_auth_tokenD)

lemma session_step_inv: "session_step A policy x y \<Longrightarrow> session_inv (fst x) \<Longrightarrow> session_inv (fst y)"
  by (induction rule: session_step.induct) (auto intro: keeps_session flows_inv)

subsection \<open>The transport\<close>

lemma install_user_transport [simp]: "snd (snd (install_user u e tok m s)) = s"
  by (auto simp: install_user_def split: sum.split prod.split)

lemma fail_login_transport [simp]: "snd (snd (fail_login A e m s)) = s"
  by (simp add: fail_login_def)

context kept_by_transport
begin

lemma auth_api_keepsD:
  "login_password_with_code A user pw code s = (r1, s') \<Longrightarrow> aa_transport A = T \<Longrightarrow> P s \<Longrightarrow> P s'"
  "userinfo A tok s = (r2, s') \<Longrightarrow> aa_transport A = T \<Longrightarrow> P s \<Longrightarrow> P s'"
  "refresh_auth_token A tok s = (r3, s') \<Longrightarrow> aa_transport A = T \<Longrightarrow> P s \<Longrightarrow> P s'"
  "api_submit_two_factor_code A tok code4 trust rec s = (r4, s') \<Longrightarrow> aa_transport A = T \<Longrightarrow> P s \<Longrightarrow> P s'"
  "api_send_two_factor_sms A tok s = (r5, s') \<Longrightarrow> aa_transport A = T \<Longrightarrow> P s \<Longrightarrow> P s'"
  "api_send_two_factor_notification A tok s = (r6, s') \<Longrightarrow> aa_transport A = T \<Longrightarrow> P s \<Longrightarrow> P s'"
  by (metis auth_api_keeps snd_conv)+

lemma follow_outcome_keeps:
  "aa_transport A = T \<Longrightarrow> P s \<Longrightarrow> P (snd (snd (follow_outcome A rejected outcome m s)))"
  by (auto simp: follow_outcome_def split: password_login_outcome.split sum.split prod.split dest: auth_api_keepsD)

lemma flows_keep:
  assumes "aa_transport A = T" and "P s"
  shows "P (snd (snd (login_with_token A tok m s)))"
    and "P (snd (snd (login_with_password A user pw m s)))"
    and "P (snd (snd (submit_two_factor_code A code trust rec m s)))"
    and "P (snd (snd (submit_two_factor_code_with_password A user pw code m s)))"
    and "P (snd (snd (refresh_token A tok m s)))"
    and "P (snd (send_two_factor_sms A m s))"
    and "P (snd (send_two_factor_notification A m s))"
  using assms
  by (auto simp: login_with_token_def login_with_password_def login_password_def submit_two_factor_code_def
      submit_two_factor_code_with_password_def refresh_token_def send_two_factor_sms_def send_two_factor_notification_def
      intro!: follow_outcome_keeps split: sum.split prod.split option.split auth_refresh_error.split
      dest: auth_api_keepsD)

lemma session_step_keeps: "session_step A policy x y \<Longrightarrow> aa_transport A = T \<Longrightarrow> P (snd x) \<Longrightarrow> P (snd y)"
  by (induction rule: session_step.induct) (auto intro: flows_keep)

end

text \<open>C36: whatever the user, the server and the clock do, a signed-in session holds a token, a
  session waiting for a second factor holds its challenge, and a session that is logged out
  or rejected holds nothing of the user; and the transport never leaves the configured host
  for one outside the domains of the service, nor drops TLS.\<close>

theorem sessions_sound:
  assumes "aa_transport A = binary_api_transport net display"
    and "session_reachable A policy (c0, w0) (m, s)"
  shows "session_inv m \<and> pinned c0 s"
proof -
  have "session_inv (fst (m, s)) \<and> pinned c0 (snd (m, s))"
    using assms(2)
  proof (induction rule: session_reachable.induct)
    case start
    show ?case by (simp add: pinned_def)
  next
    case (step x y)
    then show ?case using session_step_inv bin.session_step_keeps assms(1) by blast
  qed
  then show ?thesis by simp
qed

text \<open>A server that answers every request with the same reply.\<close>

definition answering :: "wire_value \<Rightarrow> (transport_config \<times> unit, unit) auth_api" where
  "answering reply =
     \<lparr>aa_transport = binary_api_transport (\<lambda>_ _ w. (Ok reply, w)) (\<lambda>_. []),
      aa_context = context_default [], aa_sha1 = (\<lambda>_. [])\<rparr>"

definition plain_policy :: "nat refresh_policy" where
  "plain_policy = \<lparr>rp_lifetime = 1000, rp_refresh_threshold = 80, rp_max_idle = None\<rparr>"

definition api_config :: transport_config where
  "api_config = production ''bineapi.pcloud.com'' 443 ''bineapi.pcloud.com''"

theorem sessions_sound_witness:
  "let A = answering (VHash [(''result'', VNumber 0), (''binapi'', VString ''api.example.com'')]);
       (_, m, s) = login_with_token A ''tok'' session_manager_new (api_config, ())
   in session_inv m \<and> pinned api_config s"
proof -
  let ?A = "answering (VHash [(''result'', VNumber 0), (''binapi'', VString ''api.example.com'')])"
  have "session_reachable ?A plain_policy (api_config, ()) (snd (login_with_token ?A ''tok'' session_manager_new (api_config, ())))"
    by (rule session_reachable.step [OF session_reachable.start session_step.token_login])
  then show ?thesis
    using sessions_sound [of ?A "\<lambda>_ _ w. (Ok (VHash [(''result'', VNumber 0), (''binapi'', VString ''api.example.com'')]), w)"
        "\<lambda>_. []" plain_policy api_config "()"]
    by (auto simp: answering_def split: prod.split)
qed

section \<open>Outcomes\<close>

text \<open>The table of outcomes of a token refresh.  Success installs a token that is not empty and
  keeps everything else; a token the server calls expired leaves nothing of the session
  behind; without a session, on a temporary failure or a reply without a token the session
  is as it was; and the manager never rejects the new token.\<close>

theorem refresh_token_outcomes:
  "case refresh_token A tok m s of
     (Inr event, m', _) \<Rightarrow>
       event = TokenRefreshed (ss_authenticated_user (sm_snapshot m)) \<and> ss_state (sm_snapshot m) = Authenticated
       \<and> (\<exists>new. new \<noteq> [] \<and> m' = m\<lparr>sm_snapshot := (sm_snapshot m)\<lparr>ss_auth_token := Some new\<rparr>\<rparr>)
   | (Inl NotAuthenticated, m', s') \<Rightarrow> ss_state (sm_snapshot m) \<noteq> Authenticated \<and> m' = m \<and> s' = s
   | (Inl (RtAuthExpired result), m', _) \<Rightarrow> result \<in> set AUTH_EXPIRED_RESULTS \<and> m' = cleared LoggedOut None
   | (Inl (RtSession _), _, _) \<Rightarrow> False
   | (Inl (RtTemporaryFailure _), m', _) \<Rightarrow> ss_state (sm_snapshot m) = Authenticated \<and> m' = m
   | (Inl RtMissingAuthField, m', _) \<Rightarrow> ss_state (sm_snapshot m) = Authenticated \<and> m' = m"
  by (auto simp: refresh_token_def replace_auth_token_def revoke_def refresh_auth_token_def is_auth_expired_result_def Let_def
      split: sum.split prod.split auth_refresh_error.split option.split)

text \<open>C37: \<open>userinfo\<close> never looks at the result code of the reply, so a token login succeeds on
  every reply that is a hash, a refusal of the token included, and the session is signed in
  with the refused token.\<close>

theorem refused_token_signs_in:
  assumes "encode_method (user_info_request tok (aa_context A)) = Ok rq"
    and "tp_execute (aa_transport A) rq s = (Ok (VHash h), s')"
  shows "case login_with_token A tok m s of
      (r, m', _) \<Rightarrow> r = Ok (LoginSucceeded (get_number h ''userid''))
        \<and> ss_state (sm_snapshot m') = Authenticated \<and> ss_auth_token (sm_snapshot m') = Some tok"
  using assms
  by (simp add: login_with_token_def apply_command.simps userinfo_def call_hash_def call_def install_user_def update_userinfo_def
      Let_def)

definition refusal :: wire_value where
  "refusal = VHash [(''result'', VNumber 2094), (''error'', VString ''Invalid access token'')]"

theorem refused_token_signs_in_witness:
  "case login_with_token (answering refusal) ''tok'' session_manager_new (api_config, ()) of
     (r, m', _) \<Rightarrow> r = Ok (LoginSucceeded None)
       \<and> ss_state (sm_snapshot m') = Authenticated \<and> ss_auth_token (sm_snapshot m') = Some ''tok''"
proof -
  obtain rq where rq: "encode_method (user_info_request ''tok'' (context_default [])) = Ok rq"
    by (simp add: encode_method_def encode_request_def user_info_request_def standard_params_def context_default_def
        MAX_PARAM_NAME_LEN_def MAX_REQUEST_FRAME_LEN_def Let_def)
  have "get_number [(''result'', VNumber 2094), (''error'', VString ''Invalid access token'')] ''userid'' = None"
    by (simp add: get_number_def hash_get_def)
  with refused_token_signs_in [of "''tok''" "answering refusal" rq "(api_config, ())"
      "[(''result'', VNumber 2094), (''error'', VString ''Invalid access token'')]" "(api_config, ())" session_manager_new] rq
  show ?thesis by (simp add: answering_def binary_api_transport_def refusal_def)
qed

text \<open>A refused password follows the hint of the refusal.\<close>

lemma refused_login_redirects:
  assumes "login_password A user pw s = (Ok (OutFailed r msg (Some hint)), s')"
  shows "login_with_password A user pw m s = (Ok (LoginFailed msg), cleared AuthFailed msg, s')"
  using assms by (simp add: login_with_password_def apply_command.simps follow_outcome_def)

lemma refused_outcome_hint:
  assumes "call (aa_transport A) rq s = (Ok (VHash h), s')" and "result_code h \<notin> {0, 2297}"
    and "get_string h ''token'' = None" and "get_string h ''tfa_token'' = None" and "extract_api_server_hint h = Some hint"
  shows "login_call A rq s = (Ok (OutFailed (result_code h) (get_string h ''error'') (Some hint)), tp_hint (aa_transport A) hint s')"
  using assms by (simp add: login_call_def parse_login_outcome_def or_else_def apply_hint_def)

text \<open>When the server accepts the password and the lookup of the user then fails, the session is
  left in the middle of the login.\<close>

lemma login_interrupted:
  assumes "login_password A user pw s = (Ok (OutAuthenticated tok u hint), s1)" and "userinfo A tok s1 = (Err e, s2)"
  shows "\<exists>m'. login_with_password A user pw m s = (Err (FlowProtocol e), m', s2)
    \<and> ss_state (sm_snapshot m') = AuthenticatingWithPassword"
  using assms by (simp add: login_with_password_def apply_command.simps follow_outcome_def)

text \<open>A wrong second factor can be retried: after any number of refused codes the session still
  holds the same challenge, which the next attempt sends.\<close>

lemma refused_code_keeps_challenge:
  assumes "submit_two_factor_code A code trust rec m s = (Ok (LoginFailed msg), m', s')"
    and "ss_pending_challenge (sm_snapshot m) = Some c"
  shows "\<exists>c'. ss_pending_challenge (sm_snapshot m') = Some c' \<and> pc_token c' = pc_token c"
  using assms
  by (auto simp: submit_two_factor_code_def apply_command.simps follow_outcome_def install_user_def fail_login_def
      update_userinfo_def issue_two_factor_challenge_def
      split: sum.splits prod.splits password_login_outcome.splits if_splits option.splits)

end
