(* ===== verification/Proto_Resilience.thy ===== *)
theory Proto_Resilience
  imports Circuit_Breaker Retry Api_Transport
begin

text \<open>
  \<open>ResilientTransport\<close> of \<open>pcloud-proto/src/resilient_transport.rs\<close>: a transport behind a rate
  limiter, the circuit breaker of \<open>Circuit_Breaker\<close>, and the retry policy and the global
  budget of \<open>Retry\<close>.  The token bucket computes in floating point and is an argument.  The
  clock is read when the breaker is asked and when an outcome is recorded; its readings are
  an argument, indexed by the attempt.
\<close>

section \<open>The wrapper\<close>

datatype error_class = Transient | Permanent

datatype rate_limit_mode = Shed | Wait

datatype ('e, 'x) resilient_error =
    CircuitOpen | ProbeAlreadyInFlight | RateLimited | RateLimitConfig 'x | Inner 'e | RetryBudgetExhausted

record ('s, 'e, 'b, 'x, 'f) resilient_transport =
  rt_inner :: "('s, 'e) protocol_transport"
  rt_try_acquire :: "'b \<Rightarrow> ('x, bool) result \<times> 'b"
  rt_acquire :: "'b \<Rightarrow> ('x, nat) result \<times> 'b"
  rt_breaker_cfg :: circuit_breaker_config
  rt_retry :: "'f retry_policy"
  rt_exp_delay :: "nat \<Rightarrow> 'f \<Rightarrow> nat \<Rightarrow> u32 \<Rightarrow> nat"
  rt_classifier :: "'e \<Rightarrow> error_class"
  rt_rate_mode :: rate_limit_mode

text \<open>The shared state, with the waits of this caller and the number of requests it handed to
  the inner transport.\<close>

record ('s, 'b) resilient_state =
  rs_inner :: 's
  rs_bucket :: 'b
  rs_breaker :: breaker_inner
  rs_budget :: "global_retry_budget option"
  rs_waits :: "nat list"
  rs_sent :: nat

definition is_upload_mutation :: "encoded_request \<Rightarrow> bool" where
  "is_upload_mutation request \<longleftrightarrow>
     command (er_frame request) \<in> {''upload_write'', ''upload_writefromfile'', ''upload_save''}"

definition waited :: "nat \<Rightarrow> ('s, 'b) resilient_state \<Rightarrow> ('s, 'b) resilient_state" where
  "waited d s = (if d = 0 then s else s\<lparr>rs_waits := rs_waits s @ [d]\<rparr>)"

definition rate_gate ::
  "('s, 'e, 'b, 'x, 'f) resilient_transport \<Rightarrow> ('s, 'b) resilient_state
    \<Rightarrow> (('e, 'x) resilient_error, unit) result \<times> ('s, 'b) resilient_state" where
  "rate_gate R s =
     (case rt_rate_mode R of
        Shed \<Rightarrow>
          (case rt_try_acquire R (rs_bucket s) of
             (Inl x, b) \<Rightarrow> (Err (RateLimitConfig x), s\<lparr>rs_bucket := b\<rparr>)
           | (Inr ok, b) \<Rightarrow> (if ok then Ok () else Err RateLimited, s\<lparr>rs_bucket := b\<rparr>))
      | Wait \<Rightarrow>
          (case rt_acquire R (rs_bucket s) of
             (Inl x, b) \<Rightarrow> (Err (RateLimitConfig x), s\<lparr>rs_bucket := b\<rparr>)
           | (Inr d, b) \<Rightarrow> (Ok (), waited d (s\<lparr>rs_bucket := b\<rparr>))))"

definition breaker_gate ::
  "('s, 'e, 'b, 'x, 'f) resilient_transport \<Rightarrow> nat \<Rightarrow> ('s, 'b) resilient_state
    \<Rightarrow> (('e, 'x) resilient_error, unit) result \<times> ('s, 'b) resilient_state" where
  "breaker_gate R now s =
     (case try_acquire (rt_breaker_cfg R) now (rs_breaker s) of
        (g, Inr _) \<Rightarrow> (Ok (), s\<lparr>rs_breaker := g\<rparr>)
      | (g, Inl OpenError) \<Rightarrow> (Err CircuitOpen, s\<lparr>rs_breaker := g\<rparr>)
      | (g, Inl ProbeInFlight) \<Rightarrow> (Err ProbeAlreadyInFlight, s\<lparr>rs_breaker := g\<rparr>))"

text \<open>What follows a transient error of a request that may be repeated.\<close>

definition consume_budget :: "('s, 'b) resilient_state \<Rightarrow> bool \<times> ('s, 'b) resilient_state" where
  "consume_budget s =
     (case rs_budget s of
        None \<Rightarrow> (True, s)
      | Some b \<Rightarrow> (case try_consume b of (b', ok) \<Rightarrow> (ok, s\<lparr>rs_budget := Some b'\<rparr>)))"

text \<open>One turn of the loop: \<open>Inl\<close> goes round again.\<close>

definition resilient_attempt ::
  "('s, 'e, 'b, 'x, 'f) resilient_transport \<Rightarrow> (u32 \<Rightarrow> nat \<times> nat) \<Rightarrow> encoded_request \<Rightarrow> u32 \<Rightarrow> ('s, 'b) resilient_state
    \<Rightarrow> (('s, 'b) resilient_state, (('e, 'x) resilient_error, wire_value) result \<times> ('s, 'b) resilient_state) result" where
  "resilient_attempt R clock request attempt s =
     (case rate_gate R s of
        (Inl e, s) \<Rightarrow> Inr (Err e, s)
      | (Inr _, s) \<Rightarrow>
          (case breaker_gate R (fst (clock attempt)) s of
             (Inl e, s) \<Rightarrow> Inr (Err e, s)
           | (Inr _, s) \<Rightarrow>
               (case tp_execute (rt_inner R) request (rs_inner s) of
                  (Inr v, i) \<Rightarrow>
                    Inr (Ok v, s\<lparr>rs_inner := i, rs_sent := Suc (rs_sent s), rs_breaker := record_success (rs_breaker s),
                      rs_budget := map_option (replenish 1) (rs_budget s)\<rparr>)
                | (Inl err, i) \<Rightarrow>
                    (let s = s\<lparr>rs_inner := i, rs_sent := Suc (rs_sent s),
                           rs_breaker := record_failure (rt_breaker_cfg R) (snd (clock attempt)) (rs_breaker s)\<rparr> in
                     if rt_classifier R err = Permanent then Inr (Err (Inner err), s)
                     else if is_upload_mutation request then Inr (Err (Inner err), s)
                     else (case next_wait (rt_exp_delay R) (rt_retry R) attempt None of
                         RetryAfter d \<Rightarrow>
                           (case consume_budget s of
                              (False, s) \<Rightarrow> Inr (Err RetryBudgetExhausted, s)
                            | (True, s) \<Rightarrow> Inl (waited d s))
                       | GiveUp \<Rightarrow> Inr (Err (Inner err), s))))))"

lemma resilient_attempt_again:
  "resilient_attempt R clock request attempt s = Inl s' \<Longrightarrow>
     attempt < max_attempts (rt_retry R) \<and> \<not> is_upload_mutation request"
  by (auto simp: resilient_attempt_def next_wait_def Let_def
      split: sum.splits prod.splits if_splits retry_decision.splits bool.splits)

lemma attempt_counts:
  assumes "resilient_attempt R clock request (saturating_add attempt 1) s = Inl s'"
  shows "2 ^ 32 - unat (saturating_add attempt 1) < 2 ^ 32 - unat attempt"
proof -
  have "unat (saturating_add attempt 1) < unat (max_attempts (rt_retry R))"
    using resilient_attempt_again [OF assms] word_less_nat_alt by blast
  moreover have "unat (max_attempts (rt_retry R)) < 2 ^ 32"
    using unsigned_less [of "max_attempts (rt_retry R)", where 'a = nat] by simp
  ultimately show ?thesis by (simp add: unat_saturating_add)
qed

function resilient_loop ::
  "('s, 'e, 'b, 'x, 'f) resilient_transport \<Rightarrow> (u32 \<Rightarrow> nat \<times> nat) \<Rightarrow> encoded_request \<Rightarrow> u32 \<Rightarrow> ('s, 'b) resilient_state
    \<Rightarrow> (('e, 'x) resilient_error, wire_value) result \<times> ('s, 'b) resilient_state" where
  "resilient_loop R clock request attempt s =
     (case resilient_attempt R clock request (saturating_add attempt 1) s of
        Inr res \<Rightarrow> res
      | Inl s' \<Rightarrow> resilient_loop R clock request (saturating_add attempt 1) s')"
  by pat_completeness auto
termination
  by (relation "measure (\<lambda>(R, clock, request, attempt, s). 2 ^ 32 - unat attempt)")
    (simp, simp only: in_measure prod.case, erule attempt_counts)

declare resilient_loop.simps [simp del]

definition resilient_execute ::
  "('s, 'e, 'b, 'x, 'f) resilient_transport \<Rightarrow> (u32 \<Rightarrow> nat \<times> nat) \<Rightarrow> encoded_request \<Rightarrow> ('s, 'b) resilient_state
    \<Rightarrow> (('e, 'x) resilient_error, wire_value) result \<times> ('s, 'b) resilient_state" where
  "resilient_execute R clock request s = resilient_loop R clock request 0 s"

section \<open>How often a request is sent\<close>

lemma rate_gate_frame:
  "rate_gate R s = (r, s') \<Longrightarrow> rs_sent s' = rs_sent s \<and> rs_breaker s' = rs_breaker s \<and> rs_budget s' = rs_budget s"
  by (auto simp: rate_gate_def waited_def split: rate_limit_mode.splits sum.splits prod.splits if_splits)

lemma breaker_gate_frame:
  "breaker_gate R now s = (r, s') \<Longrightarrow> rs_sent s' = rs_sent s \<and> rs_budget s' = rs_budget s
     \<and> rs_breaker s' = fst (try_acquire (rt_breaker_cfg R) now (rs_breaker s)) \<and> (isl r \<longleftrightarrow> isl (snd (try_acquire (rt_breaker_cfg R) now (rs_breaker s))))"
  by (auto simp: breaker_gate_def split: sum.splits prod.splits circuit_breaker_error.splits)

lemma consume_budget_frame:
  "consume_budget s = (ok, s') \<Longrightarrow> rs_sent s' = rs_sent s \<and> rs_breaker s' = rs_breaker s"
  by (auto simp: consume_budget_def split: option.splits prod.splits)

lemma waited_frame [simp]:
  "rs_sent (waited d s) = rs_sent s" "rs_breaker (waited d s) = rs_breaker s" "rs_budget (waited d s) = rs_budget s"
  by (simp_all add: waited_def)

text \<open>The tokens a caller may still take from the budget; without a budget there is no bound.\<close>

definition retries_left :: "global_retry_budget option \<Rightarrow> nat \<Rightarrow> bool" where
  "retries_left b n = (case b of None \<Rightarrow> True | Some b \<Rightarrow> int n \<le> max 0 (tokens b))"

lemma attempt_again_counts:
  assumes "resilient_attempt R clock request attempt s = Inl s'"
  shows "rs_sent s' = Suc (rs_sent s)" and "retries_left (rs_budget s') n \<Longrightarrow> retries_left (rs_budget s) (Suc n)"
  using assms
  by (auto simp: resilient_attempt_def Let_def retries_left_def consume_budget_def try_consume_def fetch_add_def
      split: sum.splits prod.splits if_splits retry_decision.splits bool.splits option.splits
      dest!: rate_gate_frame breaker_gate_frame)

lemma attempt_last_counts:
  assumes "resilient_attempt R clock request attempt s = Inr (r, s')"
  shows "rs_sent s \<le> rs_sent s' \<and> rs_sent s' \<le> Suc (rs_sent s)"
  using assms
  by (auto simp: resilient_attempt_def Let_def
      split: sum.splits prod.splits if_splits retry_decision.splits bool.splits
      dest!: rate_gate_frame breaker_gate_frame consume_budget_frame)

text \<open>An attempt that found no probe in flight leaves none.\<close>

lemma acquire_probe:
  assumes "try_acquire cfg now g = (g', r)" and "\<not> probe_in_flight g"
  shows "\<not> probe_in_flight g' \<or> br_state g' = HalfOpen \<and> \<not> isl r"
  using assms by (auto simp: breaker_ops Let_def split: breaker_state.splits if_splits option.splits)

lemma recorded_no_probe:
  "\<not> probe_in_flight g \<or> br_state g = HalfOpen \<Longrightarrow> \<not> probe_in_flight (record_success g)"
  "\<not> probe_in_flight g \<or> br_state g = HalfOpen \<Longrightarrow> \<not> probe_in_flight (record_failure cfg now g)"
  by (auto simp: breaker_ops Let_def split: breaker_state.split)

definition quiet_transport :: "('s, 'b) resilient_state \<Rightarrow> bool" where
  "quiet_transport s \<longleftrightarrow> \<not> probe_in_flight (rs_breaker s)"

lemma gate_probe:
  assumes "breaker_gate R now s = (r, s')" and "quiet_transport s"
  shows "quiet_transport s' \<or> br_state (rs_breaker s') = HalfOpen \<and> \<not> isl r"
  using acquire_probe [of "rt_breaker_cfg R" now "rs_breaker s"] breaker_gate_frame [OF assms(1)] assms(2)
  by (cases "try_acquire (rt_breaker_cfg R) now (rs_breaker s)") (auto simp: quiet_transport_def)

lemma attempt_quiet:
  assumes "quiet_transport s"
  shows "case resilient_attempt R clock request attempt s of Inl s' \<Rightarrow> quiet_transport s' | Inr (_, s') \<Rightarrow> quiet_transport s'"
proof -
  obtain r1 s1 where 1: "rate_gate R s = (r1, s1)" by (cases "rate_gate R s")
  obtain r2 s2 where 2: "breaker_gate R (fst (clock attempt)) s1 = (r2, s2)" by (cases "breaker_gate R (fst (clock attempt)) s1")
  have q1: "quiet_transport s1" using rate_gate_frame [OF 1] assms by (simp add: quiet_transport_def)
  from gate_probe [OF 2 q1] show ?thesis
    using q1 by (auto simp: resilient_attempt_def 1 2 Let_def quiet_transport_def recorded_no_probe
        split: sum.splits prod.splits retry_decision.splits bool.splits dest!: consume_budget_frame)
qed

lemma loop_counts:
  "resilient_loop R clock request a s = (r, s') \<Longrightarrow>
     rs_sent s \<le> rs_sent s' \<and> rs_sent s' \<le> rs_sent s + max 1 (unat (max_attempts (rt_retry R)) - unat a)
     \<and> (is_upload_mutation request \<longrightarrow> rs_sent s' \<le> Suc (rs_sent s))
     \<and> retries_left (rs_budget s) (rs_sent s' - Suc (rs_sent s)) \<and> (quiet_transport s \<longrightarrow> quiet_transport s')"
proof (induction R clock request a s rule: resilient_loop.induct)
  case (1 R clock request a s)
  show ?case
  proof (cases "resilient_attempt R clock request (saturating_add a 1) s")
    case (Inr res)
    with "1.prems" have res: "resilient_attempt R clock request (saturating_add a 1) s = Inr (r, s')"
      by (simp add: resilient_loop.simps)
    from attempt_last_counts [OF this] attempt_quiet [of s R clock request "saturating_add a 1"] show ?thesis
      by (auto simp: res retries_left_def split: option.split)
  next
    case (Inl s1)
    from "1.prems" Inl have "resilient_loop R clock request (saturating_add a 1) s1 = (r, s')"
      by (simp add: resilient_loop.simps [of R clock request a])
    note IH = "1.IH" [OF Inl this]
    note again = attempt_again_counts [OF Inl] resilient_attempt_again [OF Inl]
    have a: "unat (saturating_add a 1) = Suc (unat a)" "Suc (unat a) < unat (max_attempts (rt_retry R))"
      using again(3) attempt_counts [OF Inl] by (auto simp: unat_saturating_add word_less_nat_alt min_def split: if_splits)
    have "retries_left (rs_budget s) (rs_sent s' - Suc (rs_sent s))"
    proof (cases "rs_sent s' - Suc (rs_sent s)")
      case (Suc n)
      then have "retries_left (rs_budget s1) n" using IH again(1) by (auto simp: retries_left_def split: option.splits)
      from again(2) [OF this] Suc show ?thesis by simp
    qed (auto simp: retries_left_def split: option.split)
    moreover have "quiet_transport s \<longrightarrow> quiet_transport s'" using IH attempt_quiet [of s R clock request "saturating_add a 1"] Inl by auto
    ultimately show ?thesis using IH a again(1,3) by auto
  qed
qed

text \<open>C38: a request through the wrapper is sent at most as often as the retry policy allows, each
  repetition takes a token of the global budget, the commands that write upload data are
  sent at most once, and no probe of the breaker is left behind.\<close>

theorem resilient_execute_bounded:
  assumes "resilient_execute R clock request s = (r, s')"
  shows "rs_sent s' - rs_sent s \<le> max 1 (unat (max_attempts (rt_retry R)))
    \<and> retries_left (rs_budget s) (rs_sent s' - rs_sent s - 1)
    \<and> (is_upload_mutation request \<longrightarrow> rs_sent s' - rs_sent s \<le> 1)
    \<and> (quiet_transport s \<longrightarrow> quiet_transport s')"
  using loop_counts [OF assms [unfolded resilient_execute_def]] by auto

text \<open>A transport that always times out, and three attempts.\<close>

definition timing_out :: "(unit, unit, unit, unit, unit) resilient_transport" where
  "timing_out =
     \<lparr>rt_inner = \<lparr>tp_execute = (\<lambda>_ s. (Err (), s)), tp_hint = (\<lambda>_ s. s), tp_display = (\<lambda>_. [])\<rparr>,
      rt_try_acquire = (\<lambda>b. (Ok True, b)), rt_acquire = (\<lambda>b. (Ok 0, b)),
      rt_breaker_cfg = \<lparr>failure_threshold = 5, reset_timeout = 30\<rparr>,
      rt_retry = \<lparr>max_attempts = 3, schedule = Fixed 5\<rparr>, rt_exp_delay = (\<lambda>_ _ _ _. 0),
      rt_classifier = (\<lambda>_. Transient), rt_rate_mode = Wait\<rparr>"

definition resilient_start :: "(unit, unit) resilient_state" where
  "resilient_start = \<lparr>rs_inner = (), rs_bucket = (), rs_breaker = breaker_new,
     rs_budget = Some \<lparr>tokens = 10, capacity = 10\<rparr>, rs_waits = [], rs_sent = 0\<rparr>"

theorem resilient_execute_bounded_witness:
  "\<exists>r s'. resilient_execute timing_out (\<lambda>_. (0, 0))
      \<lparr>er_frame = \<lparr>command = ''upload_save'', parameter_count = 0\<rparr>, er_params = [], er_bytes = []\<rparr> resilient_start = (r, s')
     \<and> rs_sent s' \<le> 1 \<and> quiet_transport s'"
proof -
  let ?rq = "\<lparr>er_frame = \<lparr>command = ''upload_save'', parameter_count = 0\<rparr>, er_params = [], er_bytes = []\<rparr>"
  obtain r s' where e: "resilient_execute timing_out (\<lambda>_. (0, 0)) ?rq resilient_start = (r, s')" by fastforce
  have "is_upload_mutation ?rq" by (simp add: is_upload_mutation_def)
  moreover have "quiet_transport resilient_start" by (simp add: quiet_transport_def resilient_start_def breaker_new_def)
  ultimately show ?thesis using resilient_execute_bounded [OF e] e by (auto simp: resilient_start_def)
qed

text \<open>Only the upload commands are exempt: every other command that changes the account is sent
  again after a timeout.\<close>

definition failures_left :: "nat \<Rightarrow> (unit, unit) resilient_state \<Rightarrow> bool" where
  "failures_left n s \<longleftrightarrow> br_state (rs_breaker s) = Closed \<and> unat (consecutive_failures (rs_breaker s)) + n < 5
     \<and> (case rs_budget s of Some b \<Rightarrow> int n \<le> tokens b | None \<Rightarrow> True)"

lemma timing_out_again:
  assumes "failures_left (Suc n) s" and "\<not> is_upload_mutation request" and "unat k < 3"
  shows "\<exists>s'. resilient_attempt timing_out clock request k s = Inl s' \<and> rs_sent s' = Suc (rs_sent s) \<and> failures_left n s'"
  using assms
  by (auto simp: resilient_attempt_def rate_gate_def breaker_gate_def timing_out_def breaker_ops Let_def next_wait_def
      consume_budget_def try_consume_def fetch_add_def compute_wait_def waited_def failures_left_def
      unat_saturating_add word_le_nat_alt saturating_add_def unat_word_ariths split: option.splits)

lemma timing_out_last:
  assumes "failures_left n s"
  shows "\<exists>s'. resilient_attempt timing_out clock request 3 s = Inr (Err (Inner ()), s') \<and> rs_sent s' = Suc (rs_sent s)"
  using assms
  by (auto simp: resilient_attempt_def rate_gate_def breaker_gate_def timing_out_def breaker_ops Let_def next_wait_def
      waited_def failures_left_def split: option.splits)

lemma mutation_repeated:
  assumes "command (er_frame request) = ''deletefile''"
  shows "rs_sent (snd (resilient_execute timing_out clock request resilient_start)) = 3"
proof -
  have m: "\<not> is_upload_mutation request" by (simp add: assms is_upload_mutation_def)
  have f: "failures_left 3 resilient_start" by (simp add: failures_left_def resilient_start_def breaker_new_def)
  obtain s1 where 1: "resilient_attempt timing_out clock request 1 resilient_start = Inl s1" "rs_sent s1 = 1" "failures_left 2 s1"
    using timing_out_again [OF _ m, of 2 resilient_start 1 clock] f by (auto simp: resilient_start_def eval_nat_numeral)
  obtain s2 where 2: "resilient_attempt timing_out clock request 2 s1 = Inl s2" "rs_sent s2 = 2" "failures_left 1 s2"
    using timing_out_again [OF _ m, of 1 s1 2 clock] 1(2,3) by (auto simp: numeral_2_eq_2 [symmetric])
  obtain s3 where 3: "resilient_attempt timing_out clock request 3 s2 = Inr (Err (Inner ()), s3)" "rs_sent s3 = 3"
    using timing_out_last [OF 2(3)] 2(2) by auto
  have sat: "saturating_add 0 1 = (1 :: u32)" "saturating_add 1 1 = (2 :: u32)" "saturating_add 2 1 = (3 :: u32)"
    by (simp_all add: saturating_add_def)
  show ?thesis
    by (simp add: resilient_execute_def resilient_loop.simps sat 1(1) 2(1) 3)
qed

end
