(* ===== verification/Audit_Chain.thy ===== *)
theory Audit_Chain
  imports Bytes
begin

text \<open>
  The tamper-evident audit log, \<open>pcloud-store/src/repositories/audit.rs\<close>: rows of the table
  \<open>audit_events\<close> chained by a hash over the previous row's hash and a canonical encoding of
  the event.  SHA-256 and HMAC-SHA256 are arguments with results of 32 bytes; the table is
  the list of its rows by ascending id with the counter behind \<open>AUTOINCREMENT\<close>; the time
  stamp of a row comes from the database and is an argument; a transaction that fails
  leaves the table as it was.
\<close>

section \<open>Rows and repositories\<close>

record audit_row =
  ar_id :: int
  ar_category :: string
  ar_details :: "string option"
  ar_created_at :: string
  ar_prev_hash :: "byte list option"
  ar_entry_hash :: "byte list option"
  ar_hmac :: "byte list option"

record audit_table =
  at_rows :: "audit_row list"
  at_seq :: int

record audit_repository =
  retained_event_count :: nat
  last_event_details :: "string option"
  last_entry_hash :: "byte list"
  hmac_key :: "byte list option"

record verified_chain =
  vc_first_id :: "int option"
  vc_last_id :: "int option"
  vc_entries_checked :: nat

datatype audit_chain_error =
    PrevHashMismatch int
  | EntryHashMismatch int
  | MissingStoredHash int
  | HmacMismatch int

definition AUDIT_HASH_LEN :: nat where
  "AUDIT_HASH_LEN = 32"

definition AUDIT_ZERO_PREV :: "byte list" where
  "AUDIT_ZERO_PREV = replicate AUDIT_HASH_LEN 0"

definition frame_str :: "string \<Rightarrow> byte list" where
  "frame_str s = to_le_bytes (of_nat (length s) :: u64) @ as_bytes s"

definition canonical_event_bytes :: "int \<Rightarrow> string \<Rightarrow> string option \<Rightarrow> string \<Rightarrow> byte list" where
  "canonical_event_bytes i category details created_at =
     to_le_bytes (word_of_int i :: u64) @ frame_str category
       @ (case details of Some s \<Rightarrow> 1 # frame_str s | None \<Rightarrow> [0]) @ frame_str created_at"

definition compute_entry_hash :: "(byte list \<Rightarrow> byte list) \<Rightarrow> byte list \<Rightarrow> byte list \<Rightarrow> byte list" where
  "compute_entry_hash sha256 prev_hash event_bytes = sha256 (prev_hash @ event_bytes)"

definition compute_hmac :: "(byte list \<Rightarrow> byte list \<Rightarrow> byte list) \<Rightarrow> byte list \<Rightarrow> byte list \<Rightarrow> byte list" where
  "compute_hmac hmac_sha256 key entry_hash = hmac_sha256 (if key = [] then [0] else key) entry_hash"

section \<open>Operations\<close>

definition audit_load :: "audit_table \<Rightarrow> audit_repository" where
  "audit_load t =
     (let newest = (if at_rows t = [] then None else Some (last (at_rows t)))
      in \<lparr>retained_event_count = length (at_rows t),
          last_event_details = Option.bind newest ar_details,
          last_entry_hash =
            (case Option.bind newest ar_entry_hash of
               Some h \<Rightarrow> if length h = AUDIT_HASH_LEN then h else AUDIT_ZERO_PREV
             | None \<Rightarrow> AUDIT_ZERO_PREV),
          hmac_key = None\<rparr>)"

definition set_hmac_key :: "byte list option \<Rightarrow> audit_repository \<Rightarrow> audit_repository" where
  "set_hmac_key key r = r\<lparr>hmac_key := key\<rparr>"

text \<open>\<open>fails\<close>: some statement of the transaction or its commit fails.\<close>

definition append_event ::
  "(byte list \<Rightarrow> byte list) \<Rightarrow> (byte list \<Rightarrow> byte list \<Rightarrow> byte list) \<Rightarrow> string \<Rightarrow> bool \<Rightarrow> string \<Rightarrow> string option
    \<Rightarrow> audit_repository \<Rightarrow> audit_table \<Rightarrow> (unit, unit) result \<times> audit_repository \<times> audit_table" where
  "append_event sha256 hmac_sha256 created_at fails category details r t =
     (if fails \<or> at_seq t \<ge> 2 ^ 63 - 1 then (Err (), r, t)
      else
        let i = at_seq t + 1;
            entry_hash = compute_entry_hash sha256 (last_entry_hash r) (canonical_event_bytes i category details created_at);
            row = \<lparr>ar_id = i, ar_category = category, ar_details = details, ar_created_at = created_at,
              ar_prev_hash = Some (last_entry_hash r), ar_entry_hash = Some entry_hash,
              ar_hmac = map_option (\<lambda>key. compute_hmac hmac_sha256 key entry_hash) (hmac_key r)\<rparr>
        in (Ok (),
            r\<lparr>retained_event_count := retained_event_count r + 1, last_event_details := details,
              last_entry_hash := entry_hash\<rparr>,
            \<lparr>at_rows = at_rows t @ [row], at_seq = i\<rparr>))"

text \<open>One row of the walk: its recomputed hash, or why it is refused.\<close>

definition verify_row ::
  "(byte list \<Rightarrow> byte list) \<Rightarrow> (byte list \<Rightarrow> byte list \<Rightarrow> byte list) \<Rightarrow> byte list option \<Rightarrow> byte list option \<Rightarrow> audit_row
    \<Rightarrow> (audit_chain_error, byte list) result" where
  "verify_row sha256 hmac_sha256 key running_prev row =
     (case (ar_prev_hash row, ar_entry_hash row) of
        (Some prev_stored, Some entry_stored) \<Rightarrow>
          if length prev_stored \<noteq> AUDIT_HASH_LEN \<or> length entry_stored \<noteq> AUDIT_HASH_LEN
          then Err (MissingStoredHash (ar_id row))
          else if (case running_prev of Some expected \<Rightarrow> prev_stored \<noteq> expected | None \<Rightarrow> False)
          then Err (PrevHashMismatch (ar_id row))
          else
            let recomputed = compute_entry_hash sha256 prev_stored
                  (canonical_event_bytes (ar_id row) (ar_category row) (ar_details row) (ar_created_at row)) in
            if recomputed \<noteq> entry_stored then Err (EntryHashMismatch (ar_id row))
            else (case (key, ar_hmac row) of
                (Some k, Some stored) \<Rightarrow>
                  if stored \<noteq> compute_hmac hmac_sha256 k recomputed then Err (HmacMismatch (ar_id row)) else Ok recomputed
              | _ \<Rightarrow> Ok recomputed)
      | _ \<Rightarrow> Err (MissingStoredHash (ar_id row)))"

fun verify_rows ::
  "(byte list \<Rightarrow> byte list) \<Rightarrow> (byte list \<Rightarrow> byte list \<Rightarrow> byte list) \<Rightarrow> byte list option \<Rightarrow> byte list option
    \<Rightarrow> verified_chain \<Rightarrow> audit_row list \<Rightarrow> (audit_chain_error, verified_chain) result" where
  "verify_rows sha256 hmac_sha256 key running_prev acc [] = Ok acc"
| "verify_rows sha256 hmac_sha256 key running_prev acc (row # rows) =
     (case verify_row sha256 hmac_sha256 key running_prev row of
        Inl e \<Rightarrow> Err e
      | Inr recomputed \<Rightarrow>
          verify_rows sha256 hmac_sha256 key (Some recomputed)
            \<lparr>vc_first_id = (if vc_first_id acc = None then Some (ar_id row) else vc_first_id acc),
             vc_last_id = Some (ar_id row), vc_entries_checked = vc_entries_checked acc + 1\<rparr> rows)"

definition verify_chain ::
  "(byte list \<Rightarrow> byte list) \<Rightarrow> (byte list \<Rightarrow> byte list \<Rightarrow> byte list) \<Rightarrow> byte list option \<Rightarrow> int option \<Rightarrow> int option
    \<Rightarrow> audit_table \<Rightarrow> (audit_chain_error, verified_chain) result" where
  "verify_chain sha256 hmac_sha256 key from_id to_id t =
     verify_rows sha256 hmac_sha256 key None \<lparr>vc_first_id = None, vc_last_id = None, vc_entries_checked = 0\<rparr>
       (filter (\<lambda>row. (case from_id of Some f \<Rightarrow> f \<le> ar_id row | None \<Rightarrow> True)
          \<and> (case to_id of Some b \<Rightarrow> ar_id row \<le> b | None \<Rightarrow> True)) (at_rows t))"

text \<open>The migration that gives old rows their hashes.\<close>

fun rebuild_rows :: "(byte list \<Rightarrow> byte list) \<Rightarrow> byte list \<Rightarrow> audit_row list \<Rightarrow> audit_row list" where
  "rebuild_rows sha256 prev [] = []"
| "rebuild_rows sha256 prev (row # rows) =
     (let entry_hash = compute_entry_hash sha256 prev
            (canonical_event_bytes (ar_id row) (ar_category row) (ar_details row) (ar_created_at row))
      in row\<lparr>ar_prev_hash := Some prev, ar_entry_hash := Some entry_hash, ar_hmac := None\<rparr>
        # rebuild_rows sha256 entry_hash rows)"

definition rebuild_hash_chain :: "(byte list \<Rightarrow> byte list) \<Rightarrow> audit_table \<Rightarrow> audit_table" where
  "rebuild_hash_chain sha256 t = t\<lparr>at_rows := rebuild_rows sha256 AUDIT_ZERO_PREV (at_rows t)\<rparr>"

section \<open>The encoding of events\<close>

lemma u64_bytes_append:
  assumes "to_le_bytes (x :: u64) @ u = to_le_bytes (y :: u64) @ v"
  shows "x = y \<and> u = v"
proof -
  have "length (to_le_bytes x) = length (to_le_bytes y)" by simp
  with assms have *: "to_le_bytes x = to_le_bytes y" "u = v" by (metis append_eq_append_conv)+
  have "from_le_bytes (to_le_bytes x) = (from_le_bytes (to_le_bytes y) :: u64)" by (simp only: *(1))
  moreover have "from_le_bytes (to_le_bytes x) = x" "from_le_bytes (to_le_bytes y) = y"
    by (rule from_to_le_bytes, simp)+
  ultimately show ?thesis using *(2) by simp
qed

lemma frame_str_inj:
  assumes "frame_str s @ u = frame_str t @ v" and "length s < 2 ^ 64" "length t < 2 ^ 64"
  shows "s = t \<and> u = v"
proof -
  from assms(1) have "to_le_bytes (of_nat (length s) :: u64) @ as_bytes s @ u = to_le_bytes (of_nat (length t) :: u64) @ as_bytes t @ v"
    unfolding frame_str_def append_assoc .
  from u64_bytes_append [OF this] have w: "(of_nat (length s) :: u64) = of_nat (length t)"
    and r: "as_bytes s @ u = as_bytes t @ v" by blast+
  have "length s = unat (of_nat (length s) :: u64)" "length t = unat (of_nat (length t) :: u64)"
    using assms(2,3) unat_of_nat_small [where 'a = 64] by simp_all
  then have "length (as_bytes s) = length (as_bytes t)" using w by simp
  with r have "as_bytes s = as_bytes t" "u = v" by (metis append_eq_append_conv)+
  then show ?thesis by (metis of_bytes_as_bytes)
qed

definition event_ok :: "int \<Rightarrow> string \<Rightarrow> string option \<Rightarrow> string \<Rightarrow> bool" where
  "event_ok i category details created_at \<longleftrightarrow>
     - (2 ^ 63) \<le> i \<and> i < 2 ^ 63 \<and> length category < 2 ^ 64 \<and> length created_at < 2 ^ 64
     \<and> (case details of Some d \<Rightarrow> length d < 2 ^ 64 | None \<Rightarrow> True)"

lemma word_of_int_i64_inj:
  assumes "(word_of_int i :: u64) = word_of_int j" and "- (2 ^ 63) \<le> i" "i < 2 ^ 63" "- (2 ^ 63) \<le> j" "j < 2 ^ 63"
  shows "i = j"
proof -
  from assms(1) have "take_bit 64 i = take_bit 64 j" by (simp add: word_of_int_eq_iff)
  then have "(2 ^ 64 :: int) dvd i - j" by (simp only: take_bit_eq_mod mod_eq_dvd_iff)
  then obtain k where k: "i - j = 2 ^ 64 * k" by (elim dvdE)
  show ?thesis
  proof (cases "k = 0")
    case False
    then have "1 \<le> \<bar>k\<bar>" by simp
    define b :: int where "b = 2 ^ 63"
    have "(2 ^ 64 :: int) = 2 * b" by (simp add: b_def)
    with \<open>1 \<le> \<bar>k\<bar>\<close> have "2 * b \<le> \<bar>i - j\<bar>" by (simp add: k abs_mult b_def)
    moreover have "- b \<le> i" "i < b" "- b \<le> j" "j < b" using assms(2-5) by (simp_all add: b_def)
    ultimately show ?thesis by linarith
  qed (use k in simp)
qed

lemma canonical_inj:
  assumes "canonical_event_bytes i c d a = canonical_event_bytes i' c' d' a'"
    and "event_ok i c d a" "event_ok i' c' d' a'"
  shows "i = i' \<and> c = c' \<and> d = d' \<and> a = a'"
proof -
  let ?d = "\<lambda>d. case d of Some s \<Rightarrow> 1 # frame_str s | None \<Rightarrow> [0]"
  note ok = assms(2,3) [unfolded event_ok_def]
  from u64_bytes_append [OF assms(1) [unfolded canonical_event_bytes_def]]
  have "(word_of_int i :: u64) = word_of_int i'" and r: "frame_str c @ ?d d @ frame_str a = frame_str c' @ ?d d' @ frame_str a'"
    by blast+
  then have i: "i = i'" using ok word_of_int_i64_inj by blast
  from frame_str_inj [OF r] ok have c: "c = c'" and r': "?d d @ frame_str a = ?d d' @ frame_str a'" by blast+
  have da: "d = d' \<and> frame_str a = frame_str a'"
  proof (cases d)
    case None
    with r' show ?thesis by (cases d') auto
  next
    case (Some x)
    with r' obtain y where y: "d' = Some y" by (cases d') auto
    with r' Some have "frame_str x @ frame_str a = frame_str y @ frame_str a'" by simp
    from frame_str_inj [OF this] ok Some y show ?thesis by auto
  qed
  then have "frame_str a @ [] = frame_str a' @ []" by simp
  from frame_str_inj [OF this] ok have "a = a'" by blast
  with i c da show ?thesis by simp
qed

section \<open>A log written by one repository verifies\<close>

definition row_hash :: "(byte list \<Rightarrow> byte list) \<Rightarrow> byte list \<Rightarrow> audit_row \<Rightarrow> byte list" where
  "row_hash H prev row = compute_entry_hash H prev
     (canonical_event_bytes (ar_id row) (ar_category row) (ar_details row) (ar_created_at row))"

lemma verify_row_Ok:
  "verify_row H M key running row = Ok h \<longleftrightarrow>
     (\<exists>prev. ar_prev_hash row = Some prev \<and> ar_entry_hash row = Some h \<and> length prev = AUDIT_HASH_LEN
        \<and> length h = AUDIT_HASH_LEN \<and> h = row_hash H prev row
        \<and> (case running of Some r \<Rightarrow> prev = r | None \<Rightarrow> True)
        \<and> (case (key, ar_hmac row) of (Some k, Some m) \<Rightarrow> m = compute_hmac M k h | _ \<Rightarrow> True))"
  by (auto simp: verify_row_def row_hash_def Let_def split: option.splits)

definition vc_step :: "verified_chain \<Rightarrow> audit_row \<Rightarrow> verified_chain" where
  "vc_step acc row =
     \<lparr>vc_first_id = (if vc_first_id acc = None then Some (ar_id row) else vc_first_id acc),
      vc_last_id = Some (ar_id row), vc_entries_checked = vc_entries_checked acc + 1\<rparr>"

lemma verify_rows_snoc:
  assumes "verify_rows H M key running acc rows = Ok acc'"
  shows "verify_rows H M key running acc (rows @ [row]) =
    (case verify_row H M key (if rows = [] then running else ar_entry_hash (last rows)) row of
       Inl e \<Rightarrow> Err e | Inr _ \<Rightarrow> Ok (vc_step acc' row))"
  using assms
proof (induction rows arbitrary: running acc)
  case Nil
  then show ?case by (simp add: vc_step_def split: sum.split)
next
  case (Cons r rows)
  then obtain h where h: "verify_row H M key running r = Ok h" by (auto split: sum.splits)
  then have "ar_entry_hash r = Some h" by (auto simp: verify_row_Ok)
  with Cons h show ?case by (auto split: sum.splits)
qed

text \<open>The repository knows the hash of the newest row, every row is chained, and the counter is
  the newest id.\<close>

definition log_inv ::
  "(byte list \<Rightarrow> byte list) \<Rightarrow> (byte list \<Rightarrow> byte list \<Rightarrow> byte list) \<Rightarrow> byte list option \<Rightarrow> audit_repository \<Rightarrow> audit_table \<Rightarrow> bool"
  where
  "log_inv H M key r t \<longleftrightarrow> hmac_key r = key \<and> length (last_entry_hash r) = AUDIT_HASH_LEN
     \<and> (at_rows t \<noteq> [] \<longrightarrow> ar_entry_hash (last (at_rows t)) = Some (last_entry_hash r))
     \<and> verify_chain H M key None None t =
         Ok \<lparr>vc_first_id = (if at_rows t = [] then None else Some (ar_id (hd (at_rows t)))),
            vc_last_id = (if at_rows t = [] then None else Some (ar_id (last (at_rows t)))),
            vc_entries_checked = length (at_rows t)\<rparr>"

lemma append_event_inv:
  assumes "log_inv H M key r t" and "\<forall>x. length (H x) = AUDIT_HASH_LEN"
    and "append_event H M created fails category details r t = (res, r', t')"
  shows "log_inv H M key r' t'"
proof (cases "fails \<or> at_seq t \<ge> 2 ^ 63 - 1")
  case True
  with assms(1,3) show ?thesis by (auto simp: append_event_def)
next
  case False
  let ?h = "compute_entry_hash H (last_entry_hash r) (canonical_event_bytes (at_seq t + 1) category details created)"
  let ?row = "\<lparr>ar_id = at_seq t + 1, ar_category = category, ar_details = details, ar_created_at = created,
      ar_prev_hash = Some (last_entry_hash r), ar_entry_hash = Some ?h,
      ar_hmac = map_option (\<lambda>k. compute_hmac M k ?h) (hmac_key r)\<rparr>"
  have t': "t' = \<lparr>at_rows = at_rows t @ [?row], at_seq = at_seq t + 1\<rparr>"
    and r': "hmac_key r' = hmac_key r" "last_entry_hash r' = ?h"
    using False assms(3) by (auto simp: append_event_def Let_def)
  have len: "length ?h = AUDIT_HASH_LEN" using assms(2) by (simp add: compute_entry_hash_def)
  have row: "verify_row H M key (if at_rows t = [] then None else ar_entry_hash (last (at_rows t))) ?row = Ok ?h"
    using assms(1) len by (auto simp: verify_row_Ok row_hash_def log_inv_def split: option.split)
  show ?thesis
    using assms(1) r' len verify_rows_snoc [of H M key None _ "at_rows t", where row = ?row] row
    by (auto simp: log_inv_def verify_chain_def t' vc_step_def)
qed

lemma audit_load_inv: "log_inv H M key r t \<Longrightarrow> log_inv H M key ((audit_load t)\<lparr>hmac_key := key\<rparr>) t"
  by (auto simp: log_inv_def audit_load_def Let_def AUDIT_ZERO_PREV_def)

text \<open>What the one process that owns the log does: append, some appends failing, and restart.\<close>

datatype audit_op = Append string bool string "string option" | Restart

fun run_audit_op ::
  "(byte list \<Rightarrow> byte list) \<Rightarrow> (byte list \<Rightarrow> byte list \<Rightarrow> byte list) \<Rightarrow> byte list option \<Rightarrow> audit_op
    \<Rightarrow> audit_repository \<times> audit_table \<Rightarrow> audit_repository \<times> audit_table" where
  "run_audit_op H M key (Append created fails category details) (r, t) = snd (append_event H M created fails category details r t)"
| "run_audit_op H M key Restart (r, t) = ((audit_load t)\<lparr>hmac_key := key\<rparr>, t)"

definition empty_audit_table :: audit_table where
  "empty_audit_table = \<lparr>at_rows = [], at_seq = 0\<rparr>"

definition audit_run ::
  "(byte list \<Rightarrow> byte list) \<Rightarrow> (byte list \<Rightarrow> byte list \<Rightarrow> byte list) \<Rightarrow> byte list option \<Rightarrow> audit_op list \<Rightarrow> audit_repository \<times> audit_table"
  where
  "audit_run H M key ops = foldl (\<lambda>s a. run_audit_op H M key a s) ((audit_load empty_audit_table)\<lparr>hmac_key := key\<rparr>, empty_audit_table) ops"

lemma audit_run_inv:
  assumes "\<forall>x. length (H x) = AUDIT_HASH_LEN"
  shows "log_inv H M key (fst (audit_run H M key ops)) (snd (audit_run H M key ops))"
proof (induction ops rule: rev_induct)
  case Nil
  show ?case
    by (simp add: audit_run_def log_inv_def audit_load_def empty_audit_table_def verify_chain_def AUDIT_ZERO_PREV_def)
next
  case (snoc a ops)
  obtain r t where rt: "audit_run H M key ops = (r, t)" by (cases "audit_run H M key ops")
  have e: "audit_run H M key (ops @ [a]) = run_audit_op H M key a (r, t)" using rt by (simp add: audit_run_def)
  show ?case
  proof (cases a)
    case (Append created fails category details)
    obtain res r' t' where "append_event H M created fails category details r t = (res, r', t')"
      by (cases "append_event H M created fails category details r t")
    with append_event_inv [OF _ assms this] snoc rt e Append show ?thesis by simp
  next
    case Restart
    with audit_load_inv snoc rt e show ?thesis by simp
  qed
qed


definition sum_hash :: "byte list \<Rightarrow> byte list" where
  "sum_hash bs = replicate 31 0 @ [sum_list bs]"


section \<open>Tampering\<close>

definition same_event :: "audit_row \<Rightarrow> audit_row \<Rightarrow> bool" where
  "same_event a b \<longleftrightarrow> ar_id a = ar_id b \<and> ar_category a = ar_category b \<and> ar_details a = ar_details b
     \<and> ar_created_at a = ar_created_at b \<and> ar_prev_hash a = ar_prev_hash b \<and> ar_entry_hash a = ar_entry_hash b"

definition row_ok :: "audit_row \<Rightarrow> bool" where
  "row_ok row \<longleftrightarrow> event_ok (ar_id row) (ar_category row) (ar_details row) (ar_created_at row)"

definition collision :: "(byte list \<Rightarrow> byte list) \<Rightarrow> bool" where
  "collision H \<longleftrightarrow> (\<exists>x y. x \<noteq> y \<and> H x = H y)"

lemma verified_last:
  assumes "verify_rows H M key running acc (rows @ [row]) = Ok c"
  obtains acc' h where "verify_rows H M key running acc rows = Ok acc'"
    and "verify_row H M key (if rows = [] then running else ar_entry_hash (last rows)) row = Ok h"
proof -
  have "\<exists>acc'. verify_rows H M key running acc rows = Ok acc'"
    using assms by (induction rows arbitrary: running acc) (auto split: sum.splits)
  then obtain acc' where a: "verify_rows H M key running acc rows = Ok acc'" ..
  with assms that show ?thesis by (auto simp: verify_rows_snoc [OF a] split: sum.splits)
qed

lemma verified_has_hash:
  assumes "verify_rows H M key running acc rows = Ok c" and "rows \<noteq> []"
  shows "ar_entry_hash (last rows) \<noteq> None"
proof -
  from assms have "verify_rows H M key running acc (butlast rows @ [last rows]) = Ok c" by simp
  then obtain h where "verify_row H M key (if butlast rows = [] then running else ar_entry_hash (last (butlast rows))) (last rows) = Ok h"
    by (rule verified_last)
  then show ?thesis by (auto simp: verify_row_Ok)
qed

lemma same_row_or_collision:
  assumes "verify_row H M k1 r1 a = Ok h" and "verify_row H M k2 r2 b = Ok h" and "row_ok a" "row_ok b"
  shows "same_event a b \<or> collision H"
proof (cases "collision H")
  case False
  let ?c = "\<lambda>r. canonical_event_bytes (ar_id r) (ar_category r) (ar_details r) (ar_created_at r)"
  obtain p where p: "ar_prev_hash a = Some p" "length p = AUDIT_HASH_LEN" "h = H (p @ ?c a)" "ar_entry_hash a = Some h"
    using assms(1) by (auto simp: verify_row_Ok row_hash_def compute_entry_hash_def)
  obtain q where q: "ar_prev_hash b = Some q" "length q = AUDIT_HASH_LEN" "h = H (q @ ?c b)" "ar_entry_hash b = Some h"
    using assms(2) by (auto simp: verify_row_Ok row_hash_def compute_entry_hash_def)
  from False p(3) q(3) have "p @ ?c a = q @ ?c b" by (metis collision_def)
  with p(2) q(2) have "p = q" "?c a = ?c b" by (simp_all add: append_eq_append_conv)
  with canonical_inj assms(3,4) p q show ?thesis unfolding same_event_def row_ok_def by metis
qed simp

lemma walks_agree:
  assumes "verify_rows H M k1 None acc1 xs = Ok c1" and "verify_rows H M k2 None acc2 ys = Ok c2"
    and "\<forall>row \<in> set xs \<union> set ys. row_ok row" and "length xs \<le> length ys"
    and "xs \<noteq> [] \<Longrightarrow> ar_entry_hash (last xs) = ar_entry_hash (last ys)"
  shows "list_all2 same_event xs (drop (length ys - length xs) ys) \<or> collision H"
  using assms
proof (induction xs arbitrary: ys c1 c2 rule: rev_induct)
  case (snoc x xs)
  then obtain ys' y where ys: "ys = ys' @ [y]" by (cases ys rule: rev_cases) auto
  obtain a1 h1 where 1: "verify_rows H M k1 None acc1 xs = Ok a1"
      "verify_row H M k1 (if xs = [] then None else ar_entry_hash (last xs)) x = Ok h1"
    using verified_last snoc.prems(1) by metis
  obtain a2 h2 where 2: "verify_rows H M k2 None acc2 ys' = Ok a2"
      "verify_row H M k2 (if ys' = [] then None else ar_entry_hash (last ys')) y = Ok h2"
    using verified_last snoc.prems(2) ys by metis
  have "ar_entry_hash x = Some h1" "ar_entry_hash y = Some h2" using 1(2) 2(2) by (auto simp: verify_row_Ok)
  then have "h1 = h2" using snoc.prems(5) ys by simp
  then have xy: "same_event x y \<or> collision H"
    using same_row_or_collision [OF 1(2), of k2 _ y] 2(2) snoc.prems(3) ys by auto
  show ?case
  proof (cases "collision H")
    case False
    with xy have same: "same_event x y" by simp
    have "ar_entry_hash (last xs) = ar_entry_hash (last ys')" if "xs \<noteq> []"
    proof -
      have "ys' \<noteq> []" using that snoc.prems(4) ys by auto
      have "ar_prev_hash x = ar_entry_hash (last xs)" if "ar_entry_hash (last xs) \<noteq> None"
        using 1(2) \<open>xs \<noteq> []\<close> that by (auto simp: verify_row_Ok)
      moreover have "ar_prev_hash y = ar_entry_hash (last ys')" if "ar_entry_hash (last ys') \<noteq> None"
        using 2(2) \<open>ys' \<noteq> []\<close> that by (auto simp: verify_row_Ok)
      moreover have "ar_entry_hash (last xs) \<noteq> None" "ar_entry_hash (last ys') \<noteq> None"
        using verified_has_hash [OF 1(1) that] verified_has_hash [OF 2(1) \<open>ys' \<noteq> []\<close>] by simp_all
      ultimately show ?thesis using same by (simp add: same_event_def)
    qed
    with snoc.IH [OF 1(1) 2(1)] snoc.prems(3,4) ys False
    have "list_all2 same_event xs (drop (length ys' - length xs) ys')" by auto
    with same snoc.prems(4) ys show ?thesis by (auto intro: list_all2_appendI)
  qed simp
qed simp


text \<open>Two logs that end alike: one of two rows, and the same log without its oldest row.\<close>

definition two_rows :: audit_table where
  "two_rows = snd (audit_run sum_hash (\<lambda>_ _. []) None [Append ''t'' False ''auth'' None, Append ''u'' False ''sync'' None])"

lemma two_rows_facts:
  "length (at_rows two_rows) = 2" "\<forall>row \<in> set (at_rows two_rows). row_ok row"
  "\<exists>c. verify_chain sum_hash (\<lambda>_ _. []) None None None two_rows = Ok c"
  using audit_run_inv [of sum_hash "\<lambda>_ _. []" None "[Append ''t'' False ''auth'' None, Append ''u'' False ''sync'' None]"]
  by (auto simp: two_rows_def log_inv_def sum_hash_def AUDIT_HASH_LEN_def audit_run_def append_event_def Let_def
      empty_audit_table_def row_ok_def event_ok_def)

text \<open>The genesis row is not compared with the zero hash: a log whose oldest rows are gone verifies.\<close>

lemma verify_rows_drop:
  "verify_rows H M key running acc (xs @ ys) = Ok c \<Longrightarrow> \<exists>c'. verify_rows H M key None acc' ys = Ok c'"
proof (induction xs arbitrary: running acc)
  case Nil
  show ?case
  proof (cases ys)
    case (Cons y ys')
    with Nil obtain h where h: "verify_row H M key running y = Ok h" by (auto split: sum.splits)
    then have h': "verify_row H M key None y = Ok h" by (auto simp: verify_row_Ok)
    have "\<exists>c'. verify_rows H M key r b zs = Ok c'" if "verify_rows H M key r a zs = Ok c" for r a b zs
      using that by (induction zs arbitrary: r a b) (auto split: sum.splits)
    with Nil Cons h h' show ?thesis by auto
  qed simp
qed (auto split: sum.splits)

lemma prefix_removal_verifies:
  "verify_chain H M key None None t = Ok c \<Longrightarrow> \<exists>c'. verify_chain H M key None None (t\<lparr>at_rows := drop n (at_rows t)\<rparr>) = Ok c'"
  using verify_rows_drop [of H M key None _ "take n (at_rows t)" "drop n (at_rows t)"] by (simp add: verify_chain_def)


section \<open>Two owners of one log\<close>

text \<open>Each in-memory repository remembers the newest hash it wrote itself.  A second repository on the
  same table, loaded before the first one appended, chains its row to the hash it loaded.\<close>

lemma stale_repository_forks:
  assumes "log_inv H M key r t" and "\<forall>x. length (H x) = AUDIT_HASH_LEN"
    and "append_event H M created False category details r t = (Ok (), r', t')"
    and "append_event H M created' False category' details' r t' = (Ok (), r'', t'')"
    and "last_entry_hash r' \<noteq> last_entry_hash r"
  shows "verify_chain H M key None None t'' = Err (PrevHashMismatch (at_seq t + 2))"
proof -
  have inv: "log_inv H M key r' t'" by (rule append_event_inv [OF assms(1,2,3)])
  have t': "at_seq t' = at_seq t + 1" "at_rows t' \<noteq> []"
    using assms(3) by (auto simp: append_event_def Let_def split: if_splits)
  obtain row where t'': "at_rows t'' = at_rows t' @ [row]" and row: "ar_id row = at_seq t + 2"
      "ar_prev_hash row = Some (last_entry_hash r)" "\<exists>h. ar_entry_hash row = Some h \<and> length h = AUDIT_HASH_LEN"
    using assms(2,4) t' by (auto simp: append_event_def Let_def compute_entry_hash_def split: if_splits)
  have "verify_row H M key (ar_entry_hash (last (at_rows t'))) row = Err (PrevHashMismatch (at_seq t + 2))"
    using inv assms(1,5) row t'(2) by (auto simp: verify_row_def log_inv_def)
  then show ?thesis
    using inv t' verify_rows_snoc [of H M key None _ "at_rows t'", where row = row]
    by (auto simp: log_inv_def verify_chain_def t'')
qed

end
