(* ===== verification/Sync_Store.thy ===== *)
theory Sync_Store
  imports Rust_Str Model Bytes Audit_Chain
begin

text \<open>
  The repositories of \<open>pcloud-store/src/repositories\<close> the sync loop reads and writes: sync roots
  (\<open>sync_graph.rs\<close>), diff cursors (\<open>diff_state.rs\<close>), typed values (\<open>values.rs\<close>) and the metadata cache
  (\<open>file_metadata.rs\<close>).

  A table is the list of its rows or the map from its primary key.  SQL that fails is modelled by a
  list of faults in the state, one for each statement or commit to come; an exhausted list means
  that nothing fails any more.  SQLite integers are signed: an unsigned value from \<open>2 ^ 63\<close> is refused
  before its statement runs.
\<close>

section \<open>The database\<close>

datatype sql_error = SqlFault | IntegerOutOfRange

record sync_root_row =
  srr_sync_id :: u64
  srr_local_path :: string
  srr_remote_path :: string
  srr_paused :: int
  srr_sync_type :: int

record file_metadata_record =
  fmr_file_id :: u64
  fmr_parent_folder_id :: u64
  fmr_name :: string
  fmr_size :: u64
  fmr_hash :: string
  fmr_modified :: int
  fmr_created :: int
  fmr_is_folder :: bool

record value_row =
  vr_kind :: int
  vr_int :: "u64 option"
  vr_text :: "string option"

record diff_state_record =
  dsr_sync_id :: sync_id
  dsr_diffid :: u64
  dsr_updated_at :: int

text \<open>\<open>st_metadata\<close> ascends by its primary key, the row id, in which order SQLite returns rows that
  agree on an index.  \<open>st_synchronous\<close> is the connection's pragma: 0 is off, 1 normal, 2 full, 3 extra.\<close>

record store =
  st_roots :: "sync_root_row list"
  st_metadata :: "file_metadata_record list"
  st_values :: "string \<rightharpoonup> value_row"
  st_diff :: "sync_id \<rightharpoonup> u64 \<times> int"
  st_audit :: audit_table
  st_synchronous :: int
  st_faults :: "bool list"

definition store_empty :: store where
  "store_empty = \<lparr>st_roots = [], st_metadata = [], st_values = Map.empty, st_diff = Map.empty,
     st_audit = empty_audit_table, st_synchronous = 1, st_faults = []\<rparr>"

definition sql :: "(store \<Rightarrow> (sql_error, 'a) result \<times> store) \<Rightarrow> store \<Rightarrow> (sql_error, 'a) result \<times> store" where
  "sql k s =
     (case st_faults s of
        [] \<Rightarrow> k s
      | f # fs \<Rightarrow> if f then (Err SqlFault, s\<lparr>st_faults := fs\<rparr>) else k (s\<lparr>st_faults := fs\<rparr>))"

definition fits_sqlite :: "u64 \<Rightarrow> bool" where
  "fits_sqlite u \<longleftrightarrow> unat u < 2 ^ 63"

definition binding :: "u64 list \<Rightarrow> (store \<Rightarrow> (sql_error, 'a) result \<times> store) \<Rightarrow> store \<Rightarrow> (sql_error, 'a) result \<times> store" where
  "binding us k s = (if list_all fits_sqlite us then sql k s else (Err IntegerOutOfRange, s))"

text \<open>Sequencing with \<open>?\<close>.\<close>

definition then_do ::
  "('e, 'a) result \<times> 's \<Rightarrow> ('a \<Rightarrow> 's \<Rightarrow> ('e, 'b) result \<times> 's) \<Rightarrow> ('e, 'b) result \<times> 's" where
  "then_do r k = (case r of (Inl e, s) \<Rightarrow> (Err e, s) | (Inr x, s) \<Rightarrow> k x s)"

text \<open>A transaction: \<open>BEGIN\<close>, the body, \<open>COMMIT\<close>; every error rolls the tables back.\<close>

definition transaction :: "(store \<Rightarrow> (sql_error, 'a) result \<times> store) \<Rightarrow> store \<Rightarrow> (sql_error, 'a) result \<times> store" where
  "transaction body s =
     (case sql (\<lambda>s. (Ok (), s)) s of
        (Inl e, s0) \<Rightarrow> (Err e, s0)
      | (Inr _, s0) \<Rightarrow>
          (case then_do (body s0) (\<lambda>x. sql (\<lambda>s. (Ok x, s))) of
             (Inl e, s1) \<Rightarrow> (Err e, s0\<lparr>st_faults := st_faults s1\<rparr>)
           | (Inr x, s1) \<Rightarrow> (Ok x, s1)))"

section \<open>Sync roots\<close>

record sync_root_record =
  sr_sync_id :: sync_id
  sr_local_path :: string
  sr_remote_path :: string
  sr_paused :: bool
  sr_sync_type :: sync_type

definition sync_root_of_row :: "sync_root_row \<Rightarrow> sync_root_record" where
  "sync_root_of_row row =
     \<lparr>sr_sync_id = SyncId (srr_sync_id row), sr_local_path = srr_local_path row, sr_remote_path = srr_remote_path row,
      sr_paused = (srr_paused row \<noteq> 0),
      sr_sync_type = (case from_u8 (word_of_int (srr_sync_type row)) of Some t \<Rightarrow> t | None \<Rightarrow> Full)\<rparr>"

definition graph_load :: "store \<Rightarrow> (sql_error, sync_root_record list) result \<times> store" where
  "graph_load = sql (\<lambda>s. (Ok (map sync_root_of_row (sort_key srr_sync_id (st_roots s))), s))"

definition row_of_sync_root :: "sync_root_record \<Rightarrow> sync_root_row" where
  "row_of_sync_root root =
     \<lparr>srr_sync_id = sync_id_get (sr_sync_id root), srr_local_path = sr_local_path root, srr_remote_path = sr_remote_path root,
      srr_paused = (if sr_paused root then 1 else 0), srr_sync_type = uint (as_u8 (sr_sync_type root))\<rparr>"

fun insert_roots :: "sync_root_record list \<Rightarrow> store \<Rightarrow> (sql_error, unit) result \<times> store" where
  "insert_roots [] s = (Ok (), s)"
| "insert_roots (root # roots) s =
     then_do
       (binding [sync_id_get (sr_sync_id root)]
          (\<lambda>s. if sync_id_get (sr_sync_id root) \<in> srr_sync_id ` set (st_roots s) then (Err SqlFault, s)
               else (Ok (), s\<lparr>st_roots := st_roots s @ [row_of_sync_root root]\<rparr>)) s)
       (\<lambda>_. insert_roots roots)"

definition graph_save :: "sync_root_record list \<Rightarrow> store \<Rightarrow> (sql_error, unit) result \<times> store" where
  "graph_save roots s = then_do (sql (\<lambda>s. (Ok (), s\<lparr>st_roots := []\<rparr>)) s) (\<lambda>_. insert_roots roots)"

section \<open>Diff cursors\<close>

definition diff_load :: "sync_id \<Rightarrow> store \<Rightarrow> (sql_error, diff_state_record option) result \<times> store" where
  "diff_load sid =
     binding [sync_id_get sid] (\<lambda>s.
       (Ok (map_option (\<lambda>(diffid, updated). \<lparr>dsr_sync_id = sid, dsr_diffid = diffid, dsr_updated_at = updated\<rparr>) (st_diff s sid)), s))"

definition diff_save :: "sync_id \<Rightarrow> u64 \<Rightarrow> int \<Rightarrow> store \<Rightarrow> (sql_error, unit) result \<times> store" where
  "diff_save sid diffid updated_at =
     binding [sync_id_get sid, diffid] (\<lambda>s. (Ok (), s\<lparr>st_diff := (st_diff s)(sid \<mapsto> (diffid, updated_at))\<rparr>))"

definition diff_delete :: "sync_id \<Rightarrow> store \<Rightarrow> (sql_error, bool) result \<times> store" where
  "diff_delete sid =
     binding [sync_id_get sid] (\<lambda>s. (Ok (st_diff s sid \<noteq> None), s\<lparr>st_diff := (st_diff s)(sid := None)\<rparr>))"

section \<open>Typed values\<close>

datatype value_kind = BoolKind | UintKind | IntKind | StringKind

fun kind_as_i64 :: "value_kind \<Rightarrow> int" where
  "kind_as_i64 BoolKind = 1"
| "kind_as_i64 UintKind = 2"
| "kind_as_i64 IntKind = 3"
| "kind_as_i64 StringKind = 4"

definition kind_from_i64 :: "int \<Rightarrow> value_kind option" where
  "kind_from_i64 raw =
     (if raw = 1 then Some BoolKind else if raw = 2 then Some UintKind else if raw = 3 then Some IntKind
      else if raw = 4 then Some StringKind else None)"

text \<open>The integer column holds the 64 bits, read as signed or unsigned by the caller.\<close>

definition get_uint :: "string \<Rightarrow> store \<Rightarrow> (sql_error, u64) result \<times> store" where
  "get_uint name = sql (\<lambda>s. (Ok (case st_values s name of
        Some row \<Rightarrow> if kind_from_i64 (vr_kind row) \<noteq> None then (case vr_int row of Some v \<Rightarrow> v | None \<Rightarrow> 0) else 0
      | None \<Rightarrow> 0), s))"

definition get_int :: "string \<Rightarrow> store \<Rightarrow> (sql_error, int) result \<times> store" where
  "get_int name s = then_do (get_uint name s) (\<lambda>v s. (Ok (sint v), s))"

definition get_bool_value :: "string \<Rightarrow> store \<Rightarrow> (sql_error, bool) result \<times> store" where
  "get_bool_value name s = then_do (get_uint name s) (\<lambda>v s. (Ok (v \<noteq> 0), s))"

definition get_string_value :: "string \<Rightarrow> store \<Rightarrow> (sql_error, string option) result \<times> store" where
  "get_string_value name = sql (\<lambda>s. (Ok (case st_values s name of
        Some row \<Rightarrow> if kind_from_i64 (vr_kind row) = Some StringKind then vr_text row else None
      | None \<Rightarrow> None), s))"

definition put_value :: "string \<Rightarrow> value_row \<Rightarrow> store \<Rightarrow> (sql_error, unit) result \<times> store" where
  "put_value name row = sql (\<lambda>s. (Ok (), s\<lparr>st_values := (st_values s)(name \<mapsto> row)\<rparr>))"

definition set_uint :: "string \<Rightarrow> u64 \<Rightarrow> store \<Rightarrow> (sql_error, unit) result \<times> store" where
  "set_uint name v = put_value name \<lparr>vr_kind = kind_as_i64 UintKind, vr_int = Some v, vr_text = None\<rparr>"

definition set_int :: "string \<Rightarrow> int \<Rightarrow> store \<Rightarrow> (sql_error, unit) result \<times> store" where
  "set_int name v = put_value name \<lparr>vr_kind = kind_as_i64 IntKind, vr_int = Some (word_of_int v), vr_text = None\<rparr>"

definition set_bool :: "string \<Rightarrow> bool \<Rightarrow> store \<Rightarrow> (sql_error, unit) result \<times> store" where
  "set_bool name v = put_value name \<lparr>vr_kind = kind_as_i64 BoolKind, vr_int = Some (if v then 1 else 0), vr_text = None\<rparr>"

definition set_string :: "string \<Rightarrow> string \<Rightarrow> store \<Rightarrow> (sql_error, unit) result \<times> store" where
  "set_string name v = put_value name \<lparr>vr_kind = kind_as_i64 StringKind, vr_int = None, vr_text = Some v\<rparr>"

definition has_value :: "string \<Rightarrow> value_kind \<Rightarrow> store \<Rightarrow> (sql_error, bool) result \<times> store" where
  "has_value name expected = sql (\<lambda>s. (Ok (case st_values s name of
        Some row \<Rightarrow> kind_from_i64 (vr_kind row) = Some expected | None \<Rightarrow> False), s))"

definition delete_value :: "string \<Rightarrow> store \<Rightarrow> (sql_error, bool) result \<times> store" where
  "delete_value name = sql (\<lambda>s. (Ok (st_values s name \<noteq> None), s\<lparr>st_values := (st_values s)(name := None)\<rparr>))"

section \<open>The metadata cache\<close>

definition upsert :: "file_metadata_record \<Rightarrow> store \<Rightarrow> (sql_error, unit) result \<times> store" where
  "upsert r =
     binding [fmr_file_id r, fmr_parent_folder_id r, fmr_size r] (\<lambda>s.
       (Ok (), s\<lparr>st_metadata := insort_key fmr_file_id r (filter (\<lambda>x. fmr_file_id x \<noteq> fmr_file_id r) (st_metadata s))\<rparr>))"

definition get_by_id :: "u64 \<Rightarrow> store \<Rightarrow> (sql_error, file_metadata_record option) result \<times> store" where
  "get_by_id file_id = binding [file_id] (\<lambda>s. (Ok (find (\<lambda>x. fmr_file_id x = file_id) (st_metadata s)), s))"

definition list_children :: "u64 \<Rightarrow> store \<Rightarrow> (sql_error, file_metadata_record list) result \<times> store" where
  "list_children parent = binding [parent] (\<lambda>s.
     (Ok (sort_key (\<lambda>x. map (of_char :: char \<Rightarrow> nat) (fmr_name x)) (filter (\<lambda>x. fmr_parent_folder_id x = parent) (st_metadata s))), s))"

definition get_by_parent_and_name :: "u64 \<Rightarrow> string \<Rightarrow> store \<Rightarrow> (sql_error, file_metadata_record option) result \<times> store" where
  "get_by_parent_and_name parent name = binding [parent] (\<lambda>s.
     (Ok (find (\<lambda>x. fmr_parent_folder_id x = parent \<and> fmr_name x = name) (st_metadata s)), s))"

text \<open>The loop over the segments of a path, the last one being the result.\<close>

fun lookup_segments :: "u64 \<Rightarrow> string list \<Rightarrow> store \<Rightarrow> (sql_error, file_metadata_record option) result \<times> store" where
  "lookup_segments current [] s = (Ok None, s)"
| "lookup_segments current (segment # rest) s =
     then_do (get_by_parent_and_name current segment s) (\<lambda>found s.
       case found of
         None \<Rightarrow> (Ok None, s)
       | Some record \<Rightarrow>
           if rest = [] then (Ok (Some record), s)
           else if \<not> fmr_is_folder record then (Ok None, s)
           else lookup_segments (fmr_file_id record) rest s)"

definition resolve_path :: "string \<Rightarrow> store \<Rightarrow> (sql_error, file_metadata_record option) result \<times> store" where
  "resolve_path path s =
     (let trimmed = dropWhile (\<lambda>c. c = CHR ''/'') path in
      if trimmed = [] then get_by_id 0 s
      else lookup_segments 0 (filter (\<lambda>segment. segment \<noteq> []) (split_on CHR ''/'' trimmed)) s)"

definition metadata_delete :: "u64 \<Rightarrow> store \<Rightarrow> (sql_error, bool) result \<times> store" where
  "metadata_delete file_id = binding [file_id] (\<lambda>s.
     (Ok (\<exists>x \<in> set (st_metadata s). fmr_file_id x = file_id),
      s\<lparr>st_metadata := filter (\<lambda>x. fmr_file_id x \<noteq> file_id) (st_metadata s)\<rparr>))"

definition delete_children :: "u64 \<Rightarrow> store \<Rightarrow> (sql_error, nat) result \<times> store" where
  "delete_children parent = binding [parent] (\<lambda>s.
     (Ok (length (filter (\<lambda>x. fmr_parent_folder_id x = parent) (st_metadata s))),
      s\<lparr>st_metadata := filter (\<lambda>x. fmr_parent_folder_id x \<noteq> parent) (st_metadata s)\<rparr>))"

definition metadata_count :: "store \<Rightarrow> (sql_error, u64) result \<times> store" where
  "metadata_count = sql (\<lambda>s. (Ok (of_nat (length (st_metadata s))), s))"

end
