(* ===== verification/Sync_Cycle.thy ===== *)
theory Sync_Cycle
  imports Sync_Store "HOL-Library.Sublist"
begin

text \<open>
  The background sync loop, \<open>pcloud-daemon/src/sync_loop.rs\<close>, with its configuration
  (\<open>pcloud-config/src/sync_loop.rs\<close>) and the battery gate (\<open>pcloud-engine/src/power.rs\<close>).  The trait
  \<open>SyncLoopRuntime\<close> is a record of operations on a runtime state.

  The loop shares its flags and its status with other threads.  The model lets them act before each
  access of the loop: the \<open>n\<close>-th access is preceded by the action number \<open>n\<close> of a schedule.
  Waiting on the condition variable is such an access, at whose end the wake flag is cleared.
\<close>

section \<open>Configuration\<close>

definition MIN_POLL_INTERVAL_SECS :: u64 where "MIN_POLL_INTERVAL_SECS = 5"
definition MAX_POLL_INTERVAL_SECS :: u64 where "MAX_POLL_INTERVAL_SECS = 3600"
definition DEFAULT_POLL_INTERVAL_SECS :: u64 where "DEFAULT_POLL_INTERVAL_SECS = 30"
definition DEFAULT_BATCH_SIZE :: nat where "DEFAULT_BATCH_SIZE = 100"
definition DEFAULT_MAX_CONCURRENT_TRANSFERS :: nat where "DEFAULT_MAX_CONCURRENT_TRANSFERS = 4"
definition DEFAULT_FULL_SCAN_INTERVAL_SECS :: u64 where "DEFAULT_FULL_SCAN_INTERVAL_SECS = 300"
definition DEFAULT_UPLOAD_CHUNK_SIZE :: nat where "DEFAULT_UPLOAD_CHUNK_SIZE = 10 * 1024 * 1024"

record sync_loop_config =
  slc_enabled :: bool
  slc_poll_interval_secs :: u64
  slc_batch_size :: nat
  slc_max_concurrent_transfers :: nat
  slc_propagate_deletes :: bool
  slc_full_scan_interval_secs :: u64
  slc_conflict_policy :: string
  slc_upload_chunk_size :: nat
  slc_pause_on_battery :: bool

definition sync_loop_config_default :: sync_loop_config where
  "sync_loop_config_default =
     \<lparr>slc_enabled = True, slc_poll_interval_secs = DEFAULT_POLL_INTERVAL_SECS, slc_batch_size = DEFAULT_BATCH_SIZE,
      slc_max_concurrent_transfers = DEFAULT_MAX_CONCURRENT_TRANSFERS, slc_propagate_deletes = True,
      slc_full_scan_interval_secs = DEFAULT_FULL_SCAN_INTERVAL_SECS, slc_conflict_policy = ''rename_both'',
      slc_upload_chunk_size = DEFAULT_UPLOAD_CHUNK_SIZE, slc_pause_on_battery = False\<rparr>"

definition sync_loop_validate :: "sync_loop_config \<Rightarrow> (string, unit) result" where
  "sync_loop_validate c =
     (if slc_poll_interval_secs c < MIN_POLL_INTERVAL_SECS \<or> slc_poll_interval_secs c > MAX_POLL_INTERVAL_SECS then
        Err ''sync.poll_interval_secs must be between 5 and 3600''
      else if slc_batch_size c = 0 \<or> slc_batch_size c > 10000 then
        Err ''sync.batch_size must be between 1 and 10000''
      else if slc_max_concurrent_transfers c = 0 \<or> slc_max_concurrent_transfers c > 64 then
        Err ''sync.max_concurrent_transfers must be between 1 and 64''
      else if slc_full_scan_interval_secs c < 30 \<or> slc_full_scan_interval_secs c > 86400 then
        Err ''sync.full_scan_interval_secs must be between 30 and 86400''
      else if slc_conflict_policy c \<notin> set [''newest_wins'', ''rename_both'', ''error'', ''prefer_local'', ''prefer_remote'', ''manual_review''] then
        Err ''sync.conflict_policy must be one of: newest_wins, rename_both, error, prefer_local, prefer_remote, manual_review''
      else if slc_upload_chunk_size c < 256 * 1024 \<or> slc_upload_chunk_size c > 256 * 1024 * 1024 then
        Err ''sync.upload_chunk_size must be between 256KiB and 256MiB''
      else Ok ())"

datatype power_state = OnAc | OnBattery | PowerUnknown

definition should_pause :: "power_state \<Rightarrow> bool \<Rightarrow> bool" where
  "should_pause pwr pause_on_battery = (if \<not> pause_on_battery then False else pwr = OnBattery)"

text \<open>The reader of \<open>/sys/class/power_supply\<close>: the status files that could be read, or no directory.\<close>

definition eq_ignore_case :: "string \<Rightarrow> string \<Rightarrow> bool" where
  "eq_ignore_case a b \<longleftrightarrow>
     (let low = map (\<lambda>c. let k = of_char c :: nat in if 65 \<le> k \<and> k \<le> 90 then char_of (k + 32) else c) in low a = low b)"

fun read_supplies :: "bool \<Rightarrow> bool \<Rightarrow> string option list \<Rightarrow> bool \<times> bool" where
  "read_supplies saw_ac saw_battery [] = (saw_ac, saw_battery)"
| "read_supplies saw_ac saw_battery (None # entries) = read_supplies saw_ac saw_battery entries"
| "read_supplies saw_ac saw_battery (Some raw # entries) =
     (let trimmed = trim raw in
      if eq_ignore_case trimmed ''Discharging'' then read_supplies saw_ac True entries
      else if eq_ignore_case trimmed ''Charging'' \<or> eq_ignore_case trimmed ''Full'' then read_supplies True saw_battery entries
      else read_supplies saw_ac saw_battery entries)"

definition read_linux_sysfs :: "string option list option \<Rightarrow> power_state" where
  "read_linux_sysfs dir =
     (case dir of
        None \<Rightarrow> PowerUnknown
      | Some entries \<Rightarrow>
          (case read_supplies False False entries of
             (saw_ac, saw_battery) \<Rightarrow> if saw_battery \<and> \<not> saw_ac then OnBattery else if saw_ac then OnAc else PowerUnknown))"

section \<open>Status and shared flags\<close>

datatype sync_loop_state = LoopIdle | LoopRunning | LoopPaused | LoopDisabled | LoopStopped

record sync_loop_status =
  sls_state :: sync_loop_state
  sls_active_roots :: nat
  sls_last_cycle_at :: u64
  sls_last_cycle_duration_ms :: nat
  sls_pending_uploads :: nat
  sls_pending_downloads :: nat
  sls_cycles_completed :: u64
  sls_total_errors :: u64

definition sync_loop_status_default :: sync_loop_status where
  "sync_loop_status_default =
     \<lparr>sls_state = LoopIdle, sls_active_roots = 0, sls_last_cycle_at = 0, sls_last_cycle_duration_ms = 0,
      sls_pending_uploads = 0, sls_pending_downloads = 0, sls_cycles_completed = 0, sls_total_errors = 0\<rparr>"

record sync_loop_shared =
  sh_status :: sync_loop_status
  sh_wake :: bool
  sh_shutdown :: bool
  sh_paused :: bool

definition shared_new :: "sync_loop_state \<Rightarrow> sync_loop_shared" where
  "shared_new initial_state =
     \<lparr>sh_status = sync_loop_status_default\<lparr>sls_state := initial_state\<rparr>, sh_wake = False, sh_shutdown = False, sh_paused = False\<rparr>"

definition set_state :: "sync_loop_state \<Rightarrow> sync_loop_shared \<Rightarrow> sync_loop_shared" where
  "set_state state sh = sh\<lparr>sh_status := (sh_status sh)\<lparr>sls_state := state\<rparr>\<rparr>"

definition wake :: "sync_loop_shared \<Rightarrow> sync_loop_shared" where
  "wake sh = sh\<lparr>sh_wake := True\<rparr>"

definition request_shutdown :: "sync_loop_shared \<Rightarrow> sync_loop_shared" where
  "request_shutdown sh = wake (sh\<lparr>sh_shutdown := True\<rparr>)"

definition pause_loop :: "sync_loop_shared \<Rightarrow> sync_loop_shared" where
  "pause_loop sh = set_state LoopPaused (sh\<lparr>sh_paused := True\<rparr>)"

definition resume_loop :: "sync_loop_shared \<Rightarrow> sync_loop_shared" where
  "resume_loop sh = wake (sh\<lparr>sh_paused := False\<rparr>)"

definition current_status :: "sync_loop_shared \<Rightarrow> sync_loop_status" where
  "current_status sh = sh_status sh"

section \<open>One cycle\<close>

record root_cycle_result =
  rc_remote_changes :: nat
  rc_local_changes :: nat
  rc_uploads :: nat
  rc_downloads :: nat
  rc_conflicts :: nat
  rc_errors :: nat

record cycle_result =
  cy_roots_processed :: nat
  cy_total_uploads :: nat
  cy_total_downloads :: nat
  cy_total_conflicts :: nat
  cy_total_errors :: nat
  cy_duration :: nat
  cy_audit_persist_error :: "string option"

definition root_cycle_default :: root_cycle_result where
  "root_cycle_default = \<lparr>rc_remote_changes = 0, rc_local_changes = 0, rc_uploads = 0, rc_downloads = 0, rc_conflicts = 0, rc_errors = 0\<rparr>"

definition cycle_default :: cycle_result where
  "cycle_default = \<lparr>cy_roots_processed = 0, cy_total_uploads = 0, cy_total_downloads = 0, cy_total_conflicts = 0,
     cy_total_errors = 0, cy_duration = 0, cy_audit_persist_error = None\<rparr>"

record 'r sync_loop_runtime =
  rt_auth_token :: "'r \<Rightarrow> string option"
  rt_list_sync_roots :: "'r \<Rightarrow> sync_root_record list \<times> 'r"
  rt_is_sync_root_paused :: "sync_root_record \<Rightarrow> 'r \<Rightarrow> bool"
  rt_poll_remote_diff :: "sync_root_record \<Rightarrow> string \<Rightarrow> 'r \<Rightarrow> (string, nat) result \<times> 'r"
  rt_run_local_scan :: "sync_root_record \<Rightarrow> 'r \<Rightarrow> (string, nat) result \<times> 'r"
  rt_advance_transfers :: "'r \<Rightarrow> nat \<times> 'r"
  rt_execute_downloads :: "string \<Rightarrow> 'r \<Rightarrow> (string, nat) result \<times> 'r"
  rt_execute_uploads :: "string \<Rightarrow> 'r \<Rightarrow> (string, nat) result \<times> 'r"
  rt_conflict_count :: "'r \<Rightarrow> nat"
  rt_pending_upload_count :: "'r \<Rightarrow> nat"
  rt_pending_download_count :: "'r \<Rightarrow> nat"
  rt_evict_removed_root :: "sync_id \<Rightarrow> 'r \<Rightarrow> 'r"
  rt_emit_cycle_audit :: "u64 \<Rightarrow> cycle_result \<Rightarrow> 'r \<Rightarrow> (string, unit) result \<times> 'r"

text \<open>A step of the cycle: its count goes where \<open>put\<close> puts it, its failure is counted.\<close>

definition counted ::
  "(nat \<Rightarrow> root_cycle_result \<Rightarrow> root_cycle_result) \<Rightarrow> (string, nat) result \<times> 'r \<Rightarrow> root_cycle_result \<Rightarrow> root_cycle_result \<times> 'r" where
  "counted put step result =
     (case step of (Inl _, r) \<Rightarrow> (result\<lparr>rc_errors := rc_errors result + 1\<rparr>, r) | (Inr n, r) \<Rightarrow> (put n result, r))"

definition sync_one_root ::
  "'r sync_loop_runtime \<Rightarrow> sync_root_record \<Rightarrow> string \<Rightarrow> 'r \<Rightarrow> root_cycle_result \<times> 'r" where
  "sync_one_root T root auth_token r0 =
     (let (result1, r1) =
            (if sr_sync_type root \<noteq> UploadOnly
             then counted (\<lambda>n. rc_remote_changes_update (\<lambda>_. n)) (rt_poll_remote_diff T root auth_token r0) root_cycle_default
             else (root_cycle_default, r0));
          (result2, r2) =
            (if sr_sync_type root \<noteq> DownloadOnly
             then counted (\<lambda>n. rc_local_changes_update (\<lambda>_. n)) (rt_run_local_scan T root r1) result1
             else (result1, r1));
          (_, r3) = rt_advance_transfers T r2;
          (result4, r4) =
            (if sr_sync_type root \<noteq> UploadOnly
             then counted (\<lambda>n. rc_downloads_update (\<lambda>_. n)) (rt_execute_downloads T auth_token r3) result2
             else (result2, r3));
          (result5, r5) =
            (if sr_sync_type root \<noteq> DownloadOnly
             then counted (\<lambda>n. rc_uploads_update (\<lambda>_. n)) (rt_execute_uploads T auth_token r4) result4
             else (result4, r4))
      in (result5\<lparr>rc_conflicts := rt_conflict_count T r5\<rparr>, r5))"

fun run_roots ::
  "'r sync_loop_runtime \<Rightarrow> string \<Rightarrow> sync_root_record list \<Rightarrow> cycle_result \<Rightarrow> 'r \<Rightarrow> cycle_result \<times> 'r" where
  "run_roots T auth_token [] cycle r = (cycle, r)"
| "run_roots T auth_token (root # roots) cycle r =
     (if sr_paused root \<or> rt_is_sync_root_paused T root r then run_roots T auth_token roots cycle r
      else
        (case sync_one_root T root auth_token r of
           (result, r') \<Rightarrow>
             run_roots T auth_token roots
               (cycle\<lparr>cy_roots_processed := cy_roots_processed cycle + 1,
                  cy_total_uploads := cy_total_uploads cycle + rc_uploads result,
                  cy_total_downloads := cy_total_downloads cycle + rc_downloads result,
                  cy_total_conflicts := cy_total_conflicts cycle + rc_conflicts result,
                  cy_total_errors := cy_total_errors cycle + rc_errors result\<rparr>) r'))"

text \<open>\<open>elapsed\<close> is what the stopwatch shows when the cycle ends.\<close>

definition run_cycle_with_power ::
  "'r sync_loop_runtime \<Rightarrow> sync_loop_config \<Rightarrow> power_state \<Rightarrow> nat \<Rightarrow> 'r \<Rightarrow> cycle_result \<times> 'r" where
  "run_cycle_with_power T config pwr elapsed r =
     (if should_pause pwr (slc_pause_on_battery config) then (cycle_default\<lparr>cy_duration := elapsed\<rparr>, r)
      else (case rt_auth_token T r of
        None \<Rightarrow> (cycle_default\<lparr>cy_duration := elapsed\<rparr>, r)
      | Some auth_token \<Rightarrow>
          (case rt_list_sync_roots T r of
             (roots, r1) \<Rightarrow>
               (case run_roots T auth_token roots cycle_default r1 of
                  (cycle, r2) \<Rightarrow>
                    let cycle = cycle\<lparr>cy_duration := elapsed\<rparr> in
                    (case rt_emit_cycle_audit T 0 cycle r2 of
                       (Inl err, r3) \<Rightarrow>
                         (cycle\<lparr>cy_total_errors := cy_total_errors cycle + 1, cy_audit_persist_error := Some err\<rparr>, r3)
                     | (Inr _, r3) \<Rightarrow> (cycle, r3))))))"

section \<open>The loop\<close>

record 'r loop =
  lp_runtime :: 'r
  lp_shared :: sync_loop_shared
  lp_prev_root_ids :: "sync_id set"
  lp_accesses :: nat

text \<open>What the loop reads besides: the actions of the other threads, the power state, the stopwatch and the
  clock, each by the number of accesses made.\<close>

record loop_env =
  le_others :: "nat \<Rightarrow> sync_loop_shared \<Rightarrow> sync_loop_shared"
  le_power :: "nat \<Rightarrow> power_state"
  le_elapsed :: "nat \<Rightarrow> nat"
  le_now :: "nat \<Rightarrow> u64"

definition others_act :: "loop_env \<Rightarrow> 'r loop \<Rightarrow> 'r loop" where
  "others_act env l = l\<lparr>lp_shared := le_others env (lp_accesses l) (lp_shared l), lp_accesses := lp_accesses l + 1\<rparr>"

definition with_shared :: "(sync_loop_shared \<Rightarrow> sync_loop_shared) \<Rightarrow> 'r loop \<Rightarrow> 'r loop" where
  "with_shared f l = l\<lparr>lp_shared := f (lp_shared l)\<rparr>"

definition wait_on_condvar :: "loop_env \<Rightarrow> 'r loop \<Rightarrow> 'r loop" where
  "wait_on_condvar env l = with_shared (\<lambda>sh. sh\<lparr>sh_wake := False\<rparr>) (others_act env l)"

definition evict_removed ::
  "'r sync_loop_runtime \<Rightarrow> sync_id set \<Rightarrow> sync_id set \<Rightarrow> 'r \<Rightarrow> 'r" where
  "evict_removed T prev current r = fold (rt_evict_removed_root T) (sorted_list_of_set (prev - current)) r"

definition finish_status ::
  "'r sync_loop_runtime \<Rightarrow> cycle_result \<Rightarrow> u64 \<Rightarrow> 'r \<Rightarrow> sync_loop_shared \<Rightarrow> sync_loop_shared" where
  "finish_status T cycle now r sh =
     sh\<lparr>sh_status := (sh_status sh)
       \<lparr>sls_state := (if sh_paused sh then LoopPaused else LoopIdle), sls_active_roots := cy_roots_processed cycle,
        sls_last_cycle_at := now, sls_last_cycle_duration_ms := cy_duration cycle,
        sls_pending_uploads := rt_pending_upload_count T r, sls_pending_downloads := rt_pending_download_count T r,
        sls_cycles_completed := sls_cycles_completed (sh_status sh) + 1,
        sls_total_errors := sls_total_errors (sh_status sh) + of_nat (cy_total_errors cycle)\<rparr>\<rparr>"

text \<open>One iteration: whether the loop returns, and the state after it.\<close>

definition loop_iteration ::
  "'r sync_loop_runtime \<Rightarrow> sync_loop_config \<Rightarrow> loop_env \<Rightarrow> 'r loop \<Rightarrow> bool \<times> 'r loop" where
  "loop_iteration T config env l0 =
     (let l1 = others_act env l0 in
      if sh_shutdown (lp_shared l1) then (True, with_shared (set_state LoopStopped) (others_act env l1))
      else
        let l2 = others_act env l1 in
        if sh_paused (lp_shared l2) then
          (False, wait_on_condvar env (with_shared (set_state LoopPaused) (others_act env l2)))
        else
          let l3 = with_shared (set_state LoopRunning) (others_act env l2);
              (current_roots, r1) = rt_list_sync_roots T (lp_runtime l3);
              current = sr_sync_id ` set current_roots;
              r2 = evict_removed T (lp_prev_root_ids l3) current r1;
              (cycle, r3) = run_cycle_with_power T config (le_power env (lp_accesses l3)) (le_elapsed env (lp_accesses l3)) r2;
              l4 = others_act env (l3\<lparr>lp_prev_root_ids := current, lp_runtime := r3\<rparr>);
              l5 = with_shared (finish_status T cycle (le_now env (lp_accesses l4)) r3) l4;
              l6 = others_act env l5
          in if sh_shutdown (lp_shared l6) then (True, with_shared (set_state LoopStopped) (others_act env l6))
             else (False, wait_on_condvar env l6))"

partial_function (option) loop_from ::
  "'r sync_loop_runtime \<Rightarrow> sync_loop_config \<Rightarrow> loop_env \<Rightarrow> 'r loop \<Rightarrow> 'r loop option" where
  "loop_from T config env l =
     (case loop_iteration T config env l of
        (stop, l') \<Rightarrow> if stop then Some l' else loop_from T config env l')"

definition sync_loop_main ::
  "'r sync_loop_runtime \<Rightarrow> sync_loop_config \<Rightarrow> loop_env \<Rightarrow> sync_loop_shared \<Rightarrow> 'r \<Rightarrow> 'r loop option" where
  "sync_loop_main T config env shared r =
     (case rt_list_sync_roots T r of
        (roots, r') \<Rightarrow>
          loop_from T config env
            \<lparr>lp_runtime = r', lp_shared = shared, lp_prev_root_ids = sr_sync_id ` set roots, lp_accesses = 0\<rparr>)"

text \<open>Spawning: a disabled loop has no thread; the operating system may refuse one.\<close>

datatype spawn_sync_loop_error = ThreadSpawn

definition spawn_sync_loop ::
  "bool \<Rightarrow> sync_loop_config \<Rightarrow> sync_loop_shared \<Rightarrow> (spawn_sync_loop_error, sync_loop_shared \<times> bool) result" where
  "spawn_sync_loop os_refuses config shared =
     (if \<not> slc_enabled config then Ok (set_state LoopDisabled shared, False)
      else if os_refuses then Err ThreadSpawn
      else Ok (shared, True))"

section \<open>What every runtime operation keeps, the loop keeps\<close>

locale runtime_invariant =
  fixes T :: "'r sync_loop_runtime" and I :: "'r \<Rightarrow> bool"
  assumes list_keeps: "I r \<Longrightarrow> I (snd (rt_list_sync_roots T r))"
    and poll_keeps: "I r \<Longrightarrow> I (snd (rt_poll_remote_diff T root tok r))"
    and scan_keeps: "I r \<Longrightarrow> I (snd (rt_run_local_scan T root r))"
    and advance_keeps: "I r \<Longrightarrow> I (snd (rt_advance_transfers T r))"
    and downloads_keep: "I r \<Longrightarrow> I (snd (rt_execute_downloads T tok r))"
    and uploads_keep: "I r \<Longrightarrow> I (snd (rt_execute_uploads T tok r))"
    and evict_keeps: "I r \<Longrightarrow> I (rt_evict_removed_root T sid r)"
    and audit_keeps: "I r \<Longrightarrow> I (snd (rt_emit_cycle_audit T i c r))"
begin

lemma counted_keeps: "I (snd step) \<Longrightarrow> I (snd (counted put step result))"
  by (auto simp: counted_def split: prod.split sum.split)

lemma sync_one_root_keeps: "I r \<Longrightarrow> I (snd (sync_one_root T root tok r))"
  by (simp add: sync_one_root_def Let_def case_prod_beta counted_keeps poll_keeps scan_keeps advance_keeps downloads_keep uploads_keep)

lemma run_roots_keeps: "I r \<Longrightarrow> I (snd (run_roots T tok roots cycle r))"
proof (induction roots arbitrary: cycle r)
  case (Cons root roots)
  then show ?case using sync_one_root_keeps [of r root tok] by (simp add: case_prod_beta)
qed simp

lemma run_cycle_keeps: "I r \<Longrightarrow> I (snd (run_cycle_with_power T config pwr elapsed r))"
proof -
  assume I: "I r"
  show ?thesis
  proof (cases "rt_auth_token T r")
    case (Some tok)
    obtain roots r1 where l: "rt_list_sync_roots T r = (roots, r1)" by fastforce
    obtain cycle r2 where c: "run_roots T tok roots cycle_default r1 = (cycle, r2)" by fastforce
    have "I r2" using list_keeps [OF I] run_roots_keeps [of r1 tok roots cycle_default] l c by simp
    then have "I (snd (rt_emit_cycle_audit T 0 (cycle\<lparr>cy_duration := elapsed\<rparr>) r2))" by (rule audit_keeps)
    with I Some l c show ?thesis by (auto simp: run_cycle_with_power_def Let_def split: prod.split sum.split)
  qed (simp add: run_cycle_with_power_def I)
qed

lemma evict_removed_keeps: "I r \<Longrightarrow> I (evict_removed T prev current r)"
proof -
  assume "I r"
  then have "I (fold (rt_evict_removed_root T) sids r)" for sids by (induction sids arbitrary: r) (auto intro: evict_keeps)
  then show ?thesis by (simp add: evict_removed_def)
qed

lemma iteration_keeps: "I (lp_runtime l) \<Longrightarrow> I (lp_runtime (snd (loop_iteration T config env l)))"
  using list_keeps [of "lp_runtime l"]
  by (simp add: loop_iteration_def Let_def others_act_def with_shared_def wait_on_condvar_def case_prod_beta
      run_cycle_keeps evict_removed_keeps)

lemma loop_keeps:
  assumes "loop_from T config env l = Some l'" and "I (lp_runtime l)"
  shows "I (lp_runtime l')"
proof -
  have "T' = T \<longrightarrow> I (lp_runtime m) \<longrightarrow> I (lp_runtime m')" if "loop_from T' c e m = Some m'" for T' c e m m'
    using that
  proof (rule loop_from.raw_induct [where P = "\<lambda>T' c e m m'. T' = T \<longrightarrow> I (lp_runtime m) \<longrightarrow> I (lp_runtime m')", rotated])
    fix f :: "'r sync_loop_runtime \<Rightarrow> sync_loop_config \<Rightarrow> loop_env \<Rightarrow> 'r loop \<Rightarrow> 'r loop option" and T' c e m m'
    assume ih: "\<And>T' c e m m'. f T' c e m = Some m' \<Longrightarrow> T' = T \<longrightarrow> I (lp_runtime m) \<longrightarrow> I (lp_runtime m')"
      and "(case loop_iteration T' c e m of (stop, m1) \<Rightarrow> if stop then Some m1 else f T' c e m1) = Some m'"
    then show "T' = T \<longrightarrow> I (lp_runtime m) \<longrightarrow> I (lp_runtime m')"
      using iteration_keeps [of m c e] by (auto split: if_splits prod.splits)
  qed
  with assms show ?thesis by blast
qed

lemma main_keeps: "sync_loop_main T config env shared r = Some l \<Longrightarrow> I r \<Longrightarrow> I (lp_runtime l)"
  using list_keeps [of r] by (auto simp: sync_loop_main_def split: prod.splits dest: loop_keeps)

end

section \<open>The loop stops\<close>

text \<open>What other threads do: any sequence of the four operations.\<close>

inductive thread_action :: "(sync_loop_shared \<Rightarrow> sync_loop_shared) \<Rightarrow> bool" where
  no_action: "thread_action (\<lambda>sh. sh)"
| more_actions: "thread_action f \<Longrightarrow> g \<in> {wake, request_shutdown, pause_loop, resume_loop} \<Longrightarrow> thread_action (\<lambda>sh. g (f sh))"

lemma shutdown_set [simp]:
  "sh_shutdown (wake sh) = sh_shutdown sh" "sh_shutdown (request_shutdown sh)"
  "sh_shutdown (pause_loop sh) = sh_shutdown sh" "sh_shutdown (resume_loop sh) = sh_shutdown sh"
  "sh_shutdown (set_state st sh) = sh_shutdown sh" "sh_shutdown (finish_status T c now r sh) = sh_shutdown sh"
  by (simp_all add: wake_def request_shutdown_def pause_loop_def resume_loop_def set_state_def finish_status_def)

lemma action_keeps_shutdown: "thread_action f \<Longrightarrow> sh_shutdown sh \<Longrightarrow> sh_shutdown (f sh)"
  by (induction rule: thread_action.induct) auto

lemma state_after_set [simp]: "sls_state (sh_status (set_state st sh)) = st"
  by (simp add: set_state_def)

definition stop_seen :: "nat \<Rightarrow> 'r loop \<Rightarrow> bool" where
  "stop_seen k l \<longleftrightarrow> (k < lp_accesses l \<longrightarrow> sh_shutdown (lp_shared l))"

lemma others_act_stop:
  assumes "\<forall>n. thread_action (le_others env n)" and "\<forall>sh. sh_shutdown (le_others env k sh)" and "stop_seen k l"
  shows "stop_seen k (others_act env l)" and "lp_accesses (others_act env l) = lp_accesses l + 1"
  using assms action_keeps_shutdown by (auto simp: stop_seen_def others_act_def less_Suc_eq)

lemma with_shared_stop:
  "(\<And>sh. sh_shutdown (f sh) = sh_shutdown sh) \<Longrightarrow> stop_seen k (with_shared f l) = stop_seen k l"
  "lp_accesses (with_shared f l) = lp_accesses l"
  by (simp_all add: stop_seen_def with_shared_def)

lemma iteration_progress:
  assumes "\<forall>n. thread_action (le_others env n)" and "\<forall>sh. sh_shutdown (le_others env k sh)" and "stop_seen k l"
    and "loop_iteration T config env l = (stop, l')"
  shows "stop \<and> sls_state (sh_status (lp_shared l')) = LoopStopped
    \<or> \<not> stop \<and> stop_seen k l' \<and> lp_accesses l < lp_accesses l' \<and> lp_accesses l \<le> k"
proof -
  note act = others_act_stop [OF assms(1,2)]
  have wait: "stop_seen k (wait_on_condvar env m) \<and> lp_accesses (wait_on_condvar env m) = lp_accesses m + 1" if "stop_seen k m" for m :: "'a loop"
    using act [OF that] by (simp add: wait_on_condvar_def with_shared_stop)
  let ?l1 = "others_act env l" let ?l2 = "others_act env ?l1"
  have s1: "stop_seen k ?l1" "lp_accesses ?l1 = lp_accesses l + 1" using act [OF assms(3)] by auto
  have s2: "stop_seen k ?l2" "lp_accesses ?l2 = lp_accesses l + 2" using act [OF s1(1)] s1(2) by auto
  show ?thesis
  proof (cases "sh_shutdown (lp_shared ?l1)")
    case True
    with assms(4) show ?thesis by (auto simp: loop_iteration_def Let_def with_shared_def)
  next
    case False
    then have k: "lp_accesses l \<le> k" using s1 by (simp add: stop_seen_def)
    show ?thesis
    proof (cases "sh_paused (lp_shared ?l2)")
      case True
      let ?m = "with_shared (set_state LoopPaused) (others_act env ?l2)"
      have "stop_seen k ?m" "lp_accesses ?m = lp_accesses l + 3" using act [OF s2(1)] s2(2) by (simp_all add: with_shared_stop)
      with wait [of ?m] k assms(4) False True show ?thesis by (auto simp: loop_iteration_def Let_def)
    next
      case run: False
      define l3 where "l3 = with_shared (set_state LoopRunning) (others_act env ?l2)"
      obtain roots r1 where r1: "rt_list_sync_roots T (lp_runtime l3) = (roots, r1)" by fastforce
      define current where "current = sr_sync_id ` set roots"
      obtain cycle r3 where r3: "run_cycle_with_power T config (le_power env (lp_accesses l3)) (le_elapsed env (lp_accesses l3))
          (evict_removed T (lp_prev_root_ids l3) current r1) = (cycle, r3)" by fastforce
      define l4 where "l4 = others_act env (l3\<lparr>lp_prev_root_ids := current, lp_runtime := r3\<rparr>)"
      define l5 where "l5 = with_shared (finish_status T cycle (le_now env (lp_accesses l4)) r3) l4"
      define l6 where "l6 = others_act env l5"
      have i: "loop_iteration T config env l =
          (if sh_shutdown (lp_shared l6) then (True, with_shared (set_state LoopStopped) (others_act env l6)) else (False, wait_on_condvar env l6))"
        using False run r1 r3 by (simp add: loop_iteration_def Let_def l3_def l4_def l5_def l6_def current_def)
      have "stop_seen k l3" "lp_accesses l3 = lp_accesses l + 3" using act [OF s2(1)] s2(2) by (simp_all add: l3_def with_shared_stop)
      then have "stop_seen k (l3\<lparr>lp_prev_root_ids := current, lp_runtime := r3\<rparr>)"
        by (simp add: stop_seen_def)
      from act [OF this] \<open>lp_accesses l3 = lp_accesses l + 3\<close> have "stop_seen k l4" "lp_accesses l4 = lp_accesses l + 4" by (simp_all add: l4_def)
      then have "stop_seen k l5" "lp_accesses l5 = lp_accesses l + 4" by (simp_all add: l5_def with_shared_stop)
      from act [OF this(1)] this(2) have "stop_seen k l6" "lp_accesses l6 = lp_accesses l + 5" by (simp_all add: l6_def)
      with wait [of l6] k i assms(4) show ?thesis by (auto simp: with_shared_def split: if_splits)
    qed
  qed
qed

text \<open>A shutdown request always stops the loop.  Whatever the runtime's operations do, whatever the other
  threads do before and after, once one of them has requested the shutdown the loop returns, and the
  status it leaves is stopped.\<close>

lemma loop_stops:
  assumes "\<forall>n. thread_action (le_others env n)" and "\<forall>sh. sh_shutdown (le_others env k sh)"
  shows "\<exists>l. sync_loop_main T config env shared r = Some l \<and> sls_state (sh_status (lp_shared l)) = LoopStopped"
proof -
  have "\<exists>l'. loop_from T config env l = Some l' \<and> sls_state (sh_status (lp_shared l')) = LoopStopped"
    if "stop_seen k l" for l :: "'a loop"
    using that
  proof (induction "Suc k - lp_accesses l" arbitrary: l rule: less_induct)
    case less
    obtain stop l1 where i: "loop_iteration T config env l = (stop, l1)" by fastforce
    note p = iteration_progress [OF assms less(2) i]
    show ?case
    proof (cases stop)
      case True
      with p i show ?thesis by (simp add: loop_from.simps)
    next
      case False
      with p have "Suc k - lp_accesses l1 < Suc k - lp_accesses l" "stop_seen k l1" by auto
      from less(1) [OF this] False i show ?thesis by (simp add: loop_from.simps [of T config env l])
    qed
  qed
  then show ?thesis by (simp add: sync_loop_main_def stop_seen_def split: prod.split)
qed

text \<open>A runtime that never fails and has nothing to do, paused by others at the third access and shut down at
  the seventeenth.\<close>

definition idle_runtime :: "unit sync_loop_runtime" where
  "idle_runtime =
     \<lparr>rt_auth_token = (\<lambda>_. Some ''t''), rt_list_sync_roots = (\<lambda>r. ([], r)), rt_is_sync_root_paused = (\<lambda>_ _. False),
      rt_poll_remote_diff = (\<lambda>_ _ r. (Ok 0, r)), rt_run_local_scan = (\<lambda>_ r. (Ok 0, r)), rt_advance_transfers = (\<lambda>r. (0, r)),
      rt_execute_downloads = (\<lambda>_ r. (Ok 0, r)), rt_execute_uploads = (\<lambda>_ r. (Ok 0, r)), rt_conflict_count = (\<lambda>_. 0),
      rt_pending_upload_count = (\<lambda>_. 0), rt_pending_download_count = (\<lambda>_. 0), rt_evict_removed_root = (\<lambda>_ r. r),
      rt_emit_cycle_audit = (\<lambda>_ _ r. (Ok (), r))\<rparr>"

definition busy_env :: loop_env where
  "busy_env = \<lparr>le_others = (\<lambda>n. if n = 17 then request_shutdown else if n = 3 then pause_loop else (\<lambda>sh. sh)),
    le_power = (\<lambda>_. OnAc), le_elapsed = (\<lambda>_. 0), le_now = (\<lambda>_. 0)\<rparr>"

lemma busy_env_ok: "\<forall>n. thread_action (le_others busy_env n)" "\<forall>sh. sh_shutdown (le_others busy_env 17 sh)"
proof -
  have "thread_action g" if "g \<in> {wake, request_shutdown, pause_loop, resume_loop}" for g
    using more_actions [OF no_action that] by simp
  then show "\<forall>n. thread_action (le_others busy_env n)" by (simp add: busy_env_def no_action)
qed (simp add: busy_env_def)

lemma idle_loop_stops:
  "\<exists>l. sync_loop_main idle_runtime sync_loop_config_default busy_env (shared_new LoopIdle) () = Some l
    \<and> sls_state (sh_status (lp_shared l)) = LoopStopped"
  by (rule loop_stops [OF busy_env_ok])

text \<open>A loop that is disabled, or has stopped, reports that it is paused after \<open>pause\<close>, and keeps reporting it
  after \<open>resume\<close>, which does not touch the status.\<close>

lemma resume_leaves_paused_status:
  "sls_state (current_status (resume_loop (pause_loop sh))) = LoopPaused"
  by (simp add: current_status_def resume_loop_def pause_loop_def wake_def set_state_def)

section \<open>What a cycle does\<close>

datatype runtime_call =
    CallPoll sync_id | CallScan sync_id | CallAdvance | CallDownloads | CallUploads | CallAudit | CallEvict sync_id

text \<open>A runtime that also writes down which operations are called.\<close>

definition logging :: "runtime_call \<Rightarrow> ('r \<Rightarrow> 'a \<times> 'r) \<Rightarrow> 'r \<times> runtime_call list \<Rightarrow> 'a \<times> 'r \<times> runtime_call list" where
  "logging c f = (\<lambda>(r, log). case f r of (x, r') \<Rightarrow> (x, r', log @ [c]))"

definition recorded :: "'r sync_loop_runtime \<Rightarrow> ('r \<times> runtime_call list) sync_loop_runtime" where
  "recorded T =
     \<lparr>rt_auth_token = (\<lambda>(r, log). rt_auth_token T r),
      rt_list_sync_roots = (\<lambda>(r, log). case rt_list_sync_roots T r of (x, r') \<Rightarrow> (x, r', log)),
      rt_is_sync_root_paused = (\<lambda>root (r, log). rt_is_sync_root_paused T root r),
      rt_poll_remote_diff = (\<lambda>root tok. logging (CallPoll (sr_sync_id root)) (rt_poll_remote_diff T root tok)),
      rt_run_local_scan = (\<lambda>root. logging (CallScan (sr_sync_id root)) (rt_run_local_scan T root)),
      rt_advance_transfers = logging CallAdvance (rt_advance_transfers T),
      rt_execute_downloads = (\<lambda>tok. logging CallDownloads (rt_execute_downloads T tok)),
      rt_execute_uploads = (\<lambda>tok. logging CallUploads (rt_execute_uploads T tok)),
      rt_conflict_count = (\<lambda>(r, log). rt_conflict_count T r),
      rt_pending_upload_count = (\<lambda>(r, log). rt_pending_upload_count T r),
      rt_pending_download_count = (\<lambda>(r, log). rt_pending_download_count T r),
      rt_evict_removed_root = (\<lambda>sid (r, log). (rt_evict_removed_root T sid r, log @ [CallEvict sid])),
      rt_emit_cycle_audit = (\<lambda>i c. logging CallAudit (rt_emit_cycle_audit T i c))\<rparr>"

definition calls_of :: "sync_root_record \<Rightarrow> runtime_call list" where
  "calls_of root =
     (if sr_sync_type root \<noteq> UploadOnly then [CallPoll (sr_sync_id root)] else [])
     @ (if sr_sync_type root \<noteq> DownloadOnly then [CallScan (sr_sync_id root)] else [])
     @ [CallAdvance]
     @ (if sr_sync_type root \<noteq> UploadOnly then [CallDownloads] else [])
     @ (if sr_sync_type root \<noteq> DownloadOnly then [CallUploads] else [])"

lemma counted_logging:
  "counted f (logging c g (r, log)) res = (case counted f (g r) res of (res', r') \<Rightarrow> (res', r', log @ [c]))"
  by (auto simp: counted_def logging_def split: prod.split sum.split)

lemma recorded_root:
  "sync_one_root (recorded T) root tok (r, log) =
    (case sync_one_root T root tok r of (res, r') \<Rightarrow> (res, r', log @ calls_of root))"
proof -
  have adv: "rt_advance_transfers (recorded T) (r, log) = (case rt_advance_transfers T r of (n, r') \<Rightarrow> (n, r', log @ [CallAdvance]))" for r log
    by (simp add: recorded_def logging_def)
  have p: "counted f (rt_poll_remote_diff (recorded T) root tok (r, log)) res
      = (case counted f (rt_poll_remote_diff T root tok r) res of (res', r') \<Rightarrow> (res', r', log @ [CallPoll (sr_sync_id root)]))" for f r log res
    by (simp add: recorded_def counted_logging)
  have s: "counted f (rt_run_local_scan (recorded T) root (r, log)) res
      = (case counted f (rt_run_local_scan T root r) res of (res', r') \<Rightarrow> (res', r', log @ [CallScan (sr_sync_id root)]))" for f r log res
    by (simp add: recorded_def counted_logging)
  have d: "counted f (rt_execute_downloads (recorded T) tok (r, log)) res
      = (case counted f (rt_execute_downloads T tok r) res of (res', r') \<Rightarrow> (res', r', log @ [CallDownloads]))" for f r log res
    by (simp add: recorded_def counted_logging)
  have u: "counted f (rt_execute_uploads (recorded T) tok (r, log)) res
      = (case counted f (rt_execute_uploads T tok r) res of (res', r') \<Rightarrow> (res', r', log @ [CallUploads]))" for f r log res
    by (simp add: recorded_def counted_logging)
  have c: "rt_conflict_count (recorded T) (r, log) = rt_conflict_count T r" for r log by (simp add: recorded_def)
  show ?thesis
    by (cases "sr_sync_type root") (simp_all add: sync_one_root_def calls_of_def adv p s d u c case_prod_beta Let_def)
qed

lemma recorded_roots:
  "\<exists>processed. subseq processed (filter (\<lambda>root. \<not> sr_paused root) roots)
    \<and> run_roots (recorded T) tok roots cycle (r, log) =
       (case run_roots T tok roots cycle r of (c, r') \<Rightarrow> (c, r', log @ concat (map calls_of processed)))
    \<and> cy_roots_processed (fst (run_roots T tok roots cycle r)) = cy_roots_processed cycle + length processed"
proof (induction roots arbitrary: cycle r log)
  case (Cons root roots)
  have pz: "rt_is_sync_root_paused (recorded T) root (r, log) = rt_is_sync_root_paused T root r" by (simp add: recorded_def)
  show ?case
  proof (cases "sr_paused root \<or> rt_is_sync_root_paused T root r")
    case True
    obtain processed where p: "subseq processed (filter (\<lambda>root. \<not> sr_paused root) roots)"
        "run_roots (recorded T) tok roots cycle (r, log) = (case run_roots T tok roots cycle r of (c, r') \<Rightarrow> (c, r', log @ concat (map calls_of processed)))"
        "cy_roots_processed (fst (run_roots T tok roots cycle r)) = cy_roots_processed cycle + length processed"
      using Cons [of cycle r log] by blast
    with True show ?thesis by (intro exI [of _ processed]) (auto simp: pz)
  next
    case False
    obtain res r' where o: "sync_one_root T root tok r = (res, r')" by fastforce
    let ?c = "cycle\<lparr>cy_roots_processed := cy_roots_processed cycle + 1,
                  cy_total_uploads := cy_total_uploads cycle + rc_uploads res,
                  cy_total_downloads := cy_total_downloads cycle + rc_downloads res,
                  cy_total_conflicts := cy_total_conflicts cycle + rc_conflicts res,
                  cy_total_errors := cy_total_errors cycle + rc_errors res\<rparr>"
    obtain processed where p: "subseq processed (filter (\<lambda>root. \<not> sr_paused root) roots)"
        "run_roots (recorded T) tok roots ?c (r', log @ calls_of root)
          = (case run_roots T tok roots ?c r' of (c, r') \<Rightarrow> (c, r', (log @ calls_of root) @ concat (map calls_of processed)))"
        "cy_roots_processed (fst (run_roots T tok roots ?c r')) = cy_roots_processed ?c + length processed"
      using Cons [of ?c r' "log @ calls_of root"] by blast
    with False show ?thesis by (intro exI [of _ "root # processed"]) (simp add: pz o recorded_root)
  qed
qed (auto intro: exI [of _ "[]"])


end
