(* ===== verification/Local_Walk.thy ===== *)
theory Local_Walk
  imports Sync_Store Ingest
begin

text \<open>
  The walk over a sync root's local directory tree, \<open>walk_local_tree\<close> and \<open>walk_recursive\<close> of
  \<open>pcloud-daemon/src/sync_loop_runtime.rs\<close>.

  The file system is what the walk observes of it: the inode behind the root's path, and for every
  directory inode its listing, with the names as \<open>to_string_lossy\<close> gives them.  Every read may fail.
  Directories may form cycles; the walk ends because it enters each inode once.
\<close>

section \<open>The file system\<close>

datatype file_node = Symlink | Dir nat | Regular

type_synonym dir_listing = "(unit, (unit, string \<times> (unit, file_node) result) result list) result"

record local_fs =
  lf_is_dir :: "string \<Rightarrow> nat option"
  lf_dirs :: "(nat \<times> dir_listing) list"

definition read_dir :: "local_fs \<Rightarrow> nat \<Rightarrow> dir_listing" where
  "read_dir fs inode = (case map_of (lf_dirs fs) inode of Some l \<Rightarrow> l | None \<Rightarrow> Err ())"

section \<open>The walk\<close>

datatype walk_error = RootMissing | ReadDirFailed | DirEntryFailed | MetadataFailed | WalkSql sql_error

record walk_state =
  ws_entries :: "local_scan_entry list"
  ws_visited :: "nat set"
  ws_store :: store

definition replace_backslash :: "string \<Rightarrow> string" where
  "replace_backslash = map (\<lambda>c. if c = CHR 0x5C then CHR ''/'' else c)"

text \<open>The remote folder of a directory, looked up under its parent's.\<close>

definition child_folder ::
  "remote_folder_id option \<Rightarrow> string \<Rightarrow> store \<Rightarrow> (sql_error, remote_folder_id option) result \<times> store" where
  "child_folder parent leaf s =
     (case parent of
        None \<Rightarrow> (Ok None, s)
      | Some p \<Rightarrow> then_do (get_by_parent_and_name (remote_folder_id_get p) leaf s) (\<lambda>found s.
          (Ok (case found of
                 Some r \<Rightarrow> if fmr_is_folder r then Some (RemoteFolderId (fmr_file_id r)) else None
               | None \<Rightarrow> None), s)))"

definition push_entry ::
  "sync_id \<Rightarrow> string \<Rightarrow> entry_kind \<Rightarrow> remote_folder_id option \<Rightarrow> walk_state \<Rightarrow> walk_state" where
  "push_entry sid relative kind parent st =
     st\<lparr>ws_entries := ws_entries st @ [\<lparr>lse_sync_id = sid, lse_path = relative, lse_entry_kind = kind, lse_deleted = False,
       lse_remote_parent_folder_id = parent\<rparr>]\<rparr>"

text \<open>One directory entry: refused, done, or a directory to descend into, with its path, remote folder and
  listing.\<close>

definition visit_entry ::
  "local_fs \<Rightarrow> sync_id \<Rightarrow> string \<Rightarrow> remote_folder_id option \<Rightarrow> (unit, string \<times> (unit, file_node) result) result
    \<Rightarrow> walk_state \<Rightarrow> (walk_error, (string \<times> remote_folder_id option \<times> (unit, string \<times> (unit, file_node) result) result list) option) result
      \<times> walk_state" where
  "visit_entry fs sid prefix parent entry st =
     (case entry of
        Inl _ \<Rightarrow> (Err DirEntryFailed, st)
      | Inr (name, meta) \<Rightarrow>
          let relative = replace_backslash (prefix @ name) in
          if relative = [] then (Ok None, st)
          else (case meta of
              Inl _ \<Rightarrow> (Err MetadataFailed, st)
            | Inr Symlink \<Rightarrow> (Ok None, st)
            | Inr Regular \<Rightarrow> (Ok None, push_entry sid relative File parent st)
            | Inr (Dir inode) \<Rightarrow>
                let st1 = push_entry sid relative Folder parent st in
                if inode \<in> ws_visited st1 then (Ok None, st1)
                else
                  (case child_folder parent name (ws_store st1) of
                     (r, s) \<Rightarrow>
                       let st2 = st1\<lparr>ws_visited := insert inode (ws_visited st1), ws_store := s\<rparr> in
                       (case r of
                          Inl e \<Rightarrow> (Err (WalkSql e), st2)
                        | Inr child_parent \<Rightarrow>
                            (case read_dir fs inode of
                               Inl _ \<Rightarrow> (Err ReadDirFailed, st2)
                             | Inr listing \<Rightarrow> (Ok (Some (prefix @ name @ ''/'', child_parent, listing)), st2))))))"

text \<open>The loop over one directory's listing; \<open>prefix\<close> is the path of the directory below the root,
  with its slash.\<close>

function walk_entries ::
  "local_fs \<Rightarrow> sync_id \<Rightarrow> string \<Rightarrow> remote_folder_id option
    \<Rightarrow> (unit, string \<times> (unit, file_node) result) result list \<Rightarrow> walk_state \<Rightarrow> (walk_error, unit) result \<times> walk_state" where
  "walk_entries fs sid prefix parent [] st = (Ok (), st)"
| "walk_entries fs sid prefix parent (entry # rest) st =
     (case visit_entry fs sid prefix parent entry st of
        (Inl e, st1) \<Rightarrow> (Err e, st1)
      | (Inr None, st1) \<Rightarrow> walk_entries fs sid prefix parent rest st1
      | (Inr (Some (prefix', child_parent, listing)), st1) \<Rightarrow>
          (case walk_entries fs sid prefix' child_parent listing st1 of
             (Inl e, st2) \<Rightarrow> (Err e, st2)
           | (Inr _, st2) \<Rightarrow> walk_entries fs sid prefix parent rest st2))"
  by pat_completeness auto

lemma visit_entry_visited: "ws_visited st \<subseteq> ws_visited (snd (visit_entry fs sid prefix parent entry st))"
  by (auto simp: visit_entry_def push_entry_def Let_def split: sum.split prod.split file_node.split)

lemma visit_entry_descends:
  assumes "visit_entry fs sid prefix parent entry st = (Ok (Some (prefix', cp, listing)), st1)"
  shows "\<exists>inode name. entry = Inr (name, Inr (Dir inode)) \<and> inode \<notin> ws_visited st
    \<and> ws_visited st1 = insert inode (ws_visited st) \<and> read_dir fs inode = Ok listing
    \<and> prefix' = prefix @ name @ ''/'' \<and> replace_backslash (prefix @ name) \<noteq> []
    \<and> ws_entries st1 = ws_entries (push_entry sid (replace_backslash (prefix @ name)) Folder parent st)"
  using assms
  by (auto simp: visit_entry_def push_entry_def Let_def split: sum.splits prod.splits file_node.splits if_splits)

lemma read_dir_known: "read_dir fs inode = Ok listing \<Longrightarrow> inode \<in> fst ` set (lf_dirs fs)"
  by (auto simp: read_dir_def split: option.splits dest!: map_of_SomeD intro: rev_image_eqI)

lemma walk_entries_visited:
  "walk_entries_dom (fs, sid, prefix, parent, es, st)
    \<Longrightarrow> ws_visited st \<subseteq> ws_visited (snd (walk_entries fs sid prefix parent es st))"
proof (induction rule: walk_entries.pinduct)
  case (2 fs sid prefix parent entry rest st)
  obtain r st1 where v: "visit_entry fs sid prefix parent entry st = (r, st1)" by (cases "visit_entry fs sid prefix parent entry st")
  have s1: "ws_visited st \<subseteq> ws_visited st1" using visit_entry_visited [of st fs sid prefix parent entry] v by simp
  show ?case
  proof (cases r)
    case (Inr d)
    show ?thesis
    proof (cases d)
      case None
      with 2(2) [OF v [symmetric] Inr None] v Inr s1 show ?thesis by (simp add: walk_entries.psimps(2) [OF 2(1)])
    next
      case (Some t)
      obtain prefix' cp listing where t: "t = (prefix', cp, listing)" by (cases t)
      obtain r2 st2 where w: "walk_entries fs sid prefix' cp listing st1 = (r2, st2)" by (cases "walk_entries fs sid prefix' cp listing st1")
      have s2: "ws_visited st1 \<subseteq> ws_visited st2" using 2(3) [OF v [symmetric] Inr Some t [symmetric] refl] w by simp
      show ?thesis
      proof (cases r2)
        case (Inr u)
        then show ?thesis
          using 2(4) [OF v [symmetric] \<open>r = Inr d\<close> Some t [symmetric] refl w [symmetric] Inr] v \<open>r = Inr d\<close> Some t w s1 s2
          by (simp add: walk_entries.psimps(2) [OF 2(1)])
      qed (use v Inr Some t w s1 s2 in \<open>simp add: walk_entries.psimps(2) [OF 2(1)]\<close>)
    qed
  qed (use v s1 in \<open>simp add: walk_entries.psimps(2) [OF 2(1)]\<close>)
qed (simp add: walk_entries.psimps)

definition unvisited :: "local_fs \<Rightarrow> walk_state \<Rightarrow> nat" where
  "unvisited fs st = card (fst ` set (lf_dirs fs) - ws_visited st)"

lemma unvisited_mono: "ws_visited a \<subseteq> ws_visited b \<Longrightarrow> unvisited fs b \<le> unvisited fs a"
  unfolding unvisited_def by (rule card_mono) auto

lemma unvisited_descend:
  assumes "visit_entry fs sid prefix parent entry st = (Ok (Some d), st1)"
  shows "unvisited fs st1 < unvisited fs st"
proof -
  obtain prefix' cp listing where "d = (prefix', cp, listing)" by (cases d)
  with visit_entry_descends assms read_dir_known obtain inode where
    "inode \<notin> ws_visited st" "ws_visited st1 = insert inode (ws_visited st)" "inode \<in> fst ` set (lf_dirs fs)"
    by metis
  then show ?thesis unfolding unvisited_def by (intro psubset_card_mono) auto
qed

termination walk_entries
proof (relation "inv_image (less_than <*lex*> less_than) (\<lambda>(fs, sid, prefix, parent, es, st). (unvisited fs st, length es))", goal_cases)
  case (2 fs sid prefix parent entry rest st x st1)
  then have "ws_visited st \<subseteq> ws_visited st1" by (metis snd_conv visit_entry_visited)
  from unvisited_mono [OF this, of fs] show ?case by auto
next
  case (3 fs sid prefix parent entry rest st x st1)
  then have "unvisited fs st1 < unvisited fs st" using unvisited_descend by metis
  then show ?case by auto
next
  case (4 fs sid prefix parent entry rest st x st1 d t prefix' y cp listing r st2)
  then have "unvisited fs st1 < unvisited fs st" using unvisited_descend by metis
  moreover have "ws_visited st1 \<subseteq> ws_visited st2" using walk_entries_visited [OF 4(8)] 4(6) by (metis snd_conv)
  ultimately show ?case using unvisited_mono [of st1 st2 fs] by auto
qed auto

declare walk_entries.simps(2) [simp del]

section \<open>The operation\<close>

definition resolve_sync_root_remote_folder_id :: "string \<Rightarrow> store \<Rightarrow> (sql_error, remote_folder_id option) result \<times> store" where
  "resolve_sync_root_remote_folder_id remote_path s =
     (let trimmed = trim remote_path in
      if trimmed = [] \<or> trimmed = ''/'' then (Ok (Some (RemoteFolderId 0)), s)
      else then_do (resolve_path trimmed s) (\<lambda>found s.
        (Ok (case found of
               Some record \<Rightarrow> if fmr_is_folder record then Some (RemoteFolderId (fmr_file_id record)) else None
             | None \<Rightarrow> None), s)))"

definition walk_local_tree ::
  "local_fs \<Rightarrow> sync_root_record \<Rightarrow> store \<Rightarrow> (walk_error, local_scan_entry list) result \<times> store" where
  "walk_local_tree fs root s =
     (case lf_is_dir fs (sr_local_path root) of
        None \<Rightarrow> (Err RootMissing, s)
      | Some base \<Rightarrow>
          (case resolve_sync_root_remote_folder_id (sr_remote_path root) s of
             (Inl e, s') \<Rightarrow> (Err (WalkSql e), s')
           | (Inr parent, s') \<Rightarrow>
               (case read_dir fs base of
                  Inl _ \<Rightarrow> (Err ReadDirFailed, s')
                | Inr listing \<Rightarrow>
                    (case walk_entries fs (sr_sync_id root) [] parent listing \<lparr>ws_entries = [], ws_visited = {}, ws_store = s'\<rparr> of
                       (Inl e, st) \<Rightarrow> (Err e, ws_store st)
                     | (Inr _, st) \<Rightarrow> (Ok (ws_entries st), ws_store st)))))"

section \<open>What a walk lists\<close>

text \<open>The directories below the root, with the paths that lead to them through directories only.\<close>

definition child_of :: "local_fs \<Rightarrow> nat \<Rightarrow> string \<Rightarrow> file_node \<Rightarrow> bool" where
  "child_of fs inode name node \<longleftrightarrow> (\<exists>listing. read_dir fs inode = Ok listing \<and> Inr (name, Inr node) \<in> set listing)"

inductive dir_at :: "local_fs \<Rightarrow> nat \<Rightarrow> string \<Rightarrow> nat \<Rightarrow> bool" for fs base where
  dir_root: "dir_at fs base [] base"
| dir_child: "dir_at fs base prefix i \<Longrightarrow> child_of fs i name (Dir j) \<Longrightarrow> dir_at fs base (prefix @ name @ ''/'') j"

fun node_kind :: "file_node \<Rightarrow> entry_kind" where
  "node_kind (Dir _) = Folder"
| "node_kind _ = File"

definition listed :: "local_scan_entry list \<Rightarrow> string \<Rightarrow> entry_kind \<Rightarrow> bool" where
  "listed entries path kind \<longleftrightarrow> (\<exists>e \<in> set entries. lse_path e = path \<and> lse_entry_kind e = kind)"

definition covered ::
  "(unit, string \<times> (unit, file_node) result) result list \<Rightarrow> string \<Rightarrow> walk_state \<Rightarrow> bool" where
  "covered es prefix st \<longleftrightarrow> (\<forall>name node. Inr (name, Inr node) \<in> set es \<longrightarrow> node \<noteq> Symlink \<longrightarrow> name \<noteq> [] \<longrightarrow>
     listed (ws_entries st) (replace_backslash (prefix @ name)) (node_kind node)
     \<and> (\<forall>i. node = Dir i \<longrightarrow> i \<in> ws_visited st))"

lemma listed_mono: "listed a p k \<Longrightarrow> set a \<subseteq> set b \<Longrightarrow> listed b p k"
  by (auto simp: listed_def)

lemma covered_mono:
  "covered es prefix a \<Longrightarrow> set (ws_entries a) \<subseteq> set (ws_entries b) \<Longrightarrow> ws_visited a \<subseteq> ws_visited b \<Longrightarrow> covered es prefix b"
  unfolding covered_def using listed_mono by blast

lemma replace_backslash_Nil [simp]: "replace_backslash s = [] \<longleftrightarrow> s = []"
  by (simp add: replace_backslash_def)

lemma visit_entry_effect:
  assumes "visit_entry fs sid prefix parent entry st = (Ok d, st1)"
  shows "set (ws_entries st) \<subseteq> set (ws_entries st1) \<and> covered [entry] prefix st1
    \<and> (d = None \<longrightarrow> ws_visited st1 = ws_visited st)
    \<and> (\<forall>e \<in> set (ws_entries st1) - set (ws_entries st). \<exists>name node. entry = Inr (name, Inr node) \<and> node \<noteq> Symlink
          \<and> lse_path e = replace_backslash (prefix @ name) \<and> lse_entry_kind e = node_kind node)"
proof -
  obtain name meta where e: "entry = Inr (name, meta)"
    using assms by (cases entry) (auto simp: visit_entry_def)
  show ?thesis
  proof (cases "prefix @ name = []")
    case True
    with assms e show ?thesis by (simp add: visit_entry_def covered_def)
  next
    case False
    then obtain node where n: "meta = Inr node" using assms e by (cases meta) (auto simp: visit_entry_def Let_def)
    show ?thesis
    proof (cases node)
      case (Dir inode)
      let ?st = "push_entry sid (replace_backslash (prefix @ name)) Folder parent st"
      have "ws_entries st1 = ws_entries ?st \<and> inode \<in> ws_visited st1 \<and> (d = None \<longrightarrow> ws_visited st1 = ws_visited st)"
        using assms e n Dir False
        by (cases "child_folder parent name (ws_store ?st)"; cases "inode \<in> ws_visited ?st")
          (auto simp: visit_entry_def Let_def push_entry_def split: sum.splits)
      then show ?thesis using e n Dir by (auto simp: push_entry_def listed_def covered_def)
    next
      case Symlink
      then have "st1 = st \<and> d = None" using assms e n False by (auto simp: visit_entry_def Let_def split: if_splits)
      then show ?thesis using e n Symlink by (simp add: covered_def)
    next
      case Regular
      then have "st1 = push_entry sid (replace_backslash (prefix @ name)) File parent st \<and> d = None"
        using assms e n False by (auto simp: visit_entry_def Let_def split: if_splits)
      then show ?thesis using e n Regular by (auto simp: push_entry_def listed_def covered_def)
    qed
  qed
qed

definition entered :: "local_fs \<Rightarrow> nat \<Rightarrow> walk_state \<Rightarrow> nat \<Rightarrow> bool" where
  "entered fs base st i \<longleftrightarrow> (\<exists>p listing. dir_at fs base p i \<and> read_dir fs i = Ok listing \<and> covered listing p st)"

definition from_tree :: "local_fs \<Rightarrow> nat \<Rightarrow> local_scan_entry \<Rightarrow> bool" where
  "from_tree fs base e \<longleftrightarrow> (\<exists>p i name node. dir_at fs base p i \<and> child_of fs i name node \<and> node \<noteq> Symlink
     \<and> lse_path e = replace_backslash (p @ name) \<and> lse_entry_kind e = node_kind node)"

definition extends :: "walk_state \<Rightarrow> walk_state \<Rightarrow> bool" where
  "extends a b \<longleftrightarrow> set (ws_entries a) \<subseteq> set (ws_entries b) \<and> ws_visited a \<subseteq> ws_visited b"

lemma extends_trans: "extends a b \<Longrightarrow> extends b c \<Longrightarrow> extends a c"
  by (auto simp: extends_def)

lemma covered_extends: "covered es p a \<Longrightarrow> extends a b \<Longrightarrow> covered es p b"
  unfolding extends_def using covered_mono by blast

lemma entered_extends: "entered fs base a i \<Longrightarrow> extends a b \<Longrightarrow> entered fs base b i"
  unfolding entered_def using covered_extends by blast

definition walked :: "local_fs \<Rightarrow> nat \<Rightarrow> walk_state \<Rightarrow> walk_state \<Rightarrow> bool" where
  "walked fs base a b \<longleftrightarrow> extends a b \<and> (\<forall>i \<in> ws_visited b - ws_visited a. entered fs base b i)
     \<and> (\<forall>e \<in> set (ws_entries b) - set (ws_entries a). from_tree fs base e)"

lemma walked_trans: "walked fs base a b \<Longrightarrow> walked fs base b c \<Longrightarrow> walked fs base a c"
  unfolding walked_def using extends_trans entered_extends by blast

lemma walk_entries_covers:
  assumes "walk_entries fs sid prefix parent es st = (Ok u, st')" and "dir_at fs base prefix dir"
    and "\<forall>name node. Inr (name, Inr node) \<in> set es \<longrightarrow> child_of fs dir name node"
  shows "walked fs base st st' \<and> covered es prefix st'"
  using assms
proof (induction fs sid prefix parent es st arbitrary: u st' dir rule: walk_entries.induct)
  case (1 fs sid prefix parent st)
  then show ?case by (auto simp: covered_def walked_def extends_def)
next
  case (2 fs sid prefix parent entry rest st)
  note dir = 2(5)
  obtain d st1 where v: "visit_entry fs sid prefix parent entry st = (Ok d, st1)"
    using 2(4) by (cases "visit_entry fs sid prefix parent entry st") (auto simp: walk_entries.simps(2) split: sum.splits)
  note ve = visit_entry_effect [OF v]
  have ext: "extends st st1" using ve visit_entry_visited [of st fs sid prefix parent entry] v by (simp add: extends_def)
  have rest: "\<forall>name node. Inr (name, Inr node) \<in> set rest \<longrightarrow> child_of fs dir name node" using 2(6) by simp
  have new1: "from_tree fs base e" if new: "e \<in> set (ws_entries st1) - set (ws_entries st)" for e
  proof -
    obtain name node where n: "entry = Inr (name, Inr node)" "node \<noteq> Symlink" "lse_path e = replace_backslash (prefix @ name)"
        "lse_entry_kind e = node_kind node"
      using bspec [OF ve [THEN conjunct2, THEN conjunct2, THEN conjunct2] new] by (elim exE conjE) (rule that)
    then have "child_of fs dir name node" using 2(6) by simp
    with n dir show ?thesis unfolding from_tree_def by blast
  qed
  have cov: "covered (entry # rest) prefix st'" if "covered rest prefix st'" "extends st1 st'"
  proof -
    have "covered [entry] prefix st'" by (rule covered_extends [OF ve [THEN conjunct2, THEN conjunct1] that(2)])
    with that(1) show ?thesis by (auto simp: covered_def)
  qed
  show ?case
  proof (cases d)
    case None
    have w: "walk_entries fs sid prefix parent rest st1 = (Ok u, st')" using 2(4) v None by (simp add: walk_entries.simps(2))
    have "walked fs base st st1" using ext new1 ve None by (simp add: walked_def)
    moreover note ih = 2(1) [OF v [symmetric] refl None w dir rest]
    ultimately show ?thesis using walked_trans cov by (auto simp: walked_def [of _ _ st1])
  next
    case (Some t)
    obtain prefix' cp listing where t: "t = (prefix', cp, listing)" by (cases t)
    obtain st2 where w: "walk_entries fs sid prefix' cp listing st1 = (Ok (), st2)"
        "walk_entries fs sid prefix parent rest st2 = (Ok u, st')"
      using 2(4) v Some t by (auto simp: walk_entries.simps(2) split: sum.splits prod.splits)
    obtain inode name where i: "entry = Inr (name, Inr (Dir inode))" "ws_visited st1 = insert inode (ws_visited st)"
        "read_dir fs inode = Ok listing" "prefix' = prefix @ name @ ''/''"
      using visit_entry_descends v Some t by metis
    have at: "dir_at fs base prefix' inode" using dir_child [OF dir] 2(6) i by simp
    have "\<forall>name node. Inr (name, Inr node) \<in> set listing \<longrightarrow> child_of fs inode name node" using i(3) by (auto simp: child_of_def)
    note ih1 = 2(2) [OF v [symmetric] refl Some t [symmetric] refl w(1) at this]
    note ih2 = 2(3) [OF v [symmetric] refl Some t [symmetric] refl w(1) [symmetric] refl w(2) dir rest]
    have e2: "extends st1 st2" using ih1 by (simp add: walked_def)
    have "entered fs base st2 inode" unfolding entered_def using at i(3) ih1 by blast
    moreover have "ws_visited st2 - ws_visited st \<subseteq> insert inode (ws_visited st2 - ws_visited st1)" using i(2) by blast
    moreover have "set (ws_entries st2) - set (ws_entries st)
        \<subseteq> (set (ws_entries st2) - set (ws_entries st1)) \<union> (set (ws_entries st1) - set (ws_entries st))" by blast
    ultimately have "walked fs base st st2"
      using ih1 extends_trans [OF ext e2] new1 unfolding walked_def by blast
    moreover have "extends st1 st'" using e2 ih2 extends_trans by (auto simp: walked_def)
    ultimately show ?thesis using ih2 walked_trans cov by blast
  qed
qed


text \<open>A root with a file and a directory that contains itself.\<close>

definition cyclic_fs :: local_fs where
  "cyclic_fs = \<lparr>lf_is_dir = (\<lambda>_. Some 1),
     lf_dirs = [(1, Ok [Ok (''a'', Ok Regular), Ok (''d'', Ok (Dir 2)), Ok (''l'', Ok Symlink)]), (2, Ok [Ok (''me'', Ok (Dir 2))])]\<rparr>"

definition some_root :: sync_root_record where
  "some_root = \<lparr>sr_sync_id = SyncId 1, sr_local_path = ''/r'', sr_remote_path = [], sr_paused = False, sr_sync_type = Full\<rparr>"

lemma trim_Nil: "trim [] = []"
  by (simp add: trim_def trim_start_def trim_end_def trim_start_by.simps whitespace_encodings_def starts_with_def)

lemma cyclic_walk:
  "\<exists>entries s'. walk_local_tree cyclic_fs some_root store_empty = (Ok entries, s') \<and> map lse_path entries = [''a'', ''d'', ''d/me'']"
  by (simp add: walk_local_tree_def cyclic_fs_def some_root_def resolve_sync_root_remote_folder_id_def trim_Nil read_dir_def
      walk_entries.simps(2) visit_entry_def replace_backslash_def push_entry_def child_folder_def then_do_def
      get_by_parent_and_name_def binding_def sql_def store_empty_def fits_sqlite_def)


section \<open>Names with a backslash\<close>

text \<open>A file whose name holds a backslash is listed under the path of another file.\<close>

definition backslash_fs :: local_fs where
  "backslash_fs = \<lparr>lf_is_dir = (\<lambda>_. Some 1),
     lf_dirs = [(1, Ok [Ok ([CHR ''d'', CHR 0x5C, CHR ''a''], Ok Regular), Ok (''d'', Ok (Dir 2))]), (2, Ok [Ok (''a'', Ok Regular)])]\<rparr>"

lemma backslash_names_collide:
  "\<exists>entries s'. walk_local_tree backslash_fs some_root store_empty = (Ok entries, s') \<and> map lse_path entries = [''d/a'', ''d'', ''d/a'']"
  by (simp add: walk_local_tree_def backslash_fs_def some_root_def resolve_sync_root_remote_folder_id_def trim_Nil read_dir_def
      walk_entries.simps(2) visit_entry_def replace_backslash_def push_entry_def child_folder_def then_do_def
      get_by_parent_and_name_def binding_def sql_def store_empty_def fits_sqlite_def)

end
