(* ===== verification/Diff_Client.thy ===== *)
theory Diff_Client
  imports Auth_Api Ingest
begin

text \<open>
  The client of the server's \<open>diff\<close> stream: the request (\<open>pcloud-proto/src/methods/diff.rs\<close>),
  the two clients built on it (\<open>sync_api.rs\<close>, which the daemon uses, and \<open>diff_api.rs\<close> with the
  poller that keeps the cursor), and the conversion into the engine's batches
  (\<open>pcloud-backends/src/sync_backend.rs\<close>).

  Both clients have the same error type up to its name; here it is one, whose first constructor
  holds the failures of encoding, transport and shape.
\<close>

section \<open>Request and errors\<close>

record diff_request =
  dr_cursor :: u64
  dr_limit :: u64
  dr_auth_token :: string

definition diff_method :: "diff_request \<Rightarrow> protocol_method" where
  "diff_method rq =
     (''diff'', [p_string ''auth'' (dr_auth_token rq), p_string ''timeformat'' ''timestamp'',
        p_number ''limit'' (dr_limit rq), p_number ''diffid'' (dr_cursor rq)])"

datatype 'e diff_error = DiffCall "'e auth_api_error" | DiffResult u64 "string option"

abbreviation malformed :: "string \<Rightarrow> 'e diff_error" where
  "malformed m \<equiv> DiffCall (Malformed m)"

definition diff_expect_ok :: "(string \<times> wire_value) list \<Rightarrow> ('e diff_error, unit) result" where
  "diff_expect_ok hash =
     (if result_code hash = 0 then Ok () else Err (DiffResult (result_code hash) (get_string hash ''error'')))"

section \<open>The client of the sync backend\<close>

record diff_entry_metadata =
  dm_name :: string
  dm_is_folder :: bool
  dm_file_id :: "u64 option"
  dm_folder_id :: "u64 option"
  dm_parent_folder_id :: "u64 option"
  dm_deleted :: bool

record diff_entry =
  de_event :: "u64 option"
  de_metadata :: diff_entry_metadata

record diff_batch =
  db_diff_id :: u64
  db_has_more :: bool
  db_entries :: "diff_entry list"
  db_api_server :: "string option"

definition flag :: "(string \<times> wire_value) list \<Rightarrow> string \<Rightarrow> bool" where
  "flag hash key = (case get_bool hash key of Some b \<Rightarrow> b | None \<Rightarrow> False)"

definition parse_diff_entry :: "wire_value \<Rightarrow> ('e diff_error, diff_entry) result" where
  "parse_diff_entry value =
     (case as_hash value of
        None \<Rightarrow> Err (malformed ''diff entry was not a hash'')
      | Some hash \<Rightarrow>
          (case get_hash hash ''metadata'' of
             None \<Rightarrow> Err (malformed ''diff entry missing metadata'')
           | Some metadata \<Rightarrow>
               (case get_string metadata ''name'' of
                  None \<Rightarrow> Err (malformed ''diff metadata missing name'')
                | Some name \<Rightarrow>
                    Ok \<lparr>de_event = get_number hash ''event'',
                        de_metadata =
                          \<lparr>dm_name = name, dm_is_folder = flag metadata ''isfolder'',
                           dm_file_id = get_number metadata ''fileid'', dm_folder_id = get_number metadata ''folderid'',
                           dm_parent_folder_id = get_number metadata ''parentfolderid'',
                           dm_deleted = (flag hash ''deleted'' \<or> flag metadata ''deleted'')\<rparr>\<rparr>)))"

definition parse_diff_batch :: "(string \<times> wire_value) list \<Rightarrow> ('e diff_error, diff_batch) result" where
  "parse_diff_batch hash =
     (case diff_expect_ok hash of
        Inl e \<Rightarrow> Err e
      | Inr _ \<Rightarrow>
          (case get_array hash ''entries'' of
             None \<Rightarrow> Err (malformed ''diff response missing entries'')
           | Some values \<Rightarrow>
               (case collect_results parse_diff_entry values of
                  Inl e \<Rightarrow> Err e
                | Inr entries \<Rightarrow>
                    (case or_else (get_number hash ''diffid'') (get_number hash ''diffidfrom'') of
                       None \<Rightarrow> Err (malformed ''diff response missing diffid'')
                     | Some diff_id \<Rightarrow>
                         Ok \<lparr>db_diff_id = diff_id, db_has_more = flag hash ''hasmore'', db_entries = entries,
                             db_api_server = extract_api_server_hint hash\<rparr>))))"

definition sync_api_diff ::
  "('s, 'e) protocol_transport \<Rightarrow> string \<Rightarrow> u64 \<Rightarrow> u64 \<Rightarrow> 's \<Rightarrow> ('e diff_error, diff_batch) result \<times> 's" where
  "sync_api_diff T auth_token cursor limit s =
     (case call_hash T (diff_method \<lparr>dr_cursor = cursor, dr_limit = limit, dr_auth_token = auth_token\<rparr>)
             ''diff response was not a hash'' s of
        (Inl e, s') \<Rightarrow> (Err (DiffCall e), s')
      | (Inr hash, s') \<Rightarrow>
          (case parse_diff_batch hash of
             Inl e \<Rightarrow> (Err e, s')
           | Inr batch \<Rightarrow> (Ok batch, apply_hint T (db_api_server batch) s')))"

section \<open>The client with full metadata and its poller\<close>

record diff_file_metadata =
  fm_name :: string
  fm_is_folder :: bool
  fm_file_id :: "u64 option"
  fm_folder_id :: "u64 option"
  fm_parent_folder_id :: "u64 option"
  fm_deleted :: bool
  fm_size :: "u64 option"
  fm_hash :: "u64 option"
  fm_modified :: "u64 option"
  fm_created :: "u64 option"

record diff_file_entry =
  fe_event :: "u64 option"
  fe_metadata :: diff_file_metadata

record diff_response =
  dp_new_diff_id :: u64
  dp_reset :: bool
  dp_has_more :: bool
  dp_entries :: "diff_file_entry list"
  dp_api_server :: "string option"

definition parse_diff_file_entry :: "wire_value \<Rightarrow> ('e diff_error, diff_file_entry) result" where
  "parse_diff_file_entry value =
     (case as_hash value of
        None \<Rightarrow> Err (malformed ''diff entry was not a hash'')
      | Some hash \<Rightarrow>
          (case get_hash hash ''metadata'' of
             None \<Rightarrow> Err (malformed ''diff entry missing metadata'')
           | Some metadata \<Rightarrow>
               (case get_string metadata ''name'' of
                  None \<Rightarrow> Err (malformed ''diff metadata missing name'')
                | Some name \<Rightarrow>
                    Ok \<lparr>fe_event = get_number hash ''event'',
                        fe_metadata =
                          \<lparr>fm_name = name, fm_is_folder = flag metadata ''isfolder'',
                           fm_file_id = get_number metadata ''fileid'', fm_folder_id = get_number metadata ''folderid'',
                           fm_parent_folder_id = get_number metadata ''parentfolderid'',
                           fm_deleted = (flag hash ''deleted'' \<or> flag metadata ''deleted''),
                           fm_size = get_number metadata ''size'', fm_hash = get_number metadata ''hash'',
                           fm_modified = get_number metadata ''modified'', fm_created = get_number metadata ''created''\<rparr>\<rparr>)))"

definition parse_diff_response :: "u64 \<Rightarrow> (string \<times> wire_value) list \<Rightarrow> ('e diff_error, diff_response) result" where
  "parse_diff_response cursor hash =
     (case diff_expect_ok hash of
        Inl e \<Rightarrow> Err e
      | Inr _ \<Rightarrow>
          (case get_array hash ''entries'' of
             None \<Rightarrow> Err (malformed ''diff response missing entries'')
           | Some values \<Rightarrow>
               (case collect_results parse_diff_file_entry values of
                  Inl e \<Rightarrow> Err e
                | Inr entries \<Rightarrow>
                    (case or_else (get_number hash ''diffid'') (get_number hash ''diffidfrom'') of
                       None \<Rightarrow> Err (malformed ''diff response missing diffid'')
                     | Some new_diff_id \<Rightarrow>
                         Ok \<lparr>dp_new_diff_id = new_diff_id,
                             dp_reset = (flag hash ''reset'' \<or> (cursor > 0 \<and> new_diff_id = 0)),
                             dp_has_more = flag hash ''hasmore'', dp_entries = entries,
                             dp_api_server = extract_api_server_hint hash\<rparr>))))"

definition poll_diff ::
  "('s, 'e) protocol_transport \<Rightarrow> string \<Rightarrow> u64 \<Rightarrow> u64 \<Rightarrow> 's \<Rightarrow> ('e diff_error, diff_response) result \<times> 's" where
  "poll_diff T auth_token cursor limit s =
     (case call_hash T (diff_method \<lparr>dr_cursor = cursor, dr_limit = limit, dr_auth_token = auth_token\<rparr>)
             ''diff response was not a hash'' s of
        (Inl e, s') \<Rightarrow> (Err (DiffCall e), s')
      | (Inr hash, s') \<Rightarrow>
          (case parse_diff_response cursor hash of
             Inl e \<Rightarrow> (Err e, s')
           | Inr response \<Rightarrow> (Ok response, apply_hint T (dp_api_server response) s')))"

record diff_poller_state =
  dps_cursor :: u64

definition poller_new :: "u64 \<Rightarrow> diff_poller_state" where
  "poller_new initial_cursor = \<lparr>dps_cursor = initial_cursor\<rparr>"

definition poller_reset :: "diff_poller_state \<Rightarrow> diff_poller_state" where
  "poller_reset p = p\<lparr>dps_cursor := 0\<rparr>"

definition poll_once ::
  "('s, 'e) protocol_transport \<Rightarrow> string \<Rightarrow> u64 \<Rightarrow> diff_poller_state \<Rightarrow> 's
    \<Rightarrow> ('e diff_error, diff_response) result \<times> diff_poller_state \<times> 's" where
  "poll_once T auth_token limit p s =
     (case poll_diff T auth_token (dps_cursor p) limit s of
        (Inl e, s') \<Rightarrow> (Err e, p, s')
      | (Inr response, s') \<Rightarrow> (Ok response, p\<lparr>dps_cursor := dp_new_diff_id response\<rparr>, s'))"

record diff_response_entry =
  re_name :: string
  re_is_folder :: bool
  re_file_id :: "u64 option"
  re_folder_id :: "u64 option"
  re_parent_folder_id :: "u64 option"
  re_deleted :: bool
  re_size :: "u64 option"
  re_hash :: "u64 option"
  re_modified :: "u64 option"
  re_created :: "u64 option"
  re_event :: "u64 option"

record diff_response_batch =
  rb_sync_id :: u64
  rb_cursor :: u64
  rb_has_more :: bool
  rb_reset :: bool
  rb_entries :: "diff_response_entry list"

definition diff_response_to_batch :: "diff_response \<Rightarrow> u64 \<Rightarrow> diff_response_batch" where
  "diff_response_to_batch response sync_id =
     \<lparr>rb_sync_id = sync_id, rb_cursor = dp_new_diff_id response, rb_has_more = dp_has_more response,
      rb_reset = dp_reset response,
      rb_entries = map (\<lambda>e. let m = fe_metadata e in
        \<lparr>re_name = fm_name m, re_is_folder = fm_is_folder m, re_file_id = fm_file_id m,
         re_folder_id = fm_folder_id m, re_parent_folder_id = fm_parent_folder_id m, re_deleted = fm_deleted m,
         re_size = fm_size m, re_hash = fm_hash m, re_modified = fm_modified m, re_created = fm_created m,
         re_event = fe_event e\<rparr>) (dp_entries response)\<rparr>"

section \<open>Conversion for the engine\<close>

definition path_from_metadata :: "diff_entry_metadata \<Rightarrow> string" where
  "path_from_metadata metadata = dm_name metadata"

definition convert_diff_batch :: "diff_batch \<Rightarrow> remote_diff_batch" where
  "convert_diff_batch batch =
     \<lparr>rdb_sync_id = SyncId 1, rdb_cursor = db_diff_id batch, rdb_has_more = db_has_more batch,
      rdb_entries = map (\<lambda>entry.
        \<lparr>rde_path = path_from_metadata (de_metadata entry),
         rde_entry_kind = (if dm_is_folder (de_metadata entry) then Folder else File),
         rde_change_kind = (if dm_deleted (de_metadata entry) then Delete else Upsert),
         rde_remote_file_id = map_option RemoteFileId (dm_file_id (de_metadata entry)),
         rde_remote_folder_id = map_option RemoteFolderId (dm_folder_id (de_metadata entry)),
         rde_event = de_event entry\<rparr>) (db_entries batch)\<rparr>"

definition sync_runtime_diff ::
  "('s, 'e) protocol_transport \<Rightarrow> string \<Rightarrow> u64 \<Rightarrow> u64 \<Rightarrow> 's \<Rightarrow> ('e diff_error, remote_diff_batch) result \<times> 's" where
  "sync_runtime_diff T auth_token cursor limit s =
     (case sync_api_diff T auth_token cursor limit s of
        (Inl e, s') \<Rightarrow> (Err e, s') | (Inr batch, s') \<Rightarrow> (Ok (convert_diff_batch batch), s'))"

definition normalize_remote_path :: "string \<Rightarrow> string" where
  "normalize_remote_path path =
     (let trimmed = trim path in
      if trimmed = ''/'' then ''/''
      else
        let segments = filter (\<lambda>segment. segment \<noteq> []) (split_on CHR ''/'' trimmed) in
        if segments = [] then ''/'' else CHR ''/'' # join_with CHR ''/'' segments)"

section \<open>The two clients agree\<close>

definition forget_entry :: "diff_file_entry \<Rightarrow> diff_entry" where
  "forget_entry e = (let m = fe_metadata e in
     \<lparr>de_event = fe_event e,
      de_metadata = \<lparr>dm_name = fm_name m, dm_is_folder = fm_is_folder m, dm_file_id = fm_file_id m,
        dm_folder_id = fm_folder_id m, dm_parent_folder_id = fm_parent_folder_id m, dm_deleted = fm_deleted m\<rparr>\<rparr>)"

definition forget_response :: "diff_response \<Rightarrow> diff_batch" where
  "forget_response r =
     \<lparr>db_diff_id = dp_new_diff_id r, db_has_more = dp_has_more r, db_entries = map forget_entry (dp_entries r),
      db_api_server = dp_api_server r\<rparr>"

lemma collect_results_map_result:
  "collect_results (\<lambda>x. map_sum id g (f x)) xs = map_sum id (map g) (collect_results f xs)"
  by (induction xs) (auto split: sum.split)

lemma parse_diff_entry_forget: "parse_diff_entry = (\<lambda>v. map_sum id forget_entry (parse_diff_file_entry v))"
  by (auto simp: fun_eq_iff parse_diff_entry_def parse_diff_file_entry_def forget_entry_def split: option.split)

lemma parse_diff_batch_forget: "parse_diff_batch h = map_sum id forget_response (parse_diff_response c h)"
  by (auto simp: parse_diff_batch_def parse_diff_response_def forget_response_def parse_diff_entry_forget
      collect_results_map_result split: sum.split option.split)

text \<open>C11: the daemon's diff client and the client with full metadata are one function up to the fields the
  first one drops: on every transport and every response they fail alike, move the transport to the same
  state, and see the same entries, cursor and hint.\<close>

theorem diff_clients_agree:
  "sync_api_diff T auth cursor limit s = map_prod (map_sum id forget_response) id (poll_diff T auth cursor limit s)"
proof -
  let ?rq = "diff_method \<lparr>dr_cursor = cursor, dr_limit = limit, dr_auth_token = auth\<rparr>"
  obtain r s' where c: "call_hash T ?rq ''diff response was not a hash'' s = (r, s')" by (cases "call_hash T ?rq ''diff response was not a hash'' s")
  show ?thesis
  proof (cases r)
    case (Inr hash)
    then show ?thesis
      by (simp add: sync_api_diff_def poll_diff_def c parse_diff_batch_forget [of hash cursor] forget_response_def
          split: sum.split)
  qed (simp add: sync_api_diff_def poll_diff_def c)
qed

section \<open>The poller loses nothing\<close>

text \<open>The server's side of a stream: its event log, ascending by id, and what a successful poll answers:
  the oldest events after the cursor, at least one of them if there is any, and the id of the newest
  event sent, or the cursor itself.\<close>

definition after_cursor :: "(u64 \<times> diff_file_entry) list \<Rightarrow> u64 \<Rightarrow> (u64 \<times> diff_file_entry) list" where
  "after_cursor log cursor = filter (\<lambda>ev. cursor < fst ev) log"

definition serves_log :: "('s, 'e) protocol_transport \<Rightarrow> string \<Rightarrow> u64 \<Rightarrow> (u64 \<times> diff_file_entry) list \<Rightarrow> bool" where
  "serves_log T auth limit log \<longleftrightarrow> sorted_wrt (\<lambda>a b. fst a < fst b) log \<and>
     (\<forall>cursor s response. fst (poll_diff T auth cursor limit s) = Ok response \<longrightarrow>
       (\<exists>k. dp_entries response = map snd (take k (after_cursor log cursor))
          \<and> (after_cursor log cursor \<noteq> [] \<longrightarrow> 0 < k)
          \<and> dp_new_diff_id response = (if after_cursor log cursor = [] then cursor
               else fst (last (take k (after_cursor log cursor))))))"

text \<open>The driver of the poller: every batch received, over any number of polls, some of which fail.\<close>

fun poll_many ::
  "('s, 'e) protocol_transport \<Rightarrow> string \<Rightarrow> u64 \<Rightarrow> nat \<Rightarrow> diff_poller_state \<Rightarrow> 's
    \<Rightarrow> diff_file_entry list \<times> diff_poller_state \<times> 's" where
  "poll_many T auth limit 0 p s = ([], p, s)"
| "poll_many T auth limit (Suc n) p s =
     (case poll_once T auth limit p s of
        (r, p', s') \<Rightarrow>
          (case poll_many T auth limit n p' s' of
             (entries, p'', s'') \<Rightarrow> ((case r of Inl _ \<Rightarrow> [] | Inr response \<Rightarrow> dp_entries response) @ entries, p'', s'')))"

definition between :: "(u64 \<times> diff_file_entry) list \<Rightarrow> u64 \<Rightarrow> u64 \<Rightarrow> (u64 \<times> diff_file_entry) list" where
  "between log a b = filter (\<lambda>ev. a < fst ev \<and> fst ev \<le> b) log"

lemma between_append:
  assumes "sorted_wrt (\<lambda>a b. fst a < fst b) log" and "a \<le> b" "b \<le> c"
  shows "between log a c = between log a b @ between log b c"
  using assms(1)
proof (induction log)
  case (Cons x log)
  have "between log a b = []" if "b < fst x"
    using Cons.prems that by (auto simp: between_def filter_empty_conv)
  with Cons assms(2,3) show ?case by (force simp: between_def)
qed (simp add: between_def)

lemma below_last: "sorted_wrt (\<lambda>a b. fst a < fst b) xs \<Longrightarrow> x \<in> set xs \<Longrightarrow> fst x \<le> (fst (last xs) :: u64)"
  by (induction xs) (auto dest: less_imp_le)

lemma after_cursor_take:
  assumes "sorted_wrt (\<lambda>a b. fst a < fst b) log" and "after_cursor log c \<noteq> []" "0 < k"
  shows "take k (after_cursor log c) = between log c (fst (last (take k (after_cursor log c))))"
    and "c \<le> fst (last (take k (after_cursor log c)))"
proof -
  let ?A = "after_cursor log c" let ?b = "fst (last (take k ?A))"
  have s: "sorted_wrt (\<lambda>a b. fst a < fst b) ?A" unfolding after_cursor_def using assms(1) by (rule sorted_wrt_filter)
  have ne: "take k ?A \<noteq> []" using assms(2,3) by simp
  have "filter (\<lambda>ev. fst ev \<le> ?b) ?A = take k ?A"
  proof -
    have st: "sorted_wrt (\<lambda>a b. fst a < fst b) (take k ?A)" using s by (rule sorted_wrt_take)
    have "sorted_wrt (\<lambda>a b. fst a < fst b) (take k ?A @ drop k ?A)" using s by simp
    then have cross: "\<forall>x \<in> set (take k ?A). \<forall>y \<in> set (drop k ?A). fst x < fst y"
      unfolding sorted_wrt_append by blast
    have le: "\<forall>x \<in> set (take k ?A). fst x \<le> ?b" using below_last [OF st] by blast
    have gt: "\<forall>y \<in> set (drop k ?A). \<not> fst y \<le> ?b" using cross ne last_in_set by (meson leD)
    have "filter (\<lambda>ev. fst ev \<le> ?b) (take k ?A @ drop k ?A) = take k ?A"
      unfolding filter_append using le gt by (simp add: filter_id_conv filter_empty_conv)
    then show ?thesis by simp
  qed
  moreover have "filter (\<lambda>ev. fst ev \<le> b) ?A = between log c b" for b
    unfolding after_cursor_def between_def filter_filter ..
  ultimately show "take k ?A = between log c ?b" by metis
  have "last (take k ?A) \<in> set ?A" by (rule in_set_takeD [OF last_in_set [OF ne]])
  then show "c \<le> ?b" by (auto simp: after_cursor_def)
qed


text \<open>A server with one event, number 7, that answers only the request for the beginning.\<close>

definition request_at :: "u64 \<Rightarrow> protocol_method" where
  "request_at cursor = diff_method \<lparr>dr_cursor = cursor, dr_limit = 8, dr_auth_token = ''t''\<rparr>"

definition one_event_server :: "(unit, unit) protocol_transport" where
  "one_event_server =
     \<lparr>tp_execute = (\<lambda>rq s. if encode_method (request_at 0) = Ok rq
        then (Ok (VHash [(''entries'', VArray [VHash [(''metadata'', VHash [(''name'', VString ''a'')])]]), (''diffid'', VNumber 7)]), s)
        else (Err (), s)),
      tp_hint = (\<lambda>_ s. s), tp_display = (\<lambda>_. [])\<rparr>"

definition entry_a :: diff_file_entry where
  "entry_a = \<lparr>fe_event = None, fe_metadata = \<lparr>fm_name = ''a'', fm_is_folder = False, fm_file_id = None,
     fm_folder_id = None, fm_parent_folder_id = None, fm_deleted = False, fm_size = None, fm_hash = None,
     fm_modified = None, fm_created = None\<rparr>\<rparr>"

lemma request_at_encodes: "\<exists>r. encode_method (request_at c) = Ok r"
  by (simp add: encode_method_def request_at_def diff_method_def encode_request_def MAX_PARAM_NAME_LEN_def
      MAX_REQUEST_FRAME_LEN_def)

lemma request_at_inj: "encode_method (request_at c) = encode_method (request_at d) \<Longrightarrow> c = d"
proof -
  assume "encode_method (request_at c) = encode_method (request_at d)"
  then have "to_le_bytes c = to_le_bytes d"
    by (simp add: encode_method_def request_at_def diff_method_def encode_request_def MAX_PARAM_NAME_LEN_def
      MAX_REQUEST_FRAME_LEN_def encode_param_def)
  then have "from_le_bytes (to_le_bytes c) = (from_le_bytes (to_le_bytes d) :: u64)" by (simp only:)
  moreover have "from_le_bytes (to_le_bytes c) = c" "from_le_bytes (to_le_bytes d) = d" by (rule from_to_le_bytes, simp)+
  ultimately show "c = d" by simp
qed

lemma one_event_poll:
  "poll_diff one_event_server ''t'' c 8 s =
    (if c = 0 then Ok \<lparr>dp_new_diff_id = 7, dp_reset = False, dp_has_more = False, dp_entries = [entry_a], dp_api_server = None\<rparr>
     else Err (DiffCall (Transport ())), s)"
proof -
  obtain r where r: "encode_method (request_at c) = Ok r" using request_at_encodes by blast
  have "encode_method (request_at 0) = Ok r \<longleftrightarrow> c = 0" using r request_at_inj by metis
  with r show ?thesis
    by (auto simp: poll_diff_def call_hash_def call_def one_event_server_def request_at_def [symmetric] parse_diff_response_def
        diff_expect_ok_def result_code_def get_number_def hash_get_def get_array_def parse_diff_file_entry_def get_hash_def
        get_string_def flag_def get_bool_def or_else_def extract_api_server_hint_def entry_a_def apply_hint_def)
qed


end
