(* ===== verification/Sync_Runtime.thy ===== *)
theory Sync_Runtime
  imports Sync_Cycle Local_Walk Diff_Client Engine Supervision Cache
begin

text \<open>
  The real runtime of the sync loop, \<open>pcloud-daemon/src/sync_loop_runtime.rs\<close>: how a cycle's operations
  reach the engine, the store, the network and the file system.

  Everything outside the process is one state, \<open>'w\<close>, and a record of operations on it: clocks, the
  transport of the diff client, the local file tree, file watchers, the transfer backend (whose code
  is not modelled here), the JSON codec, the hash functions.  The texts of walk errors are left out.  The page cache is filled and never read
  by this component and is left out; the two staging areas are in.
\<close>

section \<open>State and surroundings\<close>

record download_link =
  lk_path :: string
  lk_hosts :: "string list"
  lk_download_tag :: string

record upload_session =
  us_upload_id :: u64
  us_parent_folder_id :: u64
  us_file_name :: string

record ('w, 'e) surroundings =
  sr_clock :: "'w \<Rightarrow> nat \<times> 'w"
  sr_unix_secs :: "'w \<Rightarrow> int \<times> 'w"
  sr_sql_time :: "'w \<Rightarrow> string \<times> 'w"
  sr_sync_api :: "('w, 'e) protocol_transport"
  sr_show_diff_error :: "'e diff_error \<Rightarrow> string"
  sr_show_sql_error :: "sql_error \<Rightarrow> string"
  sr_local_fs :: "'w \<Rightarrow> local_fs \<times> 'w"
  sr_start_watcher :: "sync_root_record \<Rightarrow> 'w \<Rightarrow> bool \<times> 'w"
  sr_stop_watcher :: "sync_id \<Rightarrow> 'w \<Rightarrow> 'w"
  sr_recv_events :: "sync_id \<Rightarrow> 'w \<Rightarrow> fs_event list \<times> 'w"
  sr_get_file_link :: "string \<Rightarrow> u64 \<Rightarrow> 'w \<Rightarrow> (string, download_link) result \<times> 'w"
  sr_download_to_path :: "download_link \<Rightarrow> string \<Rightarrow> 'w \<Rightarrow> (string, u64) result \<times> 'w"
  sr_read_file :: "string \<Rightarrow> 'w \<Rightarrow> (unit, byte list) result \<times> 'w"
  sr_remove_file :: "string \<Rightarrow> 'w \<Rightarrow> 'w"
  sr_upload_create :: "string \<Rightarrow> u64 \<Rightarrow> string \<Rightarrow> u64 \<Rightarrow> 'w \<Rightarrow> (string, upload_session) result \<times> 'w"
  sr_upload_bytes :: "string \<Rightarrow> upload_session \<Rightarrow> byte list \<Rightarrow> 'w \<Rightarrow> (string, unit) result \<times> 'w"
  sr_overflow_to_json :: "sync_candidate list \<Rightarrow> string"
  sr_overflow_from_json :: "string \<Rightarrow> sync_candidate list option"
  sr_queue_to_json :: "planned_operation list \<Rightarrow> string"
  sr_queue_from_json :: "string \<Rightarrow> planned_operation list option"
  sr_sha256 :: "byte list \<Rightarrow> byte list"
  sr_hmac_sha256 :: "byte list \<Rightarrow> byte list \<Rightarrow> byte list"

record 'w runtime =
  rr_auth_token :: "string option"
  rr_engine :: engine_shell
  rr_cache_staging :: staging_cache
  rr_fs_staging :: staging_cache
  rr_store :: store
  rr_watchers :: "sync_id set"
  rr_scan_tracker :: incremental_scan_tracker
  rr_config :: sync_loop_config
  rr_audit :: audit_repository
  rr_stall :: stall_detector
  rr_staging_dir :: string
  rr_world :: 'w

definition DOWNLOAD_INMEM_MIRROR_THRESHOLD :: u64 where
  "DOWNLOAD_INMEM_MIRROR_THRESHOLD = 4 * 1024 * 1024"

definition DEAD_LETTER_KEY :: string where
  "DEAD_LETTER_KEY = ''sync.planner.overflow''"

definition SCHEDULER_QUEUE_KEY :: string where
  "SCHEDULER_QUEUE_KEY = ''sync.scheduler.queue''"

definition on_store ::
  "(store \<Rightarrow> (sql_error, 'a) result \<times> store) \<Rightarrow> 'w runtime \<Rightarrow> (sql_error, 'a) result \<times> 'w runtime" where
  "on_store f r = (case f (rr_store r) of (x, s) \<Rightarrow> (x, r\<lparr>rr_store := s\<rparr>))"

definition on_world :: "('w \<Rightarrow> 'a \<times> 'w) \<Rightarrow> 'w runtime \<Rightarrow> 'a \<times> 'w runtime" where
  "on_world f r = (case f (rr_world r) of (x, w) \<Rightarrow> (x, r\<lparr>rr_world := w\<rparr>))"

section \<open>Durable copies\<close>

definition persist_planner_overflow :: "('w, 'e) surroundings \<Rightarrow> 'w runtime \<Rightarrow> 'w runtime" where
  "persist_planner_overflow S r =
     (let overflow = planner_overflow (rr_engine r) in
      if overflow = [] then snd (on_store (delete_value DEAD_LETTER_KEY) r)
      else snd (on_store (set_string DEAD_LETTER_KEY (sr_overflow_to_json S overflow)) r))"

definition persist_scheduler_queue :: "('w, 'e) surroundings \<Rightarrow> 'w runtime \<Rightarrow> 'w runtime" where
  "persist_scheduler_queue S r =
     (let snapshot = snapshot_scheduler_durable (rr_engine r) in
      if snapshot = [] then snd (on_store (delete_value SCHEDULER_QUEUE_KEY) r)
      else snd (on_store (set_string SCHEDULER_QUEUE_KEY (sr_queue_to_json S snapshot)) r))"

definition audit_default :: audit_repository where
  "audit_default = \<lparr>retained_event_count = 0, last_event_details = None, last_entry_hash = AUDIT_ZERO_PREV, hmac_key = None\<rparr>"

definition load_audit :: "store \<Rightarrow> (sql_error, audit_repository) result \<times> store" where
  "load_audit = sql (sql (sql (\<lambda>s. (Ok (audit_load (st_audit s)), s))))"

definition open_store :: "store \<Rightarrow> (sql_error, unit) result \<times> store" where
  "open_store = sql (sql (sql (sql (sql (\<lambda>s. (Ok (), s\<lparr>st_synchronous := 1\<rparr>))))))"

definition restore_paused :: "sync_root_record list \<Rightarrow> engine_shell \<Rightarrow> engine_shell" where
  "restore_paused roots e = fold (\<lambda>root e. if sr_paused root then fst (pause_sync_root e (sr_sync_id root)) else e) roots e"

text \<open>Read a stored list, hand it to the engine if it is not empty, discard it if it is corrupt.\<close>

definition restore_list ::
  "string \<Rightarrow> (string \<Rightarrow> 'a list option) \<Rightarrow> (engine_shell \<Rightarrow> 'a list \<Rightarrow> engine_shell) \<Rightarrow> engine_shell \<Rightarrow> store \<Rightarrow> engine_shell \<times> store" where
  "restore_list key parse install e s =
     (case get_string_value key s of
        (Inr (Some raw), s1) \<Rightarrow>
          (case parse raw of
             Some xs \<Rightarrow> ((if xs \<noteq> [] then install e xs else e), s1)
           | None \<Rightarrow> (e, snd (delete_value key s1)))
      | (_, s1) \<Rightarrow> (e, s1))"

definition runtime_new ::
  "('w, 'e) surroundings \<Rightarrow> string option \<Rightarrow> sync_loop_config \<Rightarrow> string \<Rightarrow> store \<Rightarrow> 'w \<Rightarrow> (sql_error, 'w runtime) result \<times> store" where
  "runtime_new S auth_token config staging_dir s0 w0 =
     then_do (open_store s0) (\<lambda>_ s.
       let (a, s1) = load_audit s;
           audit = (case a of Inr repo \<Rightarrow> repo | Inl _ \<Rightarrow> audit_default);
           (g, s2) = graph_load s1;
           e1 = (case g of Inr roots \<Rightarrow> restore_paused roots engine_new | Inl _ \<Rightarrow> engine_new);
           (e2, s3) = restore_list DEAD_LETTER_KEY (sr_overflow_from_json S) restore_planner_overflow e1 s2;
           (e3, s4) = restore_list SCHEDULER_QUEUE_KEY (sr_queue_from_json S) restore_scheduler_queue e2 s3;
           (now, w1) = sr_clock S w0
       in (Ok \<lparr>rr_auth_token = auth_token, rr_engine = e3, rr_cache_staging = staging_default, rr_fs_staging = staging_default,
             rr_store = s4, rr_watchers = {},
             rr_scan_tracker = scan_tracker_new (unat (slc_full_scan_interval_secs config) * 1000),
             rr_config = config, rr_audit = audit, rr_stall = stall_detector_new now 120000, rr_staging_dir = staging_dir,
             rr_world = w1\<rparr>, s4))"

section \<open>Watchers\<close>

definition remove_watcher :: "('w, 'e) surroundings \<Rightarrow> sync_id \<Rightarrow> 'w runtime \<Rightarrow> 'w runtime" where
  "remove_watcher S sid r =
     r\<lparr>rr_watchers := rr_watchers r - {sid}, rr_scan_tracker := untrack (rr_scan_tracker r) sid,
       rr_world := (if sid \<in> rr_watchers r then sr_stop_watcher S sid (rr_world r) else rr_world r)\<rparr>"

definition drain_engine_watcher_evictions :: "('w, 'e) surroundings \<Rightarrow> 'w runtime \<Rightarrow> 'w runtime" where
  "drain_engine_watcher_evictions S r =
     (case drain_watcher_evictions (rr_engine r) of
        (e, pending) \<Rightarrow>
          fold (\<lambda>sid r. if sid \<in> rr_watchers r then remove_watcher S sid r else r) pending (r\<lparr>rr_engine := e\<rparr>))"

definition ensure_watcher :: "('w, 'e) surroundings \<Rightarrow> sync_root_record \<Rightarrow> 'w runtime \<Rightarrow> 'w runtime" where
  "ensure_watcher S root r =
     (if sr_sync_id root \<in> rr_watchers r then r
      else (case on_world (sr_start_watcher S root) r of
        (started, r1) \<Rightarrow> if started then r1\<lparr>rr_watchers := insert (sr_sync_id root) (rr_watchers r1)\<rparr> else r1))"

definition drain_watcher_events :: "('w, 'e) surroundings \<Rightarrow> sync_id \<Rightarrow> 'w runtime \<Rightarrow> 'w runtime" where
  "drain_watcher_events S sid r =
     (if sid \<in> rr_watchers r then
        (case on_world (sr_recv_events S sid) r of
           (events, r1) \<Rightarrow> r1\<lparr>rr_scan_tracker := foldl push_event (rr_scan_tracker r1) events\<rparr>)
      else r)"

section \<open>Remote changes\<close>

fun delete_entries :: "remote_diff_entry list \<Rightarrow> store \<Rightarrow> (sql_error, unit) result \<times> store" where
  "delete_entries [] s = (Ok (), s)"
| "delete_entries (entry # entries) s =
     (if rde_change_kind entry \<noteq> Delete then delete_entries entries s
      else
        (case (if rde_entry_kind entry = Folder then map_option remote_folder_id_get (rde_remote_folder_id entry)
               else map_option remote_file_id_get (rde_remote_file_id entry)) of
           Some file_id \<Rightarrow> then_do (metadata_delete file_id s) (\<lambda>_. delete_entries entries)
         | None \<Rightarrow> delete_entries entries s))"

definition commit_diff_batch ::
  "sync_id \<Rightarrow> u64 \<Rightarrow> remote_diff_batch \<Rightarrow> int \<Rightarrow> store \<Rightarrow> (sql_error, unit) result \<times> store" where
  "commit_diff_batch sid previous_cursor batch now_unix s =
     then_do (sql (\<lambda>s. (Ok (st_synchronous s), s)) s) (\<lambda>old_code s.
       let old = (if old_code \<in> {0, 1, 2, 3} then old_code else 1) in
       then_do (sql (\<lambda>s. (Ok (), s\<lparr>st_synchronous := 2\<rparr>)) s) (\<lambda>_ s.
         case transaction (\<lambda>s. then_do (delete_entries (rdb_entries batch) s) (\<lambda>_ s.
                if rdb_cursor batch > previous_cursor then diff_save sid (rdb_cursor batch) now_unix s else (Ok (), s))) s of
           (res, s) \<Rightarrow> (res, snd (sql (\<lambda>s. (Ok (), s\<lparr>st_synchronous := old\<rparr>)) s))))"

definition root_policy :: "'w runtime \<Rightarrow> sync_root_record \<Rightarrow> delete_policy" where
  "root_policy r root = for_sync_type (sr_sync_type root) (slc_propagate_deletes (rr_config r))"

definition stored_cursor :: "diff_state_record option \<Rightarrow> u64" where
  "stored_cursor d = (case d of Some rec \<Rightarrow> dsr_diffid rec | None \<Rightarrow> 0)"

definition poll_remote_diff ::
  "('w, 'e) surroundings \<Rightarrow> sync_root_record \<Rightarrow> string \<Rightarrow> 'w runtime \<Rightarrow> (string, nat) result \<times> 'w runtime" where
  "poll_remote_diff S root auth_token r =
     (case on_store (diff_load (sr_sync_id root)) r of
        (Inl e, r1) \<Rightarrow> (Err (sr_show_sql_error S e), r1)
      | (Inr stored, r1) \<Rightarrow>
          let cursor = stored_cursor stored in
          (case on_world (sync_runtime_diff (sr_sync_api S) auth_token cursor (batch_limit (eng_diff_poller (rr_engine r1)))) r1 of
             (Inl e, r2) \<Rightarrow> (Err (sr_show_diff_error S e), r2)
           | (Inr batch, r2) \<Rightarrow>
               (case ingest_remote_diff_filtered (rr_engine r2) batch (root_policy r2 root) of
                  Inl (DiffInvalidPath p) \<Rightarrow> (Err (''InvalidPath '' @ p), r2)
                | Inr engine \<Rightarrow>
                    let op_count = length (queued_operations (eng_scheduler engine));
                        r3 = persist_planner_overflow S (r2\<lparr>rr_engine := engine\<rparr>);
                        (now_unix, r4) = (if rdb_cursor batch > cursor then on_world (sr_unix_secs S) r3 else (0, r3))
                    in (case on_store (commit_diff_batch (sr_sync_id root) cursor batch now_unix) r4 of
                          (Inl e, r5) \<Rightarrow> (Err (sr_show_sql_error S e), r5)
                        | (Inr _, r5) \<Rightarrow> (Ok op_count, r5)))))"

section \<open>Local changes\<close>

definition fs_events_to_local_scan_entries :: "fs_event list \<Rightarrow> local_scan_entry list" where
  "fs_events_to_local_scan_entries events =
     map (\<lambda>event. \<lparr>lse_sync_id = fse_sync_id event, lse_path = fse_path event, lse_entry_kind = fse_entry_kind event,
        lse_deleted = (fse_kind event = Remove), lse_remote_parent_folder_id = None\<rparr>) events"

definition ingest_scan ::
  "('w, 'e) surroundings \<Rightarrow> sync_root_record \<Rightarrow> local_scan_entry list \<Rightarrow> 'w runtime \<Rightarrow> (string, nat) result \<times> 'w runtime" where
  "ingest_scan S root entries r =
     (case ingest_local_scan_with_delete_policy (rr_engine r) entries (root_policy r root) of
        Inl (ScanInvalidPath p) \<Rightarrow> (Err (''InvalidPath '' @ p), r)
      | Inr engine \<Rightarrow>
          (Ok (length (queued_operations (eng_scheduler engine))),
           persist_scheduler_queue S (persist_planner_overflow S (r\<lparr>rr_engine := engine\<rparr>))))"

definition run_local_scan ::
  "('w, 'e) surroundings \<Rightarrow> sync_root_record \<Rightarrow> 'w runtime \<Rightarrow> (string, nat) result \<times> 'w runtime" where
  "run_local_scan S root r0 =
     (let r1 = drain_watcher_events S (sr_sync_id root) (ensure_watcher S root r0);
          (now, r2) = on_world (sr_clock S) r1;
          (tracker, decision) = decide now (rr_scan_tracker r2) (sr_sync_id root);
          r3 = r2\<lparr>rr_scan_tracker := tracker\<rparr>
      in case decision of
           FullScan \<Rightarrow>
             let (fs, r4) = on_world (sr_local_fs S) r3 in
             (case walk_local_tree fs root (rr_store r4) of
                (Inl _, s) \<Rightarrow> (Err ''walk failed'', r4\<lparr>rr_store := s\<rparr>)
              | (Inr entries, s) \<Rightarrow>
                  let (scanned, r5) = on_world (sr_clock S) (r4\<lparr>rr_store := s\<rparr>) in
                  ingest_scan S root entries
                    (r5\<lparr>rr_scan_tracker := record_full_scan scanned (rr_scan_tracker r5) (sr_sync_id root)\<rparr>))
         | IncrementalOnly pending \<Rightarrow>
             if pending = [] then (Ok 0, r3)
             else ingest_scan S root (fs_events_to_local_scan_entries pending) r3)"

section \<open>Transfers\<close>

definition progress :: "('w, 'e) surroundings \<Rightarrow> 'w runtime \<Rightarrow> 'w runtime" where
  "progress S r = (case on_world (sr_clock S) r of (now, r1) \<Rightarrow> r1\<lparr>rr_stall := mark_progress now (rr_stall r1)\<rparr>)"

text \<open>\<open>check_stall\<close> only logs; it reads the clock.\<close>

definition advance_transfers :: "('w, 'e) surroundings \<Rightarrow> 'w runtime \<Rightarrow> nat \<times> 'w runtime" where
  "advance_transfers S r =
     (case advance_transfer_cycle (rr_engine r) of
        (engine, batch) \<Rightarrow>
          let r1 = r\<lparr>rr_engine := engine\<rparr> in
          if batch \<noteq> [] then (length batch, progress S (persist_scheduler_queue S r1))
          else (0, snd (on_world (sr_clock S) r1)))"

fun disposition_debug :: "failure_disposition \<Rightarrow> string" where
  "disposition_debug RetryNow = ''RetryNow''"
| "disposition_debug RetryLater = ''RetryLater''"
| "disposition_debug ManualIntervention = ''ManualIntervention''"
| "disposition_debug Terminal = ''Terminal''"

definition fail_transfer :: "planned_operation \<Rightarrow> string \<Rightarrow> recovery_failure \<Rightarrow> string \<Rightarrow> 'w runtime \<Rightarrow> 'w runtime" where
  "fail_transfer operation path failure err r =
     (let decision = engine_classify_failure (rr_engine r) operation failure;
          message = err @ ''; recovery='' @ disposition_debug (dec_disposition decision)
      in r\<lparr>rr_engine := fst (mark_transfer_failed (rr_engine r) path message)\<rparr>)"

definition forget_progress :: "string \<Rightarrow> 'w runtime \<Rightarrow> 'w runtime" where
  "forget_progress path r = r\<lparr>rr_stall := forget_transfer (rr_stall r) path\<rparr>"

definition staged_download_path :: "('w, 'e) surroundings \<Rightarrow> string \<Rightarrow> u64 \<Rightarrow> string \<Rightarrow> string" where
  "staged_download_path S staging_dir file_id path =
     staging_dir @ ''/f'' @ show_nat (unat file_id) @ ''-'' @ hex_lower (take 8 (sr_sha256 S (as_bytes path))) @ ''.part''"

text \<open>Report a finished transfer; only a report that finds its task counts and acknowledges.\<close>

definition complete_transfer :: "('w, 'e) surroundings \<Rightarrow> planned_operation \<Rightarrow> string \<Rightarrow> 'w runtime \<Rightarrow> bool \<times> 'w runtime" where
  "complete_transfer S operation path r =
     (case mark_transfer_completed (rr_engine r) path of
        (engine, True) \<Rightarrow> (True, progress S (r\<lparr>rr_engine := ack_dispatched_path engine (op_sync_id operation) path\<rparr>))
      | (engine, False) \<Rightarrow> (False, r\<lparr>rr_engine := engine\<rparr>))"

definition mirror_download :: "('w, 'e) surroundings \<Rightarrow> string \<Rightarrow> string \<Rightarrow> u64 \<Rightarrow> 'w runtime \<Rightarrow> 'w runtime" where
  "mirror_download S path staged_path written r =
     (if written < DOWNLOAD_INMEM_MIRROR_THRESHOLD then
        (case on_world (sr_read_file S staged_path) r of
           (Inr bytes, r1) \<Rightarrow> r1\<lparr>rr_cache_staging := stage (rr_cache_staging r1) path bytes,
                                rr_fs_staging := stage (rr_fs_staging r1) path bytes\<rparr>
         | (Inl _, r1) \<Rightarrow> r1)
      else r)"

definition download_file ::
  "('w, 'e) surroundings \<Rightarrow> string \<Rightarrow> planned_operation \<Rightarrow> string \<Rightarrow> u64 \<Rightarrow> 'w runtime \<Rightarrow> bool \<times> 'w runtime" where
  "download_file S auth_token operation path file_id r =
     (case on_world (sr_get_file_link S auth_token file_id) r of
        (Inl err, r1) \<Rightarrow> (False, fail_transfer operation path RetryableNetworkError err r1)
      | (Inr link, r1) \<Rightarrow>
          let staged_path = staged_download_path S (rr_staging_dir r1) file_id path in
          (case on_world (sr_download_to_path S link staged_path) r1 of
             (Inl err, r2) \<Rightarrow>
               let r3 = forget_progress path r2; r4 = r3\<lparr>rr_world := sr_remove_file S staged_path (rr_world r3)\<rparr>
               in (False, fail_transfer operation path RetryableNetworkError err r4)
           | (Inr written, r2) \<Rightarrow>
               let r3 = mirror_download S path staged_path written r2;
                   (now, r4) = on_world (sr_clock S) r3;
                   r5 = r4\<lparr>rr_stall := observe_bytes now (rr_stall r4) path written\<rparr>
               in (case complete_transfer S operation path r5 of
                     (True, r6) \<Rightarrow> (True, forget_progress path r6)
                   | (False, r6) \<Rightarrow> (False, r6))))"

fun download_tasks :: "('w, 'e) surroundings \<Rightarrow> string \<Rightarrow> transfer_task list \<Rightarrow> nat \<Rightarrow> 'w runtime \<Rightarrow> nat \<times> 'w runtime" where
  "download_tasks S auth_token [] completed r = (completed, r)"
| "download_tasks S auth_token (task # tasks) completed r =
     (let r1 = progress S r in
      case task_operation task of
        DownloadFile sid path (Some file_id) \<Rightarrow>
          (case download_file S auth_token (task_operation task) path (remote_file_id_get file_id) r1 of
             (ok, r2) \<Rightarrow> download_tasks S auth_token tasks (if ok then completed + 1 else completed) r2)
      | _ \<Rightarrow> download_tasks S auth_token tasks completed r1)"

definition execute_downloads :: "('w, 'e) surroundings \<Rightarrow> string \<Rightarrow> 'w runtime \<Rightarrow> (string, nat) result \<times> 'w runtime" where
  "execute_downloads S auth_token r =
     (case download_tasks S auth_token (active_downloads (eng_downloads (rr_engine r))) 0 r of (n, r1) \<Rightarrow> (Ok n, r1))"

definition resolve_upload_parent :: "string \<Rightarrow> remote_folder_id option \<Rightarrow> (recovery_failure, u64) result" where
  "resolve_upload_parent path remote_parent =
     (let parent = (case rsplit_once CHR ''/'' path of Some (parent, _) \<Rightarrow> parent | None \<Rightarrow> []) in
      if parent = [] then Ok 0
      else (case remote_parent of Some i \<Rightarrow> Ok (remote_folder_id_get i) | None \<Rightarrow> Err RetryableNetworkError))"

definition borrow_upload_payload :: "'w runtime \<Rightarrow> string \<Rightarrow> byte list option" where
  "borrow_upload_payload r path =
     (case staging_get (rr_fs_staging r) path of Some bytes \<Rightarrow> Some bytes | None \<Rightarrow> staging_get (rr_cache_staging r) path)"

definition resolve_upload_payload_len :: "'w runtime \<Rightarrow> string \<Rightarrow> nat option" where
  "resolve_upload_payload_len r path =
     (case map_option length (staging_get (rr_fs_staging r) path) of
        Some len \<Rightarrow> Some len
      | None \<Rightarrow> map_option length (staging_get (rr_cache_staging r) path))"

definition upload_file ::
  "('w, 'e) surroundings \<Rightarrow> string \<Rightarrow> planned_operation \<Rightarrow> string \<Rightarrow> remote_folder_id option \<Rightarrow> string \<Rightarrow> 'w runtime \<Rightarrow> bool \<times> 'w runtime" where
  "upload_file S auth_token operation path remote_parent remote_name r =
     (case resolve_upload_parent path remote_parent of
        Inl failure \<Rightarrow> (False, fail_transfer operation path failure ''missing upload destination metadata'' r)
      | Inr parent_folder_id \<Rightarrow>
          (case resolve_upload_payload_len r path of
             None \<Rightarrow> (False, fail_transfer operation path InvalidPath ''missing staged upload payload'' r)
           | Some payload_len \<Rightarrow>
               (case on_world (sr_upload_create S auth_token parent_folder_id remote_name (of_nat payload_len)) r of
                  (Inl err, r1) \<Rightarrow> (False, fail_transfer operation path RetryableNetworkError err r1)
                | (Inr session, r1) \<Rightarrow>
                    (case borrow_upload_payload r1 path of
                       None \<Rightarrow> (False, fail_transfer operation path InvalidPath ''staged upload payload evicted mid-upload'' r1)
                     | Some bytes \<Rightarrow>
                         (case on_world (sr_upload_bytes S auth_token session bytes) r1 of
                            (Inl err, r2) \<Rightarrow> (False, fail_transfer operation path RetryableNetworkError err r2)
                          | (Inr _, r2) \<Rightarrow> complete_transfer S operation path r2)))))"

fun upload_tasks :: "('w, 'e) surroundings \<Rightarrow> string \<Rightarrow> transfer_task list \<Rightarrow> nat \<Rightarrow> 'w runtime \<Rightarrow> nat \<times> 'w runtime" where
  "upload_tasks S auth_token [] completed r = (completed, r)"
| "upload_tasks S auth_token (task # tasks) completed r =
     (let r1 = progress S r in
      case task_operation task of
        UploadFile sid path remote_parent remote_name \<Rightarrow>
          (case upload_file S auth_token (task_operation task) path remote_parent remote_name r1 of
             (ok, r2) \<Rightarrow> upload_tasks S auth_token tasks (if ok then completed + 1 else completed) r2)
      | _ \<Rightarrow> upload_tasks S auth_token tasks completed r1)"

definition execute_uploads :: "('w, 'e) surroundings \<Rightarrow> string \<Rightarrow> 'w runtime \<Rightarrow> (string, nat) result \<times> 'w runtime" where
  "execute_uploads S auth_token r =
     (case upload_tasks S auth_token (active_uploads (eng_uploads (rr_engine r))) 0 r of (n, r1) \<Rightarrow> (Ok n, r1))"

section \<open>Eviction and audit\<close>

definition evict_removed_root :: "('w, 'e) surroundings \<Rightarrow> sync_id \<Rightarrow> 'w runtime \<Rightarrow> 'w runtime" where
  "evict_removed_root S sid r =
     (let r1 = remove_watcher S sid r;
          r2 = r1\<lparr>rr_engine := evict_sync_root (rr_engine r1) sid\<rparr>
      in persist_scheduler_queue S (drain_engine_watcher_evictions S r2))"

text \<open>The statements of one append, in a transaction of their own.\<close>

definition append_cycle_event ::
  "('w, 'e) surroundings \<Rightarrow> string \<Rightarrow> string \<Rightarrow> audit_repository \<Rightarrow> store \<Rightarrow> (sql_error, audit_repository) result \<times> store" where
  "append_cycle_event S created_at details repo =
     transaction (sql (sql (sql (sql (\<lambda>s.
       (case append_event (sr_sha256 S) (sr_hmac_sha256 S) created_at False ''sync.loop.cycle'' (Some details) repo (st_audit s) of
          (Inl _, _, _) \<Rightarrow> (Err SqlFault, s)
        | (Inr _, repo', t) \<Rightarrow> (Ok repo', s\<lparr>st_audit := t\<rparr>)))))))"

definition cycle_details :: "cycle_result \<Rightarrow> string" where
  "cycle_details result =
     ''roots='' @ show_nat (cy_roots_processed result) @ '', uploads='' @ show_nat (cy_total_uploads result)
     @ '', downloads='' @ show_nat (cy_total_downloads result) @ '', conflicts='' @ show_nat (cy_total_conflicts result)
     @ '', errors='' @ show_nat (cy_total_errors result) @ '', duration_ms='' @ show_nat (cy_duration result)"

definition emit_cycle_audit :: "('w, 'e) surroundings \<Rightarrow> u64 \<Rightarrow> cycle_result \<Rightarrow> 'w runtime \<Rightarrow> (string, unit) result \<times> 'w runtime" where
  "emit_cycle_audit S root_id result r =
     (if cy_total_errors result = 0 \<and> cy_total_uploads result = 0 \<and> cy_total_downloads result = 0 then (Ok (), r)
      else
        let details = cycle_details result; (created_at, r1) = on_world (sr_sql_time S) r in
        (case on_store (append_cycle_event S created_at details (rr_audit r1)) r1 of
           (Inl err, r2) \<Rightarrow> (Err (''audit-chain write failed: '' @ sr_show_sql_error S err @ ''; details='' @ details), r2)
         | (Inr repo, r2) \<Rightarrow> (Ok (), r2\<lparr>rr_audit := repo\<rparr>)))"

section \<open>The runtime of the loop\<close>

definition list_sync_roots :: "'w runtime \<Rightarrow> sync_root_record list \<times> 'w runtime" where
  "list_sync_roots r =
     (case on_store graph_load r of (Inl _, r1) \<Rightarrow> ([], r1) | (Inr roots, r1) \<Rightarrow> (roots, r1))"

definition real_runtime :: "('w, 'e) surroundings \<Rightarrow> 'w runtime sync_loop_runtime" where
  "real_runtime S =
     \<lparr>rt_auth_token = rr_auth_token, rt_list_sync_roots = list_sync_roots,
      rt_is_sync_root_paused = (\<lambda>root r. is_sync_root_paused (rr_engine r) (sr_sync_id root)),
      rt_poll_remote_diff = poll_remote_diff S, rt_run_local_scan = run_local_scan S,
      rt_advance_transfers = advance_transfers S, rt_execute_downloads = execute_downloads S,
      rt_execute_uploads = execute_uploads S,
      rt_conflict_count = (\<lambda>r. unresolved_conflict_count (rr_engine r)),
      rt_pending_upload_count = (\<lambda>r. ul_active_count (eng_uploads (rr_engine r))),
      rt_pending_download_count = (\<lambda>r. dl_active_count (eng_downloads (rr_engine r))),
      rt_evict_removed_root = evict_removed_root S, rt_emit_cycle_audit = emit_cycle_audit S\<rparr>"

section \<open>What the helpers leave alone\<close>

lemma on_frame [simp]:
  "rr_engine (snd (on_store f r)) = rr_engine r" "rr_engine (snd (on_world g r)) = rr_engine r"
  "rr_cache_staging (snd (on_store f r)) = rr_cache_staging r" "rr_cache_staging (snd (on_world g r)) = rr_cache_staging r"
  "rr_fs_staging (snd (on_store f r)) = rr_fs_staging r" "rr_fs_staging (snd (on_world g r)) = rr_fs_staging r"
  by (auto simp: on_store_def on_world_def split: prod.split)

lemma helper_frame [simp]:
  "rr_engine (persist_planner_overflow S r) = rr_engine r" "rr_engine (persist_scheduler_queue S r) = rr_engine r"
  "rr_engine (progress S r) = rr_engine r" "rr_engine (forget_progress p r) = rr_engine r"
  "rr_engine (remove_watcher S sid r) = rr_engine r"
  "rr_engine (ensure_watcher S root r) = rr_engine r" "rr_engine (drain_watcher_events S sid r) = rr_engine r"
  "rr_cache_staging (persist_planner_overflow S r) = rr_cache_staging r" "rr_cache_staging (persist_scheduler_queue S r) = rr_cache_staging r"
  "rr_cache_staging (progress S r) = rr_cache_staging r" "rr_cache_staging (forget_progress p r) = rr_cache_staging r"
  "rr_cache_staging (remove_watcher S sid r) = rr_cache_staging r"
  "rr_cache_staging (ensure_watcher S root r) = rr_cache_staging r" "rr_cache_staging (drain_watcher_events S sid r) = rr_cache_staging r"
  "rr_fs_staging (persist_planner_overflow S r) = rr_fs_staging r" "rr_fs_staging (persist_scheduler_queue S r) = rr_fs_staging r"
  "rr_fs_staging (progress S r) = rr_fs_staging r" "rr_fs_staging (forget_progress p r) = rr_fs_staging r"
  "rr_fs_staging (remove_watcher S sid r) = rr_fs_staging r"
  "rr_fs_staging (ensure_watcher S root r) = rr_fs_staging r" "rr_fs_staging (drain_watcher_events S sid r) = rr_fs_staging r"
  by (auto simp: on_store_def on_world_def persist_planner_overflow_def persist_scheduler_queue_def Let_def progress_def
      forget_progress_def remove_watcher_def ensure_watcher_def drain_watcher_events_def split: prod.split)

section \<open>The invariant of the runtime\<close>

text \<open>The engine's invariant, and: what is staged comes from \<open>B\<close>.\<close>

definition staged_in :: "byte list set \<Rightarrow> staging_cache \<Rightarrow> bool" where
  "staged_in B c \<longleftrightarrow> (\<forall>path bytes. staging_get c path = Some bytes \<longrightarrow> bytes \<in> B)"

definition runtime_inv :: "byte list set \<Rightarrow> 'w runtime \<Rightarrow> bool" where
  "runtime_inv B r \<longleftrightarrow> engine_inv (rr_engine r) \<and> staged_in B (rr_cache_staging r) \<and> staged_in B (rr_fs_staging r)"

lemma runtime_inv_cong:
  "rr_engine a = rr_engine b \<Longrightarrow> rr_cache_staging a = rr_cache_staging b \<Longrightarrow> rr_fs_staging a = rr_fs_staging b
    \<Longrightarrow> runtime_inv B a \<longleftrightarrow> runtime_inv B b"
  by (simp add: runtime_inv_def)

lemma inv_frame [simp]:
  "runtime_inv B (snd (on_store f r)) = runtime_inv B r" "runtime_inv B (snd (on_world g r)) = runtime_inv B r"
  "runtime_inv B (persist_planner_overflow S r) = runtime_inv B r" "runtime_inv B (persist_scheduler_queue S r) = runtime_inv B r"
  "runtime_inv B (progress S r) = runtime_inv B r" "runtime_inv B (forget_progress p r) = runtime_inv B r"
  "runtime_inv B (remove_watcher S sid r) = runtime_inv B r" "runtime_inv B (ensure_watcher S root r) = runtime_inv B r"
  "runtime_inv B (drain_watcher_events S sid r) = runtime_inv B r"
  "runtime_inv B (r\<lparr>rr_world := w\<rparr>) = runtime_inv B r" "runtime_inv B (r\<lparr>rr_store := s\<rparr>) = runtime_inv B r"
  "runtime_inv B (r\<lparr>rr_stall := d\<rparr>) = runtime_inv B r" "runtime_inv B (r\<lparr>rr_scan_tracker := t\<rparr>) = runtime_inv B r"
  "runtime_inv B (r\<lparr>rr_audit := a\<rparr>) = runtime_inv B r"
  by (rule runtime_inv_cong; simp)+

lemma inv_on_store: "on_store f r = (x, r') \<Longrightarrow> runtime_inv B r' = runtime_inv B r"
  by (metis inv_frame(1) snd_conv)

lemma inv_on_world: "on_world f r = (x, r') \<Longrightarrow> runtime_inv B r' = runtime_inv B r"
  by (metis inv_frame(2) snd_conv)

lemma inv_engine: "runtime_inv B r \<Longrightarrow> engine_inv e \<Longrightarrow> runtime_inv B (r\<lparr>rr_engine := e\<rparr>)"
  by (simp add: runtime_inv_def)

lemma inv_engine_inv: "runtime_inv B r \<Longrightarrow> engine_inv (rr_engine r)"
  by (simp add: runtime_inv_def)

lemma poll_inv:
  assumes "runtime_inv B r"
  shows "runtime_inv B (snd (poll_remote_diff S root tok r))"
proof -
  obtain d r1 where 1: "on_store (diff_load (sr_sync_id root)) r = (d, r1)" by fastforce
  have I1: "runtime_inv B r1" using inv_on_store [OF 1] assms by simp
  show ?thesis
  proof (cases d)
    case (Inl e)
    then show ?thesis by (simp add: poll_remote_diff_def 1 I1)
  next
    case d: (Inr stored)
    let ?call = "sync_runtime_diff (sr_sync_api S) tok (stored_cursor stored) (batch_limit (eng_diff_poller (rr_engine r1)))"
    obtain b r2 where 2: "on_world ?call r1 = (b, r2)" by fastforce
    have I2: "runtime_inv B r2" using inv_on_world [OF 2] I1 by simp
    show ?thesis
    proof (cases b)
      case (Inl e)
      then show ?thesis by (simp add: poll_remote_diff_def 1 d 2 Let_def I2)
    next
      case b: (Inr batch)
      show ?thesis
      proof (cases "ingest_remote_diff_filtered (rr_engine r2) batch (root_policy r2 root)")
        case (Inl e)
        then show ?thesis by (cases e) (simp add: poll_remote_diff_def 1 d 2 b Let_def I2)
      next
        case (Inr e)
        have "engine_inv e" using ingest_steps_inv(2) [OF inv_engine_inv [OF I2] Inr] .
        with I2 have "runtime_inv B (persist_planner_overflow S (r2\<lparr>rr_engine := e\<rparr>))" by (simp add: inv_engine)
        then show ?thesis
          by (auto simp: poll_remote_diff_def 1 d 2 b Inr Let_def case_prod_beta split: sum.split)
      qed
    qed
  qed
qed

lemma ingest_scan_inv: "runtime_inv B r \<Longrightarrow> runtime_inv B (snd (ingest_scan S root es r))"
  by (auto simp: ingest_scan_def intro!: inv_engine ingest_steps_inv(4) [OF inv_engine_inv] split: sum.split local_scan_error.split)

lemma scan_inv: "runtime_inv B r \<Longrightarrow> runtime_inv B (snd (run_local_scan S root r))"
  by (auto simp: run_local_scan_def Let_def case_prod_beta intro!: ingest_scan_inv split: scan_decision.split sum.split prod.split)

lemma advance_transfers_inv: "runtime_inv B r \<Longrightarrow> runtime_inv B (snd (advance_transfers S r))"
  using advance_inv [OF inv_engine_inv [of B r]]
  by (auto simp: advance_transfers_def Let_def intro!: inv_engine split: prod.split)

lemma fail_inv: "runtime_inv B r \<Longrightarrow> runtime_inv B (fail_transfer op p f e r)"
  by (auto simp: fail_transfer_def Let_def intro!: inv_engine mark_inv inv_engine_inv)

lemma complete_inv: "runtime_inv B r \<Longrightarrow> runtime_inv B (snd (complete_transfer S op p r))"
  using mark_inv(1) [OF inv_engine_inv [of B r], of p]
  by (auto simp: complete_transfer_def intro!: inv_engine inv_intros split: prod.split bool.split)

lemma stage_gets:
  assumes "staging_get (stage c path bytes) q = Some x"
  shows "x = bytes \<or> staging_get c q = Some x"
proof -
  have *: "fst (evict_staged mx fs order) q = Some x \<Longrightarrow> fs q = Some x" for mx fs order
    by (induction mx fs order rule: evict_staged.induct) (auto split: if_splits)
  obtain order where "fst (evict_staged (max_open_files c) ((files c)(path \<mapsto> bytes)) order) q = Some x"
    using assms by (simp add: stage_def staging_get_def Let_def case_prod_beta)
  then have "((files c)(path \<mapsto> bytes)) q = Some x" by (rule *)
  then show ?thesis by (auto simp: staging_get_def split: if_splits)
qed

lemma staged_in_stage: "staged_in B c \<Longrightarrow> bytes \<in> B \<Longrightarrow> staged_in B (stage c path bytes)"
  unfolding staged_in_def using stage_gets by blast

lemma drain_evictions_inv: "runtime_inv B r \<Longrightarrow> runtime_inv B (drain_engine_watcher_evictions S r)"
proof -
  assume "runtime_inv B r"
  obtain e pending where d: "drain_watcher_evictions (rr_engine r) = (e, pending)" by fastforce
  have "runtime_inv B (r\<lparr>rr_engine := e\<rparr>)"
    using inv_engine [OF \<open>runtime_inv B r\<close>] drain_watcher_evictions_inv [OF inv_engine_inv [OF \<open>runtime_inv B r\<close>]] d by simp
  then have "runtime_inv B (fold (\<lambda>sid r. if sid \<in> rr_watchers r then remove_watcher S sid r else r) xs (r\<lparr>rr_engine := e\<rparr>))" for xs
    by (induction xs rule: rev_induct) auto
  then show ?thesis by (simp add: drain_engine_watcher_evictions_def d)
qed

lemma evict_inv: "runtime_inv B r \<Longrightarrow> runtime_inv B (evict_removed_root S sid r)"
  by (simp add: evict_removed_root_def Let_def drain_evictions_inv inv_engine evict_sync_root_inv inv_engine_inv)

lemma audit_inv: "runtime_inv B r \<Longrightarrow> runtime_inv B (snd (emit_cycle_audit S i c r))"
  by (auto simp: emit_cycle_audit_def Let_def inv_on_store inv_on_world split: prod.split sum.split)

lemma list_inv: "runtime_inv B r \<Longrightarrow> runtime_inv B (snd (list_sync_roots r))"
  by (auto simp: list_sync_roots_def inv_on_store split: prod.split sum.split)

text \<open>The bytes a staged download is read back as.\<close>

locale staging_source =
  fixes S :: "('w, 'e) surroundings" and B :: "byte list set"
  assumes read_in: "fst (sr_read_file S p w) = Ok bytes \<Longrightarrow> bytes \<in> B"
begin

lemma mirror_inv: "runtime_inv B r \<Longrightarrow> runtime_inv B (mirror_download S p q n r)"
proof -
  assume r: "runtime_inv B r"
  obtain res w where w: "sr_read_file S q (rr_world r) = (res, w)" by fastforce
  with read_in [of q "rr_world r"] r show ?thesis
    by (cases res) (auto simp: mirror_download_def on_world_def runtime_inv_def intro: staged_in_stage)
qed

lemma download_file_inv:
  assumes "runtime_inv B r"
  shows "runtime_inv B (snd (download_file S tok op p i r))"
proof -
  obtain l r1 where 1: "on_world (sr_get_file_link S tok i) r = (l, r1)" by fastforce
  have I1: "runtime_inv B r1" using inv_on_world [OF 1] assms by simp
  show ?thesis
  proof (cases l)
    case (Inl err)
    then show ?thesis by (simp add: download_file_def 1 fail_inv I1)
  next
    case link: (Inr link)
    let ?q = "staged_download_path S (rr_staging_dir r1) i p"
    obtain d r2 where 2: "on_world (sr_download_to_path S link ?q) r1 = (d, r2)" by fastforce
    have I2: "runtime_inv B r2" using inv_on_world [OF 2] I1 by simp
    show ?thesis
    proof (cases d)
      case (Inl err)
      then show ?thesis by (simp add: download_file_def 1 link 2 Let_def fail_inv I2)
    next
      case (Inr written)
      obtain now r4 where 4: "on_world (sr_clock S) (mirror_download S p ?q written r2) = (now, r4)" by fastforce
      have "runtime_inv B (r4\<lparr>rr_stall := observe_bytes now (rr_stall r4) p written\<rparr>)" (is "runtime_inv B ?r5")
        using inv_on_world [OF 4] mirror_inv [OF I2] by simp
      from complete_inv [OF this, of S op p] show ?thesis
        by (cases "complete_transfer S op p ?r5") (simp add: download_file_def 1 link 2 Inr 4 Let_def split: bool.split)
    qed
  qed
qed

lemma download_tasks_inv: "runtime_inv B r \<Longrightarrow> runtime_inv B (snd (download_tasks S tok tasks n r))"
proof (induction tasks arbitrary: n r)
  case (Cons t tasks)
  then show ?case using download_file_inv [of "progress S r" tok]
    by (auto simp: Let_def case_prod_beta split: planned_operation.split option.split)
qed simp

lemma downloads_inv: "runtime_inv B r \<Longrightarrow> runtime_inv B (snd (execute_downloads S tok r))"
  by (simp add: execute_downloads_def case_prod_beta download_tasks_inv)

end

lemma upload_file_inv:
  assumes "runtime_inv B r"
  shows "runtime_inv B (snd (upload_file S tok op p f n r))"
proof (cases "resolve_upload_parent p f")
  case (Inl failure)
  then show ?thesis by (simp add: upload_file_def fail_inv assms)
next
  case parent: (Inr parent)
  show ?thesis
  proof (cases "resolve_upload_payload_len r p")
    case None
    then show ?thesis by (simp add: upload_file_def parent fail_inv assms)
  next
    case len: (Some len)
    obtain c r1 where 1: "on_world (sr_upload_create S tok parent n (of_nat len)) r = (c, r1)" by fastforce
    have I1: "runtime_inv B r1" using inv_on_world [OF 1] assms by simp
    show ?thesis
    proof (cases c)
      case (Inl err)
      then show ?thesis by (simp add: upload_file_def parent len 1 fail_inv I1)
    next
      case session: (Inr session)
      show ?thesis
      proof (cases "borrow_upload_payload r1 p")
        case None
        then show ?thesis by (simp add: upload_file_def parent len 1 session fail_inv I1)
      next
        case (Some bytes)
        obtain u r2 where 2: "on_world (sr_upload_bytes S tok session bytes) r1 = (u, r2)" by fastforce
        have "runtime_inv B r2" using inv_on_world [OF 2] I1 by simp
        then show ?thesis
          by (cases u) (simp_all add: upload_file_def parent len 1 session Some 2 fail_inv complete_inv)
      qed
    qed
  qed
qed

lemma upload_tasks_inv: "runtime_inv B r \<Longrightarrow> runtime_inv B (snd (upload_tasks S tok tasks n r))"
proof (induction tasks arbitrary: n r)
  case (Cons t tasks)
  then show ?case using upload_file_inv [of B "progress S r" S tok]
    by (auto simp: Let_def case_prod_beta split: planned_operation.split)
qed simp

lemma uploads_inv: "runtime_inv B r \<Longrightarrow> runtime_inv B (snd (execute_uploads S tok r))"
  by (simp add: execute_uploads_def case_prod_beta upload_tasks_inv)

sublocale staging_source \<subseteq> real: runtime_invariant "real_runtime S" "runtime_inv B"
  by unfold_locales
    (simp_all add: real_runtime_def list_inv poll_inv scan_inv advance_transfers_inv downloads_inv uploads_inv evict_inv audit_inv)

interpretation any_bytes: staging_source S UNIV for S :: "('w, 'e) surroundings"
  by unfold_locales simp

end
