(* ===== verification/Sync_Safety.thy ===== *)
theory Sync_Safety
  imports Sync_Runtime
begin

text \<open>
  What holds of the sync loop on its real runtime: it is sound from start to shutdown, it uploads
  nothing but what it downloaded, cursors move only after a batch has been ingested, work in flight
  is given up only when it has been done; and what one failing statement does to it.
\<close>

section \<open>Soundness from start to shutdown\<close>

lemma restore_paused_inv: "engine_inv e \<Longrightarrow> engine_inv (restore_paused roots e)"
proof -
  have "engine_inv e \<Longrightarrow> engine_inv (fold (\<lambda>root e. if sr_paused root then fst (pause_sync_root e (sr_sync_id root)) else e) roots e)"
    by (induction roots arbitrary: e) (auto intro: pause_sync_root_inv)
  then show "engine_inv e \<Longrightarrow> engine_inv (restore_paused roots e)" by (simp add: restore_paused_def)
qed

text \<open>What a stored list may hold: the codec reads back only what the engine may hold.\<close>

definition sound_codec :: "('w, 'e) surroundings \<Rightarrow> bool" where
  "sound_codec S \<longleftrightarrow>
     (\<forall>raw cs. sr_overflow_from_json S raw = Some cs \<longrightarrow> length cs \<le> PLANNER_OVERFLOW_MAX
        \<and> (\<forall>c \<in> set cs. is_valid_relative_path (cand_path c)))
     \<and> (\<forall>raw ops. sr_queue_from_json S raw = Some ops \<longrightarrow> (\<forall>p \<in> set ops. safe_op p))"

lemma restore_list_inv:
  assumes "engine_inv e" and "\<And>raw xs. parse raw = Some xs \<Longrightarrow> engine_inv (install e xs)"
  shows "engine_inv (fst (restore_list key parse install e s))"
  using assms by (auto simp: restore_list_def split: sum.split prod.split option.split)

lemma runtime_new_inv:
  assumes "sound_codec S" and "runtime_new S tok config dir s0 w0 = (Ok r, s1)"
  shows "runtime_inv B r"
proof -
  obtain e where r: "rr_engine r = e" "rr_cache_staging r = staging_default" "rr_fs_staging r = staging_default" and "engine_inv e"
  proof -
    obtain s where o: "open_store s0 = (Ok (), s)"
      using assms(2) by (cases "open_store s0") (auto simp: runtime_new_def then_do_def split: sum.splits)
    obtain a sa where a: "load_audit s = (a, sa)" by fastforce
    obtain g sg where g: "graph_load sa = (g, sg)" by fastforce
    define e1 where "e1 = (case g of Inr roots \<Rightarrow> restore_paused roots engine_new | Inl _ \<Rightarrow> engine_new)"
    obtain e2 s2 where 2: "restore_list DEAD_LETTER_KEY (sr_overflow_from_json S) restore_planner_overflow e1 sg = (e2, s2)" by fastforce
    obtain e3 s3 where 3: "restore_list SCHEDULER_QUEUE_KEY (sr_queue_from_json S) restore_scheduler_queue e2 s2 = (e3, s3)" by fastforce
    have "engine_inv e1" by (auto simp: e1_def engine_inv_new intro: restore_paused_inv split: sum.split)
    moreover have "engine_inv (restore_planner_overflow e1 cs)" if "sr_overflow_from_json S raw = Some cs" for raw cs
      using engine_step_inv [OF engine_step.restore_overflow \<open>engine_inv e1\<close>] assms(1) that by (auto simp: sound_codec_def)
    ultimately have "engine_inv e2" using restore_list_inv [of e1 "sr_overflow_from_json S" restore_planner_overflow] 2 by (metis fst_conv)
    moreover have "engine_inv (restore_scheduler_queue e2 ops)" if "sr_queue_from_json S raw = Some ops" for raw ops
      using engine_step_inv [OF engine_step.restore_queue \<open>engine_inv e2\<close>] assms(1) that by (auto simp: sound_codec_def)
    ultimately have "engine_inv e3" using restore_list_inv [of e2 "sr_queue_from_json S" restore_scheduler_queue] 3 by (metis fst_conv)
    moreover have "rr_engine r = e3 \<and> rr_cache_staging r = staging_default \<and> rr_fs_staging r = staging_default"
      using assms(2) o a g 2 3 by (auto simp: runtime_new_def then_do_def Let_def e1_def split: prod.splits)
    ultimately show ?thesis using that by blast
  qed
  then show ?thesis by (simp add: runtime_inv_def staged_in_def staging_get_def staging_default_def)
qed


text \<open>Surroundings in which nothing happens: no network, an empty tree, a clock that stands still.\<close>

definition quiet_world :: "(unit, unit) surroundings" where
  "quiet_world =
     \<lparr>sr_clock = (\<lambda>w. (0, w)), sr_unix_secs = (\<lambda>w. (0, w)), sr_sql_time = (\<lambda>w. ([], w)),
      sr_sync_api = \<lparr>tp_execute = (\<lambda>_ w. (Err (), w)), tp_hint = (\<lambda>_ w. w), tp_display = (\<lambda>_. [])\<rparr>,
      sr_show_diff_error = (\<lambda>_. []), sr_show_sql_error = (\<lambda>_. []),
      sr_local_fs = (\<lambda>w. (\<lparr>lf_is_dir = (\<lambda>_. Some 1), lf_dirs = [(1, Ok [])]\<rparr>, w)),
      sr_start_watcher = (\<lambda>_ w. (False, w)), sr_stop_watcher = (\<lambda>_ w. w), sr_recv_events = (\<lambda>_ w. ([], w)),
      sr_get_file_link = (\<lambda>_ _ w. (Err [], w)), sr_download_to_path = (\<lambda>_ _ w. (Err [], w)),
      sr_read_file = (\<lambda>_ w. (Err (), w)), sr_remove_file = (\<lambda>_ w. w),
      sr_upload_create = (\<lambda>_ _ _ _ w. (Err [], w)), sr_upload_bytes = (\<lambda>_ _ _ w. (Err [], w)),
      sr_overflow_to_json = (\<lambda>_. []), sr_overflow_from_json = (\<lambda>_. None), sr_queue_to_json = (\<lambda>_. []),
      sr_queue_from_json = (\<lambda>_. None), sr_sha256 = (\<lambda>_. []), sr_hmac_sha256 = (\<lambda>_ _. [])\<rparr>"

definition started :: "(unit, unit) surroundings \<Rightarrow> unit runtime" where
  "started S = (case fst (runtime_new S (Some ''t'') sync_loop_config_default [] store_empty ()) of Inr r \<Rightarrow> r | Inl _ \<Rightarrow> undefined)"

lemma started_new: "\<exists>s1. runtime_new S (Some ''t'') sync_loop_config_default [] store_empty () = (Ok (started S), s1)"
  by (simp add: started_def runtime_new_def open_store_def load_audit_def store_empty_def sql_def then_do_def case_prod_beta Let_def)

lemma quiet_codec: "sound_codec quiet_world"
  by (simp add: sound_codec_def quiet_world_def)


section \<open>Runtimes that agree on reachable states\<close>

locale runtime_agreement = runtime_invariant T I for T :: "'r sync_loop_runtime" and I +
  fixes T' :: "'r sync_loop_runtime"
  assumes token_agrees: "rt_auth_token T' = rt_auth_token T"
    and list_agrees: "rt_list_sync_roots T' = rt_list_sync_roots T"
    and paused_agrees: "rt_is_sync_root_paused T' = rt_is_sync_root_paused T"
    and counts_agree: "rt_conflict_count T' = rt_conflict_count T" "rt_pending_upload_count T' = rt_pending_upload_count T"
      "rt_pending_download_count T' = rt_pending_download_count T"
    and evict_agrees: "rt_evict_removed_root T' = rt_evict_removed_root T"
    and audit_agrees: "rt_emit_cycle_audit T' = rt_emit_cycle_audit T"
    and advance_agrees: "rt_advance_transfers T' = rt_advance_transfers T"
    and poll_agrees: "rt_poll_remote_diff T' = rt_poll_remote_diff T"
    and scan_agrees: "rt_run_local_scan T' = rt_run_local_scan T"
    and downloads_agree: "rt_execute_downloads T' = rt_execute_downloads T"
    and uploads_agree: "I r \<Longrightarrow> rt_execute_uploads T' tok r = rt_execute_uploads T tok r"
begin

lemma sync_one_root_agrees: "I r \<Longrightarrow> sync_one_root T' root tok r = sync_one_root T root tok r"
  by (cases "sr_sync_type root")
    (simp_all add: sync_one_root_def Let_def case_prod_beta poll_agrees scan_agrees advance_agrees downloads_agree counts_agree
      uploads_agree counted_keeps poll_keeps scan_keeps advance_keeps downloads_keep)

lemma run_roots_agrees: "I r \<Longrightarrow> run_roots T' tok roots cycle r = run_roots T tok roots cycle r"
proof (induction roots arbitrary: cycle r)
  case (Cons root roots)
  obtain res r' where o: "sync_one_root T root tok r = (res, r')" by fastforce
  have "I r'" using sync_one_root_keeps [OF Cons.prems, of root tok] o by simp
  with Cons o show ?case by (simp add: paused_agrees sync_one_root_agrees)
qed simp

lemma run_cycle_agrees: "I r \<Longrightarrow> run_cycle_with_power T' config pwr elapsed r = run_cycle_with_power T config pwr elapsed r"
proof -
  assume I: "I r"
  obtain roots r1 where l: "rt_list_sync_roots T r = (roots, r1)" by fastforce
  have "I r1" using list_keeps [OF I] l by simp
  with l show ?thesis
    by (simp add: run_cycle_with_power_def token_agrees list_agrees run_roots_agrees audit_agrees split: option.split)
qed

lemma iteration_agrees: "I (lp_runtime l) \<Longrightarrow> loop_iteration T' config env l = loop_iteration T config env l"
proof -
  assume "I (lp_runtime l)"
  then have "I (snd (rt_list_sync_roots T (lp_runtime l)))" by (rule list_keeps)
  from evict_removed_keeps [OF this] have
    "run_cycle_with_power T' config pwr elapsed (evict_removed T prev cur (snd (rt_list_sync_roots T (lp_runtime l))))
      = run_cycle_with_power T config pwr elapsed (evict_removed T prev cur (snd (rt_list_sync_roots T (lp_runtime l))))"
    for pwr elapsed prev cur by (rule run_cycle_agrees)
  then show ?thesis
    by (simp add: loop_iteration_def Let_def case_prod_beta list_agrees evict_removed_def evict_agrees finish_status_def counts_agree
        others_act_def with_shared_def)
qed

lemma loop_agrees_one:
  assumes "loop_from T1 config env l = Some l'" and "I (lp_runtime l)"
    and "T1 = T \<and> T2 = T' \<or> T1 = T' \<and> T2 = T"
  shows "loop_from T2 config env l = Some l'"
proof -
  let ?P = "\<lambda>T1 c e m m'. I (lp_runtime m) \<longrightarrow> T1 = T \<and> T2 = T' \<or> T1 = T' \<and> T2 = T \<longrightarrow> loop_from T2 c e m = Some m'"
  have "?P T1 config env l l'"
    using assms(1)
  proof (rule loop_from.raw_induct [where P = ?P, rotated])
    fix f :: "'r sync_loop_runtime \<Rightarrow> sync_loop_config \<Rightarrow> loop_env \<Rightarrow> 'r loop \<Rightarrow> 'r loop option" and T1 c e m m'
    assume ih: "\<And>T1 c e m m'. f T1 c e m = Some m' \<Longrightarrow> ?P T1 c e m m'"
      and s: "(case loop_iteration T1 c e m of (stop, m1) \<Rightarrow> if stop then Some m1 else f T1 c e m1) = Some m'"
    show "?P T1 c e m m'"
    proof (intro impI)
      assume I: "I (lp_runtime m)" and T: "T1 = T \<and> T2 = T' \<or> T1 = T' \<and> T2 = T"
      obtain stop m1 where i: "loop_iteration T c e m = (stop, m1)" by fastforce
      have "I (lp_runtime m1)" using iteration_keeps [OF I, of c e] i by simp
      moreover have "loop_iteration T1 c e m = (stop, m1)" "loop_iteration T2 c e m = (stop, m1)"
        using T i iteration_agrees [OF I, of c e] by auto
      ultimately show "loop_from T2 c e m = Some m'"
        using s ih [of T1 c e m1 m'] T by (subst loop_from.simps) (auto split: if_splits)
    qed
  qed
  with assms(2,3) show ?thesis by blast
qed

lemma main_agrees: "I r \<Longrightarrow> sync_loop_main T' config env shared r = sync_loop_main T config env shared r"
proof -
  assume I: "I r"
  have "loop_from T' config env l = loop_from T config env l" if "I (lp_runtime l)" for l
    using loop_agrees_one [of T config env l _ T'] loop_agrees_one [of T' config env l _ T] that
    by (metis not_None_eq)
  moreover obtain roots r1 where l: "rt_list_sync_roots T r = (roots, r1)" by fastforce
  moreover have "I r1" using list_keeps [OF I] l by simp
  ultimately show ?thesis by (simp add: sync_loop_main_def list_agrees)
qed

end

section \<open>What is uploaded\<close>

lemma borrowed_in: "runtime_inv B r \<Longrightarrow> borrow_upload_payload r p = Some bytes \<Longrightarrow> bytes \<in> B"
  by (auto simp: runtime_inv_def borrow_upload_payload_def staged_in_def split: option.splits)

locale restricted_upload = staging_source S B for S :: "('w, 'e) surroundings" and B +
  fixes S' :: "('w, 'e) surroundings" and u
  assumes S': "S' = S\<lparr>sr_upload_bytes := u\<rparr>"
    and same: "bytes \<in> B \<Longrightarrow> u tok session bytes w = sr_upload_bytes S tok session bytes w"
begin

lemma fields:
  "sr_clock S' = sr_clock S" "sr_unix_secs S' = sr_unix_secs S" "sr_sql_time S' = sr_sql_time S"
  "sr_sync_api S' = sr_sync_api S" "sr_show_diff_error S' = sr_show_diff_error S" "sr_show_sql_error S' = sr_show_sql_error S"
  "sr_local_fs S' = sr_local_fs S" "sr_start_watcher S' = sr_start_watcher S" "sr_stop_watcher S' = sr_stop_watcher S"
  "sr_recv_events S' = sr_recv_events S" "sr_get_file_link S' = sr_get_file_link S"
  "sr_download_to_path S' = sr_download_to_path S" "sr_read_file S' = sr_read_file S" "sr_remove_file S' = sr_remove_file S"
  "sr_upload_create S' = sr_upload_create S" "sr_upload_bytes S' = u"
  "sr_overflow_to_json S' = sr_overflow_to_json S" "sr_queue_to_json S' = sr_queue_to_json S"
  "sr_sha256 S' = sr_sha256 S" "sr_hmac_sha256 S' = sr_hmac_sha256 S"
  by (simp_all add: S')

lemma progress_same: "progress S' = progress S"
  by (unfold progress_def fields) (rule refl)

lemma complete_same: "complete_transfer S' = complete_transfer S"
  by (unfold complete_transfer_def progress_same) (rule refl)

lemma persist_same: "persist_planner_overflow S' = persist_planner_overflow S" "persist_scheduler_queue S' = persist_scheduler_queue S"
  by (unfold persist_planner_overflow_def persist_scheduler_queue_def fields) (rule refl)+

lemma watcher_same: "remove_watcher S' = remove_watcher S" "ensure_watcher S' = ensure_watcher S"
    "drain_watcher_events S' = drain_watcher_events S"
  by (unfold remove_watcher_def ensure_watcher_def drain_watcher_events_def fields) (rule refl)+

lemma drain_same: "drain_engine_watcher_evictions S' = drain_engine_watcher_evictions S"
  by (unfold drain_engine_watcher_evictions_def watcher_same) (rule refl)

lemma download_file_same: "download_file S' = download_file S"
  by (unfold download_file_def mirror_download_def staged_download_path_def complete_same fields) (rule refl)

lemma download_tasks_same: "download_tasks S' tok tasks n r = download_tasks S tok tasks n r"
  by (induction tasks arbitrary: n r)
    (simp_all add: progress_same download_file_same Let_def case_prod_beta split: planned_operation.split option.split)

lemma upload_file_same:
  assumes "runtime_inv B r"
  shows "upload_file S' tok op p f n r = upload_file S tok op p f n r"
proof -
  have "on_world (u tok session bytes) r1 = on_world (sr_upload_bytes S tok session bytes) r1"
    if "on_world (sr_upload_create S tok parent n len) r = (Inr session, r1)" "borrow_upload_payload r1 p = Some bytes"
    for parent len session bytes r1
    using borrowed_in [OF _ that(2)] inv_on_world [OF that(1)] assms by (simp add: same on_world_def)
  then show ?thesis
    by (auto simp: upload_file_def complete_same fields split: sum.split option.split prod.split)
qed

lemma upload_tasks_same: "runtime_inv B r \<Longrightarrow> upload_tasks S' tok tasks n r = upload_tasks S tok tasks n r"
proof (induction tasks arbitrary: n r)
  case (Cons t tasks)
  have I: "runtime_inv B (progress S r)" using Cons.prems by simp
  show ?case
    using upload_file_inv [OF I, of S tok] Cons.IH upload_file_same [OF I] I
    by (auto simp: progress_same Let_def case_prod_beta split: planned_operation.split)
qed simp

lemma operations_same:
  "rt_evict_removed_root (real_runtime S') = rt_evict_removed_root (real_runtime S)"
  "rt_emit_cycle_audit (real_runtime S') = rt_emit_cycle_audit (real_runtime S)"
  "rt_advance_transfers (real_runtime S') = rt_advance_transfers (real_runtime S)"
  "rt_poll_remote_diff (real_runtime S') = rt_poll_remote_diff (real_runtime S)"
  "rt_run_local_scan (real_runtime S') = rt_run_local_scan (real_runtime S)"
  unfolding real_runtime_def sync_loop_runtime.simps
  by (unfold evict_removed_root_def emit_cycle_audit_def append_cycle_event_def advance_transfers_def
      poll_remote_diff_def run_local_scan_def ingest_scan_def persist_same watcher_same drain_same progress_same fields) (rule refl)+

lemma transfers_same:
  "rt_execute_downloads (real_runtime S') = rt_execute_downloads (real_runtime S)"
  "runtime_inv B r \<Longrightarrow> rt_execute_uploads (real_runtime S') tok r = rt_execute_uploads (real_runtime S) tok r"
  by (simp_all add: real_runtime_def execute_downloads_def execute_uploads_def download_tasks_same upload_tasks_same fun_eq_iff)

end

sublocale restricted_upload \<subseteq> runtime_agreement "real_runtime S" "runtime_inv B" "real_runtime S'"
  by unfold_locales (simp_all add: operations_same transfers_same, simp_all add: real_runtime_def)

context restricted_upload begin

lemmas whole_run_same = main_agrees

end

interpretation unchanged_upload: restricted_upload S UNIV S "sr_upload_bytes S" for S :: "('w, 'e) surroundings"
  by unfold_locales simp_all



section \<open>Cursors\<close>

definition keeps_diff :: "(store \<Rightarrow> 'a \<times> store) \<Rightarrow> bool" where
  "keeps_diff f \<longleftrightarrow> (\<forall>s. st_diff (snd (f s)) = st_diff s)"

lemma keeps_diffD: "keeps_diff f \<Longrightarrow> f s = (x, s') \<Longrightarrow> st_diff s' = st_diff s"
  by (metis keeps_diff_def snd_conv)

lemma keeps_diff_sql: "keeps_diff f \<Longrightarrow> keeps_diff (sql f)"
  by (auto simp: keeps_diff_def sql_def split: list.split)

lemma keeps_diff_binding: "keeps_diff f \<Longrightarrow> keeps_diff (binding us f)"
  using keeps_diff_sql by (auto simp: keeps_diff_def binding_def)

lemma keeps_diff_then:
  "keeps_diff f \<Longrightarrow> (\<And>x. keeps_diff (k x)) \<Longrightarrow> keeps_diff (\<lambda>s. then_do (f s) k)"
  unfolding keeps_diff_def then_do_def by (auto split: prod.split sum.split) (metis snd_conv)+

lemma keeps_diff_ops:
  "keeps_diff (diff_load sid)" "keeps_diff (delete_value name)" "keeps_diff (set_string name v)" "keeps_diff (metadata_delete i)"
  "keeps_diff graph_load"
  unfolding diff_load_def delete_value_def set_string_def put_value_def metadata_delete_def graph_load_def
  by (intro keeps_diff_sql keeps_diff_binding; simp add: keeps_diff_def)+

lemma keeps_diff_delete_entries: "keeps_diff (delete_entries es)"
proof (induction es)
  case (Cons e es)
  have "keeps_diff (\<lambda>s. then_do (metadata_delete i s) (\<lambda>_. delete_entries es))" for i
    using keeps_diff_ops(4) Cons by (rule keeps_diff_then)
  with Cons show ?case by (auto simp: keeps_diff_def split: option.split)
qed (simp add: keeps_diff_def)

lemma on_store_diff: "keeps_diff f \<Longrightarrow> st_diff (rr_store (snd (on_store f r))) = st_diff (rr_store r)"
  by (auto simp: on_store_def keeps_diff_def split: prod.split) (metis snd_conv)

lemma persist_diff [simp]:
  "st_diff (rr_store (persist_planner_overflow S r)) = st_diff (rr_store r)"
  "st_diff (rr_store (persist_scheduler_queue S r)) = st_diff (rr_store r)"
  by (simp_all add: persist_planner_overflow_def persist_scheduler_queue_def Let_def on_store_diff keeps_diff_ops)

lemma on_world_store [simp]: "rr_store (snd (on_world f r)) = rr_store r"
  by (simp add: on_world_def case_prod_beta)

lemma transaction_cases:
  "transaction body s = (res, s') \<Longrightarrow>
    (\<exists>e. res = Inl e) \<and> st_diff s' = st_diff s
    \<or> (\<exists>s0 x s1. st_diff s0 = st_diff s \<and> body s0 = (Ok x, s1) \<and> res = Ok x \<and> st_diff s' = st_diff s1)"
proof -
  assume t: "transaction body s = (res, s')"
  obtain b s0 where b: "sql (\<lambda>s. (Ok (), s)) s = (b, s0)" by fastforce
  have d: "st_diff s0 = st_diff s" using keeps_diffD [OF keeps_diff_sql b] by (simp add: keeps_diff_def)
  show ?thesis
  proof (cases b)
    case (Inl e)
    with t b d show ?thesis by (auto simp: transaction_def)
  next
    case begun: (Inr u)
    obtain x s1 where 1: "body s0 = (x, s1)" by fastforce
    show ?thesis
    proof (cases x)
      case (Inl e)
      with t b d begun 1 show ?thesis by (auto simp: transaction_def then_do_def)
    next
      case (Inr v)
      obtain c s2 where 2: "sql (\<lambda>s. (Ok v, s)) s1 = (c, s2)" by fastforce
      have "st_diff s2 = st_diff s1" using keeps_diffD [OF keeps_diff_sql 2] by (simp add: keeps_diff_def)
      moreover have "c = Ok v \<or> (\<exists>e. c = Inl e)" using 2 by (auto simp: sql_def split: list.splits if_splits)
      moreover have "res = c \<and> ((\<exists>e. c = Inl e) \<and> st_diff s' = st_diff s0 \<or> c = Ok v \<and> s' = s2)" if "c = Ok v \<or> (\<exists>e. c = Inl e)"
        using t b begun 1 Inr 2 that by (auto simp: transaction_def then_do_def)
      ultimately show ?thesis using d 1 Inr by metis
    qed
  qed
qed

lemma commit_diff:
  "commit_diff_batch sid previous batch now s = (res, s') \<Longrightarrow>
    st_diff s' = (if res = Ok () \<and> previous < rdb_cursor batch then (st_diff s)(sid \<mapsto> (rdb_cursor batch, now)) else st_diff s)"
proof -
  assume c: "commit_diff_batch sid previous batch now s = (res, s')"
  let ?body = "\<lambda>s. then_do (delete_entries (rdb_entries batch) s) (\<lambda>_ s.
    if rdb_cursor batch > previous then diff_save sid (rdb_cursor batch) now s else (Ok (), s))"
  obtain a s1 where 1: "sql (\<lambda>s. (Ok (st_synchronous s), s)) s = (a, s1)" by fastforce
  have d1: "st_diff s1 = st_diff s" using keeps_diffD [OF keeps_diff_sql 1] by (simp add: keeps_diff_def)
  show ?thesis
  proof (cases a)
    case (Inl e)
    with c 1 d1 show ?thesis by (auto simp: commit_diff_batch_def then_do_def)
  next
    case old: (Inr old)
    obtain b s2 where 2: "sql (\<lambda>s. (Ok (), s\<lparr>st_synchronous := 2\<rparr>)) s1 = (b, s2)" by fastforce
    have d2: "st_diff s2 = st_diff s" using keeps_diffD [OF keeps_diff_sql 2] d1 by (simp add: keeps_diff_def)
    show ?thesis
    proof (cases b)
      case (Inl e)
      with c 1 2 old d2 show ?thesis by (auto simp: commit_diff_batch_def then_do_def Let_def)
    next
      case (Inr u)
      obtain t s3 where 3: "transaction ?body s2 = (t, s3)" by fastforce
      let ?reset = "sql (\<lambda>s. (Ok (), s\<lparr>st_synchronous := if old \<in> {0, 1, 2, 3} then old else 1\<rparr>))"
      have r: "res = t \<and> s' = snd (?reset s3)" using c 1 2 3 old Inr by (simp add: commit_diff_batch_def then_do_def Let_def)
      have "keeps_diff ?reset" by (intro keeps_diff_sql) (simp add: keeps_diff_def)
      then have d3: "st_diff s' = st_diff s3" using r by (simp add: keeps_diff_def)
      from transaction_cases [OF 3] show ?thesis
      proof
        assume "(\<exists>e. t = Inl e) \<and> st_diff s3 = st_diff s2"
        with r d2 d3 show ?thesis by auto
      next
        assume "\<exists>s0 x s1. st_diff s0 = st_diff s2 \<and> ?body s0 = (Ok x, s1) \<and> t = Ok x \<and> st_diff s3 = st_diff s1"
        then obtain s0 sb where b: "st_diff s0 = st_diff s2" "?body s0 = (Ok (), sb)" "t = Ok ()" "st_diff s3 = st_diff sb"
          by auto
        obtain v s4 where 4: "delete_entries (rdb_entries batch) s0 = (v, s4)" by fastforce
        have d4: "st_diff s4 = st_diff s0" using keeps_diffD [OF keeps_diff_delete_entries 4] .
        have "st_diff sb = (if previous < rdb_cursor batch then (st_diff s4)(sid \<mapsto> (rdb_cursor batch, now)) else st_diff s4)"
          using b(2) 4 by (auto simp: then_do_def diff_save_def binding_def sql_def split: sum.splits if_splits list.splits)
        with b d2 d3 d4 r show ?thesis by simp
      qed
    qed
  qed
qed

definition stored_cursor_of :: "store \<Rightarrow> sync_id \<Rightarrow> u64" where
  "stored_cursor_of s sid = (case st_diff s sid of Some (diffid, _) \<Rightarrow> diffid | None \<Rightarrow> 0)"

text \<open>C6: a cursor moves only past changes the engine has taken in.  A poll that fails, wherever it fails,
  leaves every stored cursor as it was, so its changes are fetched again; a poll that succeeds has
  ingested the batch that was fetched from the stored cursor, and only then stored the cursor of that
  batch, if it is ahead.\<close>

theorem poll_commits_after_ingest:
  "let sid = sr_sync_id root; cursor = stored_cursor_of (rr_store r) sid;
       fetched = fst (sync_runtime_diff (sr_sync_api S) tok cursor (batch_limit (eng_diff_poller (rr_engine r))) (rr_world r))
   in case poll_remote_diff S root tok r of
     (Inl _, r') \<Rightarrow> st_diff (rr_store r') = st_diff (rr_store r)
   | (Inr n, r') \<Rightarrow> \<exists>batch now. fetched = Ok batch
       \<and> ingest_remote_diff_filtered (rr_engine r) batch (root_policy r root) = Ok (rr_engine r')
       \<and> n = length (queued_operations (eng_scheduler (rr_engine r')))
       \<and> st_diff (rr_store r') =
           (if cursor < rdb_cursor batch then (st_diff (rr_store r))(sid \<mapsto> (rdb_cursor batch, now)) else st_diff (rr_store r))"
proof -
  let ?sid = "sr_sync_id root"
  obtain d r1 where 1: "on_store (diff_load ?sid) r = (d, r1)" by fastforce
  have s1: "st_diff (rr_store r1) = st_diff (rr_store r)" using on_store_diff [OF keeps_diff_ops(1), of ?sid r] 1 by simp
  have f1: "rr_engine r1 = rr_engine r" "rr_world r1 = rr_world r" "rr_config r1 = rr_config r"
    using 1 by (auto simp: on_store_def split: prod.splits)
  show ?thesis
  proof (cases d)
    case (Inl e)
    with 1 s1 show ?thesis by (simp add: poll_remote_diff_def)
  next
    case d: (Inr stored)
    have c: "stored_cursor stored = stored_cursor_of (rr_store r) ?sid"
      using 1 d by (auto simp: on_store_def diff_load_def binding_def sql_def stored_cursor_def stored_cursor_of_def
        split: prod.splits if_splits list.splits option.splits)
    let ?call = "sync_runtime_diff (sr_sync_api S) tok (stored_cursor_of (rr_store r) ?sid) (batch_limit (eng_diff_poller (rr_engine r)))"
    obtain b w where w: "?call (rr_world r) = (b, w)" by fastforce
    then have 2: "on_world ?call r1 = (b, r1\<lparr>rr_world := w\<rparr>)" by (simp add: on_world_def f1)
    show ?thesis
    proof (cases b)
      case (Inl e)
      with 1 d c 2 s1 f1 show ?thesis by (simp add: poll_remote_diff_def Let_def)
    next
      case b: (Inr batch)
      have p: "root_policy (r1\<lparr>rr_world := w\<rparr>) root = root_policy r root" by (simp add: root_policy_def f1)
      show ?thesis
      proof (cases "ingest_remote_diff_filtered (rr_engine r) batch (root_policy r root)")
        case (Inl e)
        with 1 d c 2 b p s1 f1 show ?thesis by (cases e) (simp add: poll_remote_diff_def Let_def)
      next
        case e: (Inr e)
        define r3 where "r3 = persist_planner_overflow S (r1\<lparr>rr_world := w, rr_engine := e\<rparr>)"
        have 3: "rr_engine r3 = e" "st_diff (rr_store r3) = st_diff (rr_store r)" using s1 by (simp_all add: r3_def)
        obtain now r4 where 4: "(if rdb_cursor batch > stored_cursor_of (rr_store r) ?sid then on_world (sr_unix_secs S) r3 else (0, r3)) = (now, r4)"
          by fastforce
        have "rr_engine r4 = e \<and> st_diff (rr_store r4) = st_diff (rr_store r)"
          using 3 4 on_frame(2) [of "sr_unix_secs S" r3] on_world_store [of "sr_unix_secs S" r3]
          by (cases "rdb_cursor batch > stored_cursor_of (rr_store r) ?sid") simp_all
        moreover obtain x s5 where 5: "commit_diff_batch ?sid (stored_cursor_of (rr_store r) ?sid) batch now (rr_store r4) = (x, s5)"
          by fastforce
        ultimately show ?thesis
          using 1 d c 2 b p e f1 4 w commit_diff [OF 5]
          by (cases x) (auto simp: poll_remote_diff_def Let_def r3_def [symmetric] on_store_def)
      qed
    qed
  qed
qed

section \<open>One statement that fails\<close>

text \<open>A listing that fails reads as the empty one, which is how the loop learns that roots were removed: the
  work of every root known before is dropped, in memory and, unless that fails too, on disk.\<close>

lemma evicted_nothing_held:
  "sid \<in> set sids \<Longrightarrow> p \<in> set (held_operations (rr_engine (fold (evict_removed_root S) sids r))) \<Longrightarrow> op_sync_id p \<noteq> sid"
proof (induction sids arbitrary: r)
  case (Cons x sids)
  show ?case
  proof (cases "sid \<in> set sids")
    case True
    with Cons show ?thesis by simp
  next
    case False
    have held: "held_operations (rr_engine (evict_removed_root S x r)) = held_operations (evict_sync_root (rr_engine r) x)" for x r
    proof -
      have "rr_engine (fold (\<lambda>sid r. if sid \<in> rr_watchers r then remove_watcher S sid r else r) xs r') = rr_engine r'" for xs r'
        by (induction xs arbitrary: r') simp_all
      then show ?thesis
        by (simp add: evict_removed_root_def Let_def drain_engine_watcher_evictions_def drain_watcher_evictions_def)
    qed
    have "set (held_operations (rr_engine (fold (evict_removed_root S) ys r'))) \<subseteq> set (held_operations (rr_engine r'))" for ys r'
    proof (induction ys arbitrary: r')
      case (Cons y ys)
      have "set (held_operations (evict_sync_root (rr_engine r') y)) \<subseteq> set (held_operations (rr_engine r'))"
        by (auto simp: evict_sync_root_def evict_sync_id_def)
      moreover have "set (held_operations (rr_engine (fold (evict_removed_root S) (y # ys) r')))
          \<subseteq> set (held_operations (evict_sync_root (rr_engine r') y))"
        using Cons [of "evict_removed_root S y r'"] unfolding held by simp
      ultimately show ?case by (rule subset_trans [rotated])
    qed simp
    then have "p \<in> set (held_operations (evict_sync_root (rr_engine r) x))" using Cons.prems(2) held by fastforce
    moreover have "x = sid" using Cons.prems(1) False by simp
    ultimately show ?thesis
      by (auto simp: evict_sync_root_def dest: sched_queue.evict_removes sched_dispatched.evict_removes)
  qed
qed simp

lemma failed_listing_drops_work:
  assumes "st_faults (rr_store r) = True # fs" and "finite prev"
  shows "case list_sync_roots r of (roots, r') \<Rightarrow> roots = []
    \<and> (\<forall>p \<in> set (held_operations (rr_engine (evict_removed (real_runtime S) prev (sr_sync_id ` set roots) r'))). op_sync_id p \<notin> prev)"
proof -
  have "list_sync_roots r = ([], r\<lparr>rr_store := (rr_store r)\<lparr>st_faults := fs\<rparr>\<rparr>)"
    using assms(1) by (simp add: list_sync_roots_def on_store_def graph_load_def sql_def)
  moreover have "rt_evict_removed_root (real_runtime S) = evict_removed_root S" by (simp add: real_runtime_def)
  moreover have "op_sync_id p \<notin> prev" if "p \<in> set (held_operations (rr_engine (fold (evict_removed_root S) (sorted_list_of_set prev) r')))" for p r'
    using evicted_nothing_held [OF _ that] assms(2) by (metis set_sorted_list_of_set)
  ultimately show ?thesis by (simp add: evict_removed_def)
qed

end
