(* ===== verification/Ipc.thy ===== *)
theory Ipc
  imports Bytes Rust_Str "HOL-Library.Multiset"
begin

text \<open>
  The request channel between the daemon and its clients, \<open>pcloud-ipc/src\<close>: frames
  (\<open>protocol.rs\<close>), the owner check (\<open>auth.rs\<close>, \<open>server.rs\<close>), one connection from header to response
  and the caps on connections (\<open>transport.rs\<close>), the client (\<open>client.rs\<close>), and the check of sync-root
  paths (\<open>path_validation.rs\<close>).

  JSON comes from a library: a record of its two encoders and three decoders.  A connection is the
  bytes that will arrive and how reading ends after them, and the bytes written; the handler of a
  request acts on a state of its own.  The peer's identity comes from the operating system.
\<close>

section \<open>Frames\<close>

definition IPC_PROTOCOL_VERSION :: "16 word" where "IPC_PROTOCOL_VERSION = 1"
definition MIN_ACCEPTED_IPC_PROTOCOL_VERSION :: "16 word" where "MIN_ACCEPTED_IPC_PROTOCOL_VERSION = 1"
definition MAX_IPC_PAYLOAD_LEN :: nat where "MAX_IPC_PAYLOAD_LEN = 1024 * 1024"
definition MAX_REQUEST_BYTES :: nat where "MAX_REQUEST_BYTES = 1 * 1024 * 1024"

datatype message_kind = RequestKind | ResponseKind | EventKind

fun message_kind_tag :: "message_kind \<Rightarrow> 16 word" where
  "message_kind_tag RequestKind = 1"
| "message_kind_tag ResponseKind = 2"
| "message_kind_tag EventKind = 3"

record frame_header =
  fh_version :: "16 word"
  fh_message_type :: message_kind
  fh_payload_len :: "32 word"

datatype protocol_error = TruncatedHeader | PayloadTooLarge | VersionMismatch "16 word" "16 word" | Codec

datatype response_status = StatusOk | InvalidRequest | Unauthorized | StatusConflict | Unavailable | InternalError | PolicyViolation string

record response =
  rsp_status :: response_status
  rsp_message :: string

record 'q request_envelope =
  en_request :: 'q
  en_traceparent :: "string option"

record 'q json_codec =
  js_envelope :: "'q request_envelope \<Rightarrow> byte list option"
  js_response :: "response \<Rightarrow> byte list option"
  js_parse_envelope :: "byte list \<Rightarrow> 'q request_envelope option"
  js_parse_request :: "byte list \<Rightarrow> 'q option"
  js_parse_response :: "byte list \<Rightarrow> response option"

definition envelope_new :: "'q \<Rightarrow> 'q request_envelope" where
  "envelope_new request = \<lparr>en_request = request, en_traceparent = None\<rparr>"

definition with_traceparent :: "'q request_envelope \<Rightarrow> string \<Rightarrow> 'q request_envelope" where
  "with_traceparent envelope traceparent = envelope\<lparr>en_traceparent := Some traceparent\<rparr>"

text \<open>Clients from before the envelope send the bare request.\<close>

definition try_from_wire :: "'q json_codec \<Rightarrow> byte list \<Rightarrow> 'q request_envelope option" where
  "try_from_wire J bytes =
     (case js_parse_envelope J bytes of
        Some envelope \<Rightarrow> Some envelope
      | None \<Rightarrow> map_option envelope_new (js_parse_request J bytes))"

definition decode_header :: "byte list \<Rightarrow> (protocol_error, 32 word \<times> 16 word \<times> 16 word) result" where
  "decode_header bytes =
     (if length bytes < 8 then Err TruncatedHeader
      else Ok (from_le_bytes (take 4 bytes), from_le_bytes (take 2 (drop 4 bytes)), from_le_bytes (take 2 (drop 6 bytes))))"

definition encode_ipc_frame :: "message_kind \<Rightarrow> byte list \<Rightarrow> (protocol_error, byte list) result" where
  "encode_ipc_frame kind payload =
     (if length payload > MAX_IPC_PAYLOAD_LEN then Err PayloadTooLarge
      else Ok (to_le_bytes (of_nat (length payload) :: 32 word) @ to_le_bytes IPC_PROTOCOL_VERSION
             @ to_le_bytes (message_kind_tag kind) @ payload))"

definition ipc_encode_request :: "'q json_codec \<Rightarrow> 'q request_envelope \<Rightarrow> (protocol_error, byte list) result" where
  "ipc_encode_request J envelope =
     (case js_envelope J envelope of None \<Rightarrow> Err Codec | Some payload \<Rightarrow> encode_ipc_frame RequestKind payload)"

definition encode_request_bare :: "'q json_codec \<Rightarrow> 'q \<Rightarrow> (protocol_error, byte list) result" where
  "encode_request_bare J request = ipc_encode_request J (envelope_new request)"

definition ipc_encode_response :: "'q json_codec \<Rightarrow> response \<Rightarrow> (protocol_error, byte list) result" where
  "ipc_encode_response J response =
     (case js_response J response of None \<Rightarrow> Err Codec | Some payload \<Rightarrow> encode_ipc_frame ResponseKind payload)"

definition decode_frame :: "(byte list \<Rightarrow> 'a option) \<Rightarrow> byte list \<Rightarrow> (protocol_error, frame_header \<times> 'a) result" where
  "decode_frame parse bytes =
     (case decode_header bytes of
        Inl e \<Rightarrow> Err e
      | Inr (payload_len, version, message_type) \<Rightarrow>
          if version < MIN_ACCEPTED_IPC_PROTOCOL_VERSION \<or> version > IPC_PROTOCOL_VERSION
          then Err (VersionMismatch IPC_PROTOCOL_VERSION version)
          else
            let payload = drop 8 bytes in
            if length payload > MAX_IPC_PAYLOAD_LEN \<or> length payload \<noteq> unat payload_len then Err PayloadTooLarge
            else (case parse payload of
                None \<Rightarrow> Err Codec
              | Some x \<Rightarrow>
                  Ok (\<lparr>fh_version = version,
                       fh_message_type = (if message_type = 1 then RequestKind else if message_type = 2 then ResponseKind else EventKind),
                       fh_payload_len = payload_len\<rparr>, x)))"

definition ipc_decode_request :: "'q json_codec \<Rightarrow> byte list \<Rightarrow> (protocol_error, frame_header \<times> 'q request_envelope) result" where
  "ipc_decode_request J = decode_frame (try_from_wire J)"

definition ipc_decode_response :: "'q json_codec \<Rightarrow> byte list \<Rightarrow> (protocol_error, frame_header \<times> response) result" where
  "ipc_decode_response J = decode_frame (js_parse_response J)"

section \<open>Server and client\<close>

record peer_identity =
  pi_uid :: "32 word"
  pi_pid :: "32 word"

definition matches_owner :: "peer_identity \<Rightarrow> 32 word \<Rightarrow> bool" where
  "matches_owner peer owner_uid \<longleftrightarrow> pi_uid peer = owner_uid"

record ipc_server =
  is_owner_uid :: "32 word"

definition authorize_peer :: "ipc_server \<Rightarrow> peer_identity \<Rightarrow> bool" where
  "authorize_peer server peer = matches_owner peer (is_owner_uid server)"

definition encode_status :: "'q json_codec \<Rightarrow> response_status \<Rightarrow> string \<Rightarrow> (protocol_error, byte list) result" where
  "encode_status J status message = ipc_encode_response J \<lparr>rsp_status = status, rsp_message = message\<rparr>"

definition decode_envelope :: "'q json_codec \<Rightarrow> byte list \<Rightarrow> (protocol_error, 'q request_envelope) result" where
  "decode_envelope J bytes = map_sum id snd (ipc_decode_request J bytes)"

definition ipc_parse_response :: "'q json_codec \<Rightarrow> byte list \<Rightarrow> (protocol_error, response) result" where
  "ipc_parse_response J bytes = map_sum id snd (ipc_decode_response J bytes)"

definition ipc_roundtrip_envelope ::
  "'q json_codec \<Rightarrow> 'q request_envelope \<Rightarrow> (byte list \<Rightarrow> 's \<Rightarrow> (protocol_error, byte list) result \<times> 's) \<Rightarrow> 's
    \<Rightarrow> (protocol_error, response) result \<times> 's" where
  "ipc_roundtrip_envelope J envelope responder s =
     (case ipc_encode_request J envelope of
        Inl e \<Rightarrow> (Err e, s)
      | Inr request_bytes \<Rightarrow>
          (case responder request_bytes s of
             (Inl e, s') \<Rightarrow> (Err e, s')
           | (Inr response_bytes, s') \<Rightarrow> (ipc_parse_response J response_bytes, s')))"

section \<open>One connection\<close>

datatype ipc_io_kind = IoTimedOut | IoWouldBlock | IoUnexpectedEof | IoConnectionReset | IoBrokenPipe | IoOther

datatype ipc_transport_error = IpcIo ipc_io_kind | Protocol protocol_error | RequestTooLarge nat nat | PeerCredentialsUnavailable

text \<open>Reading past the bytes that arrive gives \<open>is_read_end\<close>; writing fails or not.\<close>

record ipc_stream =
  is_incoming :: "byte list"
  is_read_end :: ipc_io_kind
  is_written :: "byte list"
  is_write_error :: "ipc_io_kind option"
  is_closed :: bool

definition stream_read_exact :: "nat \<Rightarrow> ipc_stream \<Rightarrow> (ipc_transport_error, byte list) result \<times> ipc_stream" where
  "stream_read_exact n s =
     (if n \<le> length (is_incoming s) then (Ok (take n (is_incoming s)), s\<lparr>is_incoming := drop n (is_incoming s)\<rparr>)
      else (Err (IpcIo (is_read_end s)), s\<lparr>is_incoming := []\<rparr>))"

definition stream_write_all :: "byte list \<Rightarrow> ipc_stream \<Rightarrow> (ipc_transport_error, unit) result \<times> ipc_stream" where
  "stream_write_all bytes s =
     (case is_write_error s of
        Some e \<Rightarrow> (Err (IpcIo e), s)
      | None \<Rightarrow> (Ok (), s\<lparr>is_written := is_written s @ bytes\<rparr>))"

definition close_both :: "ipc_stream \<Rightarrow> ipc_stream" where
  "close_both s = s\<lparr>is_closed := True\<rparr>"

definition read_framed_request :: "ipc_stream \<Rightarrow> (ipc_transport_error, byte list) result \<times> ipc_stream" where
  "read_framed_request s =
     (case stream_read_exact 8 s of
        (Inl e, s1) \<Rightarrow> (Err e, s1)
      | (Inr header, s1) \<Rightarrow>
          let payload_len = unat (from_le_bytes (take 4 header) :: 32 word) in
          if payload_len > MAX_REQUEST_BYTES then (Err (RequestTooLarge payload_len MAX_REQUEST_BYTES), s1)
          else (case stream_read_exact payload_len s1 of
              (Inl e, s2) \<Rightarrow> (Err e, s2)
            | (Inr payload, s2) \<Rightarrow> (Ok (header @ payload), s2)))"

definition write_response ::
  "'q json_codec \<Rightarrow> response_status \<Rightarrow> string \<Rightarrow> ipc_stream \<Rightarrow> (ipc_transport_error, unit) result \<times> ipc_stream" where
  "write_response J status message s =
     (case encode_status J status message of
        Inl e \<Rightarrow> (Err (Protocol e), s)
      | Inr bytes \<Rightarrow> stream_write_all bytes s)"

fun display_protocol_error :: "protocol_error \<Rightarrow> string" where
  "display_protocol_error TruncatedHeader = ''frame header is truncated''"
| "display_protocol_error PayloadTooLarge = ''payload exceeds maximum IPC payload length''"
| "display_protocol_error (VersionMismatch expected actual) =
     ''invalid protocol version: expected '' @ show_nat (unat expected) @ '', got '' @ show_nat (unat actual)"
| "display_protocol_error Codec = ''json codec failure''"

definition handle_client_error ::
  "'q json_codec \<Rightarrow> ipc_transport_error \<Rightarrow> ipc_stream \<Rightarrow> (ipc_transport_error, unit) result \<times> ipc_stream" where
  "handle_client_error J err s =
     (case err of
        RequestTooLarge _ _ \<Rightarrow> (Ok (), close_both s)
      | Protocol e \<Rightarrow> (Ok (), snd (write_response J InvalidRequest (display_protocol_error e) s))
      | IpcIo k \<Rightarrow> if k \<noteq> IoOther then (Ok (), s) else (Err err, s)
      | PeerCredentialsUnavailable \<Rightarrow> (Err err, s))"

definition serve_stream ::
  "'q json_codec \<Rightarrow> ipc_server \<Rightarrow> peer_identity \<Rightarrow> ('q \<Rightarrow> 'h \<Rightarrow> response \<times> 'h) \<Rightarrow> ipc_stream \<Rightarrow> 'h
    \<Rightarrow> (ipc_transport_error, unit) result \<times> ipc_stream \<times> 'h" where
  "serve_stream J server peer handler s h =
     (if \<not> authorize_peer server peer then
        (let s1 = snd (read_framed_request s)
         in (Ok (), snd (write_response J Unauthorized
               (''unauthorized peer uid='' @ show_nat (unat (pi_uid peer)) @ '', pid='' @ show_nat (unat (pi_pid peer))) s1), h))
      else
        (case read_framed_request s of
           (Inl e, s1) \<Rightarrow> (case handle_client_error J e s1 of (r, s2) \<Rightarrow> (r, s2, h))
         | (Inr bytes, s1) \<Rightarrow>
             (case decode_envelope J bytes of
                Inl e \<Rightarrow> (case handle_client_error J (Protocol e) s1 of (r, s2) \<Rightarrow> (r, s2, h))
              | Inr envelope \<Rightarrow>
                  (case handler (en_request envelope) h of
                     (response, h') \<Rightarrow>
                       (Ok (), snd (write_response J (rsp_status response) (rsp_message response) s1), h')))))"

text \<open>Accepting a connection; \<open>None\<close> stands for credentials that cannot be read.  \<open>admitted\<close> says whether
  the caps leave room for the peer.\<close>

definition serve_once_with_peer ::
  "'q json_codec \<Rightarrow> ipc_server \<Rightarrow> peer_identity option \<Rightarrow> (32 word \<Rightarrow> bool) \<Rightarrow> (peer_identity \<Rightarrow> 'q \<Rightarrow> 'h \<Rightarrow> response \<times> 'h)
    \<Rightarrow> ipc_stream \<Rightarrow> 'h \<Rightarrow> (ipc_transport_error, unit) result \<times> ipc_stream \<times> 'h" where
  "serve_once_with_peer J server credentials admitted handler s h =
     (case credentials of
        None \<Rightarrow>
          (Ok (), snd (write_response J Unauthorized ''peer credentials unavailable'' (snd (read_framed_request s))), h)
      | Some peer \<Rightarrow>
          if \<not> admitted (pi_uid peer) then (Ok (), close_both s, h)
          else serve_stream J server peer (handler peer) s h)"

section \<open>Caps on connections\<close>

definition MAX_IPC_CONNECTIONS :: nat where "MAX_IPC_CONNECTIONS = 128"
definition MAX_IPC_CONNECTIONS_PER_PEER :: nat where "MAX_IPC_CONNECTIONS_PER_PEER = 32"

definition set_ipc_connection_caps :: "nat \<Rightarrow> nat \<Rightarrow> nat \<times> nat" where
  "set_ipc_connection_caps global per_peer = (global, min per_peer global)"

text \<open>The counters and the threads that work on them.  A thread that opens a connection reads the two caps
  (\<open>cn_reading\<close>, then \<open>cn_waiting\<close>), takes the lock of the map and keeps it (\<open>cn_lock\<close>) while it claims
  a place in the global counter; a thread that closes one gives the place back (\<open>cn_closing\<close>) before it
  takes the lock to count down the peer.\<close>

record connections =
  cn_caps :: "nat \<times> nat"
  cn_active :: nat
  cn_peers :: "32 word \<rightharpoonup> nat"
  cn_reading :: "(32 word \<times> nat) multiset"
  cn_waiting :: "(32 word \<times> nat \<times> nat) multiset"
  cn_lock :: "(32 word \<times> nat) option"
  cn_open :: "32 word multiset"
  cn_closing :: "32 word multiset"

definition connections_new :: connections where
  "connections_new = \<lparr>cn_caps = (MAX_IPC_CONNECTIONS, MAX_IPC_CONNECTIONS_PER_PEER), cn_active = 0, cn_peers = Map.empty,
     cn_reading = {#}, cn_waiting = {#}, cn_lock = None, cn_open = {#}, cn_closing = {#}\<rparr>"

definition count_in :: "(32 word \<rightharpoonup> nat) \<Rightarrow> 32 word \<Rightarrow> nat" where
  "count_in m uid = (case m uid of Some n \<Rightarrow> n | None \<Rightarrow> 0)"

definition peer_count :: "connections \<Rightarrow> 32 word \<Rightarrow> nat" where
  "peer_count c = count_in (cn_peers c)"

definition count_down :: "32 word \<Rightarrow> connections \<Rightarrow> 32 word \<rightharpoonup> nat" where
  "count_down uid c =
     (case cn_peers c uid of
        None \<Rightarrow> cn_peers c
      | Some n \<Rightarrow> if n - 1 = 0 then (cn_peers c)(uid := None) else (cn_peers c)(uid \<mapsto> n - 1))"

inductive connection_step :: "nat \<Rightarrow> nat \<Rightarrow> connections \<Rightarrow> connections \<Rightarrow> bool" for G P where
  configure: "fst caps \<le> G \<Longrightarrow> snd caps \<le> P \<Longrightarrow> connection_step G P c (c\<lparr>cn_caps := caps\<rparr>)"
| read_global: "connection_step G P c (c\<lparr>cn_reading := add_mset (uid, fst (cn_caps c)) (cn_reading c)\<rparr>)"
| read_per_peer: "(uid, g) \<in># cn_reading c \<Longrightarrow>
    connection_step G P c (c\<lparr>cn_reading := cn_reading c - {#(uid, g)#}, cn_waiting := add_mset (uid, g, snd (cn_caps c)) (cn_waiting c)\<rparr>)"
| peer_full: "(uid, g, p) \<in># cn_waiting c \<Longrightarrow> cn_lock c = None \<Longrightarrow> peer_count c uid \<ge> p \<Longrightarrow>
    connection_step G P c (c\<lparr>cn_waiting := cn_waiting c - {#(uid, g, p)#}, cn_peers := (cn_peers c)(uid \<mapsto> peer_count c uid)\<rparr>)"
| enter: "(uid, g, p) \<in># cn_waiting c \<Longrightarrow> cn_lock c = None \<Longrightarrow> peer_count c uid < p \<Longrightarrow>
    connection_step G P c (c\<lparr>cn_waiting := cn_waiting c - {#(uid, g, p)#}, cn_peers := (cn_peers c)(uid \<mapsto> peer_count c uid),
      cn_lock := Some (uid, g)\<rparr>)"
| all_full: "cn_lock c = Some (uid, g) \<Longrightarrow> cn_active c \<ge> g \<Longrightarrow>
    connection_step G P c (c\<lparr>cn_lock := None, cn_peers := (if peer_count c uid = 0 then (cn_peers c)(uid := None) else cn_peers c)\<rparr>)"
| admit: "cn_lock c = Some (uid, g) \<Longrightarrow> cn_active c < g \<Longrightarrow>
    connection_step G P c (c\<lparr>cn_lock := None, cn_active := cn_active c + 1, cn_peers := (cn_peers c)(uid \<mapsto> peer_count c uid + 1),
      cn_open := add_mset uid (cn_open c)\<rparr>)"
| give_back: "uid \<in># cn_open c \<Longrightarrow>
    connection_step G P c (c\<lparr>cn_active := cn_active c - 1, cn_open := cn_open c - {#uid#}, cn_closing := add_mset uid (cn_closing c)\<rparr>)"
| forget_peer: "uid \<in># cn_closing c \<Longrightarrow> cn_lock c = None \<Longrightarrow>
    connection_step G P c (c\<lparr>cn_closing := cn_closing c - {#uid#}, cn_peers := count_down uid c\<rparr>)"

definition connections_inv :: "nat \<Rightarrow> nat \<Rightarrow> connections \<Rightarrow> bool" where
  "connections_inv G P c \<longleftrightarrow>
     cn_active c = size (cn_open c) \<and> cn_active c \<le> G
     \<and> (\<forall>uid. peer_count c uid = count (cn_open c) uid + count (cn_closing c) uid)
     \<and> (\<forall>uid. count (cn_open c) uid + count (cn_closing c) uid \<le> P)
     \<and> fst (cn_caps c) \<le> G \<and> snd (cn_caps c) \<le> P
     \<and> (\<forall>(uid, g) \<in># cn_reading c. g \<le> G) \<and> (\<forall>(uid, g, p) \<in># cn_waiting c. g \<le> G \<and> p \<le> P)
     \<and> (\<forall>uid g. cn_lock c = Some (uid, g) \<longrightarrow> g \<le> G \<and> peer_count c uid < P)"

lemma count_in_upd [simp]:
  "count_in (m(uid \<mapsto> n)) v = (if v = uid then n else count_in m v)" "count_in (m(uid := None)) v = (if v = uid then 0 else count_in m v)"
  by (simp_all add: count_in_def)

lemma count_down_in: "count_in (count_down uid c) v = count_in (cn_peers c) v - (if v = uid then 1 else 0)"
  by (auto simp: count_in_def count_down_def split: option.split)

lemma connections_inv_step:
  assumes "connection_step G P c c'" and "connections_inv G P c"
  shows "connections_inv G P c'"
  using assms
proof (induction rule: connection_step.induct)
  case (enter uid g p c)
  then have "p \<le> P" "g \<le> G" by (auto simp: connections_inv_def)
  with enter show ?case by (auto simp: connections_inv_def peer_count_def dest: in_diffD)
next
  case (all_full c uid g)
  then show ?case by (auto simp: connections_inv_def peer_count_def)
next
  case (admit c uid g)
  then have "g \<le> G" "peer_count c uid < P" by (auto simp: connections_inv_def)
  with admit show ?case by (auto simp: connections_inv_def peer_count_def)
next
  case (give_back uid c)
  then have "size (cn_open c - {#uid#}) = size (cn_open c) - 1" "0 < count (cn_open c) uid"
    by (simp_all add: size_Diff_singleton)
  with give_back show ?case by (auto simp: connections_inv_def peer_count_def)
next
  case (forget_peer uid c)
  have "0 < count (cn_closing c) uid" using forget_peer by simp
  with forget_peer show ?case
    by (auto simp: connections_inv_def peer_count_def count_down_in intro: le_trans [OF diff_le_self])
qed (auto simp: connections_inv_def peer_count_def dest: in_diffD)



section \<open>Requests and responses come through\<close>

definition json_laws :: "'q json_codec \<Rightarrow> bool" where
  "json_laws J \<longleftrightarrow> (\<forall>e b. js_envelope J e = Some b \<longrightarrow> js_parse_envelope J b = Some e)
     \<and> (\<forall>r b. js_response J r = Some b \<longrightarrow> js_parse_response J b = Some r)"

lemma frame_roundtrip:
  assumes "encode_ipc_frame kind payload = Ok bytes"
  shows "length bytes = 8 + length payload" and "length payload \<le> MAX_IPC_PAYLOAD_LEN"
    and "decode_header bytes = Ok (of_nat (length payload), 1, message_kind_tag kind)"
    and "drop 8 bytes = payload" and "unat (of_nat (length payload) :: 32 word) = length payload"
proof -
  let ?l = "to_le_bytes (of_nat (length payload) :: 32 word)" and ?v = "to_le_bytes IPC_PROTOCOL_VERSION" and ?k = "to_le_bytes (message_kind_tag kind)"
  from assms have b: "bytes = ?l @ ?v @ ?k @ payload" and l: "length payload \<le> MAX_IPC_PAYLOAD_LEN"
    by (auto simp: encode_ipc_frame_def split: if_splits)
  have len: "length ?l = 4" "length ?v = 2" "length ?k = 2" by simp_all
  show "length bytes = 8 + length payload" "length payload \<le> MAX_IPC_PAYLOAD_LEN" using b l len by simp_all
  show "drop 8 bytes = payload" using b len by simp
  have parts: "take 4 bytes = ?l" "take 2 (drop 4 bytes) = ?v" "take 2 (drop 6 bytes) = ?k" using b len by simp_all
  have "from_le_bytes ?l = (of_nat (length payload) :: 32 word)" "from_le_bytes ?v = IPC_PROTOCOL_VERSION"
    "from_le_bytes ?k = message_kind_tag kind" by (rule from_to_le_bytes, simp)+
  then show "decode_header bytes = Ok (of_nat (length payload), 1, message_kind_tag kind)"
    unfolding decode_header_def parts using b len by (simp add: IPC_PROTOCOL_VERSION_def)
  have "length payload < 2 ^ LENGTH(32)" using l by (simp add: MAX_IPC_PAYLOAD_LEN_def)
  then show "unat (of_nat (length payload) :: 32 word) = length payload" by (rule unat_of_nat_small)
qed

lemma decode_encoded_frame:
  assumes "encode_ipc_frame kind payload = Ok bytes" and "parse payload = Some x"
  shows "\<exists>hdr. decode_frame parse bytes = Ok (hdr, x)"
  using frame_roundtrip [OF assms(1)] assms(2)
  by (simp add: decode_frame_def MIN_ACCEPTED_IPC_PROTOCOL_VERSION_def IPC_PROTOCOL_VERSION_def)

text \<open>C13: a request reaches the handler as it was sent and the response comes back as it was given.  When
  the owner's client sends an encoded envelope, the handler runs once, on the request of that envelope,
  the bytes written are the encoded response, which the client parses to what the handler answered, and
  nothing behind the request is consumed.\<close>

theorem ipc_roundtrip:
  assumes "json_laws J" and "authorize_peer server peer" and "ipc_encode_request J envelope = Ok bytes"
    and "is_incoming s = bytes @ rest" and "is_write_error s = None" and "is_written s = []"
    and "handler (en_request envelope) h = (answer, h')" and "ipc_encode_response J answer = Ok out"
  shows "serve_stream J server peer handler s h = (Ok (), s\<lparr>is_incoming := rest, is_written := out\<rparr>, h')
    \<and> ipc_parse_response J out = Ok answer"
proof -
  obtain payload where e: "js_envelope J envelope = Some payload" "encode_ipc_frame RequestKind payload = Ok bytes"
    using assms(3) by (auto simp: ipc_encode_request_def split: option.splits)
  note f = frame_roundtrip [OF e(2)]
  have "from_le_bytes (take 4 bytes) = (of_nat (length payload) :: 32 word)"
    using f(1,3) by (simp add: decode_header_def)
  moreover have "MAX_IPC_PAYLOAD_LEN = MAX_REQUEST_BYTES" by (simp add: MAX_IPC_PAYLOAD_LEN_def MAX_REQUEST_BYTES_def)
  ultimately have r: "read_framed_request s = (Ok bytes, s\<lparr>is_incoming := rest\<rparr>)"
    using f assms(4)
    by (simp add: read_framed_request_def stream_read_exact_def Let_def min_def)
      (metis append_take_drop_id)
  have "try_from_wire J payload = Some envelope" using assms(1) e(1) by (simp add: try_from_wire_def json_laws_def)
  then have d: "decode_envelope J bytes = Ok envelope"
    using decode_encoded_frame [OF e(2)] by (fastforce simp: decode_envelope_def ipc_decode_request_def)
  obtain body where o: "js_response J answer = Some body" "encode_ipc_frame ResponseKind body = Ok out"
    using assms(8) by (auto simp: ipc_encode_response_def split: option.splits)
  have "js_parse_response J body = Some answer" using assms(1) o(1) by (simp add: json_laws_def)
  then have "ipc_parse_response J out = Ok answer"
    using decode_encoded_frame [OF o(2)] by (fastforce simp: ipc_parse_response_def ipc_decode_response_def)
  moreover obtain status message where "answer = \<lparr>rsp_status = status, rsp_message = message\<rparr>" by (cases answer)
  ultimately show ?thesis
    using assms(2,5-8) by (simp add: serve_stream_def r d write_response_def encode_status_def stream_write_all_def)
qed

text \<open>A codec for requests that are byte strings: a tag and the string.\<close>

definition tiny_codec :: "byte list json_codec" where
  "tiny_codec =
     \<lparr>js_envelope = (\<lambda>e. if en_traceparent e = None then Some (1 # en_request e) else None),
      js_response = (\<lambda>r. if rsp_status r = StatusOk then Some (2 # as_bytes (rsp_message r)) else None),
      js_parse_envelope = (\<lambda>b. case b of x # q \<Rightarrow> if x = 1 then Some (envelope_new q) else None | [] \<Rightarrow> None),
      js_parse_request = (\<lambda>b. None),
      js_parse_response = (\<lambda>b. case b of x # m \<Rightarrow> if x = 2 then Some \<lparr>rsp_status = StatusOk, rsp_message = of_bytes m\<rparr> else None | [] \<Rightarrow> None)\<rparr>"

theorem ipc_roundtrip_witness:
  "\<exists>bytes out. ipc_encode_request tiny_codec (envelope_new [9]) = Ok bytes
    \<and> serve_stream tiny_codec \<lparr>is_owner_uid = 5\<rparr> \<lparr>pi_uid = 5, pi_pid = 1\<rparr> (\<lambda>q h. (\<lparr>rsp_status = StatusOk, rsp_message = ''k''\<rparr>, q # h))
        \<lparr>is_incoming = bytes, is_read_end = IoUnexpectedEof, is_written = [], is_write_error = None, is_closed = False\<rparr> []
      = (Ok (), \<lparr>is_incoming = [], is_read_end = IoUnexpectedEof, is_written = out, is_write_error = None, is_closed = False\<rparr>, [[9]])
    \<and> ipc_parse_response tiny_codec out = Ok \<lparr>rsp_status = StatusOk, rsp_message = ''k''\<rparr>"
proof -
  let ?a = "\<lparr>rsp_status = StatusOk, rsp_message = ''k''\<rparr>" and ?handler = "\<lambda>q h. (\<lparr>rsp_status = StatusOk, rsp_message = ''k''\<rparr>, q # h)"
  have laws: "json_laws tiny_codec"
    by (auto simp: json_laws_def tiny_codec_def envelope_new_def split: if_splits)
  obtain bytes where b: "ipc_encode_request tiny_codec (envelope_new [9]) = Ok bytes"
    by (simp add: ipc_encode_request_def tiny_codec_def envelope_new_def encode_ipc_frame_def MAX_IPC_PAYLOAD_LEN_def)
  obtain out where o: "ipc_encode_response tiny_codec ?a = Ok out"
    by (simp add: ipc_encode_response_def tiny_codec_def encode_ipc_frame_def MAX_IPC_PAYLOAD_LEN_def as_bytes_def)
  let ?s = "\<lparr>is_incoming = bytes, is_read_end = IoUnexpectedEof, is_written = [], is_write_error = None, is_closed = False\<rparr>"
  have "serve_stream tiny_codec \<lparr>is_owner_uid = 5\<rparr> \<lparr>pi_uid = 5, pi_pid = 1\<rparr> ?handler ?s []
      = (Ok (), ?s\<lparr>is_incoming := [], is_written := out\<rparr>, [[9]]) \<and> ipc_parse_response tiny_codec out = Ok ?a"
    by (rule ipc_roundtrip [OF laws _ b _ _ _ _ o])
      (simp_all add: authorize_peer_def matches_owner_def envelope_new_def)
  with b show ?thesis by auto
qed

section \<open>What a peer can do to the daemon\<close>

lemma write_response_spec:
  "is_incoming (snd (write_response J status message s)) = is_incoming s"
  "is_written (snd (write_response J status message s)) = is_written s
    \<or> (\<exists>out. encode_status J status message = Ok out \<and> is_written (snd (write_response J status message s)) = is_written s @ out)"
  by (auto simp: write_response_def stream_write_all_def split: sum.split option.split)

lemma read_framed_bound:
  "read_framed_request s = (r, s') \<Longrightarrow> length (is_incoming s) \<le> length (is_incoming s') + 8 + MAX_REQUEST_BYTES
    \<and> is_written s' = is_written s \<and> (\<forall>bytes. r = Ok bytes \<longrightarrow> length bytes \<le> 8 + MAX_REQUEST_BYTES)"
  by (auto simp: read_framed_request_def stream_read_exact_def Let_def split: if_splits sum.splits)

text \<open>C14: a peer that does not own the daemon gets one refusal and nothing else, and no peer makes the daemon
  read more than a header and the largest request: whatever bytes arrive, the handler runs only for the
  owner, on a request that was decoded from one complete frame; and at most one response is written.\<close>

theorem peer_contained:
  "case serve_stream J server peer handler s h of (r, s', h') \<Rightarrow>
     length (is_incoming s) \<le> length (is_incoming s') + 8 + MAX_REQUEST_BYTES
     \<and> (is_written s' = is_written s \<or> (\<exists>status message out. encode_status J status message = Ok out \<and> is_written s' = is_written s @ out
          \<and> (authorize_peer server peer \<or> status = Unauthorized)))
     \<and> (h' = h \<or> authorize_peer server peer \<and> (\<exists>bytes envelope. fst (read_framed_request s) = Ok bytes
          \<and> decode_envelope J bytes = Ok envelope \<and> h' = snd (handler (en_request envelope) h)))"
proof -
  obtain q s1 where q: "read_framed_request s = (q, s1)" by fastforce
  note b = read_framed_bound [OF q]
  have w: "is_incoming (snd (handle_client_error J e s1)) = is_incoming s1
      \<and> (is_written (snd (handle_client_error J e s1)) = is_written s1
         \<or> (\<exists>status message out. encode_status J status message = Ok out \<and> is_written (snd (handle_client_error J e s1)) = is_written s1 @ out))" for e
  proof (cases e)
    case (Protocol p)
    have "handle_client_error J e s1 = (Ok (), snd (write_response J InvalidRequest (display_protocol_error p) s1))"
      by (simp add: Protocol handle_client_error_def)
    then show ?thesis using write_response_spec [of J InvalidRequest "display_protocol_error p" s1] by (metis snd_conv)
  qed (auto simp: handle_client_error_def close_both_def)
  show ?thesis
  proof (cases "authorize_peer server peer")
    case False
    then obtain message where "serve_stream J server peer handler s h = (Ok (), snd (write_response J Unauthorized message s1), h)"
      using q by (simp add: serve_stream_def)
    with b write_response_spec [of J Unauthorized message s1] show ?thesis by auto
  next
    case auth: True
    show ?thesis
    proof (cases q)
      case (Inl e)
      with auth q b w [of e] show ?thesis by (auto simp: serve_stream_def split: prod.split)
    next
      case (Inr bytes)
      show ?thesis
      proof (cases "decode_envelope J bytes")
        case e: (Inl e)
        with auth q b w [of "Protocol e"] Inr show ?thesis by (auto simp: serve_stream_def split: prod.split)
      next
        case e: (Inr envelope)
        obtain response h1 where r: "handler (en_request envelope) h = (response, h1)" by fastforce
        then have "serve_stream J server peer handler s h
            = (Ok (), snd (write_response J (rsp_status response) (rsp_message response) s1), h1)"
          using auth q Inr e by (simp add: serve_stream_def)
        with auth q b Inr e r write_response_spec [of J "rsp_status response" "rsp_message response" s1] show ?thesis by auto
      qed
    qed
  qed
qed

text \<open>A response above the limit is not sent at all: the client sees the connection end without a header.\<close>

lemma oversized_response_lost:
  assumes "js_response J answer = Some body" and "length body > MAX_IPC_PAYLOAD_LEN"
  shows "write_response J (rsp_status answer) (rsp_message answer) s = (Err (Protocol PayloadTooLarge), s)"
    and "ipc_parse_response J [] = Err TruncatedHeader"
proof -
  obtain status message where "answer = \<lparr>rsp_status = status, rsp_message = message\<rparr>" by (cases answer)
  with assms show "write_response J (rsp_status answer) (rsp_message answer) s = (Err (Protocol PayloadTooLarge), s)"
    by (simp add: write_response_def encode_status_def ipc_encode_response_def encode_ipc_frame_def)
  show "ipc_parse_response J [] = Err TruncatedHeader"
    by (simp add: ipc_parse_response_def ipc_decode_response_def decode_frame_def decode_header_def)
qed

section \<open>Paths of sync roots\<close>

datatype path_validation_error = NulByte | DotDot | SymlinkPath | NonUtf8 | TooLong | PathIo

definition MAX_SYNC_PATH_LEN :: nat where "MAX_SYNC_PATH_LEN = 4096"

text \<open>\<open>exists\<close> follows symbolic links; \<open>symlink_metadata\<close> does not, except, as POSIX has it, through a path that
  ends in a slash.\<close>

record path_fs =
  pf_exists :: "string \<Rightarrow> bool"
  pf_is_symlink :: "string \<Rightarrow> (unit, bool) result"

definition validate_local_sync_path :: "path_fs \<Rightarrow> string \<Rightarrow> (path_validation_error, unit) result" where
  "validate_local_sync_path F path =
     (if \<not> utf8_valid (as_bytes path) then Err NonUtf8
      else if length path > MAX_SYNC_PATH_LEN then Err TooLong
      else if CHR 0x00 \<in> set path then Err NulByte
      else if ''..'' \<in> set (split_on CHR ''/'' path) then Err DotDot
      else if pf_exists F path then
        (case pf_is_symlink F path of
           Inl _ \<Rightarrow> Err PathIo
         | Inr True \<Rightarrow> Err SymlinkPath
         | Inr False \<Rightarrow> Ok ())
      else Ok ())"

text \<open>A file system with a link at \<open>/l\<close> to a directory and one at \<open>/d\<close> to nothing.\<close>

definition linked_fs :: path_fs where
  "linked_fs = \<lparr>pf_exists = (\<lambda>p. p \<in> {''/l'', ''/l/''}), pf_is_symlink = (\<lambda>p. Ok (p \<in> {''/l'', ''/d''}))\<rparr>"

lemma symlinks_accepted:
  "validate_local_sync_path linked_fs ''/l'' = Err SymlinkPath"
  "validate_local_sync_path linked_fs ''/l/'' = Ok ()"
  "validate_local_sync_path linked_fs ''/d'' = Ok ()"
  by code_simp+

end
