(* ===== verification/Spec2Isabelle.thy ===== *)
theory Spec2Isabelle
  imports Engine Supervision Diff_Events Selective Circuit_Breaker Retry Cache
    Wire Auth_Tree Crypto_Sessions Inode_Table Upload_Safety Resilient_Transport Auth_Flow Proto_Resilience
    Sync_Safety Ipc
begin

text \<open>
  A verification library for the core of \<open>pcloud-rs\<close>, the Rust rewrite of the
  pCloud synchronisation client.  Paths below are relative to \<open>src/crates\<close>.

  \<^bold>\<open>The program.\<close>  A daemon keeps local directories (sync roots) and a
  remote account in step.  Changes are observed on both sides (a local scanner
  and file-system watcher, a remote diff poller), normalised into candidates,
  planned into operations, queued, handed in batches to the upload and
  download coordinators, and acknowledged when the transfer is durable
  (\<open>pcloud-engine\<close> over \<open>pcloud-model\<close>).  The sync loop of \<open>pcloud-daemon\<close> drives
  this pipeline, one cycle after the other, with the durable state in \<open>pcloud-store\<close>
  and the network behind \<open>pcloud-proto\<close>, whose requests pass the retry, breaker and
  budget layers of \<open>pcloud-resilience\<close>.  Beside it stand the mounted drive
  (\<open>pcloud-fs\<close>), whose write path stages and uploads what a program writes, the
  session of the signed-in user (\<open>pcloud-auth\<close>), and the client-side encryption
  (\<open>pcloud-crypto\<close>, \<open>pcloud-kms\<close>).

  \<^bold>\<open>Foundations.\<close>

  \<^item> \<open>Prelude\<close>, \<open>Rust_Str\<close>, \<open>Bytes\<close>: the parts of Rust's standard library the sources use
    (\<open>Result\<close> collection, operations on vectors, \<open>str\<close> methods on UTF-8 byte lists,
    little-endian integers, hexadecimal) with the lemmas the components share.
  \<^item> \<open>Model\<close>: \<open>pcloud-model/src/\<close> (\<open>ids.rs\<close>, \<open>sync.rs\<close>, \<open>conflict.rs\<close>, \<open>transfer.rs\<close>, \<open>auth.rs\<close>).

  \<^bold>\<open>The engine\<close>, \<open>pcloud-engine/src\<close>.

  \<^item> \<open>Planner\<close> (\<open>planner.rs\<close>): the loops of \<open>plan_with_overflow\<close> refine a declarative
    plan; the cap only delays work; no side overwrites the other unseen.
  \<^item> \<open>Conflict_Resolver\<close> (\<open>conflict_resolver.rs\<close>): which side each policy may
    overwrite; conflict-copy names never collide and stay in their directory.
  \<^item> \<open>Contracts\<close>: the locales \<open>evictable\<close> (stores a root can be evicted from) and
    \<open>batch_source\<close> (queues that hand out batches).
  \<^item> \<open>Scheduler\<close> (\<open>scheduler.rs\<close>): a batch partitions the queue, fairness and its
    limits, dispatch order, isolation of roots, exact acknowledgement.
  \<^item> \<open>Transfers\<close> (\<open>transfers/downloads.rs\<close>, \<open>transfers/uploads.rs\<close>): the locale
    \<open>coordinator\<close>, interpreted for both, shows that no accepted operation is
    lost; the chunk tracker completes without overrun or wrap-around.
  \<^item> \<open>Paths\<close>, \<open>Ingest\<close> (\<open>is_valid_relative_path\<close> of \<open>lib.rs\<close>; \<open>diff_poller.rs\<close>,
    \<open>local_scan.rs\<close>, \<open>fs_events.rs\<close>): each source of changes is an instance of the
    locale \<open>ingestor\<close> and accepts only paths that stay inside the sync root.
  \<^item> \<open>Recovery\<close> (\<open>recovery.rs\<close>), \<open>Diff_Events\<close> (\<open>diff_events.rs\<close>), \<open>Selective\<close>
    (\<open>selective.rs\<close>), \<open>Supervision\<close> (\<open>stall_detector.rs\<close>, \<open>divergence_sweeper.rs\<close>).
  \<^item> \<open>Engine\<close> (\<open>EngineShell\<close> of \<open>lib.rs\<close>): its invariant over every sequence of
    operations, crash safety of the durable queue, and the places where the
    code does not do what its documentation says.

  \<^bold>\<open>The sync loop.\<close>

  \<^item> \<open>Audit_Chain\<close> (\<open>pcloud-store/src/repositories/audit.rs\<close>): the hash-chained log;
    what it detects and what it does not.
  \<^item> \<open>Sync_Store\<close> (\<open>sync_graph.rs\<close>, \<open>diff_state.rs\<close>, \<open>values.rs\<close>, \<open>file_metadata.rs\<close> of
    the same directory): tables, transactions, and a schedule of failing statements.
  \<^item> \<open>Diff_Client\<close> (\<open>pcloud-proto/src/sync_api.rs\<close>, \<open>diff_api.rs\<close>,
    \<open>pcloud-backends/src/sync_backend.rs\<close>): two clients of one stream and the poller
    that reads it without a gap.
  \<^item> \<open>Local_Walk\<close>: the walk of the local tree, which terminates on cyclic trees.
  \<^item> \<open>Sync_Cycle\<close> (\<open>pcloud-daemon/src/sync_loop.rs\<close>, \<open>pcloud-config/src/sync_loop.rs\<close>,
    \<open>pcloud-engine/src/power.rs\<close>): the loop over any runtime, whose interface is the
    record \<open>sync_loop_runtime\<close>, between other threads; the locale
    \<open>runtime_invariant\<close> carries an invariant of the operations to the whole run.
  \<^item> \<open>Sync_Runtime\<close> (\<open>pcloud-daemon/src/sync_loop_runtime.rs\<close>): the operations on
    engine, store, network and files; \<open>Sync_Safety\<close>: what holds of a whole run, by
    interpreting \<open>runtime_invariant\<close> and comparing two runs (\<open>runtime_agreement\<close>).

  \<^bold>\<open>The daemon's interface.\<close>

  \<^item> \<open>Ipc\<close> (\<open>pcloud-ipc/src\<close>): framing, one connection of a client, the caps on
    connections under all interleavings, validation of sync roots.

  \<^bold>\<open>Network.\<close>

  \<^item> \<open>Wire\<close> (\<open>pcloud-proto/src/binary_api.rs\<close>, \<open>response.rs\<close>, \<open>transport.rs\<close>): request
    encoder, response parser, read loop.
  \<^item> \<open>Circuit_Breaker\<close>, \<open>Retry\<close>, \<open>Http_Date\<close>, \<open>Resilient_Transport\<close>
    (\<open>pcloud-resilience/src\<close>) and \<open>Proto_Resilience\<close>
    (\<open>pcloud-proto/src/resilient_transport.rs\<close>): interleavings of callers as step
    relations, the two retry loops, dates of \<open>Retry-After\<close>.
  \<^item> \<open>Api_Transport\<close>, \<open>Auth_Api\<close>, \<open>Auth_Session\<close>, \<open>Auth_Flow\<close> (\<open>pcloud-config/src/api.rs\<close>,
    \<open>pcloud-proto/src/auth_api.rs\<close>, \<open>pcloud-auth/src\<close>): hosts a hint may move the
    client to, login, second factor, refresh, idle logout.

  \<^bold>\<open>Encryption\<close>, \<open>pcloud-crypto/src\<close> and \<open>pcloud-kms/src/lib.rs\<close>.

  \<^item> \<open>Crypto\<close>, \<open>Sector\<close>, \<open>Auth_Tree\<close>, \<open>Filename\<close>: block modes, sealed sectors, the tree
    over their tags, encrypted names; \<open>Kms\<close>, \<open>Compat_Profile\<close>: key providers and
    the compatible key profile.
  \<^item> \<open>Crypto_Shell\<close>, \<open>Crypto_Lifecycle\<close>, \<open>Crypto_Sessions\<close>: the runtime of the keys over
    every sequence of its operations: lockout, nonce budget, round trips.

  \<^bold>\<open>The mounted drive\<close>, \<open>pcloud-fs/src\<close>, and caches.

  \<^item> \<open>Fs_Paths\<close>, \<open>Inode_Table\<close>, \<open>Write_Journal\<close>, \<open>Staging_Dir\<close>, \<open>Write_Path\<close>: the
    components; \<open>Upload_Contract\<close> the locale \<open>upload_server\<close>, \<open>Mock_Backend\<close> its instance;
    \<open>Write_Accounting\<close>, \<open>Upload_Safety\<close>: staged bytes, reads after writes, what an
    interrupted and resumed upload stores and when it finishes.
  \<^item> \<open>Cache\<close> (\<open>pcloud-cache/src/\<close>): the locale \<open>fifo_cache\<close> with the page cache (over
    the locale \<open>linked_map\<close>) and the staging cache as instances.

  \<^bold>\<open>Conventions.\<close>  A Rust struct is a record whose fields carry a
  prefix where two structs share a field name; \<open>&mut self\<close> methods return the
  new state, with their result in a pair; \<open>Result\<close> is a sum with \<open>Inl\<close> the error;
  strings are lists of the bytes of their UTF-8 form; \<open>usize\<close> is \<open>nat\<close>, \<open>u64\<close> is
  \<open>64 word\<close>; \<open>sort_by\<close> is the stable \<open>sort_key\<close>.  Clocks and randomness are arguments;
  failing disks and databases are lists of faults in the state; other threads are
  steps between the accesses of the modelled one.  Logging, metrics and debug
  assertions are left out.

  Parameters, with what is assumed of them named where it is used: AES, HMAC,
  SHA-1, SHA-256, Argon2, AES-GCM and RSA; the key services; Unicode
  normalisation; JSON; the glob matcher and the linked hash map; floating-point
  delays and thresholds; sockets, TLS and the transfer backend; file systems and
  file watchers; the upload server.

  No definition uses fuel.  A loop is structural or has a termination proof,
  except for three that may run for ever and are partial functions: the sync loop
  (proved to return once a shutdown is requested), the HTTP retry loop (proved to
  return unless the server throttles for ever), and the page cache's eviction loop
  over an external map (proved to return).

  \<^bold>\<open>Not modelled.\<close>  FUSE callbacks and the platform layers of the drive; the
  dispatch of the daemon's own requests, its services and their scheduling; the
  command line, the SDK facade and the web views; the clients of the other server
  methods; SQL schema and migrations; floating-point rate limits; the integrations
  with identity and key services.  They are input and output, glue or code
  generated from declarations, or wait for a later extension.

  \<^bold>\<open>Order of extension.\<close>  The transfer client and its backend; the residency and
  ignore rules; the remaining repositories of the store.
\<close>

end
